(* ===== verification/Mpd_Prelude.thy ===== *)
theory Mpd_Prelude
  imports Main "HOL-Library.Word" "HOL-Library.Multiset"
begin

text \<open>
  Shared vocabulary of the development: the fact collections the component theories
  fill and the component proofs consume, the types that name what the C++ sources
  pass around (fallible results, system-clock time points, nullable string views),
  and generic lemmas on lists, folds and sums that more than one component needs.
  Nothing here models code of its own.
\<close>

section \<open>Fact collections\<close>

named_theorems text_simps \<open>equations of the string utilities on structured arguments\<close>
named_theorems number_simps \<open>decimal printing and the C number parsers\<close>
named_theorems codec_simps \<open>what a loader does on the text its writer produced\<close>
named_theorems dir_simps \<open>selectors of a directory after an operation on it\<close>
named_theorems wf_intros \<open>operations that keep a well-formedness invariant\<close>

section \<open>Types shared by the components\<close>

text \<open>
  A C++ function that may throw returns \<^typ>\<open>'e + 'a\<close>, \<open>Inl\<close> being the exception.
  A \<open>std::chrono::system_clock::time_point\<close> is its count of nanoseconds since the
  epoch; \<open>time_point::min()\<close> is the value the sources use for ``unknown''.
\<close>

type_synonym time_point = int

definition time_point_min :: time_point where
  "time_point_min = - (2 ^ 63)"

definition nanos_per_second :: int where
  "nanos_per_second = 1000000000"

text \<open>
  Where the code can leave the language, a call has three outcomes: \<open>UB\<close> is a null dereference,
  a read beyond the end of a string, or the use of an invalidated iterator.
\<close>

datatype 'a outcome = Returns 'a | Throws string | UB

fun and_then :: "'a outcome \<Rightarrow> ('a \<Rightarrow> 'b outcome) \<Rightarrow> 'b outcome" where
  "and_then (Returns x) f = f x"
| "and_then (Throws e) f = Throws e"
| "and_then UB f = UB"

lemma and_then_cong [fundef_cong]:
  "\<lbrakk>x = y; \<And>a. y = Returns a \<Longrightarrow> f a = g a\<rbrakk> \<Longrightarrow> and_then x f = and_then y g"
  by (cases y) simp_all

text \<open>\<open>system_clock::to_time_t\<close> truncates towards zero, \<open>from_time_t\<close> scales.\<close>

definition to_time_t :: "time_point \<Rightarrow> int" where
  "to_time_t t = (if t < 0 then - ((- t) div nanos_per_second) else t div nanos_per_second)"

definition from_time_t :: "int \<Rightarrow> time_point" where
  "from_time_t s = s * nanos_per_second"

lemma time_point_min_neg [simp]: "time_point_min < 0"
  by (simp add: time_point_min_def)

lemma nanos_pos [simp]: "0 < nanos_per_second"
  by (simp add: nanos_per_second_def)

lemma to_time_t_nonneg [simp]: "0 \<le> t \<Longrightarrow> 0 \<le> to_time_t t"
  by (simp add: to_time_t_def pos_imp_zdiv_nonneg_iff)

lemma to_time_t_from_time_t [simp]: "to_time_t (from_time_t s) = s"
proof -
  have "(- (s * nanos_per_second)) div nanos_per_second = - s"
    by (metis minus_mult_left nanos_pos nonzero_mult_div_cancel_right order_less_irrefl)
  then show ?thesis
    by (simp add: to_time_t_def from_time_t_def nanos_per_second_def)
qed

lemma from_time_t_neg_iff [simp]: "from_time_t s < 0 \<longleftrightarrow> s < 0"
  by (simp add: from_time_t_def nanos_per_second_def)

section \<open>Fallible folds\<close>

text \<open>A loop whose body may throw: the first exception ends it.\<close>

fun fold_res :: "('a \<Rightarrow> 's \<Rightarrow> 'e + 's) \<Rightarrow> 'a list \<Rightarrow> 's \<Rightarrow> 'e + 's" where
  "fold_res f [] s = Inr s"
| "fold_res f (x # xs) s = (case f x s of Inl e \<Rightarrow> Inl e | Inr s' \<Rightarrow> fold_res f xs s')"

lemma fold_res_append:
  "fold_res f (xs @ ys) s = (case fold_res f xs s of Inl e \<Rightarrow> Inl e | Inr s' \<Rightarrow> fold_res f ys s')"
  by (induction xs arbitrary: s) (auto split: sum.splits)

lemma fold_res_invariant:
  assumes "fold_res f xs s = Inr t" and "P s"
    and "\<And>x s s'. x \<in> set xs \<Longrightarrow> P s \<Longrightarrow> f x s = Inr s' \<Longrightarrow> P s'"
  shows "P t"
  using assms
proof (induction xs arbitrary: s)
  case (Cons x xs)
  then obtain s' where step: "f x s = Inr s'" and rest: "fold_res f xs s' = Inr t"
    by (auto split: sum.splits)
  have "P s'" using Cons.prems(3) [of x s s'] Cons.prems(2) step by simp
  with rest show ?case
    by (rule Cons.IH) (rule Cons.prems(3), auto)
qed simp

lemma fold_invariant_set:
  assumes "P s" and "\<And>x s. x \<in> set xs \<Longrightarrow> P s \<Longrightarrow> P (f x s)"
  shows "P (fold f xs s)"
  using assms by (induction xs arbitrary: s) auto

section \<open>Lists\<close>

lemma takeWhile_append_stop:
  "\<lbrakk>\<forall>x \<in> set xs. P x; \<not> P y\<rbrakk> \<Longrightarrow> takeWhile P (xs @ y # ys) = xs"
  by (simp add: takeWhile_append2)

lemma dropWhile_append_stop:
  "\<lbrakk>\<forall>x \<in> set xs. P x; \<not> P y\<rbrakk> \<Longrightarrow> dropWhile P (xs @ y # ys) = y # ys"
  by (simp add: dropWhile_append2)

lemma takeWhile_neq_append:
  "c \<notin> set xs \<Longrightarrow> takeWhile (\<lambda>x. x \<noteq> c) (xs @ c # ys) = xs"
  by (rule takeWhile_append_stop) auto

lemma dropWhile_neq_append:
  "c \<notin> set xs \<Longrightarrow> dropWhile (\<lambda>x. x \<noteq> c) (xs @ c # ys) = c # ys"
  by (rule dropWhile_append_stop) auto

lemma find_None_iff_map:
  "find (\<lambda>x. f x = k) xs = None \<longleftrightarrow> k \<notin> f ` set xs"
  by (auto simp: find_None_iff)

lemma find_SomeD:
  "find P xs = Some x \<Longrightarrow> x \<in> set xs \<and> P x"
  by (auto simp: find_Some_iff)

lemma find_distinct_map:
  "\<lbrakk>distinct (map f xs); x \<in> set xs\<rbrakk> \<Longrightarrow> find (\<lambda>y. f y = f x) xs = Some x"
  by (induction xs) (auto simp: rev_image_eqI)

text \<open>
  Replacing or removing the first element that satisfies a predicate: what the code
  does through an iterator or a pointer to one list element.
\<close>

fun update_first :: "('a \<Rightarrow> bool) \<Rightarrow> ('a \<Rightarrow> 'a) \<Rightarrow> 'a list \<Rightarrow> 'a list" where
  "update_first P f [] = []"
| "update_first P f (x # xs) = (if P x then f x # xs else x # update_first P f xs)"

fun remove_first :: "('a \<Rightarrow> bool) \<Rightarrow> 'a list \<Rightarrow> 'a list" where
  "remove_first P [] = []"
| "remove_first P (x # xs) = (if P x then xs else x # remove_first P xs)"

lemma length_update_first [simp]: "length (update_first P f xs) = length xs"
  by (induction xs) auto

lemma update_first_same: "\<lbrakk>find P xs = Some x; f x = x\<rbrakk> \<Longrightarrow> update_first P f xs = xs"
  by (induction xs) (auto split: if_splits)

lemma map_update_first_same:
  "(\<And>x. P x \<Longrightarrow> g (f x) = g x) \<Longrightarrow> map g (update_first P f xs) = map g xs"
  by (induction xs) auto

lemma update_first_none: "\<forall>x \<in> set xs. \<not> P x \<Longrightarrow> update_first P f xs = xs"
  by (induction xs) auto

lemma set_update_first_subset:
  "set (update_first P f xs) \<subseteq> set xs \<union> f ` {x \<in> set xs. P x}"
  by (induction xs) auto

lemma set_remove_first_subset: "set (remove_first P xs) \<subseteq> set xs"
  by (induction xs) auto

lemma distinct_map_remove_first:
  "distinct (map f xs) \<Longrightarrow> distinct (map f (remove_first P xs))"
  using set_remove_first_subset by (induction xs) fastforce+

lemma remove_first_distinct_set:
  "distinct (map f xs) \<Longrightarrow>
    set (remove_first (\<lambda>x. f x = k) xs) = {x \<in> set xs. f x \<noteq> k}"
  by (induction xs) (auto simp: rev_image_eqI)

lemma remove_first_none: "\<forall>x \<in> set xs. \<not> P x \<Longrightarrow> remove_first P xs = xs"
  by (induction xs) auto

lemma remove_first_conv_filter:
  "distinct (map f xs) \<Longrightarrow> remove_first (\<lambda>x. f x = k) xs = filter (\<lambda>x. f x \<noteq> k) xs"
proof (induction xs)
  case (Cons x xs)
  have "filter (\<lambda>y. f y \<noteq> f x) xs = xs"
    using Cons.prems by (auto simp: filter_id_conv image_iff)
  with Cons show ?case by auto
qed simp

lemma distinct_map_filterI: "distinct (map f xs) \<Longrightarrow> distinct (map f (filter P xs))"
  by (induction xs) auto

section \<open>Text codecs\<close>

text \<open>
  The contract between a printer and a parser of single values: on the values in
  \<open>ok\<close> the parser returns what was printed. Printing is then injective there, and the
  parser's image of the printed texts is exactly \<open>ok\<close>.
\<close>

locale text_codec =
  fixes enc :: "'a \<Rightarrow> 't" and dec :: "'t \<Rightarrow> 'e + 'a" and ok :: "'a \<Rightarrow> bool"
  assumes dec_enc: "ok x \<Longrightarrow> dec (enc x) = Inr x"
begin

lemma enc_injective: "\<lbrakk>ok x; ok y; enc x = enc y\<rbrakk> \<Longrightarrow> x = y"
  by (metis dec_enc sum.inject(2))

lemma dec_enc_iff: "\<lbrakk>ok x; ok y\<rbrakk> \<Longrightarrow> dec (enc x) = Inr y \<longleftrightarrow> x = y"
  by (auto simp: dec_enc)

end

end
