(* ===== verification/Util_Text.thy ===== *)
theory Util_Text
  imports Mpd_Prelude
begin

text \<open>
  The string utilities of \<open>src/src/util\<close>, \<open>src/src/io\<close> and \<open>src/src/input\<close> that the
  database code is built on: character classes, stripping, prefix and suffix tests,
  splitting, number parsing and the two line readers. A C string or a
  \<open>std::string_view\<close> is a \<^typ>\<open>string\<close> of bytes; a nullable string is a
  \<^typ>\<open>string option\<close>.
\<close>

section \<open>Character classes (util/CharUtil.hxx)\<close>

abbreviation code :: "char \<Rightarrow> nat" where
  "code c \<equiv> of_char c"

definition IsASCII :: "char \<Rightarrow> bool" where
  "IsASCII ch \<longleftrightarrow> code ch < 128"

definition IsWhitespaceOrNull :: "char \<Rightarrow> bool" where
  "IsWhitespaceOrNull ch \<longleftrightarrow> code ch \<le> 32"

definition IsWhitespaceNotNull :: "char \<Rightarrow> bool" where
  "IsWhitespaceNotNull ch \<longleftrightarrow> 0 < code ch \<and> code ch \<le> 32"

text \<open>\<open>(signed char)ch >= 0x20\<close> is false for the bytes from 128 on, which are negative.\<close>

definition IsPrintableASCII :: "char \<Rightarrow> bool" where
  "IsPrintableASCII ch \<longleftrightarrow> 32 \<le> code ch \<and> code ch < 128"

definition IsNonPrintableASCII :: "char \<Rightarrow> bool" where
  "IsNonPrintableASCII ch \<longleftrightarrow> code ch < 32"

definition IsDigitASCII :: "char \<Rightarrow> bool" where
  "IsDigitASCII ch \<longleftrightarrow> code CHR ''0'' \<le> code ch \<and> code ch \<le> code CHR ''9''"

definition IsUpperAlphaASCII :: "char \<Rightarrow> bool" where
  "IsUpperAlphaASCII ch \<longleftrightarrow> code CHR ''A'' \<le> code ch \<and> code ch \<le> code CHR ''Z''"

definition IsLowerAlphaASCII :: "char \<Rightarrow> bool" where
  "IsLowerAlphaASCII ch \<longleftrightarrow> code CHR ''a'' \<le> code ch \<and> code ch \<le> code CHR ''z''"

definition IsAlphaASCII :: "char \<Rightarrow> bool" where
  "IsAlphaASCII ch \<longleftrightarrow> IsUpperAlphaASCII ch \<or> IsLowerAlphaASCII ch"

definition IsAlphaNumericASCII :: "char \<Rightarrow> bool" where
  "IsAlphaNumericASCII ch \<longleftrightarrow> IsAlphaASCII ch \<or> IsDigitASCII ch"

definition ToUpperASCII :: "char \<Rightarrow> char" where
  "ToUpperASCII ch = (if IsLowerAlphaASCII ch then char_of (code ch - 32) else ch)"

definition ToLowerASCII :: "char \<Rightarrow> char" where
  "ToLowerASCII ch = (if IsUpperAlphaASCII ch then char_of (code ch + 32) else ch)"

lemmas char_class_defs =
  IsASCII_def IsWhitespaceOrNull_def IsWhitespaceNotNull_def IsPrintableASCII_def
  IsNonPrintableASCII_def IsDigitASCII_def IsUpperAlphaASCII_def IsLowerAlphaASCII_def
  IsAlphaASCII_def IsAlphaNumericASCII_def

lemma digit_not_space [simp]: "IsDigitASCII c \<Longrightarrow> \<not> IsWhitespaceNotNull c"
  by (simp add: char_class_defs)

section \<open>Stripping (util/StringStrip.cxx)\<close>

definition StripLeft :: "string \<Rightarrow> string" where
  "StripLeft p = dropWhile IsWhitespaceNotNull p"

definition StripLeft_view :: "string \<Rightarrow> string" where
  "StripLeft_view s = dropWhile IsWhitespaceOrNull s"

definition StripRight :: "string \<Rightarrow> string" where
  "StripRight s = rev (dropWhile IsWhitespaceOrNull (rev s))"

definition Strip :: "string \<Rightarrow> string" where
  "Strip p = StripRight (StripLeft p)"

definition Strip_view :: "string \<Rightarrow> string" where
  "Strip_view s = StripRight (StripLeft_view s)"

text \<open>Text that has no leading blank survives \<open>StripLeft\<close>.\<close>

definition no_leading_space :: "string \<Rightarrow> bool" where
  "no_leading_space s \<longleftrightarrow> (case s of [] \<Rightarrow> True | c # _ \<Rightarrow> \<not> IsWhitespaceNotNull c)"

lemma StripLeft_id [text_simps]: "no_leading_space s \<Longrightarrow> StripLeft s = s"
  by (cases s) (auto simp: StripLeft_def no_leading_space_def)

lemma StripLeft_space [text_simps]: "StripLeft (CHR 0x20 # s) = StripLeft s"
  by (simp add: StripLeft_def IsWhitespaceNotNull_def)

lemma no_leading_space_StripLeft [simp]: "no_leading_space (StripLeft s)"
  unfolding no_leading_space_def StripLeft_def
  by (auto split: list.splits) (metis hd_dropWhile list.sel(1) list.simps(3))

lemma StripLeft_idem [simp]: "StripLeft (StripLeft s) = StripLeft s"
  by (simp add: StripLeft_id)

section \<open>Comparing (util/StringCompare.hxx, util/StringCompare.cxx)\<close>

fun StringAfterPrefix :: "string \<Rightarrow> string \<Rightarrow> string option" where
  "StringAfterPrefix haystack [] = Some haystack"
| "StringAfterPrefix [] (n # needle) = None"
| "StringAfterPrefix (h # haystack) (n # needle) =
     (if h = n then StringAfterPrefix haystack needle else None)"

definition StringStartsWith :: "string \<Rightarrow> string \<Rightarrow> bool" where
  "StringStartsWith haystack needle \<longleftrightarrow> take (length needle) haystack = needle"

text \<open>\<open>SkipPrefix\<close> returns whether the prefix was there and the view after it.\<close>

definition SkipPrefix :: "string \<Rightarrow> string \<Rightarrow> bool \<times> string" where
  "SkipPrefix haystack needle =
     (if StringStartsWith haystack needle then (True, drop (length needle) haystack)
      else (False, haystack))"

definition StringEndsWith :: "string \<Rightarrow> string \<Rightarrow> bool" where
  "StringEndsWith haystack needle \<longleftrightarrow>
     length needle \<le> length haystack \<and>
     drop (length haystack - length needle) haystack = needle"

text \<open>\<open>strcasecmp\<close> and \<open>strncasecmp\<close> fold ASCII letters (C locale).\<close>

definition StringIsEqualIgnoreCase :: "string \<Rightarrow> string \<Rightarrow> bool" where
  "StringIsEqualIgnoreCase a b \<longleftrightarrow>
     length a = length b \<and> map ToLowerASCII a = map ToLowerASCII b"

definition StringEndsWithIgnoreCase :: "string \<Rightarrow> string \<Rightarrow> bool" where
  "StringEndsWithIgnoreCase haystack needle \<longleftrightarrow>
     length needle \<le> length haystack \<and>
     StringIsEqualIgnoreCase (drop (length haystack - length needle) haystack) needle"

lemma StringAfterPrefix_append [simp, text_simps]:
  "StringAfterPrefix (p @ s) p = Some s"
  by (induction p) auto

lemma StringAfterPrefix_Some_iff:
  "StringAfterPrefix s p = Some t \<longleftrightarrow> s = p @ t"
  by (induction s p rule: StringAfterPrefix.induct) auto

lemma StringAfterPrefix_None_iff:
  "StringAfterPrefix s p = None \<longleftrightarrow> (\<forall>t. s \<noteq> p @ t)"
  by (metis StringAfterPrefix_Some_iff option.exhaust option.distinct(1))

lemma StringStartsWith_iff: "StringStartsWith s p \<longleftrightarrow> (\<exists>t. s = p @ t)"
  by (metis StringStartsWith_def append_eq_conv_conj append_take_drop_id)

lemma StringStartsWith_append [simp, text_simps]: "StringStartsWith (p @ s) p"
  by (auto simp: StringStartsWith_iff)

text \<open>Prefix and reader agree: \<open>StringAfterPrefix\<close> is \<open>StringStartsWith\<close> and a drop.\<close>

lemma StringAfterPrefix_conv:
  "StringAfterPrefix s p = (if StringStartsWith s p then Some (drop (length p) s) else None)"
  by (auto simp: StringStartsWith_iff StringAfterPrefix_None_iff)

section \<open>Splitting (util/StringSplit.hxx, util/IterableSplitString.hxx)\<close>

definition Split :: "string \<Rightarrow> char \<Rightarrow> string \<times> string option" where
  "Split haystack ch =
     (if ch \<in> set haystack
      then (takeWhile (\<lambda>c. c \<noteq> ch) haystack, Some (tl (dropWhile (\<lambda>c. c \<noteq> ch) haystack)))
      else (haystack, None))"

definition SplitLast :: "string \<Rightarrow> char \<Rightarrow> string \<times> string option" where
  "SplitLast haystack ch =
     (if ch \<in> set haystack
      then (rev (tl (dropWhile (\<lambda>c. c \<noteq> ch) (rev haystack))),
            Some (rev (takeWhile (\<lambda>c. c \<noteq> ch) (rev haystack))))
      else (haystack, None))"

lemma Split_append [text_simps]: "ch \<notin> set a \<Longrightarrow> Split (a @ ch # b) ch = (a, Some b)"
  by (simp add: Split_def takeWhile_neq_append dropWhile_neq_append)

lemma Split_none [text_simps]: "ch \<notin> set a \<Longrightarrow> Split a ch = (a, None)"
  by (simp add: Split_def)

lemma SplitLast_append [text_simps]: "ch \<notin> set b \<Longrightarrow> SplitLast (a @ ch # b) ch = (a, Some b)"
  by (simp add: SplitLast_def takeWhile_neq_append dropWhile_neq_append)

lemma Split_cases:
  obtains (found) a b where "s = a @ ch # b" "ch \<notin> set a" "Split s ch = (a, Some b)"
  | (absent) "ch \<notin> set s" "Split s ch = (s, None)"
  by (metis Split_append Split_none split_list_first)

lemma Split_rest_shorter: "Split s ch = (a, Some b) \<Longrightarrow> length b < length s"
  by (rule Split_cases [of s ch]) auto

text \<open>The segments an \<open>IterableSplitString\<close> loop visits; the empty string has one.\<close>

function IterableSplitString :: "string \<Rightarrow> char \<Rightarrow> string list" where
  "IterableSplitString s ch =
     (case Split s ch of (a, None) \<Rightarrow> [a] | (a, Some b) \<Rightarrow> a # IterableSplitString b ch)"
  by pat_completeness auto
termination
  by (relation "measure (\<lambda>(s, ch). length s)") (auto dest: Split_rest_shorter [OF sym])

declare IterableSplitString.simps [simp del]

section \<open>Decimal numbers\<close>

text \<open>
  What \<open>fmt::format("{}", n)\<close> and \<open>printf("%u")\<close> write for an unsigned value, and
  what \<open>{}\<close> writes for a signed one.
\<close>

definition digit_char :: "nat \<Rightarrow> char" where
  "digit_char d = char_of (48 + d)"

fun fmt_uint :: "nat \<Rightarrow> string" where
  "fmt_uint n = (if n < 10 then [digit_char n] else fmt_uint (n div 10) @ [digit_char (n mod 10)])"

declare fmt_uint.simps [simp del]

definition fmt_int :: "int \<Rightarrow> string" where
  "fmt_int i = (if i < 0 then CHR ''-'' # fmt_uint (nat (- i)) else fmt_uint (nat i))"

definition digit_val :: "char \<Rightarrow> nat" where
  "digit_val c = code c - 48"

definition digits_val :: "string \<Rightarrow> nat" where
  "digits_val s = foldl (\<lambda>a c. 10 * a + digit_val c) 0 s"

lemma digit_char_class [simp]: "d < 10 \<Longrightarrow> IsDigitASCII (digit_char d)"
  by (simp add: digit_char_def IsDigitASCII_def)

lemma digit_val_char [simp]: "d < 10 \<Longrightarrow> digit_val (digit_char d) = d"
  by (simp add: digit_char_def digit_val_def)

lemma digits_val_snoc [simp]: "digits_val (s @ [c]) = 10 * digits_val s + digit_val c"
  by (simp add: digits_val_def)

lemma digits_val_fmt_uint [simp, number_simps]: "digits_val (fmt_uint n) = n"
proof (induction n rule: fmt_uint.induct)
  case (1 n)
  show ?case
  proof (cases "n < 10")
    case True
    then show ?thesis by (simp add: fmt_uint.simps [of n] digits_val_def)
  next
    case False
    with 1 show ?thesis by (simp add: fmt_uint.simps [of n])
  qed
qed

lemma fmt_uint_digits: "c \<in> set (fmt_uint n) \<Longrightarrow> IsDigitASCII c"
proof (induction n rule: fmt_uint.induct)
  case (1 n)
  then show ?case
    by (cases "n < 10") (auto simp: fmt_uint.simps [of n])
qed

lemma fmt_uint_nonempty [simp]: "fmt_uint n \<noteq> []"
  by (subst fmt_uint.simps) simp

lemma fmt_uint_Cons: obtains c cs where "fmt_uint n = c # cs" "IsDigitASCII c"
  using fmt_uint_digits [of _ n] by (cases "fmt_uint n") auto

lemma last_fmt_uint_digit [simp]: "IsDigitASCII (last (fmt_uint n))"
  by (rule fmt_uint_digits [of _ n]) simp

lemma fmt_uint_excludes: "\<not> IsDigitASCII c \<Longrightarrow> c \<notin> set (fmt_uint n)"
  using fmt_uint_digits by blast

lemma fmt_uint_no_leading_space [simp]: "no_leading_space (fmt_uint n)"
  by (rule fmt_uint_Cons [of n]) (auto simp: no_leading_space_def)

lemma fmt_uint_inj [simp]: "fmt_uint m = fmt_uint n \<longleftrightarrow> m = n"
  by (metis digits_val_fmt_uint)

lemma length_fmt_uint: "\<lbrakk>n < 10 ^ k; 0 < k\<rbrakk> \<Longrightarrow> length (fmt_uint n) \<le> k"
proof (induction n arbitrary: k rule: fmt_uint.induct)
  case (1 n)
  show ?case
  proof (cases "n < 10")
    case True
    with 1 show ?thesis by (simp add: fmt_uint.simps [of n])
  next
    case False
    from "1.prems" obtain j where k: "k = Suc j" by (cases k) auto
    have j: "0 < j" using "1.prems" False k by (cases j) auto
    with k "1.prems" have "n div 10 < 10 ^ j" by auto
    with "1.IH" False j have "length (fmt_uint (n div 10)) \<le> j" by blast
    with False k show ?thesis by (simp add: fmt_uint.simps [of n])
  qed
qed

section \<open>The C library number parsers\<close>

text \<open>
  \<open>strtol\<close> and its kin skip blanks, take an optional sign and the longest run of
  digits, saturate at the limits of the type and report where they stopped; without
  a digit the value is 0 and nothing is consumed.
\<close>

definition isspace :: "char \<Rightarrow> bool" where
  "isspace c \<longleftrightarrow> code c = 32 \<or> (9 \<le> code c \<and> code c \<le> 13)"

definition scan_number :: "string \<Rightarrow> (bool \<times> nat \<times> string) option" where
  "scan_number s =
     (let t = dropWhile isspace s;
          neg = (case t of c # _ \<Rightarrow> c = CHR ''-'' | [] \<Rightarrow> False);
          u = (case t of c # r \<Rightarrow> if c = CHR ''-'' \<or> c = CHR ''+'' then r else t | [] \<Rightarrow> []);
          ds = takeWhile IsDigitASCII u
      in if ds = [] then None else Some (neg, digits_val ds, dropWhile IsDigitASCII u))"

definition strtol :: "string \<Rightarrow> int \<times> string" where
  "strtol s = (case scan_number s of
       None \<Rightarrow> (0, s)
     | Some (neg, n, rest) \<Rightarrow>
         (if neg then max (- (2 ^ 63)) (- int n) else min (2 ^ 63 - 1) (int n), rest))"

definition strtoul :: "string \<Rightarrow> nat \<times> string" where
  "strtoul s = (case scan_number s of
       None \<Rightarrow> (0, s)
     | Some (neg, n, rest) \<Rightarrow>
         (if 2 ^ 64 \<le> n then 2 ^ 64 - 1
          else if neg then (2 ^ 64 - n) mod 2 ^ 64 else n, rest))"

text \<open>\<open>atoi\<close> is \<open>(int)strtol(p, nullptr, 10)\<close>: the value keeps its low 32 bits.\<close>

definition int32_of :: "int \<Rightarrow> int" where
  "int32_of i = (i + 2 ^ 31) mod 2 ^ 32 - 2 ^ 31"

definition int64_of :: "int \<Rightarrow> int" where
  "int64_of i = (i + 2 ^ 63) mod 2 ^ 64 - 2 ^ 63"

definition atoi :: "string \<Rightarrow> int" where
  "atoi s = int32_of (fst (strtol s))"

text \<open>util/CNumberParser.hxx\<close>

definition ParseUnsigned :: "string \<Rightarrow> nat" where
  "ParseUnsigned p = fst (strtoul p) mod 2 ^ 32"

definition ParseInt :: "string \<Rightarrow> int" where
  "ParseInt p = int32_of (fst (strtol p))"

definition ParseUint64 :: "string \<Rightarrow> nat" where
  "ParseUint64 p = fst (strtoul p)"

text \<open>
  util/NumberParser.hxx, at an unsigned type whose values are below \<open>bound\<close>:
  \<open>std::from_chars\<close> takes neither blanks nor a sign, all of the view must be
  digits, and a value out of range is an error.
\<close>

definition ParseInteger :: "nat \<Rightarrow> string \<Rightarrow> nat option" where
  "ParseInteger bound src =
     (if src \<noteq> [] \<and> (\<forall>c \<in> set src. IsDigitASCII c) \<and> digits_val src < bound
      then Some (digits_val src) else None)"

lemma digit_not_isspace [simp]: "IsDigitASCII c \<Longrightarrow> \<not> isspace c"
  by (auto simp: isspace_def IsDigitASCII_def)

lemma digit_not_sign: "IsDigitASCII c \<Longrightarrow> c \<noteq> CHR ''-'' \<and> c \<noteq> CHR ''+''"
  by (auto simp: IsDigitASCII_def)

lemma scan_number_digits:
  assumes "ds \<noteq> []" "\<forall>c \<in> set ds. IsDigitASCII c"
    and "case rest of [] \<Rightarrow> True | c # _ \<Rightarrow> \<not> IsDigitASCII c"
  shows "scan_number (ds @ rest) = Some (False, digits_val ds, rest)"
proof -
  obtain d ds' where ds: "ds = d # ds'" using assms(1) by (cases ds) auto
  with assms(2) have d: "IsDigitASCII d" "d \<noteq> CHR ''-''" "d \<noteq> CHR ''+''"
    by (auto dest: digit_not_sign)
  have all: "takeWhile IsDigitASCII (ds @ rest) = ds" "dropWhile IsDigitASCII (ds @ rest) = rest"
    using assms(2,3) by (auto simp: takeWhile_append dropWhile_append split: list.splits)
  show ?thesis
    using d all ds by (simp add: scan_number_def Let_def)
qed

lemma scan_number_fmt_uint [number_simps]:
  "case rest of [] \<Rightarrow> True | c # _ \<Rightarrow> \<not> IsDigitASCII c \<Longrightarrow>
    scan_number (fmt_uint n @ rest) = Some (False, n, rest)"
  by (subst scan_number_digits) (auto dest: fmt_uint_digits)

lemma scan_number_fmt_uint_end [number_simps]: "scan_number (fmt_uint n) = Some (False, n, [])"
  using scan_number_fmt_uint [of "[]" n] by simp

lemma strtol_fmt_uint [number_simps]:
  "int n < 2 ^ 63 \<Longrightarrow> strtol (fmt_uint n) = (int n, [])"
  by (simp add: strtol_def scan_number_fmt_uint_end min_def)

lemma strtoul_fmt_uint [number_simps]:
  "n < 2 ^ 64 \<Longrightarrow> strtoul (fmt_uint n) = (n, [])"
  by (simp add: strtoul_def scan_number_fmt_uint_end)

lemma strtoul_fmt_uint_dash [number_simps]:
  "n < 2 ^ 64 \<Longrightarrow> strtoul (fmt_uint n @ CHR ''-'' # s) = (n, CHR ''-'' # s)"
  by (simp add: strtoul_def scan_number_fmt_uint IsDigitASCII_def)

lemma atoi_fmt_uint [number_simps]: "int n < 2 ^ 63 \<Longrightarrow> atoi (fmt_uint n) = int32_of (int n)"
  by (simp add: atoi_def strtol_fmt_uint)

lemma ParseInteger_fmt_uint [number_simps]: "n < bound \<Longrightarrow> ParseInteger bound (fmt_uint n) = Some n"
  by (auto simp: ParseInteger_def dest: fmt_uint_digits)

lemma int32_of_id [number_simps]: "- (2 ^ 31) \<le> i \<Longrightarrow> i < 2 ^ 31 \<Longrightarrow> int32_of i = i"
  by (simp add: int32_of_def)

lemma int64_of_id [number_simps]: "- (2 ^ 63) \<le> i \<Longrightarrow> i < 2 ^ 63 \<Longrightarrow> int64_of i = i"
  by (simp add: int64_of_def)

section \<open>Line readers\<close>

text \<open>
  \<open>ReadBufferedLine\<close> (util/TextFile.hxx) takes the first complete line out of a
  buffer, without its newline and without one carriage return before it.
\<close>

abbreviation newline :: char where "newline \<equiv> CHR 0x0A"

abbreviation carriage_return :: char where "carriage_return \<equiv> CHR 0x0D"

definition chop_cr :: "string \<Rightarrow> string" where
  "chop_cr l = (if l \<noteq> [] \<and> last l = carriage_return then butlast l else l)"

text \<open>A caller sees a C string, which ends at the first null byte.\<close>

definition c_str :: "string \<Rightarrow> string" where
  "c_str l = takeWhile (\<lambda>c. c \<noteq> CHR 0x00) l"

definition ReadBufferedLine :: "string \<Rightarrow> (string \<times> string) option" where
  "ReadBufferedLine buffer =
     (case Split buffer newline of
        (line, Some rest) \<Rightarrow> Some (c_str (chop_cr line), rest)
      | (_, None) \<Rightarrow> None)"

text \<open>
  \<open>BufferedReader::ReadLine\<close> over the text that is still unread. The buffer grows up
  to \<open>MAX_SIZE\<close> bytes; a line that does not fit ends the file for the caller. The last
  line needs no newline, and keeps its carriage return.
\<close>

definition MAX_SIZE :: nat where
  "MAX_SIZE = 524288"

definition ReadLine :: "string \<Rightarrow> (string \<times> string) option" where
  "ReadLine s =
     (case ReadBufferedLine (take MAX_SIZE s) of
        Some (line, rest) \<Rightarrow> Some (line, rest @ drop MAX_SIZE s)
      | None \<Rightarrow> if MAX_SIZE \<le> length s \<or> s = [] then None else Some (c_str s, []))"

text \<open>
  \<open>TextInputStream::ReadLine\<close>: a buffer of 4096 bytes, one of them kept for the
  terminator; a longer line is cut into pieces.
\<close>

definition TextInputStream_ReadLine :: "string \<Rightarrow> (string \<times> string) option" where
  "TextInputStream_ReadLine s =
     (case ReadBufferedLine (take 4095 s) of
        Some (line, rest) \<Rightarrow> Some (line, rest @ drop 4095 s)
      | None \<Rightarrow> if s = [] then None else Some (c_str (take 4095 s), drop 4095 s))"

text \<open>A line a writer may emit so that the reader gives it back.\<close>

definition line_ok :: "string \<Rightarrow> bool" where
  "line_ok l \<longleftrightarrow> newline \<notin> set l \<and> CHR 0x00 \<notin> set l \<and> (l = [] \<or> last l \<noteq> carriage_return) \<and> length l < MAX_SIZE"

lemma ReadBufferedLine_line:
  "newline \<notin> set l \<Longrightarrow> ReadBufferedLine (l @ newline # rest) = Some (c_str (chop_cr l), rest)"
  by (simp add: ReadBufferedLine_def Split_append)

lemma ReadLine_line [codec_simps]:
  assumes "line_ok l"
  shows "ReadLine (l @ newline # rest) = Some (l, rest)"
proof -
  let ?k = "MAX_SIZE - length l"
  have k: "0 < ?k" and l: "newline \<notin> set l" "chop_cr l = l" "c_str l = l"
    using assms by (auto simp: line_ok_def chop_cr_def c_str_def takeWhile_eq_all_conv)
  from k obtain j where j: "?k = Suc j" using gr0_conv_Suc by blast
  have "take MAX_SIZE (l @ newline # rest) = l @ newline # take j rest"
    and "drop MAX_SIZE (l @ newline # rest) = drop j rest"
    using j k by (simp_all add: take_append drop_append)
  then show ?thesis
    by (simp add: ReadLine_def ReadBufferedLine_line l)
qed

lemma ReadBufferedLine_shorter:
  "ReadBufferedLine s = Some (l, r) \<Longrightarrow> length r < length s"
  by (auto simp: ReadBufferedLine_def split: prod.splits option.splits dest: Split_rest_shorter)

lemma take_append_shorter:
  "length r < length (take n s) \<Longrightarrow> length (r @ drop n s) < length s"
  by (metis append_take_drop_id length_append nat_add_left_cancel_less add.commute)

lemma ReadLine_shorter: "ReadLine s = Some (l, r) \<Longrightarrow> length r < length s"
  by (auto simp: ReadLine_def split: option.splits if_splits
      dest!: ReadBufferedLine_shorter take_append_shorter)

lemma TextInputStream_ReadLine_shorter:
  "TextInputStream_ReadLine s = Some (l, r) \<Longrightarrow> length r < length s"
  by (auto simp: TextInputStream_ReadLine_def split: option.splits if_splits
      dest!: ReadBufferedLine_shorter take_append_shorter)

lemma line_ok_append:
  "line_ok (a @ b) \<longleftrightarrow>
     newline \<notin> set a \<and> newline \<notin> set b \<and> CHR 0x00 \<notin> set a \<and> CHR 0x00 \<notin> set b \<and> length a + length b < MAX_SIZE \<and>
     (if b = [] then a = [] \<or> last a \<noteq> carriage_return else last b \<noteq> carriage_return)"
  by (auto simp: line_ok_def last_append)

text \<open>All lines of a \<open>TextInputStream\<close>, as a \<open>while\<close> loop over \<open>ReadLine\<close> sees them.\<close>

function text_lines :: "string \<Rightarrow> string list" where
  "text_lines s = (case TextInputStream_ReadLine s of
       None \<Rightarrow> [] | Some (line, rest) \<Rightarrow> line # text_lines rest)"
  by pat_completeness auto
termination
  by (relation "measure length") (auto dest: TextInputStream_ReadLine_shorter)

declare text_lines.simps [simp del]

end
