(* ===== verification/Path_Traits.thy ===== *)
theory Path_Traits
  imports Util_Text
begin

text \<open>
  \<open>PathTraitsUTF8\<close> (fs/Traits.cxx, fs/Traits.hxx: the slash-separated paths inside
  the database), the URI helpers of util/UriExtract.cxx that classify them, and
  \<open>isRootDirectory\<close> (db/Uri.hxx).
\<close>

section \<open>Paths\<close>

abbreviation SEPARATOR :: char where "SEPARATOR \<equiv> CHR ''/''"

definition IsSeparator :: "char \<Rightarrow> bool" where
  "IsSeparator ch \<longleftrightarrow> ch = SEPARATOR"

definition Build :: "string \<Rightarrow> string \<Rightarrow> string" where
  "Build a b =
     (if a = [] then b
      else if b = [] then a
      else a @ (if IsSeparator (last a) then [] else [SEPARATOR]) @
           (if IsSeparator (hd b) then tl b else b))"

definition GetBase :: "string \<Rightarrow> string" where
  "GetBase p = (case SplitLast p SEPARATOR of (_, Some b) \<Rightarrow> b | (_, None) \<Rightarrow> p)"

definition GetParent :: "string \<Rightarrow> string" where
  "GetParent p =
     (case SplitLast p SEPARATOR of
        (_, None) \<Rightarrow> ''.''
      | (a, Some _) \<Rightarrow> if a = [] then [SEPARATOR] else a)"

definition Relative :: "string \<Rightarrow> string \<Rightarrow> string option" where
  "Relative base other =
     (case StringAfterPrefix other base of
        None \<Rightarrow> None
      | Some [] \<Rightarrow> Some []
      | Some (c # r) \<Rightarrow>
          if \<not> IsSeparator c
          then if base \<noteq> [] \<and> IsSeparator (last base) then Some (c # r) else None
          else Some (dropWhile IsSeparator r))"

text \<open>The pointer overload returns null where the view overload returns an empty view.\<close>

definition GetFilenameSuffix :: "string \<Rightarrow> string option" where
  "GetFilenameSuffix filename =
     (case SplitLast filename CHR ''.'' of
        (a, Some suffix) \<Rightarrow> if a \<noteq> [] \<and> suffix \<noteq> [] then Some suffix else None
      | (_, None) \<Rightarrow> None)"

definition GetFilenameSuffix_view :: "string \<Rightarrow> string" where
  "GetFilenameSuffix_view filename =
     (case SplitLast filename CHR ''.'' of
        (a, Some suffix) \<Rightarrow> if a \<noteq> [] then suffix else []
      | (_, None) \<Rightarrow> [])"

definition GetPathSuffix :: "string \<Rightarrow> string option" where
  "GetPathSuffix path = GetFilenameSuffix (GetBase path)"

definition IsAbsolute :: "string \<Rightarrow> bool" where
  "IsAbsolute p \<longleftrightarrow> p \<noteq> [] \<and> IsSeparator (hd p)"

definition IsSpecialFilename :: "string \<Rightarrow> bool" where
  "IsSpecialFilename name \<longleftrightarrow> name = ''.'' \<or> name = ''..''"

definition isRootDirectory :: "string \<Rightarrow> bool" where
  "isRootDirectory name \<longleftrightarrow> name = [] \<or> name = [SEPARATOR]"

section \<open>URIs\<close>

text \<open>\<open>std::string_view::find\<close> of a substring: the text before its first occurrence.\<close>

fun before_substring :: "string \<Rightarrow> string \<Rightarrow> string option" where
  "before_substring [] needle = (if needle = [] then Some [] else None)"
| "before_substring (c # s) needle =
     (if StringStartsWith (c # s) needle then Some []
      else map_option (Cons c) (before_substring s needle))"

definition uri_get_scheme :: "string \<Rightarrow> string" where
  "uri_get_scheme uri = (case before_substring uri ''://'' of None \<Rightarrow> [] | Some s \<Rightarrow> s)"

definition uri_has_scheme :: "string \<Rightarrow> bool" where
  "uri_has_scheme uri \<longleftrightarrow> uri_get_scheme uri \<noteq> []"

definition uri_is_relative_path :: "string \<Rightarrow> bool" where
  "uri_is_relative_path uri \<longleftrightarrow> \<not> uri_has_scheme uri \<and> (uri = [] \<or> hd uri \<noteq> SEPARATOR)"

definition UriWithoutQueryString :: "string \<Rightarrow> string" where
  "UriWithoutQueryString uri = fst (Split uri CHR ''?'')"

definition uri_get_suffix :: "string \<Rightarrow> string" where
  "uri_get_suffix uri0 =
     (let uri = UriWithoutQueryString uri0 in
      case SplitLast uri CHR ''.'' of
        (_, None) \<Rightarrow> []
      | (a, Some suffix) \<Rightarrow>
          if a = [] \<or> last a = CHR ''/'' \<or> last a = CHR 0x5C then []
          else if CHR ''/'' \<in> set suffix \<or> CHR 0x5C \<in> set suffix then []
          else suffix)"

definition uri_get_fragment :: "string \<Rightarrow> string option" where
  "uri_get_fragment uri = snd (Split uri CHR ''#'')"

definition IsAbsoluteOrHasScheme :: "string \<Rightarrow> bool" where
  "IsAbsoluteOrHasScheme p \<longleftrightarrow> IsAbsolute p \<or> uri_has_scheme p"

section \<open>Names\<close>

text \<open>What a directory entry may be called: not empty, no separator.\<close>

definition valid_name :: "string \<Rightarrow> bool" where
  "valid_name n \<longleftrightarrow> n \<noteq> [] \<and> SEPARATOR \<notin> set n"

lemma Build_name:
  assumes "a \<noteq> []" "last a \<noteq> SEPARATOR" "valid_name b"
  shows "Build a b = a @ SEPARATOR # b"
proof -
  have "hd b \<noteq> SEPARATOR" using assms(3) by (cases b) (auto simp: valid_name_def)
  with assms show ?thesis by (auto simp: Build_def IsSeparator_def valid_name_def)
qed

lemma Build_empty_left [simp]: "Build [] b = b"
  by (simp add: Build_def)

lemma GetBase_append: "SEPARATOR \<notin> set b \<Longrightarrow> GetBase (a @ SEPARATOR # b) = b"
  by (simp add: GetBase_def SplitLast_append)

lemma GetBase_plain: "SEPARATOR \<notin> set b \<Longrightarrow> GetBase b = b"
  by (simp add: GetBase_def SplitLast_def)

lemma GetParent_append:
  "SEPARATOR \<notin> set b \<Longrightarrow> a \<noteq> [] \<Longrightarrow> GetParent (a @ SEPARATOR # b) = a"
  by (simp add: GetParent_def SplitLast_append)

lemma Relative_append:
  "SEPARATOR \<notin> set b \<Longrightarrow> Relative a (a @ SEPARATOR # b) = Some b"
  by (cases b) (auto simp: Relative_def IsSeparator_def)

lemma last_Build_name:
  "\<lbrakk>a \<noteq> []; last a \<noteq> SEPARATOR; valid_name b\<rbrakk> \<Longrightarrow> last (Build a b) \<noteq> SEPARATOR"
  by (simp add: Build_name valid_name_def) (metis last_in_set)

lemma GetFilenameSuffix_no_dot: "GetFilenameSuffix f = Some s \<Longrightarrow> CHR ''.'' \<notin> set s \<and> s \<noteq> []"
  by (auto simp: GetFilenameSuffix_def SplitLast_def dest: set_takeWhileD split: if_splits)

lemma GetFilenameSuffix_append:
  "\<lbrakk>a \<noteq> []; s \<noteq> []; CHR ''.'' \<notin> set s\<rbrakk> \<Longrightarrow> GetFilenameSuffix (a @ CHR ''.'' # s) = Some s"
  by (simp add: GetFilenameSuffix_def SplitLast_append)

end
