(* ===== verification/Audio_Format.thy ===== *)
theory Audio_Format
  imports Util_Text
begin

text \<open>
  \<open>SampleFormat\<close> and \<open>AudioFormat\<close> (pcm/SampleFormat.hxx, pcm/SampleFormat.cxx,
  pcm/AudioFormat.hxx, pcm/AudioFormat.cxx, pcm/CheckAudioFormat.cxx) with their text
  form and its parser (pcm/AudioParser.cxx). The text form is what the database file
  stores in a song's \<open>Format\<close> line.
\<close>

section \<open>Sample formats\<close>

datatype SampleFormat = UNDEFINED | S8 | S16 | S24_P32 | S32 | FLOAT | DSD

fun audio_valid_sample_format :: "SampleFormat \<Rightarrow> bool" where
  "audio_valid_sample_format UNDEFINED = False"
| "audio_valid_sample_format _ = True"

fun sample_format_size :: "SampleFormat \<Rightarrow> nat" where
  "sample_format_size S8 = 1"
| "sample_format_size S16 = 2"
| "sample_format_size S24_P32 = 4"
| "sample_format_size S32 = 4"
| "sample_format_size FLOAT = 4"
| "sample_format_size DSD = 1"
| "sample_format_size UNDEFINED = 0"

fun sample_format_to_string :: "SampleFormat \<Rightarrow> string" where
  "sample_format_to_string UNDEFINED = ''?''"
| "sample_format_to_string S8 = ''8''"
| "sample_format_to_string S16 = ''16''"
| "sample_format_to_string S24_P32 = ''24''"
| "sample_format_to_string S32 = ''32''"
| "sample_format_to_string FLOAT = ''f''"
| "sample_format_to_string DSD = ''dsd''"

section \<open>Audio formats\<close>

record AudioFormat =
  sample_rate :: "32 word"
  format :: SampleFormat
  channels :: "8 word"

definition AudioFormat_Undefined :: AudioFormat where
  "AudioFormat_Undefined = \<lparr>sample_rate = 0, format = UNDEFINED, channels = 0\<rparr>"

definition IsDefined :: "AudioFormat \<Rightarrow> bool" where
  "IsDefined af \<longleftrightarrow> sample_rate af \<noteq> 0"

definition IsFullyDefined :: "AudioFormat \<Rightarrow> bool" where
  "IsFullyDefined af \<longleftrightarrow> sample_rate af \<noteq> 0 \<and> format af \<noteq> UNDEFINED \<and> channels af \<noteq> 0"

definition IsMaskDefined :: "AudioFormat \<Rightarrow> bool" where
  "IsMaskDefined af \<longleftrightarrow> sample_rate af \<noteq> 0 \<or> format af \<noteq> UNDEFINED \<or> channels af \<noteq> 0"

definition audio_valid_sample_rate :: "32 word \<Rightarrow> bool" where
  "audio_valid_sample_rate r \<longleftrightarrow> 0 < unat r \<and> unat r < 2 ^ 30"

text \<open>pcm/ChannelDefs.hxx: \<open>MAX_CHANNELS\<close> is 8.\<close>

definition audio_valid_channel_count :: "8 word \<Rightarrow> bool" where
  "audio_valid_channel_count n \<longleftrightarrow> 1 \<le> unat n \<and> unat n \<le> 8"

definition IsValid :: "AudioFormat \<Rightarrow> bool" where
  "IsValid af \<longleftrightarrow> audio_valid_sample_rate (sample_rate af) \<and>
     audio_valid_sample_format (format af) \<and> audio_valid_channel_count (channels af)"

definition IsMaskValid :: "AudioFormat \<Rightarrow> bool" where
  "IsMaskValid af \<longleftrightarrow>
     (sample_rate af = 0 \<or> audio_valid_sample_rate (sample_rate af)) \<and>
     (format af = UNDEFINED \<or> audio_valid_sample_format (format af)) \<and>
     (channels af = 0 \<or> audio_valid_channel_count (channels af))"

definition ApplyMask :: "AudioFormat \<Rightarrow> AudioFormat \<Rightarrow> AudioFormat" where
  "ApplyMask af msk =
     (let af1 = (if sample_rate msk \<noteq> 0 then af\<lparr>sample_rate := sample_rate msk\<rparr> else af);
          af2 = (if format msk \<noteq> UNDEFINED then af1\<lparr>format := format msk\<rparr> else af1)
      in if channels msk \<noteq> 0 then af2\<lparr>channels := channels msk\<rparr> else af2)"

definition MatchMask :: "AudioFormat \<Rightarrow> AudioFormat \<Rightarrow> bool" where
  "MatchMask af msk \<longleftrightarrow> ApplyMask af msk = af"

definition GetSampleSize :: "AudioFormat \<Rightarrow> nat" where
  "GetSampleSize af = sample_format_size (format af)"

definition GetFrameSize :: "AudioFormat \<Rightarrow> nat" where
  "GetFrameSize af = GetSampleSize af * unat (channels af)"

text \<open>\<open>CheckAudioFormat\<close> throws on the first attribute out of range.\<close>

datatype audio_error =
    BadSampleRateSyntax | InvalidSampleRate nat
  | InvalidSampleFormat string | SampleFormatMissing
  | BadChannelCountSyntax | InvalidChannelCount nat | ChannelCountMissing
  | BadDsdRateSyntax | BadDsdRate

definition CheckAudioFormat ::
    "nat \<Rightarrow> SampleFormat \<Rightarrow> nat \<Rightarrow> audio_error + AudioFormat" where
  "CheckAudioFormat rate fmt n =
     (if \<not> (0 < rate mod 2 ^ 32 \<and> rate mod 2 ^ 32 < 2 ^ 30) then Inl (InvalidSampleRate rate)
      else if \<not> audio_valid_sample_format fmt then Inl (InvalidSampleFormat (sample_format_to_string fmt))
      else if \<not> (1 \<le> n \<and> n \<le> 8) then Inl (InvalidChannelCount n)
      else Inr \<lparr>sample_rate = of_nat rate, format = fmt, channels = of_nat n\<rparr>)"

section \<open>The text form\<close>

definition ToString :: "AudioFormat \<Rightarrow> string" where
  "ToString af =
     (if format af = DSD \<and> 0 < sample_rate af \<and> sample_rate af mod 44100 = 0
      then ''dsd'' @ fmt_uint (unat (sample_rate af * 8 div 44100)) @ '':''
      else let sf = (if format af \<noteq> UNDEFINED then sample_format_to_string (format af) else ''*'')
           in (if 0 < sample_rate af then fmt_uint (unat (sample_rate af)) @ '':'' @ sf @ '':''
               else ''*:'' @ sf @ '':'')) @
     (if 0 < channels af then fmt_uint (unat (channels af)) else ''*'')"

definition ParseSampleRate :: "string \<Rightarrow> bool \<Rightarrow> audio_error + 32 word" where
  "ParseSampleRate src msk =
     (if msk \<and> src = ''*'' then Inr 0
      else case ParseInteger (2 ^ 32) src of
        None \<Rightarrow> Inl BadSampleRateSyntax
      | Some v \<Rightarrow> if audio_valid_sample_rate (of_nat v) then Inr (of_nat v)
                  else Inl (InvalidSampleRate v))"

definition ParseSampleFormat :: "string \<Rightarrow> bool \<Rightarrow> audio_error + SampleFormat" where
  "ParseSampleFormat src msk =
     (if msk \<and> src = ''*'' then Inr UNDEFINED
      else if src = ''f'' then Inr FLOAT
      else if src = ''dsd'' then Inr DSD
      else if src = ''8'' then Inr S8
      else if src = ''16'' then Inr S16
      else if src = ''24'' then Inr S24_P32
      else if src = ''24_3'' then Inr S24_P32
      else if src = ''32'' then Inr S32
      else Inl (InvalidSampleFormat src))"

definition ParseChannelCount :: "string \<Rightarrow> bool \<Rightarrow> audio_error + 8 word" where
  "ParseChannelCount src msk =
     (if msk \<and> src = ''*'' then Inr 0
      else case ParseInteger (2 ^ 8) src of
        None \<Rightarrow> Inl BadChannelCountSyntax
      | Some v \<Rightarrow> if audio_valid_channel_count (of_nat v) then Inr (of_nat v)
                  else Inl (InvalidChannelCount v))"

definition ParseAudioFormat :: "string \<Rightarrow> bool \<Rightarrow> audio_error + AudioFormat" where
  "ParseAudioFormat src0 msk =
     (case SkipPrefix src0 ''dsd'' of
        (True, src) \<Rightarrow>
          (case Split src CHR '':'' of
             (_, None) \<Rightarrow> Inl ChannelCountMissing
           | (dsd_s, Some channels_s) \<Rightarrow>
               (case ParseInteger (2 ^ 16) dsd_s of
                  None \<Rightarrow> Inl BadDsdRateSyntax
                | Some dsd \<Rightarrow>
                    if dsd < 32 \<or> 4096 < dsd then Inl BadDsdRate
                    else case ParseChannelCount channels_s msk of
                        Inl e \<Rightarrow> Inl e
                      | Inr ch \<Rightarrow> Inr \<lparr>sample_rate = of_nat (dsd * 44100 div 8),
                                      format = DSD, channels = ch\<rparr>))
      | (False, src) \<Rightarrow>
          (case Split src CHR '':'' of (sample_rate_s, rest1) \<Rightarrow>
             case ParseSampleRate sample_rate_s msk of
               Inl e \<Rightarrow> Inl e
             | Inr rate \<Rightarrow>
                 (case rest1 of
                    None \<Rightarrow> Inl SampleFormatMissing
                  | Some rest \<Rightarrow>
                      (case Split rest CHR '':'' of (format_s, channels_o) \<Rightarrow>
                         case ParseSampleFormat format_s msk of
                           Inl e \<Rightarrow> Inl e
                         | Inr fmt \<Rightarrow>
                             (case channels_o of
                                None \<Rightarrow> Inl ChannelCountMissing
                              | Some channels_s \<Rightarrow>
                                  (case ParseChannelCount channels_s msk of
                                     Inl e \<Rightarrow> Inl e
                                   | Inr ch \<Rightarrow>
                                       Inr \<lparr>sample_rate = rate, format = fmt, channels = ch\<rparr>))))))"

section \<open>Facts\<close>

lemma sample_format_to_string_parse:
  "f \<noteq> UNDEFINED \<Longrightarrow> ParseSampleFormat (sample_format_to_string f) m = Inr f"
  by (cases f) (auto simp: ParseSampleFormat_def)

lemma sample_format_to_string_no_colon: "CHR '':'' \<notin> set (sample_format_to_string f)"
  by (cases f) auto

lemma fmt_uint_no_colon: "CHR '':'' \<notin> set (fmt_uint n)"
  by (rule fmt_uint_excludes) (simp add: IsDigitASCII_def)

lemma fmt_uint_not_dsd: "\<not> StringStartsWith (fmt_uint n @ s) ''dsd''"
  by (rule fmt_uint_Cons [of n]) (auto simp: StringStartsWith_def IsDigitASCII_def)

lemma fmt_uint_not_star: "fmt_uint n \<noteq> ''*''"
  by (rule fmt_uint_Cons [of n]) (auto simp: IsDigitASCII_def)

lemma unat_less_256: "unat ch < 256" for ch :: "8 word"
  using unsigned_less [of ch, where 'a = nat] by simp

lemma unat_less_2_32: "unat r < 2 ^ 32" for r :: "32 word"
  using unsigned_less [of r, where 'a = nat] by simp

lemma ParseChannelCount_fmt:
  "audio_valid_channel_count ch \<Longrightarrow> ParseChannelCount (fmt_uint (unat ch)) m = Inr ch"
  using unat_less_256 [of ch]
  by (simp add: ParseChannelCount_def ParseInteger_fmt_uint fmt_uint_not_star)

lemma ParseSampleRate_fmt:
  "audio_valid_sample_rate r \<Longrightarrow> ParseSampleRate (fmt_uint (unat r)) m = Inr r"
  using unat_less_2_32 [of r]
  by (simp add: ParseSampleRate_def ParseInteger_fmt_uint fmt_uint_not_star)

text \<open>
  The formats the text form can carry: valid ones, and for a DSD stream at a multiple
  of 44.1 kHz only the rates between dsd32 and dsd4096 the parser takes.
\<close>

definition printable_format :: "AudioFormat \<Rightarrow> bool" where
  "printable_format af \<longleftrightarrow> IsValid af \<and>
     (format af = DSD \<and> unat (sample_rate af) mod 44100 = 0 \<longrightarrow>
        4 \<le> unat (sample_rate af) div 44100 \<and> unat (sample_rate af) div 44100 \<le> 512)"


lemma unat_mod_44100: "r mod 44100 = 0 \<longleftrightarrow> unat r mod 44100 = 0" for r :: "32 word"
proof -
  have "unat (r mod 44100) = unat r mod 44100" by (simp add: unat_mod)
  then show ?thesis by (metis unat_eq_zero unat_0)
qed
lemma dsd_rate:
  fixes r :: "32 word"
  assumes "unat r mod 44100 = 0" "unat r div 44100 \<le> 512"
  shows "unat (r * 8 div 44100) = 8 * (unat r div 44100)"
    and "8 * (unat r div 44100) * 44100 div 8 = unat r"
proof -
  from assms(1) obtain k where k: "unat r = 44100 * k" by blast
  with assms have "k \<le> 512" by simp
  then have "unat (r * 8) = 8 * unat r"
    using k by (subst unat_word_ariths) simp
  with k show "unat (r * 8 div 44100) = 8 * (unat r div 44100)"
    by (simp add: unat_div)
  show "8 * (unat r div 44100) * 44100 div 8 = unat r" using k by simp
qed

lemma ParseAudioFormat_dsd:
  assumes "format af = DSD" "unat (sample_rate af) mod 44100 = 0" "printable_format af"
  shows "ParseAudioFormat (ToString af) m = Inr af"
proof -
  let ?r = "sample_rate af" and ?d = "8 * (unat (sample_rate af) div 44100)"
  have valid: "audio_valid_channel_count (channels af)" "0 < unat ?r"
    and range: "32 \<le> ?d" "?d \<le> 4096"
    using assms by (auto simp: printable_format_def IsValid_def audio_valid_sample_rate_def)
  have str: "ToString af = ''dsd'' @ fmt_uint ?d @ CHR '':'' # fmt_uint (unat (channels af))"
    using assms valid range dsd_rate(1) [OF assms(2)]
    by (simp add: ToString_def unat_mod_44100 word_less_nat_alt audio_valid_channel_count_def)
  have rate: "of_nat (?d * 44100 div 8) = ?r"
    using dsd_rate(2) [OF assms(2)] range by simp
  show ?thesis
    using range rate assms(1) valid
    by (simp add: str ParseAudioFormat_def SkipPrefix_def StringStartsWith_def Split_append fmt_uint_no_colon
        ParseInteger_fmt_uint ParseChannelCount_fmt)
qed

lemma ParseAudioFormat_plain:
  assumes "\<not> (format af = DSD \<and> unat (sample_rate af) mod 44100 = 0)" "IsValid af"
  shows "ParseAudioFormat (ToString af) m = Inr af"
proof -
  have valid: "audio_valid_channel_count (channels af)" "audio_valid_sample_rate (sample_rate af)"
      "format af \<noteq> UNDEFINED"
    using assms(2) by (auto simp: IsValid_def)
  have str: "ToString af = fmt_uint (unat (sample_rate af)) @ CHR '':'' #
      sample_format_to_string (format af) @ CHR '':'' # fmt_uint (unat (channels af))"
    using assms valid
    by (auto simp: ToString_def unat_mod_44100 word_less_nat_alt Let_def
        audio_valid_channel_count_def audio_valid_sample_rate_def)
  show ?thesis
    using valid
    by (simp add: str ParseAudioFormat_def SkipPrefix_def fmt_uint_not_dsd Split_append
        fmt_uint_no_colon sample_format_to_string_no_colon ParseSampleRate_fmt
        sample_format_to_string_parse ParseChannelCount_fmt)
qed

lemma ParseAudioFormat_ToString:
  "printable_format af \<Longrightarrow> ParseAudioFormat (ToString af) m = Inr af"
  using ParseAudioFormat_dsd ParseAudioFormat_plain
  by (cases "format af = DSD \<and> unat (sample_rate af) mod 44100 = 0")
    (auto simp: printable_format_def)

text \<open>The printer and the parser meet the codec contract on the printable formats.\<close>

interpretation audio_text: text_codec ToString "\<lambda>s. ParseAudioFormat s False" printable_format
  by unfold_locales (rule ParseAudioFormat_ToString)

lemma ToString_line: "newline \<notin> set (ToString af)" "no_leading_space (ToString af)"
  "ToString af \<noteq> []" "last (ToString af) \<noteq> carriage_return" "CHR 0x00 \<notin> set (ToString af)"
proof -
  have d: "\<not> IsDigitASCII newline" "\<not> IsDigitASCII carriage_return" "\<not> IsDigitASCII (CHR 0x00)"
    by (auto simp: IsDigitASCII_def)
  have "CHR 0x00 \<notin> set (sample_format_to_string f)" for f by (cases f) auto
  then show "CHR 0x00 \<notin> set (ToString af)"
    using fmt_uint_excludes [OF d(3)] by (auto simp: ToString_def Let_def)
  have fmt: "newline \<notin> set (sample_format_to_string f)" for f by (cases f) auto
  show "newline \<notin> set (ToString af)"
    using fmt fmt_uint_excludes [OF d(1)] by (auto simp: ToString_def Let_def)
  show "ToString af \<noteq> []" by (simp add: ToString_def Let_def)
  show "last (ToString af) \<noteq> carriage_return"
    using d(2) by (auto simp: ToString_def Let_def last_append) (metis last_fmt_uint_digit)
  show "no_leading_space (ToString af)"
    by (rule fmt_uint_Cons [of "unat (sample_rate af)"])
      (auto simp: ToString_def Let_def no_leading_space_def IsWhitespaceNotNull_def IsDigitASCII_def)
qed

lemma length_sample_format: "length (sample_format_to_string f) \<le> 3"
  by (cases f) auto

lemma length_rate_text:
  "length (fmt_uint (unat r)) \<le> 10" for r :: "32 word"
  using unat_less_2_32 [of r] by (intro length_fmt_uint) simp_all

lemma length_channels_text: "length (fmt_uint (unat ch)) \<le> 3" for ch :: "8 word"
  using unat_less_256 [of ch] by (intro length_fmt_uint) simp_all

lemma length_dsd_text: "length (fmt_uint (unat (r * 8 div 44100))) \<le> 10" for r :: "32 word"
  by (rule length_rate_text)

lemma ToString_short: "length (ToString af) < 24"
  using length_rate_text [of "sample_rate af"] length_channels_text [of "channels af"]
    length_dsd_text [of "sample_rate af"] length_sample_format [of "format af"]
  by (auto simp: ToString_def Let_def)

text \<open>Printing an audio format and parsing the text back, with
  wildcards allowed or not, gives the same audio format, for every valid format the
  text form can carry.\<close>

lemma audio_format_roundtrip:
  assumes "printable_format af"
  shows "ParseAudioFormat (ToString af) m = Inr af"
  using assms by (rule ParseAudioFormat_ToString)

text \<open>The text of any audio format whatever, valid or not, is
  shorter than the 24 bytes of the buffer \<open>ToString\<close> prints into, so the \<open>sprintf\<close>
  calls never write past it.\<close>

lemma ToString_fits_buffer: "length (ToString af) < 24"
  by (rule ToString_short)

text \<open>Applying a valid mask to a valid format gives a valid
  format that the mask matches, and a format that matches a mask is unchanged by it.\<close>

lemma ApplyMask_correct:
  assumes "IsValid af" and "IsMaskValid msk"
  shows "IsValid (ApplyMask af msk) \<and> MatchMask (ApplyMask af msk) msk \<and>
    (MatchMask af msk \<longleftrightarrow>
       (sample_rate msk = 0 \<or> sample_rate msk = sample_rate af) \<and>
       (format msk = UNDEFINED \<or> format msk = format af) \<and>
       (channels msk = 0 \<or> channels msk = channels af))"
  using assms
  by (cases af, cases msk)
    (auto simp: IsValid_def IsMaskValid_def MatchMask_def ApplyMask_def Let_def)

end
