(* ===== verification/Sort_List.thy ===== *)
theory Sort_List
  imports Mpd_Prelude "HOL-Library.Multiset"
begin

text \<open>
  The bottom-up merge sort for intrusive lists (util/SortList.hxx), which orders the
  directory tree before it is saved. A comparison predicate \<open>p\<close> has to be a strict
  weak order; that contract is the locale \<open>strict_weak_order\<close>, and the sort's
  correctness (ordered, nothing lost, equivalent elements keep their order) is proved
  once inside it.
\<close>

section \<open>The algorithm\<close>

text \<open>
  \<open>MergeList(dest, src, p)\<close>: skip the part of \<open>dest\<close> that is not larger than the front
  of \<open>src\<close>, splice in the run of \<open>src\<close> that is smaller than the anchor found there, go
  on from the anchor.
\<close>

function MergeList :: "('a \<Rightarrow> 'a \<Rightarrow> bool) \<Rightarrow> 'a list \<Rightarrow> 'a list \<Rightarrow> 'a list" where
  "MergeList p dest [] = dest"
| "MergeList p dest (s # src) =
     (let skipped = takeWhile (\<lambda>i. \<not> p s i) dest; rest = dropWhile (\<lambda>i. \<not> p s i) dest in
      if rest = [] then dest @ s # src
      else skipped @ s # takeWhile (\<lambda>x. p x (hd rest)) src @
             MergeList p rest (dropWhile (\<lambda>x. p x (hd rest)) src))"
  by pat_completeness auto
termination
  by (relation "measure (\<lambda>(p, dest, src). length src)")
    (auto simp: less_Suc_eq_le length_dropWhile_le)

text \<open>
  The inner loop of \<open>SortList\<close>: carry a sorted list through the occupied slots, as a
  binary counter carries.
\<close>

fun add_carry :: "('a \<Rightarrow> 'a \<Rightarrow> bool) \<Rightarrow> 'a list \<Rightarrow> 'a list list \<Rightarrow> 'a list list" where
  "add_carry p carry [] = [carry]"
| "add_carry p carry (c # array) =
     (if c = [] then carry # array else [] # add_carry p (MergeList p c carry) array)"

text \<open>The last loop: every slot is merged into the next one.\<close>

fun merge_slots :: "('a \<Rightarrow> 'a \<Rightarrow> bool) \<Rightarrow> 'a list list \<Rightarrow> 'a list" where
  "merge_slots p [] = []"
| "merge_slots p [c] = c"
| "merge_slots p (c # d # array) = merge_slots p (MergeList p d c # array)"

definition SortList :: "('a \<Rightarrow> 'a \<Rightarrow> bool) \<Rightarrow> 'a list \<Rightarrow> 'a list" where
  "SortList p xs = (if xs = [] then []
     else merge_slots p (fold (\<lambda>x array. add_carry p [x] array) xs []))"

section \<open>Facts for any predicate\<close>

text \<open>
  One step of the merge: either the whole source goes behind the destination, or the
  destination is cut at an anchor and the run of the source spliced in before it lies
  strictly below the anchor.
\<close>

lemma MergeList_cases:
  obtains (end_reached) "MergeList p dest (s # src) = dest @ s # src" "\<forall>i \<in> set dest. \<not> p s i"
  | (anchor) skip a rest run later where
      "dest = skip @ a # rest" "src = run @ later"
      "MergeList p dest (s # src) = skip @ (s # run) @ MergeList p (a # rest) later"
      "\<forall>i \<in> set skip. \<not> p s i" "\<forall>x \<in> set (s # run). p x a"
proof (cases "dropWhile (\<lambda>i. \<not> p s i) dest")
  case Nil
  then show thesis using end_reached by (auto simp: Let_def dropWhile_eq_Nil_conv)
next
  case (Cons a rest)
  show thesis
  proof (rule anchor)
    show "dest = takeWhile (\<lambda>i. \<not> p s i) dest @ a # rest"
      using Cons by (metis takeWhile_dropWhile_id)
    show "src = takeWhile (\<lambda>x. p x a) src @ dropWhile (\<lambda>x. p x a) src" by simp
    show "MergeList p dest (s # src) = takeWhile (\<lambda>i. \<not> p s i) dest @
        (s # takeWhile (\<lambda>x. p x a) src) @ MergeList p (a # rest) (dropWhile (\<lambda>x. p x a) src)"
      using Cons by (simp add: Let_def)
    show "\<forall>i \<in> set (takeWhile (\<lambda>i. \<not> p s i) dest). \<not> p s i"
      by (auto dest: set_takeWhileD)
    have "p s a" using hd_dropWhile [of "\<lambda>i. \<not> p s i" dest] Cons by simp
    then show "\<forall>x \<in> set (s # takeWhile (\<lambda>x. p x a) src). p x a"
      by (auto dest: set_takeWhileD)
  qed
qed

lemma mset_MergeList: "mset (MergeList p dest src) = mset dest + mset src"
proof (induction src arbitrary: dest rule: length_induct)
  case (1 src)
  show ?case
  proof (cases src)
    case (Cons s tail)
    show ?thesis
    proof (cases rule: MergeList_cases [of p dest s tail])
      case (anchor skip a rest run later)
      have "mset (MergeList p (a # rest) later) = mset (a # rest) + mset later"
        using "1.IH" Cons anchor(2) by simp
      with Cons show ?thesis unfolding anchor(3) Cons by (simp add: anchor(1,2))
    qed (simp add: Cons del: MergeList.simps)
  qed simp
qed

lemma set_MergeList: "set (MergeList p dest src) = set dest \<union> set src"
  using arg_cong [OF mset_MergeList, of set_mset p dest src] by simp

lemma mset_add_carry:
  "mset (concat (add_carry p carry array)) = mset carry + mset (concat array)"
  by (induction array arbitrary: carry) (simp_all add: mset_MergeList)

lemma mset_merge_slots: "mset (merge_slots p array) = mset (concat array)"
  by (induction p array rule: merge_slots.induct) (simp_all add: mset_MergeList)

lemma mset_fold_add_carry:
  "mset (concat (fold (\<lambda>x. add_carry p [x]) xs array)) = mset (concat array) + mset xs"
  by (induction xs arbitrary: array) (simp_all add: mset_add_carry)

text \<open>The sort permutes its input, whatever the predicate is.\<close>

lemma SortList_mset: "mset (SortList p xs) = mset xs"
  by (simp add: SortList_def mset_merge_slots mset_fold_add_carry)

lemma SortList_set [simp]: "set (SortList p xs) = set xs"
  using arg_cong [OF SortList_mset, of set_mset p xs] by simp

text \<open>Only the comparisons between elements of the list matter.\<close>

lemma MergeList_cong:
  assumes "\<And>x y. \<lbrakk>x \<in> S; y \<in> S\<rbrakk> \<Longrightarrow> p x y = q x y"
  shows "\<lbrakk>set dest \<subseteq> S; set src \<subseteq> S\<rbrakk> \<Longrightarrow> MergeList p dest src = MergeList q dest src"
proof (induction src arbitrary: dest rule: length_induct)
  case (1 src)
  show ?case
  proof (cases src)
    case (Cons s tail)
    let ?rest = "dropWhile (\<lambda>i. \<not> p s i) dest"
    have S: "s \<in> S" "set tail \<subseteq> S" "set ?rest \<subseteq> S"
      using "1.prems" Cons by (auto dest: set_dropWhileD)
    have cut: "takeWhile (\<lambda>i. \<not> q s i) dest = takeWhile (\<lambda>i. \<not> p s i) dest"
      "dropWhile (\<lambda>i. \<not> q s i) dest = ?rest"
      using "1.prems"(1) S(1) assms by (auto intro!: takeWhile_cong dropWhile_cong)
    show ?thesis
    proof (cases "?rest = []")
      case False
      let ?later = "dropWhile (\<lambda>x. p x (hd ?rest)) tail"
      have hd: "hd ?rest \<in> S" using False S(3) by (meson hd_in_set subsetD)
      then have run: "takeWhile (\<lambda>x. q x (hd ?rest)) tail = takeWhile (\<lambda>x. p x (hd ?rest)) tail"
        "dropWhile (\<lambda>x. q x (hd ?rest)) tail = ?later"
        using S(2) assms by (auto intro!: takeWhile_cong dropWhile_cong)
      have "length ?later < length src" "set ?later \<subseteq> S"
        using Cons S(2) by (auto simp: less_Suc_eq_le length_dropWhile_le dest: set_dropWhileD)
      then have "MergeList p ?rest ?later = MergeList q ?rest ?later"
        using "1.IH" S(3) by blast
      then show ?thesis using Cons False by (simp add: cut run Let_def del: dropWhile_eq_Nil_conv)
    qed (simp add: Cons cut Let_def)
  qed simp
qed

lemma add_carry_cong:
  assumes "\<And>x y. \<lbrakk>x \<in> S; y \<in> S\<rbrakk> \<Longrightarrow> p x y = q x y"
  shows "\<lbrakk>set carry \<subseteq> S; set (concat array) \<subseteq> S\<rbrakk> \<Longrightarrow> add_carry p carry array = add_carry q carry array"
proof (induction array arbitrary: carry)
  case (Cons c array)
  have "MergeList p c carry = MergeList q c carry"
    using Cons.prems by (intro MergeList_cong [OF assms]) auto
  then show ?case using Cons.prems Cons.IH [of "MergeList q c carry"] by (simp add: set_MergeList)
qed simp

lemma merge_slots_cong:
  assumes "\<And>x y. \<lbrakk>x \<in> S; y \<in> S\<rbrakk> \<Longrightarrow> p x y = q x y"
  shows "set c \<union> set (concat array) \<subseteq> S \<Longrightarrow> merge_slots p (c # array) = merge_slots q (c # array)"
proof (induction array arbitrary: c)
  case (Cons d array)
  have "MergeList p d c = MergeList q d c"
    using Cons.prems by (intro MergeList_cong [OF assms]) auto
  then show ?case using Cons.prems Cons.IH [of "MergeList q d c"] by (simp add: set_MergeList)
qed simp

lemma SortList_cong:
  assumes "\<And>x y. \<lbrakk>x \<in> set xs; y \<in> set xs\<rbrakk> \<Longrightarrow> p x y = q x y"
  shows "SortList p xs = SortList q xs"
proof -
  have *: "\<lbrakk>set (concat array) \<subseteq> set xs; set ys \<subseteq> set xs\<rbrakk> \<Longrightarrow>
      fold (\<lambda>x. add_carry p [x]) ys array = fold (\<lambda>x. add_carry q [x]) ys array" for ys array
  proof (induction ys arbitrary: array)
    case (Cons y ys)
    have "add_carry p [y] array = add_carry q [y] array"
      by (rule add_carry_cong [where S = "set xs"]) (use Cons.prems assms in auto)
    moreover have "set (concat (add_carry q [y] array)) \<subseteq> set xs"
      using Cons.prems arg_cong [OF mset_add_carry, of set_mset q "[y]" array] by auto
    ultimately show ?case using Cons.prems Cons.IH by simp
  qed simp
  let ?slots = "fold (\<lambda>x. add_carry q [x]) xs []"
  have "set (concat ?slots) = set xs"
    using arg_cong [OF mset_fold_add_carry, of set_mset q xs "[]"] by simp
  then have "merge_slots p ?slots = merge_slots q ?slots"
  proof (cases ?slots)
    case (Cons c array)
    with \<open>set (concat ?slots) = set xs\<close> have "set c \<union> set (concat array) \<subseteq> set xs" by simp
    then show ?thesis unfolding Cons by (rule merge_slots_cong [OF assms, rotated -1])
  qed simp
  then show ?thesis using * [of "[]" xs] by (simp add: SortList_def)
qed

section \<open>The contract of a comparison\<close>

locale strict_weak_order =
  fixes less :: "'a \<Rightarrow> 'a \<Rightarrow> bool"
  assumes less_asym: "less x y \<Longrightarrow> \<not> less y x"
    and not_less_trans: "\<lbrakk>\<not> less x y; \<not> less y z\<rbrakk> \<Longrightarrow> \<not> less x z"
begin

abbreviation sorted_by :: "'a list \<Rightarrow> bool" where
  "sorted_by \<equiv> sorted_wrt (\<lambda>x y. \<not> less y x)"

abbreviation same_class :: "'a \<Rightarrow> 'a \<Rightarrow> bool" where
  "same_class k x \<equiv> \<not> less k x \<and> \<not> less x k"

lemma less_trans: "\<lbrakk>less x y; less y z\<rbrakk> \<Longrightarrow> less x z"
  using less_asym not_less_trans by blast

lemma less_not_less_trans: "\<lbrakk>less x y; \<not> less z y\<rbrakk> \<Longrightarrow> less x z"
  using not_less_trans by blast

text \<open>No class of equivalent elements has members on both sides of the anchor.\<close>

lemma anchor_separates:
  assumes "\<forall>x \<in> set run. less x a" "sorted_by (a # rest)"
  shows "filter (same_class k) run = [] \<or> filter (same_class k) (a # rest) = []"
proof (rule ccontr)
  assume "\<not> ?thesis"
  then obtain x y where x: "x \<in> set run" "same_class k x" and y: "y \<in> set (a # rest)" "same_class k y"
    by (auto simp: filter_empty_conv simp del: filter.simps)
  have "\<not> less y a" using y(1) assms(2) less_asym by auto
  moreover have "\<not> less x y" using x(2) y(2) not_less_trans by blast
  ultimately show False using assms(1) x(1) not_less_trans by blast
qed

lemma MergeList_class:
  assumes "sorted_by dest" "sorted_by src"
  shows "filter (same_class k) (MergeList less dest src) =
    filter (same_class k) dest @ filter (same_class k) src"
  using assms
proof (induction src arbitrary: dest rule: length_induct)
  case (1 src)
  show ?case
  proof (cases src)
    case (Cons s tail)
    show ?thesis
    proof (cases rule: MergeList_cases [of less dest s tail])
      case (anchor skip a rest run later)
      have s: "sorted_by (a # rest)" "sorted_by later"
        using "1.prems" Cons by (simp_all add: anchor(1,2) sorted_wrt_append)
      have "filter (same_class k) (MergeList less (a # rest) later) =
          filter (same_class k) (a # rest) @ filter (same_class k) later"
        using "1.IH" Cons anchor(2) s by simp
      moreover have "filter (same_class k) (s # run) = [] \<or> filter (same_class k) (a # rest) = []"
        using anchor(5) s(1) by (rule anchor_separates)
      moreover have "src = (s # run) @ later" using Cons anchor(2) by simp
      ultimately show ?thesis
        unfolding Cons anchor(3) unfolding anchor(1) \<open>src = (s # run) @ later\<close> [unfolded Cons] filter_append
        by (elim disjE) (simp_all only: append_Nil append_Nil2 append_assoc)
    qed (simp add: Cons del: MergeList.simps)
  qed simp
qed

lemma MergeList_sorted:
  assumes "sorted_by dest" "sorted_by src"
  shows "sorted_by (MergeList less dest src)"
  using assms
proof (induction src arbitrary: dest rule: length_induct)
  case (1 src)
  show ?case
  proof (cases src)
    case (Cons s tail)
    have above: "\<not> less y x" if "\<not> less s x" "y \<in> set (s # tail)" for x y
    proof -
      have "\<not> less y s" using that(2) "1.prems"(2) Cons less_asym [of s s] by auto
      then show ?thesis using that(1) by (rule not_less_trans)
    qed
    show ?thesis
    proof (cases rule: MergeList_cases [of less dest s tail])
      case end_reached
      then have "\<forall>x \<in> set dest. \<forall>y \<in> set (s # tail). \<not> less y x" using above by blast
      then show ?thesis unfolding Cons end_reached(1) sorted_wrt_append using "1.prems" Cons by blast
    next
      case (anchor skip a rest run later)
      have sd: "sorted_by skip" "sorted_by (a # rest)" "\<forall>x \<in> set skip. \<forall>y \<in> set (a # rest). \<not> less y x"
        using "1.prems"(1) by (auto simp: anchor(1) sorted_wrt_append)
      have ss: "sorted_by (s # run)" "sorted_by later" "\<forall>x \<in> set (s # run). \<forall>y \<in> set later. \<not> less y x"
        using "1.prems"(2) Cons by (auto simp: anchor(2) sorted_wrt_append)
      have IH: "sorted_by (MergeList less (a # rest) later)"
        using "1.IH" Cons anchor(2) sd(2) ss(2) by simp
      have low: "\<forall>x \<in> set skip. \<forall>y \<in> set (s # run) \<union> set later. \<not> less y x"
        using above anchor(2,4) by auto
      have "\<not> less y x" if "x \<in> set (s # run)" "y \<in> set (a # rest)" for x y
        using that anchor(5) sd(2) less_asym not_less_trans by (metis list.set_intros(1) set_ConsD sorted_wrt.simps(2))
      then have mid: "\<forall>x \<in> set (s # run). \<forall>y \<in> set (a # rest). \<not> less y x" by blast
      show ?thesis
        unfolding Cons anchor(3) sorted_wrt_append set_append set_MergeList
        using sd(1,3) ss(1,3) IH low mid by blast
    qed
  qed (use "1.prems" in simp)
qed

lemmas merge_facts = MergeList_sorted MergeList_class set_MergeList mset_MergeList

text \<open>
  The slots of the binary counter hold sorted runs, the oldest elements in the last
  slot; \<open>older_first\<close> reads them in the order of the input.
\<close>

definition older_first :: "'a list list \<Rightarrow> 'a list" where
  "older_first array = concat (rev array)"

lemma older_first_simps [simp]:
  "older_first [] = []" "older_first (c # array) = older_first array @ c"
  by (simp_all add: older_first_def)

lemma add_carry_sorted:
  "\<lbrakk>sorted_by carry; \<forall>c \<in> set array. sorted_by c\<rbrakk> \<Longrightarrow>
    \<forall>c \<in> set (add_carry less carry array). sorted_by c"
proof (induction array arbitrary: carry)
  case (Cons c array)
  have "sorted_by (MergeList less c carry)" using Cons.prems by (simp add: MergeList_sorted)
  then show ?case using Cons.prems Cons.IH [of "MergeList less c carry"] by simp
qed simp

lemma add_carry_mset:
  "mset (older_first (add_carry less carry array)) = mset (older_first array) + mset carry"
  by (induction array arbitrary: carry) (simp_all add: mset_MergeList)

lemma add_carry_class:
  "\<lbrakk>sorted_by carry; \<forall>c \<in> set array. sorted_by c\<rbrakk> \<Longrightarrow>
    filter (same_class k) (older_first (add_carry less carry array)) =
    filter (same_class k) (older_first array @ carry)"
proof (induction array arbitrary: carry)
  case (Cons c array)
  have "sorted_by (MergeList less c carry)" using Cons.prems by (simp add: MergeList_sorted)
  then show ?case
    using Cons.prems Cons.IH [of "MergeList less c carry"] MergeList_class [of c carry k] by simp
qed simp

lemma merge_slots_facts:
  "\<lbrakk>sorted_by carry; \<forall>c \<in> set array. sorted_by c\<rbrakk> \<Longrightarrow>
    sorted_by (merge_slots less (carry # array)) \<and>
    mset (merge_slots less (carry # array)) = mset (older_first (carry # array)) \<and>
    filter (same_class k) (merge_slots less (carry # array)) = filter (same_class k) (older_first (carry # array))"
proof (induction array arbitrary: carry)
  case (Cons c array)
  have "sorted_by (MergeList less c carry)" using Cons.prems by (simp add: MergeList_sorted)
  then show ?case
    using Cons.prems Cons.IH [of "MergeList less c carry"] MergeList_class [of c carry k]
    by (simp add: mset_MergeList)
qed simp

definition slots :: "'a list \<Rightarrow> 'a list list \<Rightarrow> 'a list list" where
  "slots xs array = fold (\<lambda>x. add_carry less [x]) xs array"

lemma slots_sorted: "\<forall>c \<in> set array. sorted_by c \<Longrightarrow> \<forall>c \<in> set (slots xs array). sorted_by c"
  unfolding slots_def
proof (induction xs arbitrary: array)
  case (Cons x xs)
  then show ?case using Cons.IH [OF add_carry_sorted [of "[x]" array]] by simp
qed simp

lemma slots_mset: "mset (older_first (slots xs array)) = mset (older_first array) + mset xs"
  unfolding slots_def by (induction xs arbitrary: array) (simp_all add: add_carry_mset)

lemma slots_class:
  "\<forall>c \<in> set array. sorted_by c \<Longrightarrow>
    filter (same_class k) (older_first (slots xs array)) = filter (same_class k) (older_first array @ xs)"
  unfolding slots_def
proof (induction xs arbitrary: array)
  case (Cons x xs)
  then show ?case using add_carry_sorted [of "[x]" array] add_carry_class [of "[x]" array k] by simp
qed simp

lemma SortList_facts:
  "sorted_by (SortList less xs) \<and> mset (SortList less xs) = mset xs \<and>
    filter (same_class k) (SortList less xs) = filter (same_class k) xs"
proof (cases "slots xs []")
  case Nil
  then have "xs = []" using slots_mset [of xs "[]"] by simp
  then show ?thesis by (simp add: SortList_def)
next
  case (Cons c array)
  have "xs \<noteq> [] \<Longrightarrow> SortList less xs = merge_slots less (c # array)"
    using Cons by (simp add: SortList_def slots_def)
  then show ?thesis
    using slots_sorted [of "[]" xs] slots_mset [of xs "[]"] slots_class [of "[]" k xs]
      merge_slots_facts [of c array k] Cons
    by (cases "xs = []") (simp_all add: SortList_def)
qed

lemma SortList_sorted: "sorted_by (SortList less xs)"
  using SortList_facts by blast

lemma SortList_stable: "filter (same_class k) (SortList less xs) = filter (same_class k) xs"
  using SortList_facts by blast

end

section \<open>Three-way comparisons\<close>

text \<open>
  Many comparisons of the sources return a negative, zero or positive \<open>int\<close>. The sign
  of a lawful one is a strict weak order, and lawful comparisons combine.
\<close>

locale comparator =
  fixes cmp :: "'a \<Rightarrow> 'a \<Rightarrow> int"
  assumes cmp_sym: "cmp a b < 0 \<longleftrightarrow> 0 < cmp b a"
    and cmp_trans: "\<lbrakk>cmp a b \<le> 0; cmp b c \<le> 0\<rbrakk> \<Longrightarrow> cmp a c \<le> 0"
begin

lemma cmp_zero_sym: "cmp a b = 0 \<longleftrightarrow> cmp b a = 0"
  using cmp_sym [of a b] cmp_sym [of b a] by linarith

lemma cmp_le_sym: "cmp a b \<le> 0 \<longleftrightarrow> 0 \<le> cmp b a"
  using cmp_sym [of b a] by linarith

lemma cmp_ge_trans: "\<lbrakk>0 \<le> cmp a b; 0 \<le> cmp b c\<rbrakk> \<Longrightarrow> 0 \<le> cmp a c"
  using cmp_trans [of c b a] cmp_le_sym by blast

lemma cmp_less_le_trans: "\<lbrakk>cmp a b < 0; cmp b c \<le> 0\<rbrakk> \<Longrightarrow> cmp a c < 0"
  using cmp_ge_trans [of a c b] cmp_le_sym [of b c] by linarith

lemma cmp_le_less_trans: "\<lbrakk>cmp a b \<le> 0; cmp b c < 0\<rbrakk> \<Longrightarrow> cmp a c < 0"
  using cmp_ge_trans [of b a c] cmp_le_sym [of a b] by linarith

end

sublocale comparator \<subseteq> order: strict_weak_order "\<lambda>a b. cmp a b < 0"
proof
  show "\<not> cmp b a < 0" if "cmp a b < 0" for a b
    using that cmp_sym [of a b] by simp
  show "\<not> cmp a c < 0" if "\<not> cmp a b < 0" "\<not> cmp b c < 0" for a b c
    using that cmp_ge_trans [of a b c] by simp
qed

lemma comparator_image: "comparator f \<Longrightarrow> comparator (\<lambda>a b. f (h a) (h b))"
  by (simp add: comparator_def)

lemma comparator_difference: "comparator (\<lambda>a b. f a - (f b :: int))"
  by unfold_locales auto

lemma comparator_lex:
  assumes "comparator f" "comparator g"
  shows "comparator (\<lambda>a b. if f a b \<noteq> 0 then f a b else g a b)"
proof
  fix a b
  show "(if f a b \<noteq> 0 then f a b else g a b) < 0 \<longleftrightarrow> 0 < (if f b a \<noteq> 0 then f b a else g b a)"
    using comparator.cmp_sym [OF assms(1), of a b] comparator.cmp_sym [OF assms(2), of a b]
      comparator.cmp_zero_sym [OF assms(1), of a b] by auto
next
  fix a b c
  assume ab: "(if f a b \<noteq> 0 then f a b else g a b) \<le> 0" and bc: "(if f b c \<noteq> 0 then f b c else g b c) \<le> 0"
  then have le: "f a b \<le> 0" "f b c \<le> 0" by (auto split: if_splits)
  show "(if f a c \<noteq> 0 then f a c else g a c) \<le> 0"
  proof (cases "f a b = 0 \<and> f b c = 0")
    case True
    then have "f a c = 0"
      using comparator.cmp_trans [OF assms(1), of a b c] comparator.cmp_ge_trans [OF assms(1), of a b c] by simp
    then show ?thesis using ab bc True comparator.cmp_trans [OF assms(2), of a b c] by simp
  next
    case False
    then have "f a c < 0"
      using le comparator.cmp_less_le_trans [OF assms(1), of a b c] comparator.cmp_le_less_trans [OF assms(1), of a b c]
      by linarith
    then show ?thesis by simp
  qed
qed

context comparator
begin

lemma cmp_sorted: "sorted_wrt (\<lambda>x y. cmp x y \<le> 0) (SortList (\<lambda>a b. cmp a b < 0) xs)"
  by (rule sorted_wrt_mono_rel [OF _ order.SortList_sorted]) (simp add: cmp_le_sym not_less)

end

end
