(* ===== verification/Tag_Model.thy ===== *)
theory Tag_Model
  imports Util_Text Sort_List
begin

text \<open>
  Song metadata: the tag types and their names (tag/Type.hxx, tag/Names.cxx,
  tag/ParseName.cxx), the set of enabled types (tag/Mask.hxx, tag/Settings.hxx,
  tag/Settings.cxx, tag/Config.cxx), the \<open>Tag\<close> value (tag/Tag.cxx), its builder
  (tag/Builder.cxx), the sanitizer every value passes through (tag/FixString.cxx with the
  UTF-8 checks of util/UTF8.cxx) and the order on tags (tag/Sort.cxx, tag/Fallback.hxx).
  The reference-counted item pool is an allocation detail and does not appear: an item
  is its type and its text.
\<close>

section \<open>Tag types and names\<close>

datatype TagType =
    TAG_ARTIST | TAG_ARTIST_SORT | TAG_ALBUM | TAG_ALBUM_SORT | TAG_ALBUM_ARTIST |
    TAG_ALBUM_ARTIST_SORT | TAG_TITLE | TAG_TITLE_SORT | TAG_TRACK | TAG_NAME |
    TAG_GENRE | TAG_MOOD | TAG_DATE | TAG_ORIGINAL_DATE | TAG_COMPOSER |
    TAG_COMPOSERSORT | TAG_PERFORMER | TAG_CONDUCTOR | TAG_WORK | TAG_MOVEMENT |
    TAG_MOVEMENTNUMBER | TAG_SHOWMOVEMENT | TAG_ENSEMBLE | TAG_LOCATION | TAG_GROUPING |
    TAG_COMMENT | TAG_DISC | TAG_LABEL | TAG_MUSICBRAINZ_ARTISTID |
    TAG_MUSICBRAINZ_ALBUMID | TAG_MUSICBRAINZ_ALBUMARTISTID | TAG_MUSICBRAINZ_TRACKID |
    TAG_MUSICBRAINZ_RELEASETRACKID | TAG_MUSICBRAINZ_WORKID |
    TAG_MUSICBRAINZ_RELEASEGROUPID

text \<open>
  The enumeration in order; the sentinel \<open>TAG_NUM_OF_ITEM_TYPES\<close>, which the sources
  return for ``no such type'', is \<^const>\<open>None\<close>.
\<close>

definition all_tag_types :: "TagType list" where
  "all_tag_types =
    [TAG_ARTIST, TAG_ARTIST_SORT, TAG_ALBUM, TAG_ALBUM_SORT, TAG_ALBUM_ARTIST,
     TAG_ALBUM_ARTIST_SORT, TAG_TITLE, TAG_TITLE_SORT, TAG_TRACK, TAG_NAME, TAG_GENRE,
     TAG_MOOD, TAG_DATE, TAG_ORIGINAL_DATE, TAG_COMPOSER, TAG_COMPOSERSORT,
     TAG_PERFORMER, TAG_CONDUCTOR, TAG_WORK, TAG_MOVEMENT, TAG_MOVEMENTNUMBER,
     TAG_SHOWMOVEMENT, TAG_ENSEMBLE, TAG_LOCATION, TAG_GROUPING, TAG_COMMENT, TAG_DISC,
     TAG_LABEL, TAG_MUSICBRAINZ_ARTISTID, TAG_MUSICBRAINZ_ALBUMID,
     TAG_MUSICBRAINZ_ALBUMARTISTID, TAG_MUSICBRAINZ_TRACKID,
     TAG_MUSICBRAINZ_RELEASETRACKID, TAG_MUSICBRAINZ_WORKID,
     TAG_MUSICBRAINZ_RELEASEGROUPID]"

primrec tag_index :: "TagType \<Rightarrow> nat" where
  "tag_index TAG_ARTIST = 0"
| "tag_index TAG_ARTIST_SORT = 1"
| "tag_index TAG_ALBUM = 2"
| "tag_index TAG_ALBUM_SORT = 3"
| "tag_index TAG_ALBUM_ARTIST = 4"
| "tag_index TAG_ALBUM_ARTIST_SORT = 5"
| "tag_index TAG_TITLE = 6"
| "tag_index TAG_TITLE_SORT = 7"
| "tag_index TAG_TRACK = 8"
| "tag_index TAG_NAME = 9"
| "tag_index TAG_GENRE = 10"
| "tag_index TAG_MOOD = 11"
| "tag_index TAG_DATE = 12"
| "tag_index TAG_ORIGINAL_DATE = 13"
| "tag_index TAG_COMPOSER = 14"
| "tag_index TAG_COMPOSERSORT = 15"
| "tag_index TAG_PERFORMER = 16"
| "tag_index TAG_CONDUCTOR = 17"
| "tag_index TAG_WORK = 18"
| "tag_index TAG_MOVEMENT = 19"
| "tag_index TAG_MOVEMENTNUMBER = 20"
| "tag_index TAG_SHOWMOVEMENT = 21"
| "tag_index TAG_ENSEMBLE = 22"
| "tag_index TAG_LOCATION = 23"
| "tag_index TAG_GROUPING = 24"
| "tag_index TAG_COMMENT = 25"
| "tag_index TAG_DISC = 26"
| "tag_index TAG_LABEL = 27"
| "tag_index TAG_MUSICBRAINZ_ARTISTID = 28"
| "tag_index TAG_MUSICBRAINZ_ALBUMID = 29"
| "tag_index TAG_MUSICBRAINZ_ALBUMARTISTID = 30"
| "tag_index TAG_MUSICBRAINZ_TRACKID = 31"
| "tag_index TAG_MUSICBRAINZ_RELEASETRACKID = 32"
| "tag_index TAG_MUSICBRAINZ_WORKID = 33"
| "tag_index TAG_MUSICBRAINZ_RELEASEGROUPID = 34"

primrec tag_item_names :: "TagType \<Rightarrow> string" where
  "tag_item_names TAG_ARTIST = ''Artist''"
| "tag_item_names TAG_ARTIST_SORT = ''ArtistSort''"
| "tag_item_names TAG_ALBUM = ''Album''"
| "tag_item_names TAG_ALBUM_SORT = ''AlbumSort''"
| "tag_item_names TAG_ALBUM_ARTIST = ''AlbumArtist''"
| "tag_item_names TAG_ALBUM_ARTIST_SORT = ''AlbumArtistSort''"
| "tag_item_names TAG_TITLE = ''Title''"
| "tag_item_names TAG_TITLE_SORT = ''TitleSort''"
| "tag_item_names TAG_TRACK = ''Track''"
| "tag_item_names TAG_NAME = ''Name''"
| "tag_item_names TAG_GENRE = ''Genre''"
| "tag_item_names TAG_MOOD = ''Mood''"
| "tag_item_names TAG_DATE = ''Date''"
| "tag_item_names TAG_ORIGINAL_DATE = ''OriginalDate''"
| "tag_item_names TAG_COMPOSER = ''Composer''"
| "tag_item_names TAG_COMPOSERSORT = ''ComposerSort''"
| "tag_item_names TAG_PERFORMER = ''Performer''"
| "tag_item_names TAG_CONDUCTOR = ''Conductor''"
| "tag_item_names TAG_WORK = ''Work''"
| "tag_item_names TAG_MOVEMENT = ''Movement''"
| "tag_item_names TAG_MOVEMENTNUMBER = ''MovementNumber''"
| "tag_item_names TAG_SHOWMOVEMENT = ''ShowMovement''"
| "tag_item_names TAG_ENSEMBLE = ''Ensemble''"
| "tag_item_names TAG_LOCATION = ''Location''"
| "tag_item_names TAG_GROUPING = ''Grouping''"
| "tag_item_names TAG_COMMENT = ''Comment''"
| "tag_item_names TAG_DISC = ''Disc''"
| "tag_item_names TAG_LABEL = ''Label''"
| "tag_item_names TAG_MUSICBRAINZ_ARTISTID = ''MUSICBRAINZ_ARTISTID''"
| "tag_item_names TAG_MUSICBRAINZ_ALBUMID = ''MUSICBRAINZ_ALBUMID''"
| "tag_item_names TAG_MUSICBRAINZ_ALBUMARTISTID = ''MUSICBRAINZ_ALBUMARTISTID''"
| "tag_item_names TAG_MUSICBRAINZ_TRACKID = ''MUSICBRAINZ_TRACKID''"
| "tag_item_names TAG_MUSICBRAINZ_RELEASETRACKID = ''MUSICBRAINZ_RELEASETRACKID''"
| "tag_item_names TAG_MUSICBRAINZ_WORKID = ''MUSICBRAINZ_WORKID''"
| "tag_item_names TAG_MUSICBRAINZ_RELEASEGROUPID = ''MUSICBRAINZ_RELEASEGROUPID''"

definition tag_name_parse :: "string \<Rightarrow> TagType option" where
  "tag_name_parse name = find (\<lambda>i. name = tag_item_names i) all_tag_types"

definition tag_name_parse_i :: "string \<Rightarrow> TagType option" where
  "tag_name_parse_i name =
     find (\<lambda>i. StringIsEqualIgnoreCase name (tag_item_names i)) all_tag_types"

lemma all_tag_types_complete [simp]: "t \<in> set all_tag_types"
  by (cases t) (simp_all add: all_tag_types_def)

lemma tag_index_nth: "tag_index t < length all_tag_types \<and> all_tag_types ! tag_index t = t"
  by (cases t) (simp_all add: all_tag_types_def)

lemma tag_index_inj [simp]: "tag_index s = tag_index t \<longleftrightarrow> s = t"
  by (metis tag_index_nth)

lemma tag_index_bound: "tag_index t < 35"
  by (cases t) simp_all

lemma distinct_tag_names: "distinct (map tag_item_names all_tag_types)"
  by (simp add: all_tag_types_def)

lemma tag_name_parse_names [simp, codec_simps]: "tag_name_parse (tag_item_names t) = Some t"
  using find_distinct_map [OF distinct_tag_names, of t]
  by (simp add: tag_name_parse_def eq_commute)

lemma tag_name_parse_Some: "tag_name_parse n = Some t \<longleftrightarrow> n = tag_item_names t"
  by (auto simp: tag_name_parse_def dest!: find_SomeD)
    (metis tag_name_parse_def tag_name_parse_names)

lemma tag_name_chars:
  "CHR '':'' \<notin> set (tag_item_names t)" "newline \<notin> set (tag_item_names t)" "tag_item_names t \<noteq> []"
  "CHR 0x00 \<notin> set (tag_item_names t)"
  "length (tag_item_names t) \<le> 26"
  by (cases t, simp_all)+

section \<open>Enabled tag types\<close>

unbundle bit_operations_syntax

type_synonym TagMask = "64 word"

definition TagMask_of :: "TagType \<Rightarrow> TagMask" where
  "TagMask_of tag = push_bit (tag_index tag) 1"

definition TagMask_None :: TagMask where
  "TagMask_None = 0"

definition TagMask_All :: TagMask where
  "TagMask_All = NOT TagMask_None"

definition TagMask_Test :: "TagMask \<Rightarrow> TagType \<Rightarrow> bool" where
  "TagMask_Test m tag \<longleftrightarrow> m AND TagMask_of tag \<noteq> 0"

definition TagMask_Set :: "TagMask \<Rightarrow> TagType \<Rightarrow> TagMask" where
  "TagMask_Set m tag = m OR TagMask_of tag"

definition TagMask_Unset :: "TagMask \<Rightarrow> TagType \<Rightarrow> TagMask" where
  "TagMask_Unset m tag = m AND NOT (TagMask_of tag)"

text \<open>The initial value of \<open>global_tag_mask\<close>; an argument of whatever reads it.\<close>

definition global_tag_mask_init :: TagMask where
  "global_tag_mask_init = TagMask_All AND NOT (TagMask_of TAG_COMMENT)"

definition IsTagEnabled :: "TagMask \<Rightarrow> TagType \<Rightarrow> bool" where
  "IsTagEnabled global_tag_mask tag = TagMask_Test global_tag_mask tag"

text \<open>
  \<open>TagLoadConfig\<close>: the value of \<open>metadata_to_use\<close>, if any, and the mask before; an
  item that is no tag name is an exception. The sign is sticky: it stays in force for
  the items after it.
\<close>

fun TagLoadConfig_items :: "string list \<Rightarrow> bool \<Rightarrow> TagMask \<Rightarrow> string + TagMask" where
  "TagLoadConfig_items [] adding m = Inr m"
| "TagLoadConfig_items (item # items) adding m =
     (let name0 = Strip_view item;
          (is_plus, name1) = SkipPrefix name0 ''+'';
          (is_minus, name2) = (if is_plus then (False, name1) else SkipPrefix name0 ''-'');
          adding' = (if is_plus then True else if is_minus then False else adding)
      in case tag_name_parse_i name2 of
           None \<Rightarrow> Inl name2
         | Some t \<Rightarrow>
             TagLoadConfig_items items adding' (if adding' then TagMask_Set m t else TagMask_Unset m t))"

definition TagLoadConfig :: "string option \<Rightarrow> TagMask \<Rightarrow> string + TagMask" where
  "TagLoadConfig value m =
     (case value of
        None \<Rightarrow> Inr m
      | Some v \<Rightarrow>
          if StringIsEqualIgnoreCase v ''none'' then Inr TagMask_None
          else TagLoadConfig_items (IterableSplitString v CHR '','') True
                 (if v = [] \<or> (hd v \<noteq> CHR ''+'' \<and> hd v \<noteq> CHR ''-'') then TagMask_None else m))"

lemma TagMask_Test_bit: "TagMask_Test m t \<longleftrightarrow> bit m (tag_index t)"
proof -
  have eq: "m AND TagMask_of t = (if bit m (tag_index t) then TagMask_of t else 0)"
    by (rule bit_word_eqI) (auto simp: TagMask_of_def bit_simps)
  have "TagMask_of t \<noteq> 0"
  proof
    assume "TagMask_of t = 0"
    then have "bit (TagMask_of t) (tag_index t) = bit (0 :: 64 word) (tag_index t)" by simp
    then show False using tag_index_bound [of t] by (simp add: TagMask_of_def bit_simps)
  qed
  with eq show ?thesis by (simp add: TagMask_Test_def)
qed

lemma TagMask_Test_Set [simp]: "TagMask_Test (TagMask_Set m t) u \<longleftrightarrow> u = t \<or> TagMask_Test m u"
  using tag_index_bound [of u]
  by (auto simp: TagMask_Test_bit TagMask_Set_def TagMask_of_def bit_simps)

lemma TagMask_Test_Unset [simp]: "TagMask_Test (TagMask_Unset m t) u \<longleftrightarrow> u \<noteq> t \<and> TagMask_Test m u"
  using tag_index_bound [of u]
  by (auto simp: TagMask_Test_bit TagMask_Unset_def TagMask_of_def bit_simps)

lemma TagMask_Test_None [simp]: "\<not> TagMask_Test TagMask_None t"
  by (simp add: TagMask_Test_def TagMask_None_def)

lemma TagMask_Test_All [simp]: "TagMask_Test TagMask_All t"
  using tag_index_bound [of t]
  by (simp add: TagMask_Test_bit TagMask_All_def TagMask_None_def bit_simps)

lemma IsTagEnabled_init: "IsTagEnabled global_tag_mask_init t \<longleftrightarrow> t \<noteq> TAG_COMMENT"
  using TagMask_Test_Unset [of TagMask_All TAG_COMMENT t]
  by (simp add: IsTagEnabled_def global_tag_mask_init_def TagMask_Unset_def)

section \<open>Sanitizing tag values (tag/FixString.cxx, util/UTF8.cxx)\<close>

definition IsContinuation :: "char \<Rightarrow> bool" where
  "IsContinuation ch \<longleftrightarrow> 128 \<le> code ch \<and> code ch < 192"

text \<open>
  The number of bytes a leading byte announces; the masks \<open>(ch & 0xe0) == 0xc0\<close> and so
  on are the ranges of the leading bits. 0 is a byte that starts no sequence.
\<close>

definition SequenceLengthUTF8_char :: "char \<Rightarrow> nat" where
  "SequenceLengthUTF8_char ch =
     (if IsASCII ch then 1
      else if 192 \<le> code ch \<and> code ch < 224 then 2
      else if 224 \<le> code ch \<and> code ch < 240 then 3
      else if 240 \<le> code ch \<and> code ch < 248 then 4
      else if 248 \<le> code ch \<and> code ch < 252 then 5
      else if 252 \<le> code ch \<and> code ch < 254 then 6
      else 0)"

definition SequenceLengthUTF8 :: "string \<Rightarrow> nat" where
  "SequenceLengthUTF8 p =
     (let n = SequenceLengthUTF8_char (hd p) in
      if n = 0 then 0
      else if length (tl p) \<ge> n - 1 \<and> (\<forall>c \<in> set (take (n - 1) (tl p)). IsContinuation c) then n
      else 0)"

text \<open>The offset of the first byte that is not part of a well-formed sequence.\<close>

function FindInvalidUTF8 :: "string \<Rightarrow> nat option" where
  "FindInvalidUTF8 p =
     (if p = [] then None
      else let s = SequenceLengthUTF8_char (hd p) in
        if length p < s then Some 0
        else if SequenceLengthUTF8 p = 0 then Some 0
        else map_option (\<lambda>i. s + i) (FindInvalidUTF8 (drop s p)))"
  by pat_completeness auto
termination
  by (relation "measure length") (auto simp: SequenceLengthUTF8_def Let_def split: if_splits)

declare FindInvalidUTF8.simps [simp del]

lemma FindInvalidUTF8_bound: "FindInvalidUTF8 p = Some i \<Longrightarrow> i < length p"
proof (induction p arbitrary: i rule: FindInvalidUTF8.induct)
  case (1 p)
  show ?case
    using "1.prems" "1.IH" by (subst (asm) FindInvalidUTF8.simps [of p])
      (fastforce simp: Let_def SequenceLengthUTF8_def split: if_splits)
qed

function patch_utf8 :: "string \<Rightarrow> nat \<Rightarrow> string" where
  "patch_utf8 dest invalid =
     (let dest' = dest[invalid := CHR ''?''] in
      case FindInvalidUTF8 (drop (Suc invalid) dest') of
        None \<Rightarrow> dest'
      | Some i \<Rightarrow> patch_utf8 dest' (Suc invalid + i))"
  by pat_completeness auto
termination
  by (relation "measure (\<lambda>(dest, invalid). length dest - invalid)")
    (auto dest!: FindInvalidUTF8_bound)

declare patch_utf8.simps [simp del]

definition fix_utf8 :: "string \<Rightarrow> string option" where
  "fix_utf8 p = map_option (patch_utf8 p) (FindInvalidUTF8 p)"

definition clear_non_printable :: "string \<Rightarrow> string option" where
  "clear_non_printable src =
     (if \<exists>c \<in> set src. IsNonPrintableASCII c
      then Some (map (\<lambda>c. if IsNonPrintableASCII c then CHR 0x20 else c) src)
      else None)"

definition IsSafe :: "string \<Rightarrow> bool" where
  "IsSafe s \<longleftrightarrow> (\<forall>ch \<in> set s. IsASCII ch \<and> IsPrintableASCII ch)"

definition FixTagString :: "string \<Rightarrow> string option" where
  "FixTagString p =
     (if IsSafe p then None
      else let utf8 = fix_utf8 p;
               p' = (case utf8 of None \<Rightarrow> p | Some u \<Rightarrow> u)
           in case clear_non_printable p' of None \<Rightarrow> utf8 | Some c \<Rightarrow> Some c)"

text \<open>What \<open>TagBuilder::AddItemInternal\<close> stores: the fixed string if there is one.\<close>

definition fixed_value :: "string \<Rightarrow> string" where
  "fixed_value p = (case FixTagString p of None \<Rightarrow> p | Some f \<Rightarrow> f)"

lemma SequenceLengthUTF8_append:
  "\<lbrakk>SequenceLengthUTF8 a \<noteq> 0; a \<noteq> []\<rbrakk> \<Longrightarrow> SequenceLengthUTF8 (a @ b) = SequenceLengthUTF8 a"
proof -
  assume nz: "SequenceLengthUTF8 a \<noteq> 0" and ne: "a \<noteq> []"
  let ?n = "SequenceLengthUTF8_char (hd a)"
  have "?n - 1 \<le> length (tl a)"
    using nz by (auto simp: SequenceLengthUTF8_def Let_def split: if_splits)
  then have "take (?n - 1) (tl a @ b) = take (?n - 1) (tl a)" by simp
  with nz ne show ?thesis
    by (auto simp: SequenceLengthUTF8_def Let_def split: if_splits)
qed

lemma FindInvalidUTF8_Nil [simp]: "FindInvalidUTF8 [] = None"
  by (simp add: FindInvalidUTF8.simps)

lemma FindInvalidUTF8_append:
  "FindInvalidUTF8 a = None \<Longrightarrow> FindInvalidUTF8 (a @ b) = map_option ((+) (length a)) (FindInvalidUTF8 b)"
proof (induction a rule: FindInvalidUTF8.induct)
  case (1 a)
  let ?s = "SequenceLengthUTF8_char (hd a)"
  show ?case
  proof (cases "a = []")
    case False
    with "1.prems" have ok: "?s \<le> length a" "SequenceLengthUTF8 a \<noteq> 0"
        "FindInvalidUTF8 (drop ?s a) = None"
      by (auto simp: FindInvalidUTF8.simps [of a] Let_def split: if_splits)
    have IH: "FindInvalidUTF8 (drop ?s a @ b) =
        map_option ((+) (length (drop ?s a))) (FindInvalidUTF8 b)"
      by (rule "1.IH") (use False ok in auto)
    have "FindInvalidUTF8 (a @ b) = map_option ((+) ?s) (FindInvalidUTF8 (drop ?s a @ b))"
      using False ok
      by (subst FindInvalidUTF8.simps) (simp add: Let_def SequenceLengthUTF8_append)
    with IH ok show ?thesis by (simp add: option.map_comp comp_def)
  qed (simp add: option.map_ident)
qed

lemma FindInvalidUTF8_sequence:
  assumes "p \<noteq> []" "SequenceLengthUTF8 p \<noteq> 0" "SequenceLengthUTF8_char (hd p) \<le> length p"
  shows "FindInvalidUTF8 (take (SequenceLengthUTF8_char (hd p)) p) = None"
proof -
  let ?s = "SequenceLengthUTF8_char (hd p)"
  have s: "0 < ?s" using assms(2) by (auto simp: SequenceLengthUTF8_def Let_def split: if_splits)
  with assms have hd: "hd (take ?s p) = hd p" by (simp add: hd_take)
  have "SequenceLengthUTF8 (take ?s p) \<noteq> 0"
    using assms s hd by (auto simp: SequenceLengthUTF8_def Let_def tl_take min_def split: if_splits)
  with assms s hd show ?thesis
    by (subst FindInvalidUTF8.simps) (simp add: Let_def)
qed

lemma FindInvalidUTF8_take: "FindInvalidUTF8 p = Some i \<Longrightarrow> FindInvalidUTF8 (take i p) = None"
proof (induction p arbitrary: i rule: FindInvalidUTF8.induct)
  case (1 p)
  let ?s = "SequenceLengthUTF8_char (hd p)"
  show ?case
  proof (cases "p \<noteq> [] \<and> ?s \<le> length p \<and> SequenceLengthUTF8 p \<noteq> 0")
    case True
    with "1.prems" obtain j where i: "i = ?s + j" and j: "FindInvalidUTF8 (drop ?s p) = Some j"
      by (auto simp: FindInvalidUTF8.simps [of p] Let_def)
    have "FindInvalidUTF8 (take j (drop ?s p)) = None"
      using "1.IH" True j by simp
    with True i show ?thesis
      by (simp add: take_add FindInvalidUTF8_append FindInvalidUTF8_sequence)
  next
    case False
    with "1.prems" have "i = 0"
      by (auto simp: FindInvalidUTF8.simps [of p] Let_def split: if_splits)
    then show ?thesis by simp
  qed
qed

lemma FindInvalidUTF8_question [simp]: "FindInvalidUTF8 ''?'' = None"
  by (simp add: FindInvalidUTF8.simps [of "''?''"] Let_def SequenceLengthUTF8_char_def
      SequenceLengthUTF8_def IsASCII_def)

lemma patch_utf8_valid:
  "\<lbrakk>FindInvalidUTF8 (take i d) = None; i < length d\<rbrakk> \<Longrightarrow> FindInvalidUTF8 (patch_utf8 d i) = None"
proof (induction d i rule: patch_utf8.induct)
  case (1 d i)
  let ?d = "d[i := CHR ''?'']"
  have valid: "FindInvalidUTF8 (take (Suc i) ?d) = None"
    using "1.prems" by (simp add: take_Suc_conv_app_nth FindInvalidUTF8_append)
  have split: "?d = take (Suc i) ?d @ drop (Suc i) ?d" by (rule append_take_drop_id [symmetric])
  show ?case
  proof (cases "FindInvalidUTF8 (drop (Suc i) ?d)")
    case None
    have "FindInvalidUTF8 ?d = None"
      by (subst split, subst FindInvalidUTF8_append [OF valid]) (use None in simp)
    with None show ?thesis by (subst patch_utf8.simps) (simp add: Let_def)
  next
    case (Some j)
    have "take (Suc i + j) ?d = take (Suc i) ?d @ take j (drop (Suc i) ?d)" by (rule take_add)
    then have "FindInvalidUTF8 (take (Suc i + j) ?d) = None"
      using valid FindInvalidUTF8_take [OF Some] by (simp only: FindInvalidUTF8_append) simp
    moreover have "Suc i + j < length ?d"
      using FindInvalidUTF8_bound [OF Some] by simp
    ultimately have "FindInvalidUTF8 (patch_utf8 ?d (Suc i + j)) = None"
      by (rule "1.IH" [OF refl Some])
    with Some show ?thesis by (subst patch_utf8.simps) (simp add: Let_def)
  qed
qed

lemma length_patch_utf8: "length (patch_utf8 d i) = length d"
proof (induction d i rule: patch_utf8.induct)
  case (1 d i)
  then show ?case
    by (subst patch_utf8.simps) (auto simp: Let_def split: option.splits)
qed

lemma FindInvalidUTF8_map:
  assumes f: "\<And>c. SequenceLengthUTF8_char (f c) = SequenceLengthUTF8_char c"
    "\<And>c. IsContinuation (f c) = IsContinuation c"
  shows "FindInvalidUTF8 (map f p) = FindInvalidUTF8 p"
proof (induction p rule: FindInvalidUTF8.induct)
  case (1 p)
  have seq: "p \<noteq> [] \<Longrightarrow> SequenceLengthUTF8 (map f p) = SequenceLengthUTF8 p"
    by (simp add: SequenceLengthUTF8_def Let_def f hd_map map_tl [symmetric] take_map)
  show ?case
    using 1 seq
    by (subst (1 2) FindInvalidUTF8.simps) (simp add: Let_def f hd_map drop_map)
qed

lemma FindInvalidUTF8_ascii: "\<forall>c \<in> set p. IsASCII c \<Longrightarrow> FindInvalidUTF8 p = None"
proof (induction p)
  case (Cons c p)
  have "FindInvalidUTF8 [c] = None"
    using Cons.prems
    by (simp add: FindInvalidUTF8.simps [of "[c]"] Let_def SequenceLengthUTF8_char_def
        SequenceLengthUTF8_def)
  with Cons show ?case using FindInvalidUTF8_append [of "[c]" p] by simp
qed simp

lemma fix_utf8_valid:
  "FindInvalidUTF8 (case fix_utf8 p of None \<Rightarrow> p | Some u \<Rightarrow> u) = None"
  using FindInvalidUTF8_take [of p] FindInvalidUTF8_bound [of p]
  by (auto simp: fix_utf8_def patch_utf8_valid split: option.splits)

lemma clear_non_printable_valid:
  assumes "FindInvalidUTF8 p = None"
  shows "FindInvalidUTF8 (case clear_non_printable p of None \<Rightarrow> p | Some c \<Rightarrow> c) = None"
proof -
  have "FindInvalidUTF8 (map (\<lambda>c. if IsNonPrintableASCII c then CHR 0x20 else c) p) = FindInvalidUTF8 p"
    by (rule FindInvalidUTF8_map)
      (auto simp: SequenceLengthUTF8_char_def IsContinuation_def char_class_defs)
  with assms show ?thesis by (simp add: clear_non_printable_def)
qed

lemma fixed_value_cases:
  "fixed_value p = (if IsSafe p then p
     else case clear_non_printable (case fix_utf8 p of None \<Rightarrow> p | Some u \<Rightarrow> u) of
            None \<Rightarrow> (case fix_utf8 p of None \<Rightarrow> p | Some u \<Rightarrow> u) | Some c \<Rightarrow> c)"
  by (auto simp: fixed_value_def FixTagString_def Let_def split: option.splits)

lemma fixed_value_valid: "FindInvalidUTF8 (fixed_value p) = None"
  using clear_non_printable_valid [OF fix_utf8_valid [of p]]
  by (simp add: fixed_value_cases IsSafe_def FindInvalidUTF8_ascii)

lemma fixed_value_printable: "c \<in> set (fixed_value p) \<Longrightarrow> \<not> IsNonPrintableASCII c"
  by (auto simp: fixed_value_cases clear_non_printable_def IsSafe_def char_class_defs
      split: if_splits)

lemma length_fixed_value: "length (fixed_value p) = length p"
  by (auto simp: fixed_value_cases clear_non_printable_def fix_utf8_def length_patch_utf8
      split: option.splits)

section \<open>Tags and the tag builder\<close>

type_synonym TagItem = "TagType \<times> string"

record Tag =
  duration :: int
  has_playlist :: bool
  items :: "TagItem list"

record TagBuilder =
  b_duration :: int
  b_has_playlist :: bool
  b_items :: "TagItem list"

text \<open>\<open>SignedSongTime::Negative()\<close> is -1 millisecond.\<close>

definition Tag_empty :: Tag where
  "Tag_empty = \<lparr>duration = - 1, has_playlist = False, items = []\<rparr>"

definition TagBuilder_empty :: TagBuilder where
  "TagBuilder_empty = \<lparr>b_duration = - 1, b_has_playlist = False, b_items = []\<rparr>"

definition TagBuilder_of :: "Tag \<Rightarrow> TagBuilder" where
  "TagBuilder_of other =
     \<lparr>b_duration = duration other, b_has_playlist = has_playlist other, b_items = items other\<rparr>"

definition RemoveAll :: "TagBuilder \<Rightarrow> TagBuilder" where
  "RemoveAll b = b\<lparr>b_items := []\<rparr>"

definition TagBuilder_Clear :: "TagBuilder \<Rightarrow> TagBuilder" where
  "TagBuilder_Clear b = RemoveAll (b\<lparr>b_duration := - 1, b_has_playlist := False\<rparr>)"

text \<open>\<open>Commit\<close> moves the contents into the tag and leaves a fresh builder.\<close>

definition Commit :: "TagBuilder \<Rightarrow> Tag \<times> TagBuilder" where
  "Commit b = (\<lparr>duration = b_duration b, has_playlist = b_has_playlist b, items = b_items b\<rparr>,
     TagBuilder_Clear b)"

definition TagBuilder_HasType :: "TagBuilder \<Rightarrow> TagType \<Rightarrow> bool" where
  "TagBuilder_HasType b type \<longleftrightarrow> (\<exists>i \<in> set (b_items b). fst i = type)"

definition Complement :: "TagBuilder \<Rightarrow> Tag \<Rightarrow> TagBuilder" where
  "Complement b other =
     b\<lparr>b_duration := (if b_duration b < 0 then duration other else b_duration b),
       b_has_playlist := (b_has_playlist b \<or> has_playlist other),
       b_items := b_items b @ filter (\<lambda>i. \<not> TagBuilder_HasType b (fst i)) (items other)\<rparr>"

definition AddItemUnchecked :: "TagType \<Rightarrow> string \<Rightarrow> TagBuilder \<Rightarrow> TagBuilder" where
  "AddItemUnchecked type value b = b\<lparr>b_items := b_items b @ [(type, value)]\<rparr>"

definition AddItemInternal :: "TagType \<Rightarrow> string \<Rightarrow> TagBuilder \<Rightarrow> TagBuilder" where
  "AddItemInternal type value b =
     AddItemUnchecked type (case FixTagString value of None \<Rightarrow> value | Some f \<Rightarrow> f) b"

definition AddItem :: "TagMask \<Rightarrow> TagType \<Rightarrow> string \<Rightarrow> TagBuilder \<Rightarrow> TagBuilder" where
  "AddItem global_tag_mask type value b =
     (if value = [] \<or> \<not> IsTagEnabled global_tag_mask type then b
      else AddItemInternal type value b)"

definition AddEmptyItem :: "TagType \<Rightarrow> TagBuilder \<Rightarrow> TagBuilder" where
  "AddEmptyItem type b = AddItemUnchecked type [] b"

definition RemoveType :: "TagType \<Rightarrow> TagBuilder \<Rightarrow> TagBuilder" where
  "RemoveType type b = b\<lparr>b_items := filter (\<lambda>i. fst i \<noteq> type) (b_items b)\<rparr>"

definition Tag_IsDefined :: "Tag \<Rightarrow> bool" where
  "Tag_IsDefined t \<longleftrightarrow> items t \<noteq> [] \<or> \<not> duration t < 0"

definition GetValue :: "Tag \<Rightarrow> TagType \<Rightarrow> string option" where
  "GetValue t type = map_option snd (find (\<lambda>item. fst item = type) (items t))"

definition HasType :: "Tag \<Rightarrow> TagType \<Rightarrow> bool" where
  "HasType t type \<longleftrightarrow> GetValue t type \<noteq> None"

definition Merge :: "Tag \<Rightarrow> Tag \<Rightarrow> Tag" where
  "Merge base add = fst (Commit (Complement (TagBuilder_of add) base))"

definition Merge_ptr :: "Tag option \<Rightarrow> Tag option \<Rightarrow> Tag option" where
  "Merge_ptr base add =
     (case (base, add) of
        (None, None) \<Rightarrow> None
      | (None, Some a) \<Rightarrow> Some a
      | (Some b, None) \<Rightarrow> Some b
      | (Some b, Some a) \<Rightarrow> Some (Merge b a))"

section \<open>The order on tags\<close>

fun DecaySort :: "TagType \<Rightarrow> TagType option" where
  "DecaySort TAG_ARTIST_SORT = Some TAG_ARTIST"
| "DecaySort TAG_ALBUM_SORT = Some TAG_ALBUM"
| "DecaySort TAG_ALBUM_ARTIST_SORT = Some TAG_ALBUM_ARTIST"
| "DecaySort _ = None"

fun Fallback :: "TagType \<Rightarrow> TagType option" where
  "Fallback TAG_ALBUM_ARTIST = Some TAG_ARTIST"
| "Fallback TAG_MUSICBRAINZ_ALBUMARTISTID = Some TAG_MUSICBRAINZ_ARTISTID"
| "Fallback _ = None"

lemma Fallback_final:
  "Fallback t = Some u \<Longrightarrow> u \<in> {TAG_ARTIST, TAG_MUSICBRAINZ_ARTISTID} \<and>
     t \<notin> {TAG_ARTIST, TAG_MUSICBRAINZ_ARTISTID}"
  by (cases t) auto

lemma DecaySort_sort: "DecaySort t = Some u \<Longrightarrow> t \<notin> {TAG_ARTIST, TAG_MUSICBRAINZ_ARTISTID}"
  by (cases t) auto

function GetSortValue :: "Tag \<Rightarrow> TagType \<Rightarrow> string" where
  "GetSortValue tag type =
     (case GetValue tag type of
        Some value \<Rightarrow> value
      | None \<Rightarrow>
          (case Option.bind (DecaySort type) (GetValue tag) of
             Some value \<Rightarrow> value
           | None \<Rightarrow>
               (case Fallback type of
                  Some type' \<Rightarrow> GetSortValue tag type'
                | None \<Rightarrow>
                    (case DecaySort type of
                       None \<Rightarrow> []
                     | Some no_sort_type \<Rightarrow>
                         (case Fallback no_sort_type of
                            None \<Rightarrow> []
                          | Some type' \<Rightarrow> GetSortValue tag type')))))"
  by pat_completeness auto
termination
  by (relation "measure (\<lambda>(tag, t). if t \<in> {TAG_ARTIST, TAG_MUSICBRAINZ_ARTISTID} then 0 else 1)")
    (auto dest: Fallback_final DecaySort_sort)

declare GetSortValue.simps [simp del]

definition CompareNumeric :: "string \<Rightarrow> string \<Rightarrow> bool" where
  "CompareNumeric a b \<longleftrightarrow> fst (strtol a) < fst (strtol b)"

text \<open>\<open>strcmp(a, b) < 0\<close>: the first byte that differs decides.\<close>

fun strcmp_less :: "string \<Rightarrow> string \<Rightarrow> bool" where
  "strcmp_less _ [] = False"
| "strcmp_less [] (_ # _) = True"
| "strcmp_less (a # as) (b # bs) =
     (if a = b then strcmp_less as bs else code a < code b)"

definition CompareTags :: "TagType \<Rightarrow> bool \<Rightarrow> Tag \<Rightarrow> Tag \<Rightarrow> bool" where
  "CompareTags type descending a b =
     (let va = GetSortValue a type; vb = GetSortValue b type;
          (x, y) = (if descending then (vb, va) else (va, vb))
      in if type = TAG_DISC \<or> type = TAG_TRACK then CompareNumeric x y else strcmp_less x y)"

text \<open>
  \<open>ApplyTagFallback\<close> visits the fallback types until the callback returns true; the
  callback's effect is threaded through a state.
\<close>

definition ApplyTagFallback1 ::
    "TagType \<Rightarrow> (TagType \<Rightarrow> 's \<Rightarrow> bool \<times> 's) \<Rightarrow> 's \<Rightarrow> bool \<times> 's" where
  "ApplyTagFallback1 type f s =
     (if type = TAG_ALBUM_ARTIST \<or> type = TAG_ARTIST_SORT then f TAG_ARTIST s
      else if type = TAG_ALBUM_SORT then f TAG_ALBUM s
      else if type = TAG_TITLE_SORT then f TAG_TITLE s
      else if type = TAG_COMPOSERSORT then f TAG_COMPOSER s
      else (False, s))"

definition ApplyTagFallback ::
    "TagType \<Rightarrow> (TagType \<Rightarrow> 's \<Rightarrow> bool \<times> 's) \<Rightarrow> 's \<Rightarrow> bool \<times> 's" where
  "ApplyTagFallback type f s =
     (if type = TAG_ALBUM_ARTIST_SORT
      then (case f TAG_ALBUM_ARTIST s of
              (True, s') \<Rightarrow> (True, s')
            | (False, s') \<Rightarrow> ApplyTagFallback1 TAG_ARTIST_SORT f s')
      else ApplyTagFallback1 type f s)"

definition ApplyTagWithFallback ::
    "TagType \<Rightarrow> (TagType \<Rightarrow> 's \<Rightarrow> bool \<times> 's) \<Rightarrow> 's \<Rightarrow> bool \<times> 's" where
  "ApplyTagWithFallback type f s =
     (case f type s of (True, s') \<Rightarrow> (True, s') | (False, s') \<Rightarrow> ApplyTagFallback type f s')"

section \<open>Properties\<close>

text \<open>
  What \<open>FixTagString\<close> leaves behind is always a complete UTF-8
  string without control characters, of the same length. It returns null only for a
  string that needs no repair.
\<close>

lemma FixTagString_sound:
  "case FixTagString p of
     None \<Rightarrow> FindInvalidUTF8 p = None \<and> (\<forall>c \<in> set p. \<not> IsNonPrintableASCII c)
   | Some q \<Rightarrow> FindInvalidUTF8 q = None \<and> (\<forall>c \<in> set q. \<not> IsNonPrintableASCII c) \<and> length q = length p"
  using fixed_value_valid [of p] fixed_value_printable [of _ p] length_fixed_value [of p]
  by (auto simp: fixed_value_def split: option.splits)

lemma find_append_types:
  "find P (xs @ ys) = (case find P xs of Some x \<Rightarrow> Some x | None \<Rightarrow> find P ys)"
  by (induction xs) auto

lemma find_filter_outside:
  "(\<And>x. P x \<Longrightarrow> Q x) \<Longrightarrow> find P (filter Q xs) = find P xs"
  by (induction xs) auto

text \<open>
  Merging tags: the second tag wins wherever it has a value of
  a type, the first one fills the gaps.
\<close>

lemma Merge_GetValue:
  "GetValue (Merge base add) t =
     (case GetValue add t of Some v \<Rightarrow> Some v | None \<Rightarrow> GetValue base t)"
proof (cases "find (\<lambda>i. fst i = t) (items add)")
  case None
  then have "find (\<lambda>i. fst i = t) (filter (\<lambda>i. \<not> TagBuilder_HasType (TagBuilder_of add) (fst i)) (items base)) =
      find (\<lambda>i. fst i = t) (items base)"
    by (intro find_filter_outside) (force simp: TagBuilder_HasType_def TagBuilder_of_def find_None_iff_map)
  with None show ?thesis
    by (simp add: Merge_def Commit_def Complement_def GetValue_def find_append_types TagBuilder_of_def)
next
  case (Some i)
  then show ?thesis
    by (simp add: Merge_def Commit_def Complement_def GetValue_def find_append_types TagBuilder_of_def)
qed

lemma strcmp_less_asym: "strcmp_less a b \<Longrightarrow> \<not> strcmp_less b a"
  by (induction a b rule: strcmp_less.induct) (auto split: if_splits)

lemma strcmp_not_less_trans:
  "\<lbrakk>\<not> strcmp_less a b; \<not> strcmp_less b c\<rbrakk> \<Longrightarrow> \<not> strcmp_less a c"
proof (induction a c arbitrary: b rule: strcmp_less.induct)
  case (2 y ys)
  then show ?case by (cases b) auto
next
  case (3 x xs y ys)
  show ?case
  proof (cases b)
    case (Cons z zs)
    have "x = z \<or> code z < code x" "z = y \<or> code y < code z"
      using "3.prems" Cons by (auto simp: not_less of_char_eq_iff nat_less_le split: if_splits)
    then show ?thesis using 3 Cons by (auto split: if_splits)
  qed (use "3.prems" in simp)
qed simp

lemma strcmp_total: "\<lbrakk>\<not> strcmp_less a b; \<not> strcmp_less b a\<rbrakk> \<Longrightarrow> a = b"
proof (induction a b rule: strcmp_less.induct)
  case (1 a)
  then show ?case by (cases a) auto
qed (auto simp: not_less le_antisym split: if_splits)

interpretation strcmp_order: strict_weak_order strcmp_less
  by unfold_locales (use strcmp_less_asym strcmp_not_less_trans in blast)+

interpretation numeric_order: strict_weak_order CompareNumeric
  by unfold_locales (auto simp: CompareNumeric_def)

interpretation tag_order: strict_weak_order "CompareTags type descending"
  by unfold_locales
    (auto simp: CompareTags_def Let_def dest: strcmp_order.less_asym numeric_order.less_asym
      intro: strcmp_order.not_less_trans numeric_order.not_less_trans split: if_splits,
     (meson strcmp_order.not_less_trans numeric_order.not_less_trans)+)

text \<open>
  Sorting by \<open>CompareTags\<close>, for every tag type and direction,
  gives a permutation in which no tag precedes a smaller one and equivalent tags keep
  their order; \<open>CompareTags\<close> is the strict weak order that needs.
\<close>

lemma sort_by_CompareTags:
  "sorted_wrt (\<lambda>x y. \<not> CompareTags type descending y x) (SortList (CompareTags type descending) tags) \<and>
   mset (SortList (CompareTags type descending) tags) = mset tags \<and>
   filter (\<lambda>x. \<not> CompareTags type descending k x \<and> \<not> CompareTags type descending x k)
       (SortList (CompareTags type descending) tags) =
     filter (\<lambda>x. \<not> CompareTags type descending k x \<and> \<not> CompareTags type descending x k) tags"
  by (intro conjI tag_order.SortList_sorted tag_order.SortList_stable SortList_mset)

end
