(* ===== verification/Simple_Directory.thy ===== *)
theory Simple_Directory
  imports Path_Traits Audio_Format Tag_Model Sort_List
begin

text \<open>
  The in-memory tree of the simple database plugin: playlist entries
  (db/PlaylistInfo.hxx, db/PlaylistVector.cxx), songs (db/plugins/simple/Song.cxx),
  their order (SongSort.cxx) and directories (Directory.cxx). A \<open>Directory\<close> object is a
  record of its own fields together with the list of its children; its \<open>parent\<close>
  pointer is the position in the tree, of which the record keeps only whether it is
  null (\<open>IsRoot\<close>). Where the code follows parent pointers the model passes the chain of
  ancestors, innermost first.

  A pointer to an object of the tree is the list of names that leads to it
  (\<open>lookup_names\<close>, \<open>update_names\<close>). The fields \<open>mark\<close> have no initial value in the
  sources; a new object of the model has \<open>False\<close> there, and the update code assigns
  the field before it reads it.
\<close>

section \<open>Playlist entries\<close>

record PlaylistInfo =
  pl_name :: string
  pl_mtime :: time_point
  pl_mark :: bool

definition PlaylistInfo_new :: "string \<Rightarrow> time_point \<Rightarrow> PlaylistInfo" where
  "PlaylistInfo_new name mtime = \<lparr>pl_name = name, pl_mtime = mtime, pl_mark = False\<rparr>"

type_synonym PlaylistVector = "PlaylistInfo list"

definition PlaylistVector_find :: "string \<Rightarrow> PlaylistVector \<Rightarrow> PlaylistInfo option" where
  "PlaylistVector_find name pv = find (\<lambda>pi. pl_name pi = name) pv"

text \<open>The entry found keeps its mark when the time stamp is unchanged.\<close>

definition UpdateOrInsert :: "PlaylistInfo \<Rightarrow> PlaylistVector \<Rightarrow> bool \<times> PlaylistVector" where
  "UpdateOrInsert pi pv =
     (case PlaylistVector_find (pl_name pi) pv of
        Some i \<Rightarrow>
          if pl_mtime pi = pl_mtime i then (False, pv)
          else (True, update_first (\<lambda>i. pl_name i = pl_name pi)
                 (\<lambda>i. i\<lparr>pl_mtime := pl_mtime pi, pl_mark := True\<rparr>) pv)
      | None \<Rightarrow> (True, pv @ [pi\<lparr>pl_mark := True\<rparr>]))"

definition PlaylistVector_erase :: "string \<Rightarrow> PlaylistVector \<Rightarrow> bool \<times> PlaylistVector" where
  "PlaylistVector_erase name pv =
     (case PlaylistVector_find name pv of
        None \<Rightarrow> (False, pv)
      | Some _ \<Rightarrow> (True, remove_first (\<lambda>i. pl_name i = name) pv))"

definition PlaylistVector_exists :: "string \<Rightarrow> PlaylistVector \<Rightarrow> bool" where
  "PlaylistVector_exists name pv \<longleftrightarrow> PlaylistVector_find name pv \<noteq> None"

section \<open>Songs\<close>

text \<open>A \<open>SongTime\<close> is an unsigned 32-bit count of milliseconds (Chrono.hxx).\<close>

type_synonym SongTime = "32 word"

record Song =
  filename :: string
  target :: string
  song_tag :: Tag
  song_mtime :: time_point
  added :: time_point
  start_time :: SongTime
  end_time :: SongTime
  audio_format :: AudioFormat
  in_playlist :: bool
  song_mark :: bool

definition Song_new :: "string \<Rightarrow> Song" where
  "Song_new name =
     \<lparr>filename = name, target = [], song_tag = Tag_empty, song_mtime = time_point_min,
      added = time_point_min, start_time = 0, end_time = 0,
      audio_format = AudioFormat_Undefined, in_playlist = False, song_mark = False\<rparr>"

definition Song_GetFilenameSuffix :: "Song \<Rightarrow> string option" where
  "Song_GetFilenameSuffix s =
     (if target s = [] then GetFilenameSuffix (filename s) else GetPathSuffix (target s))"

section \<open>The order of songs\<close>

text \<open>\<open>IcuCollate\<close> calls ICU (or \<open>strcoll\<close>): the parameter \<open>collate\<close>.\<close>

type_synonym collate = "string \<Rightarrow> string \<Rightarrow> int"

definition compare_utf8_string :: "collate \<Rightarrow> string option \<Rightarrow> string option \<Rightarrow> int" where
  "compare_utf8_string collate a b =
     (case a of
        None \<Rightarrow> if b = None then 0 else -1
      | Some x \<Rightarrow> (case b of None \<Rightarrow> 1 | Some y \<Rightarrow> collate x y))"

definition compare_string_tag_item :: "collate \<Rightarrow> Tag \<Rightarrow> Tag \<Rightarrow> TagType \<Rightarrow> int" where
  "compare_string_tag_item collate a b type =
     compare_utf8_string collate (GetValue a type) (GetValue b type)"

text \<open>The difference of two \<open>long\<close> values is returned as an \<open>int\<close>.\<close>

definition compare_number_string :: "string option \<Rightarrow> string option \<Rightarrow> int" where
  "compare_number_string a b =
     (let ai = (case a of None \<Rightarrow> 0 | Some x \<Rightarrow> fst (strtol x));
          bi = (case b of None \<Rightarrow> 0 | Some y \<Rightarrow> fst (strtol y)) in
      if ai \<le> 0 then (if bi \<le> 0 then 0 else -1)
      else if bi \<le> 0 then 1
      else int32_of (ai - bi))"

definition compare_tag_item :: "Tag \<Rightarrow> Tag \<Rightarrow> TagType \<Rightarrow> int" where
  "compare_tag_item a b type = compare_number_string (GetValue a type) (GetValue b type)"

definition song_cmp :: "collate \<Rightarrow> Song \<Rightarrow> Song \<Rightarrow> bool" where
  "song_cmp collate a b =
     (let album = compare_string_tag_item collate (song_tag a) (song_tag b) TAG_ALBUM in
      if album \<noteq> 0 then album < 0
      else let disc = compare_tag_item (song_tag a) (song_tag b) TAG_DISC in
      if disc \<noteq> 0 then disc < 0
      else let track = compare_tag_item (song_tag a) (song_tag b) TAG_TRACK in
      if track \<noteq> 0 then track < 0
      else collate (filename a) (filename b) < 0)"

definition song_list_sort :: "collate \<Rightarrow> Song list \<Rightarrow> Song list" where
  "song_list_sort collate songs = SortList (song_cmp collate) songs"

section \<open>Directories\<close>

definition DEVICE_INARCHIVE :: "64 word" where
  "DEVICE_INARCHIVE = 0xFFFFFFFF"

definition DEVICE_CONTAINER :: "64 word" where
  "DEVICE_CONTAINER = 0xFFFFFFFE"

definition DEVICE_PLAYLIST :: "64 word" where
  "DEVICE_PLAYLIST = 0xFFFFFFFD"

text \<open>A mounted database is known by a handle.\<close>

record dir_info =
  is_root :: bool
  path :: string
  dir_mtime :: time_point
  inode :: "64 word"
  device :: "64 word"
  mounted_database :: "nat option"
  dir_mark :: bool
  songs :: "Song list"
  playlists :: PlaylistVector

datatype directory = Directory (dir: dir_info) (children: "directory list")

definition Directory_new :: "string \<Rightarrow> bool \<Rightarrow> directory" where
  "Directory_new p root =
     Directory \<lparr>is_root = root, path = p, dir_mtime = time_point_min, inode = 0, device = 0,
       mounted_database = None, dir_mark = False, songs = [], playlists = []\<rparr> []"

definition NewRoot :: directory where
  "NewRoot = Directory_new [] True"

definition IsPlaylist :: "dir_info \<Rightarrow> bool" where
  "IsPlaylist i \<longleftrightarrow> device i = DEVICE_PLAYLIST"

definition IsReallyAFile :: "dir_info \<Rightarrow> bool" where
  "IsReallyAFile i \<longleftrightarrow> device i = DEVICE_INARCHIVE \<or> IsPlaylist i \<or> device i = DEVICE_CONTAINER"

definition IsMount :: "dir_info \<Rightarrow> bool" where
  "IsMount i \<longleftrightarrow> mounted_database i \<noteq> None"

definition IsEmpty :: "directory \<Rightarrow> bool" where
  "IsEmpty d \<longleftrightarrow> children d = [] \<and> songs (dir d) = [] \<and> playlists (dir d) = []"

text \<open>\<open>GetName\<close> strips the parent's path and the separator.\<close>

definition GetName :: "dir_info \<Rightarrow> dir_info \<Rightarrow> string" where
  "GetName parent i =
     (if is_root parent then path i else drop (length (path parent) + 1) (path i))"

definition child_path :: "dir_info \<Rightarrow> string \<Rightarrow> string" where
  "child_path i name = (if is_root i then name else Build (path i) name)"

definition CreateChild :: "string \<Rightarrow> directory \<Rightarrow> directory" where
  "CreateChild name d = Directory (dir d) (children d @ [Directory_new (child_path (dir d) name) False])"

definition FindChild :: "directory \<Rightarrow> string \<Rightarrow> directory option" where
  "FindChild d name = find (\<lambda>c. GetName (dir d) (dir c) = name) (children d)"

definition MakeChild :: "string \<Rightarrow> directory \<Rightarrow> directory" where
  "MakeChild name d = (case FindChild d name of None \<Rightarrow> CreateChild name d | Some _ \<Rightarrow> d)"

text \<open>\<open>Delete\<close> unlinks the child from its parent's list.\<close>

definition Directory_Delete :: "string \<Rightarrow> directory \<Rightarrow> directory" where
  "Directory_Delete name d =
     Directory (dir d) (remove_first (\<lambda>c. GetName (dir d) (dir c) = name) (children d))"

definition update_child :: "string \<Rightarrow> (directory \<Rightarrow> directory) \<Rightarrow> directory \<Rightarrow> directory" where
  "update_child name f d =
     Directory (dir d) (update_first (\<lambda>c. GetName (dir d) (dir c) = name) f (children d))"

definition FindSong :: "directory \<Rightarrow> string \<Rightarrow> Song option" where
  "FindSong d name = find (\<lambda>s. filename s = name) (songs (dir d))"

definition AddSong :: "Song \<Rightarrow> directory \<Rightarrow> directory" where
  "AddSong s d = Directory ((dir d)\<lparr>songs := songs (dir d) @ [s]\<rparr>) (children d)"

definition RemoveSong :: "string \<Rightarrow> directory \<Rightarrow> directory" where
  "RemoveSong name d =
     Directory ((dir d)\<lparr>songs := remove_first (\<lambda>s. filename s = name) (songs (dir d))\<rparr>) (children d)"

definition GetURI :: "dir_info \<Rightarrow> Song \<Rightarrow> string" where
  "GetURI parent s = (if is_root parent then filename s else Build (path parent) (filename s))"

fun ClearInPlaylist :: "directory \<Rightarrow> directory" where
  "ClearInPlaylist (Directory i cs) =
     Directory (i\<lparr>songs := map (\<lambda>s. s\<lparr>in_playlist := False\<rparr>) (songs i)\<rparr>) (map ClearInPlaylist cs)"

fun PruneEmpty :: "directory \<Rightarrow> directory" where
  "PruneEmpty (Directory i cs) =
     Directory i (filter (\<lambda>c. \<not> (IsEmpty c \<and> \<not> IsMount (dir c))) (map PruneEmpty cs))"

definition directory_cmp :: "collate \<Rightarrow> directory \<Rightarrow> directory \<Rightarrow> bool" where
  "directory_cmp collate a b \<longleftrightarrow> collate (path (dir a)) (path (dir b)) < 0"

function Sort :: "collate \<Rightarrow> directory \<Rightarrow> directory" where
  "Sort collate (Directory i cs) =
     Directory (i\<lparr>songs := song_list_sort collate (songs i)\<rparr>)
       (map (Sort collate) (SortList (directory_cmp collate) cs))"
  by pat_completeness auto
termination
proof (relation "measure (\<lambda>(_, d). size d)")
  fix collate i cs z
  assume "z \<in> set (SortList (directory_cmp collate) cs)"
  then show "((collate, z), collate, Directory i cs) \<in> measure (\<lambda>(_, d). size d)"
    using size_list_estimation' [of z cs "size z" size] by (simp add: less_Suc_eq_le)
qed simp

section \<open>Looking up by URI\<close>

text \<open>
  \<open>lookup_names d ns\<close> is the object that the pointer \<open>ns\<close> denotes; \<open>update_names\<close> writes
  through it.
\<close>

fun lookup_names :: "directory \<Rightarrow> string list \<Rightarrow> directory option" where
  "lookup_names d [] = Some d"
| "lookup_names d (n # ns) = (case FindChild d n of None \<Rightarrow> None | Some c \<Rightarrow> lookup_names c ns)"

fun update_names :: "string list \<Rightarrow> (directory \<Rightarrow> directory) \<Rightarrow> directory \<Rightarrow> directory" where
  "update_names [] f d = f d"
| "update_names (n # ns) f d = update_child n (update_names ns f) d"

text \<open>
  The loop of \<open>LookupDirectory\<close>: the names consumed, the directory reached and the rest
  of the URI, \<open>None\<close> for the null view.
\<close>

function lookup_loop :: "directory \<Rightarrow> string \<Rightarrow> string list \<times> directory \<times> string option" where
  "lookup_loop d uri =
     (case Split uri SEPARATOR of (name, rest) \<Rightarrow>
        if name = [] then ([], d, Some uri)
        else case FindChild d name of
            None \<Rightarrow> ([], d, Some uri)
          | Some tmp \<Rightarrow>
              (case rest of
                 None \<Rightarrow> ([name], tmp, None)
               | Some r \<Rightarrow> (case lookup_loop tmp r of (names, d', u) \<Rightarrow> (name # names, d', u))))"
  by pat_completeness auto
termination
  by (relation "measure (\<lambda>(d, uri). length uri)") (auto dest: Split_rest_shorter [OF sym])

record LookupResult =
  lr_names :: "string list"
  lr_directory :: directory
  lr_uri :: string
  lr_rest :: "string option"

definition LookupDirectory :: "directory \<Rightarrow> string \<Rightarrow> LookupResult" where
  "LookupDirectory d uri0 =
     (if isRootDirectory uri0
      then \<lparr>lr_names = [], lr_directory = d, lr_uri = uri0, lr_rest = None\<rparr>
      else case lookup_loop d uri0 of (names, d', u) \<Rightarrow>
        \<lparr>lr_names = names, lr_directory = d',
         lr_uri = (case u of None \<Rightarrow> uri0 | Some r \<Rightarrow> take (length uri0 - length r) uri0),
         lr_rest = u\<rparr>)"

text \<open>
  A chain lists a directory and its ancestors, innermost first. An empty view and the
  null view are the same to \<open>FindSong\<close>.
\<close>

definition rest_view :: "string option \<Rightarrow> string" where
  "rest_view r = (case r of None \<Rightarrow> [] | Some u \<Rightarrow> u)"

fun LookupTargetSong :: "directory list \<Rightarrow> string \<Rightarrow> Song option" where
  "LookupTargetSong [] tgt = None"
| "LookupTargetSong (d # ancestors) tgt =
     (case SkipPrefix tgt ''../'' of
        (True, rest) \<Rightarrow> LookupTargetSong ancestors rest
      | (False, _) \<Rightarrow>
          (let lr = LookupDirectory d tgt in FindSong (lr_directory lr) (rest_view (lr_rest lr))))"

fun FindTargetDirectory :: "directory list \<Rightarrow> string list \<Rightarrow> directory list" where
  "FindTargetDirectory [] names = []"
| "FindTargetDirectory (d # ancestors) [] = d # ancestors"
| "FindTargetDirectory (d # ancestors) (name # names) =
     (if name = [] \<or> name = ''.'' then FindTargetDirectory (d # ancestors) names
      else if name = ''..'' then FindTargetDirectory ancestors names
      else case FindChild d name of
          None \<Rightarrow> []
        | Some c \<Rightarrow> FindTargetDirectory (c # d # ancestors) names)"

definition FindTargetSong :: "directory list \<Rightarrow> string \<Rightarrow> Song option" where
  "FindTargetSong chain tgt =
     (let (a, b) = SplitLast tgt CHR ''/'';
          (p, lastname) = (case b of None \<Rightarrow> ([], a) | Some l \<Rightarrow> (a, l)) in
      if lastname = [] then None
      else case FindTargetDirectory chain (IterableSplitString p CHR ''/'') of
          [] \<Rightarrow> None
        | d # _ \<Rightarrow> FindSong d lastname)"

section \<open>Exporting and visiting\<close>

record LightSong =
  ls_directory :: "string option"
  ls_uri :: string
  real_uri :: "string option"
  ls_tag :: Tag
  ls_mtime :: time_point
  ls_added :: time_point
  ls_start_time :: SongTime
  ls_end_time :: SongTime
  ls_audio_format :: AudioFormat
  ls_priority :: "8 word"

definition Song_Export :: "directory list \<Rightarrow> Song \<Rightarrow> LightSong" where
  "Song_Export chain s =
     (let parent = dir (hd chain);
          target_song = (if target s \<noteq> [] then FindTargetSong chain (target s) else None);
          merged_tag = (case target_song of
              None \<Rightarrow> Tag_empty
            | Some t \<Rightarrow> fst (Commit (Complement (TagBuilder_of (song_tag s)) (song_tag t))))
      in \<lparr>ls_directory = (if is_root parent then None else Some (path parent)),
          ls_uri = filename s,
          real_uri = (if target s \<noteq> [] then Some (target s) else None),
          ls_tag = (if Tag_IsDefined merged_tag then merged_tag else song_tag s),
          ls_mtime = (case target_song of
              Some t \<Rightarrow> if song_mtime s < 0 then song_mtime t else song_mtime s
            | None \<Rightarrow> song_mtime s),
          ls_added = (case target_song of
              Some t \<Rightarrow> if added s < 0 then added t else added s
            | None \<Rightarrow> added s),
          ls_start_time = (case target_song of
              Some t \<Rightarrow> if start_time s = 0 then start_time t else start_time s
            | None \<Rightarrow> start_time s),
          ls_end_time = (case target_song of
              Some t \<Rightarrow> if end_time s = 0 then end_time t else end_time s
            | None \<Rightarrow> end_time s),
          ls_audio_format = (case target_song of
              Some t \<Rightarrow> if IsDefined (audio_format s) then audio_format s else audio_format t
            | None \<Rightarrow> audio_format s),
          ls_priority = 0\<rparr>)"

definition LightSong_GetURI :: "LightSong \<Rightarrow> string" where
  "LightSong_GetURI ls =
     (case ls_directory ls of None \<Rightarrow> ls_uri ls | Some d \<Rightarrow> d @ SEPARATOR # ls_uri ls)"

datatype visit =
    VisitDirectory string time_point
  | VisitSong LightSong
  | VisitPlaylist PlaylistInfo string time_point

text \<open>
  \<open>Directory::Walk\<close> as the list of callbacks it makes; the flags say which callbacks are
  set. A mount point hands over to \<open>walk_mount\<close> (Mount.cxx) on the mounted database.
\<close>

record visit_flags =
  visit_directory :: bool
  visit_song :: bool
  visit_playlist :: bool

fun Directory_Walk ::
  "(string \<Rightarrow> nat \<Rightarrow> visit list) \<Rightarrow> bool \<Rightarrow> (LightSong \<Rightarrow> bool) option \<Rightarrow> bool \<Rightarrow>
     visit_flags \<Rightarrow> directory list \<Rightarrow> directory \<Rightarrow> visit list" where
  "Directory_Walk walk_mount recursive flt hide_playlist_targets v ancestors (Directory i cs) =
     (case mounted_database i of
        Some db \<Rightarrow> walk_mount (path i) db
      | None \<Rightarrow>
          (if visit_song v then
             map VisitSong (filter (\<lambda>s2. case flt of None \<Rightarrow> True | Some f \<Rightarrow> f s2)
               (map (Song_Export (Directory i cs # ancestors))
                 (filter (\<lambda>s. \<not> (hide_playlist_targets \<and> in_playlist s)) (songs i))))
           else []) @
          (if visit_playlist v then
             map (\<lambda>p. VisitPlaylist p (path i) (dir_mtime i)) (playlists i)
           else []) @
          concat (map (\<lambda>c.
            (if visit_directory v then [VisitDirectory (path (dir c)) (dir_mtime (dir c))] else []) @
            (if recursive then
               Directory_Walk walk_mount recursive flt hide_playlist_targets v (Directory i cs # ancestors) c
             else [])) cs))"

declare lookup_loop.simps [simp del]

section \<open>The contract of a list of named entries\<close>

text \<open>
  The songs, the playlists and the children of a directory are lists searched by name;
  the three implement one contract. The key may depend on the container, because a
  child's name is its path without the parent's.
\<close>

locale entry_store =
  fixes invar :: "'s \<Rightarrow> bool" and lookup :: "'s \<Rightarrow> string \<Rightarrow> 'e option"
    and add :: "'e \<Rightarrow> 's \<Rightarrow> 's" and erase :: "string \<Rightarrow> 's \<Rightarrow> 's"
    and key :: "'s \<Rightarrow> 'e \<Rightarrow> string"
  assumes lookup_key: "lookup s n = Some e \<Longrightarrow> key s e = n"
    and lookup_add: "lookup s (key s e) = None \<Longrightarrow>
      lookup (add e s) n = (if n = key s e then Some e else lookup s n)"
    and lookup_erase: "invar s \<Longrightarrow> lookup (erase n s) m = (if m = n then None else lookup s m)"
    and invar_add: "\<lbrakk>invar s; lookup s (key s e) = None\<rbrakk> \<Longrightarrow> invar (add e s)"
    and invar_erase: "invar s \<Longrightarrow> invar (erase n s)"
    and key_add: "key (add e s) = key s"
    and key_erase: "key (erase n s) = key s"
begin

lemma erase_add:
  "\<lbrakk>invar s; lookup s (key s e) = None\<rbrakk> \<Longrightarrow> lookup (erase (key s e) (add e s)) = lookup s"
  by (rule ext) (simp add: lookup_erase invar_add lookup_add)

lemma add_commute:
  "\<lbrakk>lookup s (key s e) = None; lookup s (key s f) = None; key s e \<noteq> key s f\<rbrakk> \<Longrightarrow>
    lookup (add e (add f s)) = lookup (add f (add e s))"
  by (rule ext) (simp add: lookup_add key_add)

text \<open>
  A load or a scan adds many entries, each under a name that is not there yet: afterwards
  every one of them is found, and nothing else has changed.
\<close>

lemma fold_add:
  "\<lbrakk>distinct (map (key s) es); \<forall>e \<in> set es. lookup s (key s e) = None; invar s\<rbrakk> \<Longrightarrow>
    invar (fold add es s) \<and> key (fold add es s) = key s \<and>
    lookup (fold add es s) n =
      (case find (\<lambda>e. key s e = n) es of Some e \<Rightarrow> Some e | None \<Rightarrow> lookup s n)"
proof (induction es arbitrary: s)
  case (Cons e es)
  have s': "invar (add e s)" "key (add e s) = key s"
    "\<forall>e' \<in> set es. lookup (add e s) (key s e') = None"
    using Cons.prems by (auto simp: invar_add key_add lookup_add rev_image_eqI)
  have "invar (fold add es (add e s)) \<and> key (fold add es (add e s)) = key s \<and>
      lookup (fold add es (add e s)) n =
        (case find (\<lambda>e. key s e = n) es of Some e \<Rightarrow> Some e | None \<Rightarrow> lookup (add e s) n)"
    using Cons.IH [of "add e s"] Cons.prems(1) s' by simp
  moreover have "find (\<lambda>e'. key s e' = key s e) es = None"
    using Cons.prems(1) by (simp add: find_None_iff_map)
  ultimately show ?case
    using Cons.prems(2) by (auto simp: lookup_add split: option.splits)
qed simp

end

lemma find_snoc:
  "find (\<lambda>x. f x = f e) xs = None \<Longrightarrow>
    find (\<lambda>x. f x = n) (xs @ [e]) = (if n = f e then Some e else find (\<lambda>x. f x = n) xs)"
  by (induction xs) auto

lemma find_remove_first:
  "distinct (map f xs) \<Longrightarrow>
    find (\<lambda>x. f x = m) (remove_first (\<lambda>x. f x = n) xs) =
      (if m = n then None else find (\<lambda>x. f x = m) xs)"
  by (induction xs) (auto simp: find_None_iff_map)

lemma distinct_map_snoc:
  "\<lbrakk>distinct (map f xs); find (\<lambda>x. f x = f e) xs = None\<rbrakk> \<Longrightarrow> distinct (map f (xs @ [e]))"
  by (auto simp: find_None_iff_map)

interpretation song_store: entry_store "\<lambda>d. distinct (map filename (songs (dir d)))" FindSong AddSong RemoveSong
  "\<lambda>d. filename"
  by unfold_locales
    (auto simp: FindSong_def AddSong_def RemoveSong_def find_snoc find_remove_first distinct_map_remove_first
      find_None_iff_map dest: find_SomeD)

interpretation playlist_store: entry_store "\<lambda>pv. distinct (map pl_name pv)" "\<lambda>pv n. PlaylistVector_find n pv"
  "\<lambda>e pv. pv @ [e]" "\<lambda>n pv. snd (PlaylistVector_erase n pv)" "\<lambda>pv. pl_name"
proof unfold_locales
  fix pv :: PlaylistVector and n m
  assume "distinct (map pl_name pv)"
  then show "PlaylistVector_find m (snd (PlaylistVector_erase n pv)) =
      (if m = n then None else PlaylistVector_find m pv)"
    by (simp add: PlaylistVector_find_def PlaylistVector_erase_def find_remove_first split: option.split)
qed (auto simp: PlaylistVector_find_def PlaylistVector_erase_def find_snoc
      distinct_map_remove_first find_None_iff_map dest: find_SomeD split: option.splits)

definition append_child :: "directory \<Rightarrow> directory \<Rightarrow> directory" where
  "append_child c d = Directory (dir d) (children d @ [c])"

interpretation child_store: entry_store "\<lambda>d. distinct (map (\<lambda>c. GetName (dir d) (dir c)) (children d))"
  FindChild append_child Directory_Delete "\<lambda>d c. GetName (dir d) (dir c)"
proof unfold_locales
  fix d e n
  assume "FindChild d (GetName (dir d) (dir e)) = None"
  then show "FindChild (append_child e d) n = (if n = GetName (dir d) (dir e) then Some e else FindChild d n)"
    using find_snoc [of "\<lambda>c. GetName (dir d) (dir c)" e "children d" n]
    by (simp add: FindChild_def append_child_def)
next
  fix d n m
  assume "distinct (map (\<lambda>c. GetName (dir d) (dir c)) (children d))"
  then show "FindChild (Directory_Delete n d) m = (if m = n then None else FindChild d m)"
    using find_remove_first [of "\<lambda>c. GetName (dir d) (dir c)" "children d" m n]
    by (simp add: FindChild_def Directory_Delete_def)
qed (auto simp: FindChild_def append_child_def Directory_Delete_def distinct_map_remove_first
      find_None_iff_map dest: find_SomeD)

section \<open>Well-formed trees\<close>

definition path_ok :: "dir_info \<Rightarrow> bool" where
  "path_ok i \<longleftrightarrow> (if is_root i then path i = [] else path i \<noteq> [] \<and> last (path i) \<noteq> SEPARATOR)"

definition child_ok :: "dir_info \<Rightarrow> dir_info \<Rightarrow> bool" where
  "child_ok i c \<longleftrightarrow> \<not> is_root c \<and> valid_name (GetName i c) \<and> path c = child_path i (GetName i c)"

fun wf_directory :: "directory \<Rightarrow> bool" where
  "wf_directory (Directory i cs) \<longleftrightarrow>
     path_ok i \<and> distinct (map filename (songs i)) \<and> distinct (map pl_name (playlists i)) \<and>
     distinct (map (\<lambda>c. GetName i (dir c)) cs) \<and>
     (\<forall>c \<in> set cs. child_ok i (dir c) \<and> wf_directory c)"

text \<open>What an update of a directory may not change for its parent to stay well-formed.\<close>

definition same_identity :: "dir_info \<Rightarrow> dir_info \<Rightarrow> bool" where
  "same_identity i j \<longleftrightarrow> is_root i = is_root j \<and> path i = path j"

lemma same_identity_refl [simp]: "same_identity i i"
  by (simp add: same_identity_def)

lemma same_identity_simps [simp]:
  "same_identity i (i\<lparr>songs := x\<rparr>)" "same_identity i (i\<lparr>playlists := y\<rparr>)"
  "same_identity i (i\<lparr>dir_mtime := t\<rparr>)" "same_identity i (i\<lparr>inode := w\<rparr>)"
  "same_identity i (i\<lparr>device := v\<rparr>)" "same_identity i (i\<lparr>dir_mark := b\<rparr>)"
  "same_identity i (i\<lparr>mounted_database := m\<rparr>)"
  by (simp_all add: same_identity_def)

lemma same_identity_GetName:
  "same_identity i j \<Longrightarrow> GetName i = GetName j"
  "same_identity i j \<Longrightarrow> GetName k j = GetName k i"
  by (auto simp: same_identity_def GetName_def fun_eq_iff)

lemma same_identity_ok:
  "same_identity i j \<Longrightarrow> path_ok i = path_ok j"
  "same_identity i j \<Longrightarrow> child_ok i = child_ok j"
  "same_identity i j \<Longrightarrow> child_ok k i = child_ok k j"
  by (auto simp: same_identity_def path_ok_def child_ok_def GetName_def child_path_def fun_eq_iff)

lemma dir_info_upd [simp, dir_simps]:
  "GetName (i\<lparr>songs := x\<rparr>) = GetName i" "child_path (i\<lparr>songs := x\<rparr>) = child_path i"
  "path_ok (i\<lparr>songs := x\<rparr>) = path_ok i" "child_ok (i\<lparr>songs := x\<rparr>) = child_ok i"
  "IsMount (i\<lparr>songs := x\<rparr>) = IsMount i" "GetName k (i\<lparr>songs := x\<rparr>) = GetName k i"
  "child_ok k (i\<lparr>songs := x\<rparr>) = child_ok k i" "GetName (i\<lparr>playlists := y\<rparr>) = GetName i"
  "child_path (i\<lparr>playlists := y\<rparr>) = child_path i" "path_ok (i\<lparr>playlists := y\<rparr>) = path_ok i"
  "child_ok (i\<lparr>playlists := y\<rparr>) = child_ok i" "IsMount (i\<lparr>playlists := y\<rparr>) = IsMount i"
  "GetName k (i\<lparr>playlists := y\<rparr>) = GetName k i" "child_ok k (i\<lparr>playlists := y\<rparr>) = child_ok k i"
  "GetName (i\<lparr>dir_mtime := t\<rparr>) = GetName i" "child_path (i\<lparr>dir_mtime := t\<rparr>) = child_path i"
  "path_ok (i\<lparr>dir_mtime := t\<rparr>) = path_ok i" "child_ok (i\<lparr>dir_mtime := t\<rparr>) = child_ok i"
  "IsMount (i\<lparr>dir_mtime := t\<rparr>) = IsMount i" "GetName k (i\<lparr>dir_mtime := t\<rparr>) = GetName k i"
  "child_ok k (i\<lparr>dir_mtime := t\<rparr>) = child_ok k i" "GetName (i\<lparr>inode := w\<rparr>) = GetName i"
  "child_path (i\<lparr>inode := w\<rparr>) = child_path i" "path_ok (i\<lparr>inode := w\<rparr>) = path_ok i"
  "child_ok (i\<lparr>inode := w\<rparr>) = child_ok i" "IsMount (i\<lparr>inode := w\<rparr>) = IsMount i"
  "GetName k (i\<lparr>inode := w\<rparr>) = GetName k i" "child_ok k (i\<lparr>inode := w\<rparr>) = child_ok k i"
  "GetName (i\<lparr>device := v\<rparr>) = GetName i" "child_path (i\<lparr>device := v\<rparr>) = child_path i"
  "path_ok (i\<lparr>device := v\<rparr>) = path_ok i" "child_ok (i\<lparr>device := v\<rparr>) = child_ok i"
  "IsMount (i\<lparr>device := v\<rparr>) = IsMount i" "GetName k (i\<lparr>device := v\<rparr>) = GetName k i"
  "child_ok k (i\<lparr>device := v\<rparr>) = child_ok k i" "GetName (i\<lparr>dir_mark := b\<rparr>) = GetName i"
  "child_path (i\<lparr>dir_mark := b\<rparr>) = child_path i" "path_ok (i\<lparr>dir_mark := b\<rparr>) = path_ok i"
  "child_ok (i\<lparr>dir_mark := b\<rparr>) = child_ok i" "IsMount (i\<lparr>dir_mark := b\<rparr>) = IsMount i"
  "GetName k (i\<lparr>dir_mark := b\<rparr>) = GetName k i" "child_ok k (i\<lparr>dir_mark := b\<rparr>) = child_ok k i"
  by (simp_all add: GetName_def child_path_def path_ok_def child_ok_def IsMount_def fun_eq_iff)

lemma GetName_child_path [simp, dir_simps]:
  assumes "path_ok i" "valid_name n"
  shows "GetName i (dir (Directory_new (child_path i n) r)) = n"
  using assms Build_name [of "path i" n]
  by (auto simp: GetName_def Directory_new_def child_path_def path_ok_def)

lemma child_ok_new [dir_simps]:
  "\<lbrakk>path_ok i; valid_name n\<rbrakk> \<Longrightarrow> child_ok i (dir (Directory_new (child_path i n) False))"
  using GetName_child_path [of i n False] by (simp add: child_ok_def) (simp add: Directory_new_def)

lemma child_path_ok: "\<lbrakk>path_ok i; child_ok i c\<rbrakk> \<Longrightarrow> path_ok c"
  using last_Build_name [of "path i" "GetName i c"] Build_name [of "path i" "GetName i c"]
  by (auto simp: child_ok_def path_ok_def child_path_def valid_name_def dest: last_in_set split: if_splits)

lemma wf_NewRoot [simp, wf_intros]: "wf_directory NewRoot"
  by (simp add: NewRoot_def Directory_new_def path_ok_def IsMount_def)

lemma wf_new_child [wf_intros]:
  "\<lbrakk>path_ok i; valid_name n\<rbrakk> \<Longrightarrow> wf_directory (Directory_new (child_path i n) False)"
  using child_path_ok [OF _ child_ok_new, of i n] by (simp add: Directory_new_def IsMount_def)

lemma wf_path_ok: "wf_directory d \<Longrightarrow> path_ok (dir d)"
  by (cases d) simp

lemma wf_songs: "wf_directory d \<Longrightarrow> distinct (map filename (songs (dir d)))"
  by (cases d) simp

lemma wf_child_names: "wf_directory d \<Longrightarrow> distinct (map (\<lambda>c. GetName (dir d) (dir c)) (children d))"
  by (cases d) simp

lemma FindChild_SomeD:
  assumes "FindChild d n = Some c" "wf_directory d"
  shows "c \<in> set (children d)" "GetName (dir d) (dir c) = n" "wf_directory c" "child_ok (dir d) (dir c)"
    "valid_name n" "path (dir c) = child_path (dir d) n"
  using assms by (cases d, auto simp: FindChild_def child_ok_def dest!: find_SomeD)+

lemma FindChild_member:
  "\<lbrakk>wf_directory d; c \<in> set (children d)\<rbrakk> \<Longrightarrow> FindChild d (GetName (dir d) (dir c)) = Some c"
  using find_distinct_map [of "\<lambda>c. GetName (dir d) (dir c)" "children d" c]
  by (cases d) (simp add: FindChild_def)

lemma CreateChild_append:
  "CreateChild n d = append_child (Directory_new (child_path (dir d) n) False) d"
  by (simp add: CreateChild_def append_child_def)

lemma FindChild_CreateChild:
  assumes "wf_directory d" "valid_name n" "FindChild d n = None"
  shows "FindChild (CreateChild n d) m =
    (if m = n then Some (Directory_new (child_path (dir d) n) False) else FindChild d m)"
  using child_store.lookup_add [of d "Directory_new (child_path (dir d) n) False" m] assms
  by (simp add: CreateChild_append wf_path_ok)

lemma wf_append_child:
  assumes "wf_directory d" "wf_directory c" "child_ok (dir d) (dir c)"
    "FindChild d (GetName (dir d) (dir c)) = None"
  shows "wf_directory (append_child c d)"
  using assms child_store.invar_add [of d c] by (cases d) (simp add: append_child_def)

lemma wf_CreateChild [wf_intros]:
  assumes "wf_directory d" "valid_name n" "FindChild d n = None"
  shows "wf_directory (CreateChild n d)"
  unfolding CreateChild_append
  using assms wf_path_ok [OF assms(1)] by (intro wf_append_child) (simp_all add: wf_new_child child_ok_new)

lemma wf_MakeChild [wf_intros]:
  "\<lbrakk>wf_directory d; valid_name n\<rbrakk> \<Longrightarrow> wf_directory (MakeChild n d)"
  by (auto simp: MakeChild_def wf_CreateChild split: option.split)

lemma wf_Delete [wf_intros]: "wf_directory d \<Longrightarrow> wf_directory (Directory_Delete n d)"
  using set_remove_first_subset [of "\<lambda>c. GetName (dir d) (dir c) = n" "children d"]
  by (cases d) (auto simp: Directory_Delete_def distinct_map_remove_first IsEmpty_def)

text \<open>
  A write through the pointer to a child keeps the tree well-formed when the child stays
  well-formed and keeps its path.
\<close>

lemma dir_update_child [simp]: "dir (update_child n f d) = dir d"
  by (simp add: update_child_def)

lemma wf_update_child [wf_intros]:
  assumes "wf_directory d"
    and "\<And>c. \<lbrakk>FindChild d n = Some c; wf_directory c\<rbrakk> \<Longrightarrow>
      wf_directory (f c) \<and> same_identity (dir c) (dir (f c))"
  shows "wf_directory (update_child n f d)"
proof (cases d)
  case (Directory i cs)
  let ?P = "\<lambda>c. GetName i (dir c) = n"
  have upd: "wf_directory (f c) \<and> same_identity (dir c) (dir (f c))" if "c \<in> set cs" "?P c" for c
  proof -
    have "FindChild d n = Some c" "wf_directory c"
      using that assms(1) FindChild_member [of d c] Directory by auto
    then show ?thesis by (rule assms(2))
  qed
  then have "map (\<lambda>c. GetName i (dir c)) (update_first ?P f cs) = map (\<lambda>c. GetName i (dir c)) cs"
    by (induction cs) (auto simp: same_identity_GetName)
  moreover have "\<forall>c \<in> set (update_first ?P f cs). child_ok i (dir c) \<and> wf_directory c"
  proof
    fix c
    assume "c \<in> set (update_first ?P f cs)"
    then consider "c \<in> set cs" | c' where "c' \<in> set cs" "?P c'" "c = f c'"
      using set_update_first_subset [of ?P f cs] by auto
    then show "child_ok i (dir c) \<and> wf_directory c"
      by cases (use assms(1) Directory upd in \<open>auto dest: same_identity_ok(3) [of _ _ i]\<close>)
  qed
  moreover have "update_first ?P f [] = []" by simp
  ultimately show ?thesis
    using assms(1) Directory by (auto simp: update_child_def IsEmpty_def)
qed

lemma wf_AddSong [wf_intros]:
  "\<lbrakk>wf_directory d; FindSong d (filename s) = None\<rbrakk> \<Longrightarrow> wf_directory (AddSong s d)"
  using song_store.invar_add [of d s] by (cases d) (simp add: AddSong_def)

lemma wf_RemoveSong [wf_intros]: "wf_directory d \<Longrightarrow> wf_directory (RemoveSong n d)"
  using song_store.invar_erase [of d n]
  by (cases d) (auto simp: RemoveSong_def IsEmpty_def)

section \<open>Whole-tree operations\<close>

text \<open>
  The contents of a tree: every song with its URI, every playlist entry with the path of
  its directory.
\<close>

fun all_songs :: "directory \<Rightarrow> (string \<times> Song) list" where
  "all_songs (Directory i cs) = map (\<lambda>s. (GetURI i s, s)) (songs i) @ concat (map all_songs cs)"

fun all_playlists :: "directory \<Rightarrow> (string \<times> PlaylistInfo) list" where
  "all_playlists (Directory i cs) = map (\<lambda>p. (path i, p)) (playlists i) @ concat (map all_playlists cs)"

lemma dir_PruneEmpty [simp]: "dir (PruneEmpty d) = dir d"
  by (cases d) simp

lemma dir_Sort: "dir (Sort collate d) = (dir d)\<lparr>songs := song_list_sort collate (songs (dir d))\<rparr>"
  by (cases d) simp

lemma all_empty: "IsEmpty d \<Longrightarrow> all_songs d = [] \<and> all_playlists d = []"
  by (cases d) (simp add: IsEmpty_def)

lemma concat_map_filter_irrelevant:
  "(\<And>x. x \<in> set xs \<Longrightarrow> \<not> P x \<Longrightarrow> f x = []) \<Longrightarrow> concat (map f (filter P xs)) = concat (map f xs)"
  by (induction xs) auto

lemma PruneEmpty_concat:
  assumes "\<And>c. IsEmpty c \<Longrightarrow> g c = []" "\<And>c. c \<in> set cs \<Longrightarrow> g (PruneEmpty c) = g c"
  shows "concat (map g (children (PruneEmpty (Directory i cs)))) = concat (map g cs)"
proof -
  have "concat (map g (children (PruneEmpty (Directory i cs)))) = concat (map g (map PruneEmpty cs))"
    unfolding PruneEmpty.simps directory.sel by (rule concat_map_filter_irrelevant) (use assms(1) in auto)
  also have "\<dots> = concat (map g cs)" using assms(2) by (simp add: comp_def cong: map_cong)
  finally show ?thesis .
qed

lemma PruneEmpty_contents: "all_songs (PruneEmpty d) = all_songs d \<and> all_playlists (PruneEmpty d) = all_playlists d"
proof (induction d)
  case (Directory i cs)
  then show ?case
    using PruneEmpty_concat [of all_songs cs i] PruneEmpty_concat [of all_playlists cs i] all_empty by simp
qed

text \<open>The mount points of a tree, with their paths and databases.\<close>

fun mount_points :: "directory \<Rightarrow> (string \<times> nat) list" where
  "mount_points (Directory i cs) =
     (case mounted_database i of None \<Rightarrow> [] | Some db \<Rightarrow> [(path i, db)]) @ concat (map mount_points cs)"

lemma mount_points_empty: "IsEmpty d \<Longrightarrow> \<not> IsMount (dir d) \<Longrightarrow> mount_points d = []"
  by (cases d) (simp add: IsEmpty_def IsMount_def)

lemma PruneEmpty_mount_points: "mount_points (PruneEmpty d) = mount_points d"
proof (induction d)
  case (Directory i cs)
  let ?cs = "filter (\<lambda>c. \<not> (IsEmpty c \<and> \<not> IsMount (dir c))) (map PruneEmpty cs)"
  have "concat (map mount_points ?cs) = concat (map mount_points (map PruneEmpty cs))"
    by (rule concat_map_filter_irrelevant) (use mount_points_empty in blast)
  also have "\<dots> = concat (map mount_points cs)" using Directory by (simp add: comp_def cong: map_cong)
  finally show ?case by (simp only: PruneEmpty.simps mount_points.simps)
qed

fun no_empty_below :: "directory \<Rightarrow> bool" where
  "no_empty_below (Directory i cs) \<longleftrightarrow>
     (\<forall>c \<in> set cs. (\<not> IsEmpty c \<or> IsMount (dir c)) \<and> no_empty_below c)"

lemma PruneEmpty_no_empty: "no_empty_below (PruneEmpty d)"
  by (induction d) auto

lemma wf_PruneEmpty [wf_intros]: "wf_directory d \<Longrightarrow> wf_directory (PruneEmpty d)"
proof (induction d)
  case (Directory i cs)
  have "map (\<lambda>c. GetName i (dir c)) (map PruneEmpty cs) = map (\<lambda>c. GetName i (dir c)) cs" by simp
  then have "distinct (map (\<lambda>c. GetName i (dir c)) (map PruneEmpty cs))"
    using Directory.prems by (simp only: wf_directory.simps)
  then have "distinct (map (\<lambda>c. GetName i (dir c)) (filter (\<lambda>c. IsEmpty c \<longrightarrow> IsMount (dir c)) (map PruneEmpty cs)))"
    by (rule distinct_map_filterI)
  moreover have "IsEmpty (Directory i cs) \<Longrightarrow> IsEmpty (PruneEmpty (Directory i cs))" by (simp add: IsEmpty_def)
  ultimately show ?case using Directory by auto
qed

lemma mset_concat_map: "mset (concat (map f xs)) = sum_mset (image_mset (\<lambda>x. mset (f x)) (mset xs))"
  by (induction xs) auto

lemma GetURI_songs_upd [simp]: "GetURI (i\<lparr>songs := x\<rparr>) = GetURI i"
  by (simp add: GetURI_def fun_eq_iff)

lemma Sort_contents:
  "mset (all_songs (Sort collate d)) = mset (all_songs d) \<and>
   mset (all_playlists (Sort collate d)) = mset (all_playlists d) \<and>
   mset (mount_points (Sort collate d)) = mset (mount_points d)"
proof (induction collate d rule: Sort.induct)
  case (1 collate i cs)
  let ?cs = "SortList (directory_cmp collate) cs"
  have kids: "mset (concat (map g (map (Sort collate) ?cs))) = mset (concat (map g cs))"
    if "\<And>c. c \<in> set ?cs \<Longrightarrow> mset (g (Sort collate c)) = mset (g c)" for g :: "directory \<Rightarrow> 'b list"
  proof -
    have "image_mset (\<lambda>x. mset (g (Sort collate x))) (mset ?cs) = image_mset (\<lambda>x. mset (g x)) (mset ?cs)"
      by (rule image_mset_cong) (use that in simp)
    then show ?thesis unfolding mset_concat_map by (simp add: SortList_mset multiset.map_comp comp_def)
  qed
  have songs: "mset (map f (song_list_sort collate xs)) = mset (map f xs)" for f :: "Song \<Rightarrow> 'c" and xs
    by (simp add: song_list_sort_def SortList_mset)
  have kid: "mset (all_songs (Sort collate c)) = mset (all_songs c)"
    "mset (all_playlists (Sort collate c)) = mset (all_playlists c)"
    "mset (mount_points (Sort collate c)) = mset (mount_points c)" if "c \<in> set ?cs" for c
    using 1 [OF that] by blast+
  show ?case
    using kids [of all_songs, OF kid(1)] kids [of all_playlists, OF kid(2)] kids [of mount_points, OF kid(3)]
    by (simp add: songs mset_append del: mset_map map_map mset_concat split: option.split)
qed

lemma SortList_Nil_iff [simp]: "SortList p xs = [] \<longleftrightarrow> xs = []"
  using SortList_set [of p xs] by (metis set_empty)

lemma wf_Sort [wf_intros]: "wf_directory d \<Longrightarrow> wf_directory (Sort collate d)"
proof (induction collate d rule: Sort.induct)
  case (1 collate i cs)
  let ?cs = "SortList (directory_cmp collate) cs" and ?i = "i\<lparr>songs := song_list_sort collate (songs i)\<rparr>"
  have "mset (map filename (songs ?i)) = mset (map filename (songs i))"
    "mset (map (\<lambda>c. GetName i (dir c)) ?cs) = mset (map (\<lambda>c. GetName i (dir c)) cs)"
    by (simp_all add: song_list_sort_def SortList_mset)
  then have d: "distinct (map filename (songs ?i))" "distinct (map (\<lambda>c. GetName i (dir c)) ?cs)"
    using 1(2) by (metis mset_eq_imp_distinct_iff wf_directory.simps)+
  show ?case using 1 d by (auto simp: IsEmpty_def song_list_sort_def comp_def dir_Sort)
qed

section \<open>The order of a sorted tree\<close>

text \<open>
  The order that \<open>song_cmp\<close> is meant to be: album, disc and track number compared without
  a bound, file name. Numbers below \<open>2 ^ 31\<close> are compared exactly by the code.
\<close>

definition number_of :: "string option \<Rightarrow> int" where
  "number_of v = max 0 (case v of None \<Rightarrow> 0 | Some x \<Rightarrow> fst (strtol x))"

definition song_order :: "collate \<Rightarrow> Song \<Rightarrow> Song \<Rightarrow> int" where
  "song_order collate a b =
     (let album = compare_string_tag_item collate (song_tag a) (song_tag b) TAG_ALBUM;
          disc = number_of (GetValue (song_tag a) TAG_DISC) - number_of (GetValue (song_tag b) TAG_DISC);
          track = number_of (GetValue (song_tag a) TAG_TRACK) - number_of (GetValue (song_tag b) TAG_TRACK)
      in if album \<noteq> 0 then album else if disc \<noteq> 0 then disc else if track \<noteq> 0 then track
         else collate (filename a) (filename b))"

definition small_numbers :: "Song \<Rightarrow> bool" where
  "small_numbers s \<longleftrightarrow>
     number_of (GetValue (song_tag s) TAG_DISC) < 2 ^ 31 \<and> number_of (GetValue (song_tag s) TAG_TRACK) < 2 ^ 31"

lemma compare_number_string_sgn:
  assumes "number_of a < 2 ^ 31" "number_of b < 2 ^ 31"
  shows "compare_number_string a b < 0 \<longleftrightarrow> number_of a < number_of b"
    and "compare_number_string a b = 0 \<longleftrightarrow> number_of a = number_of b"
  using assms by (auto simp: compare_number_string_def number_of_def Let_def max_def int32_of_id split: if_splits)

lemma song_cmp_order:
  "\<lbrakk>small_numbers a; small_numbers b\<rbrakk> \<Longrightarrow> song_cmp collate a b \<longleftrightarrow> song_order collate a b < 0"
  by (simp add: song_cmp_def song_order_def Let_def small_numbers_def compare_tag_item_def
      compare_number_string_sgn)

lemma comparator_utf8_string: "comparator collate \<Longrightarrow> comparator (compare_utf8_string collate)"
  by (auto simp: comparator_def compare_utf8_string_def split: option.splits)

lemma comparator_song_order:
  assumes "comparator collate"
  shows "comparator (song_order collate)"
proof -
  note lex = comparator_lex [OF comparator_difference comparator_image [OF assms]]
  have "comparator (\<lambda>a b. compare_string_tag_item collate (song_tag a) (song_tag b) TAG_ALBUM)"
    unfolding compare_string_tag_item_def
    by (rule comparator_image [OF comparator_utf8_string [OF assms], of "\<lambda>s. GetValue (song_tag s) TAG_ALBUM"])
  then show ?thesis
    unfolding song_order_def Let_def
    by (intro comparator_lex comparator_difference comparator_image [OF assms, of filename])
qed

fun sorted_tree :: "collate \<Rightarrow> directory \<Rightarrow> bool" where
  "sorted_tree collate (Directory i cs) \<longleftrightarrow>
     sorted_wrt (\<lambda>a b. song_order collate a b \<le> 0) (songs i) \<and>
     sorted_wrt (\<lambda>a b. collate (path (dir a)) (path (dir b)) \<le> 0) cs \<and>
     (\<forall>c \<in> set cs. sorted_tree collate c)"

fun tree_all_songs :: "(Song \<Rightarrow> bool) \<Rightarrow> directory \<Rightarrow> bool" where
  "tree_all_songs P (Directory i cs) \<longleftrightarrow> (\<forall>s \<in> set (songs i). P s) \<and> (\<forall>c \<in> set cs. tree_all_songs P c)"

lemma song_list_sort_sorted:
  assumes "comparator collate" "\<forall>s \<in> set xs. small_numbers s"
  shows "sorted_wrt (\<lambda>a b. song_order collate a b \<le> 0) (song_list_sort collate xs)"
proof -
  have "song_list_sort collate xs = SortList (\<lambda>a b. song_order collate a b < 0) xs"
    unfolding song_list_sort_def using assms(2) by (intro SortList_cong) (simp add: song_cmp_order)
  then show ?thesis using comparator.cmp_sorted [OF comparator_song_order [OF assms(1)]] by simp
qed

lemma sorted_tree_Sort:
  "\<lbrakk>comparator collate; tree_all_songs small_numbers d\<rbrakk> \<Longrightarrow> sorted_tree collate (Sort collate d)"
proof (induction collate d rule: Sort.induct)
  case (1 collate i cs)
  have "sorted_wrt (\<lambda>a b. collate (path (dir a)) (path (dir b)) \<le> 0) (SortList (directory_cmp collate) cs)"
    using comparator.cmp_sorted [OF comparator_image [OF 1(2), of "\<lambda>d. path (dir d)"], of cs]
    by (simp add: directory_cmp_def [abs_def])
  then show ?case using 1 by (simp add: song_list_sort_sorted sorted_wrt_map dir_Sort)
qed

text \<open>
  A collation for the build without ICU: \<open>strcoll\<close> in the "C" locale compares bytes.
\<close>

definition strcoll_C :: collate where
  "strcoll_C a b = (if strcmp_less a b then -1 else if strcmp_less b a then 1 else 0)"

interpretation c_locale: comparator strcoll_C
proof
  show "strcoll_C a b < 0 \<longleftrightarrow> 0 < strcoll_C b a" for a b
    using strcmp_less_asym by (auto simp: strcoll_C_def)
  show "strcoll_C a c \<le> 0" if "strcoll_C a b \<le> 0" "strcoll_C b c \<le> 0" for a b c
    using that strcmp_order.not_less_trans [of c b a] strcmp_less_asym
    by (auto simp: strcoll_C_def split: if_splits)
qed

section \<open>URIs address the tree\<close>

definition names_path :: "string list \<Rightarrow> string" where
  "names_path ns = (case ns of [] \<Rightarrow> [] | n # ms \<Rightarrow> n @ concat (map (Cons SEPARATOR) ms))"

lemma names_path_simps [simp]:
  "names_path [] = []" "names_path [n] = n" "names_path (n # m # ms) = n @ SEPARATOR # names_path (m # ms)"
  by (simp_all add: names_path_def)

lemma names_path_snoc: "ns \<noteq> [] \<Longrightarrow> names_path (ns @ [m]) = names_path ns @ SEPARATOR # m"
  by (cases ns) (simp_all add: names_path_def)

lemma lookup_names_append:
  "lookup_names d (ns @ ms) = Option.bind (lookup_names d ns) (\<lambda>c. lookup_names c ms)"
  by (induction ns arbitrary: d) (auto split: option.splits)

lemma lookup_names_wf:
  "\<lbrakk>lookup_names d ns = Some c; wf_directory d\<rbrakk> \<Longrightarrow> wf_directory c \<and> (\<forall>n \<in> set ns. valid_name n)"
  by (induction ns arbitrary: d) (auto split: option.splits dest: FindChild_SomeD)

lemma lookup_names_path:
  "\<lbrakk>lookup_names d ns = Some c; wf_directory d; is_root (dir d)\<rbrakk> \<Longrightarrow>
    path (dir c) = names_path ns \<and> (is_root (dir c) \<longleftrightarrow> ns = [])"
proof (induction ns arbitrary: c rule: rev_induct)
  case Nil
  then show ?case by (auto dest: wf_path_ok simp: path_ok_def)
next
  case (snoc n ns)
  then obtain b where b: "lookup_names d ns = Some b" "FindChild b n = Some c"
    by (auto simp: lookup_names_append split: option.splits bind_splits)
  have wf: "wf_directory b" using b(1) snoc.prems(2) lookup_names_wf by blast
  note child = FindChild_SomeD [OF b(2) wf]
  have IH: "path (dir b) = names_path ns" "is_root (dir b) \<longleftrightarrow> ns = []"
    using snoc.IH [OF b(1) snoc.prems(2,3)] by auto
  have "\<not> is_root (dir c)" using child(4) by (simp add: child_ok_def)
  moreover have "path (dir c) = names_path (ns @ [n])"
  proof (cases "ns = []")
    case False
    then show ?thesis
      using IH child(5,6) wf_path_ok [OF wf] Build_name [of "path (dir b)" n]
      by (simp add: child_path_def path_ok_def names_path_snoc)
  qed (use IH child(6) in \<open>simp add: child_path_def\<close>)
  ultimately show ?case by simp
qed

lemma Split_names_path:
  "valid_name n \<Longrightarrow> Split (names_path (n # ns)) SEPARATOR =
    (n, if ns = [] then None else Some (names_path ns))"
  by (cases ns) (auto simp: valid_name_def Split_none Split_append)

lemma lookup_loop_hit:
  "\<lbrakk>lookup_names d (n # ns) = Some c; wf_directory d\<rbrakk> \<Longrightarrow>
    lookup_loop d (names_path (n # ns)) = (n # ns, c, None)"
proof (induction ns arbitrary: d n)
  case Nil
  then show ?case
    using FindChild_SomeD(5) [of d n]
    by (subst lookup_loop.simps) (auto simp: Split_names_path [of n "[]", simplified] valid_name_def split: option.splits)
next
  case (Cons m ns)
  then obtain b where b: "FindChild d n = Some b" "lookup_names b (m # ns) = Some c"
    by (auto split: option.splits)
  note child = FindChild_SomeD [OF b(1) Cons.prems(2)]
  show ?case
    using Cons.IH [OF b(2) child(3)] b(1) child(5)
    by (subst lookup_loop.simps) (simp add: Split_names_path del: names_path_simps, simp add: valid_name_def)
qed

lemma lookup_loop_rest:
  "\<lbrakk>lookup_names d ns = Some c; wf_directory d; valid_name f; FindChild c f = None\<rbrakk> \<Longrightarrow>
    lookup_loop d (names_path (ns @ [f])) = (ns, c, Some f)"
proof (induction ns arbitrary: d)
  case Nil
  then show ?case
    by (subst lookup_loop.simps) (auto simp: Split_names_path [of f "[]", simplified] valid_name_def)
next
  case (Cons n ns)
  then obtain b where b: "FindChild d n = Some b" "lookup_names b ns = Some c"
    by (auto split: option.splits)
  note child = FindChild_SomeD [OF b(1) Cons.prems(2)]
  show ?case
    using Cons.IH [OF b(2) child(3) Cons.prems(3,4)] b(1) child(5)
    by (subst lookup_loop.simps) (simp add: Split_names_path del: names_path_simps, simp add: valid_name_def)
qed

lemma GetURI_names:
  assumes "lookup_names d ns = Some c" "wf_directory d" "is_root (dir d)" "valid_name (filename s)"
  shows "GetURI (dir c) s = names_path (ns @ [filename s])"
proof (cases "ns = []")
  case False
  have "wf_directory c" using lookup_names_wf [OF assms(1,2)] by blast
  with False show ?thesis
    using lookup_names_path [OF assms(1-3)] assms(4) wf_path_ok [of c] Build_name [of "path (dir c)" "filename s"]
    by (simp add: GetURI_def path_ok_def names_path_snoc)
qed (use assms in \<open>simp add: GetURI_def\<close>)

lemma names_path_not_root: "\<forall>n \<in> set ns. valid_name n \<Longrightarrow> ns \<noteq> [] \<Longrightarrow> \<not> isRootDirectory (names_path ns)"
  by (cases ns) (auto simp: isRootDirectory_def valid_name_def names_path_def append_eq_Cons_conv)

text \<open>
  Property C25 (roundtrip): a song's own URI leads back to it. \<open>LookupDirectory\<close> on the URI
  that \<open>GetURI\<close> prints stops in the song's directory with the file name as the rest, and
  \<open>FindSong\<close> returns the song, unless a sub directory has the name of the song.
\<close>

theorem song_uri_lookup:
  assumes "wf_directory d" "is_root (dir d)" "lookup_names d ns = Some c" "FindSong c f = Some s"
    "valid_name f" "FindChild c f = None"
  shows "LookupDirectory d (GetURI (dir c) s) =
      \<lparr>lr_names = ns, lr_directory = c,
       lr_uri = (if ns = [] then [] else names_path ns @ [SEPARATOR]), lr_rest = Some f\<rparr> \<and>
    FindSong (lr_directory (LookupDirectory d (GetURI (dir c) s))) f = Some s"
proof -
  have f: "filename s = f" using assms(4) by (rule song_store.lookup_key)
  then have uri: "GetURI (dir c) s = names_path (ns @ [f])"
    using GetURI_names [OF assms(3,1,2)] assms(5) by simp
  have "\<not> isRootDirectory (names_path (ns @ [f]))"
    using lookup_names_wf [OF assms(3,1)] assms(5) by (intro names_path_not_root) auto
  then show ?thesis
    using lookup_loop_rest [OF assms(3,1,5,6)] assms(4)
    by (simp add: uri LookupDirectory_def names_path_snoc split: if_splits)
qed

text \<open>A small tree: one song in a sub directory, next to an empty directory.\<close>

definition sample_song :: Song where
  "sample_song = (Song_new ''1.flac'')\<lparr>song_tag := Tag_empty\<lparr>items := [(TAG_TRACK, ''7'')]\<rparr>\<rparr>"

definition sample_tree :: directory where
  "sample_tree = CreateChild ''void'' (update_child ''jazz'' (AddSong sample_song) (CreateChild ''jazz'' NewRoot))"

lemmas sample_defs = sample_tree_def sample_song_def NewRoot_def Directory_new_def CreateChild_def
  update_child_def AddSong_def GetName_def child_path_def Song_new_def

lemma sample_wf: "wf_directory sample_tree"
  by (simp add: sample_defs path_ok_def child_ok_def IsMount_def valid_name_def)

lemma sample_lookup:
  "lookup_names sample_tree [''jazz''] = Some (Directory ((dir (Directory_new ''jazz'' False))\<lparr>songs := [sample_song]\<rparr>) [])"
  by (simp add: sample_defs FindChild_def)

theorem song_uri_lookup_witness:
  "FindSong (lr_directory (LookupDirectory sample_tree ''jazz/1.flac'')) ''1.flac'' = Some sample_song"
proof -
  let ?jazz = "Directory ((dir (Directory_new ''jazz'' False))\<lparr>songs := [sample_song]\<rparr>) []"
  have uri: "GetURI (dir ?jazz) sample_song = ''jazz/1.flac''"
    by (simp add: GetURI_def Build_def IsSeparator_def Directory_new_def sample_song_def Song_new_def)
  have "is_root (dir sample_tree)" "FindSong ?jazz ''1.flac'' = Some sample_song"
    "valid_name ''1.flac''" "FindChild ?jazz ''1.flac'' = None"
    by (simp_all add: sample_defs FindSong_def FindChild_def valid_name_def)
  from song_uri_lookup [OF sample_wf this(1) sample_lookup this(2-4)] show ?thesis
    unfolding uri by blast
qed

text \<open>
  Property C27 (functional): \<open>PruneEmpty\<close> removes every empty directory below the root that is no mount
  point, including those that become empty by it; it loses no song, no playlist and no mount point with its
  database, and the tree stays well-formed.
\<close>

theorem PruneEmpty_correct:
  assumes "wf_directory d"
  shows "wf_directory (PruneEmpty d) \<and> no_empty_below (PruneEmpty d) \<and>
    all_songs (PruneEmpty d) = all_songs d \<and> all_playlists (PruneEmpty d) = all_playlists d \<and>
    mount_points (PruneEmpty d) = mount_points d"
  using assms by (simp add: wf_PruneEmpty PruneEmpty_no_empty PruneEmpty_contents PruneEmpty_mount_points)

text \<open>The same tree with a mount point in the place of the empty directory, and another empty directory.\<close>

definition sample_tree_mount :: directory where
  "sample_tree_mount = CreateChild ''zip''
     (update_child ''void'' (\<lambda>c. Directory ((dir c)\<lparr>mounted_database := Some 4\<rparr>) (children c)) sample_tree)"

lemma sample_tree_mount_wf: "wf_directory sample_tree_mount"
  by (simp add: sample_tree_mount_def sample_defs path_ok_def child_ok_def IsMount_def valid_name_def)

theorem PruneEmpty_correct_witness:
  "length (children sample_tree_mount) = 3 \<and> length (children (PruneEmpty sample_tree_mount)) = 2 \<and>
    all_songs (PruneEmpty sample_tree_mount) = all_songs sample_tree \<and>
    mount_points (PruneEmpty sample_tree_mount) = [(''void'', 4)]"
  using PruneEmpty_correct [OF sample_tree_mount_wf]
  by (simp add: sample_tree_mount_def sample_defs IsEmpty_def IsMount_def)

text \<open>
  Property C26 (functional): \<open>Sort\<close> orders the songs of every directory by album, disc,
  track and file name and the directories by path, loses and adds no song, playlist or mount point and keeps
  the tree well-formed, for every lawful collation, as long as the disc and track
  numbers are below \<open>2 ^ 31\<close>.
\<close>

theorem Sort_correct:
  assumes "comparator collate" "wf_directory d" "tree_all_songs small_numbers d"
  shows "sorted_tree collate (Sort collate d) \<and> wf_directory (Sort collate d) \<and>
    mset (all_songs (Sort collate d)) = mset (all_songs d) \<and>
    mset (all_playlists (Sort collate d)) = mset (all_playlists d) \<and>
    mset (mount_points (Sort collate d)) = mset (mount_points d)"
  using assms by (simp add: sorted_tree_Sort wf_Sort Sort_contents)

theorem Sort_correct_witness:
  "map (\<lambda>c. path (dir c)) (children (Sort strcoll_C (CreateChild ''art'' sample_tree))) = [''art'', ''jazz'', ''void''] \<and>
    sorted_tree strcoll_C (Sort strcoll_C (CreateChild ''art'' sample_tree))"
proof -
  have "wf_directory (CreateChild ''art'' sample_tree)"
    by (rule wf_CreateChild [OF sample_wf])
      (simp_all add: valid_name_def FindChild_def sample_defs IsMount_def)
  moreover have "tree_all_songs small_numbers (CreateChild ''art'' sample_tree)"
    by (simp add: sample_defs small_numbers_def number_of_def GetValue_def strtol_def scan_number_def
        isspace_def IsDigitASCII_def digits_val_def digit_val_def)
  ultimately show ?thesis
    using Sort_correct [OF c_locale.comparator_axioms, of "CreateChild ''art'' sample_tree"]
    by (simp add: sample_defs SortList_def directory_cmp_def strcoll_C_def dir_Sort)
qed

definition numbered_song :: "nat \<Rightarrow> Song" where
  "numbered_song n = (Song_new ''x'')\<lparr>song_tag := Tag_empty\<lparr>items := [(TAG_TRACK, fmt_uint n)]\<rparr>\<rparr>"

text \<open>
  With larger track numbers \<open>song_cmp\<close> is no order: the difference
  of two \<open>long\<close> values is cut to 32 bits, and three songs can each precede the next in
  a circle, whatever the collation.
\<close>

lemma song_cmp_cycle:
  "song_cmp collate (numbered_song 1) (numbered_song 2147483648) \<and>
   song_cmp collate (numbered_song 2147483648) (numbered_song 4294967295) \<and>
   song_cmp collate (numbered_song 4294967295) (numbered_song 1)"
proof -
  have "fst (strtol (fmt_uint n)) = int n" if "int n < 2 ^ 63" for n
    using that by (simp add: strtol_fmt_uint del: fmt_uint.simps)
  then show ?thesis
    by (simp add: song_cmp_def numbered_song_def Song_new_def GetValue_def compare_string_tag_item_def
        compare_utf8_string_def compare_tag_item_def compare_number_string_def int32_of_def Tag_empty_def
        del: fmt_uint.simps)
qed

text \<open>
  What \<open>UpdateOrInsert\<close> does to the entry of the name: a new or
  a changed one is stored with its mark set and reported; an unchanged one is left
  exactly as it was, its mark included, and not reported. The other entries stay.
\<close>

lemma UpdateOrInsert_correct:
  "PlaylistVector_find n (snd (UpdateOrInsert pi pv)) =
     (if n \<noteq> pl_name pi then PlaylistVector_find n pv
      else case PlaylistVector_find n pv of
          None \<Rightarrow> Some (pi\<lparr>pl_mark := True\<rparr>)
        | Some i \<Rightarrow> if pl_mtime i = pl_mtime pi then Some i
                    else Some (i\<lparr>pl_mtime := pl_mtime pi, pl_mark := True\<rparr>)) \<and>
   (fst (UpdateOrInsert pi pv) \<longleftrightarrow>
      map_option pl_mtime (PlaylistVector_find (pl_name pi) pv) \<noteq> Some (pl_mtime pi))"
proof -
  have upd: "find (\<lambda>x. pl_name x = k) (update_first (\<lambda>i. pl_name i = m) f pv) =
      (if k = m then map_option f (find (\<lambda>x. pl_name x = k) pv) else find (\<lambda>x. pl_name x = k) pv)"
    if "\<And>i. pl_name (f i) = pl_name i" for k m f
    by (induction pv) (auto simp: that)
  show ?thesis
  proof (cases "PlaylistVector_find (pl_name pi) pv")
    case None
    then show ?thesis
      using find_snoc [of pl_name "pi\<lparr>pl_mark := True\<rparr>" pv n] by (auto simp: UpdateOrInsert_def PlaylistVector_find_def)
  next
    case (Some i)
    then show ?thesis by (auto simp: UpdateOrInsert_def PlaylistVector_find_def upd)
  qed
qed

section \<open>Visiting\<close>

fun visited_songs :: "visit list \<Rightarrow> LightSong list" where
  "visited_songs [] = []"
| "visited_songs (VisitSong s # vs) = s # visited_songs vs"
| "visited_songs (_ # vs) = visited_songs vs"

fun no_mounts :: "directory \<Rightarrow> bool" where
  "no_mounts (Directory i cs) \<longleftrightarrow> \<not> IsMount i \<and> (\<forall>c \<in> set cs. no_mounts c)"

lemma visited_songs_append [simp]: "visited_songs (xs @ ys) = visited_songs xs @ visited_songs ys"
  by (induction xs rule: visited_songs.induct) auto

lemma visited_songs_songs [simp]: "visited_songs (map (\<lambda>s. VisitSong (f s)) ss) = map f ss"
  by (induction ss) auto

lemma visited_songs_playlists [simp]: "visited_songs (map (\<lambda>p. VisitPlaylist p u t) ps) = []"
  by (induction ps) auto

lemma visited_songs_concat: "visited_songs (concat vss) = concat (map visited_songs vss)"
  by (induction vss) auto

lemma Song_Export_uri:
  assumes "path_ok i" "valid_name (filename s)"
  shows "LightSong_GetURI (Song_Export (Directory i cs # ancestors) s) = GetURI i s"
  using assms Build_name [of "path i" "filename s"]
  by (simp add: LightSong_GetURI_def Song_Export_def Let_def GetURI_def path_ok_def)

lemma Directory_Walk_songs:
  assumes "visit_song v"
  shows "\<lbrakk>wf_directory d; no_mounts d; tree_all_songs (\<lambda>s. valid_name (filename s)) d\<rbrakk> \<Longrightarrow>
    map LightSong_GetURI (visited_songs (Directory_Walk wm True None hide v ancestors d)) =
    map fst (filter (\<lambda>(_, s). \<not> (hide \<and> in_playlist s)) (all_songs d))"
proof (induction d arbitrary: ancestors)
  case (Directory i cs)
  let ?keep = "\<lambda>s. \<not> (hide \<and> in_playlist s)"
  have own: "map (LightSong_GetURI \<circ> Song_Export (Directory i cs # ancestors)) (filter ?keep (songs i)) =
      map (GetURI i) (filter ?keep (songs i))"
    using Directory.prems by (auto simp: Song_Export_uri)
  have sub: "concat (map (\<lambda>c. map LightSong_GetURI (visited_songs
        (Directory_Walk wm True None hide v (Directory i cs # ancestors) c))) cs) =
      concat (map (\<lambda>c. map fst (filter (\<lambda>(_, s). ?keep s) (all_songs c))) cs)"
    using Directory by (intro arg_cong [where f = concat] map_cong) auto
  have one: "visited_songs (if b then [VisitDirectory p t] else []) = []" for b p t by simp
  have "mounted_database i = None" using Directory.prems(2) by (simp add: IsMount_def)
  then show ?case
    using own sub assms
    by (simp add: visited_songs_concat map_concat filter_concat filter_map comp_def one)
qed

text \<open>
  A recursive visit without a filter reports every song of the
  tree exactly as often as it is there, under its own URI and in the order of the tree;
  the only songs left out are those hidden as targets of a playlist.
\<close>

lemma Directory_Walk_complete:
  assumes "wf_directory d" "no_mounts d" "tree_all_songs (\<lambda>s. valid_name (filename s)) d" "visit_song v"
  shows "map LightSong_GetURI (visited_songs (Directory_Walk walk_mount True None hide v [] d)) =
    map fst (filter (\<lambda>(_, s). \<not> (hide \<and> in_playlist s)) (all_songs d))"
  by (rule Directory_Walk_songs [OF assms(4,1,2,3)])

end
