(* ===== verification/Db_Save.thy ===== *)
theory Db_Save
  imports Simple_Directory
begin

text \<open>
  The database file: its writers and loaders (SongSave.cxx, TagSave.cxx,
  PlaylistDatabase.cxx, db/plugins/simple/DirectorySave.cxx and DatabaseSave.cxx). A
  writer returns the text it prints; a loader takes the text that is still unread and
  returns what is left behind it. Durations go through \<open>double\<close>: the functions that
  print and parse them are the parameter \<open>duration_io\<close>.
\<close>

section \<open>Errors and parameters\<close>

datatype db_error =
    UnexpectedEndOfFile
  | MalformedLine string
  | DuplicateSubdirectory string
  | DuplicateSong string
  | UnknownLine string
  | DatabaseCorrupted
  | DuplicateVersionLine
  | DuplicateCharsetLine
  | CharsetMismatch string string
  | UnrecognizedTag string
  | FormatMismatch
  | TagListMismatch

text \<open>
  \<open>fmt_duration ms\<close> is the text that libfmt gives for \<open>SignedSongTime::ToDoubleS()\<close>, and
  \<open>parse_duration\<close> is \<open>SignedSongTime::FromS(ParseDouble(value))\<close>.
\<close>

record duration_io =
  fmt_duration :: "int \<Rightarrow> string"
  parse_duration :: "string \<Rightarrow> int"

definition out_line :: "string \<Rightarrow> string" where
  "out_line l = l @ [newline]"

section \<open>Songs\<close>

definition range_save :: "SongTime \<Rightarrow> SongTime \<Rightarrow> string" where
  "range_save start_ms end_ms =
     (if end_ms > 0 then out_line (''Range: '' @ fmt_uint (unat start_ms) @ ''-'' @ fmt_uint (unat end_ms))
      else if start_ms > 0 then out_line (''Range: '' @ fmt_uint (unat start_ms) @ ''-'')
      else [])"

definition tag_save :: "duration_io \<Rightarrow> Tag \<Rightarrow> string" where
  "tag_save dio t =
     (if \<not> duration t < 0 then out_line (''Time: '' @ fmt_duration dio (duration t)) else []) @
     (if has_playlist t then out_line ''Playlist: yes'' else []) @
     concat (map (\<lambda>(type, value). out_line (tag_item_names type @ '': '' @ value)) (items t))"

definition song_save :: "duration_io \<Rightarrow> Song \<Rightarrow> string" where
  "song_save dio s =
     out_line (''song_begin: '' @ filename s) @
     (if target s \<noteq> [] then out_line (''Target: '' @ target s) else []) @
     range_save (start_time s) (end_time s) @
     tag_save dio (song_tag s) @
     (if IsDefined (audio_format s) then out_line (''Format: '' @ ToString (audio_format s)) else []) @
     (if in_playlist s then out_line ''InPlaylist: yes'' else []) @
     (if \<not> song_mtime s < 0 then out_line (''mtime: '' @ fmt_int (to_time_t (song_mtime s))) else []) @
     (if \<not> added s < 0 then out_line (''added: '' @ fmt_int (to_time_t (added s))) else []) @
     out_line ''song_end''"

record DetachedSong =
  ds_uri :: string
  ds_real_uri :: string
  ds_tag :: Tag
  ds_mtime :: time_point
  ds_added :: time_point
  ds_start_time :: SongTime
  ds_end_time :: SongTime
  ds_audio_format :: AudioFormat

definition DetachedSong_new :: "string \<Rightarrow> DetachedSong" where
  "DetachedSong_new uri =
     \<lparr>ds_uri = uri, ds_real_uri = [], ds_tag = Tag_empty, ds_mtime = time_point_min,
      ds_added = time_point_min, ds_start_time = 0, ds_end_time = 0,
      ds_audio_format = AudioFormat_Undefined\<rparr>"

definition song_save_detached :: "duration_io \<Rightarrow> DetachedSong \<Rightarrow> string" where
  "song_save_detached dio s =
     out_line (''song_begin: '' @ ds_uri s) @
     range_save (ds_start_time s) (ds_end_time s) @
     tag_save dio (ds_tag s) @
     (if \<not> ds_mtime s < 0 then out_line (''mtime: '' @ fmt_int (to_time_t (ds_mtime s))) else []) @
     (if \<not> ds_added s < 0 then out_line (''added: '' @ fmt_int (to_time_t (ds_added s))) else []) @
     out_line ''song_end''"

definition Song_of_detached :: "DetachedSong \<Rightarrow> Song" where
  "Song_of_detached other =
     \<lparr>filename = ds_uri other, target = [], song_tag = ds_tag other, song_mtime = ds_mtime other,
      added = ds_added other, start_time = ds_start_time other, end_time = ds_end_time other,
      audio_format = ds_audio_format other, in_playlist = False, song_mark = False\<rparr>"

text \<open>The variables of \<open>song_load\<close>, its two output arguments included.\<close>

record song_load_state =
  sl_song :: DetachedSong
  sl_tag :: TagBuilder
  sl_target :: string
  sl_in_playlist :: bool

text \<open>The dispatch on the name in front of the colon.\<close>

definition song_load_field ::
  "duration_io \<Rightarrow> string \<Rightarrow> string \<Rightarrow> song_load_state \<Rightarrow> db_error + song_load_state" where
  "song_load_field dio name value st =
     (case tag_name_parse name of
        Some type \<Rightarrow> Inr (st\<lparr>sl_tag := AddItemUnchecked type value (sl_tag st)\<rparr>)
      | None \<Rightarrow>
          if name = ''Time'' then
            Inr (st\<lparr>sl_tag := (sl_tag st)\<lparr>b_duration := parse_duration dio value\<rparr>\<rparr>)
          else if name = ''Target'' then Inr (st\<lparr>sl_target := value\<rparr>)
          else if name = ''Format'' then
            (case ParseAudioFormat value False of
               Inr af \<Rightarrow> Inr (st\<lparr>sl_song := (sl_song st)\<lparr>ds_audio_format := af\<rparr>\<rparr>)
             | Inl _ \<Rightarrow> Inr st)
          else if name = ''Playlist'' then
            Inr (st\<lparr>sl_tag := (sl_tag st)\<lparr>b_has_playlist := (value = ''yes'')\<rparr>\<rparr>)
          else if name = ''mtime'' then
            Inr (st\<lparr>sl_song := (sl_song st)\<lparr>ds_mtime := from_time_t (atoi value)\<rparr>\<rparr>)
          else if name = ''added'' then
            Inr (st\<lparr>sl_song := (sl_song st)\<lparr>ds_added := from_time_t (atoi value)\<rparr>\<rparr>)
          else if name = ''Range'' then
            (case strtoul value of (start_ms, endptr) \<Rightarrow>
               let end_ms = (if endptr \<noteq> [] \<and> hd endptr = CHR ''-'' then fst (strtoul (tl endptr)) else 0) in
               Inr (st\<lparr>sl_song := (sl_song st)\<lparr>ds_start_time := word_of_nat start_ms,
                                               ds_end_time := word_of_nat end_ms\<rparr>\<rparr>))
          else if name = ''InPlaylist'' then Inr (st\<lparr>sl_in_playlist := (value = ''yes'')\<rparr>)
          else Inl (UnknownLine name))"

definition song_load_line ::
  "duration_io \<Rightarrow> string \<Rightarrow> song_load_state \<Rightarrow> db_error + song_load_state" where
  "song_load_line dio line st =
     (case Split line CHR '':'' of
        (name, Some colon) \<Rightarrow>
          if name = [] then Inl (UnknownLine line)
          else song_load_field dio name (StripLeft colon) st
      | (_, None) \<Rightarrow> Inl (UnknownLine line))"

function song_load_loop ::
  "duration_io \<Rightarrow> song_load_state \<Rightarrow> string \<Rightarrow> db_error + (song_load_state \<times> string)" where
  "song_load_loop dio st unread =
     (case ReadLine unread of
        None \<Rightarrow> Inr (st, unread)
      | Some (line, rest) \<Rightarrow>
          if line = ''song_end'' then Inr (st, rest)
          else case song_load_line dio line st of
              Inl e \<Rightarrow> Inl e
            | Inr st' \<Rightarrow> song_load_loop dio st' rest)"
  by pat_completeness auto
termination
  by (relation "measure (\<lambda>(dio, st, unread). length unread)") (auto dest: ReadLine_shorter)

declare song_load_loop.simps [simp del]

definition song_load ::
  "duration_io \<Rightarrow> string \<Rightarrow> string \<Rightarrow> db_error + (DetachedSong \<times> string \<times> bool \<times> string)" where
  "song_load dio uri unread =
     (case song_load_loop dio
         \<lparr>sl_song = DetachedSong_new uri, sl_tag = TagBuilder_empty, sl_target = [], sl_in_playlist = False\<rparr> unread of
        Inl e \<Rightarrow> Inl e
      | Inr (st, rest) \<Rightarrow>
          Inr ((sl_song st)\<lparr>ds_tag := fst (Commit (sl_tag st))\<rparr>, sl_target st, sl_in_playlist st, rest))"

section \<open>Playlist entries\<close>

definition playlist_save :: "PlaylistInfo \<Rightarrow> string" where
  "playlist_save pi =
     out_line (''playlist_begin: '' @ pl_name pi) @
     (if \<not> pl_mtime pi < 0 then out_line (''mtime: '' @ fmt_int (to_time_t (pl_mtime pi))) else []) @
     out_line ''playlist_end''"

definition playlist_vector_save :: "PlaylistVector \<Rightarrow> string" where
  "playlist_vector_save pv = concat (map playlist_save pv)"

function playlist_load_loop :: "PlaylistInfo \<Rightarrow> string \<Rightarrow> db_error + (PlaylistInfo \<times> string)" where
  "playlist_load_loop pm unread =
     (case ReadLine unread of
        None \<Rightarrow> Inr (pm, unread)
      | Some (line, rest) \<Rightarrow>
          if line = ''playlist_end'' then Inr (pm, rest)
          else case Split line CHR '':'' of
              (name, Some colon) \<Rightarrow>
                if name = [] then Inl (UnknownLine line)
                else if name = ''mtime''
                then playlist_load_loop
                       (pm\<lparr>pl_mtime := from_time_t (fst (strtol (StripLeft colon)))\<rparr>) rest
                else Inl (UnknownLine name)
            | (_, None) \<Rightarrow> Inl (UnknownLine line))"
  by pat_completeness auto
termination
  by (relation "measure (\<lambda>(pm, unread). length unread)") (auto dest: ReadLine_shorter)

declare playlist_load_loop.simps [simp del]

definition playlist_metadata_load ::
  "string \<Rightarrow> PlaylistVector \<Rightarrow> string \<Rightarrow> db_error + (PlaylistVector \<times> string)" where
  "playlist_metadata_load name pv unread =
     (case playlist_load_loop (PlaylistInfo_new name time_point_min) unread of
        Inl e \<Rightarrow> Inl e
      | Inr (pm, rest) \<Rightarrow> Inr (snd (UpdateOrInsert pm pv), rest))"

section \<open>Directories\<close>

definition DeviceToTypeString :: "32 word \<Rightarrow> string option" where
  "DeviceToTypeString dev =
     (if dev = ucast DEVICE_INARCHIVE then Some ''archive''
      else if dev = ucast DEVICE_CONTAINER then Some ''container''
      else if dev = ucast DEVICE_PLAYLIST then Some ''playlist''
      else None)"

definition ParseTypeString :: "string \<Rightarrow> 64 word" where
  "ParseTypeString type =
     (if type = ''archive'' then DEVICE_INARCHIVE
      else if type = ''container'' then DEVICE_CONTAINER
      else if type = ''playlist'' then DEVICE_PLAYLIST
      else 0)"

text \<open>The lines before and behind the entries of a directory that is not the root.\<close>

definition directory_head :: "dir_info \<Rightarrow> string" where
  "directory_head i =
     (if is_root i then []
      else (case DeviceToTypeString (ucast (device i)) of
              Some type \<Rightarrow> out_line (''type: '' @ type) | None \<Rightarrow> []) @
           (if \<not> dir_mtime i < 0 then out_line (''mtime: '' @ fmt_int (to_time_t (dir_mtime i))) else []) @
           out_line (''begin: '' @ path i))"

definition directory_tail :: "dir_info \<Rightarrow> string" where
  "directory_tail i = (if is_root i then [] else out_line (''end: '' @ path i))"

fun directory_save :: "duration_io \<Rightarrow> directory \<Rightarrow> string" where
  "directory_save dio (Directory i cs) =
     directory_head i @
     concat (map (\<lambda>child.
       if IsMount (dir child) then []
       else out_line (''directory: '' @ GetName i (dir child)) @ directory_save dio child) cs) @
     concat (map (song_save dio) (songs i)) @
     playlist_vector_save (playlists i) @
     directory_tail i"

definition ParseLine :: "string \<Rightarrow> directory \<Rightarrow> directory option" where
  "ParseLine line d =
     (case StringAfterPrefix line ''mtime: '' of
        Some p \<Rightarrow>
          (let mtime = ParseUint64 p in
           Some (if mtime > 0
                 then Directory ((dir d)\<lparr>dir_mtime := from_time_t (int64_of (int mtime))\<rparr>) (children d)
                 else d))
      | None \<Rightarrow>
          (case StringAfterPrefix line ''type: '' of
             Some p \<Rightarrow> Some (Directory ((dir d)\<lparr>device := ParseTypeString p\<rparr>) (children d))
           | None \<Rightarrow> None))"

text \<open>The loop of \<open>directory_load_subdir\<close>, up to the \<open>begin\<close> line.\<close>

function subdir_head_load :: "directory \<Rightarrow> string \<Rightarrow> db_error + (directory \<times> string)" where
  "subdir_head_load d unread =
     (case ReadLine unread of
        None \<Rightarrow> Inl UnexpectedEndOfFile
      | Some (line, rest) \<Rightarrow>
          if StringStartsWith line ''begin: '' then Inr (d, rest)
          else case ParseLine line d of
              None \<Rightarrow> Inl (MalformedLine line)
            | Some d' \<Rightarrow> subdir_head_load d' rest)"
  by pat_completeness auto
termination
  by (relation "measure (\<lambda>(d, unread). length unread)") (auto dest: ReadLine_shorter)

declare subdir_head_load.simps [simp del]

text \<open>
  The loop of \<open>directory_load\<close>, with \<open>directory_load_subdir\<close> in the branch that calls it.
  The two sets of names catch duplicates; the file position is behind the last line
  that was read. When a sub directory fails to load, the exception passes through.
\<close>

function directory_load_loop ::
  "duration_io \<Rightarrow> directory \<Rightarrow> string list \<Rightarrow> string list \<Rightarrow> string \<Rightarrow> db_error + (directory \<times> string)" where
  "directory_load_loop dio d cnames snames unread =
     (case ReadLine unread of
        None \<Rightarrow> Inr (d, unread)
      | Some (line, rest) \<Rightarrow>
          if StringStartsWith line ''end: '' then Inr (d, rest)
          else case StringAfterPrefix line ''directory: '' of
            Some name \<Rightarrow>
              (case subdir_head_load (Directory_new (child_path (dir d) name) False) rest of
                 Inl e \<Rightarrow> Inl e
               | Inr (child, rest1) \<Rightarrow>
                   (case directory_load_loop dio child [] [] rest1 of
                      Inl e \<Rightarrow> Inl e
                    | Inr (child', rest2) \<Rightarrow>
                        (let n = GetName (dir d) (dir child') in
                         if n \<in> set cnames then Inl (DuplicateSubdirectory n)
                         else directory_load_loop dio (append_child child' d) (n # cnames) snames rest2)))
          | None \<Rightarrow>
              (case StringAfterPrefix line ''song_begin: '' of
                 Some name \<Rightarrow>
                   (case song_load dio name rest of
                      Inl e \<Rightarrow> Inl e
                    | Inr (detached, tgt, inpl, rest1) \<Rightarrow>
                        (let s = (Song_of_detached detached)\<lparr>target := tgt, in_playlist := inpl\<rparr> in
                         if filename s \<in> set snames then Inl (DuplicateSong name)
                         else directory_load_loop dio (AddSong s d) cnames (filename s # snames) rest1))
               | None \<Rightarrow>
                   (case StringAfterPrefix line ''playlist_begin: '' of
                      Some name \<Rightarrow>
                        (case playlist_metadata_load name (playlists (dir d)) rest of
                           Inl e \<Rightarrow> Inl e
                         | Inr (pv, rest1) \<Rightarrow>
                             directory_load_loop dio (Directory ((dir d)\<lparr>playlists := pv\<rparr>) (children d))
                               cnames snames rest1)
                    | None \<Rightarrow> Inl (MalformedLine line))))"
  by pat_completeness auto

lemma song_load_loop_shorter: "song_load_loop dio st unread = Inr (st', rest) \<Longrightarrow> length rest \<le> length unread"
proof (induction dio st unread rule: song_load_loop.induct)
  case (1 dio st unread)
  then show ?case
    by (subst (asm) song_load_loop.simps)
      (fastforce split: option.splits if_splits sum.splits dest: ReadLine_shorter)
qed

lemma song_load_shorter: "song_load dio uri unread = Inr (ds, tgt, inpl, rest) \<Longrightarrow> length rest \<le> length unread"
  by (auto simp: song_load_def split: sum.splits dest: song_load_loop_shorter)

lemma playlist_load_loop_shorter: "playlist_load_loop pm unread = Inr (pm', rest) \<Longrightarrow> length rest \<le> length unread"
proof (induction pm unread rule: playlist_load_loop.induct)
  case (1 pm unread)
  then show ?case
    by (subst (asm) playlist_load_loop.simps)
      (fastforce split: option.splits if_splits prod.splits dest: ReadLine_shorter)
qed

lemma playlist_metadata_load_shorter:
  "playlist_metadata_load name pv unread = Inr (pv', rest) \<Longrightarrow> length rest \<le> length unread"
  by (auto simp: playlist_metadata_load_def split: sum.splits dest: playlist_load_loop_shorter)

lemma subdir_head_load_shorter: "subdir_head_load d unread = Inr (d', rest) \<Longrightarrow> length rest < length unread"
proof (induction d unread rule: subdir_head_load.induct)
  case (1 d unread)
  then show ?case
    by (subst (asm) subdir_head_load.simps)
      (fastforce split: option.splits if_splits dest: ReadLine_shorter)
qed

lemmas loader_shorter = ReadLine_shorter song_load_shorter playlist_metadata_load_shorter subdir_head_load_shorter

lemma directory_load_loop_shorter_dom:
  "\<lbrakk>directory_load_loop_dom (dio, d, cnames, snames, unread);
    directory_load_loop dio d cnames snames unread = Inr (d', rest)\<rbrakk> \<Longrightarrow> length rest \<le> length unread"
proof (induction dio d cnames snames unread arbitrary: d' rest rule: directory_load_loop.pinduct)
  case (1 dio d cnames snames unread)
  note result = "1.prems" [unfolded directory_load_loop.psimps [OF "1.hyps"]]
  show ?case
  proof (cases "ReadLine unread")
    case None
    with result show ?thesis by simp
  next
    case (Some a)
    obtain line r where a: "(line, r) = a" by (cases a) auto
    note IH = "1.IH" [OF Some a]
    have r: "length r < length unread" using Some a by (auto intro: ReadLine_shorter)
    show ?thesis
    proof (cases "StringStartsWith line ''end: ''")
      case True
      with result Some a r show ?thesis by auto
    next
      case False
      note IH = IH [OF False]
      consider (child) name where "StringAfterPrefix line ''directory: '' = Some name"
        | (song) name where "StringAfterPrefix line ''directory: '' = None"
            "StringAfterPrefix line ''song_begin: '' = Some name"
        | (playlist) name where "StringAfterPrefix line ''directory: '' = None"
            "StringAfterPrefix line ''song_begin: '' = None"
            "StringAfterPrefix line ''playlist_begin: '' = Some name"
        using result Some a False by (auto split: option.splits)
      then show ?thesis
      proof cases
        case (child name)
        then obtain c rest1 c' rest2 where h: "subdir_head_load (Directory_new (child_path (dir d) name) False) r = Inr (c, rest1)"
          and i: "directory_load_loop dio c [] [] rest1 = Inr (c', rest2)"
          and n: "GetName (dir d) (dir c') \<notin> set cnames"
          and t: "directory_load_loop dio (append_child c' d) (GetName (dir d) (dir c') # cnames) snames rest2 = Inr (d', rest)"
          using result Some a False by (auto simp: Let_def split: sum.splits if_splits)
        have "length rest2 \<le> length rest1" using IH(3) [OF child h refl i] .
        moreover have "length rest \<le> length rest2" using IH(4) [OF child h refl i refl refl n t] .
        ultimately show ?thesis using subdir_head_load_shorter [OF h] r by linarith
      next
        case (song name)
        then obtain ds tgt inpl rest1 s where h: "song_load dio name r = Inr (ds, tgt, inpl, rest1)"
          and s: "s = (Song_of_detached ds)\<lparr>target := tgt, in_playlist := inpl\<rparr>"
          and n: "filename s \<notin> set snames"
          and t: "directory_load_loop dio (AddSong s d) cnames (filename s # snames) rest1 = Inr (d', rest)"
          using result Some a False by (auto simp: Let_def split: sum.splits if_splits)
        have "length rest \<le> length rest1" using IH(2) [OF song h refl refl refl s n t] .
        then show ?thesis using song_load_shorter [OF h] r by linarith
      next
        case (playlist name)
        then obtain pv rest1 where h: "playlist_metadata_load name (playlists (dir d)) r = Inr (pv, rest1)"
          and t: "directory_load_loop dio (Directory ((dir d)\<lparr>playlists := pv\<rparr>) (children d)) cnames snames rest1 = Inr (d', rest)"
          using result Some a False by (auto split: sum.splits)
        have "length rest \<le> length rest1" using IH(1) [OF playlist h refl t] .
        then show ?thesis using playlist_metadata_load_shorter [OF h] r by linarith
      qed
    qed
  qed
qed

termination directory_load_loop
proof (relation "measure (\<lambda>(dio, d, cnames, snames, unread). length unread)")
qed (auto dest!: loader_shorter directory_load_loop_shorter_dom)

declare directory_load_loop.simps [simp del]

definition directory_load :: "duration_io \<Rightarrow> directory \<Rightarrow> string \<Rightarrow> db_error + (directory \<times> string)" where
  "directory_load dio d unread = directory_load_loop dio d [] [] unread"

section \<open>The database file\<close>

definition DB_FORMAT :: nat where
  "DB_FORMAT = 2"

definition OLDEST_DB_FORMAT :: nat where
  "OLDEST_DB_FORMAT = 1"

text \<open>
  What the build and the configuration fix: the version text, the file system charset
  (\<open>GetFSCharset()\<close>) and the set of enabled tags.
\<close>

record db_config =
  VERSION :: string
  FSCharset :: string
  tag_mask :: TagMask

definition db_header :: "db_config \<Rightarrow> string" where
  "db_header cfg =
     out_line ''info_begin'' @
     out_line (''format: '' @ fmt_uint DB_FORMAT) @
     out_line (''mpd_version: '' @ VERSION cfg) @
     out_line (''fs_charset: '' @ FSCharset cfg) @
     concat (map (\<lambda>t. out_line (''tag: '' @ tag_item_names t)) (filter (IsTagEnabled (tag_mask cfg)) all_tag_types)) @
     out_line ''info_end''"

definition db_save_internal :: "db_config \<Rightarrow> duration_io \<Rightarrow> directory \<Rightarrow> string" where
  "db_save_internal cfg dio music_root = db_header cfg @ directory_save dio music_root"

record db_load_state =
  dl_format :: nat
  found_charset :: bool
  found_version :: bool
  dl_tags :: "TagType list"

definition db_load_line ::
  "db_config \<Rightarrow> bool \<Rightarrow> string \<Rightarrow> db_load_state \<Rightarrow> db_error + db_load_state" where
  "db_load_line cfg ignore_config_mismatches line st =
     (case StringAfterPrefix line ''format: '' of
        Some p \<Rightarrow> Inr (st\<lparr>dl_format := nat (atoi p mod 2 ^ 32)\<rparr>)
      | None \<Rightarrow>
          if StringStartsWith line ''mpd_version: '' then
            (if found_version st then Inl DuplicateVersionLine else Inr (st\<lparr>found_version := True\<rparr>))
          else case StringAfterPrefix line ''fs_charset: '' of
            Some new_charset \<Rightarrow>
              if found_charset st then Inl DuplicateCharsetLine
              else if \<not> ignore_config_mismatches \<and> FSCharset cfg \<noteq> [] \<and> new_charset \<noteq> FSCharset cfg
              then Inl (CharsetMismatch new_charset (FSCharset cfg))
              else Inr (st\<lparr>found_charset := True\<rparr>)
          | None \<Rightarrow>
              (case StringAfterPrefix line ''tag: '' of
                 Some name \<Rightarrow>
                   if ignore_config_mismatches then Inr st
                   else (case tag_name_parse name of
                           None \<Rightarrow> Inl (UnrecognizedTag name)
                         | Some t \<Rightarrow> Inr (st\<lparr>dl_tags := t # dl_tags st\<rparr>))
               | None \<Rightarrow> Inl (MalformedLine line)))"

function db_load_loop ::
  "db_config \<Rightarrow> bool \<Rightarrow> db_load_state \<Rightarrow> string \<Rightarrow> db_error + (db_load_state \<times> string)" where
  "db_load_loop cfg ignore_config_mismatches st unread =
     (case ReadLine unread of
        None \<Rightarrow> Inr (st, unread)
      | Some (line, rest) \<Rightarrow>
          if line = ''info_end'' then Inr (st, rest)
          else case db_load_line cfg ignore_config_mismatches line st of
              Inl e \<Rightarrow> Inl e
            | Inr st' \<Rightarrow> db_load_loop cfg ignore_config_mismatches st' rest)"
  by pat_completeness auto
termination
  by (relation "measure (\<lambda>(cfg, b, st, unread). length unread)") (auto dest: ReadLine_shorter)

declare db_load_loop.simps [simp del]

definition db_load_internal ::
  "db_config \<Rightarrow> duration_io \<Rightarrow> directory \<Rightarrow> bool \<Rightarrow> string \<Rightarrow> db_error + directory" where
  "db_load_internal cfg dio music_root ignore_config_mismatches unread =
     (case ReadLine unread of
        None \<Rightarrow> Inl DatabaseCorrupted
      | Some (line, rest) \<Rightarrow>
          if line \<noteq> ''info_begin'' then Inl DatabaseCorrupted
          else case db_load_loop cfg ignore_config_mismatches
                 \<lparr>dl_format = 0, found_charset = False, found_version = False, dl_tags = []\<rparr> rest of
              Inl e \<Rightarrow> Inl e
            | Inr (st, rest1) \<Rightarrow>
                if dl_format st < OLDEST_DB_FORMAT \<or> dl_format st > DB_FORMAT then Inl FormatMismatch
                else if \<not> ignore_config_mismatches \<and>
                  \<not> (\<forall>t \<in> set all_tag_types. IsTagEnabled (tag_mask cfg) t \<longrightarrow> t \<in> set (dl_tags st))
                then Inl TagListMismatch
                else case directory_load dio music_root rest1 of
                    Inl e \<Rightarrow> Inl e
                  | Inr (d, _) \<Rightarrow> Inr d)"

section \<open>What a value becomes in the file\<close>

text \<open>
  The file keeps time stamps in seconds, and the loader reads those of songs with
  \<open>atoi\<close>; leading blanks of values are stripped; an audio format that the parser does
  not take is dropped; only the three special devices are kept. The functions below
  say exactly what comes back.
\<close>

definition song_time_norm :: "time_point \<Rightarrow> time_point" where
  "song_time_norm t = (if t < 0 then time_point_min else from_time_t (int32_of (to_time_t t)))"

definition playlist_time_norm :: "time_point \<Rightarrow> time_point" where
  "playlist_time_norm t = (if t < 0 then time_point_min else from_time_t (to_time_t t))"

definition dir_time_norm :: "time_point \<Rightarrow> time_point" where
  "dir_time_norm t = (if t < 0 \<or> to_time_t t = 0 then time_point_min else from_time_t (to_time_t t))"

definition audio_norm :: "AudioFormat \<Rightarrow> AudioFormat" where
  "audio_norm af =
     (if IsDefined af then (case ParseAudioFormat (ToString af) False of Inr f \<Rightarrow> f | Inl _ \<Rightarrow> AudioFormat_Undefined)
      else AudioFormat_Undefined)"

definition tag_norm :: "duration_io \<Rightarrow> Tag \<Rightarrow> Tag" where
  "tag_norm dio t =
     \<lparr>duration = (if duration t < 0 then - 1 else parse_duration dio (StripLeft (fmt_duration dio (duration t)))),
      has_playlist = has_playlist t,
      items = map (\<lambda>(type, value). (type, StripLeft value)) (items t)\<rparr>"

definition song_norm :: "duration_io \<Rightarrow> Song \<Rightarrow> Song" where
  "song_norm dio s =
     s\<lparr>target := StripLeft (target s), song_tag := tag_norm dio (song_tag s),
       song_mtime := song_time_norm (song_mtime s), added := song_time_norm (added s),
       audio_format := audio_norm (audio_format s), song_mark := False\<rparr>"

definition playlist_norm :: "PlaylistInfo \<Rightarrow> PlaylistInfo" where
  "playlist_norm pi = pi\<lparr>pl_mtime := playlist_time_norm (pl_mtime pi), pl_mark := True\<rparr>"

definition device_norm :: "64 word \<Rightarrow> 64 word" where
  "device_norm dev = (case DeviceToTypeString (ucast dev) of None \<Rightarrow> 0 | Some t \<Rightarrow> ParseTypeString t)"

definition head_norm :: "dir_info \<Rightarrow> dir_info" where
  "head_norm i =
     (dir (Directory_new (path i) (is_root i)))\<lparr>
       dir_mtime := (if is_root i then time_point_min else dir_time_norm (dir_mtime i)),
       device := (if is_root i then 0 else device_norm (device i))\<rparr>"

fun dir_norm :: "duration_io \<Rightarrow> directory \<Rightarrow> directory" where
  "dir_norm dio (Directory i cs) =
     Directory ((head_norm i)\<lparr>songs := map (song_norm dio) (songs i), playlists := map playlist_norm (playlists i)\<rparr>)
       (map (dir_norm dio) (filter (\<lambda>c. \<not> IsMount (dir c)) cs))"

text \<open>What the writer needs of the values so that every line is read back whole.\<close>

definition time_ok :: "time_point \<Rightarrow> bool" where
  "time_ok t \<longleftrightarrow> t < 2 ^ 63"

definition tag_ok :: "duration_io \<Rightarrow> Tag \<Rightarrow> bool" where
  "tag_ok dio t \<longleftrightarrow>
     (\<not> duration t < 0 \<longrightarrow> line_ok (''Time: '' @ fmt_duration dio (duration t))) \<and>
     (\<forall>(type, value) \<in> set (items t). line_ok (tag_item_names type @ '': '' @ value))"

definition song_ok :: "duration_io \<Rightarrow> Song \<Rightarrow> bool" where
  "song_ok dio s \<longleftrightarrow>
     line_ok (''song_begin: '' @ filename s) \<and> line_ok (''Target: '' @ target s) \<and>
     tag_ok dio (song_tag s) \<and> time_ok (song_mtime s) \<and> time_ok (added s)"

definition playlist_ok :: "PlaylistInfo \<Rightarrow> bool" where
  "playlist_ok pi \<longleftrightarrow> line_ok (''playlist_begin: '' @ pl_name pi) \<and> time_ok (pl_mtime pi)"

fun save_ok :: "duration_io \<Rightarrow> directory \<Rightarrow> bool" where
  "save_ok dio (Directory i cs) \<longleftrightarrow>
     line_ok (''begin: '' @ path i) \<and> time_ok (dir_mtime i) \<and>
     (\<forall>s \<in> set (songs i). song_ok dio s) \<and> (\<forall>pi \<in> set (playlists i). playlist_ok pi) \<and>
     (\<forall>c \<in> set cs. line_ok (''directory: '' @ GetName i (dir c)) \<and> save_ok dio c)"

end
