(* ===== verification/Db_Roundtrip.thy ===== *)
theory Db_Roundtrip
  imports Db_Save
begin

text \<open>
  Loading what was saved. Each writer and its loader form a \<open>framed_codec\<close>: the loader
  consumes exactly the text that was written and returns the value as the file keeps
  it. From there the whole database file is shown to load back to the normal form of
  the tree that was saved.
\<close>

section \<open>Framed codecs\<close>

locale framed_codec =
  fixes save :: "'a \<Rightarrow> string" and load :: "string \<Rightarrow> 'e + ('b \<times> string)"
    and norm :: "'a \<Rightarrow> 'b" and ok :: "'a \<Rightarrow> bool"
  assumes load_save: "ok x \<Longrightarrow> load (save x @ rest) = Inr (norm x, rest)"
begin

text \<open>No text is the beginning of another, so a sequence of them has one reading.\<close>

lemma save_prefix_free: "\<lbrakk>ok x; ok y; save x @ r = save y @ t\<rbrakk> \<Longrightarrow> norm x = norm y \<and> r = t"
  using load_save [of x r] load_save [of y t] by simp

lemma save_injective: "\<lbrakk>ok x; ok y; save x = save y\<rbrakk> \<Longrightarrow> norm x = norm y"
  using save_prefix_free [of x y "[]" "[]"] by simp

end

section \<open>Lines and numbers\<close>

lemma ReadLine_out [codec_simps]: "line_ok l \<Longrightarrow> ReadLine (out_line l @ rest) = Some (l, rest)"
  by (simp add: out_line_def ReadLine_line)

lemma to_time_t_bounds: "\<lbrakk>time_ok t; \<not> t < 0\<rbrakk> \<Longrightarrow> 0 \<le> to_time_t t \<and> to_time_t t < 2 ^ 63"
  by (auto simp: time_ok_def to_time_t_def nanos_per_second_def)

lemma fmt_int_nat: "0 \<le> i \<Longrightarrow> fmt_int i = fmt_uint (nat i)"
  by (simp add: fmt_int_def)

lemma fmt_uint_line:
  assumes "n < 10 ^ 20" "length l \<le> 100" "newline \<notin> set l" "CHR 0x00 \<notin> set l"
  shows "line_ok (l @ fmt_uint n)"
proof -
  have "\<not> IsDigitASCII newline" "\<not> IsDigitASCII carriage_return" "\<not> IsDigitASCII (CHR 0x00)"
    by (simp_all add: IsDigitASCII_def)
  then have "newline \<notin> set (fmt_uint n)" "CHR 0x00 \<notin> set (fmt_uint n)" "last (fmt_uint n) \<noteq> carriage_return"
    using fmt_uint_excludes last_fmt_uint_digit [of n] by metis+
  moreover have "length (fmt_uint n) \<le> 20" by (rule length_fmt_uint) (use assms(1) in simp_all)
  ultimately show ?thesis using assms by (simp add: line_ok_append MAX_SIZE_def)
qed

lemma line_ok_dash: "\<lbrakk>line_ok l; length l \<le> 100\<rbrakk> \<Longrightarrow> line_ok (l @ ''-'')"
  by (simp add: line_ok_def MAX_SIZE_def)

lemma time_line:
  assumes "time_ok t" "\<not> t < 0" "length l \<le> 100" "newline \<notin> set l" "CHR 0x00 \<notin> set l"
  shows "line_ok (l @ fmt_int (to_time_t t))"
proof -
  have b: "0 \<le> to_time_t t" "to_time_t t < 2 ^ 63" using to_time_t_bounds [OF assms(1,2)] by auto
  then have "nat (to_time_t t) < 10 ^ 20" by simp
  then show ?thesis using b assms(3-5) by (simp add: fmt_int_nat fmt_uint_line)
qed

lemma time_values:
  assumes "time_ok t" "\<not> t < 0"
  shows "atoi (fmt_int (to_time_t t)) = int32_of (to_time_t t)"
    and "fst (strtol (fmt_int (to_time_t t))) = to_time_t t"
    and "int64_of (int (ParseUint64 (fmt_int (to_time_t t)))) = to_time_t t"
    and "ParseUint64 (fmt_int (to_time_t t)) = nat (to_time_t t)"
    and "no_leading_space (fmt_int (to_time_t t))"
proof -
  have b: "0 \<le> to_time_t t" "to_time_t t < 2 ^ 63" using to_time_t_bounds [OF assms] by auto
  then have n: "int (nat (to_time_t t)) < 2 ^ 63" "nat (to_time_t t) < 2 ^ 64" by simp_all
  show "atoi (fmt_int (to_time_t t)) = int32_of (to_time_t t)"
    and "fst (strtol (fmt_int (to_time_t t))) = to_time_t t"
    and "int64_of (int (ParseUint64 (fmt_int (to_time_t t)))) = to_time_t t"
    and "ParseUint64 (fmt_int (to_time_t t)) = nat (to_time_t t)"
    and "no_leading_space (fmt_int (to_time_t t))"
    using b n by (simp_all add: fmt_int_nat atoi_fmt_uint strtol_fmt_uint ParseUint64_def strtoul_fmt_uint
        int64_of_id del: fmt_uint.simps)
qed

section \<open>Songs\<close>

lemma song_loop_end:
  "song_load_loop dio st (out_line ''song_end'' @ rest) = Inr (st, rest)"
  by (subst song_load_loop.simps) (simp add: ReadLine_out line_ok_def MAX_SIZE_def)

lemma song_loop_line:
  "\<lbrakk>line_ok l; l \<noteq> ''song_end''; song_load_line dio l st = Inr st'\<rbrakk> \<Longrightarrow>
    song_load_loop dio st (out_line l @ rest) = song_load_loop dio st' rest"
  by (subst song_load_loop.simps) (simp add: ReadLine_out)

lemma song_loop_field:
  assumes "line_ok (name @ '': '' @ value)" "name \<noteq> []" "CHR '':'' \<notin> set name"
    "song_load_field dio name (StripLeft value) st = Inr st'"
  shows "song_load_loop dio st (out_line (name @ '': '' @ value) @ rest) = song_load_loop dio st' rest"
proof -
  have "CHR '':'' \<in> set (name @ '': '' @ value)" "CHR '':'' \<notin> set ''song_end''" by simp_all
  then have "name @ '': '' @ value \<noteq> ''song_end''" by metis
  moreover have "song_load_line dio (name @ '': '' @ value) st = Inr st'"
    using assms(2-4) Split_append [of "CHR '':''" name "CHR '' '' # value"]
    by (simp add: song_load_line_def StripLeft_space)
  ultimately show ?thesis by (rule song_loop_line [OF assms(1)])
qed

lemma song_loop_items:
  assumes "\<forall>(type, value) \<in> set its. line_ok (tag_item_names type @ '': '' @ value)"
  shows "song_load_loop dio st
      (concat (map (\<lambda>(type, value). out_line (tag_item_names type @ '': '' @ value)) its) @ rest) =
    song_load_loop dio
      (st\<lparr>sl_tag := (sl_tag st)\<lparr>b_items := b_items (sl_tag st) @ map (\<lambda>(type, value). (type, StripLeft value)) its\<rparr>\<rparr>) rest"
  using assms
proof (induction its arbitrary: st)
  case (Cons i its)
  obtain type val where i: "i = (type, val)" by (cases i) auto
  have "song_load_field dio (tag_item_names type) (StripLeft val) st =
      Inr (st\<lparr>sl_tag := AddItemUnchecked type (StripLeft val) (sl_tag st)\<rparr>)"
    by (simp add: song_load_field_def)
  then show ?case
    using Cons i song_loop_field [of "tag_item_names type" val dio st] tag_name_chars [of type]
    by (simp add: AddItemUnchecked_def)
qed simp

text \<open>
  The fields of a song one by one: each line sets its part of the state and the loop
  goes on behind it, and a line that was not written leaves the initial value.
\<close>

lemma song_field_names:
  "tag_name_parse ''Time'' = None" "tag_name_parse ''Target'' = None" "tag_name_parse ''Format'' = None"
  "tag_name_parse ''Playlist'' = None" "tag_name_parse ''mtime'' = None" "tag_name_parse ''added'' = None"
  "tag_name_parse ''Range'' = None" "tag_name_parse ''InPlaylist'' = None"
  by code_simp+

lemma song_loop_target:
  assumes "line_ok (''Target: '' @ tgt)" "sl_target st = []"
  shows "song_load_loop dio st ((if tgt \<noteq> [] then out_line (''Target: '' @ tgt) else []) @ rest) =
    song_load_loop dio (st\<lparr>sl_target := StripLeft tgt\<rparr>) rest"
proof (cases "tgt = []")
  case True
  then have "st\<lparr>sl_target := StripLeft tgt\<rparr> = st" using assms(2) by (simp add: StripLeft_def)
  then show ?thesis using True by simp
next
  case False
  then show ?thesis
    using song_loop_field [of "''Target''" tgt dio st] assms(1) by (simp add: song_load_field_def song_field_names)
qed

lemma strtoul_Nil: "strtoul [] = (0, [])"
  by (simp add: strtoul_def scan_number_def)

lemma song_loop_range:
  assumes "ds_start_time (sl_song st) = 0" "ds_end_time (sl_song st) = 0"
  shows "song_load_loop dio st (range_save a b @ rest) =
    song_load_loop dio (st\<lparr>sl_song := (sl_song st)\<lparr>ds_start_time := a, ds_end_time := b\<rparr>\<rparr>) rest"
proof -
  have u: "unat w < 2 ^ 64" "unat w < 10 ^ 20" for w :: SongTime
    using unat_less_2_32 [of w] by simp_all
  have len: "length (fmt_uint (unat a)) \<le> 20" by (rule length_fmt_uint) (use u(2) [of a] in simp_all)
  have "line_ok (''Range: '' @ fmt_uint (unat a))" using u(2) [of a] by (rule fmt_uint_line) simp_all
  then have dash: "line_ok (''Range: '' @ fmt_uint (unat a) @ ''-'')"
    using line_ok_dash [of "''Range: '' @ fmt_uint (unat a)"] len by simp
  have full: "line_ok ((''Range: '' @ fmt_uint (unat a) @ ''-'') @ fmt_uint (unat b))"
    using u(2) [of b] len dash by (intro fmt_uint_line) (auto simp: line_ok_def)
  have strip: "StripLeft (fmt_uint (unat a) @ s) = fmt_uint (unat a) @ s" for s
    by (rule fmt_uint_Cons [of "unat a"]) (auto simp: StripLeft_def IsWhitespaceNotNull_def IsDigitASCII_def)
  show ?thesis
  proof (cases "b > 0")
    case True
    have "song_load_field dio ''Range'' (StripLeft (fmt_uint (unat a) @ ''-'' @ fmt_uint (unat b))) st =
        Inr (st\<lparr>sl_song := (sl_song st)\<lparr>ds_start_time := a, ds_end_time := b\<rparr>\<rparr>)"
      using u(1) [of a] u(1) [of b]
      by (simp add: strip song_load_field_def song_field_names strtoul_fmt_uint_dash strtoul_fmt_uint
          Let_def del: fmt_uint.simps)
    with True full song_loop_field [of "''Range''" "fmt_uint (unat a) @ ''-'' @ fmt_uint (unat b)" dio st]
    show ?thesis by (simp add: range_save_def)
  next
    case False
    then have b: "b = 0" by (simp add: word_gt_0)
    show ?thesis
    proof (cases "a > 0")
      case True
      have "song_load_field dio ''Range'' (StripLeft (fmt_uint (unat a) @ ''-'')) st =
          Inr (st\<lparr>sl_song := (sl_song st)\<lparr>ds_start_time := a, ds_end_time := b\<rparr>\<rparr>)"
        using u(1) [of a] b
        by (simp add: strip song_load_field_def song_field_names strtoul_fmt_uint_dash [of _ "[]"]
            strtoul_Nil Let_def del: fmt_uint.simps)
      with True b dash song_loop_field [of "''Range''" "fmt_uint (unat a) @ ''-''" dio st]
      show ?thesis by (simp add: range_save_def)
    next
      case False
      then have "st\<lparr>sl_song := (sl_song st)\<lparr>ds_start_time := a, ds_end_time := b\<rparr>\<rparr> = st"
        using assms b by (simp add: word_gt_0)
      then show ?thesis using False b by (simp add: range_save_def)
    qed
  qed
qed

lemma song_loop_tag:
  assumes "tag_ok dio t" "sl_tag st = TagBuilder_empty"
  shows "song_load_loop dio st (tag_save dio t @ rest) =
    song_load_loop dio (st\<lparr>sl_tag := TagBuilder_of (tag_norm dio t)\<rparr>) rest"
proof -
  let ?dur = "if duration t < 0 then - 1 else parse_duration dio (StripLeft (fmt_duration dio (duration t)))"
  let ?st1 = "st\<lparr>sl_tag := TagBuilder_empty\<lparr>b_duration := ?dur\<rparr>\<rparr>"
  let ?st2 = "st\<lparr>sl_tag := TagBuilder_empty\<lparr>b_duration := ?dur, b_has_playlist := has_playlist t\<rparr>\<rparr>"
  have 1: "song_load_loop dio st ((if \<not> duration t < 0 then out_line (''Time: '' @ fmt_duration dio (duration t)) else []) @ r) =
      song_load_loop dio ?st1 r" for r
  proof (cases "duration t < 0")
    case True
    then have "?st1 = st" using assms(2) by (simp add: TagBuilder_empty_def)
    then show ?thesis using True by simp
  next
    case False
    then show ?thesis
      using song_loop_field [of "''Time''" "fmt_duration dio (duration t)" dio st] assms
      by (simp add: song_load_field_def song_field_names tag_ok_def)
  qed
  have 2: "song_load_loop dio ?st1 ((if has_playlist t then out_line ''Playlist: yes'' else []) @ r) =
      song_load_loop dio ?st2 r" for r
  proof (cases "has_playlist t")
    case True
    then show ?thesis
      using song_loop_field [of "''Playlist''" "''yes''" dio ?st1]
      by (simp add: song_load_field_def song_field_names line_ok_def MAX_SIZE_def StripLeft_def IsWhitespaceNotNull_def)
  next
    case False
    then have "?st2 = ?st1" by (simp add: TagBuilder_empty_def)
    then show ?thesis using False by simp
  qed
  have 3: "TagBuilder_of (tag_norm dio t) =
      TagBuilder_empty\<lparr>b_duration := ?dur, b_has_playlist := has_playlist t,
        b_items := map (\<lambda>(type, value). (type, StripLeft value)) (items t)\<rparr>"
    by (simp add: TagBuilder_of_def tag_norm_def TagBuilder_empty_def)
  show ?thesis
    using song_loop_items [of "items t" dio ?st2 rest] assms(1)
    unfolding tag_save_def append_assoc 1 2 3
    by (simp add: tag_ok_def TagBuilder_empty_def)
qed

lemma song_loop_format:
  assumes "ds_audio_format (sl_song st) = AudioFormat_Undefined"
  shows "song_load_loop dio st ((if IsDefined af then out_line (''Format: '' @ ToString af) else []) @ rest) =
    song_load_loop dio (st\<lparr>sl_song := (sl_song st)\<lparr>ds_audio_format := audio_norm af\<rparr>\<rparr>) rest"
proof (cases "IsDefined af")
  case True
  have len: "length (ToString af) < 24" by (rule ToString_short)
  have "line_ok (''Format: '' @ ToString af)"
    using ToString_line [of af] len by (simp add: line_ok_def MAX_SIZE_def)
  moreover have "song_load_field dio ''Format'' (StripLeft (ToString af)) st =
      Inr (st\<lparr>sl_song := (sl_song st)\<lparr>ds_audio_format := audio_norm af\<rparr>\<rparr>)"
    using True assms ToString_line(2) [of af]
    by (auto simp: song_load_field_def song_field_names StripLeft_id audio_norm_def split: sum.split)
  ultimately show ?thesis using True song_loop_field [of "''Format''" "ToString af" dio st] by simp
next
  case False
  then have "st\<lparr>sl_song := (sl_song st)\<lparr>ds_audio_format := audio_norm af\<rparr>\<rparr> = st"
    using assms by (simp add: audio_norm_def)
  then show ?thesis using False by simp
qed

lemma song_loop_in_playlist:
  assumes "\<not> sl_in_playlist st"
  shows "song_load_loop dio st ((if b then out_line ''InPlaylist: yes'' else []) @ rest) =
    song_load_loop dio (st\<lparr>sl_in_playlist := b\<rparr>) rest"
proof (cases b)
  case True
  then show ?thesis
    using song_loop_field [of "''InPlaylist''" "''yes''" dio st]
    by (simp add: song_load_field_def song_field_names line_ok_def MAX_SIZE_def StripLeft_def IsWhitespaceNotNull_def)
next
  case False
  then have "st\<lparr>sl_in_playlist := b\<rparr> = st" using assms by simp
  then show ?thesis using False by simp
qed

lemma song_loop_mtime:
  assumes "time_ok t" "ds_mtime (sl_song st) = time_point_min"
  shows "song_load_loop dio st ((if \<not> t < 0 then out_line (''mtime: '' @ fmt_int (to_time_t t)) else []) @ rest) =
    song_load_loop dio (st\<lparr>sl_song := (sl_song st)\<lparr>ds_mtime := song_time_norm t\<rparr>\<rparr>) rest"
proof (cases "t < 0")
  case True
  then have "st\<lparr>sl_song := (sl_song st)\<lparr>ds_mtime := song_time_norm t\<rparr>\<rparr> = st"
    using assms by (simp add: song_time_norm_def)
  then show ?thesis using True by simp
next
  case False
  then show ?thesis
    using song_loop_field [of "''mtime''" "fmt_int (to_time_t t)" dio st] assms
      time_line [of t "''mtime: ''"] time_values [of t]
    by (simp add: song_load_field_def song_field_names StripLeft_id song_time_norm_def)
qed

lemma song_loop_added:
  assumes "time_ok t" "ds_added (sl_song st) = time_point_min"
  shows "song_load_loop dio st ((if \<not> t < 0 then out_line (''added: '' @ fmt_int (to_time_t t)) else []) @ rest) =
    song_load_loop dio (st\<lparr>sl_song := (sl_song st)\<lparr>ds_added := song_time_norm t\<rparr>\<rparr>) rest"
proof (cases "t < 0")
  case True
  then have "st\<lparr>sl_song := (sl_song st)\<lparr>ds_added := song_time_norm t\<rparr>\<rparr> = st"
    using assms by (simp add: song_time_norm_def)
  then show ?thesis using True by simp
next
  case False
  then show ?thesis
    using song_loop_field [of "''added''" "fmt_int (to_time_t t)" dio st] assms
      time_line [of t "''added: ''"] time_values [of t]
    by (simp add: song_load_field_def song_field_names StripLeft_id song_time_norm_def)
qed

lemmas song_loop_lines = song_loop_target song_loop_range song_loop_tag song_loop_format
  song_loop_in_playlist song_loop_mtime song_loop_added song_loop_end

text \<open>Behind its first line a song is a framed codec; the song the loader builds from it is the normal form.\<close>

definition song_body :: "duration_io \<Rightarrow> Song \<Rightarrow> string" where
  "song_body dio s = drop (length (out_line (''song_begin: '' @ filename s))) (song_save dio s)"

definition loaded_song :: "DetachedSong \<times> string \<times> bool \<Rightarrow> Song" where
  "loaded_song = (\<lambda>(ds, tgt, inpl). (Song_of_detached ds)\<lparr>target := tgt, in_playlist := inpl\<rparr>)"

lemma song_save_body: "song_save dio s = out_line (''song_begin: '' @ filename s) @ song_body dio s"
  by (simp add: song_body_def song_save_def)

lemma song_load_body:
  assumes "song_ok dio s"
  shows "\<exists>ds. song_load dio (filename s) (song_body dio s @ rest) =
      Inr (ds, StripLeft (target s), in_playlist s, rest) \<and>
    loaded_song (ds, StripLeft (target s), in_playlist s) = song_norm dio s"
proof -
  have ok: "line_ok (''Target: '' @ target s)" "tag_ok dio (song_tag s)" "time_ok (song_mtime s)" "time_ok (added s)"
    using assms by (simp_all add: song_ok_def)
  let ?st = "\<lparr>sl_song = DetachedSong_new (filename s), sl_tag = TagBuilder_empty, sl_target = [], sl_in_playlist = False\<rparr>"
  let ?ds = "(DetachedSong_new (filename s))\<lparr>ds_start_time := start_time s, ds_end_time := end_time s,
      ds_audio_format := audio_norm (audio_format s), ds_mtime := song_time_norm (song_mtime s),
      ds_added := song_time_norm (added s)\<rparr>"
  have "song_load_loop dio ?st (song_body dio s @ rest) =
      Inr (\<lparr>sl_song = ?ds, sl_tag = TagBuilder_of (tag_norm dio (song_tag s)),
            sl_target = StripLeft (target s), sl_in_playlist = in_playlist s\<rparr>, rest)"
    using ok by (simp add: song_body_def song_save_def song_loop_lines DetachedSong_new_def)
  then show ?thesis
    by (simp add: song_load_def loaded_song_def Song_of_detached_def song_norm_def Commit_def
        TagBuilder_of_def DetachedSong_new_def)
qed

text \<open>A whole song, read from its first line on.\<close>

definition song_load_entry :: "duration_io \<Rightarrow> string \<Rightarrow> db_error + (Song \<times> string)" where
  "song_load_entry dio unread =
     (case ReadLine unread of
        None \<Rightarrow> Inl UnexpectedEndOfFile
      | Some (line, rest) \<Rightarrow>
          (case StringAfterPrefix line ''song_begin: '' of
             None \<Rightarrow> Inl (MalformedLine line)
           | Some name \<Rightarrow>
               (case song_load dio name rest of
                  Inl e \<Rightarrow> Inl e
                | Inr (ds, tgt, inpl, rest1) \<Rightarrow> Inr (loaded_song (ds, tgt, inpl), rest1))))"

interpretation song_codec: framed_codec "song_save dio" "song_load_entry dio" "song_norm dio" "song_ok dio"
proof
  fix s rest
  assume ok: "song_ok dio s"
  then have "line_ok (''song_begin: '' @ filename s)" by (simp add: song_ok_def)
  moreover obtain ds where "song_load dio (filename s) (song_body dio s @ rest) =
      Inr (ds, StripLeft (target s), in_playlist s, rest)"
    "loaded_song (ds, StripLeft (target s), in_playlist s) = song_norm dio s"
    using song_load_body [OF ok] by blast
  ultimately show "song_load_entry dio (song_save dio s @ rest) = Inr (song_norm dio s, rest)"
    unfolding song_load_entry_def song_save_body append_assoc by (simp only: ReadLine_out) simp
qed

section \<open>Playlist entries\<close>

lemma playlist_loop_end:
  "playlist_load_loop pm (out_line ''playlist_end'' @ rest) = Inr (pm, rest)"
  by (subst playlist_load_loop.simps) (simp add: ReadLine_out line_ok_def MAX_SIZE_def)

lemma playlist_loop_mtime:
  assumes "time_ok t" "\<not> t < 0"
  shows "playlist_load_loop pm (out_line (''mtime: '' @ fmt_int (to_time_t t)) @ rest) =
    playlist_load_loop (pm\<lparr>pl_mtime := from_time_t (to_time_t t)\<rparr>) rest"
proof -
  have "Split (''mtime: '' @ fmt_int (to_time_t t)) CHR '':'' = (''mtime'', Some (CHR '' '' # fmt_int (to_time_t t)))"
    using Split_append [of "CHR '':''" "''mtime''"] by simp
  moreover have "line_ok (''mtime: '' @ fmt_int (to_time_t t))" using assms by (rule time_line) simp_all
  ultimately show ?thesis
    using time_values [OF assms]
    by (subst playlist_load_loop.simps) (simp only: ReadLine_out, simp add: StripLeft_space StripLeft_id)
qed

text \<open>A playlist entry, read from its first line on.\<close>

definition playlist_load_entry :: "string \<Rightarrow> db_error + (PlaylistInfo \<times> string)" where
  "playlist_load_entry unread =
     (case ReadLine unread of
        None \<Rightarrow> Inl UnexpectedEndOfFile
      | Some (line, rest) \<Rightarrow>
          (case StringAfterPrefix line ''playlist_begin: '' of
             None \<Rightarrow> Inl (MalformedLine line)
           | Some name \<Rightarrow> playlist_load_loop (PlaylistInfo_new name time_point_min) rest))"

definition playlist_body :: "PlaylistInfo \<Rightarrow> string" where
  "playlist_body pi =
     (if \<not> pl_mtime pi < 0 then out_line (''mtime: '' @ fmt_int (to_time_t (pl_mtime pi))) else []) @
     out_line ''playlist_end''"

lemma playlist_load_body:
  assumes "playlist_ok pi"
  shows "playlist_load_loop (PlaylistInfo_new (pl_name pi) time_point_min) (playlist_body pi @ rest) =
    Inr ((playlist_norm pi)\<lparr>pl_mark := False\<rparr>, rest)"
proof -
  let ?pm = "PlaylistInfo_new (pl_name pi) time_point_min"
  have "playlist_load_loop ?pm (playlist_body pi @ rest) =
      playlist_load_loop (?pm\<lparr>pl_mtime := playlist_time_norm (pl_mtime pi)\<rparr>) (out_line ''playlist_end'' @ rest)"
  proof (cases "pl_mtime pi < 0")
    case False
    have "time_ok (pl_mtime pi)" using assms by (simp add: playlist_ok_def)
    from playlist_loop_mtime [OF this False] False show ?thesis
      unfolding playlist_body_def playlist_time_norm_def by (simp only: if_True if_False append_assoc simp_thms)
  qed (simp add: playlist_body_def playlist_time_norm_def PlaylistInfo_new_def)
  then show ?thesis by (simp add: playlist_loop_end PlaylistInfo_new_def playlist_norm_def)
qed

interpretation playlist_codec: framed_codec playlist_save playlist_load_entry
  "\<lambda>pi. (playlist_norm pi)\<lparr>pl_mark := False\<rparr>" playlist_ok
proof
  fix pi rest
  assume ok: "playlist_ok pi"
  then have "line_ok (''playlist_begin: '' @ pl_name pi)" by (simp add: playlist_ok_def)
  moreover have "playlist_save pi @ rest = out_line (''playlist_begin: '' @ pl_name pi) @ playlist_body pi @ rest"
    by (simp add: playlist_save_def playlist_body_def)
  ultimately show "playlist_load_entry (playlist_save pi @ rest) = Inr ((playlist_norm pi)\<lparr>pl_mark := False\<rparr>, rest)"
    unfolding playlist_load_entry_def using playlist_load_body [OF ok] by (simp only: ReadLine_out) simp
qed

section \<open>Directories\<close>

lemma dir_loop_song:
  assumes "song_ok dio s" "filename s \<notin> set snames"
  shows "directory_load_loop dio d cnames snames (song_save dio s @ rest) =
    directory_load_loop dio (AddSong (song_norm dio s) d) cnames (filename s # snames) rest"
proof -
  obtain ds where load: "song_load dio (filename s) (song_body dio s @ rest) =
      Inr (ds, StripLeft (target s), in_playlist s, rest)"
    and norm: "loaded_song (ds, StripLeft (target s), in_playlist s) = song_norm dio s"
    using song_load_body [OF assms(1)] by blast
  have line: "line_ok (''song_begin: '' @ filename s)" using assms(1) by (simp add: song_ok_def)
  have "filename (song_norm dio s) = filename s" by (simp add: song_norm_def)
  with norm have s: "(Song_of_detached ds)\<lparr>target := StripLeft (target s), in_playlist := in_playlist s\<rparr> = song_norm dio s"
    "filename (Song_of_detached ds) = filename s"
    by (auto simp: loaded_song_def dest: arg_cong [where f = filename])
  show ?thesis
    unfolding song_save_body append_assoc
    by (subst directory_load_loop.simps)
      (simp only: ReadLine_out [OF line], simp add: StringStartsWith_def load s Let_def assms(2))
qed

lemma dir_loop_songs:
  "\<lbrakk>\<forall>s \<in> set ss. song_ok dio s; distinct (map filename ss); set (map filename ss) \<inter> set snames = {}\<rbrakk> \<Longrightarrow>
    \<exists>snames'. directory_load_loop dio d cnames snames (concat (map (song_save dio) ss) @ rest) =
      directory_load_loop dio (Directory ((dir d)\<lparr>songs := songs (dir d) @ map (song_norm dio) ss\<rparr>) (children d))
        cnames snames' rest"
proof (induction ss arbitrary: d snames)
  case Nil
  then show ?case by (cases d) auto
next
  case (Cons s ss)
  have "directory_load_loop dio d cnames snames (concat (map (song_save dio) (s # ss)) @ rest) =
      directory_load_loop dio (AddSong (song_norm dio s) d) cnames (filename s # snames) (concat (map (song_save dio) ss) @ rest)"
    using Cons.prems by (simp add: dir_loop_song)
  moreover have "set (map filename ss) \<inter> set (filename s # snames) = {}" using Cons.prems by auto
  ultimately show ?case
    using Cons.IH [of "filename s # snames" "AddSong (song_norm dio s) d"] Cons.prems by (simp add: AddSong_def)
qed

lemma dir_loop_playlist:
  assumes "playlist_ok pi" "pl_name pi \<notin> set (map pl_name (playlists (dir d)))"
  shows "directory_load_loop dio d cnames snames (playlist_save pi @ rest) =
    directory_load_loop dio (Directory ((dir d)\<lparr>playlists := playlists (dir d) @ [playlist_norm pi]\<rparr>) (children d))
      cnames snames rest"
proof -
  have line: "line_ok (''playlist_begin: '' @ pl_name pi)" using assms(1) by (simp add: playlist_ok_def)
  have split: "playlist_save pi @ rest = out_line (''playlist_begin: '' @ pl_name pi) @ playlist_body pi @ rest"
    by (simp add: playlist_save_def playlist_body_def)
  have "PlaylistVector_find (pl_name pi) (playlists (dir d)) = None"
    using assms(2) by (simp add: PlaylistVector_find_def find_None_iff_map)
  then have "playlist_metadata_load (pl_name pi) (playlists (dir d)) (playlist_body pi @ rest) =
      Inr (playlists (dir d) @ [playlist_norm pi], rest)"
    using playlist_load_body [OF assms(1)]
    by (simp add: playlist_metadata_load_def UpdateOrInsert_def playlist_norm_def)
  then show ?thesis
    unfolding split
    by (subst directory_load_loop.simps)
      (simp only: ReadLine_out [OF line], simp add: StringStartsWith_def)
qed

lemma dir_loop_playlists:
  "\<lbrakk>\<forall>pi \<in> set ps. playlist_ok pi; distinct (map pl_name (playlists (dir d) @ ps))\<rbrakk> \<Longrightarrow>
    directory_load_loop dio d cnames snames (playlist_vector_save ps @ rest) =
    directory_load_loop dio (Directory ((dir d)\<lparr>playlists := playlists (dir d) @ map playlist_norm ps\<rparr>) (children d))
      cnames snames rest"
proof (induction ps arbitrary: d)
  case Nil
  then show ?case by (cases d) (simp add: playlist_vector_save_def)
next
  case (Cons pi ps)
  let ?d = "Directory ((dir d)\<lparr>playlists := playlists (dir d) @ [playlist_norm pi]\<rparr>) (children d)"
  have "pl_name (playlist_norm pi) = pl_name pi" by (simp add: playlist_norm_def)
  then have "distinct (map pl_name (playlists (dir ?d) @ ps))" using Cons.prems(2) by auto
  then have "directory_load_loop dio ?d cnames snames (playlist_vector_save ps @ rest) =
      directory_load_loop dio (Directory ((dir ?d)\<lparr>playlists := playlists (dir ?d) @ map playlist_norm ps\<rparr>) (children ?d))
        cnames snames rest"
    using Cons.IH Cons.prems(1) by simp
  then show ?case
    using dir_loop_playlist [of pi d dio cnames snames "playlist_vector_save ps @ rest"] Cons.prems
    by (simp add: playlist_vector_save_def)
qed

lemma head_load_line:
  "\<lbrakk>line_ok l; \<not> StringStartsWith l ''begin: ''; ParseLine l d = Some d'\<rbrakk> \<Longrightarrow>
    subdir_head_load d (out_line l @ rest) = subdir_head_load d' rest"
  by (subst subdir_head_load.simps) (simp add: ReadLine_out)

lemma head_load_type:
  assumes "device (dir d) = 0"
  shows "subdir_head_load d ((case DeviceToTypeString (ucast dev) of
      Some type \<Rightarrow> out_line (''type: '' @ type) | None \<Rightarrow> []) @ rest) =
    subdir_head_load (Directory ((dir d)\<lparr>device := device_norm dev\<rparr>) (children d)) rest"
proof (cases "DeviceToTypeString (ucast dev)")
  case None
  then have "Directory ((dir d)\<lparr>device := device_norm dev\<rparr>) (children d) = d"
    using assms by (cases d) (simp add: device_norm_def)
  then show ?thesis using None by simp
next
  case (Some type)
  then have "type \<in> {''archive'', ''container'', ''playlist''}"
    by (auto simp: DeviceToTypeString_def split: if_splits)
  then have "line_ok (''type: '' @ type)" "\<not> StringStartsWith (''type: '' @ type) ''begin: ''"
    "ParseLine (''type: '' @ type) d = Some (Directory ((dir d)\<lparr>device := ParseTypeString type\<rparr>) (children d))"
    by (auto simp: line_ok_def MAX_SIZE_def StringStartsWith_def ParseLine_def)
  then show ?thesis using Some head_load_line [of "''type: '' @ type" d] by (simp add: device_norm_def)
qed

lemma head_load_mtime:
  assumes "dir_mtime (dir d) = time_point_min" "time_ok t"
  shows "subdir_head_load d ((if \<not> t < 0 then out_line (''mtime: '' @ fmt_int (to_time_t t)) else []) @ rest) =
    subdir_head_load (Directory ((dir d)\<lparr>dir_mtime := dir_time_norm t\<rparr>) (children d)) rest"
proof (cases "t < 0")
  case True
  then have "Directory ((dir d)\<lparr>dir_mtime := dir_time_norm t\<rparr>) (children d) = d"
    using assms by (cases d) (simp add: dir_time_norm_def)
  then show ?thesis using True by simp
next
  case False
  note v = time_values [OF assms(2) False]
  have pos: "0 < to_time_t t \<longleftrightarrow> to_time_t t \<noteq> 0" using to_time_t_bounds [OF assms(2) False] by auto
  have "ParseLine (''mtime: '' @ fmt_int (to_time_t t)) d =
      Some (Directory ((dir d)\<lparr>dir_mtime := dir_time_norm t\<rparr>) (children d))"
    using v(3,4) False assms(1)
    by (cases d; cases "to_time_t t = 0") (simp_all add: ParseLine_def Let_def dir_time_norm_def pos)
  moreover have "line_ok (''mtime: '' @ fmt_int (to_time_t t))" using assms(2) False by (rule time_line) simp_all
  ultimately show ?thesis
    using False head_load_line [of "''mtime: '' @ fmt_int (to_time_t t)" d] by (simp add: StringStartsWith_def)
qed

lemma head_load:
  assumes "line_ok (''begin: '' @ path i)" "time_ok (dir_mtime i)" "\<not> is_root i"
  shows "subdir_head_load (Directory_new (path i) False) (directory_head i @ rest) = Inr (Directory (head_norm i) [], rest)"
proof -
  have "subdir_head_load d (out_line (''begin: '' @ path i) @ rest) = Inr (d, rest)" for d
    by (subst subdir_head_load.simps) (simp only: ReadLine_out [OF assms(1)], simp add: StringStartsWith_def)
  moreover have "subdir_head_load (Directory_new (path i) False) (directory_head i @ rest) =
      subdir_head_load (Directory (head_norm i) []) (out_line (''begin: '' @ path i) @ rest)"
    unfolding directory_head_def append_assoc using assms(3)
    by (simp only: if_False append_assoc, subst head_load_type)
      (simp add: Directory_new_def, subst head_load_mtime,
        simp_all add: Directory_new_def head_norm_def assms(2))
  ultimately show ?thesis by simp
qed

lemma dir_dir_norm:
  "dir (dir_norm dio c) = (head_norm (dir c))\<lparr>songs := map (song_norm dio) (songs (dir c)),
    playlists := map playlist_norm (playlists (dir c))\<rparr>"
  by (cases c) simp

lemma head_norm_identity [simp]: "is_root (head_norm i) = is_root i" "path (head_norm i) = path i"
  "songs (head_norm i) = []" "playlists (head_norm i) = []"
  by (simp_all add: head_norm_def Directory_new_def)

text \<open>The entries of a directory, without the lines around them.\<close>

definition child_save :: "duration_io \<Rightarrow> dir_info \<Rightarrow> directory \<Rightarrow> string" where
  "child_save dio i c =
     (if IsMount (dir c) then []
      else out_line (''directory: '' @ GetName i (dir c)) @ directory_save dio c)"

fun entries_save :: "duration_io \<Rightarrow> directory \<Rightarrow> string" where
  "entries_save dio (Directory i cs) =
     concat (map (child_save dio i) cs) @ concat (map (song_save dio) (songs i)) @ playlist_vector_save (playlists i)"

lemma directory_save_entries:
  "directory_save dio d = directory_head (dir d) @ entries_save dio d @ directory_tail (dir d)"
  by (cases d) (simp add: child_save_def [abs_def])

definition loads_entries :: "duration_io \<Rightarrow> directory \<Rightarrow> bool" where
  "loads_entries dio d \<longleftrightarrow> (\<forall>rest. \<exists>cn sn.
     directory_load_loop dio (Directory (head_norm (dir d)) []) [] [] (entries_save dio d @ rest) =
     directory_load_loop dio (dir_norm dio d) cn sn rest)"

lemma dir_loop_end:
  assumes "line_ok (''end: '' @ p)"
  shows "directory_load_loop dio d cn sn (out_line (''end: '' @ p) @ rest) = Inr (d, rest)"
  by (subst directory_load_loop.simps) (simp only: ReadLine_out [OF assms], simp add: StringStartsWith_def)

lemma dir_loop_child:
  assumes c: "loads_entries dio c" "\<not> IsMount (dir c)" "save_ok dio c" "child_ok (dir d) (dir c)"
    and n: "line_ok (''directory: '' @ GetName (dir d) (dir c))" "GetName (dir d) (dir c) \<notin> set cn"
  shows "directory_load_loop dio d cn sn (child_save dio (dir d) c @ rest) =
    directory_load_loop dio (append_child (dir_norm dio c) d) (GetName (dir d) (dir c) # cn) sn rest"
proof -
  let ?n = "GetName (dir d) (dir c)"
  have root: "\<not> is_root (dir c)" and path: "child_path (dir d) ?n = path (dir c)"
    using c(4) by (simp_all add: child_ok_def)
  have b: "line_ok (''begin: '' @ path (dir c))" "time_ok (dir_mtime (dir c))" using c(3) by (cases c; simp)+
  then have e: "line_ok (''end: '' @ path (dir c))" by (simp add: line_ok_def split: if_splits)
  have head: "subdir_head_load (Directory_new (child_path (dir d) ?n) False) (directory_save dio c @ rest) =
      Inr (Directory (head_norm (dir c)) [], entries_save dio c @ directory_tail (dir c) @ rest)"
    unfolding directory_save_entries path append_assoc by (rule head_load [OF b root])
  obtain cn' sn' where "directory_load_loop dio (Directory (head_norm (dir c)) []) [] []
      (entries_save dio c @ directory_tail (dir c) @ rest) =
      directory_load_loop dio (dir_norm dio c) cn' sn' (directory_tail (dir c) @ rest)"
    using c(1) unfolding loads_entries_def by blast
  then have inner: "directory_load_loop dio (Directory (head_norm (dir c)) []) [] []
      (entries_save dio c @ directory_tail (dir c) @ rest) = Inr (dir_norm dio c, rest)"
    using root by (simp only: directory_tail_def if_False dir_loop_end [OF e])
  have name: "GetName (dir d) (dir (dir_norm dio c)) = ?n" by (simp add: dir_dir_norm GetName_def)
  show ?thesis
    unfolding child_save_def using c(2)
    by (simp only: if_False append_assoc, subst directory_load_loop.simps)
      (simp only: ReadLine_out [OF n(1)], simp add: StringStartsWith_def head inner name n(2) Let_def)
qed

lemma dir_loop_children:
  "\<lbrakk>\<forall>c \<in> set cs. loads_entries dio c \<and> save_ok dio c \<and> child_ok (dir d) (dir c) \<and>
      line_ok (''directory: '' @ GetName (dir d) (dir c));
    distinct (map (\<lambda>c. GetName (dir d) (dir c)) cs); (\<lambda>c. GetName (dir d) (dir c)) ` set cs \<inter> set cn = {}\<rbrakk> \<Longrightarrow>
    \<exists>cn'. directory_load_loop dio d cn sn (concat (map (child_save dio (dir d)) cs) @ rest) =
      directory_load_loop dio (Directory (dir d) (children d @ map (dir_norm dio) (filter (\<lambda>c. \<not> IsMount (dir c)) cs)))
        cn' sn rest"
proof (induction cs arbitrary: d cn)
  case Nil
  then show ?case by (cases d) auto
next
  case (Cons c cs)
  show ?case
  proof (cases "IsMount (dir c)")
    case True
    then have "child_save dio (dir d) c = []" by (simp add: child_save_def)
    then show ?thesis using Cons.IH [of d cn] Cons.prems True by simp
  next
    case False
    let ?n = "GetName (dir d) (dir c)"
    have "directory_load_loop dio d cn sn (child_save dio (dir d) c @ concat (map (child_save dio (dir d)) cs) @ rest) =
        directory_load_loop dio (append_child (dir_norm dio c) d) (?n # cn) sn
          (concat (map (child_save dio (dir d)) cs) @ rest)"
      using Cons.prems False by (intro dir_loop_child) auto
    moreover have "dir (append_child (dir_norm dio c) d) = dir d" by (simp add: append_child_def)
    moreover have "(\<lambda>c. GetName (dir d) (dir c)) ` set cs \<inter> set (?n # cn) = {}" using Cons.prems by auto
    ultimately show ?thesis
      using Cons.IH [of "append_child (dir_norm dio c) d" "?n # cn"] Cons.prems False
      by (simp add: append_child_def)
  qed
qed

lemma loads_entries_ok: "\<lbrakk>wf_directory d; save_ok dio d\<rbrakk> \<Longrightarrow> loads_entries dio d"
proof (induction d)
  case (Directory i cs)
  let ?d0 = "Directory (head_norm i) []"
  have id: "GetName (head_norm i) = GetName i" "child_ok (head_norm i) = child_ok i"
    by (simp_all add: GetName_def child_ok_def child_path_def fun_eq_iff)
  then have sv: "child_save dio (head_norm i) = child_save dio i" by (simp add: child_save_def fun_eq_iff)
  let ?kids = "map (dir_norm dio) (filter (\<lambda>c. \<not> IsMount (dir c)) cs)"
  show ?case
    unfolding loads_entries_def
  proof
    fix rest
    have "\<forall>c \<in> set cs. loads_entries dio c \<and> save_ok dio c \<and> child_ok (dir ?d0) (dir c) \<and>
        line_ok (''directory: '' @ GetName (dir ?d0) (dir c))"
      "distinct (map (\<lambda>c. GetName (dir ?d0) (dir c)) cs)"
      using Directory by (auto simp: id)
    from dir_loop_children [OF this, of "[]" "[]"] obtain cn where c:
      "directory_load_loop dio ?d0 [] [] (concat (map (child_save dio i) cs) @ t) =
        directory_load_loop dio (Directory (head_norm i) ?kids) cn [] t"
      if "t = concat (map (song_save dio) (songs i)) @ playlist_vector_save (playlists i) @ rest" for t
      by (simp add: sv) blast
    obtain sn where s:
      "directory_load_loop dio (Directory (head_norm i) ?kids) cn []
         (concat (map (song_save dio) (songs i)) @ playlist_vector_save (playlists i) @ rest) =
       directory_load_loop dio (Directory ((head_norm i)\<lparr>songs := map (song_norm dio) (songs i)\<rparr>) ?kids) cn sn
         (playlist_vector_save (playlists i) @ rest)"
      using dir_loop_songs [of "songs i" dio "[]" "Directory (head_norm i) ?kids" cn
        "playlist_vector_save (playlists i) @ rest"] Directory.prems by auto
    have "directory_load_loop dio (Directory ((head_norm i)\<lparr>songs := map (song_norm dio) (songs i)\<rparr>) ?kids) cn sn
         (playlist_vector_save (playlists i) @ rest) =
       directory_load_loop dio (dir_norm dio (Directory i cs)) cn sn rest"
      using dir_loop_playlists [of "playlists i" "Directory ((head_norm i)\<lparr>songs := map (song_norm dio) (songs i)\<rparr>) ?kids" dio cn sn rest]
        Directory.prems by simp
    then show "\<exists>cn sn. directory_load_loop dio (Directory (head_norm (dir (Directory i cs))) []) [] []
        (entries_save dio (Directory i cs) @ rest) = directory_load_loop dio (dir_norm dio (Directory i cs)) cn sn rest"
      using c s by auto
  qed
qed

lemma dir_loop_eof: "directory_load_loop dio d cn sn [] = Inr (d, [])"
  by (subst directory_load_loop.simps) (simp add: ReadLine_def ReadBufferedLine_def Split_def)

lemma root_load:
  assumes "wf_directory d" "is_root (dir d)" "save_ok dio d"
  shows "directory_load dio NewRoot (directory_save dio d) = Inr (dir_norm dio d, [])"
proof -
  have "path (dir d) = []" using wf_path_ok [OF assms(1)] assms(2) by (simp add: path_ok_def)
  then have "NewRoot = Directory (head_norm (dir d)) []"
    using assms(2) by (simp add: NewRoot_def Directory_new_def head_norm_def)
  then show ?thesis
    using loads_entries_ok [OF assms(1,3)] assms(2)
    unfolding loads_entries_def directory_load_def directory_save_entries
    by (simp add: directory_head_def directory_tail_def) (metis append_Nil2 dir_loop_eof)
qed

section \<open>The database file\<close>

definition config_ok :: "db_config \<Rightarrow> bool" where
  "config_ok cfg \<longleftrightarrow> line_ok (''mpd_version: '' @ VERSION cfg) \<and> line_ok (''fs_charset: '' @ FSCharset cfg)"

lemma db_loop_line:
  "\<lbrakk>line_ok l; l \<noteq> ''info_end''; db_load_line cfg b l st = Inr st'\<rbrakk> \<Longrightarrow>
    db_load_loop cfg b st (out_line l @ rest) = db_load_loop cfg b st' rest"
  by (subst db_load_loop.simps) (simp add: ReadLine_out)

lemma db_loop_end: "db_load_loop cfg b st (out_line ''info_end'' @ rest) = Inr (st, rest)"
  by (subst db_load_loop.simps) (simp add: ReadLine_out line_ok_def MAX_SIZE_def)

lemma db_loop_format:
  "db_load_loop cfg b st (out_line (''format: '' @ fmt_uint DB_FORMAT) @ rest) =
    db_load_loop cfg b (st\<lparr>dl_format := DB_FORMAT\<rparr>) rest"
proof -
  have "line_ok (''format: '' @ fmt_uint DB_FORMAT)" by (rule fmt_uint_line) (simp_all add: DB_FORMAT_def)
  moreover have "atoi (fmt_uint DB_FORMAT) = 2"
    by (simp add: atoi_fmt_uint DB_FORMAT_def int32_of_id del: fmt_uint.simps)
  ultimately show ?thesis
    using db_loop_line [of "''format: '' @ fmt_uint DB_FORMAT" cfg b st]
    by (simp add: db_load_line_def DB_FORMAT_def del: fmt_uint.simps)
qed

lemma db_loop_version:
  "\<lbrakk>line_ok (''mpd_version: '' @ v); \<not> found_version st\<rbrakk> \<Longrightarrow>
    db_load_loop cfg b st (out_line (''mpd_version: '' @ v) @ rest) =
    db_load_loop cfg b (st\<lparr>found_version := True\<rparr>) rest"
  using db_loop_line [of "''mpd_version: '' @ v" cfg b st] by (simp add: db_load_line_def StringStartsWith_def)

definition charset_accepted :: "db_config \<Rightarrow> bool \<Rightarrow> string \<Rightarrow> bool" where
  "charset_accepted cfg ignore c \<longleftrightarrow> ignore \<or> FSCharset cfg = [] \<or> c = FSCharset cfg"

lemma db_loop_charset:
  assumes "line_ok (''fs_charset: '' @ c)" "\<not> found_charset st"
  shows "db_load_loop cfg b st (out_line (''fs_charset: '' @ c) @ rest) =
    (if charset_accepted cfg b c then db_load_loop cfg b (st\<lparr>found_charset := True\<rparr>) rest
     else Inl (CharsetMismatch c (FSCharset cfg)))"
proof (cases "charset_accepted cfg b c")
  case True
  then show ?thesis
    using db_loop_line [of "''fs_charset: '' @ c" cfg b st "st\<lparr>found_charset := True\<rparr>"] assms
    by (simp add: db_load_line_def StringStartsWith_def charset_accepted_def)
next
  case False
  then have "db_load_line cfg b (''fs_charset: '' @ c) st = Inl (CharsetMismatch c (FSCharset cfg))"
    using assms(2) by (simp add: db_load_line_def StringStartsWith_def charset_accepted_def)
  with False show ?thesis
    by (subst db_load_loop.simps) (simp only: ReadLine_out [OF assms(1)], simp)
qed

lemma db_loop_tags:
  "db_load_loop cfg b st (concat (map (\<lambda>t. out_line (''tag: '' @ tag_item_names t)) ts) @ rest) =
    db_load_loop cfg b (if b then st else st\<lparr>dl_tags := rev ts @ dl_tags st\<rparr>) rest"
proof (induction ts arbitrary: st)
  case (Cons t ts)
  have "last (tag_item_names t) \<noteq> carriage_return" by (cases t) simp_all
  then have "line_ok (''tag: '' @ tag_item_names t)"
    using tag_name_chars [of t] by (simp add: line_ok_def MAX_SIZE_def)
  moreover have "db_load_line cfg b (''tag: '' @ tag_item_names t) st =
      Inr (if b then st else st\<lparr>dl_tags := t # dl_tags st\<rparr>)"
    by (simp add: db_load_line_def StringStartsWith_def)
  ultimately show ?case
    using Cons.IH db_loop_line [of "''tag: '' @ tag_item_names t" cfg b st] by simp
qed simp

lemma db_load_header:
  assumes "config_ok cfg"
  shows "db_load_internal cfg2 dio root b (db_header cfg @ text1) =
    (if \<not> charset_accepted cfg2 b (FSCharset cfg) then Inl (CharsetMismatch (FSCharset cfg) (FSCharset cfg2))
     else if \<not> b \<and> (\<exists>t. IsTagEnabled (tag_mask cfg2) t \<and> \<not> IsTagEnabled (tag_mask cfg) t) then Inl TagListMismatch
     else case directory_load dio root text1 of Inl e \<Rightarrow> Inl e | Inr (d, _) \<Rightarrow> Inr d)"
proof -
  let ?st = "\<lparr>dl_format = 0, found_charset = False, found_version = False, dl_tags = []\<rparr>"
  let ?tags = "concat (map (\<lambda>t. out_line (''tag: '' @ tag_item_names t)) (filter (IsTagEnabled (tag_mask cfg)) all_tag_types))"
  let ?r3 = "?tags @ out_line ''info_end'' @ text1"
  let ?r2 = "out_line (''fs_charset: '' @ FSCharset cfg) @ ?r3"
  let ?r1 = "out_line (''mpd_version: '' @ VERSION cfg) @ ?r2"
  let ?r0 = "out_line (''format: '' @ fmt_uint DB_FORMAT) @ ?r1"
  let ?final = "\<lparr>dl_format = DB_FORMAT, found_charset = True, found_version = True,
      dl_tags = (if b then [] else rev (filter (IsTagEnabled (tag_mask cfg)) all_tag_types))\<rparr>"
  have ok: "line_ok (''mpd_version: '' @ VERSION cfg)" "line_ok (''fs_charset: '' @ FSCharset cfg)"
    using assms by (simp_all only: config_ok_def)
  have "db_load_loop cfg2 b ?st ?r0 = db_load_loop cfg2 b (?st\<lparr>dl_format := DB_FORMAT\<rparr>) ?r1"
    by (rule db_loop_format)
  also have "\<dots> = db_load_loop cfg2 b (?st\<lparr>dl_format := DB_FORMAT, found_version := True\<rparr>) ?r2"
    by (subst db_loop_version [OF ok(1)]) simp_all
  also have "\<dots> = (if charset_accepted cfg2 b (FSCharset cfg)
      then db_load_loop cfg2 b (?st\<lparr>dl_format := DB_FORMAT, found_version := True, found_charset := True\<rparr>) ?r3
      else Inl (CharsetMismatch (FSCharset cfg) (FSCharset cfg2)))"
    by (subst db_loop_charset [OF ok(2)]) simp_all
  also have "db_load_loop cfg2 b (?st\<lparr>dl_format := DB_FORMAT, found_version := True, found_charset := True\<rparr>) ?r3 =
      Inr (?final, text1)"
    by (simp only: db_loop_tags db_loop_end) simp
  finally have loop: "db_load_loop cfg2 b ?st ?r0 =
    (if charset_accepted cfg2 b (FSCharset cfg) then Inr (?final, text1)
     else Inl (CharsetMismatch (FSCharset cfg) (FSCharset cfg2)))" .
  have first: "ReadLine (out_line ''info_begin'' @ ?r0) = Some (''info_begin'', ?r0)"
    by (rule ReadLine_out) (simp add: line_ok_def MAX_SIZE_def)
  have "db_header cfg @ text1 = out_line ''info_begin'' @ ?r0"
    by (simp add: db_header_def)
  then show ?thesis
    unfolding db_load_internal_def
    by (simp only: first option.case prod.case loop) (auto simp: DB_FORMAT_def OLDEST_DB_FORMAT_def)
qed

text \<open>
  Property C1 (roundtrip): loading a saved database gives back the tree that was saved, in
  the normal form of the file: mount points are left out, times are cut to seconds (and,
  for songs, to 32 bits), leading blanks of values are dropped and audio formats go
  through their text. This holds for every well-formed tree whose names and values are
  single lines, whether or not configuration mismatches are ignored.
\<close>

theorem database_roundtrip:
  assumes "wf_directory d" "is_root (dir d)" "save_ok dio d" "config_ok cfg"
  shows "db_load_internal cfg dio NewRoot ignore (db_save_internal cfg dio d) = Inr (dir_norm dio d)"
  using root_load [OF assms(1-3)]
  by (simp add: db_save_internal_def db_load_header [OF assms(4)] charset_accepted_def)

definition sample_config :: db_config where
  "sample_config = \<lparr>VERSION = ''0.24'', FSCharset = ''UTF-8'', tag_mask = global_tag_mask_init\<rparr>"

definition sample_durations :: duration_io where
  "sample_durations = \<lparr>fmt_duration = fmt_int, parse_duration = atoi\<rparr>"

lemma sample_save_ok: "save_ok sample_durations sample_tree" "config_ok sample_config"
  by (simp_all add: sample_defs song_ok_def tag_ok_def time_ok_def line_ok_def MAX_SIZE_def Tag_empty_def
      time_point_min_def config_ok_def sample_config_def)

theorem database_roundtrip_witness:
  "db_load_internal sample_config sample_durations NewRoot False
     (db_save_internal sample_config sample_durations sample_tree) =
   Inr (dir_norm sample_durations sample_tree)"
proof (rule database_roundtrip)
  show "is_root (dir sample_tree)" by (simp add: sample_defs)
qed (fact sample_wf sample_save_ok)+

text \<open>
  The checks of the file header, for every combination of the
  configuration that wrote the file and the one that reads it: a different charset and a
  tag that is enabled now but was not when the file was written are errors, unless
  mismatches are ignored; otherwise the outcome is that of the directory tree.
\<close>

lemma database_header_checks:
  assumes "config_ok cfg"
  shows "db_load_internal cfg2 dio root ignore (db_save_internal cfg dio d) =
    (if \<not> ignore \<and> FSCharset cfg2 \<noteq> [] \<and> FSCharset cfg \<noteq> FSCharset cfg2
     then Inl (CharsetMismatch (FSCharset cfg) (FSCharset cfg2))
     else if \<not> ignore \<and> (\<exists>t. IsTagEnabled (tag_mask cfg2) t \<and> \<not> IsTagEnabled (tag_mask cfg) t)
     then Inl TagListMismatch
     else case directory_load dio root (directory_save dio d) of Inl e \<Rightarrow> Inl e | Inr (d', _) \<Rightarrow> Inr d')"
  unfolding db_save_internal_def db_load_header [OF assms] charset_accepted_def by auto

text \<open>
  The modification time of a song is written as a 64-bit number of
  seconds and read with \<open>atoi\<close>. A file modified at the first second that does not fit 32
  bits comes back with a time in 1901.
\<close>

lemma song_mtime_wraps:
  "song_load_entry dio (song_save dio ((Song_new ''a'')\<lparr>song_mtime := from_time_t (2 ^ 31)\<rparr>)) =
     Inr ((Song_new ''a'')\<lparr>song_mtime := from_time_t (- (2 ^ 31))\<rparr>, [])"
proof -
  let ?s = "(Song_new ''a'')\<lparr>song_mtime := from_time_t (2 ^ 31)\<rparr>"
  have "song_ok dio ?s"
    by (simp add: song_ok_def Song_new_def line_ok_def MAX_SIZE_def tag_ok_def Tag_empty_def time_ok_def
        from_time_t_def nanos_per_second_def time_point_min_def)
  then have "song_load_entry dio (song_save dio ?s) = Inr (song_norm dio ?s, [])"
    using song_codec.load_save [of dio ?s "[]"] by simp
  moreover have "to_time_t (from_time_t (2 ^ 31)) = 2 ^ 31" by (rule to_time_t_from_time_t)
  ultimately show ?thesis
    by (simp add: song_norm_def Song_new_def tag_norm_def Tag_empty_def StripLeft_def audio_norm_def
        AudioFormat_Undefined_def IsDefined_def song_time_norm_def int32_of_def from_time_t_def nanos_per_second_def)
qed

text \<open>
  A database with two songs of one name in a directory is refused,
  whatever the rest of the file holds.
\<close>

lemma duplicate_song_refused:
  assumes "song_ok dio s" "song_ok dio t" "filename t = filename s"
  shows "directory_load dio d (song_save dio s @ song_save dio t @ rest) = Inl (DuplicateSong (filename s))"
proof -
  obtain ds where load: "song_load dio (filename t) (song_body dio t @ rest) =
      Inr (ds, StripLeft (target t), in_playlist t, rest)"
    and norm: "loaded_song (ds, StripLeft (target t), in_playlist t) = song_norm dio t"
    using song_load_body [OF assms(2)] by blast
  have line: "line_ok (''song_begin: '' @ filename t)" using assms(2) by (simp add: song_ok_def)
  have name: "filename (Song_of_detached ds) = filename t"
    using arg_cong [OF norm, of filename] by (simp add: loaded_song_def song_norm_def)
  have "directory_load dio d (song_save dio s @ song_save dio t @ rest) =
      directory_load_loop dio (AddSong (song_norm dio s) d) [] [filename s] (song_save dio t @ rest)"
    unfolding directory_load_def by (rule dir_loop_song) (simp_all add: assms(1))
  also have "\<dots> = Inl (DuplicateSong (filename s))"
    unfolding song_save_body append_assoc
    by (subst directory_load_loop.simps)
      (simp only: ReadLine_out [OF line], simp add: StringStartsWith_def load [unfolded assms(3)] name Let_def assms(3))
  finally show ?thesis .
qed

lemma song_norm_uri [simp]: "filename (song_norm dio s) = filename s"
  by (simp add: song_norm_def)

lemma all_songs_dir_norm:
  "no_mounts d \<Longrightarrow> all_songs (dir_norm dio d) = map (\<lambda>(uri, s). (uri, song_norm dio s)) (all_songs d)"
proof (induction d)
  case (Directory i cs)
  have f: "filter (\<lambda>c. \<not> IsMount (dir c)) cs = cs"
    using Directory.prems by (auto simp: filter_id_conv) (metis directory.exhaust directory.sel(1) no_mounts.simps)
  have u: "GetURI ((head_norm i)\<lparr>songs := a, playlists := b\<rparr>) (song_norm dio s) = GetURI i s" for a b s
    by (simp add: GetURI_def)
  show ?case using Directory by (simp add: f u map_concat comp_def cong: map_cong)
qed

text \<open>
  No song is lost or renamed by saving and loading: the loaded
  tree has the same song URIs in the same order, each with its song in the normal form
  of the file.
\<close>

lemma saved_songs_kept:
  assumes "wf_directory d" "is_root (dir d)" "save_ok dio d" "config_ok cfg" "no_mounts d"
  shows "map_sum id all_songs (db_load_internal cfg dio NewRoot ignore (db_save_internal cfg dio d)) =
    Inr (map (\<lambda>(uri, s). (uri, song_norm dio s)) (all_songs d))"
  using root_load [OF assms(1-3)]
  by (simp add: db_save_internal_def db_load_header [OF assms(4)] charset_accepted_def all_songs_dir_norm [OF assms(5)])

end
