(* ===== verification/Update_Filters.thy ===== *)
theory Update_Filters
  imports Simple_Directory
begin

text \<open>
  The parts of the program that decide what goes into the database: the command line
  (DbMain.cxx), the channel filter (db/update/FilteredSongUpdate.cxx), the CUE rules
  (db/update/CueValidator.cxx), the \<open>.mpdignore\<close> lists (db/update/ExcludeList.cxx), and
  the timer that ends the program when the update is done (\<open>UpdateChecker\<close>).
\<close>

section \<open>The command line\<close>

datatype ChannelMode = STEREO | MULTICHANNEL | ALL_MODE

record options =
  channel_mode :: ChannelMode
  music_directory :: string
  database_path :: "string option"
  verbose :: bool
  update_mode :: bool

definition default_options :: options where
  "default_options =
     \<lparr>channel_mode = ALL_MODE, music_directory = [], database_path = None, verbose = False, update_mode = False\<rparr>"

text \<open>How \<open>ParseArgs\<close> ends when it does not return: it exits or it throws.\<close>

datatype args_stop =
    HelpExit
  | NeedsArg string
  | UnknownArg string
  | BadPath string
  | MissingRequired

text \<open>\<open>from_utf8\<close> is \<open>AllocatedPath::FromUTF8Throw\<close>, \<open>None\<close> when it throws.\<close>

fun ParseArgs_loop :: "(string \<Rightarrow> string option) \<Rightarrow> string list \<Rightarrow> options \<Rightarrow> args_stop + options" where
  "ParseArgs_loop from_utf8 [] opt = Inr opt"
| "ParseArgs_loop from_utf8 (arg # args) opt =
     (if arg = ''--help'' then Inl HelpExit
      else if arg = ''--update'' then ParseArgs_loop from_utf8 args (opt\<lparr>update_mode := True\<rparr>)
      else if arg = ''--stereo'' then ParseArgs_loop from_utf8 args (opt\<lparr>channel_mode := STEREO\<rparr>)
      else if arg = ''--multichannel'' then ParseArgs_loop from_utf8 args (opt\<lparr>channel_mode := MULTICHANNEL\<rparr>)
      else if arg = ''--all'' then ParseArgs_loop from_utf8 args (opt\<lparr>channel_mode := ALL_MODE\<rparr>)
      else if arg = ''--verbose'' then ParseArgs_loop from_utf8 args (opt\<lparr>verbose := True\<rparr>)
      else if arg = ''--music-dir'' then
        (case args of
           [] \<Rightarrow> Inl (NeedsArg arg)
         | v # rest \<Rightarrow> ParseArgs_loop from_utf8 rest (opt\<lparr>music_directory := v\<rparr>))
      else if arg = ''--database'' then
        (case args of
           [] \<Rightarrow> Inl (NeedsArg arg)
         | v # rest \<Rightarrow>
             (case from_utf8 v of
                None \<Rightarrow> Inl (BadPath v)
              | Some p \<Rightarrow> ParseArgs_loop from_utf8 rest (opt\<lparr>database_path := Some p\<rparr>)))
      else Inl (UnknownArg arg))"

definition ParseArgs :: "(string \<Rightarrow> string option) \<Rightarrow> string list \<Rightarrow> args_stop + options" where
  "ParseArgs from_utf8 args =
     (case ParseArgs_loop from_utf8 args default_options of
        Inl e \<Rightarrow> Inl e
      | Inr opt \<Rightarrow>
          if music_directory opt = [] \<or> database_path opt = None then Inl MissingRequired else Inr opt)"

section \<open>The channel filter\<close>

definition ShouldFilterByChannelCount :: "ChannelMode \<Rightarrow> AudioFormat \<Rightarrow> bool" where
  "ShouldFilterByChannelCount mode fmt =
     (if mode = ALL_MODE \<or> \<not> IsDefined fmt then False
      else if channels fmt = 0 then False
      else if mode = STEREO \<and> channels fmt > 2 then True
      else if mode = MULTICHANNEL \<and> channels fmt \<le> 2 then True
      else False)"

definition ShouldIncludeSong :: "ChannelMode \<Rightarrow> Song \<Rightarrow> bool" where
  "ShouldIncludeSong mode song =
     (if mode = ALL_MODE then True
      else if ShouldFilterByChannelCount mode (audio_format song) then False
      else True)"

definition ProcessSongTags :: "Song \<Rightarrow> Song" where
  "ProcessSongTags song = song"

section \<open>Files of a storage\<close>

datatype file_type = OTHER | REGULAR | DIRECTORY

record StorageFileInfo =
  fi_type :: file_type
  fi_size :: "64 word"
  fi_mtime :: time_point
  fi_device :: "64 word"
  fi_inode :: "64 word"

definition IsRegular :: "StorageFileInfo \<Rightarrow> bool" where
  "IsRegular info \<longleftrightarrow> fi_type info = REGULAR"

definition IsDirectory :: "StorageFileInfo \<Rightarrow> bool" where
  "IsDirectory info \<longleftrightarrow> fi_type info = DIRECTORY"

text \<open>
  What \<open>OpenDirectory\<close> gives: the names in the order \<open>Read\<close> returns them, each with the
  result of \<open>GetInfo\<close>, \<open>None\<close> when that throws.
\<close>

type_synonym listing = "(string \<times> StorageFileInfo option) list"

section \<open>CUE sheets\<close>

definition media_extensions :: "string list" where
  "media_extensions = [''.flac'', ''.wav'', ''.ape'', ''.wv'', ''.dsf'', ''.dff'',
     ''.mp3'', ''.mp4'', ''.m4a'', ''.aac'', ''.ogg'', ''.opus'']"

definition IsSupportedMediaFile :: "string \<Rightarrow> bool" where
  "IsSupportedMediaFile name \<longleftrightarrow> (\<exists>ext \<in> set media_extensions. StringEndsWithIgnoreCase name ext)"

text \<open>An exception of \<open>GetInfo\<close> ends the loop; what was counted before is returned.\<close>

fun count_media :: "listing \<Rightarrow> nat \<Rightarrow> nat" where
  "count_media [] n = n"
| "count_media ((name, info) # rest) n =
     (if name \<noteq> [] \<and> hd name = CHR ''.'' then count_media rest n
      else case info of
          None \<Rightarrow> n
        | Some i \<Rightarrow>
            count_media rest
              (if IsRegular i \<and> IsSupportedMediaFile name then (n + 1) mod 2 ^ 32 else n))"

definition CountMediaFilesInDirectory :: "(string \<Rightarrow> listing option) \<Rightarrow> string \<Rightarrow> nat" where
  "CountMediaFilesInDirectory open_directory directory_path =
     (case open_directory directory_path of None \<Rightarrow> 0 | Some entries \<Rightarrow> count_media entries 0)"

definition is_blank :: "char \<Rightarrow> bool" where
  "is_blank c \<longleftrightarrow> c = CHR 0x20 \<or> c = CHR 0x09"

definition cue_line_track :: "string \<Rightarrow> nat option" where
  "cue_line_track line =
     (case StringAfterPrefix line ''TRACK'' of
        None \<Rightarrow> None
      | Some p0 \<Rightarrow>
          (let p = dropWhile is_blank p0 in
           if p \<noteq> [] \<and> IsDigitASCII (hd p) then Some (nat (atoi p mod 2 ^ 32)) else None))"

definition cue_track_count :: "string list \<Rightarrow> nat" where
  "cue_track_count ls =
     fold (\<lambda>line track_count.
       case cue_line_track line of
         Some track_num \<Rightarrow> if track_num > track_count then track_num else track_count
       | None \<Rightarrow> track_count) ls 0"

text \<open>\<open>open_file\<close> is the text that can be read before an error, \<open>None\<close> when opening throws.\<close>

definition CountTracksInCueFile :: "(string \<Rightarrow> string option) \<Rightarrow> string \<Rightarrow> nat" where
  "CountTracksInCueFile open_file cue_path =
     (case open_file cue_path of None \<Rightarrow> 0 | Some content \<Rightarrow> cue_track_count (text_lines content))"

definition ShouldIgnoreCueFile ::
  "(string \<Rightarrow> string option) \<Rightarrow> (string \<Rightarrow> listing option) \<Rightarrow> string \<Rightarrow> string \<Rightarrow> bool" where
  "ShouldIgnoreCueFile open_file open_directory directory_path cue_filename =
     (let cue_path = directory_path @
            (if directory_path \<noteq> [] \<and> last directory_path \<noteq> CHR ''/'' then ''/'' else []) @ cue_filename;
          cue_tracks = CountTracksInCueFile open_file cue_path in
      if cue_tracks = 0 then True
      else let media_files = CountMediaFilesInDirectory open_directory directory_path in
        if cue_tracks = media_files then True
        else if cue_tracks = (media_files + 1) mod 2 ^ 32 then True
        else False)"

section \<open>Exclude lists\<close>

text \<open>
  The patterns of one \<open>.mpdignore\<close> file, the last line first, and the list of the
  directory above. \<open>glob\<close> is \<open>fnmatch\<close>.
\<close>

datatype ExcludeList = ExcludeList (excl_parent: "ExcludeList option") (patterns: "string list")

definition ExcludeList_empty :: ExcludeList where
  "ExcludeList_empty = ExcludeList None []"

definition ExcludeList_child :: "ExcludeList \<Rightarrow> ExcludeList" where
  "ExcludeList_child parent = ExcludeList (Some parent) []"

primrec ExcludeList_IsEmpty :: "ExcludeList \<Rightarrow> bool" and parent_IsEmpty :: "ExcludeList option \<Rightarrow> bool" where
  "ExcludeList_IsEmpty (ExcludeList parent ps) \<longleftrightarrow> parent_IsEmpty parent \<and> ps = []"
| "parent_IsEmpty None \<longleftrightarrow> True"
| "parent_IsEmpty (Some e) \<longleftrightarrow> ExcludeList_IsEmpty e"

definition ExcludeList_ParseLine :: "string \<Rightarrow> ExcludeList \<Rightarrow> ExcludeList" where
  "ExcludeList_ParseLine line e =
     (let p = Strip line in
      if p \<noteq> [] \<and> hd p \<noteq> CHR ''#'' then ExcludeList (excl_parent e) (p # patterns e) else e)"

definition ExcludeList_Load :: "string \<Rightarrow> ExcludeList \<Rightarrow> ExcludeList" where
  "ExcludeList_Load content e = fold ExcludeList_ParseLine (text_lines content) e"

primrec ExcludeList_Check :: "(string \<Rightarrow> string \<Rightarrow> bool) \<Rightarrow> ExcludeList \<Rightarrow> string \<Rightarrow> bool"
  and parent_Check :: "(string \<Rightarrow> string \<Rightarrow> bool) \<Rightarrow> ExcludeList option \<Rightarrow> string \<Rightarrow> bool" where
  "ExcludeList_Check glob (ExcludeList parent ps) name \<longleftrightarrow>
     parent_Check glob parent name \<or> (\<exists>p \<in> set ps. glob p name)"
| "parent_Check glob None name \<longleftrightarrow> False"
| "parent_Check glob (Some e) name \<longleftrightarrow> ExcludeList_Check glob e name"

section \<open>The completion timer\<close>

record UpdateChecker =
  progress_counter :: nat
  timer_scheduled :: bool
  loop_broken :: bool
  dots_printed :: nat

definition UpdateChecker_Start :: "UpdateChecker \<Rightarrow> UpdateChecker" where
  "UpdateChecker_Start c = c\<lparr>timer_scheduled := True\<rparr>"

text \<open>\<open>id\<close> is \<open>UpdateService::GetId()\<close>. The timer fires once per \<open>Schedule\<close>.\<close>

definition OnTimer :: "bool \<Rightarrow> nat \<Rightarrow> UpdateChecker \<Rightarrow> UpdateChecker" where
  "OnTimer verb update_id c =
     (let c0 = c\<lparr>timer_scheduled := False\<rparr> in
      if update_id = 0 then c0\<lparr>loop_broken := True\<rparr>
      else let c1 = c0\<lparr>timer_scheduled := True\<rparr> in
        if verb then
          (if progress_counter c1 + 1 \<ge> 100
           then c1\<lparr>progress_counter := 0, dots_printed := dots_printed c1 + 1\<rparr>
           else c1\<lparr>progress_counter := progress_counter c1 + 1\<rparr>)
        else c1)"

section \<open>Properties of the command line\<close>

text \<open>The arguments a user gives for a set of options.\<close>

definition render_options :: "options \<Rightarrow> string list" where
  "render_options opt =
     [''--music-dir'', music_directory opt] @
     (case database_path opt of None \<Rightarrow> [] | Some p \<Rightarrow> [''--database'', p]) @
     (case channel_mode opt of STEREO \<Rightarrow> [''--stereo''] | MULTICHANNEL \<Rightarrow> [''--multichannel''] | ALL_MODE \<Rightarrow> [''--all'']) @
     (if verbose opt then [''--verbose''] else []) @
     (if update_mode opt then [''--update''] else [])"

text \<open>
  Every combination of options can be given on the command line
  and is understood as meant, paths that look like options included.
\<close>

lemma ParseArgs_render:
  assumes "music_directory opt \<noteq> []" "database_path opt = Some p" "from_utf8 p = Some p"
  shows "ParseArgs from_utf8 (render_options opt) = Inr opt"
  using assms
  by (cases opt; cases "channel_mode opt")
    (simp_all add: ParseArgs_def render_options_def default_options_def)

text \<open>An argument is consumed as a value by the option in front of it.\<close>

fun option_words :: "string list \<Rightarrow> string list" where
  "option_words [] = []"
| "option_words (arg # args) =
     (if arg = ''--music-dir'' \<or> arg = ''--database'' then arg # option_words (tl args) else arg # option_words args)"

definition known_options :: "string list" where
  "known_options = [''--help'', ''--update'', ''--stereo'', ''--multichannel'', ''--all'', ''--verbose'',
     ''--music-dir'', ''--database'']"

lemma ParseArgs_loop_accepts:
  "ParseArgs_loop from_utf8 args opt = Inr opt' \<Longrightarrow>
    set (option_words args) \<subseteq> set known_options - {''--help''}"
proof (induction from_utf8 args opt rule: ParseArgs_loop.induct)
  case (2 from_utf8 arg args opt)
  then show ?case
    by (simp only: ParseArgs_loop.simps known_options_def)
      (auto split: if_splits list.splits option.splits)
qed simp

text \<open>
  When \<open>ParseArgs\<close> returns, both required options were given and every
  option word is a known one other than \<open>--help\<close>: a misspelt option is never ignored.
\<close>

lemma ParseArgs_accepts:
  assumes "ParseArgs from_utf8 args = Inr opt"
  shows "music_directory opt \<noteq> [] \<and> database_path opt \<noteq> None \<and>
    set (option_words args) \<subseteq> set known_options - {''--help''}"
  using assms ParseArgs_loop_accepts [of from_utf8 args default_options opt]
  by (auto simp: ParseArgs_def split: sum.splits if_splits)

section \<open>Properties of the filters\<close>


lemma cue_track_fold:
  "fold (\<lambda>line n. case cue_line_track line of Some k \<Rightarrow> if k > n then k else n | None \<Rightarrow> n) ls n =
    Max (insert n (set (List.map_filter cue_line_track ls)))"
proof (induction ls arbitrary: n)
  case (Cons l ls)
  have "Max (insert (max n k) S) = Max (insert n (insert k S))" if "finite S" for k :: nat and S
    using that by (cases "S = {}") (simp_all add: max.assoc)
  moreover have "(if k > n then k else n) = max n k" for k by (simp add: max_def)
  ultimately have "Max (insert (if k > n then k else n) S) = Max (insert n (insert k S))" if "finite S" for k S
    using that by (simp only:)
  then show ?case using Cons by (cases "cue_line_track l") (simp_all add: List.map_filter_simps)
qed (simp add: List.map_filter_simps)

lemma cue_track_count_zero:
  "(\<And>line. line \<in> set ls \<Longrightarrow> cue_line_track line = None) \<Longrightarrow> cue_track_count ls = 0"
  unfolding cue_track_count_def by (induction ls) auto

lemma cue_line_track_none: "take 5 line \<noteq> ''TRACK'' \<Longrightarrow> cue_line_track line = None"
  by (auto simp: cue_line_track_def StringAfterPrefix_Some_iff split: option.split)

text \<open>
  Property C28 (error): a CUE sheet in which no line begins with the word \<open>TRACK\<close>, such as one whose
  \<open>TRACK\<close> lines are all indented below their \<open>FILE\<close> line as the format is usually written, counts as a sheet without tracks and is
  ignored. Neither the number of its tracks nor the media files beside it nor what its other lines
  begin with make a difference.
\<close>

theorem indented_cue_ignored:
  assumes "\<And>line. line \<in> set (text_lines content) \<Longrightarrow> take 5 line \<noteq> ''TRACK''"
    and "open_file (directory_path @
      (if directory_path \<noteq> [] \<and> last directory_path \<noteq> CHR ''/'' then ''/'' else []) @ name) = Some content"
  shows "ShouldIgnoreCueFile open_file open_directory directory_path name"
proof -
  have "cue_track_count (text_lines content) = 0"
    by (intro cue_track_count_zero cue_line_track_none assms(1))
  then show ?thesis using assms(2) by (simp add: ShouldIgnoreCueFile_def CountTracksInCueFile_def Let_def)
qed

definition indented_sheet :: string where
  "indented_sheet = ''TITLE y'' @ [newline] @ ''FILE x WAVE'' @ [newline] @ ''  TRACK 01 AUDIO'' @ [newline] @
     ''    TITLE z'' @ [newline] @ ''  TRACK 02 AUDIO'' @ [newline]"

lemma indented_sheet_lines:
  "text_lines indented_sheet = [''TITLE y'', ''FILE x WAVE'', ''  TRACK 01 AUDIO'', ''    TITLE z'', ''  TRACK 02 AUDIO'']"
  by (simp add: text_lines.simps TextInputStream_ReadLine_def ReadBufferedLine_def Split_def indented_sheet_def
      chop_cr_def c_str_def)

theorem indented_cue_ignored_witness:
  "ShouldIgnoreCueFile (\<lambda>_. Some indented_sheet) (\<lambda>_. Some []) ''d'' ''a.cue''"
  by (rule indented_cue_ignored [where content = indented_sheet]) (auto simp: indented_sheet_lines)

definition is_media_entry :: "string \<times> StorageFileInfo option \<Rightarrow> bool" where
  "is_media_entry e \<longleftrightarrow> (case e of (n, i) \<Rightarrow>
     \<not> (n \<noteq> [] \<and> hd n = CHR ''.'') \<and> IsRegular (the i) \<and> IsSupportedMediaFile n)"

lemma count_media_entries:
  "\<lbrakk>\<forall>(n, i) \<in> set es. i \<noteq> None; k + length es < 2 ^ 32\<rbrakk> \<Longrightarrow> count_media es k = k + length (filter is_media_entry es)"
  by (induction es k rule: count_media.induct) (auto simp: is_media_entry_def split: option.splits)

text \<open>
  Property C29 (functional): a CUE sheet is judged by its largest track number, taken over the lines that begin with the word
  \<open>TRACK\<close> and a number (0 when there is none): it is ignored exactly when that is 0, the number of media files beside
  it, or one more. Media files are the regular files with a known extension that are not hidden.
\<close>

theorem cue_rules:
  assumes "open_file (directory_path @
      (if directory_path \<noteq> [] \<and> last directory_path \<noteq> CHR ''/'' then ''/'' else []) @ name) = Some content"
    and "open_directory directory_path = Some entries" "\<forall>(n, i) \<in> set entries. i \<noteq> None" "length entries < 2 ^ 32 - 1"
  shows "ShouldIgnoreCueFile open_file open_directory directory_path name \<longleftrightarrow>
    (let tracks = Max (insert 0 (set (List.map_filter cue_line_track (text_lines content))));
         media = length (filter is_media_entry entries)
     in tracks = 0 \<or> tracks = media \<or> tracks = media + 1)"
proof -
  have media: "CountMediaFilesInDirectory open_directory directory_path = length (filter is_media_entry entries)"
    using count_media_entries [of entries 0] assms(2-4) by (simp add: CountMediaFilesInDirectory_def)
  have "length (filter is_media_entry entries) \<le> length entries" by (rule length_filter_le)
  then have small: "(length (filter is_media_entry entries) + 1) mod 2 ^ 32 = length (filter is_media_entry entries) + 1"
    using assms(4) by (intro mod_less) linarith
  have "cue_track_count (text_lines content) = Max (insert 0 (set (List.map_filter cue_line_track (text_lines content))))"
    unfolding cue_track_count_def by (rule cue_track_fold)
  then show ?thesis
    using assms(1) small by (simp add: ShouldIgnoreCueFile_def CountTracksInCueFile_def media Let_def)
qed

definition flat_sheet :: string where
  "flat_sheet = ''TRACK 01 AUDIO'' @ [newline] @ ''TRACK 02 AUDIO'' @ [newline]"

lemma flat_sheet_tracks: "List.map_filter cue_line_track (text_lines flat_sheet) = [1, 2]"
proof -
  have "text_lines flat_sheet = [''TRACK 01 AUDIO'', ''TRACK 02 AUDIO'']"
    by (simp add: text_lines.simps TextInputStream_ReadLine_def ReadBufferedLine_def Split_def flat_sheet_def
        chop_cr_def c_str_def)
  moreover have "cue_line_track ''TRACK 01 AUDIO'' = Some 1" "cue_line_track ''TRACK 02 AUDIO'' = Some 2"
    by code_simp+
  ultimately show ?thesis by (simp add: List.map_filter_simps)
qed

definition flac_entry :: "string \<times> StorageFileInfo option" where
  "flac_entry = (''x.flac'', Some \<lparr>fi_type = REGULAR, fi_size = 1, fi_mtime = 0, fi_device = 1, fi_inode = 2\<rparr>)"

lemma flac_entry_media: "is_media_entry flac_entry"
  by code_simp

theorem cue_rules_witness:
  "ShouldIgnoreCueFile (\<lambda>_. Some flat_sheet) (\<lambda>_. Some [flac_entry, flac_entry]) ''d'' ''a.cue'' \<and>
   ShouldIgnoreCueFile (\<lambda>_. Some flat_sheet) (\<lambda>_. Some [flac_entry]) ''d'' ''a.cue'' \<and>
   \<not> ShouldIgnoreCueFile (\<lambda>_. Some flat_sheet) (\<lambda>_. Some [flac_entry, flac_entry, flac_entry]) ''d'' ''a.cue''"
proof -
  have "ShouldIgnoreCueFile (\<lambda>_. Some flat_sheet) (\<lambda>_. Some (replicate n flac_entry)) ''d'' ''a.cue'' \<longleftrightarrow> n = 2 \<or> n = 1"
    if "n < 4" for n
    using cue_rules [of "\<lambda>_. Some flat_sheet" "''d''" "''a.cue''" flat_sheet "\<lambda>_. Some (replicate n flac_entry)" "replicate n flac_entry"]
      that flac_entry_media flat_sheet_tracks
    by (auto simp: flac_entry_def Let_def)
  from this [of 2] this [of 1] this [of 3] show ?thesis by (simp add: numeral_2_eq_2 numeral_3_eq_3)
qed

section \<open>Properties of the exclude lists\<close>

definition pattern_of_line :: "string \<Rightarrow> string option" where
  "pattern_of_line line = (let p = Strip line in if p \<noteq> [] \<and> hd p \<noteq> CHR ''#'' then Some p else None)"

lemma ExcludeList_ParseLine_pattern:
  "ExcludeList_ParseLine line e = (case pattern_of_line line of
     None \<Rightarrow> e | Some p \<Rightarrow> ExcludeList (excl_parent e) (p # patterns e))"
  by (simp add: ExcludeList_ParseLine_def pattern_of_line_def Let_def)

lemma ExcludeList_fold:
  "fold ExcludeList_ParseLine ls e = ExcludeList (excl_parent e) (rev (List.map_filter pattern_of_line ls) @ patterns e)"
  by (induction ls arbitrary: e)
    (auto simp: ExcludeList_ParseLine_pattern List.map_filter_simps split: option.split)

text \<open>
  A file name in a directory is excluded exactly when the list of
  the directory above excludes it or a line of the directory's own \<open>.mpdignore\<close>, stripped and
  not a comment, is a pattern that matches it. Exclusion is inherited, and comments and
  blank lines exclude nothing.
\<close>

lemma ExcludeList_Load_Check:
  "ExcludeList_Check glob (ExcludeList_Load content (ExcludeList_child parent)) name \<longleftrightarrow>
     ExcludeList_Check glob parent name \<or>
     (\<exists>line \<in> set (text_lines content).
        \<exists>p. Strip line = p \<and> p \<noteq> [] \<and> hd p \<noteq> CHR ''#'' \<and> glob p name)"
proof -
  have "p \<in> set (List.map_filter pattern_of_line ls) \<longleftrightarrow>
      (\<exists>line \<in> set ls. Strip line = p \<and> p \<noteq> [] \<and> hd p \<noteq> CHR ''#'')" for p ls
    by (auto simp: List.map_filter_def pattern_of_line_def Let_def image_iff split: if_splits)
  then show ?thesis
    by (auto simp: ExcludeList_Load_def ExcludeList_fold ExcludeList_child_def)
qed

section \<open>Properties of the completion timer\<close>

lemma OnTimer_busy:
  assumes "\<forall>i \<in> set ids. i \<noteq> 0"
  shows "fold (OnTimer True) ids \<lparr>progress_counter = 0, timer_scheduled = True, loop_broken = False, dots_printed = 0\<rparr> =
    \<lparr>progress_counter = length ids mod 100, timer_scheduled = True, loop_broken = False, dots_printed = length ids div 100\<rparr>"
  using assms
proof (induction ids rule: rev_induct)
  case (snoc i ids)
  then show ?case by (auto simp: OnTimer_def Let_def mod_Suc div_Suc)
qed simp

text \<open>
  As long as an update runs the timer stays armed and the event loop
  goes on, one dot per hundred ticks; the first tick that finds no update breaks the loop
  and does not arm the timer again.
\<close>

lemma OnTimer_runs_until_done:
  assumes "\<forall>i \<in> set ids. i \<noteq> 0"
  defines "start \<equiv> \<lparr>progress_counter = 0, timer_scheduled = True, loop_broken = False, dots_printed = 0\<rparr>"
  shows "timer_scheduled (fold (OnTimer True) ids start) \<and> \<not> loop_broken (fold (OnTimer True) ids start) \<and>
    dots_printed (fold (OnTimer True) ids start) = length ids div 100 \<and>
    loop_broken (fold (OnTimer True) (ids @ [0]) start) \<and> \<not> timer_scheduled (fold (OnTimer True) (ids @ [0]) start)"
  using OnTimer_busy [OF assms(1)] by (simp add: start_def OnTimer_def)

end
