(* ===== verification/Update_Walk.thy ===== *)
theory Update_Walk
  imports Db_Save Update_Filters
begin

text \<open>
  The update walk (db/update/Walk.cxx, UpdateSong.cxx, Container.cxx, Archive.cxx,
  Playlist.cxx, VirtualDirectory.cxx, Editor.cxx, UpdateIO.cxx, and the scanning part of
  SongUpdate.cxx): it brings the directory tree in line with the files of the storage.

  The storage, the plugins, the clock, the cancel flag and the file system calls are the
  fields of \<open>walk_env\<close>. The walk keeps its \<open>modified\<close> flag, the URIs it has handed to the
  remove service and a count of the events that read the clock or the flag. The directory
  being updated and its ancestors are a cursor: the innermost directory first. An ancestor's
  copy of the child below it is stale while the child is updated and is replaced on the
  way back.
\<close>

section \<open>The environment and the state of a walk\<close>

datatype link_result = NotALink | LinkError | LinkTarget string

record playlist_plugin =
  as_folder :: bool
  open_stream :: "string \<Rightarrow> DetachedSong list option"

record walk_env =
  get_info :: "string \<Rightarrow> StorageFileInfo option"
  open_directory :: "string \<Rightarrow> listing option"
  open_file :: "string \<Rightarrow> string option"
  map_fs :: "string \<Rightarrow> string option"
  map_child_fs :: "string \<Rightarrow> string \<Rightarrow> string option"
  map_to_relative :: "string \<Rightarrow> string option"
  name_to_fs :: "string \<Rightarrow> string option"
  path_to_utf8 :: "string \<Rightarrow> string"
  read_link :: "string \<Rightarrow> link_result"
  readable :: "string \<Rightarrow> bool"
  glob :: "string \<Rightarrow> string \<Rightarrow> bool"
  supports_suffix :: "string \<Rightarrow> bool"
  container_scanners :: "string \<Rightarrow> (string \<Rightarrow> DetachedSong list option) list"
  archive_plugin :: "string \<Rightarrow> nat option"
  archive_entries :: "nat \<Rightarrow> string \<Rightarrow> string list option"
  archive_scan :: "string \<Rightarrow> string \<Rightarrow> Tag option"
  find_playlist_plugin :: "string \<Rightarrow> playlist_plugin option"
  stream_scan :: "string \<Rightarrow> (Tag \<times> AudioFormat) option"
  file_scan :: "string \<Rightarrow> (Tag \<times> AudioFormat) option"
  clock :: "nat \<Rightarrow> time_point"
  cancelled :: "nat \<Rightarrow> bool"
  mode :: ChannelMode
  walk_discard :: bool
  follow_inside_symlinks :: bool
  follow_outside_symlinks :: bool

record walk_state =
  modified :: bool
  removed :: "string list"
  tick :: nat

type_synonym cursor = "directory list"

text \<open>One directory with the state.\<close>

type_synonym dir_st = "directory \<times> walk_state"

definition set_modified :: "dir_st \<Rightarrow> dir_st" where
  "set_modified s = (fst s, (snd s)\<lparr>modified := True\<rparr>)"

section \<open>The editor\<close>

definition DeleteSong :: "Song \<Rightarrow> dir_st \<Rightarrow> dir_st" where
  "DeleteSong s = (\<lambda>(d, st). (RemoveSong (filename s) d, st\<lparr>removed := removed st @ [GetURI (dir d) s]\<rparr>))"

text \<open>What \<open>ClearDirectory\<close> hands to the remove service: sub directories first, then songs.\<close>

fun ClearDirectory :: "directory \<Rightarrow> string list" where
  "ClearDirectory (Directory i cs) = concat (map ClearDirectory cs) @ map (GetURI i) (songs i)"

definition DeleteDirectory :: "string \<Rightarrow> dir_st \<Rightarrow> dir_st" where
  "DeleteDirectory name = (\<lambda>(d, st).
     case FindChild d name of
       None \<Rightarrow> (d, st)
     | Some c \<Rightarrow> (Directory_Delete name d, st\<lparr>removed := removed st @ ClearDirectory c\<rparr>))"

definition DeleteNameIn :: "string \<Rightarrow> dir_st \<Rightarrow> bool \<times> dir_st" where
  "DeleteNameIn name s =
     (let had_child = FindChild (fst s) name \<noteq> None;
          s1 = (if had_child then DeleteDirectory name s else s);
          (found, s2) = (case FindSong (fst s1) name of
              None \<Rightarrow> (False, s1) | Some song \<Rightarrow> (True, DeleteSong song s1));
          d2 = fst s2;
          d3 = Directory ((dir d2)\<lparr>playlists := snd (PlaylistVector_erase name (playlists (dir d2)))\<rparr>) (children d2)
      in (had_child \<or> found, (d3, snd s2)))"

section \<open>Helpers of the walk\<close>

definition directory_set_stat :: "StorageFileInfo \<Rightarrow> directory \<Rightarrow> directory" where
  "directory_set_stat info d = Directory ((dir d)\<lparr>inode := fi_inode info, device := fi_device info\<rparr>) (children d)"

definition update_song :: "string \<Rightarrow> (Song \<Rightarrow> Song) \<Rightarrow> directory \<Rightarrow> directory" where
  "update_song name f d =
     Directory ((dir d)\<lparr>songs := update_first (\<lambda>s. filename s = name) f (songs (dir d))\<rparr>) (children d)"

definition mark_child :: "directory \<Rightarrow> directory" where
  "mark_child d = Directory ((dir d)\<lparr>dir_mark := True\<rparr>) (children d)"

definition excluded :: "walk_env \<Rightarrow> ExcludeList \<Rightarrow> string \<Rightarrow> bool" where
  "excluded env excl name =
     (case name_to_fs env name of None \<Rightarrow> True | Some n \<Rightarrow> ExcludeList_Check (glob env) excl n)"

definition RemoveExcludedFromDirectory :: "walk_env \<Rightarrow> ExcludeList \<Rightarrow> dir_st \<Rightarrow> dir_st" where
  "RemoveExcludedFromDirectory env excl s0 =
     (let s1 = fold (\<lambda>c s. let n = GetName (dir (fst s0)) (dir c) in
                 if excluded env excl n then set_modified (DeleteDirectory n s) else s)
                (children (fst s0)) s0
      in fold (\<lambda>song s. if excluded env excl (filename song) then set_modified (DeleteSong song s) else s)
           (songs (dir (fst s1))) s1)"

definition UnmarkAllIn :: "directory \<Rightarrow> directory" where
  "UnmarkAllIn d =
     Directory ((dir d)\<lparr>songs := map (\<lambda>s. s\<lparr>song_mark := False\<rparr>) (songs (dir d)),
                        playlists := map (\<lambda>p. p\<lparr>pl_mark := False\<rparr>) (playlists (dir d))\<rparr>)
       (map (\<lambda>c. Directory ((dir c)\<lparr>dir_mark := False\<rparr>) (children c)) (children d))"

definition PurgeDeletedFromDirectory :: "dir_st \<Rightarrow> dir_st" where
  "PurgeDeletedFromDirectory s0 =
     (let s1 = fold (\<lambda>c s. if IsMount (dir c) then s
                            else if dir_mark (dir c) then s
                            else set_modified (DeleteDirectory (GetName (dir (fst s0)) (dir c)) s))
                (children (fst s0)) s0;
          s2 = fold (\<lambda>song s. if \<not> song_mark song then set_modified (DeleteSong song s) else s)
                (songs (dir (fst s1))) s1;
          d2 = fst s2
      in (Directory ((dir d2)\<lparr>playlists := filter pl_mark (playlists (dir d2))\<rparr>) (children d2), snd s2))"

text \<open>\<open>update_directory_stat\<close> writes to the ancestor that is examined.\<close>

fun FindAncestorLoop :: "walk_env \<Rightarrow> 64 word \<Rightarrow> 64 word \<Rightarrow> cursor \<Rightarrow> int \<times> cursor" where
  "FindAncestorLoop env ino dev [] = (0, [])"
| "FindAncestorLoop env ino dev (p # ancestors) =
     (if dev = 0 \<and> ino = 0 then (0, p # ancestors)
      else case (if device (dir p) = 0 \<and> inode (dir p) = 0
                 then map_option (\<lambda>info. directory_set_stat info p) (get_info env (path (dir p)))
                 else Some p) of
          None \<Rightarrow> (- 1, p # ancestors)
        | Some p' \<Rightarrow>
            if inode (dir p') = ino \<and> device (dir p') = dev then (1, p' # ancestors)
            else (case FindAncestorLoop env ino dev ancestors of (r, anc') \<Rightarrow> (r, p' # anc')))"

definition skip_path :: "string \<Rightarrow> bool" where
  "skip_path name \<longleftrightarrow> newline \<in> set name"

text \<open>The loop over \<open>./\<close> and \<open>../\<close> in \<open>SkipSymlink\<close>; the list holds the directory and its ancestors.\<close>

function symlink_leaves :: "cursor \<Rightarrow> string \<Rightarrow> bool" where
  "symlink_leaves ds p =
     (if take 3 p = ''../'' then
        (case ds of
           _ # d' # ds' \<Rightarrow> symlink_leaves (d' # ds') (drop 3 p)
         | _ \<Rightarrow> True)
      else if take 2 p = ''./'' then symlink_leaves ds (drop 2 p)
      else False)"
  by pat_completeness auto
termination
  by (relation "measure (\<lambda>(ds, p). length p)") (auto intro!: diff_less)

declare symlink_leaves.simps [simp del]

definition SkipSymlink :: "walk_env \<Rightarrow> cursor \<Rightarrow> string \<Rightarrow> bool" where
  "SkipSymlink env cur name =
     (case map_child_fs env (path (dir (hd cur))) name of
        None \<Rightarrow> False
      | Some path_fs \<Rightarrow>
          (case read_link env path_fs of
             NotALink \<Rightarrow> False
           | LinkError \<Rightarrow> True
           | LinkTarget tgt \<Rightarrow>
               if \<not> follow_inside_symlinks env \<and> \<not> follow_outside_symlinks env then True
               else if follow_inside_symlinks env \<and> follow_outside_symlinks env then False
               else if IsAbsolute tgt then
                 (let target_utf8 = path_to_utf8 env tgt in
                  if target_utf8 = [] then True
                  else case map_to_relative env target_utf8 of
                      Some _ \<Rightarrow> \<not> follow_inside_symlinks env
                    | None \<Rightarrow> \<not> follow_outside_symlinks env)
               else if symlink_leaves cur tgt then \<not> follow_outside_symlinks env
               else \<not> follow_inside_symlinks env))"

definition LoadExcludeListOrLog :: "walk_env \<Rightarrow> dir_info \<Rightarrow> ExcludeList \<Rightarrow> ExcludeList" where
  "LoadExcludeListOrLog env i excl =
     (case open_file env (Build (path i) ''.mpdignore'') of
        None \<Rightarrow> excl | Some content \<Rightarrow> ExcludeList_Load content excl)"

definition directory_child_access :: "walk_env \<Rightarrow> dir_info \<Rightarrow> string \<Rightarrow> bool" where
  "directory_child_access env i name =
     (case map_child_fs env (path i) name of None \<Rightarrow> True | Some p \<Rightarrow> readable env p)"

text \<open>
  \<open>MakeVirtualDirectoryIfModified\<close>: true when it returns the (new, empty) directory, false
  for a null pointer.
\<close>

definition MakeVirtualDirectoryIfModified ::
  "walk_env \<Rightarrow> string \<Rightarrow> StorageFileInfo \<Rightarrow> 64 word \<Rightarrow> dir_st \<Rightarrow> bool \<times> dir_st" where
  "MakeVirtualDirectoryIfModified env name info virtual_device s =
     (let create = (\<lambda>s. (True,
            (update_child name
               (\<lambda>c. Directory ((dir c)\<lparr>dir_mtime := fi_mtime info, device := virtual_device, dir_mark := True\<rparr>)
                      (children c))
               (MakeChild name (fst s)), snd s)))
      in case FindChild (fst s) name of
          Some c \<Rightarrow>
            if IsMount (dir c) then (False, s)
            else if dir_mtime (dir c) = fi_mtime info \<and> device (dir c) = virtual_device \<and> \<not> walk_discard env
            then (False, (update_child name mark_child (fst s), snd s))
            else create (set_modified (DeleteDirectory name s))
        | None \<Rightarrow> create s)"

section \<open>Song files\<close>

text \<open>\<open>Song::UpdateFile\<close>: the tags and the format of the file, unless no plugin reads it.\<close>

definition UpdateFile :: "walk_env \<Rightarrow> dir_info \<Rightarrow> StorageFileInfo \<Rightarrow> Song \<Rightarrow> Song option" where
  "UpdateFile env parent info s =
     (let uri = GetURI parent s in
      map_option (\<lambda>(t, af). s\<lparr>song_mtime := fi_mtime info, audio_format := af, song_tag := t\<rparr>)
        (case map_fs env uri of None \<Rightarrow> stream_scan env uri | Some path_fs \<Rightarrow> file_scan env path_fs))"

definition LoadFile :: "walk_env \<Rightarrow> dir_info \<Rightarrow> string \<Rightarrow> StorageFileInfo \<Rightarrow> Song option" where
  "LoadFile env parent name info = UpdateFile env parent info (Song_new name)"

definition add_tracks :: "(DetachedSong \<Rightarrow> Song) \<Rightarrow> string \<Rightarrow> DetachedSong list \<Rightarrow> directory \<Rightarrow> directory" where
  "add_tracks f name v d = update_child name (fold (\<lambda>t. AddSong (f t)) v) d"

definition UpdateContainerFile ::
  "walk_env \<Rightarrow> string \<Rightarrow> string \<Rightarrow> StorageFileInfo \<Rightarrow> dir_st \<Rightarrow> bool \<times> dir_st" where
  "UpdateContainerFile env name suffix info s =
     (let plugins = container_scanners env suffix in
      if plugins = [] then (False, s)
      else case MakeVirtualDirectoryIfModified env name info DEVICE_CONTAINER s of
          (False, s1) \<Rightarrow> (True, s1)
        | (True, s1) \<Rightarrow>
            (case map_fs env (child_path (dir (fst s1)) name) of
               None \<Rightarrow> (False, DeleteDirectory name s1)
             | Some pathname \<Rightarrow>
                 (let tracks = concat (map (\<lambda>scan. case scan pathname of None \<Rightarrow> [] | Some v \<Rightarrow> v) plugins);
                      s2 = (add_tracks (\<lambda>t. (Song_of_detached t)\<lparr>song_mtime := fi_mtime info\<rparr>) name tracks (fst s1),
                            if tracks = [] then snd s1 else (snd s1)\<lparr>modified := True\<rparr>)
                  in if tracks = [] then (False, DeleteDirectory name s2) else (True, s2))))"

definition UpdateSongFile2 :: "walk_env \<Rightarrow> string \<Rightarrow> string \<Rightarrow> StorageFileInfo \<Rightarrow> dir_st \<Rightarrow> dir_st" where
  "UpdateSongFile2 env name suffix info s =
     (let found = FindSong (fst s) name in
      if \<not> directory_child_access env (dir (fst s)) name then s
      else
        let unmodified = (case found of None \<Rightarrow> False
              | Some song \<Rightarrow> fi_mtime info = song_mtime song \<and> \<not> walk_discard env);
            (contained, s) = (if unmodified then (False, s) else UpdateContainerFile env name suffix info s) in
        if contained then s
        else case found of
            None \<Rightarrow>
              (case LoadFile env (dir (fst s)) name info of
                 None \<Rightarrow> s
               | Some new_song \<Rightarrow>
                   if \<not> ShouldIncludeSong (mode env) new_song then s
                   else
                     let new_song = (ProcessSongTags new_song)\<lparr>song_mark := True, added := clock env (tick (snd s))\<rparr>
                     in (AddSong new_song (fst s), (snd s)\<lparr>modified := True, tick := tick (snd s) + 1\<rparr>))
          | Some song \<Rightarrow>
              if fi_mtime info \<noteq> song_mtime song \<or> walk_discard env then
                (case UpdateFile env (dir (fst s)) info song of
                   Some song' \<Rightarrow>
                     let s' = (update_song name (\<lambda>_. song') (fst s), snd s) in
                     if \<not> ShouldIncludeSong (mode env) song'
                     then set_modified (DeleteSong song' s')
                     else set_modified (update_song name (\<lambda>x. (ProcessSongTags x)\<lparr>song_mark := True\<rparr>) (fst s'), snd s')
                 | None \<Rightarrow> set_modified s)
              else (update_song name (\<lambda>x. x\<lparr>song_mark := True\<rparr>) (fst s), snd s))"

definition UpdateSongFile :: "walk_env \<Rightarrow> string \<Rightarrow> string \<Rightarrow> StorageFileInfo \<Rightarrow> dir_st \<Rightarrow> bool \<times> dir_st" where
  "UpdateSongFile env name suffix info s =
     (if \<not> supports_suffix env suffix then (False, s) else (True, UpdateSongFile2 env name suffix info s))"

section \<open>Archive files\<close>

definition IsAcceptableFilename :: "string \<Rightarrow> bool" where
  "IsAcceptableFilename name \<longleftrightarrow> name \<noteq> [] \<and> newline \<notin> set name"

text \<open>The path of an entry inside its archive: the names up to the directory that is the archive.\<close>

fun archive_entry_path :: "dir_info list \<Rightarrow> string \<Rightarrow> string" where
  "archive_entry_path (d # p # ancestors) name =
     (if device p = DEVICE_INARCHIVE then archive_entry_path (p # ancestors) (GetName p d @ ''/'' @ name) else name)"
| "archive_entry_path _ name = name"

definition UpdateFileInArchive :: "walk_env \<Rightarrow> string \<Rightarrow> dir_info list \<Rightarrow> Song \<Rightarrow> Song option" where
  "UpdateFileInArchive env archive dirs s =
     map_option (\<lambda>t. s\<lparr>song_tag := t\<rparr>) (archive_scan env archive (archive_entry_path dirs (filename s)))"

definition LoadFromArchive :: "walk_env \<Rightarrow> string \<Rightarrow> dir_info list \<Rightarrow> string \<Rightarrow> Song option" where
  "LoadFromArchive env archive dirs name = UpdateFileInArchive env archive dirs (Song_new name)"

function UpdateArchiveTree :: "walk_env \<Rightarrow> string \<Rightarrow> dir_info list \<Rightarrow> string \<Rightarrow> dir_st \<Rightarrow> dir_st" where
  "UpdateArchiveTree env archive ancestors name s =
     (case Split name CHR ''/'' of
        (child_name, Some rest) \<Rightarrow>
          if \<not> IsAcceptableFilename child_name then s
          else
            let d = MakeChild child_name (fst s) in
            (case FindChild d child_name of
               None \<Rightarrow> (d, snd s)
             | Some c \<Rightarrow>
                 (let subdir = Directory ((dir c)\<lparr>device := DEVICE_INARCHIVE\<rparr>) (children c);
                      (subdir', st') = UpdateArchiveTree env archive (dir d # ancestors) rest (subdir, snd s)
                  in (update_child child_name (\<lambda>_. subdir') d, st')))
      | (_, None) \<Rightarrow>
          if \<not> IsAcceptableFilename name then s
          else
            (case FindSong (fst s) name of
               None \<Rightarrow>
                 (case LoadFromArchive env archive (dir (fst s) # ancestors) name of
                    None \<Rightarrow> s
                  | Some new_song \<Rightarrow> set_modified (AddSong new_song (fst s), snd s))
             | Some song \<Rightarrow>
                 (case UpdateFileInArchive env archive (dir (fst s) # ancestors) song of
                    None \<Rightarrow> DeleteSong song s
                  | Some song' \<Rightarrow> (update_song name (\<lambda>_. song') (fst s), snd s))))"
  by pat_completeness auto
termination
  by (relation "measure (\<lambda>(env, archive, ancestors, name, s). length name)") (auto dest: Split_rest_shorter [OF sym])

declare UpdateArchiveTree.simps [simp del]

definition UpdateArchiveFile_plugin ::
  "walk_env \<Rightarrow> dir_info list \<Rightarrow> string \<Rightarrow> StorageFileInfo \<Rightarrow> nat \<Rightarrow> dir_st \<Rightarrow> dir_st" where
  "UpdateArchiveFile_plugin env ancestors name info plugin s =
     (case map_child_fs env (path (dir (fst s))) name of
        None \<Rightarrow> s
      | Some path_fs \<Rightarrow>
          (case MakeVirtualDirectoryIfModified env name info DEVICE_INARCHIVE s of
             (False, s1) \<Rightarrow> s1
           | (True, s1) \<Rightarrow>
               (case (archive_entries env plugin path_fs, FindChild (fst s1) name) of
                  (Some entries, Some c) \<Rightarrow>
                    (let (c', st') = fold (UpdateArchiveTree env path_fs (dir (fst s1) # ancestors)) entries (c, snd s1)
                     in (update_child name (\<lambda>_. mark_child c') (fst s1), st'))
                | _ \<Rightarrow> s1)))"

definition UpdateArchiveFile ::
  "walk_env \<Rightarrow> dir_info list \<Rightarrow> string \<Rightarrow> string \<Rightarrow> StorageFileInfo \<Rightarrow> dir_st \<Rightarrow> bool \<times> dir_st" where
  "UpdateArchiveFile env ancestors name suffix info s =
     (case archive_plugin env suffix of
        None \<Rightarrow> (False, s)
      | Some plugin \<Rightarrow> (True, UpdateArchiveFile_plugin env ancestors name info plugin s))"

section \<open>Playlist files\<close>

text \<open>\<open>fmt::format("track{:04}", n)\<close>\<close>

definition track_name :: "nat \<Rightarrow> string" where
  "track_name n = ''track'' @ replicate (4 - length (fmt_uint n)) CHR ''0'' @ fmt_uint n"

definition playlist_song :: "nat \<Rightarrow> DetachedSong \<Rightarrow> Song" where
  "playlist_song track song =
     (let db_song = Song_of_detached song in
      db_song\<lparr>target := (if IsAbsoluteOrHasScheme (filename db_song) then filename db_song
                         else ''../'' @ filename db_song),
              filename := track_name track\<rparr>)"

fun UpdatePlaylistFile_songs :: "nat \<Rightarrow> DetachedSong list \<Rightarrow> directory \<Rightarrow> directory" where
  "UpdatePlaylistFile_songs track [] d = d"
| "UpdatePlaylistFile_songs track (song # contents) d =
     UpdatePlaylistFile_songs (track + 1) contents (AddSong (playlist_song (track + 1) song) d)"

definition UpdatePlaylistFile_folder ::
  "walk_env \<Rightarrow> string \<Rightarrow> StorageFileInfo \<Rightarrow> playlist_plugin \<Rightarrow> dir_st \<Rightarrow> dir_st" where
  "UpdatePlaylistFile_folder env name info plugin s =
     (case MakeVirtualDirectoryIfModified env name info DEVICE_PLAYLIST s of
        (False, s1) \<Rightarrow> s1
      | (True, s1) \<Rightarrow>
          (case Option.bind (open_file env (child_path (dir (fst s1)) name)) (open_stream plugin) of
             None \<Rightarrow> DeleteDirectory name s1
           | Some contents \<Rightarrow>
               (let s2 = (update_child name (UpdatePlaylistFile_songs 0 contents) (fst s1), snd s1) in
                case FindChild (fst s2) name of
                  Some c \<Rightarrow> if IsEmpty c then DeleteDirectory name s2 else s2
                | None \<Rightarrow> s2)))"

definition UpdatePlaylistFile ::
  "walk_env \<Rightarrow> string \<Rightarrow> string \<Rightarrow> StorageFileInfo \<Rightarrow> dir_st \<Rightarrow> bool \<times> dir_st" where
  "UpdatePlaylistFile env name suffix info s =
     (case find_playlist_plugin env suffix of
        None \<Rightarrow> (False, s)
      | Some plugin \<Rightarrow>
          if StringIsEqualIgnoreCase suffix ''cue'' \<and>
             ShouldIgnoreCueFile (open_file env) (open_directory env) (path (dir (fst s))) name
          then (False, s)
          else if StringIsEqualIgnoreCase suffix ''pls'' \<or> StringIsEqualIgnoreCase suffix ''m3u'' then (False, s)
          else
            let s1 = (if as_folder plugin then UpdatePlaylistFile_folder env name info plugin s else s);
                d1 = fst s1;
                (changed, pv) = UpdateOrInsert (PlaylistInfo_new name (fi_mtime info)) (playlists (dir d1));
                s2 = (Directory ((dir d1)\<lparr>playlists := pv\<rparr>) (children d1), snd s1)
            in (True, if changed then set_modified s2 else s2))"

section \<open>Directories\<close>

definition UpdateRegularFile ::
  "walk_env \<Rightarrow> dir_info list \<Rightarrow> string \<Rightarrow> StorageFileInfo \<Rightarrow> dir_st \<Rightarrow> bool \<times> dir_st" where
  "UpdateRegularFile env ancestors name info s =
     (case GetFilenameSuffix name of
        None \<Rightarrow> (False, s)
      | Some suffix \<Rightarrow>
          (case UpdateSongFile env name suffix info s of
             (True, s1) \<Rightarrow> (True, s1)
           | (False, s1) \<Rightarrow>
               (case UpdateArchiveFile env ancestors name suffix info s1 of
                  (True, s2) \<Rightarrow> (True, s2)
                | (False, s2) \<Rightarrow> UpdatePlaylistFile env name suffix info s2)))"

type_synonym cur_st = "cursor \<times> walk_state"

text \<open>Run an operation on the innermost directory of a cursor.\<close>

definition at_head :: "(dir_st \<Rightarrow> dir_st) \<Rightarrow> cur_st \<Rightarrow> cur_st" where
  "at_head f = (\<lambda>(cur, st). case f (hd cur, st) of (d, st') \<Rightarrow> (d # tl cur, st'))"

text \<open>
  The recursive call to \<open>UpdateDirectory\<close> is the argument \<open>rec\<close>. \<open>None\<close> means that its fuel
  ran out.
\<close>

type_synonym update_directory = "ExcludeList \<Rightarrow> StorageFileInfo \<Rightarrow> cur_st \<Rightarrow> (bool \<times> cur_st) option"

definition UpdateDirectoryChild ::
  "update_directory \<Rightarrow> walk_env \<Rightarrow> ExcludeList \<Rightarrow> string \<Rightarrow> StorageFileInfo \<Rightarrow> cur_st \<Rightarrow> cur_st option" where
  "UpdateDirectoryChild rec env excl name info s =
     (if IsRegular info then
        Some (at_head (\<lambda>ds. snd (UpdateRegularFile env (map dir (tl (fst s))) name info ds)) s)
      else if IsDirectory info then
        (case FindAncestorLoop env (fi_inode info) (fi_device info) (fst s) of
           (found, cur) \<Rightarrow>
             if found \<noteq> 0 then Some (cur, snd s)
             else
               let d = MakeChild name (hd cur) in
               (case FindChild d name of
                  None \<Rightarrow> Some (d # tl cur, snd s)
                | Some subdir \<Rightarrow>
                    (case rec excl info (subdir # d # tl cur, snd s) of
                       None \<Rightarrow> None
                     | Some (ok, cur', st') \<Rightarrow>
                         let s' = (update_child name (\<lambda>_. hd cur') (hd (tl cur')) # tl (tl cur'), st') in
                         Some (if ok then s' else at_head (DeleteDirectory name) s'))))
      else Some s)"

text \<open>The loop over the entries of a directory.\<close>

fun update_entries ::
  "update_directory \<Rightarrow> walk_env \<Rightarrow> ExcludeList \<Rightarrow> listing \<Rightarrow> cur_st \<Rightarrow> cur_st option" where
  "update_entries rec env excl [] s = Some s"
| "update_entries rec env excl ((name, info) # entries) (cur, st) =
     (if cancelled env (tick st) then Some (cur, st)
      else
        let s = (cur, st\<lparr>tick := tick st + 1\<rparr>) in
        if skip_path name then update_entries rec env excl entries s
        else if excluded env excl name then update_entries rec env excl entries s
        else if SkipSymlink env cur name \<or> info = None then
          (let (changed, d, st') = DeleteNameIn name (hd cur, snd s) in
           update_entries rec env excl entries (d # tl cur, st'\<lparr>modified := modified st' \<or> changed\<rparr>))
        else
          (case UpdateDirectoryChild rec env excl name (the info) s of
             None \<Rightarrow> None
           | Some s' \<Rightarrow> update_entries rec env excl entries s'))"

definition UpdateDirectory_body :: "update_directory \<Rightarrow> walk_env \<Rightarrow> update_directory" where
  "UpdateDirectory_body rec env excl info s =
     (let d0 = directory_set_stat info (hd (fst s)); st0 = snd s; ancestors = tl (fst s) in
      case open_directory env (path (dir d0)) of
        None \<Rightarrow> Some (False, d0 # ancestors, st0)
      | Some entries \<Rightarrow>
          (let child_excl = LoadExcludeListOrLog env (dir d0) (ExcludeList_child excl);
               (d1, st1) = (if \<not> ExcludeList_IsEmpty child_excl
                            then RemoveExcludedFromDirectory env child_excl (d0, st0) else (d0, st0))
           in case update_entries rec env child_excl entries (UnmarkAllIn d1 # ancestors, st1) of
                None \<Rightarrow> None
              | Some (cur, st2) \<Rightarrow>
                  (let (d3, st3) = PurgeDeletedFromDirectory (hd cur, st2);
                       d4 = Directory ((dir d3)\<lparr>dir_mtime := fi_mtime info, dir_mark := True\<rparr>) (children d3)
                   in Some (True, d4 # tl cur, st3))))"

fun UpdateDirectory :: "nat \<Rightarrow> walk_env \<Rightarrow> update_directory" where
  "UpdateDirectory 0 env excl info s = None"
| "UpdateDirectory (Suc fuel) env excl info s = UpdateDirectory_body (UpdateDirectory fuel env) env excl info s"

section \<open>Updating one URI\<close>

definition DirectoryMakeChildChecked ::
  "walk_env \<Rightarrow> string \<Rightarrow> string \<Rightarrow> cur_st \<Rightarrow> bool \<times> cur_st" where
  "DirectoryMakeChildChecked env uri name s =
     (case FindChild (hd (fst s)) name of
        Some c \<Rightarrow> if IsMount (dir c) then (False, s) else (True, c # fst s, snd s)
      | None \<Rightarrow>
          (case get_info env uri of
             None \<Rightarrow> (False, s)
           | Some info \<Rightarrow>
               (case FindAncestorLoop env (fi_inode info) (fi_device info) (fst s) of
                  (found, cur) \<Rightarrow>
                    if found \<noteq> 0 then (False, cur, snd s)
                    else if SkipSymlink env cur name then (False, cur, snd s)
                    else
                      let (d, st) = (case FindSong (hd cur) name of
                            Some conflicting \<Rightarrow> DeleteSong conflicting (hd cur, snd s)
                          | None \<Rightarrow> (hd cur, snd s));
                          d' = CreateChild name d
                      in (case FindChild d' name of
                            None \<Rightarrow> (False, d' # tl cur, st)
                          | Some c \<Rightarrow>
                              let c' = directory_set_stat info c in
                              (True, c' # update_child name (\<lambda>_. c') d' # tl cur, st)))))"

text \<open>The component itself, not the path that leads to it, is passed as the URI to stat.\<close>

function DirectoryMakeUriParentChecked :: "walk_env \<Rightarrow> string \<Rightarrow> cur_st \<Rightarrow> bool \<times> cur_st" where
  "DirectoryMakeUriParentChecked env uri s =
     (case Split uri CHR ''/'' of
        (_, None) \<Rightarrow> (True, s)
      | (name, Some rest) \<Rightarrow>
          if name = [] then DirectoryMakeUriParentChecked env rest s
          else (case DirectoryMakeChildChecked env name name s of
                  (False, s') \<Rightarrow> (False, s')
                | (True, s') \<Rightarrow> DirectoryMakeUriParentChecked env rest s'))"
  by pat_completeness auto
termination
  by (relation "measure (\<lambda>(env, uri, s). length uri)") (auto dest: Split_rest_shorter [OF sym])

declare DirectoryMakeUriParentChecked.simps [simp del]

text \<open>Write the directories of a cursor back into the tree.\<close>

fun ascend :: "cursor \<Rightarrow> directory" where
  "ascend [] = NewRoot"
| "ascend [d] = d"
| "ascend (c # p # ancestors) = ascend (update_child (GetName (dir p) (dir c)) (\<lambda>_. c) p # ancestors)"

text \<open>Every list is made by the default constructor: it has no parent.\<close>

fun LoadExcludeLists :: "walk_env \<Rightarrow> cursor \<Rightarrow> ExcludeList list" where
  "LoadExcludeLists env [] = [ExcludeList_empty]"
| "LoadExcludeLists env (d # ancestors) =
     LoadExcludeListOrLog env (dir d) ExcludeList_empty # LoadExcludeLists env ancestors"

definition UpdateUri :: "nat \<Rightarrow> walk_env \<Rightarrow> string \<Rightarrow> dir_st \<Rightarrow> dir_st option" where
  "UpdateUri fuel env uri = (\<lambda>(root, st).
     case DirectoryMakeUriParentChecked env uri ([root], st) of
       (False, cur, st1) \<Rightarrow> Some (ascend cur, st1)
     | (True, cur, st1) \<Rightarrow>
         (let name = GetBase uri in
          if SkipSymlink env cur name \<or> get_info env uri = None then
            (let (changed, d, st2) = DeleteNameIn name (hd cur, st1)
             in Some (ascend (d # tl cur), st2\<lparr>modified := modified st2 \<or> changed\<rparr>))
          else
            map_option (\<lambda>(cur', st'). (ascend cur', st'))
              (UpdateDirectoryChild (UpdateDirectory fuel env) env (hd (LoadExcludeLists env cur))
                 name (the (get_info env uri)) (cur, st1))))"

section \<open>Playlists that point nowhere\<close>

fun chain_at :: "cursor \<Rightarrow> string list \<Rightarrow> cursor" where
  "chain_at chain [] = chain"
| "chain_at [] ns = []"
| "chain_at (d # ancestors) (n # ns) =
     (case FindChild d n of None \<Rightarrow> [] | Some c \<Rightarrow> chain_at (c # d # ancestors) ns)"

text \<open>\<open>LookupTargetSong\<close> as a pointer: the directory's names, innermost last, and the song's name.\<close>

fun target_location :: "directory list \<Rightarrow> string list \<Rightarrow> string \<Rightarrow> (string list \<times> string) option" where
  "target_location [] ns tgt = None"
| "target_location (d # ancestors) ns tgt =
     (case SkipPrefix tgt ''../'' of
        (True, rest) \<Rightarrow> target_location ancestors (butlast ns) rest
      | (False, _) \<Rightarrow>
          (let lr = LookupDirectory d tgt; f = rest_view (lr_rest lr) in
           if FindSong (lr_directory lr) f = None then None else Some (ns @ lr_names lr, f)))"

definition purge_song :: "string list \<Rightarrow> Song \<Rightarrow> dir_st \<Rightarrow> dir_st" where
  "purge_song ns s = (\<lambda>(root, st).
     if target s \<noteq> [] \<and> \<not> IsAbsoluteOrHasScheme (target s) then
       (case target_location (chain_at [root] ns) ns (target s) of
          None \<Rightarrow>
            (update_names ns (RemoveSong (filename s)) root,
             st\<lparr>removed := removed st @ [GetURI (dir (hd (chain_at [root] ns))) s], modified := True\<rparr>)
        | Some (ms, f) \<Rightarrow> (update_names ms (update_song f (\<lambda>x. x\<lparr>in_playlist := True\<rparr>)) root, st))
     else (root, st))"

text \<open>The directories in the order of the recursion: sub directories first.\<close>

fun post_order :: "directory \<Rightarrow> string list list" where
  "post_order (Directory i cs) = concat (map (\<lambda>c. map (Cons (GetName i (dir c))) (post_order c)) cs) @ [[]]"

definition PurgeDanglingFromPlaylists :: "dir_st \<Rightarrow> dir_st" where
  "PurgeDanglingFromPlaylists s0 =
     fold (\<lambda>ns s.
       case lookup_names (fst s) ns of
         None \<Rightarrow> s
       | Some d \<Rightarrow> if IsPlaylist (dir d) then fold (purge_song ns) (songs (dir d)) s else s)
       (post_order (fst s0)) s0"

section \<open>The walk\<close>

definition UpdateWalk_Walk :: "nat \<Rightarrow> walk_env \<Rightarrow> directory \<Rightarrow> string \<Rightarrow> walk_state \<Rightarrow> (bool \<times> dir_st) option" where
  "UpdateWalk_Walk fuel env root uri st0 =
     (let st = st0\<lparr>modified := False\<rparr>;
          finish = (\<lambda>(d, st'). case PurgeDanglingFromPlaylists (ClearInPlaylist d, st') of
              (d', st'') \<Rightarrow> (modified st'', d', st''))
      in if \<not> isRootDirectory uri then map_option finish (UpdateUri fuel env uri (root, st))
         else case get_info env [] of
             None \<Rightarrow> Some (False, root, st)
           | Some info \<Rightarrow>
               if \<not> IsDirectory info then Some (False, root, st)
               else map_option (\<lambda>(_, cur, st'). finish (hd cur, st'))
                      (UpdateDirectory fuel env ExcludeList_empty info ([root], st)))"

end
