(* ===== verification/Update_Invariants.thy ===== *)
theory Update_Invariants
  imports Update_Walk
begin

text \<open>
  What the operations of the update walk keep: the tree stays well-formed, a directory
  keeps its own fields apart from its songs and playlists, and an operation on one name
  leaves the entries of every other name alone. The locale \<open>directory_updater\<close> states what
  the loop over the entries needs of the recursive call; \<open>UpdateDirectory\<close> implements it
  for every amount of fuel.
\<close>

section \<open>Trees\<close>

text \<open>Names are unique and paths follow the names; any directory may be a mount point.\<close>

definition tree_ok :: "directory \<Rightarrow> bool" where
  "tree_ok d \<longleftrightarrow> wf_directory d"

lemma tree_ok_simps:
  "tree_ok (Directory i cs) \<longleftrightarrow>
     path_ok i \<and> distinct (map filename (songs i)) \<and> distinct (map pl_name (playlists i)) \<and>
     distinct (map (\<lambda>c. GetName i (dir c)) cs) \<and> (\<forall>c \<in> set cs. child_ok i (dir c) \<and> tree_ok c)"
  by (auto simp: tree_ok_def)

lemma tree_okD:
  assumes "tree_ok d"
  shows "path_ok (dir d)" "distinct (map filename (songs (dir d)))"
    "distinct (map pl_name (playlists (dir d)))" "distinct (map (\<lambda>c. GetName (dir d) (dir c)) (children d))"
    "\<And>c. c \<in> set (children d) \<Longrightarrow> child_ok (dir d) (dir c) \<and> tree_ok c" "wf_directory d"
  using assms by (cases d; simp add: tree_ok_simps; simp add: tree_ok_def)+

lemma tree_ok_FindChild:
  assumes "tree_ok d" "FindChild d n = Some c"
  shows "tree_ok c" "child_ok (dir d) (dir c)" "GetName (dir d) (dir c) = n" "valid_name n"
    "path (dir c) = child_path (dir d) n"
  using FindChild_SomeD [OF assms(2) tree_okD(6) [OF assms(1)]] tree_okD(5) [OF assms(1)] by auto

lemma tree_ok_new: "\<lbrakk>path_ok i; valid_name n\<rbrakk> \<Longrightarrow> tree_ok (Directory_new (child_path i n) False)"
  unfolding tree_ok_def by (rule wf_new_child)

section \<open>Operations on one name\<close>

text \<open>\<open>keeps i j\<close>: only the songs and the playlists differ.\<close>

definition keeps :: "dir_info \<Rightarrow> dir_info \<Rightarrow> bool" where
  "keeps i j \<longleftrightarrow> j\<lparr>songs := songs i, playlists := playlists i\<rparr> = i"

lemma keepsD:
  assumes "keeps i j"
  shows "path j = path i" "is_root j = is_root i" "inode j = inode i" "device j = device i"
    "mounted_database j = mounted_database i" "dir_mtime j = dir_mtime i" "same_identity i j"
  using assms by (cases i; cases j; simp add: keeps_def same_identity_def)+

lemma keeps_simps [simp]:
  "keeps i i" "keeps i (i\<lparr>songs := x\<rparr>)" "keeps i (i\<lparr>playlists := y\<rparr>)"
  by (simp_all add: keeps_def)

lemma keeps_trans: "\<lbrakk>keeps i j; keeps j k\<rbrakk> \<Longrightarrow> keeps i k"
  by (cases i; cases j; cases k; simp add: keeps_def)

definition same_entries :: "string \<Rightarrow> directory \<Rightarrow> directory \<Rightarrow> bool" where
  "same_entries m d d' \<longleftrightarrow>
     FindChild d' m = FindChild d m \<and> FindSong d' m = FindSong d m \<and>
     PlaylistVector_find m (playlists (dir d')) = PlaylistVector_find m (playlists (dir d))"

definition touches :: "string \<Rightarrow> directory \<Rightarrow> directory \<Rightarrow> bool" where
  "touches n d d' \<longleftrightarrow> tree_ok d' \<and> keeps (dir d) (dir d') \<and> (\<forall>m. m \<noteq> n \<longrightarrow> same_entries m d d')"

lemma same_entries_refl [simp]: "same_entries m d d"
  by (simp add: same_entries_def)

lemma same_entries_trans: "\<lbrakk>same_entries m a b; same_entries m b c\<rbrakk> \<Longrightarrow> same_entries m a c"
  by (simp add: same_entries_def)

lemma touches_refl [simp]: "tree_ok d \<Longrightarrow> touches n d d"
  by (simp add: touches_def)

lemma touches_trans: "\<lbrakk>touches n a b; touches n b c\<rbrakk> \<Longrightarrow> touches n a c"
  unfolding touches_def by (meson keeps_trans same_entries_trans)

lemma touches_ok: "touches n d d' \<Longrightarrow> tree_ok d'"
  by (simp add: touches_def)

lemma touches_keeps: "touches n d d' \<Longrightarrow> keeps (dir d) (dir d')"
  by (simp add: touches_def)

lemma touches_other: "\<lbrakk>touches n d d'; m \<noteq> n\<rbrakk> \<Longrightarrow> same_entries m d d'"
  by (simp add: touches_def)

text \<open>The three ways an operation can change a directory.\<close>

lemma touches_songs:
  assumes "tree_ok d" "distinct (map filename ss)"
    "\<And>m. m \<noteq> n \<Longrightarrow> find (\<lambda>s. filename s = m) ss = FindSong d m"
  shows "touches n d (Directory ((dir d)\<lparr>songs := ss\<rparr>) (children d))"
  using assms by (cases d) (simp add: touches_def tree_ok_simps same_entries_def FindSong_def FindChild_def)

lemma touches_playlists:
  assumes "tree_ok d" "distinct (map pl_name pv)"
    "\<And>m. m \<noteq> n \<Longrightarrow> PlaylistVector_find m pv = PlaylistVector_find m (playlists (dir d))"
  shows "touches n d (Directory ((dir d)\<lparr>playlists := pv\<rparr>) (children d))"
  using assms by (cases d) (simp add: touches_def tree_ok_simps same_entries_def FindSong_def FindChild_def)

lemma touches_children:
  assumes "tree_ok d" "distinct (map (\<lambda>c. GetName (dir d) (dir c)) cs)"
    "\<And>c. c \<in> set cs \<Longrightarrow> child_ok (dir d) (dir c) \<and> tree_ok c"
    "\<And>m. m \<noteq> n \<Longrightarrow> find (\<lambda>c. GetName (dir d) (dir c) = m) cs = FindChild d m"
  shows "touches n d (Directory (dir d) cs)"
  using assms by (cases d) (simp add: touches_def tree_ok_simps same_entries_def FindSong_def FindChild_def)

lemma touches_AddSong:
  assumes "tree_ok d" "FindSong d (filename s) = None" "filename s = n"
  shows "touches n d (AddSong s d)"
  unfolding AddSong_def
proof (rule touches_songs [OF assms(1)])
  show "distinct (map filename (songs (dir d) @ [s]))"
    using assms tree_okD(2) [OF assms(1)] by (intro distinct_map_snoc) (simp_all add: FindSong_def)
  show "find (\<lambda>x. filename x = m) (songs (dir d) @ [s]) = FindSong d m" if "m \<noteq> n" for m
    using song_store.lookup_add [of d s m] assms that by (simp add: FindSong_def AddSong_def)
qed

lemma touches_RemoveSong:
  assumes "tree_ok d"
  shows "touches n d (RemoveSong n d)"
  unfolding RemoveSong_def
proof (rule touches_songs [OF assms])
  note D = tree_okD(2) [OF assms]
  show "distinct (map filename (remove_first (\<lambda>s. filename s = n) (songs (dir d))))"
    using D by (rule distinct_map_remove_first)
  show "find (\<lambda>x. filename x = m) (remove_first (\<lambda>s. filename s = n) (songs (dir d))) = FindSong d m" if "m \<noteq> n" for m
    using find_remove_first [OF D] that by (simp add: FindSong_def)
qed

lemma find_update_first:
  "(\<And>x. key x = n \<Longrightarrow> key (f x) = n) \<Longrightarrow>
    find (\<lambda>x. key x = m) (update_first (\<lambda>x. key x = n) f xs) =
      (if m = n then map_option f (find (\<lambda>x. key x = n) xs) else find (\<lambda>x. key x = m) xs)"
  by (induction xs) auto

lemma FindSong_update_song:
  "(\<And>s. filename s = n \<Longrightarrow> filename (f s) = n) \<Longrightarrow>
    FindSong (update_song n f d) m = (if m = n then map_option f (FindSong d n) else FindSong d m)"
  using find_update_first [of filename n f m "songs (dir d)"] by (simp add: FindSong_def update_song_def)

lemma touches_update_song:
  assumes "tree_ok d" "\<And>s. filename s = n \<Longrightarrow> filename (f s) = n"
  shows "touches n d (update_song n f d)"
  unfolding update_song_def
proof (rule touches_songs [OF assms(1)])
  show "distinct (map filename (update_first (\<lambda>s. filename s = n) f (songs (dir d))))"
    using tree_okD(2) [OF assms(1)] by (subst map_update_first_same) (simp_all add: assms(2))
  show "find (\<lambda>s. filename s = m) (update_first (\<lambda>s. filename s = n) f (songs (dir d))) = FindSong d m" if "m \<noteq> n" for m
    using that by (simp add: find_update_first assms(2) FindSong_def)
qed

lemma touches_CreateChild:
  assumes "tree_ok d" "valid_name n" "FindChild d n = None"
  shows "touches n d (CreateChild n d)"
  unfolding CreateChild_def
proof (rule touches_children [OF assms(1)])
  let ?c = "Directory_new (child_path (dir d) n) False"
  note P = tree_okD(1) [OF assms(1)]
  have name: "GetName (dir d) (dir ?c) = n" using P assms(2) by simp
  show "distinct (map (\<lambda>c. GetName (dir d) (dir c)) (children d @ [?c]))"
    using tree_okD(4) [OF assms(1)] assms(3) name by (intro distinct_map_snoc) (simp_all add: FindChild_def)
  show "child_ok (dir d) (dir c) \<and> tree_ok c" if "c \<in> set (children d @ [?c])" for c
    using that tree_okD(5) [OF assms(1)] child_ok_new [OF P assms(2)] tree_ok_new [OF P assms(2)] by auto
  show "find (\<lambda>c. GetName (dir d) (dir c) = m) (children d @ [?c]) = FindChild d m" if "m \<noteq> n" for m
    using FindChild_CreateChild [OF tree_okD(6) [OF assms(1)] assms(2,3), of m] that
    by (simp add: FindChild_def CreateChild_def)
qed

lemma touches_MakeChild: "\<lbrakk>tree_ok d; valid_name n\<rbrakk> \<Longrightarrow> touches n d (MakeChild n d)"
  by (simp add: MakeChild_def touches_CreateChild split: option.split)

lemma dir_MakeChild [simp]: "dir (MakeChild n d) = dir d"
  by (simp add: MakeChild_def CreateChild_def split: option.split)

lemma FindChild_MakeChild:
  "\<lbrakk>tree_ok d; valid_name n\<rbrakk> \<Longrightarrow> FindChild (MakeChild n d) n =
    (case FindChild d n of None \<Rightarrow> Some (Directory_new (child_path (dir d) n) False) | Some c \<Rightarrow> Some c)"
  by (auto simp: MakeChild_def FindChild_CreateChild tree_okD(6) split: option.split)

lemma touches_Delete:
  assumes "tree_ok d"
  shows "touches n d (Directory_Delete n d)"
  unfolding Directory_Delete_def
proof (rule touches_children [OF assms])
  note D = tree_okD(4) [OF assms]
  let ?cs = "remove_first (\<lambda>c. GetName (dir d) (dir c) = n) (children d)"
  show "distinct (map (\<lambda>c. GetName (dir d) (dir c)) ?cs)" using D by (rule distinct_map_remove_first)
  show "child_ok (dir d) (dir c) \<and> tree_ok c" if "c \<in> set ?cs" for c
    using that tree_okD(5) [OF assms] set_remove_first_subset [of _ "children d"] by blast
  show "find (\<lambda>c. GetName (dir d) (dir c) = m) ?cs = FindChild d m" if "m \<noteq> n" for m
    using find_remove_first [OF D] that by (simp add: FindChild_def)
qed

lemma FindChild_update_child:
  "(\<And>c. GetName (dir d) (dir c) = n \<Longrightarrow> GetName (dir d) (dir (f c)) = n) \<Longrightarrow>
    FindChild (update_child n f d) m = (if m = n then map_option f (FindChild d n) else FindChild d m)"
  using find_update_first [of "\<lambda>c. GetName (dir d) (dir c)" n f m "children d"]
  by (simp add: FindChild_def update_child_def)

lemma update_first_cong: "(\<And>x. \<lbrakk>find P xs = Some x\<rbrakk> \<Longrightarrow> f x = g x) \<Longrightarrow> update_first P f xs = update_first P g xs"
  by (induction xs) auto

text \<open>Only what the function does to the child of that name matters.\<close>

lemma update_child_const:
  "FindChild d n = Some c \<Longrightarrow> update_child n f d = update_child n (\<lambda>_. f c) d"
  unfolding update_child_def FindChild_def
  by (rule arg_cong [where f = "Directory (dir d)"], rule update_first_cong) simp

lemma touches_update_child:
  assumes "tree_ok d"
    "\<And>c. \<lbrakk>FindChild d n = Some c; tree_ok c\<rbrakk> \<Longrightarrow> tree_ok (f c) \<and> same_identity (dir c) (dir (f c))"
  shows "touches n d (update_child n f d)"
proof (cases "FindChild d n")
  case None
  then have "update_child n f d = d"
    by (cases d) (auto simp: update_child_def FindChild_def find_None_iff intro: update_first_none)
  then show ?thesis using assms(1) by simp
next
  case (Some c)
  note C = tree_ok_FindChild [OF assms(1) Some]
  note F = assms(2) [OF Some C(1)]
  let ?cs = "update_first (\<lambda>c. GetName (dir d) (dir c) = n) (\<lambda>_. f c) (children d)"
  have name: "GetName (dir d) (dir (f c)) = n" using F C(3) same_identity_GetName(2) by metis
  have "touches n d (Directory (dir d) ?cs)"
  proof (rule touches_children [OF assms(1)])
    show "distinct (map (\<lambda>c. GetName (dir d) (dir c)) ?cs)"
      using tree_okD(4) [OF assms(1)] by (subst map_update_first_same) (simp_all add: name)
    show "child_ok (dir d) (dir x) \<and> tree_ok x" if "x \<in> set ?cs" for x
    proof -
      have "child_ok (dir d) (dir (f c))" using C(2) F same_identity_ok(3) by metis
      then show ?thesis
        using that F set_update_first_subset [of _ "\<lambda>_. f c" "children d"] tree_okD(5) [OF assms(1)] by blast
    qed
    show "find (\<lambda>c. GetName (dir d) (dir c) = m) ?cs = FindChild d m" if "m \<noteq> n" for m
      using that by (simp add: find_update_first name FindChild_def)
  qed
  then show ?thesis unfolding update_child_const [of d n c f, OF Some] by (simp add: update_child_def)
qed

section \<open>The editor\<close>

lemma dir_DeleteDirectory [simp]: "dir (fst (DeleteDirectory n s)) = dir (fst s)"
  by (simp add: DeleteDirectory_def Directory_Delete_def split: prod.split option.split)

lemma fst_set_modified [simp]: "fst (set_modified s) = fst s"
  by (simp add: set_modified_def)

lemma fst_DeleteSong: "fst (DeleteSong x s) = RemoveSong (filename x) (fst s)"
  by (simp add: DeleteSong_def split: prod.split)

lemma fst_DeleteDirectory: "tree_ok (fst s) \<Longrightarrow> fst (DeleteDirectory n s) = Directory_Delete n (fst s)"
  by (cases "fst s") (auto simp: DeleteDirectory_def Directory_Delete_def FindChild_def find_None_iff
      remove_first_none split: prod.split option.split)

lemma touches_DeleteSong: "\<lbrakk>tree_ok (fst s); filename x = n\<rbrakk> \<Longrightarrow> touches n (fst s) (fst (DeleteSong x s))"
  using touches_RemoveSong by (auto simp: fst_DeleteSong)

lemma touches_DeleteDirectory: "tree_ok (fst s) \<Longrightarrow> touches n (fst s) (fst (DeleteDirectory n s))"
  by (simp add: fst_DeleteDirectory touches_Delete)

lemma FindChild_DeleteDirectory:
  "tree_ok (fst s) \<Longrightarrow> FindChild (fst (DeleteDirectory n s)) m = (if m = n then None else FindChild (fst s) m)"
  using child_store.lookup_erase [of "fst s" n m] tree_okD(4) [of "fst s"] by (simp add: fst_DeleteDirectory)

lemma FindSong_RemoveSong:
  "tree_ok d \<Longrightarrow> FindSong (RemoveSong n d) m = (if m = n then None else FindSong d m)"
  using song_store.lookup_erase [of d n m] tree_okD(2) [of d] by simp

lemma touches_erase:
  assumes "tree_ok d"
  shows "touches n d (Directory ((dir d)\<lparr>playlists := snd (PlaylistVector_erase n (playlists (dir d)))\<rparr>) (children d))"
  using assms tree_okD(3) [OF assms] playlist_store.lookup_erase [OF tree_okD(3) [OF assms]]
    playlist_store.invar_erase [of "playlists (dir d)" n]
  by (intro touches_playlists) simp_all

lemma FindSong_same_dir: "songs (dir d) = songs (dir e) \<Longrightarrow> FindSong d = FindSong e"
  by (simp add: FindSong_def fun_eq_iff)

lemma DeleteNameIn_steps:
  "fst (snd (DeleteNameIn n s)) =
     (let d1 = (if FindChild (fst s) n \<noteq> None then fst (DeleteDirectory n s) else fst s);
          d2 = (if FindSong d1 n \<noteq> None then RemoveSong n d1 else d1)
      in Directory ((dir d2)\<lparr>playlists := snd (PlaylistVector_erase n (playlists (dir d2)))\<rparr>) (children d2))"
  using song_store.lookup_key [of _ n]
  by (auto simp: DeleteNameIn_def Let_def fst_DeleteSong split: option.split prod.split)

lemma touches_DeleteNameIn:
  assumes "tree_ok (fst s)"
  shows "touches n (fst s) (fst (snd (DeleteNameIn n s)))"
proof -
  define d1 where "d1 = (if FindChild (fst s) n \<noteq> None then fst (DeleteDirectory n s) else fst s)"
  define d2 where "d2 = (if FindSong d1 n \<noteq> None then RemoveSong n d1 else d1)"
  have 1: "touches n (fst s) d1" using assms by (simp add: d1_def touches_DeleteDirectory)
  moreover have 2: "touches n d1 d2" using touches_ok [OF 1] by (simp add: d2_def touches_RemoveSong)
  moreover note touches_erase [OF touches_ok [OF 2], of n]
  ultimately show ?thesis
    unfolding DeleteNameIn_steps Let_def d1_def [symmetric] d2_def [symmetric] by (blast intro: touches_trans)
qed

section \<open>Virtual directories\<close>

lemma tree_ok_set_songs:
  "\<lbrakk>tree_ok d; distinct (map filename ss)\<rbrakk> \<Longrightarrow> tree_ok (Directory ((dir d)\<lparr>songs := ss\<rparr>) (children d))"
  by (cases d) (simp add: tree_ok_simps)

text \<open>A directory to which nothing has been added yet.\<close>

definition virgin :: "directory \<Rightarrow> bool" where
  "virgin c \<longleftrightarrow> songs (dir c) = [] \<and> playlists (dir c) = [] \<and> children c = []"

lemma tree_ok_virgin_songs:
  "\<lbrakk>virgin c; tree_ok c; distinct (map filename ss)\<rbrakk> \<Longrightarrow>
    tree_ok (Directory ((dir c)\<lparr>songs := songs (dir c) @ ss\<rparr>) (children c))"
  using tree_ok_set_songs [of c ss] by (simp add: virgin_def)

lemma tree_ok_set_fields:
  "tree_ok d \<Longrightarrow> tree_ok (Directory ((dir d)\<lparr>dir_mtime := t, device := v, dir_mark := b\<rparr>) (children d))"
  "tree_ok d \<Longrightarrow> tree_ok (Directory ((dir d)\<lparr>dir_mtime := t, dir_mark := b\<rparr>) (children d))"
  "tree_ok d \<Longrightarrow> tree_ok (Directory ((dir d)\<lparr>inode := w, device := v\<rparr>) (children d))"
  "tree_ok d \<Longrightarrow> tree_ok (Directory ((dir d)\<lparr>device := v\<rparr>) (children d))"
  "tree_ok d \<Longrightarrow> tree_ok (Directory ((dir d)\<lparr>dir_mark := b\<rparr>) (children d))"
  by (cases d; simp add: tree_ok_simps)+

text \<open>Whether or not it was modified, the directory of that name is marked afterwards.\<close>

lemma MakeVirtualDirectoryIfModified_touches:
  assumes "tree_ok (fst s)" "valid_name n" "MakeVirtualDirectoryIfModified env n info dev s = (b, s')"
  shows "touches n (fst s) (fst s') \<and> dir (fst s') = dir (fst s) \<and>
    (b \<longrightarrow> (\<exists>c. FindChild (fst s') n = Some c \<and> virgin c))"
proof -
  let ?f = "\<lambda>c. Directory ((dir c)\<lparr>dir_mtime := fi_mtime info, device := dev, dir_mark := True\<rparr>) (children c)"
  have create: "touches n d (update_child n ?f (MakeChild n d)) \<and>
      (\<exists>c. FindChild (update_child n ?f (MakeChild n d)) n = Some c \<and> virgin c)"
    if "tree_ok d" "FindChild d n = None" for d
  proof
    have M: "touches n d (MakeChild n d)" using that(1) assms(2) by (rule touches_MakeChild)
    moreover have "touches n (MakeChild n d) (update_child n ?f (MakeChild n d))"
      using touches_ok [OF M] by (intro touches_update_child) (simp_all add: tree_ok_set_fields same_identity_def)
    ultimately show "touches n d (update_child n ?f (MakeChild n d))" by (rule touches_trans)
    show "\<exists>c. FindChild (update_child n ?f (MakeChild n d)) n = Some c \<and> virgin c"
      using that assms(2) FindChild_update_child [of "MakeChild n d" n ?f n]
      by (simp add: FindChild_MakeChild virgin_def Directory_new_def)
  qed
  show ?thesis
  proof (cases "FindChild (fst s) n")
    case None
    then show ?thesis using create [OF assms(1)] assms(3) by (auto simp: MakeVirtualDirectoryIfModified_def)
  next
    case (Some c)
    note D = touches_DeleteDirectory [OF assms(1), of n]
    have "touches n (fst s) (update_child n mark_child (fst s))"
      using assms(1) by (intro touches_update_child) (simp_all add: mark_child_def tree_ok_set_fields)
    moreover have "touches n (fst s) (update_child n ?f (MakeChild n (fst (DeleteDirectory n s))))"
      "\<exists>c. FindChild (update_child n ?f (MakeChild n (fst (DeleteDirectory n s)))) n = Some c \<and> virgin c"
      using create [OF touches_ok [OF D]] FindChild_DeleteDirectory [OF assms(1), of n n] touches_trans [OF D] by auto
    ultimately show ?thesis
      using assms(1,3) Some by (auto simp: MakeVirtualDirectoryIfModified_def split: if_splits)
  qed
qed

lemma fold_AddSong:
  "fold (\<lambda>t. AddSong (f t)) v d = Directory ((dir d)\<lparr>songs := songs (dir d) @ map f v\<rparr>) (children d)"
  by (induction v arbitrary: d) (simp_all add: AddSong_def)

section \<open>What the environment is relied on for\<close>

text \<open>
  The names a storage lists are file names; the tracks that the plugins find in one
  container have different names.
\<close>

definition names_valid :: "walk_env \<Rightarrow> bool" where
  "names_valid env \<longleftrightarrow> (\<forall>p es. open_directory env p = Some es \<longrightarrow> (\<forall>e \<in> set es. valid_name (fst e)))"

definition tracks_distinct :: "walk_env \<Rightarrow> bool" where
  "tracks_distinct env \<longleftrightarrow> (\<forall>suffix p. distinct (map ds_uri (concat
     (map (\<lambda>scan. case scan p of None \<Rightarrow> [] | Some v \<Rightarrow> v) (container_scanners env suffix)))))"

definition env_ok :: "walk_env \<Rightarrow> bool" where
  "env_ok env \<longleftrightarrow> names_valid env \<and> tracks_distinct env"

section \<open>Song files\<close>

lemma UpdateFile_SomeD:
  assumes "UpdateFile env i info x = Some y"
  shows "filename y = filename x" "song_mtime y = fi_mtime info" "added y = added x" "song_mark y = song_mark x"
  using assms by (auto simp: UpdateFile_def Let_def split: option.splits)

lemma ProcessSongTags_id [simp]: "ProcessSongTags x = x"
  by (simp add: ProcessSongTags_def)

lemma LoadFile_SomeD:
  assumes "LoadFile env i n info = Some y"
  shows "filename y = n" "song_mtime y = fi_mtime info"
  using UpdateFile_SomeD [of env i info "Song_new n" y] assms by (simp_all add: LoadFile_def Song_new_def)

lemma UpdateContainerFile_touches:
  assumes "tree_ok (fst s)" "valid_name n" "env_ok env" "UpdateContainerFile env n suffix info s = (b, s')"
  shows "touches n (fst s) (fst s') \<and> dir (fst s') = dir (fst s)"
proof -
  obtain b1 s1 where M: "MakeVirtualDirectoryIfModified env n info DEVICE_CONTAINER s = (b1, s1)" by (meson surj_pair)
  note V = MakeVirtualDirectoryIfModified_touches [OF assms(1,2) M]
  have del: "touches n (fst s) (fst (DeleteDirectory n t))" if "touches n (fst s) (fst t)" for t
    using that touches_DeleteDirectory touches_ok touches_trans by blast
  let ?f = "\<lambda>t. (Song_of_detached t)\<lparr>song_mtime := fi_mtime info\<rparr>"
  have add: "touches n (fst s) (add_tracks ?f n v (fst s1))" if b: b1 and v: "distinct (map ds_uri v)" for v
  proof -
    obtain c where c: "FindChild (fst s1) n = Some c" "virgin c" using V b by blast
    have "distinct (map filename (map ?f v))" using v by (simp add: Song_of_detached_def comp_def)
    then have "touches n (fst s1) (add_tracks ?f n v (fst s1))"
      unfolding add_tracks_def fold_AddSong using V c touches_ok tree_ok_virgin_songs
      by (intro touches_update_child) (auto simp del: map_map)
    then show ?thesis using V touches_trans by blast
  qed
  have tracks: "distinct (map ds_uri (concat
     (map (\<lambda>scan. case scan p of None \<Rightarrow> [] | Some v \<Rightarrow> v) (container_scanners env suffix))))" for p
    using assms(3) by (auto simp: env_ok_def tracks_distinct_def)
  show ?thesis
    using assms(4) V M add [OF _ tracks] del [of s1, OF conjunct1 [OF V]] del [of "(d, st)" for d st] assms(1)
    unfolding UpdateContainerFile_def Let_def
    by (auto simp: add_tracks_def split: if_splits option.splits bool.splits)
qed

lemma UpdateSongFile2_touches:
  assumes "tree_ok (fst s)" "valid_name n" "env_ok env"
  shows "touches n (fst s) (fst (UpdateSongFile2 env n suffix info s))"
proof -
  define contained s1 where "contained = fst (UpdateContainerFile env n suffix info s)"
    and "s1 = snd (UpdateContainerFile env n suffix info s)"
  have C: "UpdateContainerFile env n suffix info s = (contained, s1)" by (simp add: contained_def s1_def)
  note T = UpdateContainerFile_touches [OF assms C]
  have songs: "FindSong (fst s1) = FindSong (fst s)" using T by (intro FindSong_same_dir) simp
  have new: "touches n (fst s) (AddSong x (fst t))"
    if "touches n (fst s) (fst t)" "FindSong (fst t) n = None" "filename x = n" for x t
    using touches_trans [OF that(1) touches_AddSong] that touches_ok by simp
  have upd: "touches n (fst s) (update_song n f (fst t))"
    if "touches n (fst s) (fst t)" "\<And>x. filename x = n \<Longrightarrow> filename (f x) = n" for f t
    using touches_trans [OF that(1) touches_update_song] that touches_ok by blast
  have del: "touches n (fst s) (fst (DeleteSong x t))"
    if "touches n (fst s) (fst t)" "filename x = n" for x t
    using touches_trans [OF that(1) touches_DeleteSong] that touches_ok by blast
  show ?thesis
  proof (cases "FindSong (fst s) n")
    case None
    have *: "touches n (fst s) (fst (case LoadFile env (dir (fst s1)) n info of
         None \<Rightarrow> s1
       | Some new_song \<Rightarrow>
           if \<not> ShouldIncludeSong (mode env) new_song then s1
           else (AddSong (new_song\<lparr>song_mark := True, added := clock env (tick (snd s1))\<rparr>) (fst s1),
                 (snd s1)\<lparr>modified := True, tick := tick (snd s1) + 1\<rparr>)))"
      using T songs None by (auto dest: LoadFile_SomeD intro!: new split: option.split)
    show ?thesis
      using None C T * assms(1) unfolding UpdateSongFile2_def Let_def ProcessSongTags_id by simp
  next
    case (Some song)
    have key: "filename song = n" using Some by (rule song_store.lookup_key)
    have *: "touches n (fst s) (fst (case UpdateFile env (dir (fst s1)) info song of
         Some song' \<Rightarrow>
           if \<not> ShouldIncludeSong (mode env) song'
           then set_modified (DeleteSong song' (update_song n (\<lambda>_. song') (fst s1), snd s1))
           else set_modified (update_song n (\<lambda>x. x\<lparr>song_mark := True\<rparr>) (update_song n (\<lambda>_. song') (fst s1)), snd s1)
       | None \<Rightarrow> set_modified s1))"
    proof (cases "UpdateFile env (dir (fst s1)) info song")
      case (Some song')
      have "filename song' = n" using UpdateFile_SomeD(1) [OF Some] key by simp
      then show ?thesis
        using Some T upd [of s1 "\<lambda>_. song'"] upd [of "(update_song n (\<lambda>_. song') (fst s1), st)" for st]
          del [of "(update_song n (\<lambda>_. song') (fst s1), snd s1)" song']
        by simp
    qed (use T in simp)
    show ?thesis
      using Some C T * assms(1) upd [of s "\<lambda>x. x\<lparr>song_mark := True\<rparr>"]
      unfolding UpdateSongFile2_def Let_def ProcessSongTags_id fst_conv snd_conv by simp
  qed
qed

lemma UpdateSongFile_touches:
  "\<lbrakk>tree_ok (fst s); valid_name n; env_ok env\<rbrakk> \<Longrightarrow>
    touches n (fst s) (fst (snd (UpdateSongFile env n suffix info s)))"
  by (simp add: UpdateSongFile_def UpdateSongFile2_touches)

section \<open>Archives and playlists\<close>

lemma UpdateFileInArchive_filename:
  "UpdateFileInArchive env archive dirs x = Some y \<Longrightarrow> filename y = filename x"
  by (auto simp: UpdateFileInArchive_def)

lemma LoadFromArchive_filename: "LoadFromArchive env archive dirs n = Some y \<Longrightarrow> filename y = n"
  using UpdateFileInArchive_filename [of env archive dirs "Song_new n" y] by (simp add: LoadFromArchive_def Song_new_def)

lemma Split_valid_name: "\<lbrakk>Split s SEPARATOR = (a, r); a \<noteq> []\<rbrakk> \<Longrightarrow> valid_name a"
  by (auto simp: Split_def valid_name_def split: if_splits dest: set_takeWhileD)

lemma UpdateArchiveTree_ok:
  "tree_ok (fst s) \<Longrightarrow> tree_ok (fst (UpdateArchiveTree env archive ancestors name s)) \<and>
     keeps (dir (fst s)) (dir (fst (UpdateArchiveTree env archive ancestors name s)))"
proof (induction env archive ancestors name s rule: UpdateArchiveTree.induct)
  case (1 env archive ancestors name s)
  obtain child r where S: "Split name CHR ''/'' = (child, r)" by (meson surj_pair)
  have touched: "tree_ok d \<and> keeps (dir (fst s)) (dir d)" if "touches m (fst s) d" for m d
    using that by (simp add: touches_def)
  show ?case
  proof (cases r)
    case None
    have "touches name (fst s) (fst (UpdateArchiveTree env archive ancestors name s))"
      using 1(2) None S
      by (subst UpdateArchiveTree.simps)
        (auto simp: song_store.lookup_key dest: LoadFromArchive_filename UpdateFileInArchive_filename
          intro!: touches_AddSong touches_DeleteSong touches_update_song split: option.split)
    then show ?thesis by (rule touched)
  next
    case (Some rest)
    show ?thesis
    proof (cases "IsAcceptableFilename child")
      case False
      then show ?thesis using Some S 1(2) by (subst (1 2) UpdateArchiveTree.simps) simp
    next
      case True
      then have v: "valid_name child" using Split_valid_name [OF S] by (simp add: IsAcceptableFilename_def)
      note M = touches_MakeChild [OF 1(2) v]
      obtain c where c: "FindChild (MakeChild child (fst s)) child = Some c"
        using FindChild_MakeChild [OF 1(2) v] by (auto split: option.splits)
      let ?sub = "Directory ((dir c)\<lparr>device := DEVICE_INARCHIVE\<rparr>) (children c)"
      let ?res = "UpdateArchiveTree env archive (dir (MakeChild child (fst s)) # ancestors) rest (?sub, snd s)"
      note C = tree_ok_FindChild [OF touches_ok [OF M] c]
      have sub: "tree_ok (fst ?res) \<and> keeps (dir ?sub) (dir (fst ?res))"
        using 1(1) [OF S [symmetric] Some] True c C(1) by (simp add: tree_ok_set_fields)
      have "touches child (MakeChild child (fst s)) (update_child child (\<lambda>_. fst ?res) (MakeChild child (fst s)))"
        using touches_ok [OF M] sub keepsD(7) c
        by (intro touches_update_child) (auto simp: same_identity_def dest: keepsD)
      then have "touches child (fst s) (fst (UpdateArchiveTree env archive ancestors name s))"
        using Some S True c M
        by (subst UpdateArchiveTree.simps) (auto simp: Let_def case_prod_unfold intro: touches_trans)
      then show ?thesis by (rule touched)
    qed
  qed
qed

lemma fold_UpdateArchiveTree_ok:
  "tree_ok (fst s) \<Longrightarrow> tree_ok (fst (fold (UpdateArchiveTree env archive ancestors) es s)) \<and>
     keeps (dir (fst s)) (dir (fst (fold (UpdateArchiveTree env archive ancestors) es s)))"
  by (rule fold_invariant_set [where P = "\<lambda>t. tree_ok (fst t) \<and> keeps (dir (fst s)) (dir (fst t))"])
    (auto dest: UpdateArchiveTree_ok intro: keeps_trans)

lemma UpdateArchiveFile_touches:
  assumes "tree_ok (fst s)" "valid_name n"
  shows "touches n (fst s) (fst (snd (UpdateArchiveFile env ancestors n suffix info s)))"
proof -
  obtain b s1 where M: "MakeVirtualDirectoryIfModified env n info DEVICE_INARCHIVE s = (b, s1)" by (meson surj_pair)
  note V = MakeVirtualDirectoryIfModified_touches [OF assms M]
  have "touches n (fst s1) (update_child n (\<lambda>_. mark_child
      (fst (fold (UpdateArchiveTree env a (dir (fst s1) # ancestors)) es (c, snd s1)))) (fst s1))"
    if "FindChild (fst s1) n = Some c" for c es a
    using that V fold_UpdateArchiveTree_ok [of "(c, snd s1)" env a "dir (fst s1) # ancestors" es]
    by (intro touches_update_child)
      (auto simp: touches_ok mark_child_def tree_ok_set_fields same_identity_def dest: keepsD)
  then show ?thesis
    using M V assms(1)
    by (auto simp: UpdateArchiveFile_def UpdateArchiveFile_plugin_def case_prod_unfold Let_def
        intro: touches_trans split: option.split bool.split)
qed

text \<open>The names of the songs of a playlist are different from each other.\<close>

lemma digits_val_zeros: "digits_val (replicate k CHR ''0'' @ s) = digits_val s"
proof -
  have "foldl (\<lambda>a c. 10 * a + digit_val c) 0 (replicate k CHR ''0'') = 0"
    by (induction k) (simp_all add: digit_val_def)
  then show ?thesis by (simp add: digits_val_def)
qed

lemma track_name_inj: "track_name m = track_name n \<longleftrightarrow> m = n"
proof
  assume "track_name m = track_name n"
  then have "digits_val (replicate (4 - length (fmt_uint m)) CHR ''0'' @ fmt_uint m) =
      digits_val (replicate (4 - length (fmt_uint n)) CHR ''0'' @ fmt_uint n)"
    by (simp add: track_name_def)
  then show "m = n" by (simp add: digits_val_zeros)
qed simp

lemma UpdatePlaylistFile_songs_eq:
  "UpdatePlaylistFile_songs k contents d =
     Directory ((dir d)\<lparr>songs := songs (dir d) @ map2 playlist_song [Suc k..<Suc k + length contents] contents\<rparr>) (children d)"
proof (induction contents arbitrary: k d)
  case (Cons song contents)
  have "[Suc k..<Suc k + length (song # contents)] = Suc k # [Suc (Suc k)..<Suc (Suc k) + length contents]"
    by (subst upt_rec) (simp del: upt_Suc)
  then show ?case using Cons by (simp add: AddSong_def del: upt_Suc)
qed simp

lemma filename_playlist_song [simp]: "filename (playlist_song k song) = track_name k"
  by (simp add: playlist_song_def Let_def)

lemma playlist_songs_distinct:
  "length ks = length contents \<Longrightarrow> distinct ks \<Longrightarrow> distinct (map filename (map2 playlist_song ks contents))"
proof -
  assume "length ks = length contents" "distinct ks"
  then have "map filename (map2 playlist_song ks contents) = map track_name ks"
    by (induction ks contents rule: list_induct2) simp_all
  then show ?thesis using \<open>distinct ks\<close> by (simp add: distinct_map inj_on_def track_name_inj)
qed

lemma UpdatePlaylistFile_folder_touches:
  assumes "tree_ok (fst s)" "valid_name n"
  shows "touches n (fst s) (fst (UpdatePlaylistFile_folder env n info plugin s)) \<and>
    dir (fst (UpdatePlaylistFile_folder env n info plugin s)) = dir (fst s)"
proof -
  obtain b s1 where M: "MakeVirtualDirectoryIfModified env n info DEVICE_PLAYLIST s = (b, s1)" by (meson surj_pair)
  note V = MakeVirtualDirectoryIfModified_touches [OF assms M]
  have del: "touches n (fst s) (fst (DeleteDirectory n t))" if "touches n (fst s) (fst t)" for t
    using that touches_DeleteDirectory touches_ok touches_trans by blast
  have "touches n (fst s1) (update_child n (UpdatePlaylistFile_songs 0 contents) (fst s1))" if b for contents
  proof -
    obtain c where c: "FindChild (fst s1) n = Some c" "virgin c" using V \<open>b\<close> by blast
    show ?thesis
      using V c touches_ok unfolding UpdatePlaylistFile_songs_eq
      by (intro touches_update_child) (auto intro!: tree_ok_virgin_songs playlist_songs_distinct)
  qed
  then have "touches n (fst s) (update_child n (UpdatePlaylistFile_songs 0 contents) (fst s1))" if b for contents
    using that V touches_trans by blast
  then show ?thesis
    using M V del [of s1, OF conjunct1 [OF V]] del [of "(d, st)" for d st]
    by (auto simp: UpdatePlaylistFile_folder_def Let_def split: option.split bool.split)
qed

lemma UpdateOrInsert_touches:
  assumes "tree_ok d" "pl_name pi = n"
  shows "touches n d (Directory ((dir d)\<lparr>playlists := snd (UpdateOrInsert pi (playlists (dir d)))\<rparr>) (children d))"
proof (rule touches_playlists [OF assms(1)])
  note D = tree_okD(3) [OF assms(1)]
  let ?pv = "playlists (dir d)"
  show "distinct (map pl_name (snd (UpdateOrInsert pi ?pv)))"
    using D assms(2) by (auto simp: UpdateOrInsert_def PlaylistVector_find_def map_update_first_same
        find_None_iff_map split: option.split)
  show "PlaylistVector_find m (snd (UpdateOrInsert pi ?pv)) = PlaylistVector_find m ?pv" if "m \<noteq> n" for m
    using that assms(2) find_snoc [of pl_name "pi\<lparr>pl_mark := True\<rparr>" ?pv m]
    by (auto simp: UpdateOrInsert_def PlaylistVector_find_def find_update_first split: option.split)
qed

lemma UpdatePlaylistFile_touches:
  assumes "tree_ok (fst s)" "valid_name n"
  shows "touches n (fst s) (fst (snd (UpdatePlaylistFile env n suffix info s)))"
proof -
  have "touches n (fst s) (Directory ((dir d)\<lparr>playlists :=
      snd (UpdateOrInsert (PlaylistInfo_new n (fi_mtime info)) (playlists (dir d)))\<rparr>) (children d))"
    if "touches n (fst s) d" for d
    by (rule touches_trans [OF that UpdateOrInsert_touches]) (use that in \<open>simp_all add: touches_ok PlaylistInfo_new_def\<close>)
  moreover note UpdatePlaylistFile_folder_touches [OF assms, of env info]
  ultimately show ?thesis
    using assms(1) by (auto simp: UpdatePlaylistFile_def Let_def case_prod_unfold split: option.split)
qed

lemma UpdateRegularFile_touches:
  assumes "tree_ok (fst s)" "valid_name n" "env_ok env"
  shows "touches n (fst s) (fst (snd (UpdateRegularFile env ancestors n info s)))"
proof (cases "GetFilenameSuffix n")
  case None
  then show ?thesis using assms(1) by (simp add: UpdateRegularFile_def)
next
  case (Some suffix)
  obtain b1 s1 where s1: "UpdateSongFile env n suffix info s = (b1, s1)" by (meson surj_pair)
  obtain b2 s2 where s2: "UpdateArchiveFile env ancestors n suffix info s1 = (b2, s2)" by (meson surj_pair)
  have T1: "touches n (fst s) (fst s1)" using UpdateSongFile_touches [OF assms, of suffix info] s1 by simp
  moreover have T2: "touches n (fst s1) (fst s2)"
    using UpdateArchiveFile_touches [OF touches_ok [OF T1] assms(2), of env ancestors suffix info] s2 by simp
  moreover have "touches n (fst s2) (fst (snd (UpdatePlaylistFile env n suffix info s2)))"
    using touches_ok [OF T2] assms(2) by (rule UpdatePlaylistFile_touches)
  ultimately show ?thesis
    using Some s1 s2 by (auto simp: UpdateRegularFile_def intro: touches_trans split: bool.split)
qed

section \<open>Deleting many entries\<close>

text \<open>
  The loops of \<open>ForEachChildSafe\<close> and \<open>ForEachSongSafe\<close> that delete what satisfies a
  predicate: what is left, and what the remove service is told.
\<close>

definition log_removal :: "string list \<Rightarrow> bool \<Rightarrow> walk_state \<Rightarrow> walk_state" where
  "log_removal uris b st = st\<lparr>removed := removed st @ uris, modified := modified st \<or> b\<rparr>"

lemma log_removal_simps [simp]:
  "log_removal [] False st = st"
  "log_removal us b (log_removal vs c st) = log_removal (vs @ us) (c \<or> b) st"
  by (simp_all add: log_removal_def disj_assoc)

lemma filter_neq_key:
  "\<lbrakk>distinct (map f xs); x \<in> set xs\<rbrakk> \<Longrightarrow> filter (\<lambda>y. f y \<noteq> f x) xs = filter (\<lambda>y. y \<noteq> x) xs"
  by (rule filter_cong) (auto simp: distinct_map inj_on_def)

lemma DeleteDirectory_member:
  assumes "tree_ok d" "c \<in> set (children d)"
  shows "set_modified (DeleteDirectory (GetName (dir d) (dir c)) (d, st)) =
    (Directory (dir d) (filter (\<lambda>x. x \<noteq> c) (children d)), log_removal (ClearDirectory c) True st)"
  using FindChild_member [OF tree_okD(6) [OF assms(1)] assms(2)] remove_first_conv_filter [OF tree_okD(4) [OF assms(1)]]
    filter_neq_key [OF tree_okD(4) [OF assms(1)] assms(2)]
  by (simp add: DeleteDirectory_def set_modified_def Directory_Delete_def log_removal_def)

lemma DeleteSong_member:
  assumes "tree_ok d" "x \<in> set (songs (dir d))"
  shows "set_modified (DeleteSong x (d, st)) =
    (Directory ((dir d)\<lparr>songs := filter (\<lambda>y. y \<noteq> x) (songs (dir d))\<rparr>) (children d),
     log_removal [GetURI (dir d) x] True st)"
  using remove_first_conv_filter [OF tree_okD(2) [OF assms(1)]] filter_neq_key [OF tree_okD(2) [OF assms(1)] assms(2)]
  by (simp add: DeleteSong_def set_modified_def RemoveSong_def log_removal_def)

lemma tree_ok_filter_children: "tree_ok d \<Longrightarrow> tree_ok (Directory (dir d) (filter P (children d)))"
  by (cases d) (auto simp: tree_ok_simps intro: distinct_map_filterI)

lemma tree_ok_filter_songs:
  "tree_ok d \<Longrightarrow> tree_ok (Directory ((dir d)\<lparr>songs := filter P (songs (dir d))\<rparr>) (children d))"
  by (rule tree_ok_set_songs) (simp_all add: tree_okD distinct_map_filterI)

lemma fold_delete_children:
  "\<lbrakk>tree_ok d; distinct cs; set cs \<subseteq> set (children d); dir d = i\<rbrakk> \<Longrightarrow>
    fold (\<lambda>c s. if P c then set_modified (DeleteDirectory (GetName i (dir c)) s) else s) cs (d, st) =
      (Directory i (filter (\<lambda>c. \<not> (c \<in> set cs \<and> P c)) (children d)),
       log_removal (concat (map ClearDirectory (filter P cs))) (\<exists>c \<in> set cs. P c) st)"
proof (induction cs arbitrary: d st)
  case (Cons c cs)
  let ?d = "Directory i (filter (\<lambda>x. x \<noteq> c) (children d))"
  have "filter (\<lambda>x. \<not> (x \<in> set cs \<and> P x)) (children ?d) = filter (\<lambda>x. \<not> (x \<in> set (c # cs) \<and> P x)) (children d)" if "P c"
    using that by (auto intro!: filter_cong)
  moreover have "filter (\<lambda>x. \<not> (x \<in> set cs \<and> P x)) (children d) = filter (\<lambda>x. \<not> (x \<in> set (c # cs) \<and> P x)) (children d)" if "\<not> P c"
    using that by (auto intro!: filter_cong)
  moreover have "set cs \<subseteq> set (children ?d)" using Cons.prems by auto
  ultimately show ?case
    using Cons.IH [of ?d "log_removal (ClearDirectory c) True st"] Cons.IH [of d st]
      DeleteDirectory_member [of d c st] tree_ok_filter_children [of d "\<lambda>x. x \<noteq> c"] Cons.prems
    by (cases "P c") auto
qed (simp add: directory.expand)

lemma fold_delete_songs:
  "\<lbrakk>tree_ok d; distinct ss; set ss \<subseteq> set (songs (dir d))\<rbrakk> \<Longrightarrow>
    fold (\<lambda>x s. if P x then set_modified (DeleteSong x s) else s) ss (d, st) =
      (Directory ((dir d)\<lparr>songs := filter (\<lambda>x. \<not> (x \<in> set ss \<and> P x)) (songs (dir d))\<rparr>) (children d),
       log_removal (map (GetURI (dir d)) (filter P ss)) (\<exists>x \<in> set ss. P x) st)"
proof (induction ss arbitrary: d st)
  case (Cons x ss)
  let ?d = "Directory ((dir d)\<lparr>songs := filter (\<lambda>y. y \<noteq> x) (songs (dir d))\<rparr>) (children d)"
  have "filter (\<lambda>y. \<not> (y \<in> set ss \<and> P y)) (songs (dir ?d)) = filter (\<lambda>y. \<not> (y \<in> set (x # ss) \<and> P y)) (songs (dir d))" if "P x"
    using that by (auto intro!: filter_cong)
  moreover have "filter (\<lambda>y. \<not> (y \<in> set ss \<and> P y)) (songs (dir d)) = filter (\<lambda>y. \<not> (y \<in> set (x # ss) \<and> P y)) (songs (dir d))" if "\<not> P x"
    using that by (auto intro!: filter_cong)
  moreover have "set ss \<subseteq> set (songs (dir ?d))" using Cons.prems by auto
  ultimately show ?case
    using Cons.IH [of ?d "log_removal [GetURI (dir d) x] True st"] Cons.IH [of d st]
      DeleteSong_member [of d x st] tree_ok_filter_songs [of d "\<lambda>y. y \<noteq> x"] Cons.prems
    by (cases "P x") auto
qed simp

lemma tree_ok_distinct:
  assumes "tree_ok d"
  shows "distinct (children d)" "distinct (songs (dir d))"
  using tree_okD(2,4) [OF assms] by (auto simp: distinct_map)

definition keep_entries :: "(directory \<Rightarrow> bool) \<Rightarrow> (Song \<Rightarrow> bool) \<Rightarrow> directory \<Rightarrow> directory" where
  "keep_entries P Q d = Directory ((dir d)\<lparr>songs := filter Q (songs (dir d))\<rparr>) (filter P (children d))"

definition dropped_uris :: "(directory \<Rightarrow> bool) \<Rightarrow> (Song \<Rightarrow> bool) \<Rightarrow> directory \<Rightarrow> string list" where
  "dropped_uris P Q d =
     concat (map ClearDirectory (filter (\<lambda>c. \<not> P c) (children d))) @
     map (GetURI (dir d)) (filter (\<lambda>x. \<not> Q x) (songs (dir d)))"

lemma fold_delete_both:
  assumes "tree_ok d"
  shows "(let s1 = fold (\<lambda>c s. if P c then set_modified (DeleteDirectory (GetName (dir d) (dir c)) s) else s) (children d) (d, st)
     in fold (\<lambda>x s. if Q x then set_modified (DeleteSong x s) else s) (songs (dir (fst s1))) s1) =
    (keep_entries (\<lambda>c. \<not> P c) (\<lambda>x. \<not> Q x) d,
     log_removal (dropped_uris (\<lambda>c. \<not> P c) (\<lambda>x. \<not> Q x) d) ((\<exists>c \<in> set (children d). P c) \<or> (\<exists>x \<in> set (songs (dir d)). Q x)) st)"
proof -
  let ?d = "Directory (dir d) (filter (\<lambda>c. \<not> (c \<in> set (children d) \<and> P c)) (children d))"
  have "filter (\<lambda>c. \<not> (c \<in> set (children d) \<and> P c)) (children d) = filter (\<lambda>c. \<not> P c) (children d)"
    "filter (\<lambda>x. \<not> (x \<in> set (songs (dir d)) \<and> Q x)) (songs (dir d)) = filter (\<lambda>x. \<not> Q x) (songs (dir d))"
    by (auto intro!: filter_cong)
  then show ?thesis
    using fold_delete_children [OF assms tree_ok_distinct(1) [OF assms], of "dir d" P st]
      fold_delete_songs [of ?d "songs (dir d)" Q] tree_ok_filter_children [OF assms] tree_ok_distinct(2) [OF assms]
    by (simp add: Let_def keep_entries_def dropped_uris_def)
qed

lemma RemoveExcludedFromDirectory_eq:
  "tree_ok d \<Longrightarrow> RemoveExcludedFromDirectory env excl (d, st) =
    (keep_entries (\<lambda>c. \<not> excluded env excl (GetName (dir d) (dir c))) (\<lambda>x. \<not> excluded env excl (filename x)) d,
     log_removal (dropped_uris (\<lambda>c. \<not> excluded env excl (GetName (dir d) (dir c))) (\<lambda>x. \<not> excluded env excl (filename x)) d)
       ((\<exists>c \<in> set (children d). excluded env excl (GetName (dir d) (dir c))) \<or>
        (\<exists>x \<in> set (songs (dir d)). excluded env excl (filename x))) st)"
  using fold_delete_both [of d "\<lambda>c. excluded env excl (GetName (dir d) (dir c))" st "\<lambda>x. excluded env excl (filename x)"]
  by (simp add: RemoveExcludedFromDirectory_def Let_def)

text \<open>Mount points are kept, whether they are marked or not.\<close>

definition survives :: "directory \<Rightarrow> bool" where
  "survives c \<longleftrightarrow> IsMount (dir c) \<or> dir_mark (dir c)"

lemma PurgeDeletedFromDirectory_eq:
  assumes "tree_ok d"
  shows "PurgeDeletedFromDirectory (d, st) =
    (let e = keep_entries survives song_mark d
     in (Directory ((dir e)\<lparr>playlists := filter pl_mark (playlists (dir d))\<rparr>) (children e),
         log_removal (dropped_uris survives song_mark d)
           ((\<exists>c \<in> set (children d). \<not> survives c) \<or> (\<exists>x \<in> set (songs (dir d)). \<not> song_mark x)) st))"
proof -
  let ?P = "\<lambda>c. \<not> survives c"
  have "fold (\<lambda>c s. if IsMount (dir c) then s else if dir_mark (dir c) then s
        else set_modified (DeleteDirectory (GetName (dir d) (dir c)) s)) (children d) (d, st) =
      fold (\<lambda>c s. if ?P c then set_modified (DeleteDirectory (GetName (dir d) (dir c)) s) else s) (children d) (d, st)"
    by (rule fold_cong) (auto simp: fun_eq_iff survives_def)
  then show ?thesis
    using fold_delete_both [OF assms, of ?P st "\<lambda>x. \<not> song_mark x"]
    unfolding PurgeDeletedFromDirectory_def Let_def fst_conv by (simp add: keep_entries_def)
qed

section \<open>The cursor\<close>

text \<open>
  What the search for a loop may do to an ancestor: fill in its inode and device numbers
  if it has none.
\<close>

definition stat_kept :: "dir_info \<Rightarrow> dir_info \<Rightarrow> bool" where
  "stat_kept i j \<longleftrightarrow> inode i = 0 \<and> device i = 0 \<or> inode j = inode i \<and> device j = device i"

definition stat_only :: "directory \<Rightarrow> directory \<Rightarrow> bool" where
  "stat_only a b \<longleftrightarrow> children b = children a \<and> stat_kept (dir a) (dir b) \<and>
     (dir b)\<lparr>inode := inode (dir a), device := device (dir a)\<rparr> = dir a"

lemma stat_only_eq:
  "stat_only a b \<Longrightarrow> b = Directory ((dir a)\<lparr>inode := inode (dir b), device := device (dir b)\<rparr>) (children a)"
  by (cases a; cases b; rename_tac i cs j cs'; case_tac i; case_tac j; auto simp: stat_only_def)

lemma stat_only_refl [simp]: "stat_only a a"
  by (simp add: stat_only_def stat_kept_def)

lemma stat_only_set_stat: "\<lbrakk>device (dir a) = 0; inode (dir a) = 0\<rbrakk> \<Longrightarrow> stat_only a (directory_set_stat info a)"
  by (simp add: stat_only_def directory_set_stat_def stat_kept_def)

lemma stat_only_trans: "\<lbrakk>stat_only a b; stat_only b c\<rbrakk> \<Longrightarrow> stat_only a c"
  by (cases "dir a"; cases "dir b"; cases "dir c"; auto simp: stat_only_def stat_kept_def)

lemma stat_only_known: "\<lbrakk>stat_only a b; \<not> (inode (dir a) = 0 \<and> device (dir a) = 0)\<rbrakk> \<Longrightarrow> b = a"
  by (cases a; cases b; rename_tac i cs j cs'; case_tac i; case_tac j; auto simp: stat_only_def stat_kept_def)

lemma stat_only_fields:
  assumes "stat_only a b"
  shows "songs (dir b) = songs (dir a)" "playlists (dir b) = playlists (dir a)" "path (dir b) = path (dir a)"
    "is_root (dir b) = is_root (dir a)" "same_identity (dir a) (dir b)" "dir_mark (dir b) = dir_mark (dir a)"
    "same_entries m a b"
proof -
  have b: "b = Directory ((dir a)\<lparr>inode := inode (dir b), device := device (dir b)\<rparr>) (children a)"
    using assms by (rule stat_only_eq)
  show "songs (dir b) = songs (dir a)" "playlists (dir b) = playlists (dir a)" "path (dir b) = path (dir a)"
    "is_root (dir b) = is_root (dir a)" "same_identity (dir a) (dir b)" "dir_mark (dir b) = dir_mark (dir a)"
    by (subst b; simp add: same_identity_def)+
  show "same_entries m a b" by (subst b) (simp add: same_entries_def FindChild_def FindSong_def)
qed

lemma stat_only_ok: "\<lbrakk>stat_only a b; tree_ok a\<rbrakk> \<Longrightarrow> tree_ok b"
  by (metis stat_only_eq tree_ok_set_fields(3))

abbreviation stat_cursor :: "cursor \<Rightarrow> cursor \<Rightarrow> bool" where
  "stat_cursor \<equiv> list_all2 stat_only"

lemma stat_cursor_refl [simp]: "stat_cursor cur cur"
  by (simp add: list.rel_refl)

lemma stat_cursor_trans: "\<lbrakk>stat_cursor a b; stat_cursor b c\<rbrakk> \<Longrightarrow> stat_cursor a c"
  using list_all2_trans [of stat_only stat_only stat_only] stat_only_trans by blast

lemma FindAncestorLoop_stat: "stat_cursor cur (snd (FindAncestorLoop env ino dev cur))"
proof (induction cur)
  case (Cons p anc)
  then show ?case by (auto simp: stat_only_set_stat case_prod_unfold split: option.split)
qed simp

text \<open>Changes to the entries of a set of names, and to nothing else but the two numbers.\<close>

definition keeps_id :: "dir_info \<Rightarrow> dir_info \<Rightarrow> bool" where
  "keeps_id i j \<longleftrightarrow> stat_kept i j \<and>
     j\<lparr>songs := songs i, playlists := playlists i, inode := inode i, device := device i\<rparr> = i"

lemma keeps_id_refl [simp]: "keeps_id i i"
  by (simp add: keeps_id_def stat_kept_def)

lemma keeps_id_trans: "\<lbrakk>keeps_id i j; keeps_id j k\<rbrakk> \<Longrightarrow> keeps_id i k"
  by (cases i; cases j; cases k; auto simp: keeps_id_def stat_kept_def)

lemma keeps_idI: "keeps i j \<Longrightarrow> keeps_id i j"
  by (cases i; cases j; simp add: keeps_id_def keeps_def stat_kept_def)

lemma keeps_id_identity: "keeps_id i j \<Longrightarrow> same_identity i j"
  by (cases i; cases j; simp add: keeps_id_def same_identity_def)

definition touches_set :: "string set \<Rightarrow> directory \<Rightarrow> directory \<Rightarrow> bool" where
  "touches_set N d d' \<longleftrightarrow> tree_ok d' \<and> keeps_id (dir d) (dir d') \<and> (\<forall>m. m \<notin> N \<longrightarrow> same_entries m d d')"

lemma touches_setI: "touches n d d' \<Longrightarrow> n \<in> N \<Longrightarrow> touches_set N d d'"
  by (auto simp: touches_def touches_set_def keeps_idI)

lemma touches_set_stat: "\<lbrakk>tree_ok d; stat_only d d'\<rbrakk> \<Longrightarrow> touches_set N d d'"
proof -
  assume a: "tree_ok d" "stat_only d d'"
  have "keeps_id (dir d) (dir d')"
    using a(2) by (cases "dir d"; cases "dir d'"; simp add: stat_only_def keeps_id_def)
  then show ?thesis using a by (simp add: touches_set_def stat_only_ok stat_only_fields(7))
qed

lemma touches_set_trans: "\<lbrakk>touches_set N a b; touches_set N b c\<rbrakk> \<Longrightarrow> touches_set N a c"
  unfolding touches_set_def by (meson keeps_id_trans same_entries_trans)

lemma touches_set_mono: "\<lbrakk>touches_set N a b; N \<subseteq> M\<rbrakk> \<Longrightarrow> touches_set M a b"
  by (auto simp: touches_set_def)

lemma touches_set_ok: "touches_set N a b \<Longrightarrow> tree_ok b"
  by (simp add: touches_set_def)

section \<open>The contract of the recursive call\<close>

text \<open>The entries that the loop does not pass over.\<close>

definition considered :: "walk_env \<Rightarrow> ExcludeList \<Rightarrow> listing \<Rightarrow> string \<Rightarrow> StorageFileInfo option \<Rightarrow> bool" where
  "considered env excl es n info \<longleftrightarrow> (n, info) \<in> set es \<and> \<not> skip_path n \<and> \<not> excluded env excl n"

locale directory_updater =
  fixes env :: walk_env and rec :: update_directory
  assumes rec_frame: "\<lbrakk>env_ok env; tree_ok d; rec excl info (d # anc, st) = Some (ok, cur', st')\<rbrakk> \<Longrightarrow>
    \<exists>d' anc'. cur' = d' # anc' \<and> tree_ok d' \<and> same_identity (dir d) (dir d') \<and> stat_cursor anc anc'"
begin

lemma child_directory_frame:
  assumes "env_ok env" "tree_ok d" "valid_name n" "rec excl info (subdir # MakeChild n d # anc, st) = Some (ok, cur', st')"
    "FindChild (MakeChild n d) n = Some subdir"
  obtains sub' d2 anc2 where "cur' = sub' # d2 # anc2" "stat_cursor anc anc2"
    "touches_set {n} d (update_child n (\<lambda>_. sub') d2)"
proof -
  note M = touches_MakeChild [OF assms(2,3)]
  note S = tree_ok_FindChild [OF touches_ok [OF M] assms(5)]
  obtain sub' d2 anc2 where R: "cur' = sub' # d2 # anc2" "tree_ok sub'" "same_identity (dir subdir) (dir sub')"
    "stat_only (MakeChild n d) d2" "stat_cursor anc anc2"
    using rec_frame [OF assms(1) S(1) assms(4)] by (auto simp: list_all2_Cons1)
  have "FindChild d2 n = Some subdir"
    using stat_only_fields(7) [OF R(4), of n] assms(5) by (simp add: same_entries_def)
  then have "touches n d2 (update_child n (\<lambda>_. sub') d2)"
    using R touches_ok [OF M] by (intro touches_update_child) (auto intro: stat_only_ok)
  then have "touches_set {n} d (update_child n (\<lambda>_. sub') d2)"
    using touches_setI [OF M, of "{n}"] touches_set_stat [OF touches_ok [OF M] R(4), of "{n}"]
    by (blast intro: touches_set_trans touches_setI)
  with R that show thesis by blast
qed

lemma UpdateDirectoryChild_frame:
  assumes "env_ok env" "tree_ok d" "valid_name n"
    "UpdateDirectoryChild rec env excl n info (d # anc, st) = Some (cur', st')"
  shows "\<exists>d' anc'. cur' = d' # anc' \<and> touches_set {n} d d' \<and> stat_cursor anc anc'"
proof -
  consider (reg) "IsRegular info" | (dir) "\<not> IsRegular info" "IsDirectory info"
    | (other) "\<not> IsRegular info" "\<not> IsDirectory info" by blast
  then show ?thesis
  proof cases
    case reg
    have "touches_set {n} d (fst (snd (UpdateRegularFile env (map dir anc) n info (d, st))))"
      using UpdateRegularFile_touches [of "(d, st)" n env] assms(1-3) by (intro touches_setI [of n]) simp_all
    then show ?thesis
      using reg assms(4) by (auto simp: UpdateDirectoryChild_def at_head_def case_prod_unfold)
  next
    case dir
    obtain found d1 anc1 where F: "FindAncestorLoop env (fi_inode info) (fi_device info) (d # anc) = (found, d1 # anc1)"
      "stat_only d d1" "stat_cursor anc anc1"
      using FindAncestorLoop_stat [of "d # anc" env "fi_inode info" "fi_device info"]
      by (cases "FindAncestorLoop env (fi_inode info) (fi_device info) (d # anc)") (auto simp: list_all2_Cons1)
    note T1 = touches_set_stat [OF assms(2) F(2), of "{n}"]
    have ok1: "tree_ok d1" using T1 by (rule touches_set_ok)
    show ?thesis
    proof (cases "found = 0")
      case False
      then show ?thesis using dir F T1 assms(4) by (auto simp: UpdateDirectoryChild_def)
    next
      case True
      obtain subdir where sub: "FindChild (MakeChild n d1) n = Some subdir"
        using FindChild_MakeChild [OF ok1 assms(3)] by (auto split: option.splits)
      with True dir F assms(4) obtain ok cur2 st2 where
        R: "rec excl info (subdir # MakeChild n d1 # anc1, st) = Some (ok, cur2, st2)"
        by (auto simp: UpdateDirectoryChild_def Let_def split: option.splits)
      obtain sub' d2 anc2 where C: "cur2 = sub' # d2 # anc2" "stat_cursor anc1 anc2"
        "touches_set {n} d1 (update_child n (\<lambda>_. sub') d2)"
        using child_directory_frame [OF assms(1) ok1 assms(3) R sub] .
      have "touches_set {n} d (update_child n (\<lambda>_. sub') d2)" by (rule touches_set_trans [OF T1 C(3)])
      moreover have "touches_set {n} d (fst (DeleteDirectory n (update_child n (\<lambda>_. sub') d2, st2)))"
        by (rule touches_set_trans [OF calculation touches_setI [of n]])
          (use touches_DeleteDirectory [of "(update_child n (\<lambda>_. sub') d2, st2)"] touches_set_ok [OF calculation] in simp_all)
      moreover have "stat_cursor anc anc2" using F(3) C(2) by (rule stat_cursor_trans)
      ultimately show ?thesis
        using True dir F sub R C(1) assms(4)
        by (auto simp: UpdateDirectoryChild_def Let_def at_head_def case_prod_unfold split: if_splits)
    qed
  next
    case other
    then show ?thesis
      using assms(2,4) touches_setI [OF touches_refl] by (auto simp: UpdateDirectoryChild_def)
  qed
qed

text \<open>
  A property of the directory that is being updated holds after the loop if every entry
  keeps it: the loop deletes the name, or does something to the entries of that name.
\<close>

lemma update_entries_rule:
  assumes "update_entries rec env excl es (d # anc, st) = Some (cur', st')"
    "env_ok env" "\<forall>e \<in> set es. valid_name (fst e)" "tree_ok d" "I d"
    and del: "\<And>a n info t. \<lbrakk>considered env excl es n info; tree_ok a; I a\<rbrakk> \<Longrightarrow> I (fst (snd (DeleteNameIn n (a, t))))"
    and child: "\<And>a b n info anca t ancb t'. \<lbrakk>considered env excl es n (Some info); tree_ok a; I a; touches_set {n} a b;
        UpdateDirectoryChild rec env excl n info (a # anca, t) = Some (b # ancb, t')\<rbrakk> \<Longrightarrow> I b"
  shows "\<exists>d' anc'. cur' = d' # anc' \<and> tree_ok d' \<and> I d' \<and> stat_cursor anc anc'"
  using assms
proof (induction es arbitrary: d anc st)
  case (Cons e es)
  obtain n info where e: "e = (n, info)" by (meson surj_pair)
  let ?st = "st\<lparr>tick := tick st + 1\<rparr>"
  have mono: "considered env excl (e # es) m i" if "considered env excl es m i" for m i
    using that by (simp add: considered_def)
  have IH: "\<exists>d' anc'. cur' = d' # anc' \<and> tree_ok d' \<and> I d' \<and> stat_cursor anc anc'"
    if "update_entries rec env excl es (a # anca, t) = Some (cur', st')" "tree_ok a" "I a" "stat_cursor anc anca" for a anca t
  proof -
    have "\<exists>d' anc'. cur' = d' # anc' \<and> tree_ok d' \<and> I d' \<and> stat_cursor anca anc'"
      by (rule Cons.IH [OF that(1) Cons.prems(2) _ that(2,3)])
        (use Cons.prems(3) in simp, blast intro: Cons.prems(6) mono, blast intro: Cons.prems(7) mono)
    then show ?thesis using stat_cursor_trans [OF that(4)] by blast
  qed
  show ?case
  proof (cases "cancelled env (tick st) \<or> skip_path n \<or> excluded env excl n")
    case True
    then show ?thesis using Cons.prems(1,4,5) e IH [of d anc ?st] by (auto simp: Let_def split: if_splits)
  next
    case False
    then have con: "considered env excl (e # es) n info" by (simp add: considered_def e)
    show ?thesis
    proof (cases "SkipSymlink env (d # anc) n \<or> info = None")
      case True
      let ?del = "DeleteNameIn n (d, ?st)"
      have "update_entries rec env excl es (fst (snd ?del) # anc,
          (snd (snd ?del))\<lparr>modified := modified (snd (snd ?del)) \<or> fst ?del\<rparr>) = Some (cur', st')"
        using Cons.prems(1) True False e by (simp add: Let_def case_prod_unfold)
      then show ?thesis
        by (rule IH)
          (use touches_DeleteNameIn [of "(d, ?st)" n] Cons.prems(4,5) Cons.prems(6) [OF con] in \<open>auto simp: touches_def\<close>)
    next
      case no: False
      then obtain i where i: "info = Some i" by auto
      obtain cur1 st1 where
        C: "UpdateDirectoryChild rec env excl n i (d # anc, ?st) = Some (cur1, st1)"
        "update_entries rec env excl es (cur1, st1) = Some (cur', st')"
        using Cons.prems(1) False no e i by (auto simp: Let_def split: option.splits)
      have "valid_name n" using Cons.prems(3) e by simp
      then obtain d1 anc1 where D: "cur1 = d1 # anc1" "touches_set {n} d d1" "stat_cursor anc anc1"
        using UpdateDirectoryChild_frame [OF Cons.prems(2,4) _ C(1)] by blast
      have "I d1" using Cons.prems(7) [OF con [unfolded i] Cons.prems(4,5) D(2)] C(1) [unfolded D(1)] by blast
      with C(2) [unfolded D(1)] touches_set_ok [OF D(2)] show ?thesis using D(3) by (rule IH)
    qed
  qed
qed auto

lemma update_entries_frame:
  assumes "update_entries rec env excl es (d # anc, st) = Some (cur', st')"
    "env_ok env" "\<forall>e \<in> set es. valid_name (fst e)" "tree_ok d"
  shows "\<exists>d' anc'. cur' = d' # anc' \<and> touches_set (fst ` set es) d d' \<and> stat_cursor anc anc'"
proof -
  let ?I = "touches_set (fst ` set es) d"
  have step: "?I b" if "?I a" "touches_set {n} a b" "considered env excl es n info" for a b n info
  proof -
    have "n \<in> fst ` set es" using that(3) by (force simp: considered_def)
    then show ?thesis using that(1,2) touches_set_mono [of "{n}" a b "fst ` set es"] touches_set_trans by blast
  qed
  have "?I d" using touches_set_stat [OF assms(4) stat_only_refl] .
  then have "\<exists>d' anc'. cur' = d' # anc' \<and> tree_ok d' \<and> ?I d' \<and> stat_cursor anc anc'"
  proof (rule update_entries_rule [OF assms])
    fix a n info t
    assume "considered env excl es n info" "tree_ok a" "?I a"
    then show "?I (fst (snd (DeleteNameIn n (a, t))))"
      using step touches_setI [OF touches_DeleteNameIn [of "(a, t)" n], of "{n}"] by simp
  qed (rule step)
  then show ?thesis by blast
qed

text \<open>The loop ends if the recursive calls do.\<close>

lemma update_entries_total:
  assumes "env_ok env" "\<forall>e \<in> set es. valid_name (fst e)" "tree_ok d"
    and "\<And>n info a anca t. \<lbrakk>(n, Some info) \<in> set es; tree_ok a; keeps_id (dir d) (dir a); stat_cursor anc anca\<rbrakk> \<Longrightarrow>
      UpdateDirectoryChild rec env excl n info (a # anca, t) \<noteq> None"
  shows "update_entries rec env excl es (d # anc, st) \<noteq> None"
  using assms
proof (induction es arbitrary: d anc st)
  case (Cons e es)
  obtain n info where e: "e = (n, info)" by (meson surj_pair)
  let ?st = "st\<lparr>tick := tick st + 1\<rparr>"
  have IH: "update_entries rec env excl es (a # anca, t) \<noteq> None"
    if "tree_ok a" "keeps_id (dir d) (dir a)" "stat_cursor anc anca" for a anca t
  proof (rule Cons.IH [OF Cons.prems(1) _ that(1)])
    show "\<forall>e \<in> set es. valid_name (fst e)" using Cons.prems(2) by simp
    show "UpdateDirectoryChild rec env excl m i (b # ancb, u) \<noteq> None"
      if "(m, Some i) \<in> set es" "tree_ok b" "keeps_id (dir a) (dir b)" "stat_cursor anca ancb" for m i b ancb u
      using Cons.prems(4) that keeps_id_trans [OF \<open>keeps_id (dir d) (dir a)\<close>] stat_cursor_trans [OF \<open>stat_cursor anc anca\<close>]
      by simp
  qed
  have del: "tree_ok (fst (snd (DeleteNameIn n (d, ?st))))" "keeps_id (dir d) (dir (fst (snd (DeleteNameIn n (d, ?st)))))"
    using touches_DeleteNameIn [of "(d, ?st)" n] Cons.prems(3) by (auto simp: touches_def keeps_idI)
  show ?case
  proof (cases "cancelled env (tick st) \<or> skip_path n \<or> excluded env excl n \<or> SkipSymlink env (d # anc) n \<or> info = None")
    case True
    then show ?thesis using IH [OF Cons.prems(3)] IH [OF del stat_cursor_refl] e by (auto simp: Let_def case_prod_unfold)
  next
    case False
    then obtain i where i: "info = Some i" by auto
    obtain cur1 st1 where C: "UpdateDirectoryChild rec env excl n i (d # anc, ?st) = Some (cur1, st1)"
      using Cons.prems(3,4) e i by (metis keeps_id_refl list.set_intros(1) not_Some_eq stat_cursor_refl surj_pair)
    have "valid_name n" using Cons.prems(2) e by simp
    then obtain d1 anc1 where "cur1 = d1 # anc1" "touches_set {n} d d1" "stat_cursor anc anc1"
      using UpdateDirectoryChild_frame [OF Cons.prems(1,3) _ C] by blast
    then show ?thesis using IH [of d1 anc1 st1] False C e i by (auto simp: touches_set_def Let_def)
  qed
qed simp

end

section \<open>One directory\<close>

definition child_excludes :: "walk_env \<Rightarrow> ExcludeList \<Rightarrow> directory \<Rightarrow> ExcludeList" where
  "child_excludes env excl d = LoadExcludeListOrLog env (dir d) (ExcludeList_child excl)"

text \<open>The directory when the loop starts: nothing excluded is there, nothing is marked.\<close>

definition prepared :: "walk_env \<Rightarrow> ExcludeList \<Rightarrow> StorageFileInfo \<Rightarrow> directory \<Rightarrow> directory" where
  "prepared env excl info d =
     (let ce = child_excludes env excl d; d0 = directory_set_stat info d
      in UnmarkAllIn (if ExcludeList_IsEmpty ce then d0
           else keep_entries (\<lambda>c. \<not> excluded env ce (GetName (dir d) (dir c))) (\<lambda>x. \<not> excluded env ce (filename x)) d0))"

definition finished :: "StorageFileInfo \<Rightarrow> dir_st \<Rightarrow> directory" where
  "finished info s =
     (let d = fst (PurgeDeletedFromDirectory s)
      in Directory ((dir d)\<lparr>dir_mtime := fi_mtime info, dir_mark := True\<rparr>) (children d))"

lemma tree_ok_set_stat: "tree_ok d \<Longrightarrow> tree_ok (directory_set_stat info d)"
  by (simp add: directory_set_stat_def tree_ok_set_fields)

lemma LoadExcludeListOrLog_path: "path i = path j \<Longrightarrow> LoadExcludeListOrLog env i = LoadExcludeListOrLog env j"
  by (simp add: LoadExcludeListOrLog_def fun_eq_iff)

lemma UpdateDirectory_body_eq:
  assumes "tree_ok d"
  obtains st1 where "UpdateDirectory_body rec env excl info (d # anc, st) =
    (case open_directory env (path (dir d)) of
       None \<Rightarrow> Some (False, directory_set_stat info d # anc, st)
     | Some es \<Rightarrow>
         map_option (\<lambda>(cur, st2). (True, finished info (hd cur, st2) # tl cur, snd (PurgeDeletedFromDirectory (hd cur, st2))))
           (update_entries rec env (child_excludes env excl d) es (prepared env excl info d # anc, st1)))"
proof -
  let ?d0 = "directory_set_stat info d"
  have ce: "LoadExcludeListOrLog env (dir ?d0) = LoadExcludeListOrLog env (dir d)"
    by (rule LoadExcludeListOrLog_path) (simp add: directory_set_stat_def)
  have nm: "GetName (dir ?d0) = GetName (dir d)" by (simp add: directory_set_stat_def)
  show thesis
    by (rule that [of "if ExcludeList_IsEmpty (child_excludes env excl d) then st
          else snd (RemoveExcludedFromDirectory env (child_excludes env excl d) (?d0, st))"])
      (auto simp: UpdateDirectory_body_def Let_def RemoveExcludedFromDirectory_eq [OF tree_ok_set_stat [OF assms]]
        ce nm prepared_def child_excludes_def finished_def case_prod_unfold split: option.split,
        (simp_all add: directory_set_stat_def))
qed

lemma UpdateDirectory_body_cases:
  assumes "UpdateDirectory_body rec env excl info (d # anc, st) = Some (ok, cur', st')" "tree_ok d"
  obtains (failed) "open_directory env (path (dir d)) = None" "\<not> ok" "cur' = directory_set_stat info d # anc"
  | (looped) es st1 cur st2 where "open_directory env (path (dir d)) = Some es" ok
    "update_entries rec env (child_excludes env excl d) es (prepared env excl info d # anc, st1) = Some (cur, st2)"
    "cur' = finished info (hd cur, st2) # tl cur"
proof -
  obtain st1 where B: "UpdateDirectory_body rec env excl info (d # anc, st) =
    (case open_directory env (path (dir d)) of
       None \<Rightarrow> Some (False, directory_set_stat info d # anc, st)
     | Some es \<Rightarrow>
         map_option (\<lambda>(cur, st2). (True, finished info (hd cur, st2) # tl cur, snd (PurgeDeletedFromDirectory (hd cur, st2))))
           (update_entries rec env (child_excludes env excl d) es (prepared env excl info d # anc, st1)))"
    by (rule UpdateDirectory_body_eq [OF assms(2)])
  show thesis
    using assms(1) failed looped unfolding B by (cases "open_directory env (path (dir d))") auto
qed

lemma tree_ok_keep_entries: "tree_ok d \<Longrightarrow> tree_ok (keep_entries P Q d)"
  using tree_ok_filter_songs [OF tree_ok_filter_children [of d P], of Q] by (simp add: keep_entries_def)

lemma tree_ok_UnmarkAllIn:
  assumes "tree_ok d"
  shows "tree_ok (UnmarkAllIn d)"
proof -
  have "tree_ok (Directory ((dir c)\<lparr>dir_mark := b\<rparr>) (children c))" if "c \<in> set (children d)" for c b
    using tree_okD(5) [OF assms that] by (simp add: tree_ok_set_fields)
  then show ?thesis
    using assms by (cases d) (auto simp: UnmarkAllIn_def tree_ok_simps comp_def)
qed

lemma prepared_facts:
  assumes "tree_ok d"
  shows "tree_ok (prepared env excl info d)" "same_identity (dir d) (dir (prepared env excl info d))"
    "inode (dir (prepared env excl info d)) = fi_inode info" "device (dir (prepared env excl info d)) = fi_device info"
  using assms tree_ok_UnmarkAllIn tree_ok_keep_entries tree_ok_set_stat
  by (simp_all add: prepared_def Let_def)
    (simp_all add: UnmarkAllIn_def keep_entries_def directory_set_stat_def same_identity_def)

lemma finished_eq:
  "tree_ok d \<Longrightarrow> finished info (d, st) =
    Directory ((dir d)\<lparr>songs := filter song_mark (songs (dir d)), playlists := filter pl_mark (playlists (dir d)),
        dir_mtime := fi_mtime info, dir_mark := True\<rparr>) (filter survives (children d))"
  by (simp add: finished_def PurgeDeletedFromDirectory_eq Let_def keep_entries_def)

lemma finished_facts:
  assumes "tree_ok d"
  shows "tree_ok (finished info (d, st))" "same_identity (dir d) (dir (finished info (d, st)))"
    "inode (dir (finished info (d, st))) = inode (dir d)" "device (dir (finished info (d, st))) = device (dir d)"
  using assms by (cases d; auto simp: finished_eq tree_ok_simps distinct_map_filterI same_identity_def)+

lemma same_identity_trans: "\<lbrakk>same_identity i j; same_identity j k\<rbrakk> \<Longrightarrow> same_identity i k"
  by (simp add: same_identity_def)

context directory_updater
begin

lemma UpdateDirectory_body_frame:
  assumes "env_ok env" "tree_ok d" "UpdateDirectory_body rec env excl info (d # anc, st) = Some (ok, cur', st')"
  shows "\<exists>d' anc'. cur' = d' # anc' \<and> tree_ok d' \<and> same_identity (dir d) (dir d') \<and> stat_cursor anc anc'"
  using assms(3,2)
proof (cases rule: UpdateDirectory_body_cases)
  case failed
  then show ?thesis using tree_ok_set_stat [OF assms(2)] by (simp add: directory_set_stat_def same_identity_def)
next
  case (looped es st1 cur st2)
  note P = prepared_facts [OF assms(2), of env excl info]
  have "\<forall>e \<in> set es. valid_name (fst e)" using assms(1) looped(1) by (auto simp: env_ok_def names_valid_def)
  then obtain d2 anc2 where F: "cur = d2 # anc2" "touches_set (fst ` set es) (prepared env excl info d) d2" "stat_cursor anc anc2"
    using update_entries_frame [OF looped(3) assms(1) _ P(1)] by blast
  have "same_identity (dir (prepared env excl info d)) (dir d2)" "tree_ok d2"
    using F(2) by (auto simp: touches_set_def keeps_id_identity)
  then show ?thesis
    using F looped(4) P(2) finished_facts [of d2 info st2] by (auto intro: same_identity_trans)
qed

end

lemma UpdateDirectory_updater: "directory_updater env (UpdateDirectory fuel env)"
proof (induction fuel)
  case (Suc fuel)
  show ?case
    using directory_updater.UpdateDirectory_body_frame [OF Suc.IH] by unfold_locales simp
qed (unfold_locales, simp)

interpretation upd: directory_updater env "UpdateDirectory fuel env" for env fuel
  by (rule UpdateDirectory_updater)

section \<open>A small storage\<close>

text \<open>
  A music directory with a song file, a playlist file and a link that leads back to the
  directory itself. The database knows a song that has gone and the unchanged playlist.
\<close>

definition file_info :: "file_type \<Rightarrow> time_point \<Rightarrow> 64 word \<Rightarrow> StorageFileInfo" where
  "file_info type mtime ino = \<lparr>fi_type = type, fi_size = 9, fi_mtime = mtime, fi_device = 1, fi_inode = ino\<rparr>"

definition sample_info :: StorageFileInfo where
  "sample_info = file_info DIRECTORY 5 1"

definition sample_listing :: listing where
  "sample_listing = [(''a.flac'', Some (file_info REGULAR 5 2)), (''b.xspf'', Some (file_info REGULAR 7 3)),
     (''loop'', Some sample_info)]"

definition sample_env :: walk_env where
  "sample_env = \<lparr>get_info = (\<lambda>p. if p = [] then Some sample_info else None),
    open_directory = (\<lambda>p. if p = [] then Some sample_listing else None),
    open_file = (\<lambda>_. None), map_fs = (\<lambda>_. None), map_child_fs = (\<lambda>_ _. None), map_to_relative = (\<lambda>_. None),
    name_to_fs = Some, path_to_utf8 = (\<lambda>p. p), read_link = (\<lambda>_. NotALink), readable = (\<lambda>_. True),
    glob = (\<lambda>_ _. False), supports_suffix = (\<lambda>s. s = ''flac''), container_scanners = (\<lambda>_. []),
    archive_plugin = (\<lambda>_. None), archive_entries = (\<lambda>_ _. None), archive_scan = (\<lambda>_ _. None),
    find_playlist_plugin = (\<lambda>s. if s = ''xspf'' then Some \<lparr>as_folder = False, open_stream = (\<lambda>_. None)\<rparr> else None),
    stream_scan = (\<lambda>_. Some (Tag_empty, AudioFormat_Undefined)), file_scan = (\<lambda>_. None), clock = (\<lambda>_. 8),
    cancelled = (\<lambda>_. False), mode = ALL_MODE, walk_discard = False,
    follow_inside_symlinks = True, follow_outside_symlinks = True\<rparr>"

definition sample_state :: walk_state where
  "sample_state = \<lparr>modified = False, removed = [], tick = 0\<rparr>"

definition sample_root :: directory where
  "sample_root = AddSong (Song_new ''old.flac'')
     (Directory ((dir NewRoot)\<lparr>playlists := [PlaylistInfo_new ''b.xspf'' 7]\<rparr>) [])"

lemma sample_env_ok: "env_ok sample_env"
  by (simp add: env_ok_def names_valid_def tracks_distinct_def sample_env_def sample_listing_def valid_name_def)

lemma sample_root_ok: "tree_ok sample_root"
  by (simp add: sample_root_def AddSong_def NewRoot_def Directory_new_def tree_ok_simps path_ok_def IsMount_def)

lemma sample_run:
  "\<exists>d st. UpdateDirectory 1 sample_env ExcludeList_empty sample_info ([sample_root], sample_state) = Some (True, [d], st) \<and>
     map filename (songs (dir d)) = [''a.flac''] \<and> playlists (dir d) = [] \<and> removed st = [''old.flac'']"
proof -
  have "case UpdateDirectory 1 sample_env ExcludeList_empty sample_info ([sample_root], sample_state) of
      Some (True, [d], st) \<Rightarrow> map filename (songs (dir d)) = [''a.flac''] \<and> playlists (dir d) = [] \<and> removed st = [''old.flac'']
    | _ \<Rightarrow> False"
    by code_simp
  then show ?thesis by (simp split: option.split_asm prod.split_asm bool.split_asm list.split_asm)
qed

end
