(* ===== verification/Update_Correct.thy ===== *)
theory Update_Correct
  imports Update_Invariants
begin

text \<open>
  What an update achieves: nothing stale is left, what a storage holds is found, every
  song that disappears is reported, an update ends, also on a storage with symbolic links
  in a circle.
\<close>

section \<open>Looking up what a purge leaves\<close>

lemma find_filter:
  "distinct (map f xs) \<Longrightarrow> find (\<lambda>x. f x = m) (filter Q xs) =
    (case find (\<lambda>x. f x = m) xs of None \<Rightarrow> None | Some x \<Rightarrow> if Q x then Some x else None)"
proof (induction xs)
  case (Cons x xs)
  have "find (\<lambda>y. f y = f x) (filter Q xs) = None" using Cons.prems by (auto simp: find_None_iff_map)
  with Cons show ?case by auto
qed simp

definition keep_if :: "('a \<Rightarrow> bool) \<Rightarrow> 'a option \<Rightarrow> 'a option" where
  "keep_if Q v = (case v of None \<Rightarrow> None | Some x \<Rightarrow> if Q x then Some x else None)"

lemma keep_if_simps [simp]:
  "keep_if Q None = None" "keep_if Q (Some x) = (if Q x then Some x else None)"
  by (simp_all add: keep_if_def)

lemma finished_lookups:
  assumes "tree_ok d"
  shows "FindSong (finished info (d, st)) m = keep_if song_mark (FindSong d m)"
    "FindChild (finished info (d, st)) m = keep_if survives (FindChild d m)"
    "PlaylistVector_find m (playlists (dir (finished info (d, st)))) =
       keep_if pl_mark (PlaylistVector_find m (playlists (dir d)))"
  using find_filter [OF tree_okD(2) [OF assms], of m song_mark]
    find_filter [OF tree_okD(4) [OF assms], of m survives]
    find_filter [OF tree_okD(3) [OF assms], of m pl_mark]
  by (simp_all add: finished_eq [OF assms] FindSong_def FindChild_def PlaylistVector_find_def keep_if_def)

definition present :: "string \<Rightarrow> directory \<Rightarrow> bool" where
  "present m d \<longleftrightarrow> FindSong d m \<noteq> None \<or> FindChild d m \<noteq> None \<or> PlaylistVector_find m (playlists (dir d)) \<noteq> None"

definition unmarked :: "string \<Rightarrow> directory \<Rightarrow> bool" where
  "unmarked m d \<longleftrightarrow> keep_if song_mark (FindSong d m) = None \<and> keep_if (\<lambda>c. dir_mark (dir c)) (FindChild d m) = None \<and>
     keep_if pl_mark (PlaylistVector_find m (playlists (dir d))) = None"

text \<open>A song, a playlist or a sub directory that is no mount point.\<close>

definition plain_entry :: "string \<Rightarrow> directory \<Rightarrow> bool" where
  "plain_entry m d \<longleftrightarrow> FindSong d m \<noteq> None \<or> (\<exists>c. FindChild d m = Some c \<and> \<not> IsMount (dir c)) \<or>
     PlaylistVector_find m (playlists (dir d)) \<noteq> None"

lemma plain_finished: "tree_ok d \<Longrightarrow> plain_entry m (finished info (d, st)) \<Longrightarrow> \<not> unmarked m d"
  by (auto simp: plain_entry_def unmarked_def finished_lookups survives_def keep_if_def split: option.splits if_splits)

lemma unmarked_same: "same_entries m d d' \<Longrightarrow> unmarked m d' = unmarked m d"
  by (simp add: same_entries_def unmarked_def)

lemma find_map_keep: "(\<And>x. f (g x) = f x) \<Longrightarrow> find (\<lambda>x. f x = m) (map g xs) = map_option g (find (\<lambda>x. f x = m) xs)"
  by (induction xs) auto

lemma unmarked_UnmarkAllIn: "unmarked m (UnmarkAllIn d)"
  by (auto simp: unmarked_def UnmarkAllIn_def FindSong_def FindChild_def PlaylistVector_find_def find_map_keep keep_if_def
      split: option.split)

lemma unmarked_prepared: "unmarked m (prepared env excl info d)"
  by (simp add: prepared_def Let_def unmarked_UnmarkAllIn)

lemma DeleteNameIn_absent:
  assumes "tree_ok (fst s)"
  shows "\<not> present n (fst (snd (DeleteNameIn n s)))"
proof -
  define d1 where "d1 = (if FindChild (fst s) n \<noteq> None then fst (DeleteDirectory n s) else fst s)"
  define d2 where "d2 = (if FindSong d1 n \<noteq> None then RemoveSong n d1 else d1)"
  have ok: "tree_ok d1" "FindChild d1 n = None"
    using assms FindChild_DeleteDirectory [OF assms, of n n] touches_ok [OF touches_DeleteDirectory [OF assms]]
    by (auto simp: d1_def)
  then have 2: "FindSong d2 n = None" "FindChild d2 n = None" "tree_ok d2"
    using FindSong_RemoveSong [OF ok(1), of n n] touches_ok [OF touches_RemoveSong [OF ok(1)]]
    by (auto simp: d2_def) (simp add: RemoveSong_def FindChild_def)
  then show ?thesis
    using playlist_store.lookup_erase [OF tree_okD(3) [OF 2(3)], of n n]
    unfolding DeleteNameIn_steps Let_def d1_def [symmetric] d2_def [symmetric]
    by (simp add: present_def FindSong_def FindChild_def)
qed

lemma absent_unmarked: "\<not> present m d \<Longrightarrow> unmarked m d"
  by (simp add: present_def unmarked_def)

lemma update_entries_unmarked:
  assumes "update_entries (UpdateDirectory fuel env) env excl es (d # anc, st) = Some (cur', st')"
    "env_ok env" "\<forall>e \<in> set es. valid_name (fst e)" "tree_ok d" "\<forall>m. unmarked m d"
  shows "\<exists>d' anc'. cur' = d' # anc' \<and> tree_ok d' \<and> stat_cursor anc anc' \<and>
    (\<forall>m. unmarked m d' \<or> (\<exists>i. considered env excl es m (Some i)))"
proof -
  let ?I = "\<lambda>a. \<forall>m. unmarked m a \<or> (\<exists>i. considered env excl es m (Some i))"
  have "\<exists>d' anc'. cur' = d' # anc' \<and> tree_ok d' \<and> ?I d' \<and> stat_cursor anc anc'"
  proof (rule upd.update_entries_rule [OF assms(1-4), of ?I])
    show "?I d" using assms(5) by simp
    show "?I (fst (snd (DeleteNameIn n (a, t))))" if "tree_ok a" "?I a" for a n t
    proof
      fix m
      show "unmarked m (fst (snd (DeleteNameIn n (a, t)))) \<or> (\<exists>i. considered env excl es m (Some i))"
        using DeleteNameIn_absent [of "(a, t)" n] absent_unmarked that(1) that(2) [rule_format, of m]
          unmarked_same [OF touches_other [OF touches_DeleteNameIn [of "(a, t)" n], of m]]
        by (cases "m = n") auto
    qed
    show "?I b" if "considered env excl es n (Some info)" "?I a" "touches_set {n} a b" for a b n info
      using that unmarked_same by (metis singletonD touches_set_def)
  qed
  then show ?thesis by blast
qed

definition clear_mark :: "directory \<Rightarrow> directory" where
  "clear_mark c = Directory ((dir c)\<lparr>dir_mark := False\<rparr>) (children c)"

lemma prepared_child:
  assumes "tree_ok d" "\<not> excluded env (child_excludes env excl d) n"
  shows "FindChild (prepared env excl info d) n = map_option clear_mark (FindChild d n)"
proof -
  let ?Q = "\<lambda>c. \<not> excluded env (child_excludes env excl d) (GetName (dir d) (dir c))"
  have "find (\<lambda>c. GetName (dir d) (dir c) = n) (filter ?Q (children d)) = FindChild d n"
    using assms(2) find_filter [OF tree_okD(4) [OF assms(1)], of n ?Q]
    by (auto simp: FindChild_def split: option.splits dest: find_SomeD)
  moreover have "(\<lambda>c. Directory ((dir c)\<lparr>dir_mark := False\<rparr>) (children c)) = clear_mark"
    by (simp add: fun_eq_iff clear_mark_def)
  moreover have "GetName (dir d) (dir (clear_mark c)) = GetName (dir d) (dir c)" for c by (simp add: clear_mark_def)
  ultimately show ?thesis
    using find_map_keep [where f = "\<lambda>c. GetName (dir d) (dir c)" and g = clear_mark and m = n]
    by (simp add: prepared_def Let_def UnmarkAllIn_def directory_set_stat_def keep_entries_def FindChild_def)
qed


text \<open>The small storage, where a second database is mounted on the root directory.\<close>

definition sample_mount :: directory where
  "sample_mount = Directory ((dir (Directory_new ''nas'' False))\<lparr>mounted_database := Some 1\<rparr>) []"

definition sample_root_mount :: directory where
  "sample_root_mount = Directory (dir sample_root) [sample_mount]"

lemma sample_root_mount_ok: "tree_ok sample_root_mount"
  using sample_root_ok
  by (simp add: sample_root_mount_def sample_mount_def tree_ok_def sample_root_def AddSong_def NewRoot_def Directory_new_def
      path_ok_def child_ok_def GetName_def child_path_def valid_name_def)


section \<open>What is listed is found\<close>

lemma symlink_leaves_length: "length ds = length ds' \<Longrightarrow> symlink_leaves ds p = symlink_leaves ds' p"
proof (induction ds p arbitrary: ds' rule: symlink_leaves.induct)
  case (1 ds p)
  then show ?case
    by (subst (1 2) symlink_leaves.simps) (auto simp: length_Suc_conv split: list.splits, metis length_Cons)
qed

lemma SkipSymlink_cong:
  "\<lbrakk>length cur = length cur'; path (dir (hd cur)) = path (dir (hd cur'))\<rbrakk> \<Longrightarrow>
    SkipSymlink env cur n = SkipSymlink env cur' n"
proof -
  assume "length cur = length cur'" "path (dir (hd cur)) = path (dir (hd cur'))"
  moreover from this(1) have "symlink_leaves cur = symlink_leaves cur'" by (intro ext symlink_leaves_length)
  ultimately show ?thesis unfolding SkipSymlink_def by (simp only:)
qed

lemma update_entries_append:
  assumes "\<forall>k. \<not> cancelled env k"
  shows "update_entries rec env excl (xs @ ys) s = Option.bind (update_entries rec env excl xs s) (update_entries rec env excl ys)"
proof (induction xs arbitrary: s)
  case (Cons x xs)
  obtain n info where x: "x = (n, info)" by (meson surj_pair)
  show ?case using assms Cons by (cases s) (auto simp: x Let_def case_prod_unfold split: option.split)
qed simp

text \<open>In a loop that is not cancelled the entry of a name is processed once, and nothing else touches the name.\<close>

lemma update_entry_at:
  assumes U: "update_entries (UpdateDirectory f env) env excl es (d # anc, st) = Some (cur', st')"
    and env: "env_ok env" "\<forall>k. \<not> cancelled env k" and v: "\<forall>e \<in> set es. valid_name (fst e)" and d: "tree_ok d"
    and es: "distinct (map fst es)" "considered env excl es n (Some i)" "\<not> SkipSymlink env (d # anc) n"
  obtains a anca t b ancb t' d' anc' where "tree_ok a" "same_entries n d a" "keeps_id (dir d) (dir a)"
    "UpdateDirectoryChild (UpdateDirectory f env) env excl n i (a # anca, t) = Some (b # ancb, t')"
    "cur' = d' # anc'" "tree_ok d'" "same_entries n b d'"
proof -
  obtain pre post where E: "es = pre @ (n, Some i) # post" using es(2) by (meson considered_def split_list)
  then have n: "n \<notin> fst ` set pre" "n \<notin> fst ` set post" using es(1) by auto
  have vp: "\<forall>e \<in> set pre. valid_name (fst e)" "\<forall>e \<in> set post. valid_name (fst e)" "valid_name n" using v E by auto
  obtain cur1 st1 where U1: "update_entries (UpdateDirectory f env) env excl pre (d # anc, st) = Some (cur1, st1)"
    "update_entries (UpdateDirectory f env) env excl ((n, Some i) # post) (cur1, st1) = Some (cur', st')"
    using U unfolding E update_entries_append [OF env(2)] by (auto simp: bind_eq_Some_conv)
  obtain a anca where F1: "cur1 = a # anca" "touches_set (fst ` set pre) d a" "stat_cursor anc anca"
    using upd.update_entries_frame [OF U1(1) env(1) vp(1) d] by blast
  have a: "tree_ok a" "same_entries n d a" "keeps_id (dir d) (dir a)" using F1(2) n(1) by (auto simp: touches_set_def)
  have "\<not> SkipSymlink env (a # anca) n"
    using es(3) SkipSymlink_cong [of "a # anca" "d # anc" env n] keeps_id_identity [OF a(3)] list_all2_lengthD [OF F1(3)]
    by (simp add: same_identity_def)
  then obtain cur2 t' where C: "UpdateDirectoryChild (UpdateDirectory f env) env excl n i (a # anca, st1\<lparr>tick := tick st1 + 1\<rparr>) = Some (cur2, t')"
    "update_entries (UpdateDirectory f env) env excl post (cur2, t') = Some (cur', st')"
    using U1(2) F1(1) es(2) env(2) by (auto simp: Let_def considered_def split: option.splits)
  obtain b ancb where F2: "cur2 = b # ancb" "touches_set {n} a b"
    using upd.UpdateDirectoryChild_frame [OF env(1) a(1) vp(3) C(1)] by blast
  obtain d' anc' where F3: "cur' = d' # anc'" "touches_set (fst ` set post) b d'"
    using upd.update_entries_frame [OF C(2) [unfolded F2(1)] env(1) vp(2) touches_set_ok [OF F2(2)]] by blast
  show thesis
    using that [OF a C(1) [unfolded F2(1)] F3(1)] F3(2) n(2) by (auto simp: touches_set_def)
qed

lemma prepared_lookups:
  assumes "tree_ok d" "\<not> excluded env (child_excludes env excl d) n"
  shows "FindSong (prepared env excl info d) n = map_option (\<lambda>x. x\<lparr>song_mark := False\<rparr>) (FindSong d n)"
    "PlaylistVector_find n (playlists (dir (prepared env excl info d))) =
       map_option (\<lambda>p. p\<lparr>pl_mark := False\<rparr>) (PlaylistVector_find n (playlists (dir d)))"
proof -
  have "find (\<lambda>x. filename x = n) (filter (\<lambda>x. \<not> excluded env (child_excludes env excl d) (filename x)) (songs (dir d))) = FindSong d n"
    using assms(2) find_filter [OF tree_okD(2) [OF assms(1)], of n "\<lambda>x. \<not> excluded env (child_excludes env excl d) (filename x)"]
    by (auto simp: FindSong_def split: option.splits dest: find_SomeD)
  then show "FindSong (prepared env excl info d) n = map_option (\<lambda>x. x\<lparr>song_mark := False\<rparr>) (FindSong d n)"
    by (simp add: prepared_def Let_def UnmarkAllIn_def directory_set_stat_def keep_entries_def FindSong_def find_map_keep)
  show "PlaylistVector_find n (playlists (dir (prepared env excl info d))) =
       map_option (\<lambda>p. p\<lparr>pl_mark := False\<rparr>) (PlaylistVector_find n (playlists (dir d)))"
    by (simp add: prepared_def Let_def UnmarkAllIn_def directory_set_stat_def keep_entries_def PlaylistVector_find_def find_map_keep)
qed

text \<open>The two steps together, for a directory whose update succeeds.\<close>

lemma UpdateDirectory_entry:
  assumes "env_ok env" "\<forall>k. \<not> cancelled env k" "tree_ok d" "open_directory env (path (dir d)) = Some es"
    "distinct (map fst es)" "considered env (child_excludes env excl d) es n (Some i)" "\<not> SkipSymlink env (d # anc) n"
    "UpdateDirectory fuel env excl info (d # anc, st) = Some (r, cur', st')"
  obtains f a anca t b ancb t' d2 st2 where "tree_ok a" "same_entries n (prepared env excl info d) a"
    "same_identity (dir d) (dir a)"
    "UpdateDirectoryChild (UpdateDirectory f env) env (child_excludes env excl d) n i (a # anca, t) = Some (b # ancb, t')"
    "tree_ok d2" "same_entries n b d2" "hd cur' = finished info (d2, st2)"
proof (cases fuel)
  case (Suc f)
  then have "UpdateDirectory_body (UpdateDirectory f env) env excl info (d # anc, st) = Some (r, cur', st')"
    using assms(8) by simp
  then show thesis
    using assms(3)
  proof (cases rule: UpdateDirectory_body_cases)
    case (looped es' st1 cur st2)
    note P = prepared_facts [OF assms(3), of env excl info]
    have es: "es' = es" using looped(1) assms(4) by simp
    have "\<not> SkipSymlink env (prepared env excl info d # anc) n"
      using assms(7) SkipSymlink_cong [of "prepared env excl info d # anc" "d # anc"] P(2) by (simp add: same_identity_def)
    moreover have "\<forall>e \<in> set es. valid_name (fst e)" using assms(1,4) by (auto simp: env_ok_def names_valid_def)
    ultimately obtain a anca t b ancb t' d' anc' where A: "tree_ok a" "same_entries n (prepared env excl info d) a"
      "keeps_id (dir (prepared env excl info d)) (dir a)"
      "UpdateDirectoryChild (UpdateDirectory f env) env (child_excludes env excl d) n i (a # anca, t) = Some (b # ancb, t')"
      "cur = d' # anc'" "tree_ok d'" "same_entries n b d'"
      using update_entry_at [OF looped(3) [unfolded es] assms(1,2) _ P(1) assms(5,6)] by blast
    then show thesis
      using that [OF A(1,2) _ A(4,6,7)] P(2) looped(4) keeps_id_identity [OF A(3)] by (auto intro: same_identity_trans)
  qed (use assms(4) in simp)
qed (use assms(8) in simp)

section \<open>Song files\<close>

definition scan_uri :: "walk_env \<Rightarrow> string \<Rightarrow> (Tag \<times> AudioFormat) option" where
  "scan_uri env uri = (case map_fs env uri of None \<Rightarrow> stream_scan env uri | Some path_fs \<Rightarrow> file_scan env path_fs)"

text \<open>A regular file with a suffix that a decoder, and no container plugin, claims.\<close>

definition song_file :: "walk_env \<Rightarrow> string \<Rightarrow> StorageFileInfo \<Rightarrow> bool" where
  "song_file env n info \<longleftrightarrow> IsRegular info \<and>
     (case GetFilenameSuffix n of None \<Rightarrow> False
      | Some suffix \<Rightarrow> supports_suffix env suffix \<and> container_scanners env suffix = [])"

text \<open>The song that an update leaves in the database for such a file, given the one that was there.\<close>

definition scanned_song :: "walk_env \<Rightarrow> dir_info \<Rightarrow> string \<Rightarrow> StorageFileInfo \<Rightarrow> Song \<Rightarrow> Song option" where
  "scanned_song env i n info y =
     (case scan_uri env (GetURI i (Song_new n)) of
        None \<Rightarrow> None
      | Some (t, af) \<Rightarrow>
          if ShouldFilterByChannelCount (mode env) af then None
          else Some (y\<lparr>song_mtime := fi_mtime info, audio_format := af, song_tag := t, song_mark := True\<rparr>))"

definition song_after :: "walk_env \<Rightarrow> dir_info \<Rightarrow> string \<Rightarrow> StorageFileInfo \<Rightarrow> time_point \<Rightarrow> Song option \<Rightarrow> Song option" where
  "song_after env i n info now old =
     (if \<not> directory_child_access env i n then None
      else (case old of
          None \<Rightarrow> scanned_song env i n info ((Song_new n)\<lparr>added := now\<rparr>)
        | Some y \<Rightarrow>
            if song_mtime y = fi_mtime info \<and> \<not> walk_discard env then Some (y\<lparr>song_mark := True\<rparr>)
            else scanned_song env i n info y))"

lemma song_after_cong: "same_identity i j \<Longrightarrow> song_after env i = song_after env j"
proof -
  assume "same_identity i j"
  then have "scanned_song env i = scanned_song env j" "directory_child_access env i = directory_child_access env j"
    by (simp_all add: scanned_song_def fun_eq_iff directory_child_access_def same_identity_def GetURI_def)
  then show ?thesis by (intro ext) (simp only: song_after_def)
qed

lemma ShouldIncludeSong_filter: "ShouldIncludeSong m x \<longleftrightarrow> \<not> ShouldFilterByChannelCount m (audio_format x)"
  by (auto simp: ShouldIncludeSong_def ShouldFilterByChannelCount_def)

lemma song_after_unmarked:
  "song_after env i n info now (map_option (\<lambda>x. x\<lparr>song_mark := b\<rparr>) old) = song_after env i n info now old"
  by (cases old) (auto simp: song_after_def scanned_song_def split: option.split)

lemma UpdateFile_scan:
  assumes "filename x = n"
  shows "UpdateFile env i info x =
    map_option (\<lambda>(t, af). x\<lparr>song_mtime := fi_mtime info, audio_format := af, song_tag := t\<rparr>) (scan_uri env (GetURI i (Song_new n)))"
proof -
  have "GetURI i x = GetURI i (Song_new n)" using assms by (simp add: GetURI_def Song_new_def)
  then show ?thesis by (simp add: UpdateFile_def Let_def scan_uri_def)
qed

lemma UpdateSongFile2_after:
  assumes ok: "tree_ok (fst s)" and "container_scanners env suffix = []" "keep_if song_mark (FindSong (fst s) n) = None"
  shows "\<exists>k. keep_if song_mark (FindSong (fst (UpdateSongFile2 env n suffix info s)) n) =
    song_after env (dir (fst s)) n info (clock env k) (FindSong (fst s) n)"
proof -
  have C: "UpdateContainerFile env n suffix info s = (False, s)" using assms(2) by (simp add: UpdateContainerFile_def)
  show ?thesis
  proof (cases "FindSong (fst s) n")
    case None
    have load: "LoadFile env (dir (fst s)) n info =
      map_option (\<lambda>(t, af). (Song_new n)\<lparr>song_mtime := fi_mtime info, audio_format := af, song_tag := t\<rparr>)
        (scan_uri env (GetURI (dir (fst s)) (Song_new n)))"
      unfolding LoadFile_def by (rule UpdateFile_scan) (simp add: Song_new_def)
    have add: "FindSong (AddSong x (fst s)) n = Some x" if "filename x = n" for x
      using None that song_store.lookup_add [of "fst s" x n] by simp
    show ?thesis
      using None C load add
      by (intro exI [of _ "tick (snd s)"])
        (auto simp: UpdateSongFile2_def Let_def song_after_def scanned_song_def ShouldIncludeSong_filter ProcessSongTags_def Song_new_def
          split: option.split prod.split)
  next
    case (Some y)
    have key: "filename y = n" using Some by (rule song_store.lookup_key)
    note scan = UpdateFile_scan [OF key, of env "dir (fst s)" info]
    have gone: "FindSong (RemoveSong n (update_song n f (fst s))) n = None" if "\<And>x. filename x = n \<Longrightarrow> filename (f x) = n" for f
      using FindSong_RemoveSong [OF touches_ok [OF touches_update_song [OF ok that]]] by simp
    show ?thesis
      using Some C scan key gone assms(3)
      by (auto simp: UpdateSongFile2_def Let_def song_after_def scanned_song_def ShouldIncludeSong_filter ProcessSongTags_def
          FindSong_update_song fst_DeleteSong keep_if_def split: option.split prod.split if_splits)
  qed
qed


lemma sample_considered:
  "\<forall>k. \<not> cancelled sample_env k" "open_directory sample_env (path (dir sample_root)) = Some sample_listing"
  "distinct (map fst sample_listing)"
  "considered sample_env (child_excludes sample_env ExcludeList_empty sample_root) sample_listing ''a.flac'' (Some (file_info REGULAR 5 2))"
  "considered sample_env (child_excludes sample_env ExcludeList_empty sample_root) sample_listing ''b.xspf'' (Some (file_info REGULAR 7 3))"
  "\<not> SkipSymlink sample_env [sample_root] n"
  unfolding considered_def by (simp add: sample_env_def, code_simp+)


section \<open>Playlist files\<close>

definition playlist_file :: "walk_env \<Rightarrow> dir_info \<Rightarrow> string \<Rightarrow> StorageFileInfo \<Rightarrow> bool" where
  "playlist_file env i n info \<longleftrightarrow> IsRegular info \<and>
     (case GetFilenameSuffix n of None \<Rightarrow> False
      | Some suffix \<Rightarrow> \<not> supports_suffix env suffix \<and> archive_plugin env suffix = None \<and>
          find_playlist_plugin env suffix \<noteq> None \<and>
          \<not> (StringIsEqualIgnoreCase suffix ''cue'' \<and> ShouldIgnoreCueFile (open_file env) (open_directory env) (path i) n) \<and>
          \<not> StringIsEqualIgnoreCase suffix ''pls'' \<and> \<not> StringIsEqualIgnoreCase suffix ''m3u'')"

lemma UpdatePlaylistFile_playlists:
  assumes "tree_ok (fst s)" "valid_name n" "playlist_file env (dir (fst s)) n i"
  shows "playlists (dir (fst (snd (UpdateRegularFile env ancestors n i s)))) =
    snd (UpdateOrInsert (PlaylistInfo_new n (fi_mtime i)) (playlists (dir (fst s))))"
  using assms(3) UpdatePlaylistFile_folder_touches [OF assms(1,2), of env i]
  by (auto simp: playlist_file_def UpdateRegularFile_def UpdateSongFile_def UpdateArchiveFile_def UpdatePlaylistFile_def
      Let_def case_prod_unfold split: option.splits if_splits)

lemma keep_marked_UpdateOrInsert:
  assumes "keep_if pl_mark (PlaylistVector_find (pl_name pi) pv) = None"
  shows "map_option pl_mtime (keep_if pl_mark (PlaylistVector_find (pl_name pi) (snd (UpdateOrInsert pi pv)))) =
    (if map_option pl_mtime (PlaylistVector_find (pl_name pi) pv) = Some (pl_mtime pi) then None else Some (pl_mtime pi))"
proof (cases "PlaylistVector_find (pl_name pi) pv")
  case None
  then show ?thesis
    using find_snoc [of pl_name "pi\<lparr>pl_mark := True\<rparr>" pv "pl_name pi"] by (simp add: UpdateOrInsert_def PlaylistVector_find_def)
next
  case (Some p)
  then show ?thesis
    using assms by (auto simp: UpdateOrInsert_def PlaylistVector_find_def find_update_first split: if_splits)
qed

text \<open>
  Property C22 (error): an update that is not cancelled stores a playlist file that is new or
  whose time stamp has changed, but throws out the entry of a playlist file whose time stamp
  is the one in the database: its mark is cleared before the loop and not set again.
\<close>

theorem UpdateDirectory_drops_unchanged_playlist:
  assumes "env_ok env" "\<forall>k. \<not> cancelled env k" "tree_ok d" "open_directory env (path (dir d)) = Some es"
    "distinct (map fst es)" "considered env (child_excludes env excl d) es n (Some i)" "\<not> SkipSymlink env (d # anc) n"
    "playlist_file env (dir d) n i"
    "UpdateDirectory fuel env excl info (d # anc, st) = Some (r, cur', st')"
  shows "map_option pl_mtime (PlaylistVector_find n (playlists (dir (hd cur')))) =
    (if map_option pl_mtime (PlaylistVector_find n (playlists (dir d))) = Some (fi_mtime i) then None else Some (fi_mtime i))"
proof -
  obtain f a anca u b ancb u' d2 st2 where A: "tree_ok a" "same_entries n (prepared env excl info d) a"
    "same_identity (dir d) (dir a)"
    "UpdateDirectoryChild (UpdateDirectory f env) env (child_excludes env excl d) n i (a # anca, u) = Some (b # ancb, u')"
    "tree_ok d2" "same_entries n b d2" "hd cur' = finished info (d2, st2)"
    by (rule UpdateDirectory_entry [OF assms(1-7,9)])
  have "path (dir a) = path (dir d)" using A(3) by (simp add: same_identity_def)
  then have pf: "playlist_file env (dir a) n i" using assms(8) unfolding playlist_file_def by (simp only:)
  have n: "valid_name n" "\<not> excluded env (child_excludes env excl d) n"
    using assms(1,4,6) by (fastforce simp: considered_def env_ok_def names_valid_def)+
  have "b = fst (snd (UpdateRegularFile env (map dir anca) n i (a, u)))"
    using A(4) pf by (auto simp: UpdateDirectoryChild_def playlist_file_def at_head_def split: prod.splits)
  then have b: "playlists (dir b) = snd (UpdateOrInsert (PlaylistInfo_new n (fi_mtime i)) (playlists (dir a)))"
    using UpdatePlaylistFile_playlists [of "(a, u)" n env i "map dir anca"] A(1) n(1) pf by simp
  let ?find = "PlaylistVector_find n (playlists (dir a))"
  have fa: "?find = map_option (\<lambda>p. p\<lparr>pl_mark := False\<rparr>) (PlaylistVector_find n (playlists (dir d)))"
    using A(2) prepared_lookups(2) [OF assms(3) n(2)] by (simp add: same_entries_def)
  then have "keep_if pl_mark ?find = None" "map_option pl_mtime ?find = map_option pl_mtime (PlaylistVector_find n (playlists (dir d)))"
    by (cases "PlaylistVector_find n (playlists (dir d))"; simp)+
  moreover have "PlaylistVector_find n (playlists (dir (hd cur'))) = keep_if pl_mark (PlaylistVector_find n (playlists (dir b)))"
    using A(6) finished_lookups(3) [OF A(5)] by (simp add: A(7) same_entries_def)
  ultimately show ?thesis
    using keep_marked_UpdateOrInsert [of "PlaylistInfo_new n (fi_mtime i)" "playlists (dir a)"]
    by (simp add: b PlaylistInfo_new_def)
qed

theorem UpdateDirectory_drops_unchanged_playlist_witness:
  "\<exists>d' st'. UpdateDirectory 1 sample_env ExcludeList_empty sample_info ([sample_root], sample_state) = Some (True, [d'], st') \<and>
     map pl_name (playlists (dir sample_root)) = [''b.xspf''] \<and> PlaylistVector_find ''b.xspf'' (playlists (dir d')) = None"
proof -
  obtain d st where run: "UpdateDirectory 1 sample_env ExcludeList_empty sample_info ([sample_root], sample_state) = Some (True, [d], st)"
    using sample_run by blast
  have "playlist_file sample_env (dir sample_root) ''b.xspf'' (file_info REGULAR 7 3)"
    "map_option pl_mtime (PlaylistVector_find ''b.xspf'' (playlists (dir sample_root))) = Some (fi_mtime (file_info REGULAR 7 3))"
    "map pl_name (playlists (dir sample_root)) = [''b.xspf'']"
    by code_simp+
  then show ?thesis
    using UpdateDirectory_drops_unchanged_playlist
      [OF sample_env_ok sample_considered(1) sample_root_ok sample_considered(2,3,5,6) _ run] run
    by simp
qed

end
