(* ===== verification/Composite_Storage.thy ===== *)
theory Composite_Storage
  imports Update_Filters "HOL-Library.List_Lexorder" "HOL-Library.Char_ord"
begin

text \<open>
  storage/CompositeStorage.cxx: the virtual directory tree that mounts storages below one
  another. The storages themselves are plugins: a mounted storage is a number, and
  \<open>storage_ops\<close> (a parameter of the operations that call it) says what the virtual methods
  of that storage do. The abstract view of the tree is the partial map from mount points
  (lists of names) to storages; Mount, Unmount, GetMount and VisitMounts are proved to be
  update, removal, lookup and graph of that map. The directory reader that mixes mount
  points into a listing keeps its \<open>std::set\<close> iterators as keys, so that using an iterator
  whose element was erased is a value of the model.
\<close>

section \<open>Outcomes of calls\<close>

record 'input storage_ops =
  so_GetInfo :: "string \<Rightarrow> bool \<Rightarrow> StorageFileInfo outcome"
  so_OpenDirectory :: "string \<Rightarrow> listing outcome"
  so_MapUTF8 :: "string \<Rightarrow> string"
  so_MapFS :: "string \<Rightarrow> string option"
  so_MapToRelativeUTF8 :: "string \<Rightarrow> string option"
  so_OpenFile :: "string \<Rightarrow> 'input outcome"

definition StorageFileInfo_of_type :: "file_type \<Rightarrow> StorageFileInfo" where
  "StorageFileInfo_of_type t =
     \<lparr>fi_type = t, fi_size = 0, fi_mtime = time_point_min, fi_device = 0, fi_inode = 0\<rparr>"

section \<open>The virtual directory tree\<close>

text \<open>\<open>std::map<std::string, Directory>\<close>: an association list in key order.\<close>

datatype cdir = CDir (cd_storage: "nat option") (cd_children: "(string \<times> cdir) list")

definition CDir_new :: cdir where
  "CDir_new = CDir None []"

definition CDir_IsEmpty :: "cdir \<Rightarrow> bool" where
  "CDir_IsEmpty d \<longleftrightarrow> cd_storage d = None \<and> cd_children d = []"

text \<open>\<open>emplace\<close> of a fresh value unless the key exists, then a change of the value there.\<close>

fun emplace_with :: "string \<Rightarrow> ('v \<Rightarrow> 'v) \<Rightarrow> 'v \<Rightarrow> (string \<times> 'v) list \<Rightarrow> (string \<times> 'v) list" where
  "emplace_with k f v0 [] = [(k, f v0)]"
| "emplace_with k f v0 ((j, v) # cs) =
     (if k = j then (j, f v) # cs
      else if k < j then (k, f v0) # (j, v) # cs
      else (j, v) # emplace_with k f v0 cs)"

definition erase_key :: "string \<Rightarrow> (string \<times> 'v) list \<Rightarrow> (string \<times> 'v) list" where
  "erase_key k cs = filter (\<lambda>(j, v). j \<noteq> k) cs"

definition NextSegment :: "string \<Rightarrow> string \<times> string" where
  "NextSegment uri = (case Split uri CHR ''/'' of (a, r) \<Rightarrow> (a, rest_view r))"

fun CDir_Find_names :: "cdir \<Rightarrow> string list \<Rightarrow> cdir option" where
  "CDir_Find_names d [] = Some d"
| "CDir_Find_names d (name # names) =
     (if name = [] then CDir_Find_names d names
      else case map_of (cd_children d) name of
          None \<Rightarrow> None
        | Some c \<Rightarrow> CDir_Find_names c names)"

definition CDir_Find :: "cdir \<Rightarrow> string \<Rightarrow> cdir option" where
  "CDir_Find d uri = CDir_Find_names d (IterableSplitString uri CHR ''/'')"

text \<open>\<open>Make\<close> returns a reference to the node; \<open>f\<close> is what the caller does through it.\<close>

fun Make_names :: "(cdir \<Rightarrow> cdir) \<Rightarrow> string list \<Rightarrow> cdir \<Rightarrow> cdir" where
  "Make_names f [] d = f d"
| "Make_names f (name # names) d =
     (if name = [] then Make_names f names d
      else CDir (cd_storage d)
             (emplace_with name (Make_names f names) CDir_new (cd_children d)))"

definition CDir_Make :: "(cdir \<Rightarrow> cdir) \<Rightarrow> string \<Rightarrow> cdir \<Rightarrow> cdir" where
  "CDir_Make f uri d = Make_names f (IterableSplitString uri CHR ''/'') d"

definition CDir_Unmount_here :: "cdir \<Rightarrow> bool \<times> cdir" where
  "CDir_Unmount_here d =
     (case cd_storage d of None \<Rightarrow> (False, d) | Some _ \<Rightarrow> (True, CDir None (cd_children d)))"

lemma NextSegment_shorter: "\<lbrakk>uri \<noteq> []; NextSegment uri = (name, rest)\<rbrakk> \<Longrightarrow> length rest < length uri"
  by (rule Split_cases [of uri "CHR ''/''"])
    (auto simp: NextSegment_def rest_view_def)

function CDir_Unmount :: "cdir \<Rightarrow> string \<Rightarrow> bool \<times> cdir" where
  "CDir_Unmount d uri =
     (if uri = [] then CDir_Unmount_here d
      else case NextSegment uri of (name, rest) \<Rightarrow>
        (case map_of (cd_children d) name of
           None \<Rightarrow> (False, d)
         | Some c \<Rightarrow>
             (case CDir_Unmount c rest of
                (False, _) \<Rightarrow> (False, d)
              | (True, c') \<Rightarrow>
                  (True, CDir (cd_storage d)
                     (if CDir_IsEmpty c' then erase_key name (cd_children d)
                      else emplace_with name (\<lambda>_. c') c' (cd_children d))))))"
  by pat_completeness auto
termination
  by (relation "measure (\<lambda>(d, uri). length uri)") (auto dest: NextSegment_shorter [OF _ sym])

declare CDir_Unmount.simps [simp del]

text \<open>The result buffer is \<open>None\<close> while it is untouched.\<close>

function CDir_MapToRelativeUTF8 ::
    "(nat \<Rightarrow> 'i storage_ops) \<Rightarrow> cdir \<Rightarrow> string \<Rightarrow> string option"
  and MapToRelative_children ::
    "(nat \<Rightarrow> 'i storage_ops) \<Rightarrow> (string \<times> cdir) list \<Rightarrow> string \<Rightarrow> string option" where
  "CDir_MapToRelativeUTF8 ops (CDir st cs) uri =
     (case Option.bind st (\<lambda>s. so_MapToRelativeUTF8 (ops s) uri) of
        Some result \<Rightarrow> Some result
      | None \<Rightarrow> MapToRelative_children ops cs uri)"
| "MapToRelative_children ops [] uri = None"
| "MapToRelative_children ops ((name, c) # cs) uri =
     (case CDir_MapToRelativeUTF8 ops c uri of
        Some buffer \<Rightarrow> Some (name @ CHR ''/'' # buffer)
      | None \<Rightarrow> MapToRelative_children ops cs uri)"
  by pat_completeness auto
termination
  by (relation "measure (\<lambda>x. case x of Inl (_, d, _) \<Rightarrow> 2 * size d + 1
       | Inr (_, cs, _) \<Rightarrow> 2 * size (CDir None cs))") simp_all

section \<open>CompositeStorage\<close>

definition CompositeStorage_Mount :: "cdir \<Rightarrow> string \<Rightarrow> nat \<Rightarrow> cdir" where
  "CompositeStorage_Mount root uri s = CDir_Make (\<lambda>d. CDir (Some s) (cd_children d)) uri root"

definition CompositeStorage_Unmount :: "cdir \<Rightarrow> string \<Rightarrow> bool \<times> cdir" where
  "CompositeStorage_Unmount root uri = CDir_Unmount root uri"

text \<open>The loop of \<open>FindStorage\<close>: the best result so far, the directory and the rest.\<close>

function FindStorage_loop :: "cdir \<times> string \<Rightarrow> cdir \<Rightarrow> string \<Rightarrow> cdir \<times> string" where
  "FindStorage_loop result directory uri =
     (if uri = [] then result
      else case NextSegment uri of (name, rest) \<Rightarrow>
        (case map_of (cd_children directory) name of
           None \<Rightarrow> result
         | Some c \<Rightarrow>
             FindStorage_loop (if cd_storage c \<noteq> None then (c, rest) else result) c rest))"
  by pat_completeness auto
termination
  by (relation "measure (\<lambda>(r, d, uri). length uri)") (auto dest: NextSegment_shorter [OF _ sym])

declare FindStorage_loop.simps [simp del]

definition FindStorage :: "cdir \<Rightarrow> string \<Rightarrow> cdir \<times> string" where
  "FindStorage root uri = FindStorage_loop (root, uri) root uri"

definition GetMount :: "cdir \<Rightarrow> string \<Rightarrow> nat option" where
  "GetMount root uri =
     (case FindStorage root uri of (d, rest) \<Rightarrow> if rest \<noteq> [] then None else cd_storage d)"

definition IsMountPoint :: "cdir \<Rightarrow> string \<Rightarrow> bool" where
  "IsMountPoint root uri \<longleftrightarrow> GetMount root uri \<noteq> None"

text \<open>\<open>VisitMounts\<close>: the callbacks in order; \<open>uri\<close> is the buffer as the callee gets it.\<close>

function VisitMounts :: "string \<Rightarrow> cdir \<Rightarrow> (string \<times> nat) list"
  and VisitMounts_children :: "string \<Rightarrow> (string \<times> cdir) list \<Rightarrow> (string \<times> nat) list" where
  "VisitMounts uri (CDir st cs) =
     (case st of None \<Rightarrow> [] | Some s \<Rightarrow> [(uri, s)]) @
     VisitMounts_children (if uri = [] then [] else uri @ [CHR ''/'']) cs"
| "VisitMounts_children base [] = []"
| "VisitMounts_children base ((name, c) # cs) =
     VisitMounts (base @ name) c @ VisitMounts_children base cs"
  by pat_completeness auto
termination
  by (relation "measure (\<lambda>x. case x of Inl (_, d) \<Rightarrow> 2 * size d + 1
       | Inr (_, cs) \<Rightarrow> 2 * size (CDir None cs))") simp_all

function IsMounted :: "(nat \<Rightarrow> 'i storage_ops) \<Rightarrow> cdir \<Rightarrow> string \<Rightarrow> bool"
  and IsMounted_children :: "(nat \<Rightarrow> 'i storage_ops) \<Rightarrow> (string \<times> cdir) list \<Rightarrow> string \<Rightarrow> bool" where
  "IsMounted ops (CDir st cs) storage_uri =
     ((case st of None \<Rightarrow> False | Some s \<Rightarrow> so_MapUTF8 (ops s) [] = storage_uri) \<or>
      IsMounted_children ops cs storage_uri)"
| "IsMounted_children ops [] storage_uri = False"
| "IsMounted_children ops ((name, c) # cs) storage_uri =
     (IsMounted ops c storage_uri \<or> IsMounted_children ops cs storage_uri)"
  by pat_completeness auto
termination
  by (relation "measure (\<lambda>x. case x of Inl (_, d, _) \<Rightarrow> 2 * size d + 1
       | Inr (_, cs, _) \<Rightarrow> 2 * size (CDir None cs))") simp_all

definition CompositeStorage_GetInfo ::
    "(nat \<Rightarrow> 'i storage_ops) \<Rightarrow> cdir \<Rightarrow> string \<Rightarrow> bool \<Rightarrow> StorageFileInfo outcome" where
  "CompositeStorage_GetInfo ops root uri follow =
     (case FindStorage root uri of (d, rest) \<Rightarrow>
        let virtual = (\<lambda>error. case CDir_Find d rest of
                Some _ \<Rightarrow> Returns (StorageFileInfo_of_type DIRECTORY)
              | None \<Rightarrow> Throws error)
        in case cd_storage d of
            None \<Rightarrow> virtual ''No such file or directory''
          | Some s \<Rightarrow>
              (case so_GetInfo (ops s) rest follow of
                 Throws error \<Rightarrow> virtual error
               | outcome \<Rightarrow> outcome))"

section \<open>The reader of a directory with mount points\<close>

text \<open>
  \<open>cr_other\<close>: the entries the other reader has not returned yet, \<open>None\<close> once it is reset;
  \<open>cr_info\<close>: what its \<open>GetInfo\<close> gives. An iterator into \<open>names\<close> is its key, \<open>None\<close> the end.
\<close>

record composite_reader =
  cr_other :: "listing option"
  cr_info :: "StorageFileInfo option"
  cr_names :: "string list"
  cr_current :: "string option"
  cr_next :: "string option"

definition set_begin :: "string list \<Rightarrow> string option" where
  "set_begin names = (case names of [] \<Rightarrow> None | n # _ \<Rightarrow> Some n)"

definition set_next :: "string list \<Rightarrow> string \<Rightarrow> string option" where
  "set_next names k = set_begin (filter (\<lambda>n. k < n) names)"

definition CompositeDirectoryReader :: "listing option \<Rightarrow> (string \<times> cdir) list \<Rightarrow> composite_reader" where
  "CompositeDirectoryReader other cs =
     \<lparr>cr_other = other, cr_info = None, cr_names = map fst cs, cr_current = None,
      cr_next = set_begin (map fst cs)\<rparr>"

definition Reader_Read :: "composite_reader \<Rightarrow> (string option \<times> composite_reader) outcome" where
  "Reader_Read r =
     (case cr_other r of
        Some ((name, info) # rest) \<Rightarrow>
          Returns (Some name, r\<lparr>cr_other := Some rest, cr_info := info,
                                cr_names := filter (\<lambda>n. n \<noteq> name) (cr_names r)\<rparr>)
      | _ \<Rightarrow>
          (case cr_next r of
             None \<Rightarrow> Returns (None, r\<lparr>cr_other := None\<rparr>)
           | Some k \<Rightarrow>
               if k \<notin> set (cr_names r) then UB
               else Returns (Some k, r\<lparr>cr_other := None, cr_current := Some k,
                                       cr_next := set_next (cr_names r) k\<rparr>)))"

definition Reader_GetInfo :: "composite_reader \<Rightarrow> StorageFileInfo outcome" where
  "Reader_GetInfo r =
     (case cr_other r of
        Some _ \<Rightarrow> (case cr_info r of Some i \<Rightarrow> Returns i | None \<Rightarrow> Throws ''GetInfo'')
      | None \<Rightarrow> Returns (StorageFileInfo_of_type DIRECTORY))"

text \<open>The caller's loop: read names until the null pointer, at most \<open>n\<close> of them.\<close>

fun read_names :: "nat \<Rightarrow> composite_reader \<Rightarrow> string list outcome" where
  "read_names 0 r = Returns []"
| "read_names (Suc n) r =
     (case Reader_Read r of
        Returns (None, _) \<Rightarrow> Returns []
      | Returns (Some name, r') \<Rightarrow>
          (case read_names n r' of Returns names \<Rightarrow> Returns (name # names) | e \<Rightarrow> e)
      | Throws e \<Rightarrow> Throws e
      | UB \<Rightarrow> UB)"

datatype storage_reader = PluginReader listing | CompositeReader composite_reader

definition CompositeStorage_OpenDirectory ::
    "(nat \<Rightarrow> 'i storage_ops) \<Rightarrow> cdir \<Rightarrow> string \<Rightarrow> storage_reader outcome" where
  "CompositeStorage_OpenDirectory ops root uri =
     (case FindStorage root uri of (d, rest) \<Rightarrow>
        (case CDir_Find d rest of
           Some (CDir st (c # cs)) \<Rightarrow>
             (case cd_storage d of
                None \<Rightarrow> UB
              | Some s \<Rightarrow>
                  (case so_OpenDirectory (ops s) rest of
                     Returns l \<Rightarrow> Returns (CompositeReader (CompositeDirectoryReader (Some l) (c # cs)))
                   | Throws _ \<Rightarrow> Returns (CompositeReader (CompositeDirectoryReader None (c # cs)))
                   | UB \<Rightarrow> UB))
         | _ \<Rightarrow>
             (case cd_storage d of
                None \<Rightarrow> Throws ''No such directory''
              | Some s \<Rightarrow>
                  (case so_OpenDirectory (ops s) rest of
                     Returns l \<Rightarrow> Returns (PluginReader l)
                   | Throws e \<Rightarrow> Throws e
                   | UB \<Rightarrow> UB))))"

definition CompositeStorage_MapUTF8 :: "(nat \<Rightarrow> 'i storage_ops) \<Rightarrow> cdir \<Rightarrow> string \<Rightarrow> string" where
  "CompositeStorage_MapUTF8 ops root uri =
     (case FindStorage root uri of (d, rest) \<Rightarrow>
        (case cd_storage d of None \<Rightarrow> [] | Some s \<Rightarrow> so_MapUTF8 (ops s) rest))"

definition CompositeStorage_MapFS :: "(nat \<Rightarrow> 'i storage_ops) \<Rightarrow> cdir \<Rightarrow> string \<Rightarrow> string option" where
  "CompositeStorage_MapFS ops root uri =
     (case FindStorage root uri of (d, rest) \<Rightarrow>
        (case cd_storage d of None \<Rightarrow> None | Some s \<Rightarrow> so_MapFS (ops s) rest))"

definition CompositeStorage_MapToRelativeUTF8 ::
    "(nat \<Rightarrow> 'i storage_ops) \<Rightarrow> cdir \<Rightarrow> string \<Rightarrow> string option" where
  "CompositeStorage_MapToRelativeUTF8 ops root uri =
     (case Option.bind (cd_storage root) (\<lambda>s. so_MapToRelativeUTF8 (ops s) uri) of
        Some result \<Rightarrow> Some result
      | None \<Rightarrow> CDir_MapToRelativeUTF8 ops root uri)"

text \<open>The null input stream is \<open>Returns None\<close>.\<close>

definition CompositeStorage_OpenFile ::
    "(nat \<Rightarrow> 'i storage_ops) \<Rightarrow> cdir \<Rightarrow> string \<Rightarrow> 'i option outcome" where
  "CompositeStorage_OpenFile ops root uri =
     (case FindStorage root uri of (d, rest) \<Rightarrow>
        (case cd_storage d of
           None \<Rightarrow> Returns None
         | Some s \<Rightarrow> (case so_OpenFile (ops s) rest of
               Returns i \<Rightarrow> Returns (Some i) | Throws e \<Rightarrow> Throws e | UB \<Rightarrow> UB)))"

section \<open>The abstract view: a map from mount points to storages\<close>

fun node_at :: "cdir \<Rightarrow> string list \<Rightarrow> cdir option" where
  "node_at d [] = Some d"
| "node_at d (n # ns) = (case map_of (cd_children d) n of None \<Rightarrow> None | Some c \<Rightarrow> node_at c ns)"

definition mounts :: "cdir \<Rightarrow> string list \<Rightarrow> nat option" where
  "mounts d ns = Option.bind (node_at d ns) cd_storage"

text \<open>
  Keys in order, no empty or composed name, and (the comment of the class) no leaf without a
  storage other than the root.
\<close>

fun cdir_ok :: "cdir \<Rightarrow> bool" where
  "cdir_ok (CDir st cs) \<longleftrightarrow>
     sorted_wrt (<) (map fst cs) \<and>
     (\<forall>x \<in> set cs. valid_name (fst x) \<and> \<not> CDir_IsEmpty (snd x) \<and> cdir_ok (snd x))"

text \<open>The URI of a mount point: its names with slashes between them.\<close>

fun join_uri :: "string list \<Rightarrow> string" where
  "join_uri [] = []"
| "join_uri [n] = n"
| "join_uri (n # m # ns) = n @ CHR ''/'' # join_uri (m # ns)"

lemma join_uri_empty_iff: "\<forall>n \<in> set ns. valid_name n \<Longrightarrow> join_uri ns = [] \<longleftrightarrow> ns = []"
  by (cases ns rule: join_uri.cases) (auto simp: valid_name_def)

lemma NextSegment_join [text_simps]:
  "valid_name n \<Longrightarrow> NextSegment (join_uri (n # ns)) = (n, join_uri ns)"
  by (cases ns) (auto simp: NextSegment_def Split_append Split_none rest_view_def valid_name_def)

lemma IterableSplitString_join [text_simps]:
  "\<lbrakk>\<forall>n \<in> set ns. valid_name n; ns \<noteq> []\<rbrakk> \<Longrightarrow> IterableSplitString (join_uri ns) CHR ''/'' = ns"
proof (induction ns rule: join_uri.induct)
  case (2 n)
  then show ?case by (subst IterableSplitString.simps) (simp add: Split_none valid_name_def)
next
  case (3 n m ns)
  then show ?case
    by (subst IterableSplitString.simps) (simp add: Split_append valid_name_def)
qed simp

lemma IterableSplitString_Nil [simp]: "IterableSplitString [] ch = [[]]"
  by (subst IterableSplitString.simps) (simp add: Split_none)

subsection \<open>The ordered map\<close>

lemma map_of_emplace_with:
  "sorted_wrt (<) (map fst cs) \<Longrightarrow>
   map_of (emplace_with k f v0 cs) =
     (map_of cs)(k \<mapsto> f (case map_of cs k of None \<Rightarrow> v0 | Some v \<Rightarrow> v))"
proof (induction cs)
  case (Cons x cs)
  obtain j v where x: "x = (j, v)" by (cases x)
  have "k < j \<Longrightarrow> map_of cs k = None"
    using Cons.prems by (auto simp: x map_of_eq_None_iff)
  with Cons show ?case by (auto simp: x fun_eq_iff)
qed simp

lemma fst_emplace_with: "fst ` set (emplace_with k f v0 cs) = insert k (fst ` set cs)"
  by (induction k f v0 cs rule: emplace_with.induct) auto

lemma sorted_emplace_with:
  "sorted_wrt (<) (map fst cs) \<Longrightarrow> sorted_wrt (<) (map fst (emplace_with k f v0 cs))"
proof (induction cs)
  case (Cons x cs)
  obtain j v where x: "x = (j, v)" by (cases x)
  have *: "\<forall>i \<in> fst ` set (emplace_with k f v0 cs). j < i" if "j < k"
    using Cons.prems that by (auto simp: x fst_emplace_with)
  show ?case
  proof (cases "j < k")
    case True
    with * Cons show ?thesis by (auto simp: x)
  next
    case False
    with Cons.prems show ?thesis by (auto simp: x)
  qed
qed simp

lemma set_emplace_with:
  "x \<in> set (emplace_with k f v0 cs) \<Longrightarrow>
   x \<in> set cs \<or> x = (k, f v0) \<or> (\<exists>v. (k, v) \<in> set cs \<and> x = (k, f v))"
  by (induction k f v0 cs rule: emplace_with.induct) (auto split: if_splits)

lemma emplace_with_nonempty [simp]: "emplace_with k f v0 cs \<noteq> []"
  by (cases "(k, f, v0, cs)" rule: emplace_with.cases) auto

lemma map_of_erase_key: "map_of (erase_key k cs) = (map_of cs)(k := None)"
  by (induction cs) (auto simp: erase_key_def fun_eq_iff)

lemma sorted_erase_key: "sorted_wrt (<) (map fst cs) \<Longrightarrow> sorted_wrt (<) (map fst (erase_key k cs))"
  by (induction cs) (auto simp: erase_key_def)

subsection \<open>Mount\<close>

lemma cdir_okD:
  assumes "cdir_ok d"
  shows "sorted_wrt (<) (map fst (cd_children d))"
    and "map_of (cd_children d) n = Some c \<Longrightarrow> valid_name n \<and> \<not> CDir_IsEmpty c \<and> cdir_ok c"
  using assms by (cases d; force dest: map_of_SomeD)+

lemma cdir_ok_new [simp]: "cdir_ok CDir_new"
  by (simp add: CDir_new_def)

lemma mounts_new [simp]: "mounts CDir_new ns = None"
  by (cases ns) (auto simp: mounts_def CDir_new_def)

lemma mounts_simps:
  "mounts d [] = cd_storage d"
  "mounts d (n # ns) = (case map_of (cd_children d) n of None \<Rightarrow> None | Some c \<Rightarrow> mounts c ns)"
  by (auto simp: mounts_def split: option.split)

abbreviation set_storage :: "nat \<Rightarrow> cdir \<Rightarrow> cdir" where
  "set_storage s \<equiv> \<lambda>d. CDir (Some s) (cd_children d)"

lemma mounts_Make_names:
  "\<lbrakk>cdir_ok d; \<forall>n \<in> set ns. valid_name n\<rbrakk> \<Longrightarrow>
   mounts (Make_names (set_storage s) ns d) = (mounts d)(ns \<mapsto> s)"
proof (induction ns arbitrary: d)
  case Nil
  show ?case
  proof
    fix ms
    show "mounts (Make_names (set_storage s) [] d) ms = ((mounts d)([] \<mapsto> s)) ms"
      by (cases ms) (auto simp: mounts_simps)
  qed
next
  case (Cons n ns)
  have n: "n \<noteq> []" using Cons.prems(2) by (simp add: valid_name_def)
  let ?c = "case map_of (cd_children d) n of None \<Rightarrow> CDir_new | Some v \<Rightarrow> v"
  have c: "cdir_ok ?c" using cdir_okD(2) [OF Cons.prems(1), of n] by (auto split: option.split)
  have IH: "mounts (Make_names (set_storage s) ns ?c) = (mounts ?c)(ns \<mapsto> s)"
    by (rule Cons.IH [OF c]) (use Cons.prems(2) in simp)
  show ?case
  proof
    fix ms
    show "mounts (Make_names (set_storage s) (n # ns) d) ms = ((mounts d)(n # ns \<mapsto> s)) ms"
      by (cases ms)
        (auto simp: n mounts_simps map_of_emplace_with [OF cdir_okD(1) [OF Cons.prems(1)]] IH
              split: option.split)
  qed
qed

lemma cdir_ok_Make_names:
  "\<lbrakk>cdir_ok d; \<forall>n \<in> set ns. valid_name n\<rbrakk> \<Longrightarrow>
   cdir_ok (Make_names (set_storage s) ns d) \<and> \<not> CDir_IsEmpty (Make_names (set_storage s) ns d)"
proof (induction ns arbitrary: d)
  case Nil
  then show ?case by (cases d) (auto simp: CDir_IsEmpty_def)
next
  case (Cons n ns)
  let ?f = "Make_names (set_storage s) ns"
  have n: "n \<noteq> []" "valid_name n" using Cons.prems(2) by (auto simp: valid_name_def)
  have "valid_name (fst x) \<and> \<not> CDir_IsEmpty (snd x) \<and> cdir_ok (snd x)"
    if "x \<in> set (emplace_with n ?f CDir_new (cd_children d))" for x
    using set_emplace_with [OF that] Cons n by (cases d) fastforce
  then show ?case
    using sorted_emplace_with [OF cdir_okD(1) [OF Cons.prems(1)]] n
    by (simp add: CDir_IsEmpty_def)
qed

lemma CDir_Make_join:
  "\<forall>n \<in> set ns. valid_name n \<Longrightarrow> CDir_Make f (join_uri ns) d = Make_names f ns d"
  by (cases "ns = []") (auto simp: CDir_Make_def IterableSplitString_join)

subsection \<open>Unmount\<close>

lemma mounts_IsEmpty: "CDir_IsEmpty d \<Longrightarrow> mounts d = Map.empty"
  by (rule ext, case_tac x) (auto simp: mounts_simps CDir_IsEmpty_def)

definition unmounted :: "cdir \<Rightarrow> string list \<Rightarrow> bool \<times> cdir \<Rightarrow> bool" where
  "unmounted d ns r \<longleftrightarrow>
     (fst r \<longleftrightarrow> mounts d ns \<noteq> None) \<and> mounts (snd r) = (mounts d)(ns := None) \<and>
     cdir_ok (snd r)"

lemma unmounted_here:
  assumes "cdir_ok d"
  shows "unmounted d [] (CDir_Unmount_here d)"
proof (cases "cd_storage d")
  case None
  then have "mounts d [] = None" by (simp add: mounts_simps)
  then show ?thesis
    using None assms by (simp add: unmounted_def CDir_Unmount_here_def fun_upd_idem)
next
  case (Some s)
  have "mounts (CDir None (cd_children d)) ms = ((mounts d)([] := None)) ms" for ms
    by (cases ms) (auto simp: mounts_simps)
  then have "mounts (CDir None (cd_children d)) = (mounts d)([] := None)" by (rule ext)
  moreover have "cdir_ok (CDir None (cd_children d))" using assms by (cases d) simp
  moreover have "mounts d [] = Some s" using Some by (simp add: mounts_simps)
  ultimately show ?thesis
    using Some by (simp add: unmounted_def CDir_Unmount_here_def)
qed

lemma unmounted_child:
  assumes d: "cdir_ok d" and c: "map_of (cd_children d) n = Some c"
    and u: "unmounted c ns (True, c')"
  shows "unmounted d (n # ns) (True, CDir (cd_storage d)
           (if CDir_IsEmpty c' then erase_key n (cd_children d)
            else emplace_with n (\<lambda>_. c') c' (cd_children d)))"
proof -
  let ?cs = "if CDir_IsEmpty c' then erase_key n (cd_children d)
             else emplace_with n (\<lambda>_. c') c' (cd_children d)"
  note sorted = cdir_okD(1) [OF d]
  have c': "mounts c' = (mounts c)(ns := None)" "cdir_ok c'" "mounts c ns \<noteq> None"
    using u by (auto simp: unmounted_def)
  have n: "valid_name n" using cdir_okD(2) [OF d c] by simp
  have "map_of ?cs n = (if CDir_IsEmpty c' then None else Some c')"
    and other: "m \<noteq> n \<Longrightarrow> map_of ?cs m = map_of (cd_children d) m" for m
    by (auto simp: map_of_erase_key map_of_emplace_with [OF sorted] split: option.split)
  then have at_n: "(case map_of ?cs n of None \<Rightarrow> None | Some c \<Rightarrow> mounts c ms) = ((mounts c)(ns := None)) ms" for ms
    using mounts_IsEmpty [of c'] c'(1) by (metis option.simps(4,5))
  have "mounts (CDir (cd_storage d) ?cs) ms = ((mounts d)(n # ns := None)) ms" for ms
  proof (cases ms)
    case (Cons m ms')
    then show ?thesis
      using c other [of m] at_n [of ms'] by (cases "m = n") (simp_all only: mounts_simps cdir.sel fun_upd_apply list.inject option.simps simp_thms if_False)
  qed (simp add: mounts_simps)
  moreover have "sorted_wrt (<) (map fst ?cs)"
    using sorted_erase_key [OF sorted] sorted_emplace_with [OF sorted] by simp
  moreover have "valid_name (fst x) \<and> \<not> CDir_IsEmpty (snd x) \<and> cdir_ok (snd x)" if "x \<in> set ?cs" for x
    using that d n c'(2) by (cases d) (auto simp: erase_key_def split: if_splits dest!: set_emplace_with)
  ultimately show ?thesis
    using c c'(3) by (auto simp: unmounted_def mounts_simps)
qed

lemma unmounted_Unmount:
  "\<lbrakk>cdir_ok d; \<forall>n \<in> set ns. valid_name n\<rbrakk> \<Longrightarrow> unmounted d ns (CDir_Unmount d (join_uri ns))"
proof (induction ns arbitrary: d)
  case Nil
  then show ?case by (simp add: CDir_Unmount.simps unmounted_here)
next
  case (Cons n ns)
  have n: "valid_name n" and ne: "join_uri (n # ns) \<noteq> []"
    using Cons.prems(2) join_uri_empty_iff [of "n # ns"] by auto
  have unfold: "CDir_Unmount d (join_uri (n # ns)) =
      (case map_of (cd_children d) n of
           None \<Rightarrow> (False, d)
         | Some c \<Rightarrow>
             (case CDir_Unmount c (join_uri ns) of
                (False, _) \<Rightarrow> (False, d)
              | (True, c') \<Rightarrow>
                  (True, CDir (cd_storage d)
                     (if CDir_IsEmpty c' then erase_key n (cd_children d)
                      else emplace_with n (\<lambda>_. c') c' (cd_children d)))))"
    by (subst CDir_Unmount.simps) (simp add: ne NextSegment_join [OF n])
  have unchanged: "unmounted d (n # ns) (False, d)" if "mounts d (n # ns) = None"
    using that Cons.prems(1) by (auto simp: unmounted_def)
  show ?case
  proof (cases "map_of (cd_children d) n")
    case None
    then show ?thesis using unchanged by (simp add: unfold mounts_simps)
  next
    case (Some c)
    obtain b c' where step: "CDir_Unmount c (join_uri ns) = (b, c')" by (meson surj_pair)
    have IH: "unmounted c ns (b, c')"
      using Cons.IH [of c] cdir_okD(2) [OF Cons.prems(1) Some] Cons.prems(2) step by simp
    show ?thesis
    proof (cases b)
      case True
      then show ?thesis
        using unmounted_child [OF Cons.prems(1) Some] IH by (simp add: unfold Some step)
    next
      case False
      then have "mounts c ns = None" using IH by (simp add: unmounted_def)
      then show ?thesis using False unchanged by (simp add: unfold Some step mounts_simps)
    qed
  qed
qed

subsection \<open>FindStorage and GetMount\<close>

text \<open>The mount point a URI belongs to: its longest prefix that is one, else the root.\<close>

definition innermost :: "cdir \<Rightarrow> string list \<Rightarrow> nat \<Rightarrow> bool" where
  "innermost d ns k \<longleftrightarrow>
     k \<le> length ns \<and> (0 < k \<longrightarrow> mounts d (take k ns) \<noteq> None) \<and>
     (\<forall>j. k < j \<and> j \<le> length ns \<longrightarrow> mounts d (take j ns) = None)"

lemma FindStorage_loop_innermost:
  assumes "\<forall>n \<in> set ns. valid_name n"
  shows "\<exists>k. innermost d ns k \<and>
    FindStorage_loop result d (join_uri ns) =
      (if k = 0 then result else (the (node_at d (take k ns)), join_uri (drop k ns)))"
  using assms
proof (induction ns arbitrary: result d)
  case Nil
  then show ?case by (auto simp: FindStorage_loop.simps innermost_def)
next
  case (Cons n ns)
  have n: "valid_name n" and ne: "join_uri (n # ns) \<noteq> []"
    using Cons.prems join_uri_empty_iff [of "n # ns"] by auto
  note unfold = FindStorage_loop.simps [of result d "join_uri (n # ns)"]
  show ?case
  proof (cases "map_of (cd_children d) n")
    case None
    then have "mounts d (take j (n # ns)) = None" if "0 < j" for j
      using that by (cases j) (auto simp: mounts_simps)
    then have "innermost d (n # ns) 0" by (auto simp: innermost_def)
    then show ?thesis by (auto simp: unfold None ne NextSegment_join [OF n])
  next
    case (Some c)
    let ?result = "if cd_storage c \<noteq> None then (c, join_uri ns) else result"
    obtain k where k: "innermost c ns k"
      and loop: "FindStorage_loop ?result c (join_uri ns) =
        (if k = 0 then ?result else (the (node_at c (take k ns)), join_uri (drop k ns)))"
      using Cons.IH [of c ?result] Cons.prems by auto
    have shift: "mounts d (take (Suc j) (n # ns)) = mounts c (take j ns)" for j
      by (simp add: mounts_simps Some)
    let ?k = "if k = 0 \<and> cd_storage c = None then 0 else Suc k"
    have "innermost d (n # ns) ?k"
      unfolding innermost_def
    proof (intro conjI allI impI)
      fix j assume j: "?k < j \<and> j \<le> length (n # ns)"
      then obtain i where i: "j = Suc i" by (cases j) auto
      show "mounts d (take j (n # ns)) = None"
      proof (cases "i = 0")
        case True
        then show ?thesis using j i by (simp only: shift) (auto simp: mounts_simps split: if_splits)
      next
        case False
        then have "k < i \<and> i \<le> length ns" using j i by (auto split: if_splits)
        then show ?thesis using k i by (simp only: shift) (simp add: innermost_def)
      qed
    qed (use k in \<open>auto simp: innermost_def mounts_simps Some split: if_splits\<close>)
    moreover have "FindStorage_loop result d (join_uri (n # ns)) =
        (if ?k = 0 then result
         else (the (node_at d (take ?k (n # ns))), join_uri (drop ?k (n # ns))))"
      using loop by (auto simp: unfold Some ne NextSegment_join [OF n])
    ultimately show ?thesis by blast
  qed
qed

lemma FindStorage_innermost:
  assumes "\<forall>n \<in> set ns. valid_name n"
  obtains k where "innermost d ns k"
    "FindStorage d (join_uri ns) = (the (node_at d (take k ns)), join_uri (drop k ns))"
  using FindStorage_loop_innermost [OF assms, of d "(d, join_uri ns)"]
  by (auto simp: FindStorage_def split: if_splits)

lemma GetMount_mounts:
  assumes "\<forall>n \<in> set ns. valid_name n"
  shows "GetMount d (join_uri ns) = mounts d ns"
proof -
  obtain k where k: "innermost d ns k"
    and find: "FindStorage d (join_uri ns) = (the (node_at d (take k ns)), join_uri (drop k ns))"
    by (rule FindStorage_innermost [OF assms])
  have rest: "join_uri (drop k ns) = [] \<longleftrightarrow> k = length ns"
    using join_uri_empty_iff [of "drop k ns"] assms k
    by (simp add: innermost_def) (meson in_set_dropD le_antisym)
  show ?thesis
  proof (cases "k = length ns")
    case True
    then have "mounts d ns \<noteq> None \<or> ns = []" using k by (auto simp: innermost_def)
    then have "node_at d ns \<noteq> None" by (cases "node_at d ns") (auto simp: mounts_def)
    with True show ?thesis by (auto simp: GetMount_def find mounts_def)
  next
    case False
    then have "k < length ns" using k by (simp add: innermost_def)
    then have "mounts d (take (length ns) ns) = None"
      using k unfolding innermost_def by blast
    with False show ?thesis using rest find by (simp add: GetMount_def)
  qed
qed

subsection \<open>VisitMounts\<close>

fun mount_list :: "cdir \<Rightarrow> (string list \<times> nat) list" where
  "mount_list (CDir st cs) =
     (case st of None \<Rightarrow> [] | Some s \<Rightarrow> [([], s)]) @
     concat (map (\<lambda>x. map (\<lambda>(ns, s). (fst x # ns, s)) (mount_list (snd x))) cs)"

lemma map_of_sorted_iff:
  "sorted_wrt (<) (map fst (cs :: (string \<times> 'v) list)) \<Longrightarrow> map_of cs n = Some c \<longleftrightarrow> (n, c) \<in> set cs"
  by (rule map_of_eq_Some_iff) (simp add: strict_sorted_iff)

lemma set_mount_list: "cdir_ok d \<Longrightarrow> (ns, s) \<in> set (mount_list d) \<longleftrightarrow> mounts d ns = Some s"
proof (induction d arbitrary: ns rule: mount_list.induct)
  case (1 st cs)
  have sorted: "sorted_wrt (<) (map fst cs)" using 1(2) by simp
  show ?case
  proof (cases ns)
    case Nil
    then show ?thesis by (auto simp: mounts_simps split: option.split)
  next
    case (Cons n ms)
    have "(n # ms, s) \<in> set (mount_list (CDir st cs)) \<longleftrightarrow>
        (\<exists>c. (n, c) \<in> set cs \<and> (ms, s) \<in> set (mount_list c))"
      by (force split: option.split)
    also have "\<dots> \<longleftrightarrow> (\<exists>c. (n, c) \<in> set cs \<and> mounts c ms = Some s)"
      using 1 by fastforce
    also have "\<dots> \<longleftrightarrow> mounts (CDir st cs) (n # ms) = Some s"
      by (auto simp: mounts_simps map_of_sorted_iff [OF sorted, symmetric] split: option.split)
    finally show ?thesis using Cons by simp
  qed
qed

definition below_uri :: "string \<Rightarrow> string list \<Rightarrow> string" where
  "below_uri uri ns = (if ns = [] then uri else if uri = [] then join_uri ns
                       else uri @ CHR ''/'' # join_uri ns)"

abbreviation at_uri :: "string \<Rightarrow> string list \<times> nat \<Rightarrow> string \<times> nat" where
  "at_uri uri \<equiv> \<lambda>(ns, s). (below_uri uri ns, s)"

lemma below_uri_child:
  "name \<noteq> [] \<Longrightarrow> below_uri ((if uri = [] then [] else uri @ ''/'') @ name) ns = below_uri uri (name # ns)"
  by (cases ns) (auto simp: below_uri_def)

lemma VisitMounts_mount_list:
  "cdir_ok d \<Longrightarrow> VisitMounts uri d = map (at_uri uri) (mount_list d)"
  "\<forall>x \<in> set cs. valid_name (fst x) \<and> cdir_ok (snd x) \<Longrightarrow>
   base = (if u = [] then [] else u @ ''/'') \<Longrightarrow>
   VisitMounts_children base cs =
     map (at_uri u) (concat (map (\<lambda>x. map (\<lambda>(ns, s). (fst x # ns, s)) (mount_list (snd x))) cs))"
proof (induction uri d and base cs arbitrary: and u rule: VisitMounts_VisitMounts_children.induct)
  case (1 uri st cs)
  then show ?case by (auto simp: below_uri_def split: option.split)
next
  case (3 base name c cs)
  have "name \<noteq> []" using 3 by (simp add: valid_name_def)
  then have "at_uri (base @ name) x = at_uri u (name # fst x, snd x)" for x
    by (cases x) (simp add: 3(4) below_uri_child)
  with 3 show ?case by (simp add: case_prod_beta comp_def)
qed simp

section \<open>Reading a directory with mount points\<close>

lemma case_map_outcome:
  "(case map_outcome f x of Returns y \<Rightarrow> Returns (g y) | Throws e \<Rightarrow> Throws e | UB \<Rightarrow> UB) =
   map_outcome (\<lambda>y. g (f y)) x"
  by (cases x) auto

lemma read_names_other:
  "cr_other r = Some l \<Longrightarrow>
   \<exists>info. read_names (length l + n) r =
     map_outcome (\<lambda>names. map fst l @ names)
       (read_names n (r\<lparr>cr_other := Some [], cr_info := info,
          cr_names := filter (\<lambda>k. k \<notin> fst ` set l) (cr_names r)\<rparr>))"
proof (induction l arbitrary: r)
  case Nil
  have "r\<lparr>cr_other := Some [], cr_info := cr_info r, cr_names := cr_names r\<rparr> = r"
    using Nil by simp
  then show ?case by (intro exI [of _ "cr_info r"]) (simp add: outcome.map_ident)
next
  case (Cons x l)
  obtain name info where x: "x = (name, info)" by (cases x)
  let ?r = "r\<lparr>cr_other := Some l, cr_info := info, cr_names := filter (\<lambda>n. n \<noteq> name) (cr_names r)\<rparr>"
  have read: "Reader_Read r = Returns (Some name, ?r)"
    using Cons.prems by (simp add: Reader_Read_def x)
  obtain info' where IH: "read_names (length l + n) ?r =
     map_outcome (\<lambda>names. map fst l @ names)
       (read_names n (?r\<lparr>cr_other := Some [], cr_info := info',
          cr_names := filter (\<lambda>k. k \<notin> fst ` set l) (cr_names ?r)\<rparr>))"
    using Cons.IH [of ?r] by auto
  have "filter (\<lambda>k. k \<notin> fst ` set l) (filter (\<lambda>n. n \<noteq> name) (cr_names r)) =
      filter (\<lambda>k. k \<notin> fst ` set (x # l)) (cr_names r)"
    by (simp add: x conj_commute)
  with IH read show ?case
    by (intro exI [of _ info']) (simp add: x case_map_outcome)
qed

lemma read_names_mounts:
  "\<lbrakk>cr_other r = None \<or> cr_other r = Some []; sorted_wrt (<) (cr_names r);
    cr_names r = pre @ ms; cr_next r = set_begin ms; length ms < n\<rbrakk> \<Longrightarrow>
   read_names n r = Returns ms"
proof (induction ms arbitrary: r pre n)
  case Nil
  then show ?case by (cases n) (auto simp: Reader_Read_def set_begin_def)
next
  case (Cons m ms)
  obtain n' where n: "n = Suc n'" using Cons.prems by (cases n) auto
  let ?r = "r\<lparr>cr_other := None, cr_current := Some m, cr_next := set_begin ms\<rparr>"
  have "filter (\<lambda>k. m < k) pre = []" "filter (\<lambda>k. m < k) ms = ms"
    using Cons.prems(2,3) by (auto simp: filter_empty_conv sorted_wrt_append intro!: filter_True)
  then have "set_next (cr_names r) m = set_begin ms"
    by (simp add: set_next_def Cons.prems(3))
  then have "Reader_Read r = Returns (Some m, ?r)"
    using Cons.prems by (auto simp: Reader_Read_def set_begin_def)
  moreover have "read_names n' ?r = Returns ms"
    using Cons.IH [of ?r "pre @ [m]" n'] Cons.prems by (simp add: n)
  ultimately show ?case by (simp add: n)
qed

lemma read_names_dangling:
  "\<lbrakk>cr_other r = None \<or> cr_other r = Some []; cr_next r = Some k; k \<notin> set (cr_names r)\<rbrakk> \<Longrightarrow>
   read_names (Suc n) r = UB"
  by (auto simp: Reader_Read_def)

section \<open>The contract of a mount table\<close>

text \<open>
  What the users of a mount table (UpdateService, the commands) rely on: mounting and
  unmounting are update and removal of a partial map, lookup reads it.
\<close>

locale mount_table =
  fixes ok :: "'t \<Rightarrow> bool" and point :: "'p \<Rightarrow> bool" and table :: "'t \<Rightarrow> 'p \<Rightarrow> 's option"
    and mount :: "'t \<Rightarrow> 'p \<Rightarrow> 's \<Rightarrow> 't" and unmount :: "'t \<Rightarrow> 'p \<Rightarrow> bool \<times> 't"
    and lookup :: "'t \<Rightarrow> 'p \<Rightarrow> 's option"
  assumes mount_ok: "\<lbrakk>ok t; point p\<rbrakk> \<Longrightarrow> ok (mount t p s)"
    and table_mount: "\<lbrakk>ok t; point p\<rbrakk> \<Longrightarrow> table (mount t p s) = (table t)(p \<mapsto> s)"
    and unmount_ok: "\<lbrakk>ok t; point p\<rbrakk> \<Longrightarrow> ok (snd (unmount t p))"
    and unmount_found: "\<lbrakk>ok t; point p\<rbrakk> \<Longrightarrow> fst (unmount t p) \<longleftrightarrow> table t p \<noteq> None"
    and table_unmount: "\<lbrakk>ok t; point p\<rbrakk> \<Longrightarrow> table (snd (unmount t p)) = (table t)(p := None)"
    and lookup_table: "\<lbrakk>ok t; point p\<rbrakk> \<Longrightarrow> lookup t p = table t p"
begin

lemma lookup_mount:
  "\<lbrakk>ok t; point p; point q\<rbrakk> \<Longrightarrow> lookup (mount t p s) q = (if q = p then Some s else lookup t q)"
  by (simp add: lookup_table mount_ok table_mount)

lemma lookup_unmount:
  "\<lbrakk>ok t; point p; point q\<rbrakk> \<Longrightarrow>
   lookup (snd (unmount t p)) q = (if q = p then None else lookup t q)"
  by (simp add: lookup_table unmount_ok table_unmount)

lemma unmount_mount:
  assumes "ok t" "point p" "lookup t p = None"
  shows "fst (unmount (mount t p s) p) \<and> table (snd (unmount (mount t p s) p)) = table t"
  using assms by (simp add: mount_ok table_mount unmount_found table_unmount lookup_table fun_upd_idem)

end

definition mount_point :: "string list \<Rightarrow> bool" where
  "mount_point ns \<longleftrightarrow> (\<forall>n \<in> set ns. valid_name n)"

interpretation cs: mount_table cdir_ok mount_point mounts
  "\<lambda>t ns s. CompositeStorage_Mount t (join_uri ns) s"
  "\<lambda>t ns. CompositeStorage_Unmount t (join_uri ns)"
  "\<lambda>t ns. GetMount t (join_uri ns)"
proof unfold_locales
  fix t :: cdir and p :: "string list" and s :: nat
  assume t: "cdir_ok t" and "mount_point p"
  then have p: "\<forall>n \<in> set p. valid_name n" by (simp add: mount_point_def)
  show "cdir_ok (CompositeStorage_Mount t (join_uri p) s)"
    "mounts (CompositeStorage_Mount t (join_uri p) s) = (mounts t)(p \<mapsto> s)"
    using cdir_ok_Make_names [OF t p] mounts_Make_names [OF t p]
    by (simp_all add: CompositeStorage_Mount_def CDir_Make_join [OF p])
  show "cdir_ok (snd (CompositeStorage_Unmount t (join_uri p)))"
    "fst (CompositeStorage_Unmount t (join_uri p)) \<longleftrightarrow> mounts t p \<noteq> None"
    "mounts (snd (CompositeStorage_Unmount t (join_uri p))) = (mounts t)(p := None)"
    using unmounted_Unmount [OF t p] by (simp_all add: CompositeStorage_Unmount_def unmounted_def)
  show "GetMount t (join_uri p) = mounts t p" by (rule GetMount_mounts [OF p])
qed

section \<open>Properties\<close>

text \<open>
  Property C9 (refinement): the virtual directory tree implements a map from mount points to
  storages. For a well-formed tree and a URI without empty segments, Mount is an update of
  that map and Unmount a removal that reports whether there was something to remove, both
  keep the tree well-formed (so that no node without a storage is left over), GetMount is
  the lookup, and VisitMounts lists the map with the URI of every mount point.
\<close>

theorem CompositeStorage_refines_map:
  assumes "cdir_ok root" "mount_point ns"
  shows "cdir_ok (CompositeStorage_Mount root (join_uri ns) s) \<and>
    mounts (CompositeStorage_Mount root (join_uri ns) s) = (mounts root)(ns \<mapsto> s) \<and>
    cdir_ok (snd (CompositeStorage_Unmount root (join_uri ns))) \<and>
    fst (CompositeStorage_Unmount root (join_uri ns)) = (mounts root ns \<noteq> None) \<and>
    mounts (snd (CompositeStorage_Unmount root (join_uri ns))) = (mounts root)(ns := None) \<and>
    GetMount root (join_uri ns) = mounts root ns \<and>
    set (VisitMounts [] root) = {(join_uri ms, t) | ms t. mounts root ms = Some t}"
proof -
  have "below_uri [] ms = join_uri ms" for ms by (simp add: below_uri_def)
  then have "set (VisitMounts [] root) = {(join_uri ms, t) | ms t. mounts root ms = Some t}"
    using set_mount_list [OF assms(1)]
    by (force simp: VisitMounts_mount_list(1) [OF assms(1)] image_iff)
  then show ?thesis
    using cs.mount_ok [OF assms] cs.table_mount [OF assms] cs.unmount_ok [OF assms]
      cs.unmount_found [OF assms] cs.table_unmount [OF assms] cs.lookup_table [OF assms]
    by simp
qed

definition sample_mounts :: cdir where
  "sample_mounts = CDir (Some 0) [(''disk'', CDir (Some 1) []), (''net'', CDir None [(''nas'', CDir (Some 2) [])])]"

theorem CompositeStorage_refines_map_witness:
  "GetMount sample_mounts ''net/nas'' = Some 2 \<and>
   fst (CompositeStorage_Unmount sample_mounts ''net/nas'') \<and>
   mounts (snd (CompositeStorage_Unmount sample_mounts ''net/nas'')) =
     (mounts sample_mounts)([''net'', ''nas''] := None) \<and>
   snd (CompositeStorage_Unmount sample_mounts ''net/nas'') = CDir (Some 0) [(''disk'', CDir (Some 1) [])]"
proof -
  have "cdir_ok sample_mounts" by code_simp
  moreover have "mount_point [''net'', ''nas'']" by code_simp
  ultimately have "GetMount sample_mounts ''net/nas'' = mounts sample_mounts [''net'', ''nas''] \<and>
     fst (CompositeStorage_Unmount sample_mounts ''net/nas'') = (mounts sample_mounts [''net'', ''nas''] \<noteq> None) \<and>
     mounts (snd (CompositeStorage_Unmount sample_mounts ''net/nas'')) =
       (mounts sample_mounts)([''net'', ''nas''] := None)"
    using CompositeStorage_refines_map [of sample_mounts "[''net'', ''nas'']"] by simp
  moreover have "mounts sample_mounts [''net'', ''nas''] = Some 2" by code_simp
  moreover have "snd (CompositeStorage_Unmount sample_mounts ''net/nas'') = CDir (Some 0) [(''disk'', CDir (Some 1) [])]"
    by code_simp
  ultimately show ?thesis by simp
qed

text \<open>
  Property C23 (equivalence): every request is routed to the storage mounted at the longest
  prefix of the URI that is a mount point, with the rest of the URI: the segment-by-segment
  loop of FindStorage agrees with that reference definition in MapUTF8, MapFS and OpenFile.
\<close>

theorem requests_go_to_innermost_mount:
  assumes "mount_point ns"
  shows "\<exists>k. innermost root ns k \<and>
    CompositeStorage_MapUTF8 ops root (join_uri ns) =
      (case mounts root (take k ns) of None \<Rightarrow> []
       | Some s \<Rightarrow> so_MapUTF8 (ops s) (join_uri (drop k ns))) \<and>
    CompositeStorage_MapFS ops root (join_uri ns) =
      (case mounts root (take k ns) of None \<Rightarrow> None
       | Some s \<Rightarrow> so_MapFS (ops s) (join_uri (drop k ns))) \<and>
    CompositeStorage_OpenFile ops root (join_uri ns) =
      (case mounts root (take k ns) of None \<Rightarrow> Returns None
       | Some s \<Rightarrow> map_outcome Some (so_OpenFile (ops s) (join_uri (drop k ns))))"
proof -
  have names: "\<forall>n \<in> set ns. valid_name n" using assms by (simp add: mount_point_def)
  obtain k where k: "innermost root ns k"
    and find: "FindStorage root (join_uri ns) = (the (node_at root (take k ns)), join_uri (drop k ns))"
    by (rule FindStorage_innermost [OF names])
  have "node_at root (take k ns) \<noteq> None"
    using k by (cases k) (auto simp: innermost_def mounts_def)
  then have "cd_storage (the (node_at root (take k ns))) = mounts root (take k ns)"
    by (auto simp: mounts_def)
  with k find show ?thesis
    by (intro exI [of _ k])
      (auto simp: CompositeStorage_MapUTF8_def CompositeStorage_MapFS_def
         CompositeStorage_OpenFile_def split: option.split outcome.split)
qed

definition sample_ops :: "nat \<Rightarrow> string storage_ops" where
  "sample_ops s = \<lparr>so_GetInfo = (\<lambda>_ _. Throws ''x''), so_OpenDirectory = (\<lambda>_. Returns []),
     so_MapUTF8 = (\<lambda>u. fmt_uint s @ ''://'' @ u), so_MapFS = Some, so_MapToRelativeUTF8 = Some,
     so_OpenFile = Returns\<rparr>"

theorem requests_go_to_innermost_mount_witness:
  "\<exists>k. innermost sample_mounts [''net'', ''nas'', ''a''] k \<and>
     CompositeStorage_MapUTF8 sample_ops sample_mounts ''net/nas/a'' =
       (case mounts sample_mounts (take k [''net'', ''nas'', ''a'']) of None \<Rightarrow> []
        | Some s \<Rightarrow> so_MapUTF8 (sample_ops s) (join_uri (drop k [''net'', ''nas'', ''a'']))) \<and>
     CompositeStorage_MapUTF8 sample_ops sample_mounts ''net/nas/a'' = ''2://a''"
proof -
  have "mount_point [''net'', ''nas'', ''a'']" by code_simp
  moreover have "CompositeStorage_MapUTF8 sample_ops sample_mounts ''net/nas/a'' = ''2://a''" by code_simp
  ultimately show ?thesis
    using requests_go_to_innermost_mount [of "[''net'', ''nas'', ''a'']" sample_mounts sample_ops] by auto
qed

text \<open>
  Listing a directory that has mount points gives the names of the
  underlying storage followed by the mount points it does not list itself; but when it lists
  the mount point that comes first in order, erasing that name from the set invalidates the
  iterator \<open>next\<close> and the reader uses it afterwards.
\<close>

lemma composite_reader_names:
  assumes "sorted_wrt (<) (map fst cs)" "length l + length cs < n"
  shows "read_names n (CompositeDirectoryReader (Some l) cs) =
    (if cs \<noteq> [] \<and> fst (hd cs) \<in> fst ` set l then UB
     else Returns (map fst l @ filter (\<lambda>k. k \<notin> fst ` set l) (map fst cs)))"
proof -
  let ?names = "filter (\<lambda>k. k \<notin> fst ` set l) (map fst cs)"
  define m where "m = n - length l - 1"
  have n: "n = length l + Suc m" and m: "length cs < Suc m"
    using assms(2) by (simp_all add: m_def)
  obtain info where read: "read_names n (CompositeDirectoryReader (Some l) cs) =
      map_outcome (\<lambda>names. map fst l @ names)
        (read_names (Suc m) \<lparr>cr_other = Some [], cr_info = info, cr_names = ?names,
           cr_current = None, cr_next = set_begin (map fst cs)\<rparr>)" (is "_ = map_outcome _ (read_names _ ?r)")
    using read_names_other [of "CompositeDirectoryReader (Some l) cs" l "Suc m"]
    by (auto simp: n CompositeDirectoryReader_def)
  show ?thesis
  proof (cases "cs \<noteq> [] \<and> fst (hd cs) \<in> fst ` set l")
    case True
    then have "read_names (Suc m) ?r = UB"
      by (intro read_names_dangling [where k = "fst (hd cs)"]) (auto simp: set_begin_def neq_Nil_conv)
    with True show ?thesis by (simp add: read)
  next
    case False
    have "length ?names < Suc m" using m by (metis le_less_trans length_filter_le length_map)
    moreover have "set_begin (map fst cs) = set_begin ?names"
      using False by (cases cs) (auto simp: set_begin_def)
    ultimately have "read_names (Suc m) ?r = Returns ?names"
      using m assms(1)
      by (intro read_names_mounts [where pre = "[]"]) (simp_all add: sorted_wrt_filter)
    with False show ?thesis by (auto simp: read)
  qed
qed

end
