(* ===== verification/Update_Total.thy ===== *)
theory Update_Total
  imports Update_Invariants
begin

text \<open>
  The update as a whole: it ends, on every storage with finitely many directories, and it
  keeps the tree well-formed, for every URI. What bounds the recursion is the search for a
  loop: a directory is entered only if its inode number is not that of an ancestor.
\<close>

section \<open>The search for a loop\<close>

definition dir_id :: "directory \<Rightarrow> 64 word \<times> 64 word" where
  "dir_id d = (inode (dir d), device (dir d))"

definition info_id :: "StorageFileInfo \<Rightarrow> 64 word \<times> 64 word" where
  "info_id i = (fi_inode i, fi_device i)"

lemma dir_id_known: "\<lbrakk>stat_only a b; dir_id a \<noteq> (0, 0)\<rbrakk> \<Longrightarrow> b = a"
  by (rule stat_only_known) (auto simp: dir_id_def)

lemma FindAncestorLoop_clear:
  "\<lbrakk>FindAncestorLoop env ino dev cur = (0, cur'); (ino, dev) \<noteq> (0, 0)\<rbrakk> \<Longrightarrow> (ino, dev) \<notin> dir_id ` set cur'"
proof (induction cur arbitrary: cur')
  case (Cons p anc)
  from Cons.prems obtain p' anc' where
    "FindAncestorLoop env ino dev anc = (0, anc')" "cur' = p' # anc'" "\<not> (inode (dir p') = ino \<and> device (dir p') = dev)"
    by (auto split: option.splits if_splits prod.splits)
  with Cons show ?case by (auto simp: dir_id_def)
qed simp

lemma stat_cursor_prefix:
  assumes "stat_cursor (new @ old) cur" "(0, 0) \<notin> dir_id ` set new"
  obtains old' where "cur = new @ old'"
proof -
  obtain new' old' where C: "cur = new' @ old'" "stat_cursor new new'"
    using assms(1) by (auto simp: list_all2_append1)
  from C(2) assms(2) have "new' = new"
    by (induction new new' rule: list_all2_induct) (auto dest: dir_id_known)
  with C that show thesis by blast
qed

section \<open>The recursion ends\<close>

text \<open>
  The inode and device numbers of the directories that a storage lists are in a finite
  set, and are known.
\<close>

definition finite_storage :: "walk_env \<Rightarrow> (64 word \<times> 64 word) set \<Rightarrow> bool" where
  "finite_storage env ids \<longleftrightarrow> finite ids \<and> (0, 0) \<notin> ids \<and>
     (\<forall>p es n i. open_directory env p = Some es \<longrightarrow> (n, Some i) \<in> set es \<longrightarrow> IsDirectory i \<longrightarrow> info_id i \<in> ids)"

lemma MakeChild_dir_id [simp]: "dir_id (MakeChild n d) = dir_id d"
  by (simp add: dir_id_def)

lemma UpdateDirectoryChild_total:
  assumes "tree_ok d" "valid_name n" "IsDirectory i \<Longrightarrow> info_id i \<in> ids" "(0, 0) \<notin> dir_id ` set new" "(0, 0) \<notin> ids"
    and rec: "\<And>sub old'. \<lbrakk>tree_ok sub; info_id i \<in> ids; info_id i \<notin> dir_id ` set (d # new); dir_id d \<noteq> (0, 0)\<rbrakk> \<Longrightarrow>
      rec excl i (sub # MakeChild n d # new @ old', st) \<noteq> None"
    and "dir_id d \<noteq> (0, 0)"
  shows "UpdateDirectoryChild rec env excl n i (d # new @ old, st) \<noteq> None"
proof (cases "\<not> IsRegular i \<and> IsDirectory i")
  case True
  obtain found cur where F: "FindAncestorLoop env (fi_inode i) (fi_device i) (d # new @ old) = (found, cur)" by (meson surj_pair)
  show ?thesis
  proof (cases "found = 0")
    case found: True
    obtain old' where cur: "cur = (d # new) @ old'"
      using FindAncestorLoop_stat [of "d # new @ old" env "fi_inode i" "fi_device i"] F assms(4,7)
        stat_cursor_prefix [of "d # new" old cur] by auto
    have "info_id i \<in> ids" using assms(3) True by simp
    moreover from this have "(fi_inode i, fi_device i) \<noteq> (0, 0)" using assms(5) unfolding info_id_def by metis
    then have "info_id i \<notin> dir_id ` set (d # new)"
      using FindAncestorLoop_clear [OF F [unfolded found]] by (auto simp: cur info_id_def)
    moreover obtain sub where sub: "FindChild (MakeChild n d) n = Some sub"
      using FindChild_MakeChild [OF assms(1,2)] by (auto split: option.splits)
    moreover have "tree_ok sub"
      using tree_ok_FindChild(1) [OF touches_ok [OF touches_MakeChild [OF assms(1,2)]] sub] .
    ultimately have "rec excl i (sub # MakeChild n d # new @ old', st) \<noteq> None"
      using rec \<open>info_id i \<in> ids\<close> assms(7) by blast
    then show ?thesis using True F found cur sub by (auto simp: UpdateDirectoryChild_def Let_def split: option.splits)
  qed (use True F in \<open>simp add: UpdateDirectoryChild_def\<close>)
qed (auto simp: UpdateDirectoryChild_def)

lemma UpdateDirectory_total:
  assumes "finite_storage env ids" "env_ok env"
  shows "\<lbrakk>tree_ok d; info_id info \<in> ids - dir_id ` set new; distinct (map dir_id new); dir_id ` set new \<subseteq> ids;
      card ids \<le> fuel + length new\<rbrakk> \<Longrightarrow> UpdateDirectory fuel env excl info (d # new @ old, st) \<noteq> None"
proof (induction fuel arbitrary: excl info d new old st)
  case 0
  have "card (insert (info_id info) (dir_id ` set new)) \<le> card ids"
    using assms(1) 0 by (intro card_mono) (auto simp: finite_storage_def)
  moreover have "card (dir_id ` set new) = length new"
    using distinct_card [OF 0(3)] by simp
  ultimately show ?case using 0 by simp
next
  case (Suc fuel)
  note S = assms(1) [unfolded finite_storage_def]
  let ?p = "prepared env excl info d" and ?ce = "child_excludes env excl d"
  note P = prepared_facts [OF Suc.prems(1), of env excl info]
  have loop: "update_entries (UpdateDirectory fuel env) env ?ce es (?p # new @ old, st1) \<noteq> None"
    if es: "open_directory env (path (dir d)) = Some es" for es st1
  proof (rule upd.update_entries_total [OF assms(2) _ P(1)])
    show v: "\<forall>e \<in> set es. valid_name (fst e)" using assms(2) es by (auto simp: env_ok_def names_valid_def)
    fix n i a anca t
    assume a: "(n, Some i) \<in> set es" "tree_ok a" "keeps_id (dir ?p) (dir a)" "stat_cursor (new @ old) anca"
    have ida: "dir_id a = info_id info"
      using a(3) P(3,4) S Suc.prems(2) by (auto simp: keeps_id_def stat_kept_def dir_id_def info_id_def)
    have zero: "(0, 0) \<notin> dir_id ` set new" using S Suc.prems(4) by auto
    obtain old' where anca: "anca = new @ old'" using a(4) zero by (rule stat_cursor_prefix)
    show "UpdateDirectoryChild (UpdateDirectory fuel env) env ?ce n i (a # anca, t) \<noteq> None"
      unfolding anca
    proof (rule UpdateDirectoryChild_total [OF a(2) _ _ zero])
      show "valid_name n" using v a(1) by fastforce
      show "info_id i \<in> ids" if "IsDirectory i" using S es a(1) that by blast
      show "dir_id a \<noteq> (0, 0)" "(0, 0) \<notin> ids" using ida S Suc.prems(2) by auto
      show "UpdateDirectory fuel env ?ce i (sub # MakeChild n a # new @ old'', t) \<noteq> None"
        if "tree_ok sub" "info_id i \<in> ids" "info_id i \<notin> dir_id ` set (a # new)" for sub old''
        using Suc.IH [OF that(1), of i "MakeChild n a # new" ?ce old'' t] that ida Suc.prems by auto
    qed
  qed
  obtain st1 where "UpdateDirectory_body (UpdateDirectory fuel env) env excl info (d # new @ old, st) =
    (case open_directory env (path (dir d)) of
       None \<Rightarrow> Some (False, directory_set_stat info d # new @ old, st)
     | Some es \<Rightarrow>
         map_option (\<lambda>(cur, st2). (True, finished info (hd cur, st2) # tl cur, snd (PurgeDeletedFromDirectory (hd cur, st2))))
           (update_entries (UpdateDirectory fuel env) env ?ce es (?p # new @ old, st1)))"
    by (rule UpdateDirectory_body_eq [OF Suc.prems(1)])
  then show ?case using loop [of _ st1] by (auto split: option.splits)
qed

section \<open>Cursors into one tree\<close>

text \<open>
  The directories of a cursor are well-formed, and each is the child of the next under its
  name, or a later version of it; the outermost one has the identity of the root.
\<close>

fun linked :: "cursor \<Rightarrow> bool" where
  "linked (c # p # anc) \<longleftrightarrow>
     (\<exists>c0. FindChild p (GetName (dir p) (dir c)) = Some c0 \<and> same_identity (dir c0) (dir c)) \<and> linked (p # anc)"
| "linked cur \<longleftrightarrow> True"

definition cursor_ok :: "dir_info \<Rightarrow> cursor \<Rightarrow> bool" where
  "cursor_ok r cur \<longleftrightarrow>
     cur \<noteq> [] \<and> (\<forall>d \<in> set cur. tree_ok d) \<and> linked cur \<and> same_identity r (dir (last cur))"

lemma same_identity_sym: "same_identity i j \<Longrightarrow> same_identity j i"
  by (simp add: same_identity_def)

lemma linked_stat: "\<lbrakk>stat_cursor cur cur'; linked cur\<rbrakk> \<Longrightarrow> linked cur'"
proof (induction cur cur' rule: list_all2_induct)
  case (Cons c cs c' cs')
  then show ?case
  proof (cases cs)
    case (Cons p anc)
    then obtain p' anc' where C: "cs' = p' # anc'" "stat_only p p'" using \<open>stat_cursor cs cs'\<close> by (auto simp: list_all2_Cons1)
    obtain c0 where c0: "FindChild p (GetName (dir p) (dir c)) = Some c0" "same_identity (dir c0) (dir c)" "linked (p # anc)"
      using \<open>linked (c # cs)\<close> Cons by auto
    note p' = stat_only_fields(5,7) [OF C(2)] and c' = stat_only_fields(5) [OF \<open>stat_only c c'\<close>]
    have "GetName (dir p') (dir c') = GetName (dir p) (dir c)"
      using same_identity_GetName [OF p'(1)] same_identity_GetName(2) [OF c'] by simp
    then show ?thesis
      using c0 C p'(2) [of "GetName (dir p) (dir c)"] c' \<open>linked cs \<Longrightarrow> linked cs'\<close> Cons
      by (auto simp: same_entries_def intro: same_identity_trans)
  qed simp
qed simp

lemma cursor_ok_stat: "\<lbrakk>stat_cursor cur cur'; cursor_ok r cur\<rbrakk> \<Longrightarrow> cursor_ok r cur'"
proof -
  assume a: "stat_cursor cur cur'" "cursor_ok r cur"
  from a(1) have "\<forall>d \<in> set cur'. \<exists>c \<in> set cur. stat_only c d"
    by (induction cur cur' rule: list_all2_induct) auto
  moreover from a(1) have "cur \<noteq> [] \<Longrightarrow> stat_only (last cur) (last cur')"
    by (induction cur cur' rule: list_all2_induct) auto
  ultimately show ?thesis
    using a linked_stat [OF a(1)] by (auto simp: cursor_ok_def intro: stat_only_ok same_identity_trans stat_only_fields(5))
qed

lemma cursor_ok_head:
  assumes "cursor_ok r (a # anc)" "tree_ok b" "same_identity (dir a) (dir b)"
  shows "cursor_ok r (b # anc)"
proof (cases anc)
  case (Cons p r)
  have "GetName (dir p) (dir b) = GetName (dir p) (dir a)" using same_identity_GetName(2) [OF assms(3)] .
  then show ?thesis
    using assms Cons by (auto simp: cursor_ok_def intro: same_identity_trans)
qed (use assms in \<open>auto simp: cursor_ok_def intro: same_identity_trans\<close>)

lemma cursor_ok_push:
  "\<lbrakk>cursor_ok r (p # anc); FindChild p n = Some c\<rbrakk> \<Longrightarrow> cursor_ok r (c # p # anc)"
  using tree_ok_FindChild [of p n c] by (auto simp: cursor_ok_def)

lemma cursor_ok_frame:
  assumes "cursor_ok r (d # anc)" "touches_set N d d'" "stat_cursor anc anc'"
  shows "cursor_ok r (d' # anc')"
proof (rule cursor_ok_head)
  show "cursor_ok r (d # anc')" by (rule cursor_ok_stat [OF _ assms(1)]) (simp add: assms(3))
  show "tree_ok d'" "same_identity (dir d) (dir d')" using assms(2) by (auto simp: touches_set_def keeps_id_identity)
qed

lemma ascend_ok:
  "cursor_ok r cur \<Longrightarrow> tree_ok (ascend cur) \<and> same_identity r (dir (ascend cur))"
proof (induction cur rule: ascend.induct)
  case (3 c p anc)
  let ?n = "GetName (dir p) (dir c)" and ?p = "update_child (GetName (dir p) (dir c)) (\<lambda>_. c) p"
  have T: "touches ?n p ?p"
    using 3(2) by (intro touches_update_child) (auto simp: cursor_ok_def)
  have "cursor_ok r (p # anc)" using 3(2) by (simp add: cursor_ok_def)
  then have "cursor_ok r (?p # anc)" by (rule cursor_ok_head [OF _ touches_ok [OF T]]) simp
  then show ?case using 3(1) by (cases anc) simp_all
qed (simp_all add: cursor_ok_def)

section \<open>The way to a URI\<close>

lemma directory_set_stat_identity [simp]: "same_identity (dir d) (dir (directory_set_stat info d))"
  by (simp add: directory_set_stat_def same_identity_def)

lemma cursor_ok_new_child:
  assumes "cursor_ok r (d # anc)" "valid_name n" "FindChild d n = None" "FindChild (CreateChild n d) n = Some c"
    "tree_ok c'" "same_identity (dir c) (dir c')"
  shows "cursor_ok r (c' # update_child n (\<lambda>_. c') (CreateChild n d) # anc)"
proof -
  let ?d = "CreateChild n d"
  have d: "tree_ok d" using assms(1) by (simp add: cursor_ok_def)
  note M = touches_CreateChild [OF d assms(2,3)]
  note C = tree_ok_FindChild [OF touches_ok [OF M] assms(4)]
  have T: "touches n ?d (update_child n (\<lambda>_. c') ?d)"
    using touches_ok [OF M] assms(4-6) by (intro touches_update_child) auto
  have "GetName (dir ?d) (dir c') = n" using same_identity_GetName(2) [OF assms(6)] C(3) by simp
  then have F: "FindChild (update_child n (\<lambda>_. c') ?d) n = Some c'"
    using assms(4) by (subst FindChild_update_child) simp_all
  have "same_identity (dir d) (dir (update_child n (\<lambda>_. c') ?d))"
    using keepsD(7) [OF touches_keeps [OF M]] by simp
  then have "cursor_ok r (update_child n (\<lambda>_. c') ?d # anc)" by (rule cursor_ok_head [OF assms(1) touches_ok [OF T]])
  then show ?thesis using F by (rule cursor_ok_push)
qed

lemma DirectoryMakeChildChecked_ok:
  assumes "cursor_ok r cur" "valid_name n"
  shows "cursor_ok r (fst (snd (DirectoryMakeChildChecked env uri n (cur, st))))"
proof -
  obtain d anc where cur: "cur = d # anc" using assms(1) by (cases cur) (auto simp: cursor_ok_def)
  show ?thesis
  proof (cases "FindChild d n")
    case (Some c)
    then show ?thesis using assms(1) cur cursor_ok_push by (simp add: DirectoryMakeChildChecked_def)
  next
    case None
    show ?thesis
    proof (cases "get_info env uri")
      case None
      then show ?thesis using assms(1) \<open>FindChild d n = None\<close> cur by (simp add: DirectoryMakeChildChecked_def)
    next
      case (Some info)
      obtain found d1 anc1 where F: "FindAncestorLoop env (fi_inode info) (fi_device info) cur = (found, d1 # anc1)"
        "stat_only d d1" "stat_cursor anc anc1"
        using FindAncestorLoop_stat [of cur env "fi_inode info" "fi_device info"]
        by (cases "FindAncestorLoop env (fi_inode info) (fi_device info) cur") (auto simp: cur list_all2_Cons1)
      have ok1: "cursor_ok r (d1 # anc1)" by (rule cursor_ok_stat [OF _ assms(1)]) (simp add: cur F)
      then have t1: "tree_ok d1" by (simp add: cursor_ok_def)
      have none: "FindChild d1 n = None" using stat_only_fields(7) [OF F(2), of n] None by (simp add: same_entries_def)
      define s2 where "s2 = (case FindSong d1 n of Some x \<Rightarrow> DeleteSong x (d1, st) | None \<Rightarrow> (d1, st))"
      have T: "touches n d1 (fst s2)"
        using t1 touches_DeleteSong [of "(d1, st)"] song_store.lookup_key [of d1 n] by (auto simp: s2_def split: option.split)
      have none2: "FindChild (fst s2) n = None"
        using none by (auto simp: s2_def DeleteSong_def RemoveSong_def FindChild_def split: option.split)
      have ok2: "cursor_ok r (fst s2 # anc1)"
        by (rule cursor_ok_head [OF ok1 touches_ok [OF T]]) (rule keepsD(7) [OF touches_keeps [OF T]])
      have c: "FindChild (CreateChild n (fst s2)) n = Some (Directory_new (child_path (dir (fst s2)) n) False)"
        using FindChild_CreateChild [OF tree_okD(6) [OF touches_ok [OF T]] assms(2) none2] by simp
      have "tree_ok (Directory_new (child_path (dir (fst s2)) n) False)"
        using tree_ok_new tree_okD(1) [OF touches_ok [OF T]] assms(2) by blast
      note new = cursor_ok_new_child [OF ok2 assms(2) none2 c tree_ok_set_stat [OF this] directory_set_stat_identity]
      have h: "FindChild (hd cur) n = None" using None cur by simp
      have s2: "(case FindSong d1 n of None \<Rightarrow> (d1, st) | Some x \<Rightarrow> DeleteSong x (d1, st)) = s2" by (simp add: s2_def)
      show ?thesis
        unfolding DirectoryMakeChildChecked_def fst_conv snd_conv h Some option.case F(1) prod.case list.sel s2 Let_def
        using new ok1 c by (cases s2) simp
    qed
  qed
qed

lemma DirectoryMakeUriParentChecked_ok:
  "cursor_ok r (fst s) \<Longrightarrow> cursor_ok r (fst (snd (DirectoryMakeUriParentChecked env uri s)))"
proof (induction env uri s rule: DirectoryMakeUriParentChecked.induct)
  case (1 env uri s)
  obtain name more where S: "Split uri CHR ''/'' = (name, more)" by (meson surj_pair)
  show ?case
  proof (cases more)
    case None
    then show ?thesis using 1(3) S by (subst DirectoryMakeUriParentChecked.simps) simp
  next
    case (Some rest)
    show ?thesis
    proof (cases "name = []")
      case True
      then show ?thesis using 1(1) [OF S [symmetric] Some True 1(3)] S Some
        by (subst DirectoryMakeUriParentChecked.simps) simp
    next
      case False
      obtain ok s' where C: "DirectoryMakeChildChecked env name name s = (ok, s')" by (meson surj_pair)
      have "cursor_ok r (fst s')"
        using DirectoryMakeChildChecked_ok [of r "fst s" name env name "snd s"] 1(3) Split_valid_name [OF S False] C by simp
      then show ?thesis
        using 1(2) [OF S [symmetric] Some False, of ok s'] C S Some False
        by (subst DirectoryMakeUriParentChecked.simps) (auto split: bool.split)
    qed
  qed
qed

section \<open>The walk as a whole\<close>

lemma UpdateUri_ok:
  assumes "env_ok env" "tree_ok root" "valid_name (GetBase uri)" "UpdateUri fuel env uri (root, st) = Some (root', st')"
  shows "tree_ok root' \<and> same_identity (dir root) (dir root')"
proof -
  obtain ok cur st1 where P: "DirectoryMakeUriParentChecked env uri ([root], st) = (ok, cur, st1)" by (metis surj_pair)
  have cur: "cursor_ok (dir root) cur"
    using DirectoryMakeUriParentChecked_ok [of "dir root" "([root], st)" env uri] assms(2) P by (simp add: cursor_ok_def)
  then obtain d anc where D: "cur = d # anc" "tree_ok d" by (cases cur) (auto simp: cursor_ok_def)
  let ?n = "GetBase uri"
  show ?thesis
  proof (cases "ok \<and> \<not> (SkipSymlink env cur ?n \<or> get_info env uri = None)")
    case False
    have "touches ?n d (fst (snd (DeleteNameIn ?n (d, st1))))" using touches_DeleteNameIn [of "(d, st1)" ?n] D(2) by simp
    then have "cursor_ok (dir root) (fst (snd (DeleteNameIn ?n (d, st1))) # anc)"
      using cur D(1) touches_setI [of ?n d _ "{?n}"] cursor_ok_frame stat_cursor_refl by blast
    then show ?thesis
      using ascend_ok [OF cur] ascend_ok assms(4) P False D(1)
      by (auto simp: UpdateUri_def Let_def case_prod_unfold split: if_splits bool.splits)
  next
    case True
    then obtain info cur' where
      U: "UpdateDirectoryChild (UpdateDirectory fuel env) env (hd (LoadExcludeLists env cur)) ?n info (cur, st1) = Some (cur', st')"
        "root' = ascend cur'"
      using assms(4) P by (auto simp: UpdateUri_def Let_def)
    obtain d' anc' where "cur' = d' # anc'" "touches_set {?n} d d'" "stat_cursor anc anc'"
      using upd.UpdateDirectoryChild_frame [OF assms(1) D(2) assms(3)] U(1) D(1) by blast
    then show ?thesis using cursor_ok_frame cur D(1) ascend_ok U(2) by blast
  qed
qed

lemma update_names_ok:
  "\<lbrakk>\<And>c. tree_ok c \<Longrightarrow> tree_ok (f c) \<and> same_identity (dir c) (dir (f c)); tree_ok d\<rbrakk> \<Longrightarrow>
    tree_ok (update_names ns f d) \<and> same_identity (dir d) (dir (update_names ns f d))"
proof (induction ns arbitrary: d)
  case (Cons n ns)
  have "touches n d (update_child n (update_names ns f) d)"
    using Cons by (intro touches_update_child) auto
  then show ?case by (simp add: touches_def)
qed simp

lemma touches_identity: "touches n d d' \<Longrightarrow> tree_ok d' \<and> same_identity (dir d) (dir d')"
  by (auto simp: touches_def dest: keepsD(7))

lemma purge_song_ok:
  "tree_ok (fst s) \<Longrightarrow> tree_ok (fst (purge_song ns x s)) \<and> same_identity (dir (fst s)) (dir (fst (purge_song ns x s)))"
  using touches_identity [OF touches_RemoveSong] touches_identity [OF touches_update_song]
  by (auto simp: purge_song_def intro!: update_names_ok split: prod.split option.split)

lemma PurgeDanglingFromPlaylists_ok:
  assumes "tree_ok (fst s)"
  shows "tree_ok (fst (PurgeDanglingFromPlaylists s)) \<and> same_identity (dir (fst s)) (dir (fst (PurgeDanglingFromPlaylists s)))"
proof -
  let ?P = "\<lambda>t. tree_ok (fst t) \<and> same_identity (dir (fst s)) (dir (fst t))"
  have song: "?P (purge_song ns x t)" if "?P t" for ns x t
    using purge_song_ok that same_identity_trans by blast
  have songs: "?P (fold (purge_song ns) xs t)" if "?P t" for ns xs t
    by (rule fold_invariant_set [where P = ?P, OF that song])
  show ?thesis
    unfolding PurgeDanglingFromPlaylists_def
    by (rule fold_invariant_set [where P = ?P]) (use assms songs in \<open>auto split: option.split\<close>)
qed

lemma ClearInPlaylist_ok: "tree_ok d \<Longrightarrow> tree_ok (ClearInPlaylist d) \<and> same_identity (dir d) (dir (ClearInPlaylist d))"
proof (induction d)
  case (Directory i cs)
  have "GetName i (dir (ClearInPlaylist c)) = GetName i (dir c)" "child_ok i (dir (ClearInPlaylist c))"
    if "c \<in> set cs" for c
  proof -
    have c: "same_identity (dir c) (dir (ClearInPlaylist c))" using Directory that by (simp add: tree_ok_simps)
    show "GetName i (dir (ClearInPlaylist c)) = GetName i (dir c)" by (rule same_identity_GetName(2) [OF c])
    show "child_ok i (dir (ClearInPlaylist c))"
      using same_identity_ok(3) [OF c, of i] Directory.prems that by (simp add: tree_ok_simps)
  qed
  then show ?case
    using Directory by (simp add: tree_ok_simps comp_def cong: map_cong)
qed

lemma UpdateWalk_tree:
  assumes "env_ok env" "tree_ok root" "isRootDirectory uri \<or> valid_name (GetBase uri)"
    "UpdateWalk_Walk fuel env root uri st = Some (changed, root', st')"
  shows "tree_ok root' \<and> same_identity (dir root) (dir root')"
proof -
  have fin: "tree_ok root' \<and> same_identity (dir root) (dir root')"
    if "(case PurgeDanglingFromPlaylists (ClearInPlaylist d, t) of (d', t') \<Rightarrow> (modified t', d', t')) = (changed, root', st')"
      "tree_ok d" "same_identity (dir root) (dir d)" for d t
    using ClearInPlaylist_ok [OF that(2)] PurgeDanglingFromPlaylists_ok [of "(ClearInPlaylist d, t)"] that
    by (auto simp: case_prod_unfold intro: same_identity_trans)
  show ?thesis
  proof (cases "isRootDirectory uri")
    case False
    then show ?thesis
      using assms UpdateUri_ok [OF assms(1,2)] fin by (fastforce simp: UpdateWalk_Walk_def Let_def)
  next
    case True
    show ?thesis
    proof (cases "\<exists>info. get_info env [] = Some info \<and> IsDirectory info")
      case False
      then show ?thesis using True assms(2,4) by (auto simp: UpdateWalk_Walk_def Let_def split: option.splits)
    next
      case d: True
      then obtain info ok cur t where U: "UpdateDirectory fuel env ExcludeList_empty info ([root], st\<lparr>modified := False\<rparr>) = Some (ok, cur, t)"
        "(case PurgeDanglingFromPlaylists (ClearInPlaylist (hd cur), t) of (d', t') \<Rightarrow> (modified t', d', t')) = (changed, root', st')"
        using True assms(4) by (auto simp: UpdateWalk_Walk_def Let_def)
      then show ?thesis using upd.rec_frame [OF assms(1,2) U(1)] fin [OF U(2)] by auto
    qed
  qed
qed

text \<open>
  Property C4 (invariant): an update of the whole music directory or of a URI keeps the
  tree well-formed: unique names of songs, playlists and sub directories, paths that match
  the position in the tree. The root stays the root.
\<close>

theorem UpdateWalk_keeps_tree:
  assumes "env_ok env" "tree_ok root" "isRootDirectory uri \<or> valid_name (GetBase uri)"
    "UpdateWalk_Walk fuel env root uri st = Some (changed, root', st')"
  shows "tree_ok root' \<and> same_identity (dir root) (dir root')"
  using assms by (rule UpdateWalk_tree)

lemma sample_walk:
  "\<exists>root' st'. UpdateWalk_Walk 1 sample_env sample_root [] sample_state = Some (True, root', st') \<and>
     map filename (songs (dir root')) = [''a.flac''] \<and> removed st' = [''old.flac'']"
proof -
  have "case UpdateWalk_Walk 1 sample_env sample_root [] sample_state of
      Some (True, d, st) \<Rightarrow> map filename (songs (dir d)) = [''a.flac''] \<and> removed st = [''old.flac'']
    | _ \<Rightarrow> False"
    by code_simp
  then show ?thesis by (simp split: option.split_asm prod.split_asm bool.split_asm)
qed

theorem UpdateWalk_keeps_tree_witness:
  "\<exists>root' st'. UpdateWalk_Walk 1 sample_env sample_root [] sample_state = Some (True, root', st') \<and> tree_ok root'"
proof -
  obtain root' st' where run: "UpdateWalk_Walk 1 sample_env sample_root [] sample_state = Some (True, root', st')"
    using sample_walk by blast
  have "isRootDirectory []" by code_simp
  then show ?thesis using UpdateWalk_keeps_tree [OF sample_env_ok sample_root_ok _ run] run by blast
qed

lemma UpdateDirectoryChild_returns:
  assumes "tree_ok d" "valid_name n" "\<And>sub cur. \<lbrakk>IsDirectory i; tree_ok sub\<rbrakk> \<Longrightarrow> rec excl i (sub # cur, st) \<noteq> None"
  shows "UpdateDirectoryChild rec env excl n i (d # anc, st) \<noteq> None"
proof -
  obtain found d1 anc1 where F: "FindAncestorLoop env (fi_inode i) (fi_device i) (d # anc) = (found, d1 # anc1)" "stat_only d d1"
    using FindAncestorLoop_stat [of "d # anc" env "fi_inode i" "fi_device i"]
    by (cases "FindAncestorLoop env (fi_inode i) (fi_device i) (d # anc)") (auto simp: list_all2_Cons1)
  have ok: "tree_ok d1" using stat_only_ok [OF F(2) assms(1)] .
  obtain sub where sub: "FindChild (MakeChild n d1) n = Some sub"
    using FindChild_MakeChild [OF ok assms(2)] by (auto split: option.splits)
  have "tree_ok sub" using tree_ok_FindChild(1) [OF touches_ok [OF touches_MakeChild [OF ok assms(2)]] sub] .
  then have "IsDirectory i \<Longrightarrow> rec excl i (sub # MakeChild n d1 # anc1, st) \<noteq> None" using assms(3) by blast
  then show ?thesis using F sub by (auto simp: UpdateDirectoryChild_def Let_def split: option.splits)
qed

lemma UpdateWalk_returns:
  assumes "finite_storage env ids" "\<forall>p i. get_info env p = Some i \<longrightarrow> IsDirectory i \<longrightarrow> info_id i \<in> ids"
    "env_ok env" "tree_ok root" "isRootDirectory uri \<or> valid_name (GetBase uri)" "card ids \<le> fuel"
  shows "\<exists>changed root' st'. UpdateWalk_Walk fuel env root uri st = Some (changed, root', st')"
proof -
  have total: "UpdateDirectory fuel env excl info (d # anc, t) \<noteq> None" if "tree_ok d" "info_id info \<in> ids" for excl info d anc t
    using UpdateDirectory_total [OF assms(1,3) that(1), of info "[]" fuel excl anc t] that(2) assms(6) by simp
  have "UpdateWalk_Walk fuel env root uri st \<noteq> None"
  proof (cases "isRootDirectory uri")
    case True
    have "UpdateDirectory fuel env ExcludeList_empty info ([root], st\<lparr>modified := False\<rparr>) \<noteq> None"
      if "get_info env [] = Some info" "IsDirectory info" for info
      using assms(2) that by (intro total [OF assms(4)]) blast
    then show ?thesis using True by (cases "get_info env []") (auto simp: UpdateWalk_Walk_def Let_def case_prod_unfold)
  next
    case False
    let ?st = "st\<lparr>modified := False\<rparr>"
    obtain ok cur st1 where P: "DirectoryMakeUriParentChecked env uri ([root], ?st) = (ok, cur, st1)" by (metis surj_pair)
    have "cursor_ok (dir root) cur"
      using DirectoryMakeUriParentChecked_ok [of "dir root" "([root], ?st)" env uri] assms(4) P by (simp add: cursor_ok_def)
    then obtain d anc where D: "cur = d # anc" "tree_ok d" by (cases cur) (auto simp: cursor_ok_def)
    have "\<exists>r. UpdateDirectoryChild (UpdateDirectory fuel env) env excl (GetBase uri) (the (get_info env uri)) (d # anc, st1) = Some r"
      if "get_info env uri \<noteq> None" for excl
      using assms(2,5) False D(2) total that UpdateDirectoryChild_returns [of d "GetBase uri" "the (get_info env uri)"] by auto
    then have "UpdateUri fuel env uri (root, ?st) \<noteq> None"
      using P D(1) by (auto simp: UpdateUri_def Let_def case_prod_unfold split: bool.splits) blast
    then show ?thesis using False by (auto simp: UpdateWalk_Walk_def Let_def)
  qed
  then show ?thesis by auto
qed

text \<open>
  Property C2 (termination): the update of the whole music directory or of a URI returns, on
  every storage whose directories have inode and device numbers out of a finite set, and the
  recursion is no deeper than that set is large: also when symbolic links that are followed
  make the storage appear infinitely deep.
\<close>

theorem UpdateWalk_terminates:
  assumes "finite_storage env ids" "\<forall>p i. get_info env p = Some i \<longrightarrow> IsDirectory i \<longrightarrow> info_id i \<in> ids"
    "env_ok env" "tree_ok root" "isRootDirectory uri \<or> valid_name (GetBase uri)" "card ids \<le> fuel"
  shows "\<exists>changed root' st'. UpdateWalk_Walk fuel env root uri st = Some (changed, root', st')"
  using assms by (rule UpdateWalk_returns)

theorem UpdateWalk_terminates_witness:
  "\<exists>changed root' st'. UpdateWalk_Walk 1 sample_env sample_root [] sample_state = Some (changed, root', st')"
proof (rule UpdateWalk_terminates [OF _ _ sample_env_ok sample_root_ok])
  show "finite_storage sample_env {(1, 1)}" "\<forall>p i. get_info sample_env p = Some i \<longrightarrow> IsDirectory i \<longrightarrow> info_id i \<in> {(1, 1)}"
    by (auto simp: finite_storage_def sample_env_def sample_listing_def sample_info_def file_info_def info_id_def IsDirectory_def
        split: if_splits)
qed (simp_all add: isRootDirectory_def)

end
