(* ===== verification/Update_Reports.thy ===== *)
theory Update_Reports
  imports Update_Total
begin

text \<open>
  No song vanishes from the tree behind the back of the player: what an update takes out of
  the tree is handed to the remove service, which takes it out of the play queue.
\<close>

section \<open>The URIs a player may still hold\<close>

definition uris :: "directory \<Rightarrow> string set" where
  "uris d = fst ` set (all_songs d)"

text \<open>The songs that are in the tree or have been reported as removed.\<close>

definition known :: "dir_st \<Rightarrow> string set" where
  "known s = uris (fst s) \<union> set (removed (snd s))"

lemma uris_Directory: "uris (Directory i cs) = GetURI i ` set (songs i) \<union> (\<Union>c \<in> set cs. uris c)"
  by (simp add: uris_def image_Un image_image image_UN)

lemma uris_eq: "uris d = GetURI (dir d) ` set (songs (dir d)) \<union> (\<Union>c \<in> set (children d). uris c)"
  using uris_Directory [of "dir d" "children d"] by simp

lemma GetURI_identity: "same_identity i j \<Longrightarrow> GetURI i = GetURI j"
  by (simp add: same_identity_def GetURI_def fun_eq_iff)

lemma GetURI_filename: "filename x = filename y \<Longrightarrow> GetURI i x = GetURI i y"
  by (simp add: GetURI_def)

lemma set_ClearDirectory: "set (ClearDirectory d) = uris d"
  by (induction d) (auto simp: uris_Directory)

lemma known_set_modified [simp]: "known (set_modified s) = known s"
  by (simp add: known_def set_modified_def)

lemma known_state: "removed st = removed st' \<Longrightarrow> known (d, st) = known (d, st')"
  by (simp add: known_def)

lemma uris_fields:
  assumes "same_identity (dir d) i" "songs i = songs (dir d)"
  shows "uris (Directory i (children d)) = uris d"
  using GetURI_identity [OF assms(1)] assms(2) by (simp add: uris_eq [of d] uris_Directory)

lemma set_remove_first_find: "set xs \<subseteq> set (remove_first P xs) \<union> set_option (find P xs)"
  by (induction xs) auto

lemma set_update_first_find: "set xs \<subseteq> set (update_first P f xs) \<union> set_option (find P xs)"
  by (induction xs) auto

lemma update_first_hit: "find P xs = Some x \<Longrightarrow> f x \<in> set (update_first P f xs)"
  by (induction xs) (auto split: if_splits)

section \<open>Operations on one directory\<close>

lemma known_AddSong: "known (d, st) \<subseteq> known (AddSong x d, st)"
  by (auto simp: known_def AddSong_def uris_eq [of d] uris_Directory GetURI_def)

lemma known_update_song:
  assumes "\<And>x. filename x = n \<Longrightarrow> filename (f x) = n"
  shows "known (d, st) \<subseteq> known (update_song n f d, st)"
proof -
  let ?ss = "update_first (\<lambda>s. filename s = n) f (songs (dir d))"
  have "GetURI (dir d) x \<in> GetURI (dir d) ` set ?ss" if "x \<in> set (songs (dir d))" for x
  proof (cases "x \<in> set ?ss")
    case False
    then have "find (\<lambda>s. filename s = n) (songs (dir d)) = Some x"
      using set_update_first_find [of "songs (dir d)"] that by (auto simp: set_eq_iff)
    then have "f x \<in> set ?ss" "filename (f x) = filename x" using assms by (auto dest: find_SomeD intro: update_first_hit)
    then show ?thesis using GetURI_filename [of "f x" x] by (metis image_eqI)
  qed simp
  then show ?thesis by (auto simp: known_def update_song_def uris_eq [of d] uris_Directory)
qed

lemma known_DeleteSong: "known s \<subseteq> known (DeleteSong x s)"
proof -
  obtain d st where s: "s = (d, st)" by (meson surj_pair)
  have "GetURI (dir d) y \<in> GetURI (dir d) ` set (remove_first (\<lambda>s. filename s = filename x) (songs (dir d))) \<union> {GetURI (dir d) x}"
    if "y \<in> set (songs (dir d))" for y
    using set_remove_first_find [of "songs (dir d)" "\<lambda>s. filename s = filename x"] that GetURI_filename [of y x]
    by (auto dest: find_SomeD simp: image_iff)
  then show ?thesis by (auto simp: s known_def DeleteSong_def RemoveSong_def uris_eq [of d] uris_Directory)
qed

lemma known_DeleteDirectory: "known s \<subseteq> known (DeleteDirectory n s)"
proof -
  obtain d st where s: "s = (d, st)" by (meson surj_pair)
  show ?thesis
  proof (cases "FindChild d n")
    case (Some c)
    then have "set (children d) \<subseteq> insert c (set (remove_first (\<lambda>c. GetName (dir d) (dir c) = n) (children d)))"
      using set_remove_first_find [of "children d" "\<lambda>c. GetName (dir d) (dir c) = n"] by (simp add: FindChild_def)
    then show ?thesis
      using Some by (auto simp: s known_def DeleteDirectory_def Directory_Delete_def uris_eq [of d] uris_Directory set_ClearDirectory)
  qed (simp add: s DeleteDirectory_def)
qed

lemma known_MakeChild: "known (d, st) \<subseteq> known (MakeChild n d, st)"
  by (auto simp: known_def MakeChild_def CreateChild_def uris_eq [of d] uris_Directory split: option.split)

lemma known_update_child:
  assumes "FindChild d n = Some c" "known (c, st) \<subseteq> known (f c, st')"
  shows "known (d, st) \<subseteq> known (update_child n f d, st')"
proof -
  let ?cs = "update_first (\<lambda>c. GetName (dir d) (dir c) = n) f (children d)"
  have "f c \<in> set ?cs" "set (children d) \<subseteq> insert c (set ?cs)"
    using assms(1) set_update_first_find [of "children d" "\<lambda>c. GetName (dir d) (dir c) = n" f]
    by (auto simp: FindChild_def intro: update_first_hit)
  then show ?thesis
    using assms(2) unfolding known_def update_child_def fst_conv snd_conv uris_eq [of d] uris_Directory by blast
qed

lemma update_child_missing: "FindChild d n = None \<Longrightarrow> update_child n f d = d"
  by (cases d) (auto simp: update_child_def FindChild_def find_None_iff intro: update_first_none)

lemma known_update_child_same:
  assumes "\<And>c. uris (f c) = uris c"
  shows "known (d, st) \<subseteq> known (update_child n f d, st)"
  using known_update_child [of d n _ st f st] assms update_child_missing [of d n f]
  by (cases "FindChild d n") (auto simp: known_def)

lemma known_DeleteNameIn: "known s \<subseteq> known (snd (DeleteNameIn n s))"
proof -
  define s1 where "s1 = (if FindChild (fst s) n \<noteq> None then DeleteDirectory n s else s)"
  define s2 where "s2 = (case FindSong (fst s1) n of None \<Rightarrow> s1 | Some x \<Rightarrow> DeleteSong x s1)"
  have "known s \<subseteq> known s1" using known_DeleteDirectory by (simp add: s1_def)
  also have "\<dots> \<subseteq> known s2" using known_DeleteSong by (auto simp: s2_def split: option.split)
  also have "\<dots> = known (snd (DeleteNameIn n s))"
    using uris_fields [of "fst s2" "(dir (fst s2))\<lparr>playlists := pv\<rparr>" for pv]
    by (auto simp: DeleteNameIn_def Let_def known_def s1_def s2_def case_prod_unfold split: option.split)
  finally show ?thesis .
qed

section \<open>Files\<close>

lemma known_flags [simp]:
  "known (d, st\<lparr>modified := b\<rparr>) = known (d, st)" "known (d, st\<lparr>tick := k\<rparr>) = known (d, st)"
  "known (d, st\<lparr>modified := b, tick := k\<rparr>) = known (d, st)"
  by (simp_all add: known_def)

lemma known_update_child_mono:
  assumes "\<And>c. known (c, st) \<subseteq> known (f c, st)"
  shows "known (d, st) \<subseteq> known (update_child n f d, st)"
  using known_update_child [of d n _ st f st] assms update_child_missing [of d n f]
  by (cases "FindChild d n") auto

lemma uris_mark [simp]:
  "uris (Directory ((dir c)\<lparr>dir_mtime := t, device := v, dir_mark := b\<rparr>) (children c)) = uris c"
  "uris (Directory ((dir c)\<lparr>device := v\<rparr>) (children c)) = uris c" "uris (mark_child c) = uris c"
  unfolding mark_child_def by (rule uris_fields; simp add: same_identity_def)+

lemma known_MakeVirtualDirectoryIfModified:
  "known s \<subseteq> known (snd (MakeVirtualDirectoryIfModified env n info dev s))"
proof -
  let ?f = "\<lambda>c. Directory ((dir c)\<lparr>dir_mtime := fi_mtime info, device := dev, dir_mark := True\<rparr>) (children c)"
  have create: "known (d, st) \<subseteq> known (update_child n ?f (MakeChild n d), st)" for d st
    using known_MakeChild [of d st n] known_update_child_same [of ?f "MakeChild n d" st n] by auto
  have "known s \<subseteq> known (update_child n ?f (MakeChild n (fst t)), snd t)" if "known s \<subseteq> known t" for t
    using create [of "fst t" "snd t"] that by auto
  from this [of s] this [of "set_modified (DeleteDirectory n s)"] show ?thesis
    using known_DeleteDirectory [of s n] known_update_child_same [of mark_child "fst s" "snd s" n]
    by (auto simp: MakeVirtualDirectoryIfModified_def Let_def set_modified_def split: option.split)
qed

lemma known_add_songs: "known (c, st) \<subseteq> known (Directory ((dir c)\<lparr>songs := songs (dir c) @ ss\<rparr>) (children c), st)"
  by (auto simp: known_def uris_eq [of c] uris_Directory GetURI_def)

lemma known_UpdateContainerFile: "known s \<subseteq> known (snd (UpdateContainerFile env n suffix info s))"
proof -
  obtain b s1 where M: "MakeVirtualDirectoryIfModified env n info DEVICE_CONTAINER s = (b, s1)" by (meson surj_pair)
  have 1: "known s \<subseteq> known s1" using known_MakeVirtualDirectoryIfModified [of s env n info DEVICE_CONTAINER] M by simp
  have 2: "known s1 \<subseteq> known (add_tracks f n v (fst s1), snd s1)" for f v
    using known_update_child_mono [of "snd s1" "fold (\<lambda>t. AddSong (f t)) v" "fst s1" n] known_add_songs
    by (simp add: add_tracks_def fold_AddSong)
  have 3: "known s \<subseteq> known (add_tracks f n v (fst s1), snd s1)" for f v using 1 2 by blast
  then have "known s \<subseteq> known (DeleteDirectory n (add_tracks f n v (fst s1), snd s1))" for f v
    using known_DeleteDirectory by blast
  moreover have "known s \<subseteq> known (DeleteDirectory n s1)" using 1 known_DeleteDirectory by blast
  ultimately show ?thesis
    using 1 3 M by (simp add: UpdateContainerFile_def Let_def split: option.split bool.split)
qed

lemma known_UpdateSongFile2: "known s \<subseteq> known (UpdateSongFile2 env n suffix info s)"
proof -
  obtain contained s1 where C: "UpdateContainerFile env n suffix info s = (contained, s1)" by (meson surj_pair)
  have 1: "known s \<subseteq> known s1" using known_UpdateContainerFile [of s env n suffix info] C by simp
  show ?thesis
  proof (cases "FindSong (fst s) n")
    case None
    have "known s1 \<subseteq> known (AddSong x (fst s1), snd s1)" for x
      using known_AddSong [of "fst s1" "snd s1" x] by simp
    then have "known s \<subseteq> known (case LoadFile env (dir (fst s1)) n info of
         None \<Rightarrow> s1
       | Some new_song \<Rightarrow>
           if \<not> ShouldIncludeSong (mode env) new_song then s1
           else (AddSong (new_song\<lparr>song_mark := True, added := clock env (tick (snd s1))\<rparr>) (fst s1),
                 (snd s1)\<lparr>modified := True, tick := tick (snd s1) + 1\<rparr>))"
      using 1 by (auto split: option.split)
    then show ?thesis
      using None C 1 unfolding UpdateSongFile2_def Let_def ProcessSongTags_id by simp
  next
    case (Some x)
    have key: "filename x = n" using Some by (rule song_store.lookup_key)
    have upd: "known t \<subseteq> known (update_song n f (fst t), snd t)" if "\<And>y. filename y = n \<Longrightarrow> filename (f y) = n" for f t
      using known_update_song [of n f "fst t" "snd t"] that by simp
    have "known s1 \<subseteq> known (case UpdateFile env (dir (fst s1)) info x of
         Some song' \<Rightarrow>
           if \<not> ShouldIncludeSong (mode env) song'
           then set_modified (DeleteSong song' (update_song n (\<lambda>_. song') (fst s1), snd s1))
           else set_modified (update_song n (\<lambda>x. x\<lparr>song_mark := True\<rparr>) (update_song n (\<lambda>_. song') (fst s1)), snd s1)
       | None \<Rightarrow> set_modified s1)"
    proof (cases "UpdateFile env (dir (fst s1)) info x")
      case (Some y)
      let ?t = "(update_song n (\<lambda>_. y) (fst s1), snd s1)"
      have "filename y = n" using UpdateFile_SomeD(1) [OF Some] key by simp
      then have "known s1 \<subseteq> known ?t" using upd by simp
      then show ?thesis using Some known_DeleteSong [of ?t y] upd [of "\<lambda>x. x\<lparr>song_mark := True\<rparr>" ?t] by auto
    qed simp
    then show ?thesis
      using Some C 1 upd [of "\<lambda>x. x\<lparr>song_mark := True\<rparr>" s]
      unfolding UpdateSongFile2_def Let_def ProcessSongTags_id fst_conv snd_conv by auto
  qed
qed

lemma known_UpdateArchiveTree: "known s \<subseteq> known (UpdateArchiveTree env archive ancestors name s)"
proof (induction env archive ancestors name s rule: UpdateArchiveTree.induct)
  case (1 env archive ancestors name s)
  obtain child r where S: "Split name CHR ''/'' = (child, r)" by (meson surj_pair)
  show ?case
  proof (cases r)
    case None
    have "known s \<subseteq> known (update_song name (\<lambda>_. y) (fst s), snd s)" if "filename y = name" for y
      using known_update_song [of name "\<lambda>_. y" "fst s" "snd s"] that by simp
    then show ?thesis
      using None S known_AddSong [of "fst s" "snd s"] known_DeleteSong [of s]
      by (subst UpdateArchiveTree.simps)
        (auto dest!: UpdateFileInArchive_filename song_store.lookup_key split: option.split)
  next
    case (Some rest)
    let ?d = "MakeChild child (fst s)"
    have M: "known s \<subseteq> known (?d, snd s)" using known_MakeChild [of "fst s" "snd s" child] by simp
    show ?thesis
    proof (cases "IsAcceptableFilename child \<and> FindChild ?d child \<noteq> None")
      case True
      then obtain c where c: "FindChild ?d child = Some c" by auto
      let ?sub = "Directory ((dir c)\<lparr>device := DEVICE_INARCHIVE\<rparr>) (children c)"
      let ?res = "UpdateArchiveTree env archive (dir ?d # ancestors) rest (?sub, snd s)"
      have "known (?sub, snd s) \<subseteq> known ?res" using 1 [OF S [symmetric] Some] True c by simp
      then have "known (c, snd s) \<subseteq> known (fst ?res, snd ?res)" by (simp add: known_def)
      from known_update_child [OF c, of "snd s" "\<lambda>_. fst ?res", OF this] show ?thesis
        using M Some S True c by (subst UpdateArchiveTree.simps) (auto simp: Let_def case_prod_unfold)
    qed (use M Some S in \<open>subst UpdateArchiveTree.simps, auto simp: Let_def split: option.split\<close>)
  qed
qed

lemma known_UpdateArchiveFile: "known s \<subseteq> known (snd (UpdateArchiveFile env ancestors n suffix info s))"
proof -
  obtain b s1 where M: "MakeVirtualDirectoryIfModified env n info DEVICE_INARCHIVE s = (b, s1)" by (meson surj_pair)
  have 1: "known s \<subseteq> known s1" using known_MakeVirtualDirectoryIfModified [of s env n info DEVICE_INARCHIVE] M by simp
  have "known s1 \<subseteq> known (update_child n (\<lambda>_. mark_child (fst (fold (UpdateArchiveTree env a anc) es (c, snd s1)))) (fst s1),
      snd (fold (UpdateArchiveTree env a anc) es (c, snd s1)))"
    if "FindChild (fst s1) n = Some c" for c a anc es
  proof -
    have "known (c, snd s1) \<subseteq> known (fold (UpdateArchiveTree env a anc) es (c, snd s1))"
      by (rule fold_invariant_set [where P = "\<lambda>t. known (c, snd s1) \<subseteq> known t"]) (use known_UpdateArchiveTree in blast)+
    then show ?thesis using known_update_child [OF that, of "snd s1"] by (simp add: known_def)
  qed
  then have "known s \<subseteq> known (update_child n (\<lambda>_. mark_child (fst (fold (UpdateArchiveTree env a anc) es (c, snd s1)))) (fst s1),
      snd (fold (UpdateArchiveTree env a anc) es (c, snd s1)))"
    if "FindChild (fst s1) n = Some c" for c a anc es
    using 1 that by blast
  then show ?thesis
    using 1 M by (simp add: UpdateArchiveFile_def UpdateArchiveFile_plugin_def Let_def case_prod_unfold split: option.split bool.split)
qed

lemma known_UpdatePlaylistFile: "known s \<subseteq> known (snd (UpdatePlaylistFile env n suffix info s))"
proof -
  obtain b s1 where M: "MakeVirtualDirectoryIfModified env n info DEVICE_PLAYLIST s = (b, s1)" by (meson surj_pair)
  have 1: "known s \<subseteq> known s1" using known_MakeVirtualDirectoryIfModified [of s env n info DEVICE_PLAYLIST] M by simp
  have 2: "known s1 \<subseteq> known (update_child n (UpdatePlaylistFile_songs 0 v) (fst s1), snd s1)" for v
    using known_update_child_mono [of "snd s1" "UpdatePlaylistFile_songs 0 v" "fst s1" n] known_add_songs
    unfolding UpdatePlaylistFile_songs_eq by simp
  have 3: "known s \<subseteq> known (update_child n (UpdatePlaylistFile_songs 0 v) (fst s1), snd s1)" for v using 1 2 by blast
  then have "known s \<subseteq> known (DeleteDirectory n (update_child n (UpdatePlaylistFile_songs 0 v) (fst s1), snd s1))" for v
    using known_DeleteDirectory by blast
  moreover have "known s \<subseteq> known (DeleteDirectory n s1)" using 1 known_DeleteDirectory by blast
  ultimately have folder: "known s \<subseteq> known (UpdatePlaylistFile_folder env n info plugin s)" for plugin
    using 1 3 M by (simp add: UpdatePlaylistFile_folder_def Let_def split: option.split bool.split)
  have pv: "known (Directory ((dir (fst t))\<lparr>playlists := v\<rparr>) (children (fst t)), snd t) = known t" for v t
    using uris_fields [of "fst t" "(dir (fst t))\<lparr>playlists := v\<rparr>"] by (simp add: known_def)
  show ?thesis
    using folder pv by (auto simp: UpdatePlaylistFile_def Let_def case_prod_unfold split: option.split)
qed

lemma known_UpdateRegularFile: "known s \<subseteq> known (snd (UpdateRegularFile env ancestors n info s))"
proof (cases "GetFilenameSuffix n")
  case (Some suffix)
  obtain b1 s1 where s1: "UpdateSongFile env n suffix info s = (b1, s1)" by (meson surj_pair)
  obtain b2 s2 where s2: "UpdateArchiveFile env ancestors n suffix info s1 = (b2, s2)" by (meson surj_pair)
  have "known s \<subseteq> known s1" using s1 known_UpdateSongFile2 [of s env n suffix info] by (auto simp: UpdateSongFile_def split: if_splits)
  moreover have "known s1 \<subseteq> known s2" using known_UpdateArchiveFile [of s1 env ancestors n suffix info] s2 by simp
  moreover have "known s2 \<subseteq> known (snd (UpdatePlaylistFile env n suffix info s2))" by (rule known_UpdatePlaylistFile)
  ultimately show ?thesis using Some s1 s2 by (auto simp: UpdateRegularFile_def split: bool.split)
qed (simp add: UpdateRegularFile_def)

section \<open>Directories\<close>

lemma known_fold:
  assumes "\<And>x t. known t \<subseteq> known (f x t)"
  shows "known s \<subseteq> known (fold f xs s)"
  by (rule fold_invariant_set [where P = "\<lambda>t. known s \<subseteq> known t"]) (use assms in blast)+

lemma known_RemoveExcluded: "known s \<subseteq> known (RemoveExcludedFromDirectory env excl s)"
proof -
  define s1 where "s1 = fold (\<lambda>c s'. if excluded env excl (GetName (dir (fst s)) (dir c))
      then set_modified (DeleteDirectory (GetName (dir (fst s)) (dir c)) s') else s') (children (fst s)) s"
  have "known s \<subseteq> known s1"
    unfolding s1_def by (rule known_fold) (simp add: known_DeleteDirectory)
  also have "\<dots> \<subseteq> known (RemoveExcludedFromDirectory env excl s)"
    unfolding RemoveExcludedFromDirectory_def Let_def s1_def [symmetric]
    by (rule known_fold) (simp add: known_DeleteSong)
  finally show ?thesis .
qed

lemma uris_UnmarkAllIn: "uris (UnmarkAllIn d) = uris d"
proof -
  have c: "uris (Directory ((dir c)\<lparr>dir_mark := False\<rparr>) (children c)) = uris c" for c
    by (rule uris_fields) simp_all
  have "same_identity (dir d) (dir (UnmarkAllIn d))" by (simp add: UnmarkAllIn_def same_identity_def)
  then have "GetURI (dir (UnmarkAllIn d)) = GetURI (dir d)" by (simp add: GetURI_identity)
  moreover have "GetURI (dir d) ` (\<lambda>x. x\<lparr>song_mark := False\<rparr>) ` A = GetURI (dir d) ` A" for A
    by (auto simp: image_image intro!: image_cong GetURI_filename)
  ultimately show ?thesis
    unfolding uris_eq [of "UnmarkAllIn d"] uris_eq [of d] by (simp add: UnmarkAllIn_def c)
qed

lemma known_Purge: "known s \<subseteq> known (PurgeDeletedFromDirectory s)"
proof -
  define s1 where "s1 = fold (\<lambda>c s'. if IsMount (dir c) then s' else if dir_mark (dir c) then s'
      else set_modified (DeleteDirectory (GetName (dir (fst s)) (dir c)) s')) (children (fst s)) s"
  define s2 where "s2 = fold (\<lambda>x s'. if \<not> song_mark x then set_modified (DeleteSong x s') else s') (songs (dir (fst s1))) s1"
  have "known s \<subseteq> known s1" unfolding s1_def by (rule known_fold) (simp add: known_DeleteDirectory)
  also have "\<dots> \<subseteq> known s2" unfolding s2_def by (rule known_fold) (simp add: known_DeleteSong)
  also have "\<dots> = known (PurgeDeletedFromDirectory s)"
    using uris_fields [of "fst s2" "(dir (fst s2))\<lparr>playlists := pv\<rparr>" for pv]
    unfolding PurgeDeletedFromDirectory_def Let_def s1_def [symmetric] s2_def [symmetric] by (simp add: known_def)
  finally show ?thesis .
qed

lemma uris_stat: "stat_only a b \<Longrightarrow> uris b = uris a"
  using uris_fields [of a "dir b"] stat_only_fields(1,5) [of a b] by (simp add: stat_only_def) (metis directory.collapse)

text \<open>The contract of the recursive call, with what it reports.\<close>

locale reporting_updater = directory_updater +
  assumes rec_known: "\<lbrakk>env_ok env; tree_ok d; rec excl info (d # anc, st) = Some (ok, d' # anc', st')\<rbrakk> \<Longrightarrow>
    known (d, st) \<subseteq> known (d', st')"
begin

lemma UpdateDirectoryChild_known:
  assumes "env_ok env" "tree_ok d" "valid_name n"
    "UpdateDirectoryChild rec env excl n info (d # anc, st) = Some (d' # anc', st')"
  shows "known (d, st) \<subseteq> known (d', st')"
proof (cases "\<not> IsRegular info \<and> IsDirectory info")
  case False
  then show ?thesis
    using assms(4) known_UpdateRegularFile [of "(d, st)" env "map dir anc" n info]
    by (auto simp: UpdateDirectoryChild_def at_head_def case_prod_unfold split: if_splits)
next
  case True
  obtain found d1 anc1 where F: "FindAncestorLoop env (fi_inode info) (fi_device info) (d # anc) = (found, d1 # anc1)" "stat_only d d1"
    using FindAncestorLoop_stat [of "d # anc" env "fi_inode info" "fi_device info"]
    by (cases "FindAncestorLoop env (fi_inode info) (fi_device info) (d # anc)") (auto simp: list_all2_Cons1)
  have 1: "known (d1, st) = known (d, st)" using uris_stat [OF F(2)] by (simp add: known_def)
  have ok1: "tree_ok d1" using stat_only_ok [OF F(2) assms(2)] .
  show ?thesis
  proof (cases "found = 0")
    case False
    then show ?thesis using True F 1 assms(4) by (auto simp: UpdateDirectoryChild_def)
  next
    case found: True
    note M = touches_MakeChild [OF ok1 assms(3)]
    obtain sub where sub: "FindChild (MakeChild n d1) n = Some sub"
      using FindChild_MakeChild [OF ok1 assms(3)] by (auto split: option.splits)
    have subok: "tree_ok sub" using tree_ok_FindChild(1) [OF touches_ok [OF M] sub] .
    obtain ok cur2 st2 where R: "rec excl info (sub # MakeChild n d1 # anc1, st) = Some (ok, cur2, st2)"
      using True found F sub assms(4) by (auto simp: UpdateDirectoryChild_def Let_def split: option.splits)
    obtain sub' d2 anc2 where C: "cur2 = sub' # d2 # anc2" "stat_only (MakeChild n d1) d2"
      using rec_frame [OF assms(1) subok R] by (auto simp: list_all2_Cons1)
    have "FindChild d2 n = Some sub" using stat_only_fields(7) [OF C(2), of n] sub by (simp add: same_entries_def)
    then have "known (d2, st) \<subseteq> known (update_child n (\<lambda>_. sub') d2, st2)"
      using rec_known [OF assms(1) subok R [unfolded C(1)]] by (intro known_update_child) simp_all
    moreover have "known (d1, st) \<subseteq> known (d2, st)"
      using known_MakeChild [of d1 st n] uris_stat [OF C(2)] by (simp add: known_def)
    ultimately have "known (d, st) \<subseteq> known (update_child n (\<lambda>_. sub') d2, st2)" using 1 by blast
    moreover have "\<dots> \<subseteq> known (DeleteDirectory n (update_child n (\<lambda>_. sub') d2, st2))" by (rule known_DeleteDirectory)
    ultimately show ?thesis
      using True found F sub R C(1) assms(4)
      by (auto simp: UpdateDirectoryChild_def Let_def at_head_def case_prod_unfold split: if_splits)
  qed
qed

lemma update_entries_known:
  "\<lbrakk>env_ok env; \<forall>e \<in> set es. valid_name (fst e); tree_ok d;
    update_entries rec env excl es (d # anc, st) = Some (d' # anc', st')\<rbrakk> \<Longrightarrow> known (d, st) \<subseteq> known (d', st')"
proof (induction es arbitrary: d anc st)
  case (Cons e es)
  obtain n info where e: "e = (n, info)" by (meson surj_pair)
  let ?st = "st\<lparr>tick := tick st + 1\<rparr>" and ?del = "DeleteNameIn n (d, st\<lparr>tick := tick st + 1\<rparr>)"
  have IH: "known (a, t) \<subseteq> known (d', st')" if "tree_ok a" "update_entries rec env excl es (a # anca, t) = Some (d' # anc', st')" for a anca t
    using Cons.IH [OF Cons.prems(1) _ that] Cons.prems(2) by simp
  have del: "tree_ok (fst (snd ?del))" "known (d, st) \<subseteq> known (snd ?del)"
    using touches_DeleteNameIn [of "(d, ?st)" n] known_DeleteNameIn [of "(d, ?st)" n] Cons.prems(3) by (auto simp: touches_def)
  show ?case
  proof (cases "cancelled env (tick st) \<or> skip_path n \<or> excluded env excl n")
    case True
    then show ?thesis
      using IH [OF Cons.prems(3), of anc ?st] Cons.prems(4) e by (auto simp: Let_def split: if_splits)
  next
    case False
    show ?thesis
    proof (cases "SkipSymlink env (d # anc) n \<or> info = None")
      case True
      let ?t = "(snd (snd ?del))\<lparr>modified := modified (snd (snd ?del)) \<or> fst ?del\<rparr>"
      have "update_entries rec env excl es (fst (snd ?del) # anc, ?t) = Some (d' # anc', st')"
        using Cons.prems(4) True False e by (simp add: Let_def case_prod_unfold)
      then have "known (fst (snd ?del), ?t) \<subseteq> known (d', st')" by (rule IH [OF del(1)])
      then show ?thesis using del(2) by simp
    next
      case no: False
      then obtain i cur1 st1 where C: "UpdateDirectoryChild rec env excl n i (d # anc, ?st) = Some (cur1, st1)"
        "update_entries rec env excl es (cur1, st1) = Some (d' # anc', st')"
        using Cons.prems(4) False e by (auto simp: Let_def split: option.splits)
      have v: "valid_name n" using Cons.prems(2) e by simp
      obtain d1 anc1 where D: "cur1 = d1 # anc1" "touches_set {n} d d1"
        using UpdateDirectoryChild_frame [OF Cons.prems(1,3) v C(1)] by blast
      have "known (d, ?st) \<subseteq> known (d1, st1)"
        by (rule UpdateDirectoryChild_known [OF Cons.prems(1,3) v C(1) [unfolded D(1)]])
      then show ?thesis using IH [OF touches_set_ok [OF D(2)]] C(2) D(1) by simp blast
    qed
  qed
qed simp

lemma UpdateDirectory_body_known:
  assumes "env_ok env" "tree_ok d" "UpdateDirectory_body rec env excl info (d # anc, st) = Some (ok, d' # anc', st')"
  shows "known (d, st) \<subseteq> known (d', st')"
proof -
  let ?d0 = "directory_set_stat info d"
  have 0: "known (?d0, st) = known (d, st)"
    using uris_fields [of d "dir ?d0"] by (simp add: known_def) (simp add: directory_set_stat_def)
  have ok0: "tree_ok ?d0" using assms(2) by (rule tree_ok_set_stat)
  show ?thesis
  proof (cases "open_directory env (path (dir ?d0))")
    case None
    then show ?thesis using assms(3) 0 by (simp add: UpdateDirectory_body_def Let_def)
  next
    case (Some es)
    define ce where "ce = LoadExcludeListOrLog env (dir ?d0) (ExcludeList_child excl)"
    define s1 where "s1 = (if \<not> ExcludeList_IsEmpty ce then RemoveExcludedFromDirectory env ce (?d0, st) else (?d0, st))"
    have 1: "known (d, st) \<subseteq> known s1" using 0 known_RemoveExcluded [of "(?d0, st)" env ce] by (simp add: s1_def)
    have ok1: "tree_ok (UnmarkAllIn (fst s1))"
      using ok0 by (auto simp: s1_def RemoveExcludedFromDirectory_eq intro!: tree_ok_UnmarkAllIn tree_ok_keep_entries)
    obtain cur st2 where U: "update_entries rec env ce es (UnmarkAllIn (fst s1) # anc, snd s1) = Some (cur, st2)"
      "d' = (let e = fst (PurgeDeletedFromDirectory (hd cur, st2)) in
          Directory ((dir e)\<lparr>dir_mtime := fi_mtime info, dir_mark := True\<rparr>) (children e))"
      "st' = snd (PurgeDeletedFromDirectory (hd cur, st2))"
      using assms(3) Some by (auto simp: UpdateDirectory_body_def Let_def ce_def [symmetric] s1_def [symmetric]
          case_prod_unfold split: option.splits)
    have v: "\<forall>e \<in> set es. valid_name (fst e)" using assms(1) Some by (auto simp: env_ok_def names_valid_def)
    obtain d2 anc2 where D: "cur = d2 # anc2" using update_entries_frame [OF U(1) assms(1) v ok1] by blast
    have "known (UnmarkAllIn (fst s1), snd s1) = known s1" by (simp add: known_def uris_UnmarkAllIn)
    moreover have "known (UnmarkAllIn (fst s1), snd s1) \<subseteq> known (d2, st2)"
      using update_entries_known [OF assms(1) v ok1] U(1) D by simp
    moreover have "known (d2, st2) \<subseteq> known (PurgeDeletedFromDirectory (d2, st2))" by (rule known_Purge)
    moreover have "known (d', st') = known (PurgeDeletedFromDirectory (d2, st2))"
      using uris_fields [of "fst (PurgeDeletedFromDirectory (d2, st2))" "dir d'"] U(2,3) D
      by (simp add: known_def Let_def) (simp add: same_identity_def)
    ultimately show ?thesis using 1 by blast
  qed
qed

end

lemma UpdateDirectory_reporting: "reporting_updater env (UpdateDirectory fuel env)"
proof (induction fuel)
  case (Suc fuel)
  show ?case
    using reporting_updater.UpdateDirectory_body_known [OF Suc.IH] by unfold_locales simp
qed (unfold_locales, simp)

interpretation rep: reporting_updater env "UpdateDirectory fuel env" for env fuel
  by (rule UpdateDirectory_reporting)

section \<open>Cursors\<close>

lemma linked_head:
  assumes "linked (a # anc)" "same_identity (dir a) (dir b)"
  shows "linked (b # anc)"
proof (cases anc)
  case (Cons p r)
  have "GetName (dir p) (dir b) = GetName (dir p) (dir a)" by (rule same_identity_GetName(2) [OF assms(2)])
  then show ?thesis using assms Cons by (auto intro: same_identity_trans)
qed simp

lemma set_update_first_other: "set (update_first P (\<lambda>_. a) xs) \<subseteq> insert a (set (update_first P (\<lambda>_. b) xs))"
  by (induction xs) auto

lemma subset_replace:
  "\<lbrakk>C \<subseteq> insert c C'; c' \<in> C'; U c \<union> R \<subseteq> U c' \<union> R'\<rbrakk> \<Longrightarrow> A \<union> \<Union> (U ` C) \<union> R \<subseteq> A \<union> \<Union> (U ` C') \<union> R'"
  by blast

lemma known_replace:
  assumes "FindChild p n = Some c0" "stat_only p p'" "known (c, st) \<subseteq> known (c', st')"
  shows "known (update_child n (\<lambda>_. c) p, st) \<subseteq> known (update_child n (\<lambda>_. c') p', st')"
proof -
  let ?P = "\<lambda>x. GetName (dir p) (dir x) = n"
  note p' = stat_only_fields(1,5) [OF assms(2)]
  have "children p' = children p" using assms(2) by (simp add: stat_only_def)
  then have u: "update_child n (\<lambda>_. c') p' = Directory (dir p') (update_first ?P (\<lambda>_. c') (children p))"
    using same_identity_GetName(1) [OF p'(2)] by (simp add: update_child_def)
  have hit: "c' \<in> set (update_first ?P (\<lambda>_. c') (children p))"
    using assms(1) update_first_hit [of ?P "children p" c0 "\<lambda>_. c'"] by (simp add: FindChild_def)
  show ?thesis
    unfolding u unfolding update_child_def known_def fst_conv snd_conv uris_Directory p'(1) GetURI_identity [OF p'(2), symmetric]
    using set_update_first_other hit assms(3) [unfolded known_def fst_conv snd_conv] by (rule subset_replace)
qed

lemma ascend_known:
  "\<lbrakk>known (d, st) \<subseteq> known (d', st'); same_identity (dir d) (dir d'); stat_cursor anc anc'; linked (d # anc)\<rbrakk> \<Longrightarrow>
    known (ascend (d # anc), st) \<subseteq> known (ascend (d' # anc'), st')"
proof (induction anc arbitrary: d d' anc')
  case (Cons p r)
  obtain p' r' where A: "anc' = p' # r'" "stat_only p p'" "stat_cursor r r'" using Cons.prems(3) by (auto simp: list_all2_Cons1)
  obtain c0 where c0: "FindChild p (GetName (dir p) (dir d)) = Some c0" "linked (p # r)" using Cons.prems(4) by auto
  let ?n = "GetName (dir p) (dir d)"
  have n: "GetName (dir p') (dir d') = ?n"
    using same_identity_GetName(2) [OF Cons.prems(2)] same_identity_GetName(1) [OF stat_only_fields(5) [OF A(2)]] by simp
  have "known (update_child ?n (\<lambda>_. d) p, st) \<subseteq> known (update_child ?n (\<lambda>_. d') p', st')"
    by (rule known_replace [OF c0(1) A(2) Cons.prems(1)])
  moreover have "same_identity (dir (update_child ?n (\<lambda>_. d) p)) (dir (update_child ?n (\<lambda>_. d') p'))"
    using stat_only_fields(5) [OF A(2)] by simp
  moreover have "linked (update_child ?n (\<lambda>_. d) p # r)" by (rule linked_head [OF c0(2)]) simp
  ultimately show ?case using Cons.IH [OF _ _ A(3)] A(1) n by simp
qed simp

lemma ascend_push:
  assumes "tree_ok p" "FindChild p n = Some c"
  shows "ascend (c # p # anc) = ascend (p # anc)"
proof -
  have "update_child n (\<lambda>_. c) p = p"
    using assms(2) update_first_same [of _ "children p" c "\<lambda>_. c"] by (simp add: update_child_def FindChild_def)
  then show ?thesis using tree_ok_FindChild(3) [OF assms] by simp
qed

lemma ascend_frame:
  assumes "cursor_ok r (d # anc)" "known (d, st) \<subseteq> known (d', st')" "touches_set N d d'" "stat_cursor anc anc'"
  shows "known (ascend (d # anc), st) \<subseteq> known (ascend (d' # anc'), st')"
  using assms by (intro ascend_known) (auto simp: cursor_ok_def touches_set_def keeps_id_identity)

lemma known_CreateChild: "known (d, st) \<subseteq> known (CreateChild n d, st)"
  by (auto simp: known_def CreateChild_def uris_eq [of d] uris_Directory)

lemma DirectoryMakeChildChecked_known:
  assumes "cursor_ok r cur" "valid_name n"
  shows "known (ascend cur, st) \<subseteq>
    known (ascend (fst (snd (DirectoryMakeChildChecked env uri n (cur, st)))), snd (snd (DirectoryMakeChildChecked env uri n (cur, st))))"
proof -
  obtain d anc where cur: "cur = d # anc" "tree_ok d" "linked (d # anc)" using assms(1) by (cases cur) (auto simp: cursor_ok_def)
  show ?thesis
  proof (cases "FindChild d n = None \<and> get_info env uri \<noteq> None")
    case False
    then show ?thesis
      using cur ascend_push [OF cur(2), of n _ anc] by (auto simp: DirectoryMakeChildChecked_def split: option.split)
  next
    case True
    then obtain info where info: "get_info env uri = Some info" by auto
    obtain found d1 anc1 where F: "FindAncestorLoop env (fi_inode info) (fi_device info) cur = (found, d1 # anc1)"
      "stat_only d d1" "stat_cursor anc anc1"
      using FindAncestorLoop_stat [of cur env "fi_inode info" "fi_device info"]
      by (cases "FindAncestorLoop env (fi_inode info) (fi_device info) cur") (auto simp: cur(1) list_all2_Cons1)
    have t1: "tree_ok d1" using stat_only_ok [OF F(2) cur(2)] .
    have k1: "known (d1, st) = known (d, st)" using uris_stat [OF F(2)] by (simp add: known_def)
    have stay: "known (ascend cur, st) \<subseteq> known (ascend (d1 # anc1), st)"
      unfolding cur(1) by (rule ascend_known [OF _ stat_only_fields(5) [OF F(2)] F(3) cur(3)]) (simp add: k1)
    define s2 where "s2 = (case FindSong d1 n of None \<Rightarrow> (d1, st) | Some x \<Rightarrow> DeleteSong x (d1, st))"
    have T: "touches n d1 (fst s2)"
      using t1 touches_DeleteSong [of "(d1, st)"] song_store.lookup_key [of d1 n] by (auto simp: s2_def split: option.split)
    have none: "FindChild (fst s2) n = None"
      using True stat_only_fields(7) [OF F(2), of n]
      by (auto simp: s2_def DeleteSong_def RemoveSong_def FindChild_def same_entries_def split: option.split)
    let ?d3 = "CreateChild n (fst s2)" and ?c = "Directory_new (child_path (dir (fst s2)) n) False"
    let ?d4 = "update_child n (\<lambda>_. directory_set_stat info ?c) ?d3"
    note T3 = touches_CreateChild [OF touches_ok [OF T] assms(2) none]
    have c: "FindChild ?d3 n = Some ?c"
      using FindChild_CreateChild [OF tree_okD(6) [OF touches_ok [OF T]] assms(2) none] by simp
    have ct: "tree_ok ?c" using tree_ok_new tree_okD(1) [OF touches_ok [OF T]] assms(2) by blast
    have T4: "touches n ?d3 ?d4"
      using touches_ok [OF T3] c tree_ok_set_stat [OF ct] directory_set_stat_identity by (intro touches_update_child) auto
    have "known (d1, st) \<subseteq> known s2" using known_DeleteSong by (auto simp: s2_def split: option.split)
    moreover have "known s2 \<subseteq> known (?d3, snd s2)" using known_CreateChild [of "fst s2" "snd s2" n] by simp
    moreover have "known (?d3, snd s2) \<subseteq> known (?d4, snd s2)"
      by (rule known_update_child [OF c]) (auto simp: known_def uris_def Directory_new_def directory_set_stat_def)
    ultimately have k4: "known (d, st) \<subseteq> known (?d4, snd s2)" using k1 by blast
    have "touches_set {n} d ?d4"
      by (rule touches_set_trans [OF touches_set_stat [OF cur(2) F(2)]
            touches_set_trans [OF touches_setI [OF T] touches_set_trans [OF touches_setI [OF T3] touches_setI [OF T4]]]]) simp_all
    then have "known (ascend cur, st) \<subseteq> known (ascend (?d4 # anc1), snd s2)"
      unfolding cur(1) using assms(1) cur(1) k4 F(3) by (intro ascend_frame) auto
    moreover have "FindChild ?d4 n = Some (directory_set_stat info ?c)"
    proof -
      have "GetName (dir ?d3) (dir (directory_set_stat info ?c)) = n"
        using same_identity_GetName(2) [OF directory_set_stat_identity [of ?c info]] tree_ok_FindChild(3) [OF touches_ok [OF T3] c] by simp
      then show ?thesis using c by (subst FindChild_update_child) simp_all
    qed
    from ascend_push [OF touches_ok [OF T4] this, of anc1]
    have "ascend (directory_set_stat info ?c # ?d4 # anc1) = ascend (?d4 # anc1)" .
    ultimately have new: "known (ascend cur, st) \<subseteq> known (ascend (directory_set_stat info ?c # ?d4 # anc1), snd s2)" by simp
    have h: "FindChild (hd cur) n = None" using True cur by simp
    show ?thesis
      unfolding DirectoryMakeChildChecked_def fst_conv snd_conv h info option.case F(1) prod.case list.sel s2_def [symmetric] Let_def
      using new stay c by (cases s2) (simp del: ascend.simps)
  qed
qed

lemma DirectoryMakeUriParentChecked_known:
  "cursor_ok r (fst s) \<Longrightarrow> known (ascend (fst s), snd s) \<subseteq>
    known (ascend (fst (snd (DirectoryMakeUriParentChecked env uri s))), snd (snd (DirectoryMakeUriParentChecked env uri s)))"
proof (induction env uri s rule: DirectoryMakeUriParentChecked.induct)
  case (1 env uri s)
  obtain name more where S: "Split uri CHR ''/'' = (name, more)" by (meson surj_pair)
  show ?case
  proof (cases more)
    case None
    then show ?thesis using S by (subst (1 2) DirectoryMakeUriParentChecked.simps) simp
  next
    case (Some rest)
    show ?thesis
    proof (cases "name = []")
      case True
      then show ?thesis using 1(1) [OF S [symmetric] Some True 1(3)] S Some
        by (subst (1 2) DirectoryMakeUriParentChecked.simps) simp
    next
      case False
      obtain ok s' where C: "DirectoryMakeChildChecked env name name s = (ok, s')" by (meson surj_pair)
      note v = Split_valid_name [OF S False]
      have "cursor_ok r (fst s')" "known (ascend (fst s), snd s) \<subseteq> known (ascend (fst s'), snd s')"
        using DirectoryMakeChildChecked_ok [OF 1(3) v, of env name "snd s"]
          DirectoryMakeChildChecked_known [OF 1(3) v, of "snd s" env name] C by simp_all
      then show ?thesis
        using 1(2) [OF S [symmetric] Some False, of ok s'] C S Some False
        by (subst (1 2) DirectoryMakeUriParentChecked.simps) (auto split: bool.split)
    qed
  qed
qed

section \<open>The walk as a whole\<close>

lemma UpdateUri_known:
  assumes "env_ok env" "tree_ok root" "valid_name (GetBase uri)" "UpdateUri fuel env uri (root, st) = Some (root', st')"
  shows "known (root, st) \<subseteq> known (root', st')"
proof -
  obtain ok cur st1 where P: "DirectoryMakeUriParentChecked env uri ([root], st) = (ok, cur, st1)" by (metis surj_pair)
  have ok: "cursor_ok (dir root) [root]" using assms(2) by (simp add: cursor_ok_def)
  have cur: "cursor_ok (dir root) cur" "known (root, st) \<subseteq> known (ascend cur, st1)"
    using DirectoryMakeUriParentChecked_ok [of "dir root" "([root], st)" env uri]
      DirectoryMakeUriParentChecked_known [of "dir root" "([root], st)" env uri] ok P by simp_all
  then obtain d anc where D: "cur = d # anc" "tree_ok d" by (cases cur) (auto simp: cursor_ok_def)
  let ?n = "GetBase uri" and ?del = "DeleteNameIn (GetBase uri) (d, st1)"
  show ?thesis
  proof (cases "ok \<and> \<not> (SkipSymlink env cur ?n \<or> get_info env uri = None)")
    case False
    have "known (ascend cur, st1) \<subseteq> known (ascend (fst (snd ?del) # anc), snd (snd ?del))"
      unfolding D(1)
    proof (rule ascend_frame [OF cur(1) [unfolded D(1)]])
      show "known (d, st1) \<subseteq> known (fst (snd ?del), snd (snd ?del))" using known_DeleteNameIn [of "(d, st1)" ?n] by simp
      show "touches_set {?n} d (fst (snd ?del))" using touches_DeleteNameIn [of "(d, st1)" ?n] D(2) by (simp add: touches_setI)
    qed simp
    then have "known (root, st) \<subseteq> known (ascend (fst (snd ?del) # anc), snd (snd ?del))" using cur(2) by blast
    then show ?thesis
      using cur(2) assms(4) P False D(1)
      by (auto simp: UpdateUri_def Let_def case_prod_unfold simp del: ascend.simps split: if_splits bool.splits)
  next
    case True
    then obtain info cur' where
      U: "UpdateDirectoryChild (UpdateDirectory fuel env) env (hd (LoadExcludeLists env cur)) ?n info (cur, st1) = Some (cur', st')"
        "root' = ascend cur'"
      using assms(4) P by (auto simp: UpdateUri_def Let_def)
    obtain d' anc' where F: "cur' = d' # anc'" "touches_set {?n} d d'" "stat_cursor anc anc'"
      using upd.UpdateDirectoryChild_frame [OF assms(1) D(2) assms(3)] U(1) D(1) by blast
    have "known (d, st1) \<subseteq> known (d', st')"
      using rep.UpdateDirectoryChild_known [OF assms(1) D(2) assms(3)] U(1) D(1) F(1) by blast
    then have "known (ascend cur, st1) \<subseteq> known (root', st')"
      unfolding D(1) U(2) F(1) using cur(1) D(1) F(2,3) by (intro ascend_frame) simp_all
    then show ?thesis using cur(2) by blast
  qed
qed

lemma known_update_names:
  "\<lbrakk>lookup_names d ns = Some c; known (c, st) \<subseteq> known (f c, st')\<rbrakk> \<Longrightarrow> known (d, st) \<subseteq> known (update_names ns f d, st')"
proof (induction ns arbitrary: d)
  case (Cons n ns)
  then obtain b where "FindChild d n = Some b" "lookup_names b ns = Some c" by (auto split: option.splits)
  with Cons show ?case using known_update_child [of d n b st "update_names ns f" st'] by simp
qed simp

lemma update_names_missing: "lookup_names d ns = None \<Longrightarrow> update_names ns f d = d"
proof (induction ns arbitrary: d)
  case (Cons n ns)
  show ?case
  proof (cases "FindChild d n")
    case None
    then show ?thesis using update_child_missing by simp
  next
    case (Some b)
    then have "update_names ns f b = b" using Cons by simp
    moreover have "update_child n (\<lambda>_. b) d = d"
      using Some update_first_same [of _ "children d" b "\<lambda>_. b"] by (simp add: update_child_def FindChild_def)
    ultimately show ?thesis using update_child_const [OF Some, of "update_names ns f"] by simp
  qed
qed simp

lemma chain_at_head: "lookup_names d ns = Some c \<Longrightarrow> hd (chain_at (d # anc) ns) = c"
  by (induction ns arbitrary: d anc) (auto split: option.splits)

lemma known_purge_song: "known s \<subseteq> known (purge_song ns x s)"
proof -
  obtain root st where s: "s = (root, st)" by (meson surj_pair)
  have in_pl: "known (root, st) \<subseteq> known (update_names ms (update_song f (\<lambda>y. y\<lparr>in_playlist := True\<rparr>)) root, st)" for ms f
    using known_update_names [of root ms _ st "update_song f (\<lambda>y. y\<lparr>in_playlist := True\<rparr>)" st]
      known_update_song [of f "\<lambda>y. y\<lparr>in_playlist := True\<rparr>"] update_names_missing [of root ms]
    by (cases "lookup_names root ms") auto
  let ?st = "st\<lparr>removed := removed st @ [GetURI (dir (hd (chain_at [root] ns))) x], modified := True\<rparr>"
  have "known (root, st) \<subseteq> known (update_names ns (RemoveSong (filename x)) root, ?st)"
  proof (cases "lookup_names root ns")
    case None
    then show ?thesis using update_names_missing by (auto simp: known_def)
  next
    case (Some c)
    have "known (c, st) \<subseteq> known (DeleteSong x (c, st))" by (rule known_DeleteSong)
    also have "\<dots> = known (RemoveSong (filename x) c, ?st)"
      using chain_at_head [OF Some, of "[]"] by (simp add: DeleteSong_def known_def)
    finally show ?thesis by (rule known_update_names [OF Some])
  qed
  with in_pl show ?thesis by (auto simp: s purge_song_def split: option.split)
qed

lemma known_PurgeDangling: "known s \<subseteq> known (PurgeDanglingFromPlaylists s)"
  unfolding PurgeDanglingFromPlaylists_def
  by (rule known_fold) (simp add: known_fold [OF known_purge_song] split: option.split)

lemma uris_ClearInPlaylist: "uris (ClearInPlaylist d) = uris d"
proof (induction d)
  case (Directory i cs)
  have "GetURI (i\<lparr>songs := v\<rparr>) = GetURI i" for v by simp
  moreover have "GetURI i ` (\<lambda>x. x\<lparr>in_playlist := False\<rparr>) ` A = GetURI i ` A" for A
    by (auto simp: image_image intro!: image_cong GetURI_filename)
  ultimately show ?case using Directory by (simp add: uris_Directory)
qed

text \<open>
  Property C3 (safety): no song leaves the tree unnoticed. Whatever URI a song had before an
  update is, after it, the URI of a song of the tree or has been handed to the remove
  service, so that the player can drop it from its queue.
\<close>

theorem UpdateWalk_reports_removals:
  assumes "env_ok env" "tree_ok root" "isRootDirectory uri \<or> valid_name (GetBase uri)"
    "UpdateWalk_Walk fuel env root uri st = Some (changed, root', st')"
  shows "uris root \<subseteq> uris root' \<union> set (removed st')"
proof -
  let ?st = "st\<lparr>modified := False\<rparr>"
  have fin: "known (root, ?st) \<subseteq> known (root', st')"
    if "(case PurgeDanglingFromPlaylists (ClearInPlaylist d, t) of (d', t') \<Rightarrow> (modified t', d', t')) = (changed, root', st')"
      "known (root, ?st) \<subseteq> known (d, t)" for d t
  proof -
    have "known (d, t) = known (ClearInPlaylist d, t)" by (simp add: known_def uris_ClearInPlaylist)
    then show ?thesis
      using known_PurgeDangling [of "(ClearInPlaylist d, t)"] that by (auto simp: case_prod_unfold)
  qed
  have "known (root, ?st) \<subseteq> known (root', st')"
  proof (cases "isRootDirectory uri")
    case False
    then obtain d t where U: "UpdateUri fuel env uri (root, ?st) = Some (d, t)"
      "(case PurgeDanglingFromPlaylists (ClearInPlaylist d, t) of (d', t') \<Rightarrow> (modified t', d', t')) = (changed, root', st')"
      using assms(4) by (auto simp: UpdateWalk_Walk_def Let_def)
    then show ?thesis using UpdateUri_known [OF assms(1,2) _ U(1)] assms(3) False fin [OF U(2)] by blast
  next
    case root: True
    show ?thesis
    proof (cases "\<exists>info. get_info env [] = Some info \<and> IsDirectory info")
      case False
      then show ?thesis using root assms(4) by (auto simp: UpdateWalk_Walk_def Let_def split: option.splits)
    next
      case True
      then obtain info ok cur t where U: "UpdateDirectory fuel env ExcludeList_empty info ([root], ?st) = Some (ok, cur, t)"
        "(case PurgeDanglingFromPlaylists (ClearInPlaylist (hd cur), t) of (d', t') \<Rightarrow> (modified t', d', t')) = (changed, root', st')"
        using root assms(4) by (auto simp: UpdateWalk_Walk_def Let_def)
      obtain d anc where D: "cur = d # anc" using upd.rec_frame [OF assms(1,2) U(1)] by blast
      have "known (root, ?st) \<subseteq> known (d, t)" by (rule rep.rec_known [OF assms(1,2) U(1) [unfolded D]])
      then show ?thesis using fin [OF U(2)] D by simp
    qed
  qed
  then show ?thesis by (auto simp: known_def)
qed

theorem UpdateWalk_reports_removals_witness:
  "\<exists>root' st'. UpdateWalk_Walk 1 sample_env sample_root [] sample_state = Some (True, root', st') \<and>
     uris sample_root = {''old.flac''} \<and> uris sample_root \<subseteq> uris root' \<union> {''old.flac''} \<and> removed st' = [''old.flac'']"
proof -
  obtain root' st' where run: "UpdateWalk_Walk 1 sample_env sample_root [] sample_state = Some (True, root', st')"
    "removed st' = [''old.flac'']"
    using sample_walk by blast
  have "isRootDirectory []" "uris sample_root = {''old.flac''}" by code_simp+
  then show ?thesis using UpdateWalk_reports_removals [OF sample_env_ok sample_root_ok _ run(1)] run by simp
qed

end
