(* ===== verification/Update_Service.thy ===== *)
theory Update_Service
  imports Composite_Storage Update_Reports
begin

text \<open>
  db/update/Queue.cxx, db/update/Service.cxx and db/update/Remove.cxx: the queue of update
  jobs, the service that runs one update thread at a time, and the service that hands
  removed songs to the main thread.

  A database and a storage are numbers, the main database is \<open>ROOT_DB\<close>; the trees of the
  databases are part of the state, so that the thread's \<open>Task\<close> runs the walk of
  \<open>Update_Walk\<close> on them. The calls of the main thread and the end of the thread are the
  steps of a transition relation; a walk takes effect when its thread ends. The remove
  service is modelled at the granularity of its mutex, with the position of both threads in
  the state.
\<close>

section \<open>UpdateQueue (db/update/Queue.cxx)\<close>

record UpdateQueueItem =
  qi_db :: nat
  qi_storage :: nat
  qi_path :: string
  qi_id :: nat
  qi_discard :: bool

text \<open>The default constructor sets the id only; the other members are never read then.\<close>

definition UpdateQueueItem_undefined :: UpdateQueueItem where
  "UpdateQueueItem_undefined = \<lparr>qi_db = 0, qi_storage = 0, qi_path = [], qi_id = 0, qi_discard = False\<rparr>"

definition qi_IsDefined :: "UpdateQueueItem \<Rightarrow> bool" where
  "qi_IsDefined i \<longleftrightarrow> qi_id i \<noteq> 0"

definition qi_Clear :: "UpdateQueueItem \<Rightarrow> UpdateQueueItem" where
  "qi_Clear i = i\<lparr>qi_id := 0\<rparr>"

type_synonym UpdateQueue = "UpdateQueueItem list"

definition MAX_UPDATE_QUEUE_SIZE :: nat where
  "MAX_UPDATE_QUEUE_SIZE = 32"

definition UpdateQueue_Push :: "UpdateQueueItem \<Rightarrow> UpdateQueue \<Rightarrow> bool \<times> UpdateQueue" where
  "UpdateQueue_Push i q = (if MAX_UPDATE_QUEUE_SIZE \<le> length q then (False, q) else (True, q @ [i]))"

definition UpdateQueue_Pop :: "UpdateQueue \<Rightarrow> UpdateQueueItem \<times> UpdateQueue" where
  "UpdateQueue_Pop q = (case q of [] \<Rightarrow> (UpdateQueueItem_undefined, []) | i # q' \<Rightarrow> (i, q'))"

fun UpdateQueue_Erase_db :: "nat \<Rightarrow> UpdateQueue \<Rightarrow> UpdateQueue" where
  "UpdateQueue_Erase_db db [] = []"
| "UpdateQueue_Erase_db db (i # q) =
     (if qi_db i = db then UpdateQueue_Erase_db db q else i # UpdateQueue_Erase_db db q)"

fun UpdateQueue_Erase_storage :: "nat \<Rightarrow> UpdateQueue \<Rightarrow> UpdateQueue" where
  "UpdateQueue_Erase_storage st [] = []"
| "UpdateQueue_Erase_storage st (i # q) =
     (if qi_storage i = st then UpdateQueue_Erase_storage st q else i # UpdateQueue_Erase_storage st q)"

section \<open>UpdateService (db/update/Service.cxx)\<close>

text \<open>
  \<open>sv_walk\<close> is the pointer with the cancel flag of the walk; \<open>sv_thread\<close> says whether the
  thread object is defined, \<open>sv_running\<close> whether \<open>Task\<close> has not returned yet, \<open>sv_deferred\<close>
  whether the inject event is pending. The last four fields record what the service tells
  others: the ids it has returned to callers of \<open>Enqueue\<close>, the jobs started, the idle events with
  the listener calls, the URIs handed to the remove service.
\<close>

datatype service_event = IDLE_UPDATE | OnDatabaseModified

record service =
  sv_modified :: bool
  sv_thread :: bool
  sv_task_id :: nat
  sv_queue :: UpdateQueue
  sv_next :: UpdateQueueItem
  sv_walk :: "bool option"
  sv_running :: bool
  sv_deferred :: bool
  sv_trees :: "nat \<Rightarrow> directory"
  sv_file_exists :: "nat \<Rightarrow> bool"
  sv_accepted :: "nat list"
  sv_started :: "nat list"
  sv_events :: "service_event list"
  sv_removed :: "string list"

definition ROOT_DB :: nat where
  "ROOT_DB = 0"

definition update_task_id_max :: nat where
  "update_task_id_max = 2 ^ 15"

definition UpdateService_new :: "(nat \<Rightarrow> directory) \<Rightarrow> (nat \<Rightarrow> bool) \<Rightarrow> service" where
  "UpdateService_new trees exists =
     \<lparr>sv_modified = False, sv_thread = False, sv_task_id = 0, sv_queue = [],
      sv_next = UpdateQueueItem_undefined, sv_walk = None, sv_running = False,
      sv_deferred = False, sv_trees = trees, sv_file_exists = exists,
      sv_accepted = [], sv_started = [], sv_events = [], sv_removed = []\<rparr>"

definition GetId :: "service \<Rightarrow> nat" where
  "GetId s = qi_id (sv_next s)"

definition CancelAllAsync :: "service \<Rightarrow> service" where
  "CancelAllAsync s = s\<lparr>sv_queue := [], sv_walk := map_option (\<lambda>_. True) (sv_walk s)\<rparr>"

text \<open>
  \<open>Task\<close>, the body of the thread: the walk on the tree of the job's database, then
  \<open>SimpleDatabase::Save\<close> (which prunes and sorts the tree before it writes; \<open>te_saved\<close> says
  whether writing succeeded) and the inject event. \<open>None\<close>: the walk does not return.
\<close>

record task_env =
  te_walk :: walk_env
  te_fuel :: nat
  te_collate :: collate
  te_saved :: bool

definition Task :: "task_env \<Rightarrow> service \<Rightarrow> service option" where
  "Task te s =
     (let next = sv_next s; db = qi_db next in
      case UpdateWalk_Walk (te_fuel te) ((te_walk te)\<lparr>walk_discard := qi_discard next\<rparr>)
             (sv_trees s db) (qi_path next) \<lparr>modified = False, removed = [], tick = 0\<rparr> of
        None \<Rightarrow> None
      | Some (m, root, st) \<Rightarrow>
          let save = m \<or> \<not> sv_file_exists s db in
          Some (s\<lparr>sv_modified := m,
                  sv_trees := (sv_trees s)(db := if save then Sort (te_collate te) (PruneEmpty root) else root),
                  sv_file_exists := (sv_file_exists s)(db := sv_file_exists s db \<or> (save \<and> te_saved te)),
                  sv_removed := sv_removed s @ removed st,
                  sv_running := False, sv_deferred := True\<rparr>))"

text \<open>
  \<open>StartThread\<close>; \<open>start_ok\<close> says whether \<open>pthread_create\<close> succeeds. When it does not,
  \<open>Thread::Start\<close> throws and the members set before stay as they are.
\<close>

definition StartThread :: "bool \<Rightarrow> UpdateQueueItem \<Rightarrow> service \<Rightarrow> bool \<times> service" where
  "StartThread start_ok i s =
     (let s' = s\<lparr>sv_modified := False, sv_next := i, sv_walk := Some False\<rparr> in
      if start_ok
      then (True, s'\<lparr>sv_thread := True, sv_running := True, sv_started := sv_started s @ [qi_id i]\<rparr>)
      else (False, s'))"

definition UpdateService_GenerateId :: "service \<Rightarrow> nat" where
  "UpdateService_GenerateId s =
     (let id = sv_task_id s + 1 in if update_task_id_max < id then 1 else id)"

datatype enqueue_error =
    CannotUpdateThisTypeOfDatabase
  | NoStorageAtThisPath
  | UpdateQueueIsFull
  | FailedToCreateThread

text \<open>
  The database and storage a path belongs to: \<open>is_simple\<close> is the \<open>dynamic_cast\<close> of the
  mounted database, \<open>storage\<close> the composite storage.
\<close>

definition Enqueue_target ::
    "(nat \<Rightarrow> bool) \<Rightarrow> cdir \<Rightarrow> directory \<Rightarrow> string \<Rightarrow> enqueue_error + nat \<times> nat \<times> string" where
  "Enqueue_target is_simple storage root p =
     (let lr = LookupDirectory root p;
          target = (case mounted_database (dir (lr_directory lr)) of
              Some db2 \<Rightarrow>
                if \<not> is_simple db2 then Inl CannotUpdateThisTypeOfDatabase
                else (case lr_rest lr of
                    None \<Rightarrow> Inr (db2, GetMount storage p, [])
                  | Some rest \<Rightarrow> Inr (db2, GetMount storage (lr_uri lr), rest))
            | None \<Rightarrow> Inr (ROOT_DB, GetMount storage [], p))
      in case target of
          Inl e \<Rightarrow> Inl e
        | Inr (db2, None, p') \<Rightarrow> Inl NoStorageAtThisPath
        | Inr (db2, Some storage2, p') \<Rightarrow> Inr (db2, storage2, p'))"

definition Enqueue ::
    "bool \<Rightarrow> (nat \<Rightarrow> bool) \<Rightarrow> cdir \<Rightarrow> string \<Rightarrow> bool \<Rightarrow> service \<Rightarrow> (enqueue_error + nat) \<times> service" where
  "Enqueue start_ok is_simple storage p discard s =
     (case Enqueue_target is_simple storage (sv_trees s ROOT_DB) p of
        Inl e \<Rightarrow> (Inl e, s)
      | Inr (db2, storage2, p') \<Rightarrow>
          let id = UpdateService_GenerateId s;
              item = \<lparr>qi_db = db2, qi_storage = storage2, qi_path = p', qi_id = id, qi_discard = discard\<rparr>
          in if sv_walk s \<noteq> None
             then (case UpdateQueue_Push item (sv_queue s) of
                     (False, _) \<Rightarrow> (Inl UpdateQueueIsFull, s)
                   | (True, q) \<Rightarrow> (Inr id, s\<lparr>sv_queue := q, sv_task_id := id, sv_accepted := sv_accepted s @ [id]\<rparr>))
             else (case StartThread start_ok item (s\<lparr>sv_task_id := id\<rparr>) of
                     (False, s') \<Rightarrow> (Inl FailedToCreateThread, s')
                   | (True, s') \<Rightarrow> (Inr id, s'\<lparr>sv_events := sv_events s' @ [IDLE_UPDATE],
                                             sv_accepted := sv_accepted s' @ [id]\<rparr>)))"

text \<open>
  \<open>RunDeferred\<close>, called by the event loop for the pending inject event. It is \<open>noexcept\<close>:
  \<open>None\<close> is \<open>std::terminate\<close> when the next thread cannot be created.
\<close>

definition RunDeferred :: "bool \<Rightarrow> service \<Rightarrow> service option" where
  "RunDeferred start_ok s =
     (let s1 = s\<lparr>sv_deferred := False, sv_thread := False, sv_walk := None, sv_next := qi_Clear (sv_next s),
                 sv_events := sv_events s @ [IDLE_UPDATE] @ (if sv_modified s then [OnDatabaseModified] else [])\<rparr>;
          (i, q) = UpdateQueue_Pop (sv_queue s1);
          s2 = s1\<lparr>sv_queue := q\<rparr>
      in if qi_IsDefined i
         then (case StartThread start_ok i s2 of (True, s3) \<Rightarrow> Some s3 | (False, _) \<Rightarrow> None)
         else Some s2)"

text \<open>
  \<open>CancelMount\<close>: the jobs dropped, the current walk cancelled, and (the flag) whether the
  caller waits for the thread; then the wait itself, which lets the thread run to its end.
\<close>

definition CancelMount_erase ::
    "(nat \<Rightarrow> bool) \<Rightarrow> cdir \<Rightarrow> string \<Rightarrow> nat \<Rightarrow> service \<Rightarrow> UpdateQueue \<times> bool" where
  "CancelMount_erase is_simple storage uri mdb s =
     (let next = sv_next s;
          (q1, c1) = (case GetMount storage uri of
              None \<Rightarrow> (sv_queue s, False)
            | Some st2 \<Rightarrow> (UpdateQueue_Erase_storage st2 (sv_queue s),
                          qi_IsDefined next \<and> qi_storage next = st2))
      in if is_simple mdb
         then (UpdateQueue_Erase_db mdb q1, c1 \<or> (qi_IsDefined next \<and> qi_db next = mdb))
         else (q1, c1))"

definition CancelMount_request :: "(nat \<Rightarrow> bool) \<Rightarrow> cdir \<Rightarrow> string \<Rightarrow> service \<Rightarrow> bool \<times> service" where
  "CancelMount_request is_simple storage uri s =
     (case mounted_database (dir (lr_directory (LookupDirectory (sv_trees s ROOT_DB) uri))) of
        None \<Rightarrow> (False, s)
      | Some mdb \<Rightarrow>
          (case CancelMount_erase is_simple storage uri mdb s of (q, cancel_current) \<Rightarrow>
             if cancel_current \<and> sv_walk s \<noteq> None
             then (sv_thread s, s\<lparr>sv_queue := q, sv_walk := Some True\<rparr>)
             else (False, s\<lparr>sv_queue := q\<rparr>)))"

definition CancelMount :: "task_env \<Rightarrow> (nat \<Rightarrow> bool) \<Rightarrow> cdir \<Rightarrow> string \<Rightarrow> service \<Rightarrow> service option" where
  "CancelMount te is_simple storage uri s =
     (case CancelMount_request is_simple storage uri s of
        (False, s') \<Rightarrow> Some s'
      | (True, s') \<Rightarrow>
          map_option (\<lambda>t. t\<lparr>sv_thread := False\<rparr>) (if sv_running s' then Task te s' else Some s'))"

section \<open>The transition relation\<close>

text \<open>
  The calls of the main thread and the end of the update thread, in any order. Of the two flags, \<open>c\<close> says
  whether updates may be cancelled and \<open>f\<close> whether the creation of a thread may fail. A path is the root or
  ends in a name, and a walk that returns runs on a storage with the properties of \<open>env_ok\<close>.
\<close>

definition path_valid :: "string \<Rightarrow> bool" where
  "path_valid p \<longleftrightarrow> isRootDirectory p \<or> valid_name (GetBase p)"

inductive service_step :: "bool \<Rightarrow> bool \<Rightarrow> service \<Rightarrow> service \<Rightarrow> bool" where
  enqueue: "\<lbrakk>path_valid p; start_ok \<or> f; Enqueue start_ok is_simple storage p discard s = (result, s')\<rbrakk> \<Longrightarrow> service_step c f s s'"
| task: "\<lbrakk>sv_running s; env_ok (te_walk te); Task te s = Some s'\<rbrakk> \<Longrightarrow> service_step c f s s'"
| deferred: "\<lbrakk>sv_deferred s; start_ok \<or> f; RunDeferred start_ok s = Some s'\<rbrakk> \<Longrightarrow> service_step c f s s'"
| cancel_all: "service_step True f s (CancelAllAsync s)"
| cancel_mount: "\<lbrakk>env_ok (te_walk te); CancelMount te is_simple storage uri s = Some s'\<rbrakk> \<Longrightarrow> service_step True f s s'"

inductive_cases service_stepE: "service_step c f s s'"

inductive service_reach :: "bool \<Rightarrow> bool \<Rightarrow> service \<Rightarrow> service \<Rightarrow> bool" for c f where
  start: "service_reach c f s s"
| step: "\<lbrakk>service_reach c f s s'; service_step c f s' s''\<rbrakk> \<Longrightarrow> service_reach c f s s''"

section \<open>Invariants\<close>

definition id_ok :: "nat \<Rightarrow> bool" where
  "id_ok n \<longleftrightarrow> 0 < n \<and> n \<le> update_task_id_max"

definition control_ok :: "service \<Rightarrow> bool" where
  "control_ok s \<longleftrightarrow>
     (case sv_walk s of
        None \<Rightarrow> qi_id (sv_next s) = 0 \<and> sv_queue s = [] \<and> \<not> sv_running s \<and> \<not> sv_deferred s \<and> \<not> sv_thread s
      | Some _ \<Rightarrow> id_ok (qi_id (sv_next s)) \<and> \<not> (sv_running s \<and> sv_deferred s) \<and>
          (sv_running s \<longrightarrow> sv_thread s) \<and> (sv_thread s \<longrightarrow> sv_running s \<or> sv_deferred s))"

text \<open>A walk object without a thread and without a pending event: the thread could not be created.\<close>

definition wedged :: "service \<Rightarrow> bool" where
  "wedged s \<longleftrightarrow> sv_walk s \<noteq> None \<and> \<not> sv_running s \<and> \<not> sv_deferred s \<and> \<not> sv_thread s"

definition jobs_ok :: "service \<Rightarrow> bool" where
  "jobs_ok s \<longleftrightarrow>
     length (sv_queue s) \<le> MAX_UPDATE_QUEUE_SIZE \<and> sv_task_id s \<le> update_task_id_max \<and>
     (\<forall>i \<in> set (sv_queue s). id_ok (qi_id i) \<and> path_valid (qi_path i)) \<and>
     (sv_walk s \<noteq> None \<longrightarrow> path_valid (qi_path (sv_next s)))"

definition service_ok :: "service \<Rightarrow> bool" where
  "service_ok s \<longleftrightarrow> control_ok s \<and> jobs_ok s"

lemmas service_ok_defs = service_ok_def control_ok_def jobs_ok_def

lemma UpdateService_new_ok: "service_ok (UpdateService_new trees exists)"
  by (simp add: service_ok_defs UpdateService_new_def UpdateQueueItem_undefined_def)

lemma active_walk: "\<lbrakk>service_ok s; sv_running s \<or> sv_deferred s\<rbrakk> \<Longrightarrow> sv_walk s \<noteq> None"
  by (cases "sv_walk s") (auto simp: service_ok_defs)

lemma GenerateId_ok: "sv_task_id s \<le> update_task_id_max \<Longrightarrow> id_ok (UpdateService_GenerateId s)"
  by (auto simp: UpdateService_GenerateId_def id_ok_def Let_def update_task_id_max_def)

lemma Task_cases:
  assumes "Task te s = Some s'"
  obtains m d st trees exists where
    "UpdateWalk_Walk (te_fuel te) ((te_walk te)\<lparr>walk_discard := qi_discard (sv_next s)\<rparr>)
       (sv_trees s (qi_db (sv_next s))) (qi_path (sv_next s)) \<lparr>modified = False, removed = [], tick = 0\<rparr> =
       Some (m, d, st)"
    "trees = (sv_trees s)(qi_db (sv_next s) := if m \<or> \<not> sv_file_exists s (qi_db (sv_next s))
        then Sort (te_collate te) (PruneEmpty d) else d)"
    "s' = s\<lparr>sv_modified := m, sv_trees := trees, sv_file_exists := exists,
            sv_removed := sv_removed s @ removed st, sv_running := False, sv_deferred := True\<rparr>"
  using assms by (auto simp: Task_def Let_def split: option.splits prod.splits)

subsection \<open>The path of a job\<close>

lemma GetBase_Split:
  "Split p CHR ''/'' = (a, Some b) \<Longrightarrow> GetBase b = GetBase p"
  by (rule Split_cases [of p "CHR ''/''"]) (auto simp: GetBase_def SplitLast_def dropWhile_append takeWhile_append)

lemma lookup_loop_GetBase:
  "lookup_loop d p = (names, d', Some rest) \<Longrightarrow> GetBase rest = GetBase p"
proof (induction d p arbitrary: names d' rest rule: lookup_loop.induct)
  case (1 d uri)
  then show ?case
    by (subst (asm) lookup_loop.simps) (auto dest: GetBase_Split split: prod.splits option.splits if_splits)
qed

lemma path_valid_Nil [simp]: "path_valid []"
  by (simp add: path_valid_def isRootDirectory_def)

lemma Enqueue_target_path:
  assumes "path_valid p" "Enqueue_target is_simple storage root p = Inr (db2, st2, p')"
  shows "path_valid p'"
proof (cases "p' = [] \<or> p' = p")
  case True
  then show ?thesis using assms(1) by auto
next
  case False
  then have "lr_rest (LookupDirectory root p) = Some p'"
    using assms(2) by (auto simp: Enqueue_target_def Let_def split: option.splits if_splits)
  then have "\<not> isRootDirectory p \<and> GetBase p' = GetBase p"
    by (auto simp: LookupDirectory_def lookup_loop_GetBase split: if_splits prod.splits)
  with assms(1) show ?thesis by (auto simp: path_valid_def)
qed

subsection \<open>Every step keeps the invariant\<close>

lemma Enqueue_cases:
  assumes "Enqueue start_ok is_simple storage p discard s = (result, s')"
  obtains (refused) "s' = s" "result \<in> range Inl"
  | (queued) i where "sv_walk s \<noteq> None" "length (sv_queue s) < MAX_UPDATE_QUEUE_SIZE"
      "qi_id i = UpdateService_GenerateId s" "path_valid p \<longrightarrow> path_valid (qi_path i)"
      "s' = s\<lparr>sv_queue := sv_queue s @ [i], sv_task_id := qi_id i, sv_accepted := sv_accepted s @ [qi_id i]\<rparr>" "result = Inr (qi_id i)"
  | (started) i where "start_ok" "sv_walk s = None"
      "qi_id i = UpdateService_GenerateId s" "path_valid p \<longrightarrow> path_valid (qi_path i)"
      "s' = s\<lparr>sv_task_id := qi_id i, sv_modified := False, sv_next := i, sv_walk := Some False, sv_thread := True,
              sv_running := True, sv_started := sv_started s @ [qi_id i], sv_events := sv_events s @ [IDLE_UPDATE],
              sv_accepted := sv_accepted s @ [qi_id i]\<rparr>"
      "result = Inr (qi_id i)"
  | (failed) i where "\<not> start_ok" "sv_walk s = None"
      "qi_id i = UpdateService_GenerateId s" "path_valid p \<longrightarrow> path_valid (qi_path i)"
      "s' = s\<lparr>sv_task_id := qi_id i, sv_modified := False, sv_next := i, sv_walk := Some False\<rparr>"
      "result = Inl FailedToCreateThread"
proof (cases "Enqueue_target is_simple storage (sv_trees s ROOT_DB) p")
  case (Inl e)
  then show ?thesis using assms by (intro refused) (auto simp: Enqueue_def)
next
  case (Inr t)
  obtain db2 st2 p' where t: "t = (db2, st2, p')" by (cases t)
  define i where "i = \<lparr>qi_db = db2, qi_storage = st2, qi_path = p', qi_id = UpdateService_GenerateId s, qi_discard = discard\<rparr>"
  have path: "path_valid p \<longrightarrow> path_valid (qi_path i)"
    using Enqueue_target_path Inr by (auto simp: t i_def)
  have i: "qi_id i = UpdateService_GenerateId s" by (simp add: i_def)
  note def = assms [unfolded Enqueue_def Inr t sum.case prod.case Let_def, folded i_def, simplified i [symmetric]]
  show ?thesis
  proof (cases "sv_walk s")
    case None
    show ?thesis
    proof (cases start_ok)
      case True
      then show ?thesis using def None i path by (auto simp: StartThread_def Let_def intro: started)
    next
      case False
      then show ?thesis using def None i path by (intro failed [of i]) (auto simp: StartThread_def Let_def)
    qed
  next
    case (Some c)
    then show ?thesis
      using def i path by (auto simp: UpdateQueue_Push_def split: if_splits intro: refused queued)
  qed
qed

lemma service_ok_Enqueue:
  assumes "service_ok s" "path_valid p" "Enqueue start_ok is_simple storage p discard s = (result, s')"
  shows "service_ok s'"
  using assms(3)
proof (cases rule: Enqueue_cases)
  case (queued i)
  then show ?thesis
    using assms(1,2) GenerateId_ok [of s] by (auto simp: service_ok_defs id_ok_def split: option.splits)
next
  case (started i)
  then show ?thesis
    using assms(1,2) GenerateId_ok [of s] by (auto simp: service_ok_defs id_ok_def split: option.splits)
next
  case (failed i)
  then show ?thesis
    using assms(1,2) GenerateId_ok [of s] by (auto simp: service_ok_defs id_ok_def split: option.splits)
qed (use assms(1) in simp_all)

lemma service_ok_Task: "\<lbrakk>service_ok s; sv_running s; Task te s = Some s'\<rbrakk> \<Longrightarrow> service_ok s'"
  by (erule Task_cases) (auto simp: service_ok_defs split: option.splits)

lemma RunDeferred_cases:
  assumes "RunDeferred start_ok s = Some s'" "\<forall>i \<in> set (sv_queue s). qi_id i \<noteq> 0"
  obtains (idle) "sv_queue s = []"
      "s' = s\<lparr>sv_deferred := False, sv_thread := False, sv_walk := None, sv_next := qi_Clear (sv_next s),
              sv_events := sv_events s @ IDLE_UPDATE # (if sv_modified s then [OnDatabaseModified] else []),
              sv_queue := []\<rparr>"
  | (next_job) i q where "sv_queue s = i # q"
      "s' = s\<lparr>sv_deferred := False,
              sv_events := sv_events s @ IDLE_UPDATE # (if sv_modified s then [OnDatabaseModified] else []),
              sv_queue := q, sv_modified := False, sv_next := i, sv_walk := Some False, sv_thread := True,
              sv_running := True, sv_started := sv_started s @ [qi_id i]\<rparr>"
proof (cases "sv_queue s")
  case Nil
  then show ?thesis
    using assms(1)
    by (intro idle) (auto simp: RunDeferred_def UpdateQueue_Pop_def Let_def qi_IsDefined_def UpdateQueueItem_undefined_def)
next
  case (Cons i q)
  then show ?thesis
    using assms
    by (intro next_job [OF Cons])
      (auto simp: RunDeferred_def UpdateQueue_Pop_def Let_def qi_IsDefined_def StartThread_def split: if_splits)
qed

lemma jobs_ok_ids: "service_ok s \<Longrightarrow> \<forall>i \<in> set (sv_queue s). qi_id i \<noteq> 0"
  by (auto simp: service_ok_defs id_ok_def)

lemma service_ok_RunDeferred:
  assumes "service_ok s" "sv_deferred s" "RunDeferred start_ok s = Some s'"
  shows "service_ok s'"
  using assms(3) jobs_ok_ids [OF assms(1)]
proof (cases rule: RunDeferred_cases)
  case idle
  then show ?thesis using assms(1,2) by (auto simp: service_ok_defs qi_Clear_def split: option.splits)
next
  case (next_job i q)
  then show ?thesis using assms(1,2) by (auto simp: service_ok_defs split: option.splits)
qed

lemma service_ok_CancelAllAsync: "service_ok s \<Longrightarrow> service_ok (CancelAllAsync s)"
  by (auto simp: service_ok_defs CancelAllAsync_def split: option.splits)

lemma set_Erase [simp]:
  "set (UpdateQueue_Erase_db db q) = {i \<in> set q. qi_db i \<noteq> db}"
  "set (UpdateQueue_Erase_storage st q) = {i \<in> set q. qi_storage i \<noteq> st}"
  by (induction q) auto

lemma length_Erase:
  "length (UpdateQueue_Erase_db db q) \<le> length q"
  "length (UpdateQueue_Erase_storage st q) \<le> length q"
  by (induction q) auto

lemma CancelMount_request_cases:
  assumes "CancelMount_request is_simple storage uri s = (wait, s')"
  obtains (queue_only) q where "\<not> wait" "s' = s\<lparr>sv_queue := q\<rparr>"
      "set q \<subseteq> set (sv_queue s)" "length q \<le> length (sv_queue s)"
  | (cancelled) q where "wait = sv_thread s" "sv_walk s \<noteq> None" "s' = s\<lparr>sv_queue := q, sv_walk := Some True\<rparr>"
      "set q \<subseteq> set (sv_queue s)" "length q \<le> length (sv_queue s)"
proof -
  have erase: "set q \<subseteq> set (sv_queue s) \<and> length q \<le> length (sv_queue s)"
    if "CancelMount_erase is_simple storage uri mdb s = (q, c)" for mdb q c
    using that length_Erase(1) [of mdb "sv_queue s"] length_Erase(2) [of _ "sv_queue s"]
      le_trans [OF length_Erase(1) length_Erase(2)]
    by (auto simp: CancelMount_erase_def Let_def split: option.splits if_splits)
  show thesis
  proof (cases "mounted_database (dir (lr_directory (LookupDirectory (sv_trees s ROOT_DB) uri)))")
    case None
    then show thesis using assms by (intro queue_only [of "sv_queue s"]) (auto simp: CancelMount_request_def)
  next
    case (Some mdb)
    obtain q c where qc: "CancelMount_erase is_simple storage uri mdb s = (q, c)" by (meson surj_pair)
    then show thesis
      using assms Some erase [OF qc] queue_only [of q] cancelled [of q]
      by (auto simp: CancelMount_request_def split: if_splits)
  qed
qed

lemma service_ok_CancelMount:
  assumes "service_ok s" "CancelMount te is_simple storage uri s = Some s'"
  shows "service_ok s'"
proof -
  obtain wait s1 where req: "CancelMount_request is_simple storage uri s = (wait, s1)" by (meson surj_pair)
  have s1: "service_ok s1 \<and> (wait \<longrightarrow> sv_walk s1 \<noteq> None)"
    using req
  proof (cases rule: CancelMount_request_cases)
    case (queue_only q)
    then show ?thesis using assms(1) by (auto simp: service_ok_defs split: option.splits)
  next
    case (cancelled q)
    then show ?thesis using assms(1) by (auto simp: service_ok_defs split: option.splits)
  qed
  have joined: "service_ok (t\<lparr>sv_thread := False\<rparr>)"
    if "service_ok t" "\<not> sv_running t" for t
    using that by (auto simp: service_ok_defs split: option.splits)
  show ?thesis
  proof (cases "wait \<and> sv_running s1")
    case True
    then obtain t where t: "Task te s1 = Some t" "s' = t\<lparr>sv_thread := False\<rparr>"
      using assms(2) req by (auto simp: CancelMount_def)
    moreover have "\<not> sv_running t" by (rule Task_cases [OF t(1)]) simp
    ultimately show ?thesis using joined service_ok_Task s1 True by blast
  next
    case False
    then show ?thesis
      using assms(2) req s1 joined [of s1] by (auto simp: CancelMount_def split: if_splits bool.splits)
  qed
qed

lemma service_ok_step: "\<lbrakk>service_step c f s s'; service_ok s\<rbrakk> \<Longrightarrow> service_ok s'"
  by (induction rule: service_step.induct)
    (auto intro: service_ok_Enqueue service_ok_Task service_ok_RunDeferred
       service_ok_CancelAllAsync service_ok_CancelMount)

lemma service_ok_reach: "\<lbrakk>service_reach c f s s'; service_ok s\<rbrakk> \<Longrightarrow> service_ok s'"
  by (induction rule: service_reach.induct) (auto intro: service_ok_step)

subsection \<open>Job ids\<close>

definition next_id :: "nat \<Rightarrow> nat" where
  "next_id n = (if update_task_id_max < n + 1 then 1 else n + 1)"

fun successive :: "nat list \<Rightarrow> bool" where
  "successive (a # b # ns) \<longleftrightarrow> b = next_id a \<and> successive (b # ns)"
| "successive ns \<longleftrightarrow> True"

text \<open>The job that runs and the jobs that wait, in the order in which they run.\<close>

definition pending :: "service \<Rightarrow> nat list" where
  "pending s = (if sv_walk s = None then [] else qi_id (sv_next s) # map qi_id (sv_queue s))"

definition ids_ok :: "service \<Rightarrow> bool" where
  "ids_ok s \<longleftrightarrow> successive (pending s) \<and> (pending s \<noteq> [] \<longrightarrow> last (pending s) = sv_task_id s)"

lemma successive_snoc:
  "successive (ns @ [b]) \<longleftrightarrow> successive ns \<and> (ns \<noteq> [] \<longrightarrow> b = next_id (last ns))"
  by (induction ns rule: successive.induct) auto

lemma successive_tl: "successive (a # ns) \<Longrightarrow> successive ns"
  by (cases ns) auto

lemma successive_nth:
  "\<lbrakk>successive ns; j < length ns; id_ok (hd ns)\<rbrakk> \<Longrightarrow> ns ! j = (hd ns - 1 + j) mod update_task_id_max + 1"
proof (induction j)
  case 0
  then show ?case by (cases ns) (auto simp: id_ok_def)
next
  case (Suc j)
  have "ns ! Suc j = next_id (ns ! j)"
    using Suc.prems(1,2)
  proof (induction ns arbitrary: j rule: successive.induct)
    case (1 a b ns)
    then show ?case by (cases j) auto
  qed auto
  moreover have "ns ! j = (hd ns - 1 + j) mod update_task_id_max + 1" using Suc by simp
  ultimately show ?case
    by (auto simp: next_id_def mod_Suc update_task_id_max_def)
qed

lemma successive_distinct:
  assumes "successive ns" "id_ok (hd ns)" "length ns \<le> update_task_id_max"
  shows "distinct ns"
  unfolding distinct_conv_nth
proof (intro allI impI)
  fix i j assume ij: "i < length ns" "j < length ns" "i \<noteq> j"
  have less: "(h + i) mod M \<noteq> (h + j) mod M" if "i < j" "j < M" for h i j M :: nat
    using that mod_eq_dvd_iff_nat [of "h + i" "h + j" M] dvd_imp_le [of M "j - i"] by auto
  have inj: "(h + i) mod M \<noteq> (h + j) mod M" if "i < M" "j < M" "i \<noteq> j" for h i j M :: nat
    using that less by (metis nat_neq_iff)
  show "ns ! i \<noteq> ns ! j"
    using inj [of i update_task_id_max j "hd ns - 1"] ij assms successive_nth [OF assms(1) _ assms(2)] by simp
qed

lemma ids_ok_step:
  assumes "service_step c f s s'" "\<not> c" "service_ok s" "ids_ok s"
  shows "ids_ok s'"
  using assms
proof (induction rule: service_step.induct)
  case (enqueue p start_ok f is_simple storage discard s result s' c)
  from enqueue(3) show ?case
  proof (cases rule: Enqueue_cases)
    case (queued i)
    then have "pending s' = pending s @ [qi_id i]" "pending s \<noteq> []" by (auto simp: pending_def)
    then show ?thesis
      using queued enqueue(6)
      by (auto simp: ids_ok_def successive_snoc UpdateService_GenerateId_def next_id_def Let_def)
  next
    case (started i)
    then show ?thesis using enqueue(5) by (auto simp: ids_ok_def pending_def service_ok_defs)
  next
    case (failed i)
    then show ?thesis using enqueue(5) by (auto simp: ids_ok_def pending_def service_ok_defs)
  qed (use enqueue in simp_all)
next
  case (task s te s' c f)
  from task(3) show ?case
    by (rule Task_cases) (use task(6) in \<open>auto simp: ids_ok_def pending_def\<close>)
next
  case (deferred s start_ok f s' c)
  from deferred(3) jobs_ok_ids [OF deferred(5)] show ?case
  proof (cases rule: RunDeferred_cases)
    case (next_job i q)
    have "sv_walk s \<noteq> None" using deferred(1,5) active_walk by blast
    with next_job have "pending s = qi_id (sv_next s) # pending s'" "pending s' \<noteq> []"
      by (auto simp: pending_def)
    then show ?thesis using deferred(6) next_job by (auto simp: ids_ok_def dest: successive_tl)
  qed (auto simp: ids_ok_def pending_def)
qed auto

lemma ids_ok_reach:
  "\<lbrakk>service_reach c f s s'; \<not> c; service_ok s; ids_ok s\<rbrakk> \<Longrightarrow> ids_ok s'"
  by (induction rule: service_reach.induct) (auto intro: ids_ok_step service_ok_reach)

lemma pending_distinct:
  assumes "service_ok s" "ids_ok s"
  shows "distinct (pending s)"
proof (cases "sv_walk s")
  case (Some w)
  then have "id_ok (hd (pending s))" "length (pending s) \<le> update_task_id_max"
    using assms(1) by (auto simp: service_ok_defs pending_def update_task_id_max_def MAX_UPDATE_QUEUE_SIZE_def)
  then show ?thesis using assms(2) successive_distinct by (auto simp: ids_ok_def)
qed (simp add: pending_def)

subsection \<open>Trees\<close>

lemma tree_ok_saved: "tree_ok d \<Longrightarrow> tree_ok (Sort collate (PruneEmpty d))"
  by (simp add: tree_ok_def wf_Sort wf_PruneEmpty)

lemma env_ok_discard [simp]: "env_ok (env\<lparr>walk_discard := b\<rparr>) = env_ok env"
  by (simp add: env_ok_def names_valid_def tracks_distinct_def)

lemma Task_tree_ok:
  assumes "Task te s = Some s'" "env_ok (te_walk te)" "path_valid (qi_path (sv_next s))" "tree_ok (sv_trees s i)"
  shows "tree_ok (sv_trees s' i)"
  using assms(1)
proof (rule Task_cases)
  fix m d st trees exists
  assume walk: "UpdateWalk_Walk (te_fuel te) ((te_walk te)\<lparr>walk_discard := qi_discard (sv_next s)\<rparr>)
       (sv_trees s (qi_db (sv_next s))) (qi_path (sv_next s)) \<lparr>modified = False, removed = [], tick = 0\<rparr> = Some (m, d, st)"
    and t: "trees = (sv_trees s)(qi_db (sv_next s) := if m \<or> \<not> sv_file_exists s (qi_db (sv_next s))
        then Sort (te_collate te) (PruneEmpty d) else d)"
    and s': "s' = s\<lparr>sv_modified := m, sv_trees := trees, sv_file_exists := exists,
            sv_removed := sv_removed s @ removed st, sv_running := False, sv_deferred := True\<rparr>"
  have "tree_ok d" if "qi_db (sv_next s) = i"
    using UpdateWalk_tree [OF _ _ _ walk] assms(2-4) that by (simp add: path_valid_def)
  then show ?thesis using assms(4) by (auto simp: s' t tree_ok_saved)
qed

lemma trees_ok_step:
  assumes "service_step c f s s'" "service_ok s" "tree_ok (sv_trees s i)"
  shows "tree_ok (sv_trees s' i)"
  using assms
proof (induction rule: service_step.induct)
  case (enqueue p start_ok f is_simple storage discard s result s' c)
  from enqueue(3) show ?case by (rule Enqueue_cases) (use enqueue in auto)
next
  case (task s te s' c f)
  then have "sv_walk s \<noteq> None" using active_walk by blast
  then have "path_valid (qi_path (sv_next s))" using task(4) by (simp add: service_ok_defs)
  then show ?case using task Task_tree_ok by blast
next
  case (deferred s start_ok f s' c)
  from deferred(3) jobs_ok_ids [OF deferred(4)] show ?case
    by (rule RunDeferred_cases) (use deferred in auto)
next
  case (cancel_all f s)
  then show ?case by (simp add: CancelAllAsync_def)
next
  case (cancel_mount te is_simple storage uri s s' f)
  obtain wait s1 where req: "CancelMount_request is_simple storage uri s = (wait, s1)" by (meson surj_pair)
  have s1: "sv_trees s1 = sv_trees s" "sv_next s1 = sv_next s" "wait \<longrightarrow> sv_walk s \<noteq> None"
    by (rule CancelMount_request_cases [OF req]; simp)+
  have "wait \<longrightarrow> path_valid (qi_path (sv_next s1))" using s1 cancel_mount(3) by (simp add: service_ok_defs)
  then show ?case
    using cancel_mount(1,2,4) s1 Task_tree_ok [of te s1 _ i]
    by (auto simp: CancelMount_def req split: bool.splits if_splits)
qed

lemma trees_ok_reach:
  "\<lbrakk>service_reach c f s s'; service_ok s; tree_ok (sv_trees s i)\<rbrakk> \<Longrightarrow> tree_ok (sv_trees s' i)"
  by (induction rule: service_reach.induct) (auto intro: trees_ok_step service_ok_reach)

section \<open>Jobs run in the order in which they were accepted\<close>

locale bounded_fifo =
  fixes items :: "'q \<Rightarrow> 'a list" and capacity :: nat
    and push :: "'a \<Rightarrow> 'q \<Rightarrow> bool \<times> 'q" and pop :: "'q \<Rightarrow> 'a \<times> 'q"
  assumes push_accepts: "fst (push x q) \<longleftrightarrow> length (items q) < capacity"
    and push_items: "items (snd (push x q)) = (if length (items q) < capacity then items q @ [x] else items q)"
    and pop_front: "items q \<noteq> [] \<Longrightarrow> fst (pop q) = hd (items q)"
    and pop_items: "items (snd (pop q)) = tl (items q)"
begin

lemma pops_items: "items (((\<lambda>q. snd (pop q)) ^^ n) q) = drop n (items q)"
  by (induction n) (simp_all add: pop_items drop_Suc tl_drop)

lemma accepted_comes_last:
  assumes "fst (push x q)"
  shows "fst (pop (((\<lambda>q. snd (pop q)) ^^ length (items q)) (snd (push x q)))) = x"
  using assms by (subst pop_front) (simp_all add: pops_items push_items push_accepts)

lemma push_bound: "length (items q) \<le> capacity \<Longrightarrow> length (items (snd (push x q))) \<le> capacity"
  by (simp add: push_items)

end

interpretation uq: bounded_fifo "\<lambda>q. q" MAX_UPDATE_QUEUE_SIZE UpdateQueue_Push UpdateQueue_Pop
  by unfold_locales (auto simp: UpdateQueue_Push_def UpdateQueue_Pop_def split: list.split)

text \<open>One round: the thread ends, the event loop runs the inject event.\<close>

fun run_jobs :: "task_env list \<Rightarrow> service \<Rightarrow> service option" where
  "run_jobs [] s = Some s"
| "run_jobs (te # tes) s =
     (case Task te s of
        None \<Rightarrow> None
      | Some s1 \<Rightarrow> (case RunDeferred True s1 of None \<Rightarrow> None | Some s2 \<Rightarrow> run_jobs tes s2))"

text \<open>The storage of a walk has finitely many directories, and the fuel counts them.\<close>

definition walk_finite :: "task_env \<Rightarrow> bool" where
  "walk_finite te \<longleftrightarrow> env_ok (te_walk te) \<and>
     (\<exists>ids. finite_storage (te_walk te) ids \<and> card ids \<le> te_fuel te \<and>
        (\<forall>p i. get_info (te_walk te) p = Some i \<longrightarrow> IsDirectory i \<longrightarrow> info_id i \<in> ids))"

lemma finite_storage_discard [simp]:
  "finite_storage (env\<lparr>walk_discard := b\<rparr>) ids = finite_storage env ids"
  by (simp add: finite_storage_def)

lemma Task_returns:
  assumes "walk_finite te" "tree_ok (sv_trees s (qi_db (sv_next s)))" "path_valid (qi_path (sv_next s))"
  shows "Task te s \<noteq> None"
proof -
  let ?env = "(te_walk te)\<lparr>walk_discard := qi_discard (sv_next s)\<rparr>"
  obtain ids where ids: "finite_storage ?env ids" "card ids \<le> te_fuel te"
    "\<forall>p i. get_info ?env p = Some i \<longrightarrow> IsDirectory i \<longrightarrow> info_id i \<in> ids" "env_ok ?env"
    using assms(1) by (auto simp: walk_finite_def)
  have "\<exists>changed root' st'. UpdateWalk_Walk (te_fuel te) ?env (sv_trees s (qi_db (sv_next s)))
      (qi_path (sv_next s)) \<lparr>modified = False, removed = [], tick = 0\<rparr> = Some (changed, root', st')"
    using UpdateWalk_returns [OF ids(1,3,4) assms(2) _ ids(2)] assms(3) by (simp add: path_valid_def)
  then show ?thesis by (auto simp: Task_def Let_def)
qed

lemma run_jobs_order:
  assumes "service_ok s" "sv_running s" "\<forall>i. tree_ok (sv_trees s i)" "\<forall>te \<in> set tes. walk_finite te"
    "tes \<noteq> []" "length tes \<le> length (sv_queue s) + 1"
  shows "\<exists>s'. run_jobs tes s = Some s' \<and>
    sv_started s' = sv_started s @ map qi_id (take (length tes) (sv_queue s)) \<and>
    sv_queue s' = drop (length tes) (sv_queue s) \<and>
    (sv_walk s' = None \<longleftrightarrow> length tes = length (sv_queue s) + 1) \<and> service_ok s'"
  using assms
proof (induction tes arbitrary: s)
  case (Cons te tes)
  have te: "walk_finite te" "env_ok (te_walk te)" using Cons.prems(4) by (auto simp: walk_finite_def)
  have path: "path_valid (qi_path (sv_next s))"
    using Cons.prems(1,2) active_walk by (auto simp: service_ok_defs)
  obtain s1 where s1: "Task te s = Some s1"
    using Task_returns [OF te(1) _ path] Cons.prems(3) by blast
  have ok1: "service_ok s1" using service_ok_Task Cons.prems(1,2) s1 by blast
  have trees1: "\<forall>i. tree_ok (sv_trees s1 i)" using Task_tree_ok [OF s1 te(2) path] Cons.prems(3) by blast
  have same: "sv_queue s1 = sv_queue s" "sv_started s1 = sv_started s" "sv_deferred s1"
    by (rule Task_cases [OF s1]; simp)+
  have "RunDeferred True s1 \<noteq> None"
    by (auto simp: RunDeferred_def StartThread_def Let_def split: prod.splits)
  then obtain s2 where s2: "RunDeferred True s1 = Some s2" by blast
  have ok2: "service_ok s2" by (rule service_ok_RunDeferred [OF ok1 same(3) s2])
  from s2 jobs_ok_ids [OF ok1] show ?case
  proof (cases rule: RunDeferred_cases)
    case idle
    then have "tes = []" using Cons.prems(6) same by simp
    then show ?thesis using idle same ok2 s1 s2 by simp
  next
    case (next_job i q)
    show ?thesis
    proof (cases "tes = []")
      case True
      then show ?thesis using next_job same ok2 s1 s2 by auto
    next
      case False
      have "\<exists>s'. run_jobs tes s2 = Some s' \<and>
        sv_started s' = sv_started s2 @ map qi_id (take (length tes) (sv_queue s2)) \<and>
        sv_queue s' = drop (length tes) (sv_queue s2) \<and>
        (sv_walk s' = None \<longleftrightarrow> length tes = length (sv_queue s2) + 1) \<and> service_ok s'"
        using Cons.prems(4,6) next_job same trees1 ok2 False by (intro Cons.IH) auto
      then show ?thesis using next_job same s1 s2 by auto
    qed
  qed
qed simp

section \<open>A thread that cannot be created\<close>

lemma wedged_Enqueue:
  assumes "wedged s" "Enqueue start_ok is_simple storage p discard s = (result, s')"
  shows "wedged s' \<and> sv_started s' = sv_started s"
  using assms(2) by (rule Enqueue_cases) (use assms(1) in \<open>auto simp: wedged_def\<close>)

lemma wedged_CancelMount:
  assumes "wedged s" "CancelMount te is_simple storage uri s = Some s'"
  shows "wedged s' \<and> sv_started s' = sv_started s"
proof -
  obtain wait s1 where req: "CancelMount_request is_simple storage uri s = (wait, s1)" by (meson surj_pair)
  have "wedged s1 \<and> sv_started s1 = sv_started s \<and> \<not> wait"
    using req by (rule CancelMount_request_cases) (use assms(1) in \<open>auto simp: wedged_def\<close>)
  then show ?thesis using assms(2) by (simp add: CancelMount_def req)
qed

lemma wedged_step: "\<lbrakk>service_step c f s s'; wedged s\<rbrakk> \<Longrightarrow> wedged s' \<and> sv_started s' = sv_started s"
proof (induction rule: service_step.induct)
  case (cancel_all f s)
  then show ?case by (auto simp: wedged_def CancelAllAsync_def)
next
  case (task s te s' c f)
  then show ?case by (simp add: wedged_def)
next
  case (deferred s start_ok f s' c)
  then show ?case by (simp add: wedged_def)
qed (blast dest: wedged_Enqueue wedged_CancelMount)+

lemma wedged_reach: "\<lbrakk>service_reach c f s s'; wedged s\<rbrakk> \<Longrightarrow> wedged s' \<and> sv_started s' = sv_started s"
  by (induction rule: service_reach.induct) (auto dest: wedged_step)

section \<open>UpdateRemoveService (db/update/Remove.cxx)\<close>

text \<open>
  The list behind the mutex and the pending flag of the inject event, with the position of
  the two threads: \<open>rm_schedule\<close> (the update thread has left the mutex in \<open>Remove\<close> and will
  schedule the event), \<open>rm_entered\<close> (the main thread has taken the event and not the mutex)
  and \<open>rm_copy\<close> (the main thread is in the loop of callbacks). \<open>rm_removed\<close> and
  \<open>rm_notified\<close> record the calls of \<open>Remove\<close> and of the listener.
\<close>

record remover =
  rm_uris :: "string list"
  rm_pending :: bool
  rm_schedule :: bool
  rm_entered :: bool
  rm_copy :: "string list option"
  rm_removed :: "string list"
  rm_notified :: "string list"

definition UpdateRemoveService_new :: remover where
  "UpdateRemoveService_new =
     \<lparr>rm_uris = [], rm_pending = False, rm_schedule = False, rm_entered = False, rm_copy = None,
      rm_removed = [], rm_notified = []\<rparr>"

definition Remove_locked :: "string \<Rightarrow> remover \<Rightarrow> remover" where
  "Remove_locked uri s =
     (let was_empty = (rm_uris s = []) in
      s\<lparr>rm_uris := uri # rm_uris s, rm_schedule := was_empty, rm_removed := rm_removed s @ [uri]\<rparr>)"

definition Remove_schedule :: "remover \<Rightarrow> remover" where
  "Remove_schedule s = s\<lparr>rm_schedule := False, rm_pending := True\<rparr>"

definition RunDeferred_enter :: "remover \<Rightarrow> remover" where
  "RunDeferred_enter s = s\<lparr>rm_pending := False, rm_entered := True\<rparr>"

definition RunDeferred_swap :: "remover \<Rightarrow> remover" where
  "RunDeferred_swap s = s\<lparr>rm_entered := False, rm_copy := Some (rm_uris s), rm_uris := []\<rparr>"

definition RunDeferred_next :: "remover \<Rightarrow> remover" where
  "RunDeferred_next s =
     (case rm_copy s of
        Some (uri # copy) \<Rightarrow> s\<lparr>rm_copy := Some copy, rm_notified := rm_notified s @ [uri]\<rparr>
      | _ \<Rightarrow> s\<lparr>rm_copy := None\<rparr>)"

text \<open>The steps without a new call of \<open>Remove\<close>, and with one.\<close>

inductive drain_step :: "remover \<Rightarrow> remover \<Rightarrow> bool" where
  schedule: "rm_schedule s \<Longrightarrow> drain_step s (Remove_schedule s)"
| enter: "\<lbrakk>rm_pending s; \<not> rm_entered s; rm_copy s = None\<rbrakk> \<Longrightarrow> drain_step s (RunDeferred_enter s)"
| swap: "rm_entered s \<Longrightarrow> drain_step s (RunDeferred_swap s)"
| callback: "rm_copy s \<noteq> None \<Longrightarrow> drain_step s (RunDeferred_next s)"

inductive remove_reach :: "remover \<Rightarrow> bool" where
  start: "remove_reach UpdateRemoveService_new"
| remove: "\<lbrakk>remove_reach s; \<not> rm_schedule s\<rbrakk> \<Longrightarrow> remove_reach (Remove_locked uri s)"
| drain: "\<lbrakk>remove_reach s; drain_step s s'\<rbrakk> \<Longrightarrow> remove_reach s'"

definition copied :: "remover \<Rightarrow> string list" where
  "copied s = (case rm_copy s of None \<Rightarrow> [] | Some us \<Rightarrow> us)"

definition remover_ok :: "remover \<Rightarrow> bool" where
  "remover_ok s \<longleftrightarrow>
     mset (rm_removed s) = mset (rm_notified s) + mset (rm_uris s) + mset (copied s) \<and>
     (rm_uris s \<noteq> [] \<longrightarrow> rm_pending s \<or> rm_schedule s \<or> rm_entered s) \<and>
     \<not> (rm_entered s \<and> rm_copy s \<noteq> None)"

lemmas remover_defs = Remove_locked_def Remove_schedule_def RunDeferred_enter_def RunDeferred_swap_def
  RunDeferred_next_def copied_def Let_def

lemma remover_ok_drain: "\<lbrakk>drain_step s s'; remover_ok s\<rbrakk> \<Longrightarrow> remover_ok s' \<and> rm_removed s' = rm_removed s"
  by (induction rule: drain_step.induct)
    (auto simp: remover_ok_def remover_defs split: option.splits list.splits)

lemma remover_ok_reach: "remove_reach s \<Longrightarrow> remover_ok s"
proof (induction rule: remove_reach.induct)
  case start
  then show ?case by (simp add: remover_ok_def UpdateRemoveService_new_def copied_def)
next
  case (remove s uri)
  then show ?case by (auto simp: remover_ok_def remover_defs)
next
  case (drain s s')
  then show ?case by (blast dest: remover_ok_drain)
qed

text \<open>What is left to do: each drain step makes it smaller.\<close>

definition remaining_work :: "remover \<Rightarrow> nat" where
  "remaining_work s =
     2 * length (rm_uris s) + (case rm_copy s of None \<Rightarrow> 0 | Some us \<Rightarrow> length us + 1) +
     (if rm_schedule s then 4 else 0) + (if rm_pending s then 3 else 0) + (if rm_entered s then 2 else 0)"

lemma remaining_work_decreases: "\<lbrakk>drain_step s s'; remover_ok s\<rbrakk> \<Longrightarrow> remaining_work s' < remaining_work s"
  by (induction rule: drain_step.induct)
    (auto simp: remaining_work_def remover_ok_def remover_defs split: option.splits list.splits)

lemma drained_all_notified:
  assumes "remover_ok s" "\<nexists>s'. drain_step s s'"
  shows "mset (rm_notified s) = mset (rm_removed s)"
proof -
  have no: "\<not> rm_schedule s" "\<not> rm_entered s" "rm_copy s = None"
    using assms(2) drain_step.schedule drain_step.swap drain_step.callback by blast+
  then have "\<not> rm_pending s" using assms(2) drain_step.enter by blast
  with no assms(1) show ?thesis by (auto simp: remover_ok_def copied_def)
qed

lemma drain_terminates:
  "remover_ok s \<Longrightarrow> \<exists>s'. drain_step\<^sup>*\<^sup>* s s' \<and> remover_ok s' \<and> rm_removed s' = rm_removed s \<and> (\<nexists>t. drain_step s' t)"
proof (induction "remaining_work s" arbitrary: s rule: less_induct)
  case less
  show ?case
  proof (cases "\<exists>t. drain_step s t")
    case True
    then obtain t where t: "drain_step s t" by blast
    then have "remover_ok t \<and> rm_removed t = rm_removed s" using remover_ok_drain less.prems by blast
    with less.hyps [OF remaining_work_decreases [OF t less.prems]] t show ?thesis
      by (metis converse_rtranclp_into_rtranclp)
  qed (use less.prems in blast)
qed

section \<open>Properties\<close>

lemma accepted_step:
  assumes "service_step c f s s'" "\<not> c" "service_ok s" "sv_accepted s = sv_started s @ map qi_id (sv_queue s)"
  shows "sv_accepted s' = sv_started s' @ map qi_id (sv_queue s')"
  using assms
proof (induction rule: service_step.induct)
  case (enqueue p start_ok f is_simple storage discard s result s' c)
  from enqueue(3) show ?case
  proof (cases rule: Enqueue_cases)
    case (started i)
    then show ?thesis using enqueue(5,6) by (simp add: service_ok_defs)
  qed (use enqueue in simp_all)
next
  case (task s te s' c f)
  from task(3) show ?case by (rule Task_cases) (use task in simp)
next
  case (deferred s start_ok f s' c)
  from deferred(3) jobs_ok_ids [OF deferred(5)] show ?case
    by (rule RunDeferred_cases) (use deferred in simp_all)
qed auto

lemma accepted_reach:
  "\<lbrakk>service_reach c f s s'; \<not> c; service_ok s; sv_accepted s = sv_started s @ map qi_id (sv_queue s)\<rbrakk> \<Longrightarrow>
    sv_accepted s' = sv_started s' @ map qi_id (sv_queue s')"
  by (induction rule: service_reach.induct) (auto intro: accepted_step service_ok_reach)

lemma not_wedged_step:
  assumes "service_step c f s s'" "\<not> f" "service_ok s" "\<not> wedged s"
  shows "\<not> wedged s'"
  using assms
proof (induction rule: service_step.induct)
  case (enqueue p start_ok f is_simple storage discard s result s' c)
  from enqueue(3) show ?case by (rule Enqueue_cases) (use enqueue in \<open>auto simp: wedged_def\<close>)
next
  case (task s te s' c f)
  from task(3) show ?case by (rule Task_cases) (simp add: wedged_def)
next
  case (deferred s start_ok f s' c)
  from deferred(3) jobs_ok_ids [OF deferred(5)] show ?case by (rule RunDeferred_cases) (simp_all add: wedged_def)
next
  case (cancel_all f s)
  then show ?case by (auto simp: wedged_def CancelAllAsync_def)
next
  case (cancel_mount te is_simple storage uri s s' f)
  obtain wait s1 where req: "CancelMount_request is_simple storage uri s = (wait, s1)" by (meson surj_pair)
  have s1: "\<not> wedged s1 \<and> (wait \<longrightarrow> sv_thread s) \<and> sv_running s1 = sv_running s \<and> sv_deferred s1 = sv_deferred s"
    by (rule CancelMount_request_cases [OF req]) (use cancel_mount(4,5) in \<open>auto simp: wedged_def\<close>)
  show ?case
  proof (cases "wait \<and> sv_running s1")
    case True
    then obtain t where t: "Task te s1 = Some t" "s' = t\<lparr>sv_thread := False\<rparr>"
      using cancel_mount(2) req by (auto simp: CancelMount_def)
    have "sv_deferred t" by (rule Task_cases [OF t(1)]) simp
    then show ?thesis by (simp add: t(2) wedged_def)
  next
    case False
    then show ?thesis
      using cancel_mount(2,4) req s1
      by (auto simp: CancelMount_def wedged_def service_ok_defs split: if_splits bool.splits option.splits)
  qed
qed

lemma not_wedged_reach:
  "\<lbrakk>service_reach c f s s'; \<not> f; service_ok s; \<not> wedged s\<rbrakk> \<Longrightarrow> \<not> wedged s'"
proof (induction rule: service_reach.induct)
  case (step s s' s'')
  then show ?case using not_wedged_step [OF step.hyps(2) _ service_ok_reach [OF step.hyps(1)]] by blast
qed


text \<open>
  Property C6 (liveness): jobs run in the order in which \<open>Enqueue\<close> accepted them. The ids that the callers
  of a service without cancelled updates have been given are, in this order, those of the jobs started and of
  the jobs that wait. While a job runs, each round of its thread and the event loop starts the next of them,
  and after as many rounds as there are jobs all have been started and the service is idle. The database
  trees are well-formed, the storages of the walks have finitely many directories, and the threads of the
  rounds can be created.
\<close>

theorem UpdateService_runs_jobs_in_order:
  assumes "service_reach False f (UpdateService_new trees exists) s" "\<forall>i. tree_ok (trees i)"
    "sv_running s" "\<forall>te \<in> set tes. walk_finite te" "tes \<noteq> []" "length tes \<le> length (sv_queue s) + 1"
  shows "sv_accepted s = sv_started s @ map qi_id (sv_queue s) \<and>
    (\<exists>s'. run_jobs tes s = Some s' \<and>
       sv_started s' = take (length (sv_started s) + length tes) (sv_accepted s) \<and>
       sv_queue s' = drop (length tes) (sv_queue s) \<and>
       (GetId s' = 0 \<longleftrightarrow> length tes = length (sv_queue s) + 1))"
proof -
  note start = UpdateService_new_ok [of trees exists]
  have ok: "service_ok s" by (rule service_ok_reach [OF assms(1) start])
  have trees: "\<forall>i. tree_ok (sv_trees s i)"
    using trees_ok_reach [OF assms(1) start] assms(2) by (simp add: UpdateService_new_def)
  have acc: "sv_accepted s = sv_started s @ map qi_id (sv_queue s)"
    using accepted_reach [OF assms(1) _ start] by (simp add: UpdateService_new_def)
  have "service_ok t \<Longrightarrow> GetId t = 0 \<longleftrightarrow> sv_walk t = None" for t
    by (cases "sv_walk t") (auto simp: service_ok_defs GetId_def id_ok_def)
  then show ?thesis using run_jobs_order [OF ok assms(3) trees assms(4-6)] by (auto simp: acc take_map)
qed

lemma CancelMount_result:
  assumes "CancelMount te is_simple storage uri s = Some s'" "CancelMount_request is_simple storage uri s = (wait, s1)"
  shows "sv_queue s' = sv_queue s1 \<and> sv_next s' = sv_next s1 \<and> (sv_running s' \<longrightarrow> sv_running s1 \<and> \<not> wait)"
  using assms by (auto simp: CancelMount_def elim!: Task_cases split: bool.splits if_splits)

text \<open>
  Property C8 (safety): when CancelMount returns for a mount point, no queued job and no
  running thread uses the storage or the database mounted there, so both can be closed.
\<close>

theorem CancelMount_releases_mount:
  assumes "service_ok s" "CancelMount te is_simple storage uri s = Some s'"
    "mounted_database (dir (lr_directory (LookupDirectory (sv_trees s ROOT_DB) uri))) = Some mdb"
    "is_simple mdb" "GetMount storage uri = Some st"
  shows "(\<forall>i \<in> set (sv_queue s'). qi_storage i \<noteq> st \<and> qi_db i \<noteq> mdb) \<and>
    (sv_running s' \<longrightarrow> qi_storage (sv_next s') \<noteq> st \<and> qi_db (sv_next s') \<noteq> mdb)"
proof -
  let ?q = "UpdateQueue_Erase_db mdb (UpdateQueue_Erase_storage st (sv_queue s))"
  let ?current = "qi_IsDefined (sv_next s) \<and> (qi_storage (sv_next s) = st \<or> qi_db (sv_next s) = mdb)"
  obtain wait s1 where req: "CancelMount_request is_simple storage uri s = (wait, s1)" by (meson surj_pair)
  have s1: "sv_queue s1 = ?q" "sv_next s1 = sv_next s" "sv_running s1 = sv_running s"
    "wait = (?current \<and> sv_walk s \<noteq> None \<and> sv_thread s)"
    using req assms(3-5) by (auto simp: CancelMount_request_def CancelMount_erase_def Let_def split: if_splits)
  have "sv_running s \<Longrightarrow> qi_IsDefined (sv_next s) \<and> sv_walk s \<noteq> None \<and> sv_thread s"
    using assms(1) active_walk [OF assms(1)] by (auto simp: service_ok_defs qi_IsDefined_def id_ok_def)
  with s1 CancelMount_result [OF assms(2) req] show ?thesis by auto
qed

text \<open>
  StartThread leaves the walk object in place when the thread cannot be
  created. The caller gets an exception, but from then on the service counts as busy: whatever
  happens later, no job is ever started again.
\<close>

lemma failed_thread_start_wedges_service:
  assumes "service_ok s" "sv_walk s = None" "Enqueue_target is_simple storage (sv_trees s ROOT_DB) p = Inr t"
    "service_reach True True (snd (Enqueue False is_simple storage p discard s)) s'"
  shows "fst (Enqueue False is_simple storage p discard s) = Inl FailedToCreateThread \<and>
    sv_walk s' \<noteq> None \<and> \<not> sv_running s' \<and> sv_started s' = sv_started s"
proof -
  obtain result s1 where enq: "Enqueue False is_simple storage p discard s = (result, s1)" by (meson surj_pair)
  have idle: "\<not> sv_running s" "\<not> sv_deferred s" "\<not> sv_thread s" using assms(1,2) by (auto simp: service_ok_defs)
  have "result = Inl FailedToCreateThread \<and> wedged s1 \<and> sv_started s1 = sv_started s"
    using enq assms(2,3) idle
    by (auto simp: Enqueue_def StartThread_def Let_def wedged_def split: prod.splits)
  moreover have "wedged s' \<and> sv_started s' = sv_started s1" if "wedged s1"
    using wedged_reach [of True True s1 s'] assms(4) that by (simp add: enq)
  ultimately show ?thesis by (simp add: enq wedged_def)
qed

text \<open>
  Property C7 (safety): no removed song is lost between the two threads. In every interleaving
  the listener has been told only about songs passed to Remove, none twice; while something
  is left a step of one of the threads is possible, such steps cannot go on for ever, and when
  none is left every removed song has been reported.
\<close>

theorem removals_are_delivered:
  assumes "remove_reach s"
  shows "mset (rm_notified s) \<subseteq># mset (rm_removed s) \<and>
    (\<forall>s'. drain_step s s' \<longrightarrow> remaining_work s' < remaining_work s) \<and>
    ((\<nexists>s'. drain_step s s') \<longrightarrow> mset (rm_notified s) = mset (rm_removed s)) \<and>
    (\<exists>s'. drain_step\<^sup>*\<^sup>* s s' \<and> mset (rm_notified s') = mset (rm_removed s))"
proof -
  have ok: "remover_ok s" by (rule remover_ok_reach [OF assms])
  then have "mset (rm_notified s) \<subseteq># mset (rm_removed s)" by (simp add: remover_ok_def)
  moreover obtain s' where "drain_step\<^sup>*\<^sup>* s s'" "remover_ok s'" "rm_removed s' = rm_removed s" "\<nexists>t. drain_step s' t"
    using drain_terminates [OF ok] by blast
  moreover have "mset (rm_notified s') = mset (rm_removed s)"
    using calculation drained_all_notified by metis
  ultimately show ?thesis
    using remaining_work_decreases [OF _ ok] drained_all_notified [OF ok] by blast
qed

section \<open>Witnesses\<close>

definition sample_service :: service where
  "sample_service =
     (let enqueue = (\<lambda>s. snd (Enqueue True (\<lambda>_. True) sample_mounts [] False s))
      in enqueue (enqueue (UpdateService_new (\<lambda>_. sample_root) (\<lambda>_. True))))"

lemma sample_service_reach:
  "service_reach False False (UpdateService_new (\<lambda>_. sample_root) (\<lambda>_. True)) sample_service"
proof -
  have step: "service_step False False s (snd (Enqueue True (\<lambda>_. True) sample_mounts [] False s))" for s
    by (rule service_step.enqueue [OF path_valid_Nil, of True]) (simp, rule surjective_pairing)
  show ?thesis
    unfolding sample_service_def Let_def by (intro service_reach.step [OF _ step] service_reach.start)
qed

lemmas service_eval = Enqueue_def UpdateService_new_def UpdateService_GenerateId_def Let_def
  StartThread_def UpdateQueue_Push_def MAX_UPDATE_QUEUE_SIZE_def update_task_id_max_def

lemma sample_target: "Enqueue_target (\<lambda>_. True) sample_mounts sample_root [] = Inr (0, 0, [])"
  by code_simp

lemma sample_service_eval:
  "sv_running sample_service" "pending sample_service = [1, 2]" "length (sv_queue sample_service) = 1"
  "sv_started sample_service = [1]" "sv_accepted sample_service = [1, 2]" "map qi_id (sv_queue sample_service) = [2]"
  by (simp_all add: sample_service_def service_eval sample_target pending_def)


definition sample_task :: task_env where
  "sample_task = \<lparr>te_walk = sample_env, te_fuel = 1, te_collate = (\<lambda>_ _. 0), te_saved = True\<rparr>"

lemma sample_task_finite: "walk_finite sample_task"
  unfolding walk_finite_def
proof (intro conjI exI [of _ "{(1, 1)}"])
  show "finite_storage (te_walk sample_task) {(1, 1)}"
    "\<forall>p i. get_info (te_walk sample_task) p = Some i \<longrightarrow> IsDirectory i \<longrightarrow> info_id i \<in> {(1, 1)}"
    by (auto simp: sample_task_def finite_storage_def sample_env_def sample_listing_def sample_info_def
        file_info_def info_id_def IsDirectory_def split: if_splits)
qed (simp_all add: sample_task_def sample_env_ok)

theorem UpdateService_runs_jobs_in_order_witness:
  "\<exists>s'. run_jobs [sample_task, sample_task] sample_service = Some s' \<and> sv_started s' = [1, 2] \<and> GetId s' = 0"
  using UpdateService_runs_jobs_in_order [OF sample_service_reach, of "[sample_task, sample_task]"]
    sample_service_eval sample_task_finite sample_root_ok by auto

text \<open>A job on the database mounted at \<open>net/nas\<close>, which is then cancelled.\<close>

definition mounted_root :: directory where
  "mounted_root = (case CreateChild ''nas'' (Directory_new ''net'' False) of Directory i cs \<Rightarrow>
     Directory (dir NewRoot) [Directory i (map (\<lambda>c. Directory ((dir c)\<lparr>mounted_database := Some 7\<rparr>) []) cs)])"

definition mounted_service :: service where
  "mounted_service = snd (Enqueue True (\<lambda>_. True) sample_mounts ''net/nas'' False
     (UpdateService_new (\<lambda>i. if i = 7 then sample_root else mounted_root) (\<lambda>_. True)))"

lemma mounted_target: "Enqueue_target (\<lambda>_. True) sample_mounts mounted_root ''net/nas'' = Inr (7, 2, [])"
  by code_simp

lemma mounted_lookup:
  "mounted_database (dir (lr_directory (LookupDirectory mounted_root ''net/nas''))) = Some 7"
  "GetMount sample_mounts ''net/nas'' = Some 2"
  by code_simp+

lemma mounted_service_eval:
  "sv_trees mounted_service = (\<lambda>i. if i = 7 then sample_root else mounted_root)"
  "sv_next mounted_service = \<lparr>qi_db = 7, qi_storage = 2, qi_path = [], qi_id = 1, qi_discard = False\<rparr>"
  "sv_running mounted_service" "sv_thread mounted_service" "sv_walk mounted_service = Some False"
  by (simp_all add: mounted_service_def service_eval ROOT_DB_def mounted_target)

theorem CancelMount_releases_mount_witness:
  "qi_storage (sv_next mounted_service) = 2 \<and> sv_running mounted_service \<and>
   (case CancelMount sample_task (\<lambda>_. True) sample_mounts ''net/nas'' mounted_service of
      None \<Rightarrow> False
    | Some s' \<Rightarrow> \<not> sv_running s' \<or> qi_storage (sv_next s') \<noteq> 2)"
proof -
  have "service_reach False False (UpdateService_new (\<lambda>i. if i = 7 then sample_root else mounted_root) (\<lambda>_. True)) mounted_service"
    unfolding mounted_service_def
    by (rule service_reach.step [OF service_reach.start service_step.enqueue [of "''net/nas''" True]])
      (code_simp, simp, rule surjective_pairing)
  then have ok: "service_ok mounted_service" by (rule service_ok_reach [OF _ UpdateService_new_ok])
  have lookup: "mounted_database (dir (lr_directory (LookupDirectory (sv_trees mounted_service ROOT_DB) ''net/nas''))) = Some 7"
    by (simp add: mounted_service_eval ROOT_DB_def mounted_lookup)
  moreover have "CancelMount sample_task (\<lambda>_. True) sample_mounts ''net/nas'' mounted_service \<noteq> None"
    using Task_returns [OF sample_task_finite] sample_root_ok
    by (simp add: CancelMount_def CancelMount_request_def CancelMount_erase_def Let_def lookup mounted_lookup
        mounted_service_eval qi_IsDefined_def ROOT_DB_def)
  ultimately show ?thesis
    using CancelMount_releases_mount [OF ok, of sample_task "\<lambda>_. True" sample_mounts "''net/nas''" _ 7 2]
    by (auto simp: mounted_lookup mounted_service_eval)
qed

theorem removals_are_delivered_witness:
  "rm_removed (Remove_locked ''a'' UpdateRemoveService_new) = [''a''] \<and>
   (\<exists>s'. drain_step\<^sup>*\<^sup>* (Remove_locked ''a'' UpdateRemoveService_new) s' \<and> mset (rm_notified s') = {#''a''#})"
proof -
  have "remove_reach (Remove_locked ''a'' UpdateRemoveService_new)"
    by (intro remove_reach.remove remove_reach.start) (simp add: UpdateRemoveService_new_def)
  moreover have "rm_removed (Remove_locked ''a'' UpdateRemoveService_new) = [''a'']" by code_simp
  ultimately show ?thesis
    using removals_are_delivered [of "Remove_locked ''a'' UpdateRemoveService_new"] by auto
qed

end
