(* ===== verification/Player_Queue.thy ===== *)
theory Player_Queue
  imports Mpd_Prelude
begin

text \<open>
  queue/Queue.cxx, queue/Queue.hxx and queue/IdTable.hxx: the play queue. The arrays
  \<open>items\<close>, \<open>order\<close> and \<open>data\<close> are lists of their allocated size with a separate length, as in
  the code; what the elements hold before they are written is an argument of the
  constructors. Counters and positions are natural numbers: the configured maximum length
  (times four) fits an \<open>unsigned\<close>. The random engine is a parameter: \<open>shuffle\<close> stands for
  \<open>std::shuffle\<close> of a range (with the start of the range as first argument) and \<open>pick\<close> for a
  uniform distribution over a range.
\<close>

section \<open>IdTable (queue/IdTable.hxx)\<close>

record IdTable =
  it_size :: nat
  it_initialized :: nat
  it_next :: nat
  it_data :: "int list"

definition IdTable_new :: "int list \<Rightarrow> IdTable" where
  "IdTable_new memory = \<lparr>it_size = length memory, it_initialized = 1, it_next = 1, it_data = memory\<rparr>"

definition IdTable_IdToPosition :: "IdTable \<Rightarrow> nat \<Rightarrow> int" where
  "IdTable_IdToPosition t sid = (if sid < it_initialized t then it_data t ! sid else - 1)"

text \<open>The endless loop of \<open>GenerateId\<close>; \<open>None\<close>: it does not return.\<close>

partial_function (option) GenerateId :: "IdTable \<Rightarrow> (nat \<times> IdTable) option" where
  "GenerateId t =
     (let sid = it_next t;
          t1 = t\<lparr>it_next := if sid + 1 = it_size t then 1 else sid + 1\<rparr>
      in if sid = it_initialized t then Some (sid, t1\<lparr>it_initialized := it_initialized t + 1\<rparr>)
         else if it_data t ! sid < 0 then Some (sid, t1)
         else GenerateId t1)"

definition IdTable_Insert :: "nat \<Rightarrow> IdTable \<Rightarrow> (nat \<times> IdTable) option" where
  "IdTable_Insert position t =
     map_option (\<lambda>(sid, t'). (sid, t'\<lparr>it_data := (it_data t')[sid := int position]\<rparr>)) (GenerateId t)"

definition IdTable_Move :: "nat \<Rightarrow> nat \<Rightarrow> IdTable \<Rightarrow> IdTable" where
  "IdTable_Move sid position t = t\<lparr>it_data := (it_data t)[sid := int position]\<rparr>"

definition IdTable_Erase :: "nat \<Rightarrow> IdTable \<Rightarrow> IdTable" where
  "IdTable_Erase sid t = t\<lparr>it_data := (it_data t)[sid := - 1]\<rparr>"

section \<open>Queue (queue/Queue.hxx, queue/Queue.cxx)\<close>

datatype SingleMode = SINGLE_OFF | SINGLE_ON | SINGLE_ONE_SHOT
datatype ConsumeMode = CONSUME_OFF | CONSUME_ON | CONSUME_ONE_SHOT

record 'song Item =
  i_song :: 'song
  i_id :: nat
  i_version :: nat
  i_priority :: "8 word"

record 'song queue =
  q_max_length :: nat
  q_length :: nat
  q_version :: nat
  q_items :: "'song Item list"
  q_order :: "nat list"
  q_id_table :: IdTable
  q_repeat :: bool
  q_single :: SingleMode
  q_consume :: ConsumeMode
  q_random :: bool
  q_last_loaded_playlist :: string

definition HASH_MULT :: nat where
  "HASH_MULT = 4"

definition Queue_new :: "'song Item list \<Rightarrow> nat list \<Rightarrow> int list \<Rightarrow> 'song queue" where
  "Queue_new items order data =
     \<lparr>q_max_length = length items, q_length = 0, q_version = 1, q_items = items, q_order = order,
      q_id_table = IdTable_new data, q_repeat = False, q_single = SINGLE_OFF,
      q_consume = CONSUME_OFF, q_random = False, q_last_loaded_playlist = []\<rparr>"

definition Queue_IsFull :: "'song queue \<Rightarrow> bool" where
  "Queue_IsFull q \<longleftrightarrow> q_max_length q \<le> q_length q"

definition Queue_IdToPosition :: "'song queue \<Rightarrow> nat \<Rightarrow> int" where
  "Queue_IdToPosition q sid = IdTable_IdToPosition (q_id_table q) sid"

definition PositionToId :: "'song queue \<Rightarrow> nat \<Rightarrow> nat" where
  "PositionToId q position = i_id (q_items q ! position)"

definition OrderToPosition :: "'song queue \<Rightarrow> nat \<Rightarrow> nat" where
  "OrderToPosition q ord = q_order q ! ord"

text \<open>The loop has no end test but an assertion: \<open>None\<close> runs past the array.\<close>

fun PositionToOrder_from :: "nat list \<Rightarrow> nat \<Rightarrow> nat \<Rightarrow> nat option" where
  "PositionToOrder_from [] position i = None"
| "PositionToOrder_from (p # ps) position i =
     (if p = position then Some i else PositionToOrder_from ps position (i + 1))"

definition PositionToOrder :: "'song queue \<Rightarrow> nat \<Rightarrow> nat option" where
  "PositionToOrder q position = PositionToOrder_from (q_order q) position 0"

definition GetOrderPriority :: "'song queue \<Rightarrow> nat \<Rightarrow> 8 word" where
  "GetOrderPriority q i = i_priority (q_items q ! OrderToPosition q i)"

definition IsNewerAtPosition :: "'song queue \<Rightarrow> nat \<Rightarrow> nat \<Rightarrow> bool" where
  "IsNewerAtPosition q position v \<longleftrightarrow>
     q_version q < v \<or> v \<le> i_version (q_items q ! position) \<or> i_version (q_items q ! position) = 0"

definition GetNextOrder :: "'song queue \<Rightarrow> nat \<Rightarrow> int" where
  "GetNextOrder q ord =
     (if q_single q \<noteq> SINGLE_OFF \<and> q_repeat q \<and> q_consume q = CONSUME_OFF then int ord
      else if ord + 1 < q_length q then int (ord + 1)
      else if q_repeat q \<and> (0 < ord \<or> q_consume q = CONSUME_OFF) then 0
      else - 1)"

text \<open>A loop over the first \<open>n\<close> elements of an array that changes each by itself.\<close>

definition for_prefix :: "nat \<Rightarrow> ('a \<Rightarrow> 'a) \<Rightarrow> 'a list \<Rightarrow> 'a list" where
  "for_prefix n f xs = map f (take n xs) @ drop n xs"

definition max_version :: nat where
  "max_version = 2 ^ 31 - 1"

definition IncrementVersion :: "'song queue \<Rightarrow> 'song queue" where
  "IncrementVersion q =
     (let v = q_version q + 1 in
      if max_version \<le> v
      then q\<lparr>q_version := 1, q_items := for_prefix (q_length q) (\<lambda>i. i\<lparr>i_version := 0\<rparr>) (q_items q)\<rparr>
      else q\<lparr>q_version := v\<rparr>)"

definition ModifyAtPosition :: "nat \<Rightarrow> 'song queue \<Rightarrow> 'song queue" where
  "ModifyAtPosition position q =
     q\<lparr>q_items := (q_items q)[position := (q_items q ! position)\<lparr>i_version := q_version q\<rparr>]\<rparr>"

definition ModifyAtOrder :: "nat \<Rightarrow> 'song queue \<Rightarrow> 'song queue" where
  "ModifyAtOrder ord q = ModifyAtPosition (q_order q ! ord) q"

definition Queue_Append :: "'song \<Rightarrow> 8 word \<Rightarrow> 'song queue \<Rightarrow> (nat \<times> 'song queue) option" where
  "Queue_Append song priority q =
     (let position = q_length q in
      map_option (\<lambda>(sid, t).
        (sid, q\<lparr>q_length := position + 1, q_id_table := t,
               q_items := (q_items q)[position :=
                 \<lparr>i_song = song, i_id = sid, i_version = q_version q, i_priority = priority\<rparr>],
               q_order := (q_order q)[position := position]\<rparr>))
        (IdTable_Insert position (q_id_table q)))"

text \<open>\<open>put_item\<close>: store an item with the current version and tell the id table.\<close>

definition put_item :: "'song Item \<Rightarrow> nat \<Rightarrow> 'song queue \<Rightarrow> 'song queue" where
  "put_item item to q =
     q\<lparr>q_items := (q_items q)[to := item\<lparr>i_version := q_version q\<rparr>],
       q_id_table := IdTable_Move (i_id item) to (q_id_table q)\<rparr>"

definition MoveItemTo :: "nat \<Rightarrow> nat \<Rightarrow> 'song queue \<Rightarrow> 'song queue" where
  "MoveItemTo from to q = put_item (q_items q ! from) to q"

definition SwapPositions :: "nat \<Rightarrow> nat \<Rightarrow> 'song queue \<Rightarrow> 'song queue" where
  "SwapPositions position1 position2 q =
     (let item1 = q_items q ! position1; item2 = q_items q ! position2;
          v = q_version q
      in q\<lparr>q_items := (q_items q)[position1 := item2\<lparr>i_version := v\<rparr>, position2 := item1\<lparr>i_version := v\<rparr>],
           q_id_table := IdTable_Move (i_id item2) position1
                           (IdTable_Move (i_id item1) position2 (q_id_table q))\<rparr>)"

definition SwapOrders :: "nat \<Rightarrow> nat \<Rightarrow> 'song queue \<Rightarrow> 'song queue" where
  "SwapOrders order1 order2 q =
     q\<lparr>q_order := (q_order q)[order1 := q_order q ! order2, order2 := q_order q ! order1]\<rparr>"

definition move_order_value :: "nat \<Rightarrow> nat \<Rightarrow> nat \<Rightarrow> nat" where
  "move_order_value from to ord =
     (if from < ord \<and> ord \<le> to then ord - 1
      else if ord < from \<and> to \<le> ord then ord + 1
      else if from = ord then to
      else ord)"

definition MovePostion :: "nat \<Rightarrow> nat \<Rightarrow> 'song queue \<Rightarrow> 'song queue" where
  "MovePostion from to q =
     (let tmp = q_items q ! from;
          q1 = fold (\<lambda>i. MoveItemTo (i + 1) i) [from..<to] q;
          q2 = fold (\<lambda>i. MoveItemTo (i - 1) i) (rev [to + 1..<from + 1]) q1;
          q3 = put_item tmp to q2
      in if q_random q
         then q3\<lparr>q_order := for_prefix (q_length q) (move_order_value from to) (q_order q3)\<rparr>
         else q3)"

definition range_order_value :: "nat \<Rightarrow> nat \<Rightarrow> nat \<Rightarrow> nat \<Rightarrow> nat" where
  "range_order_value start end to ord =
     (if end \<le> ord \<and> ord < to + end - start then ord - (end - start)
      else if ord < start \<and> to \<le> ord then ord + (end - start)
      else if start \<le> ord \<and> ord < end then ord + to - start
      else ord)"

definition MoveRange :: "nat \<Rightarrow> nat \<Rightarrow> nat \<Rightarrow> 'song queue \<Rightarrow> 'song queue" where
  "MoveRange start end to q =
     (let tmp = map (\<lambda>i. q_items q ! i) [start..<end];
          q1 = fold (\<lambda>i. MoveItemTo i (start + i - end)) [end..<end + to - start] q;
          q2 = fold (\<lambda>i. MoveItemTo i (i + end - start)) (rev [to..<start]) q1;
          q3 = fold (\<lambda>i. put_item (tmp ! (i - start)) (to + i - start)) [start..<end] q2
      in if q_random q
         then q3\<lparr>q_order := for_prefix (q_length q) (range_order_value start end to) (q_order q3)\<rparr>
         else q3)"

definition MoveOrder :: "nat \<Rightarrow> nat \<Rightarrow> 'song queue \<Rightarrow> 'song queue" where
  "MoveOrder from_order to_order q =
     (let from_position = OrderToPosition q from_order;
          copy = (\<lambda>src dst ord. ord[dst := ord ! src]);
          ord1 = (if from_order < to_order
            then fold (\<lambda>i. copy (i + 1) i) [from_order..<to_order] (q_order q)
            else fold (\<lambda>i. copy (i - 1) i) (rev [to_order + 1..<from_order + 1]) (q_order q))
      in q\<lparr>q_order := ord1[to_order := from_position]\<rparr>)"

definition MoveOrderBefore :: "nat \<Rightarrow> nat \<Rightarrow> 'song queue \<Rightarrow> nat \<times> 'song queue" where
  "MoveOrderBefore from_order to_order q =
     (let to' = to_order - (if from_order < to_order then 1 else 0)
      in (to', MoveOrder from_order to' q))"

definition MoveOrderAfter :: "nat \<Rightarrow> nat \<Rightarrow> 'song queue \<Rightarrow> nat \<times> 'song queue" where
  "MoveOrderAfter from_order to_order q =
     (let to' = to_order + (if to_order < from_order then 1 else 0)
      in (to', MoveOrder from_order to' q))"

definition DeletePosition :: "nat \<Rightarrow> 'song queue \<Rightarrow> 'song queue option" where
  "DeletePosition position q =
     map_option (\<lambda>ord.
       let len = q_length q - 1;
           q1 = q\<lparr>q_length := len, q_id_table := IdTable_Erase (PositionToId q position) (q_id_table q)\<rparr>;
           q2 = fold (\<lambda>i. MoveItemTo (i + 1) i) [position..<len] q1;
           ord1 = fold (\<lambda>i xs. xs[i := xs ! (i + 1)]) [ord..<len] (q_order q2)
       in q2\<lparr>q_order := for_prefix len (\<lambda>p. if position < p then p - 1 else p) ord1\<rparr>)
       (PositionToOrder q position)"

definition Queue_Clear :: "'song queue \<Rightarrow> 'song queue" where
  "Queue_Clear q =
     q\<lparr>q_id_table := fold (\<lambda>i. IdTable_Erase (i_id (q_items q ! i))) [0..<q_length q] (q_id_table q),
       q_length := 0, q_last_loaded_playlist := []\<rparr>"

definition RestoreOrder :: "'song queue \<Rightarrow> 'song queue" where
  "RestoreOrder q = q\<lparr>q_order := fold (\<lambda>i xs. xs[i := i]) [0..<q_length q] (q_order q)\<rparr>"

section \<open>Random order\<close>

definition on_range :: "nat \<Rightarrow> nat \<Rightarrow> ('a list \<Rightarrow> 'a list) \<Rightarrow> 'a list \<Rightarrow> 'a list" where
  "on_range start end f xs = take start xs @ f (take (end - start) (drop start xs)) @ drop end xs"

text \<open>\<open>std::stable_sort\<close> with the higher priority first.\<close>

definition queue_sort_order_by_priority :: "nat \<Rightarrow> nat \<Rightarrow> 'song queue \<Rightarrow> 'song queue" where
  "queue_sort_order_by_priority start end q =
     q\<lparr>q_order := on_range start end
         (sort_key (\<lambda>pos. 255 - unat (i_priority (q_items q ! pos)))) (q_order q)\<rparr>"

type_synonym shuffler = "nat \<Rightarrow> nat list \<Rightarrow> nat list"

definition ShuffleOrderRange :: "shuffler \<Rightarrow> nat \<Rightarrow> nat \<Rightarrow> 'song queue \<Rightarrow> 'song queue" where
  "ShuffleOrderRange shuffle start end q = q\<lparr>q_order := on_range start end (shuffle start) (q_order q)\<rparr>"

definition ShuffleOrderRangeWithPriority :: "shuffler \<Rightarrow> nat \<Rightarrow> nat \<Rightarrow> 'song queue \<Rightarrow> 'song queue" where
  "ShuffleOrderRangeWithPriority shuffle start end q =
     (if start = end then q
      else
        let q1 = queue_sort_order_by_priority start end q;
            step = (\<lambda>i (group_start, group_priority, q).
              let priority = GetOrderPriority q i in
              if priority \<noteq> group_priority
              then (i, priority, ShuffleOrderRange shuffle group_start i q)
              else (group_start, group_priority, q));
            (group_start, _, q2) = fold step [start + 1..<end] (start, GetOrderPriority q1 start, q1)
        in ShuffleOrderRange shuffle group_start end q2)"

definition ShuffleOrder :: "shuffler \<Rightarrow> 'song queue \<Rightarrow> 'song queue" where
  "ShuffleOrder shuffle q = ShuffleOrderRangeWithPriority shuffle 0 (q_length q) q"

definition ShuffleOrderFirst :: "(nat \<Rightarrow> nat \<Rightarrow> nat) \<Rightarrow> nat \<Rightarrow> nat \<Rightarrow> 'song queue \<Rightarrow> 'song queue" where
  "ShuffleOrderFirst pick start end q = SwapOrders start (pick start (end - 1)) q"

text \<open>The loop that skips items of another priority; it ends at the last item at the latest.\<close>

definition ShuffleOrderLastWithPriority :: "(nat \<Rightarrow> nat \<Rightarrow> nat) \<Rightarrow> nat \<Rightarrow> nat \<Rightarrow> 'song queue \<Rightarrow> 'song queue" where
  "ShuffleOrderLastWithPriority pick start end q =
     (let last_priority = GetOrderPriority q (end - 1);
          start' = (case find (\<lambda>i. GetOrderPriority q i = last_priority) [start..<end] of
              Some i \<Rightarrow> i | None \<Rightarrow> end)
      in SwapOrders (end - 1) (pick start' (end - 1)) q)"

definition ShuffleRange :: "(nat \<Rightarrow> nat \<Rightarrow> nat \<Rightarrow> nat) \<Rightarrow> nat \<Rightarrow> nat \<Rightarrow> 'song queue \<Rightarrow> 'song queue" where
  "ShuffleRange pick start end q = fold (\<lambda>i. SwapPositions i (pick i start (end - 1))) [start..<end] q"

section \<open>Priorities\<close>

definition FindPriorityOrder :: "'song queue \<Rightarrow> nat \<Rightarrow> 8 word \<Rightarrow> nat \<Rightarrow> nat" where
  "FindPriorityOrder q start_order priority exclude_order =
     (case find (\<lambda>i. GetOrderPriority q i \<le> priority \<and> i \<noteq> exclude_order) [start_order..<q_length q] of
        Some i \<Rightarrow> i | None \<Rightarrow> q_length q)"

definition CountSamePriority :: "'song queue \<Rightarrow> nat \<Rightarrow> 8 word \<Rightarrow> nat" where
  "CountSamePriority q start_order priority =
     (case find (\<lambda>i. GetOrderPriority q i \<noteq> priority) [start_order..<q_length q] of
        Some i \<Rightarrow> i - start_order | None \<Rightarrow> q_length q - start_order)"

definition SetPriority ::
    "(nat \<Rightarrow> nat \<Rightarrow> nat) \<Rightarrow> nat \<Rightarrow> 8 word \<Rightarrow> int \<Rightarrow> bool \<Rightarrow> 'song queue \<Rightarrow> (bool \<times> 'song queue) option" where
  "SetPriority pick position priority after_order reorder q =
     (let item = q_items q ! position; old_priority = i_priority item in
      if old_priority = priority then Some (False, q)
      else
        let q1 = q\<lparr>q_items := (q_items q)[position := item\<lparr>i_version := q_version q, i_priority := priority\<rparr>]\<rparr> in
        if \<not> q_random q \<or> \<not> reorder then Some (True, q1)
        else
          map_option (\<lambda>ord.
            if 0 \<le> after_order \<and>
               (ord = nat after_order \<or>
                (ord < nat after_order \<and>
                 (priority \<le> old_priority \<or>
                  priority \<le> i_priority (q_items q1 ! OrderToPosition q1 (nat after_order)))))
            then (True, q1)
            else
              let before_order = FindPriorityOrder q1 (nat (after_order + 1)) priority ord;
                  new_order = (if ord < before_order then before_order - 1 else before_order);
                  q2 = MoveOrder ord new_order q1;
                  priority_count = CountSamePriority q2 new_order priority
              in (True, ShuffleOrderFirst pick new_order (new_order + priority_count) q2))
            (PositionToOrder q1 position))"

definition SetPriorityRange ::
    "(nat \<Rightarrow> nat \<Rightarrow> nat) \<Rightarrow> nat \<Rightarrow> nat \<Rightarrow> 8 word \<Rightarrow> int \<Rightarrow> 'song queue \<Rightarrow> (bool \<times> 'song queue) option" where
  "SetPriorityRange pick start_position end_position priority after_order0 q0 =
     (let after_position = (if 0 \<le> after_order0 then Some (OrderToPosition q0 (nat after_order0)) else None) in
      fold (\<lambda>i acc. case acc of
          None \<Rightarrow> None
        | Some (changed, q) \<Rightarrow>
            (case (case after_position of None \<Rightarrow> Some (- 1) | Some p \<Rightarrow> map_option int (PositionToOrder q p)) of
               None \<Rightarrow> None
             | Some after_order \<Rightarrow>
                 map_option (\<lambda>(c, q'). (changed \<or> c, q')) (SetPriority pick i priority after_order True q)))
        [start_position..<end_position] (Some (False, q0)))"

end
