(* ===== verification/Queue_Correct.thy ===== *)
theory Queue_Correct
  imports Player_Queue
begin

text \<open>
  The play queue keeps its three views consistent: positions, ids and play order. The
  invariant links the id table with the items and says that the order array is a permutation;
  every operation keeps it. The operations that move items are described by the permutation
  of positions they perform, which gives at once what they do to the list of songs, to the id
  table and to the play order.
\<close>

section \<open>Invariants\<close>

definition table_ok :: "IdTable \<Rightarrow> bool" where
  "table_ok t \<longleftrightarrow>
     length (it_data t) = it_size t \<and> 0 < it_next t \<and> it_next t < it_size t \<and>
     it_next t \<le> it_initialized t \<and> it_initialized t \<le> it_size t"

definition shape_ok :: "'song queue \<Rightarrow> bool" where
  "shape_ok q \<longleftrightarrow>
     0 < q_max_length q \<and> q_length q \<le> q_max_length q \<and>
     length (q_items q) = q_max_length q \<and> length (q_order q) = q_max_length q \<and>
     it_size (q_id_table q) = HASH_MULT * q_max_length q \<and> table_ok (q_id_table q)"

text \<open>Every item's id leads back to its position, and every assigned id belongs to an item.\<close>

definition linked_ids :: "'song queue \<Rightarrow> bool" where
  "linked_ids q \<longleftrightarrow>
     (\<forall>p < q_length q. 0 < PositionToId q p \<and> PositionToId q p < it_initialized (q_id_table q) \<and>
        it_data (q_id_table q) ! PositionToId q p = int p) \<and>
     (\<forall>n. 0 < n \<and> n < it_initialized (q_id_table q) \<and> 0 \<le> it_data (q_id_table q) ! n \<longrightarrow>
        (\<exists>p < q_length q. PositionToId q p = n))"

abbreviation active_order :: "'song queue \<Rightarrow> nat list" where
  "active_order q \<equiv> take (q_length q) (q_order q)"

definition order_ok :: "'song queue \<Rightarrow> bool" where
  "order_ok q \<longleftrightarrow>
     mset (active_order q) = mset [0..<q_length q] \<and>
     (\<not> q_random q \<longrightarrow> active_order q = [0..<q_length q])"

definition queue_ok :: "'song queue \<Rightarrow> bool" where
  "queue_ok q \<longleftrightarrow> shape_ok q \<and> linked_ids q \<and> order_ok q"

lemma linked_idsD:
  assumes "linked_ids q" "p < q_length q"
  shows "0 < PositionToId q p" "PositionToId q p < it_initialized (q_id_table q)"
    "it_data (q_id_table q) ! PositionToId q p = int p"
  using assms by (simp_all add: linked_ids_def)

lemma ids_distinct:
  "\<lbrakk>linked_ids q; p < q_length q; p' < q_length q; PositionToId q p = PositionToId q p'\<rbrakk> \<Longrightarrow> p = p'"
  using linked_idsD(3) by (metis of_nat_eq_iff)

lemma id_in_range: "\<lbrakk>shape_ok q; linked_ids q; p < q_length q\<rbrakk> \<Longrightarrow> PositionToId q p < length (it_data (q_id_table q))"
  using linked_idsD(2) [of q p] by (simp add: shape_ok_def table_ok_def)

section \<open>Generating ids\<close>

definition free_id :: "IdTable \<Rightarrow> nat \<Rightarrow> bool" where
  "free_id t n \<longleftrightarrow>
     0 < n \<and> n < it_size t \<and> (n = it_initialized t \<or> (n < it_initialized t \<and> it_data t ! n < 0))"

definition table_after :: "IdTable \<Rightarrow> nat \<Rightarrow> IdTable" where
  "table_after t n =
     t\<lparr>it_next := if n + 1 = it_size t then 1 else n + 1,
       it_initialized := if n = it_initialized t then n + 1 else it_initialized t\<rparr>"

lemma table_ok_after: "\<lbrakk>table_ok t; free_id t n\<rbrakk> \<Longrightarrow> table_ok (table_after t n)"
  by (auto simp: table_ok_def free_id_def table_after_def)

text \<open>The steps until the counter reaches the free id \<open>g\<close>, wrapping around once at most.\<close>

definition id_distance :: "nat \<Rightarrow> IdTable \<Rightarrow> nat" where
  "id_distance g t = (if it_next t \<le> g then g - it_next t else it_size t - it_next t + g)"

lemma GenerateId_returns:
  assumes "table_ok t" "free_id t g"
  shows "\<exists>n. GenerateId t = Some (n, table_after t n) \<and> free_id t n"
  using assms
proof (induction "id_distance g t" arbitrary: t rule: less_induct)
  case less
  let ?n = "it_next t"
  let ?t = "t\<lparr>it_next := if ?n + 1 = it_size t then 1 else ?n + 1\<rparr>"
  show ?case
  proof (cases "free_id t ?n")
    case True
    have "?n = it_initialized t \<Longrightarrow> ?t\<lparr>it_initialized := it_initialized t + 1\<rparr> = table_after t ?n"
      and "?n \<noteq> it_initialized t \<Longrightarrow> ?t = table_after t ?n"
      by (auto simp: table_after_def)
    then have "GenerateId t = Some (?n, table_after t ?n)"
      using True by (subst GenerateId.simps) (auto simp: Let_def free_id_def)
    with True show ?thesis by blast
  next
    case False
    then have busy: "?n < it_initialized t" "0 \<le> it_data t ! ?n" "?n \<noteq> g"
      using less.prems by (auto simp: free_id_def table_ok_def)
    have step: "GenerateId t = GenerateId ?t"
      using busy by (subst GenerateId.simps) (simp add: Let_def)
    have "id_distance g ?t < id_distance g t"
      using less.prems busy by (auto simp: id_distance_def free_id_def table_ok_def)
    moreover have "table_ok ?t" "free_id ?t g"
      using less.prems busy by (auto simp: table_ok_def free_id_def)
    ultimately obtain n where "GenerateId ?t = Some (n, table_after ?t n)" "free_id ?t n"
      using less.hyps by blast
    then show ?thesis by (intro exI [of _ n]) (auto simp: step table_after_def free_id_def)
  qed
qed

lemma free_id_exists:
  assumes "shape_ok q" "linked_ids q" "\<not> Queue_IsFull q"
  shows "\<exists>n. free_id (q_id_table q) n"
proof (rule ccontr)
  let ?t = "q_id_table q"
  assume none: "\<nexists>n. free_id ?t n"
  have all: "\<exists>p < q_length q. PositionToId q p = n" if "0 < n" "n < it_initialized ?t" for n
  proof -
    have "\<not> free_id ?t n" "n < it_size ?t" using none that assms(1) by (auto simp: shape_ok_def table_ok_def)
    then have "0 \<le> it_data ?t ! n" using that by (auto simp: free_id_def)
    then show ?thesis using assms(2) that unfolding linked_ids_def by blast
  qed
  have "{1..<it_initialized ?t} \<subseteq> PositionToId q ` {..<q_length q}"
  proof
    fix n assume "n \<in> {1..<it_initialized ?t}"
    then show "n \<in> PositionToId q ` {..<q_length q}" using all [of n] by auto
  qed
  then have "it_initialized ?t - 1 \<le> q_length q"
    using surj_card_le [of "{..<q_length q}" "{1..<it_initialized ?t}" "PositionToId q"] by simp
  then have "it_initialized ?t < it_size ?t"
    using assms(1,3) by (auto simp: shape_ok_def Queue_IsFull_def HASH_MULT_def)
  then have "free_id ?t (it_initialized ?t)"
    using assms(1) by (auto simp: free_id_def shape_ok_def table_ok_def)
  with none show False by blast
qed

section \<open>Appending\<close>

lemma Queue_Append_cases:
  assumes "queue_ok q" "\<not> Queue_IsFull q"
  obtains n q' where "Queue_Append song priority q = Some (n, q')" "free_id (q_id_table q) n"
    "q' = q\<lparr>q_length := q_length q + 1,
       q_id_table := (table_after (q_id_table q) n)\<lparr>it_data := (it_data (q_id_table q))[n := int (q_length q)]\<rparr>,
       q_items := (q_items q)[q_length q :=
         \<lparr>i_song = song, i_id = n, i_version = q_version q, i_priority = priority\<rparr>],
       q_order := (q_order q)[q_length q := q_length q]\<rparr>"
proof -
  have "table_ok (q_id_table q)" using assms(1) by (simp add: queue_ok_def shape_ok_def)
  then obtain n where "GenerateId (q_id_table q) = Some (n, table_after (q_id_table q) n)" "free_id (q_id_table q) n"
    using GenerateId_returns free_id_exists assms by (metis queue_ok_def)
  then show thesis
    by (intro that) (auto simp: Queue_Append_def IdTable_Insert_def table_after_def Let_def)
qed

lemma queue_ok_Append:
  assumes "queue_ok q" "\<not> Queue_IsFull q" "Queue_Append song priority q = Some (n, q')"
  shows "queue_ok q'"
proof -
  obtain n' q'' where app: "Queue_Append song priority q = Some (n', q'')" and free: "free_id (q_id_table q) n'"
    and q'': "q'' = q\<lparr>q_length := q_length q + 1,
       q_id_table := (table_after (q_id_table q) n')\<lparr>it_data := (it_data (q_id_table q))[n' := int (q_length q)]\<rparr>,
       q_items := (q_items q)[q_length q :=
         \<lparr>i_song = song, i_id = n', i_version = q_version q, i_priority = priority\<rparr>],
       q_order := (q_order q)[q_length q := q_length q]\<rparr>"
    by (rule Queue_Append_cases [OF assms(1,2)])
  have q': "q' = q''" using assms(3) app by simp
  have shape: "shape_ok q" and linked: "linked_ids q" and ord: "order_ok q" using assms(1) by (simp_all add: queue_ok_def)
  have len: "q_length q < q_max_length q" using assms(2) by (simp add: Queue_IsFull_def)
  have "table_ok (table_after (q_id_table q) n')" using shape free by (simp add: shape_ok_def table_ok_after)
  then have "shape_ok q'" using shape len by (auto simp: q' q'' shape_ok_def table_ok_def table_after_def)
  moreover have "linked_ids q'"
  proof -
    have old: "PositionToId q' p = PositionToId q p" if "p < q_length q" for p
      using that by (simp add: q' q'' PositionToId_def)
    have new: "PositionToId q' (q_length q) = n'"
      using len shape by (simp add: q' q'' PositionToId_def shape_ok_def)
    have unused: "PositionToId q p \<noteq> n'" if "p < q_length q" for p
      using linked_idsD(2,3) [OF linked that] free by (auto simp: free_id_def)
    show ?thesis
      unfolding linked_ids_def
    proof (intro conjI allI impI)
      fix p assume p: "p < q_length q'"
      then have "p < q_length q \<or> p = q_length q" by (auto simp: q' q'')
      moreover have "n' < length (it_data (q_id_table q))" using free shape by (simp add: free_id_def shape_ok_def table_ok_def)
      ultimately show "0 < PositionToId q' p" "PositionToId q' p < it_initialized (q_id_table q')"
        "it_data (q_id_table q') ! PositionToId q' p = int p"
        using linked_idsD [OF linked, of p] old [of p] new free unused [of p]
        by (auto simp: q' q'' table_after_def free_id_def)
    next
      fix m assume m: "0 < m \<and> m < it_initialized (q_id_table q') \<and> 0 \<le> it_data (q_id_table q') ! m"
      show "\<exists>p < q_length q'. PositionToId q' p = m"
      proof (cases "m = n'")
        case True
        then show ?thesis using new by (intro exI [of _ "q_length q"]) (simp add: q' q'')
      next
        case False
        then have "0 < m \<and> m < it_initialized (q_id_table q) \<and> 0 \<le> it_data (q_id_table q) ! m"
          using m by (auto simp: q' q'' table_after_def split: if_splits)
        then obtain p where "p < q_length q" "PositionToId q p = m" using linked unfolding linked_ids_def by blast
        then show ?thesis using old by (intro exI [of _ p]) (simp add: q' q'')
      qed
    qed
  qed
  moreover have "active_order q' = active_order q @ [q_length q]"
    using len shape by (simp add: q' q'' shape_ok_def take_Suc_conv_app_nth)
  then have "order_ok q'" using ord by (simp add: order_ok_def q' q'')
  ultimately show ?thesis by (simp add: queue_ok_def)
qed

section \<open>Moving items\<close>

text \<open>What clients see of an item; the version only says when it was touched.\<close>

definition item_key :: "'song Item \<Rightarrow> 'song \<times> nat \<times> 8 word" where
  "item_key i = (i_song i, i_id i, i_priority i)"

definition contents :: "'song queue \<Rightarrow> ('song \<times> nat \<times> 8 word) list" where
  "contents q = map item_key (take (q_length q) (q_items q))"

definition same_frame :: "'song queue \<Rightarrow> 'song queue \<Rightarrow> bool" where
  "same_frame q q' \<longleftrightarrow>
     q' = q\<lparr>q_items := q_items q', q_id_table := (q_id_table q)\<lparr>it_data := it_data (q_id_table q')\<rparr>\<rparr> \<and>
     length (q_items q') = length (q_items q) \<and>
     length (it_data (q_id_table q')) = length (it_data (q_id_table q))"

text \<open>The item at position \<open>p\<close> afterwards was at position \<open>g p\<close> before.\<close>

definition relocated :: "(nat \<Rightarrow> nat) \<Rightarrow> 'song queue \<Rightarrow> 'song queue \<Rightarrow> bool" where
  "relocated g q q' \<longleftrightarrow> same_frame q q' \<and> bij_betw g {..<q_length q} {..<q_length q} \<and>
     (\<forall>p < q_length q. item_key (q_items q' ! p) = item_key (q_items q ! g p) \<and>
        it_data (q_id_table q') ! PositionToId q (g p) = int p) \<and>
     (\<forall>n. n \<notin> PositionToId q ` {..<q_length q} \<longrightarrow> it_data (q_id_table q') ! n = it_data (q_id_table q) ! n)"

lemma same_frame_fields:
  assumes "same_frame q q'"
  shows "q_length q' = q_length q" "q_order q' = q_order q" "q_random q' = q_random q" "q_max_length q' = q_max_length q"
    "it_initialized (q_id_table q') = it_initialized (q_id_table q)" "shape_ok q' = shape_ok q" "q_version q' = q_version q"
proof -
  have q': "q' = q\<lparr>q_items := q_items q', q_id_table := (q_id_table q)\<lparr>it_data := it_data (q_id_table q')\<rparr>\<rparr>"
    and len: "length (q_items q') = length (q_items q)" "length (it_data (q_id_table q')) = length (it_data (q_id_table q))"
    using assms by (simp_all add: same_frame_def)
  show "q_length q' = q_length q" "q_order q' = q_order q" "q_random q' = q_random q" "q_max_length q' = q_max_length q"
    "it_initialized (q_id_table q') = it_initialized (q_id_table q)" "q_version q' = q_version q"
    by (subst q', simp)+
  have "it_size (q_id_table q') = it_size (q_id_table q)" "it_next (q_id_table q') = it_next (q_id_table q)"
    "it_initialized (q_id_table q') = it_initialized (q_id_table q)" "q_length q' = q_length q"
    "q_max_length q' = q_max_length q" "q_order q' = q_order q"
    by (subst q', simp)+
  then show "shape_ok q' = shape_ok q" using len by (simp add: shape_ok_def table_ok_def)
qed

lemma item_key_id: "item_key i = item_key j \<Longrightarrow> i_id i = i_id j"
  by (simp add: item_key_def)

lemma relocated_linked:
  assumes "relocated g q q'" "linked_ids q"
  shows "linked_ids q'"
proof -
  note frame = same_frame_fields [of q q']
  have R: "same_frame q q'" "bij_betw g {..<q_length q} {..<q_length q}"
    using assms(1) by (simp_all add: relocated_def)
  have sid: "PositionToId q' p = PositionToId q (g p)" "it_data (q_id_table q') ! PositionToId q (g p) = int p"
    if "p < q_length q" for p
    using assms(1) that item_key_id unfolding relocated_def PositionToId_def by blast+
  have g: "g p < q_length q" if "p < q_length q" for p using R(2) that bij_betwE by fastforce
  show ?thesis
    unfolding linked_ids_def frame [OF R(1)]
  proof (intro conjI allI impI)
    fix p assume p: "p < q_length q"
    show "0 < PositionToId q' p" "PositionToId q' p < it_initialized (q_id_table q)"
      "it_data (q_id_table q') ! PositionToId q' p = int p"
      using linked_idsD [OF assms(2) g [OF p]] sid [OF p] by simp_all
  next
    fix n assume n: "0 < n \<and> n < it_initialized (q_id_table q) \<and> 0 \<le> it_data (q_id_table q') ! n"
    have "n \<in> PositionToId q ` {..<q_length q}"
    proof (rule ccontr)
      assume out: "n \<notin> PositionToId q ` {..<q_length q}"
      then have "0 \<le> it_data (q_id_table q) ! n" using assms(1) n by (simp add: relocated_def)
      then show False using assms(2) n out unfolding linked_ids_def by blast
    qed
    then obtain p where p: "p < q_length q" "PositionToId q p = n" by auto
    then obtain p' where "p' < q_length q" "g p' = p" using R(2) by (metis bij_betw_iff_bijections lessThan_iff)
    then show "\<exists>p < q_length q. PositionToId q' p = n" using sid p by auto
  qed
qed

lemma relocated_contents:
  assumes "relocated g q q'" "shape_ok q"
  shows "contents q' = map (\<lambda>p. contents q ! g p) [0..<q_length q]"
proof (rule nth_equalityI)
  have R: "same_frame q q'" "bij_betw g {..<q_length q} {..<q_length q}"
    using assms(1) by (simp_all add: relocated_def)
  have len: "q_length q \<le> length (q_items q)" using assms(2) by (simp add: shape_ok_def)
  have len': "q_length q' = q_length q" "length (q_items q') = length (q_items q)"
    using same_frame_fields(1) [OF R(1)] R(1) by (simp_all add: same_frame_def)
  show "length (contents q') = length (map (\<lambda>p. contents q ! g p) [0..<q_length q])"
    using len len' by (simp add: contents_def)
  fix p assume "p < length (contents q')"
  then have p: "p < q_length q" by (simp add: contents_def len')
  then have "g p < q_length q" using R(2) bij_betwE by fastforce
  then show "contents q' ! p = map (\<lambda>p. contents q ! g p) [0..<q_length q] ! p"
    using assms(1) p len by (simp add: contents_def len' relocated_def)
qed

subsection \<open>Sequences of moves\<close>

abbreviation moves :: "(nat \<times> nat) list \<Rightarrow> 'song queue \<Rightarrow> 'song queue" where
  "moves ms \<equiv> fold (\<lambda>(a, b). MoveItemTo a b) ms"

text \<open>Storing items that were saved before: \<open>q0\<close> is the queue at that time.\<close>

abbreviation puts :: "'song queue \<Rightarrow> (nat \<times> nat) list \<Rightarrow> 'song queue \<Rightarrow> 'song queue" where
  "puts q0 ms \<equiv> fold (\<lambda>(a, b). put_item (q_items q0 ! a) b) ms"

text \<open>No position is written before it is read, and none twice.\<close>

abbreviation safe_moves :: "(nat \<times> nat) list \<Rightarrow> bool" where
  "safe_moves \<equiv> sorted_wrt (\<lambda>x y. fst y \<noteq> snd x)"

lemma safe_moves_puts:
  "\<lbrakk>safe_moves ms; \<forall>(a, b) \<in> set ms. q_items q ! a = q_items q0 ! a\<rbrakk> \<Longrightarrow> moves ms q = puts q0 ms q"
proof (induction ms arbitrary: q)
  case (Cons m ms)
  obtain a b where m: "m = (a, b)" by (cases m)
  have "q_items (MoveItemTo a b q) ! c = q_items q ! c" if "c \<noteq> b" for c
    using that by (simp add: MoveItemTo_def put_item_def)
  moreover have "\<forall>(c, _) \<in> set ms. c \<noteq> b" using Cons.prems(1) by (force simp: m)
  ultimately have "moves ms (MoveItemTo a b q) = puts q0 ms (MoveItemTo a b q)"
    using Cons.prems by (intro Cons.IH) (fastforce simp: m)+
  moreover have "MoveItemTo a b q = put_item (q_items q0 ! a) b q" using Cons.prems(2) by (simp add: m MoveItemTo_def)
  ultimately show ?case by (simp add: m)
qed simp

lemma puts_frame: "same_frame q (puts q0 ms q)"
proof (induction ms rule: rev_induct)
  case (snoc m ms)
  obtain a b where m: "m = (a, b)" by (cases m)
  have *: "same_frame q (put_item i b q')" if "same_frame q q'" for i q'
  proof -
    have q': "q' = q\<lparr>q_items := q_items q', q_id_table := (q_id_table q)\<lparr>it_data := it_data (q_id_table q')\<rparr>\<rparr>"
      and len: "length (q_items q') = length (q_items q)" "length (it_data (q_id_table q')) = length (it_data (q_id_table q))"
      using that by (simp_all add: same_frame_def)
    show ?thesis unfolding same_frame_def
      by (subst (1) q') (simp add: put_item_def IdTable_Move_def len, subst q', simp)
  qed
  show ?case using * [OF snoc] by (simp add: m)
qed (simp add: same_frame_def)

lemma puts_items:
  "\<lbrakk>distinct (map snd ms); \<forall>(a, b) \<in> set ms. b < length (q_items q)\<rbrakk> \<Longrightarrow>
   item_key (q_items (puts q0 ms q) ! p) =
     (case map_of (map prod.swap ms) p of None \<Rightarrow> item_key (q_items q ! p) | Some a \<Rightarrow> item_key (q_items q0 ! a))"
proof (induction ms arbitrary: q)
  case (Cons m ms)
  obtain a b where m: "m = (a, b)" by (cases m)
  have "map_of (map prod.swap ms) b = None" using Cons.prems(1) by (force simp: m map_of_eq_None_iff)
  with Cons show ?case
    by (auto simp: m put_item_def item_key_def nth_list_update split: option.split)
qed simp

lemma puts_data_other:
  "n \<notin> (\<lambda>(a, _). i_id (q_items q0 ! a)) ` set ms \<Longrightarrow>
   it_data (q_id_table (puts q0 ms q)) ! n = it_data (q_id_table q) ! n"
  by (induction ms arbitrary: q) (auto simp: put_item_def IdTable_Move_def)

lemma puts_data:
  "\<lbrakk>distinct (map (\<lambda>(a, _). i_id (q_items q0 ! a)) ms);
    \<forall>(a, _) \<in> set ms. i_id (q_items q0 ! a) < length (it_data (q_id_table q)); (a, b) \<in> set ms\<rbrakk> \<Longrightarrow>
   it_data (q_id_table (puts q0 ms q)) ! i_id (q_items q0 ! a) = int b"
proof (induction ms arbitrary: q)
  case (Cons m ms)
  obtain c d where m: "m = (c, d)" by (cases m)
  let ?q = "put_item (q_items q0 ! c) d q"
  show ?case
  proof (cases "(a, b) \<in> set ms")
    case True
    then show ?thesis
      using Cons.prems by (simp add: m, intro Cons.IH) (auto simp: put_item_def IdTable_Move_def)
  next
    case False
    then have "a = c" "b = d" using Cons.prems(3) by (auto simp: m)
    moreover have "i_id (q_items q0 ! c) \<notin> (\<lambda>(a, _). i_id (q_items q0 ! a)) ` set ms"
      using Cons.prems(1) by (simp add: m)
    moreover have "it_data (q_id_table ?q) ! i_id (q_items q0 ! c) = int d"
      using Cons.prems(2) by (simp add: m put_item_def IdTable_Move_def)
    ultimately show ?thesis
      using puts_data_other [of "i_id (q_items q0 ! c)" q0 ms ?q] by (simp add: m)
  qed
qed simp

text \<open>Items move along a list of pairs whose sources and destinations are the same positions.\<close>

definition source_of :: "(nat \<times> nat) list \<Rightarrow> nat \<Rightarrow> nat" where
  "source_of ms p = (case map_of (map prod.swap ms) p of None \<Rightarrow> p | Some a \<Rightarrow> a)"

lemma source_of_in: "\<lbrakk>distinct (map snd ms); (a, b) \<in> set ms\<rbrakk> \<Longrightarrow> source_of ms b = a"
  by (simp add: source_of_def map_of_eq_Some_iff comp_def rev_image_eqI flip: image_image)

lemma source_of_out: "p \<notin> snd ` set ms \<Longrightarrow> source_of ms p = p"
  by (force simp: source_of_def split: option.split dest!: map_of_SomeD)

lemma bij_source_of:
  assumes "distinct (map fst ms)" "distinct (map snd ms)" "fst ` set ms = snd ` set ms" "snd ` set ms \<subseteq> {..<n}"
  shows "bij_betw (source_of ms) {..<n} {..<n}"
proof -
  let ?g = "source_of ms"
  have into: "?g p < n" if "p < n" for p
    using that assms(2-4) by (cases "p \<in> snd ` set ms") (force simp: source_of_in source_of_out)+
  have moved: "(?g p, p) \<in> set ms" if "p \<in> snd ` set ms" for p
    using that assms(2) by (force simp: source_of_in)
  have "inj_on ?g {..<n}"
  proof (rule inj_onI)
    fix p p' assume eq: "?g p = ?g p'"
    have same: "p \<in> snd ` set ms \<longleftrightarrow> ?g p \<in> snd ` set ms" for p
      using moved [of p] source_of_out [of p ms] assms(3) by force
    show "p = p'"
    proof (cases "p \<in> snd ` set ms")
      case True
      then have "(?g p, p) \<in> set ms" "(?g p, p') \<in> set ms" using moved same eq by metis+
      then show ?thesis using assms(1) by (metis eq_key_imp_eq_value)
    next
      case False
      then show ?thesis using same eq source_of_out by metis
    qed
  qed
  moreover have "?g ` {..<n} \<subseteq> {..<n}" using into by auto
  ultimately show ?thesis by (simp add: bij_betw_def endo_inj_surj)
qed

lemma relocated_puts:
  assumes "shape_ok q" "linked_ids q" "distinct (map fst ms)" "distinct (map snd ms)"
    "fst ` set ms = snd ` set ms" "snd ` set ms \<subseteq> {..<q_length q}"
  shows "relocated (source_of ms) q (puts q ms q)"
proof -
  let ?g = "source_of ms"
  have len: "q_length q \<le> length (q_items q)" using assms(1) by (simp add: shape_ok_def)
  have src: "a < q_length q" if "(a, b) \<in> set ms" for a b using that assms(5,6) by force
  have key: "\<forall>(a, b) \<in> set ms. b < length (q_items q)" using assms(6) len by force
  have "inj_on (PositionToId q) {..<q_length q}" using ids_distinct [OF assms(2)] by (auto intro: inj_onI)
  then have "inj_on (PositionToId q) (set (map fst ms))" by (rule inj_on_subset) (use src in auto)
  then have "distinct (map (PositionToId q) (map fst ms))"
    using assms(3) distinct_map [of "PositionToId q" "map fst ms"] by blast
  then have dist: "distinct (map (\<lambda>(a, _). i_id (q_items q ! a)) ms)"
    by (simp add: PositionToId_def comp_def split_def)
  have range: "\<forall>(a, _) \<in> set ms. i_id (q_items q ! a) < length (it_data (q_id_table q))"
    using id_in_range [OF assms(1,2)] src by (force simp: PositionToId_def)
  have bij: "bij_betw ?g {..<q_length q} {..<q_length q}" by (rule bij_source_of [OF assms(3-6)])
  have moved: "item_key (q_items (puts q ms q) ! p) = item_key (q_items q ! ?g p)" for p
    using puts_items [OF assms(4) key, of q p] by (simp add: source_of_def split: option.splits)
  have data: "it_data (q_id_table (puts q ms q)) ! PositionToId q (?g p) = int p" if p: "p < q_length q" for p
  proof (cases "p \<in> snd ` set ms")
    case True
    then have "(?g p, p) \<in> set ms" using assms(4) by (force simp: source_of_in)
    then show ?thesis using puts_data [OF dist range] by (simp add: PositionToId_def)
  next
    case False
    then have "p \<notin> fst ` set ms" using assms(5) by simp
    then have "PositionToId q p \<notin> (\<lambda>(a, _). i_id (q_items q ! a)) ` set ms"
      using ids_distinct [OF assms(2) p] src by (force simp: PositionToId_def)
    then have "it_data (q_id_table (puts q ms q)) ! PositionToId q p = it_data (q_id_table q) ! PositionToId q p"
      by (rule puts_data_other)
    then show ?thesis using linked_idsD(3) [OF assms(2) p] False by (simp add: source_of_out)
  qed
  have "it_data (q_id_table (puts q ms q)) ! n = it_data (q_id_table q) ! n" if "n \<notin> PositionToId q ` {..<q_length q}" for n
    using that src by (intro puts_data_other) (force simp: PositionToId_def)
  with bij moved data puts_frame show ?thesis by (simp add: relocated_def)
qed

subsection \<open>The play order after a move\<close>

text \<open>\<open>f\<close> tells where the item of a position goes: the order array is mapped with it.\<close>

lemma source_of_inverse:
  assumes "distinct (map snd ms)" "fst ` set ms = snd ` set ms"
    "\<And>a b. (a, b) \<in> set ms \<Longrightarrow> b = f a" "p \<notin> fst ` set ms \<Longrightarrow> f p = p"
  shows "source_of ms (f p) = p"
proof (cases "p \<in> fst ` set ms")
  case True
  then have "(p, f p) \<in> set ms" using assms(3) by force
  then show ?thesis using assms(1) by (simp add: source_of_in)
next
  case False
  then show ?thesis using assms(2,4) by (simp add: source_of_out)
qed

lemma mset_map_inverse:
  assumes "mset xs = mset [0..<n]" "bij_betw g {..<n} {..<n}" "\<And>p. p < n \<Longrightarrow> f p < n \<and> g (f p) = p"
  shows "mset (map f xs) = mset [0..<n]"
proof -
  have "inj_on f {..<n}" using assms(3) by (metis inj_on_inverseI lessThan_iff)
  moreover have "f ` {..<n} \<subseteq> {..<n}" using assms(3) by auto
  ultimately have "distinct (map f [0..<n])" "f ` {..<n} = {..<n}"
    by (simp_all add: distinct_map atLeast0LessThan endo_inj_surj)
  then have "mset (map f [0..<n]) = mset [0..<n]"
    by (intro set_eq_iff_mset_eq_distinct [THEN iffD1]) (simp_all add: atLeast0LessThan)
  then show ?thesis using assms(1) by (metis mset_map)
qed

lemma active_order_bound: "\<lbrakk>order_ok q; p \<in> set (active_order q)\<rbrakk> \<Longrightarrow> p < q_length q"
  by (metis order_ok_def atLeastLessThan_iff set_mset_mset set_upt)

text \<open>The songs in the order in which they are played.\<close>

definition played :: "'song queue \<Rightarrow> ('song \<times> nat \<times> 8 word) list" where
  "played q = map (\<lambda>p. item_key (q_items q ! p)) (active_order q)"

text \<open>
  A move of items: they are relocated, and in random mode the order array follows so that the
  songs are played in the same order as before.
\<close>

definition reordered :: "(nat \<Rightarrow> nat) \<Rightarrow> 'song queue \<Rightarrow> 'song queue" where
  "reordered f q = (if q_random q then q\<lparr>q_order := for_prefix (q_length q) f (q_order q)\<rparr> else q)"

lemma relocated_queue_ok:
  assumes q: "queue_ok q" and rel: "relocated g q q'" and f: "\<And>p. p < q_length q \<Longrightarrow> f p < q_length q \<and> g (f p) = p"
  shows "queue_ok (reordered f q')"
    and "q_random q \<Longrightarrow> played (reordered f q') = played q"
proof -
  have frame: "same_frame q q'" and bij: "bij_betw g {..<q_length q} {..<q_length q}"
    using rel by (simp_all add: relocated_def)
  note fields = same_frame_fields [OF frame]
  have order: "take (q_length q) (q_order (reordered f q')) = (if q_random q then map f (active_order q) else active_order q)"
    using q by (auto simp: reordered_def fields for_prefix_def queue_ok_def shape_ok_def)
  have same: "q_length (reordered f q') = q_length q" "q_random (reordered f q') = q_random q"
    "q_items (reordered f q') = q_items q'" "q_id_table (reordered f q') = q_id_table q'"
    "q_max_length (reordered f q') = q_max_length q" "length (q_order (reordered f q')) = length (q_order q)"
    by (simp_all add: reordered_def fields for_prefix_def min_def)
  have "linked_ids q'" using relocated_linked [OF rel] q by (simp add: queue_ok_def)
  then have "linked_ids (reordered f q')" by (simp add: linked_ids_def same fields PositionToId_def)
  moreover have "shape_ok (reordered f q')"
    using q fields(6) by (simp add: queue_ok_def shape_ok_def same fields)
  moreover have "order_ok (reordered f q')"
    using q mset_map_inverse [of "active_order q" "q_length q" g f, OF _ bij f]
    by (simp add: queue_ok_def order_ok_def order same)
  ultimately show "queue_ok (reordered f q')" by (simp add: queue_ok_def)
  assume "q_random q"
  moreover have "item_key (q_items q' ! f p) = item_key (q_items q ! p)" if "p \<in> set (active_order q)" for p
    using rel f [of p] active_order_bound [of q p] that q by (auto simp: relocated_def queue_ok_def)
  ultimately show "played (reordered f q') = played q" by (simp add: played_def order same)
qed

subsection \<open>MovePostion\<close>

lemma safe_moves_up:
  "(\<And>i j. \<lbrakk>a \<le> i; i < j; j < b\<rbrakk> \<Longrightarrow> s j \<noteq> d i) \<Longrightarrow> safe_moves (map (\<lambda>i. (s i, d i)) [a..<b])"
  unfolding sorted_wrt_map by (rule sorted_wrt_mono_rel [OF _ sorted_wrt_upt]) auto

lemma safe_moves_down:
  "(\<And>i j. \<lbrakk>a \<le> i; i < j; j < b\<rbrakk> \<Longrightarrow> s i \<noteq> d j) \<Longrightarrow> safe_moves (map (\<lambda>i. (s i, d i)) (rev [a..<b]))"
  unfolding sorted_wrt_map sorted_wrt_rev by (rule sorted_wrt_mono_rel [OF _ sorted_wrt_upt]) auto

abbreviation move_pairs :: "nat \<Rightarrow> nat \<Rightarrow> (nat \<times> nat) list" where
  "move_pairs from to \<equiv>
     (if from \<le> to then map (\<lambda>i. (i + 1, i)) [from..<to] else map (\<lambda>i. (i - 1, i)) (rev [to + 1..<from + 1]))"

lemma move_pairs_set:
  "(a, b) \<in> set (move_pairs from to @ [(from, to)]) \<longleftrightarrow>
   b = move_order_value from to a \<and> min from to \<le> a \<and> a \<le> max from to"
  by (auto simp: move_order_value_def image_iff)

lemma MovePostion_puts: "MovePostion from to q = reordered (move_order_value from to) (puts q (move_pairs from to @ [(from, to)]) q)"
proof -
  have "safe_moves (move_pairs from to)"
    by (auto intro!: safe_moves_up safe_moves_down)
  then have "moves (move_pairs from to) q = puts q (move_pairs from to) q" by (rule safe_moves_puts) auto
  moreover have "fold (\<lambda>i. MoveItemTo (i - 1) i) (rev [to + 1..<from + 1]) (fold (\<lambda>i. MoveItemTo (i + 1) i) [from..<to] q) =
      moves (move_pairs from to) q"
    by (cases "from \<le> to") (simp_all add: fold_map comp_def)
  moreover have "same_frame q (puts q (move_pairs from to @ [(from, to)]) q)" by (rule puts_frame)
  ultimately show ?thesis by (simp add: MovePostion_def reordered_def same_frame_fields Let_def)
qed

lemma length_contents [simp]: "shape_ok q \<Longrightarrow> length (contents q) = q_length q"
  by (simp add: contents_def shape_ok_def)

lemma contents_reordered [simp]: "contents (reordered f q) = contents q"
  by (simp add: contents_def reordered_def)

lemma relocated_contents_eq:
  assumes rel: "relocated g q q'" and "shape_ok q" and f: "\<And>p. p < q_length q \<Longrightarrow> g (f p) = p"
    and f_less: "\<And>p. p < q_length q \<Longrightarrow> f p < q_length q"
    and ys: "length ys = q_length q" "\<And>p. p < q_length q \<Longrightarrow> ys ! f p = contents q ! p"
  shows "contents q' = ys"
proof (rule nth_equalityI)
  have bij: "bij_betw g {..<q_length q} {..<q_length q}" using rel by (simp add: relocated_def)
  note eq = relocated_contents [OF assms(1,2)]
  show "length (contents q') = length ys" by (simp add: eq ys)
  fix p assume "p < length (contents q')"
  then have p: "p < q_length q" by (simp add: eq)
  then have g: "g p < q_length q" using bij bij_betwE by fastforce
  have "f (g p) = p" using f [OF g] f_less [OF g] p bij by (metis bij_betw_def inj_onD lessThan_iff)
  then show "contents q' ! p = ys ! p" using ys(2) [OF g] p by (simp add: eq)
qed

text \<open>Everything a move of items guarantees, for the function \<open>f\<close> that says where they go.\<close>

lemma queue_move:
  assumes q: "queue_ok q" and "distinct (map fst ms)" "distinct (map snd ms)" "fst ` set ms = snd ` set ms"
    "snd ` set ms \<subseteq> {..<q_length q}" and pairs: "\<And>a b. (a, b) \<in> set ms \<Longrightarrow> b = f a"
    and fixed: "\<And>p. \<lbrakk>p < q_length q; p \<notin> fst ` set ms\<rbrakk> \<Longrightarrow> f p = p"
  shows "queue_ok (reordered f (puts q ms q))"
    and "q_random q \<Longrightarrow> played (reordered f (puts q ms q)) = played q"
    and "\<lbrakk>length ys = q_length q; \<And>p. p < q_length q \<Longrightarrow> ys ! f p = contents q ! p\<rbrakk> \<Longrightarrow>
      contents (reordered f (puts q ms q)) = ys"
proof -
  have shape: "shape_ok q" "linked_ids q" using q by (simp_all add: queue_ok_def)
  have rel: "relocated (source_of ms) q (puts q ms q)" by (rule relocated_puts [OF shape assms(2-5)])
  have inv: "source_of ms (f p) = p" if "p < q_length q" for p
    by (rule source_of_inverse [OF assms(3,4) pairs]) (use fixed that in auto)
  have less: "f p < q_length q" if "p < q_length q" for p
  proof (cases "p \<in> fst ` set ms")
    case True
    then show ?thesis using pairs assms(5) by force
  qed (use fixed that in simp)
  show "queue_ok (reordered f (puts q ms q))" "q_random q \<Longrightarrow> played (reordered f (puts q ms q)) = played q"
    by (rule relocated_queue_ok [OF q rel]; use inv less in blast)+
  show "contents (reordered f (puts q ms q)) = ys"
    if "length ys = q_length q" "\<And>p. p < q_length q \<Longrightarrow> ys ! f p = contents q ! p"
    using relocated_contents_eq [OF rel shape(1) inv less] that by simp
qed

definition move_elem :: "nat \<Rightarrow> nat \<Rightarrow> 'a list \<Rightarrow> 'a list" where
  "move_elem from to xs = (let rest = take from xs @ drop (from + 1) xs in take to rest @ xs ! from # drop to rest)"

lemma length_move_elem: "from < length xs \<Longrightarrow> length (move_elem from to xs) = length xs"
  by (auto simp: move_elem_def Let_def)

lemma drop_one_nth:
  "\<lbrakk>from < length xs; k < length xs - 1\<rbrakk> \<Longrightarrow>
   (take from xs @ drop (from + 1) xs) ! k = (if k < from then xs ! k else xs ! (k + 1))"
  by (simp add: nth_append)

lemma insert_at_nth:
  "\<lbrakk>to \<le> length ys; k \<le> length ys\<rbrakk> \<Longrightarrow>
   (take to ys @ x # drop to ys) ! k = (if k < to then ys ! k else if k = to then x else ys ! (k - 1))"
  by (auto simp: nth_append nth_Cons')

lemma move_elem_nth:
  assumes "from < length xs" "to < length xs" "p < length xs"
  shows "move_elem from to xs ! move_order_value from to p = xs ! p"
proof -
  let ?rest = "take from xs @ drop (from + 1) xs" and ?k = "move_order_value from to p"
  have k: "?k < length xs" using assms by (auto simp: move_order_value_def)
  have len: "length ?rest = length xs - 1" using assms(1) by simp
  have "move_elem from to xs ! ?k =
      (if ?k < to then ?rest ! ?k else if ?k = to then xs ! from else ?rest ! (?k - 1))"
    unfolding move_elem_def Let_def by (rule insert_at_nth) (use len k assms in linarith)+
  also have "\<dots> = xs ! p"
    using drop_one_nth [OF assms(1), of ?k] drop_one_nth [OF assms(1), of "?k - 1"] k assms
    by (auto simp: move_order_value_def split: if_splits)
  finally show ?thesis .
qed

lemma image_pred_interval: "(\<lambda>i. i - Suc 0) ` {Suc a..<Suc b} = {a..<b}"
  by (simp flip: image_Suc_atLeastLessThan add: image_image)

lemma move_pairs_facts:
  assumes "from < n" "to < n"
  defines "ms \<equiv> move_pairs from to @ [(from, to)]"
  shows "distinct (map fst ms)" "distinct (map snd ms)" "fst ` set ms = snd ` set ms" "snd ` set ms \<subseteq> {..<n}"
    "\<And>a b. (a, b) \<in> set ms \<Longrightarrow> b = move_order_value from to a"
    "\<And>p. p \<notin> fst ` set ms \<Longrightarrow> move_order_value from to p = p"
proof -
  show "distinct (map fst ms)" "distinct (map snd ms)"
    by (auto simp: ms_def comp_def distinct_map inj_on_def)
  show pairs: "\<And>a b. (a, b) \<in> set ms \<Longrightarrow> b = move_order_value from to a"
    unfolding ms_def move_pairs_set by simp
  have fst: "fst ` set ms = {min from to..max from to}" and snd: "snd ` set ms = {min from to..max from to}"
    by (auto simp: ms_def image_image image_pred_interval simp del: upt_Suc)
  show "fst ` set ms = snd ` set ms" by (simp add: fst snd)
  show "snd ` set ms \<subseteq> {..<n}" using assms by (auto simp: ms_def)
  show "\<And>p. p \<notin> fst ` set ms \<Longrightarrow> move_order_value from to p = p"
    unfolding fst by (auto simp: move_order_value_def min_def max_def split: if_splits)
qed

lemma MovePostion_correct:
  assumes "queue_ok q" "from < q_length q" "to < q_length q"
  shows "queue_ok (MovePostion from to q)" "contents (MovePostion from to q) = move_elem from to (contents q)"
    "q_random q \<Longrightarrow> played (MovePostion from to q) = played q"
proof -
  note pairs = move_pairs_facts [OF assms(2,3)]
  note move = queue_move [OF assms(1) pairs(1-4)]
  have len: "length (contents q) = q_length q" using assms(1) by (simp add: queue_ok_def)
  show "queue_ok (MovePostion from to q)" unfolding MovePostion_puts by (rule move(1); use pairs(5,6) in blast)
  show "q_random q \<Longrightarrow> played (MovePostion from to q) = played q"
    unfolding MovePostion_puts by (rule move(2); use pairs(5,6) in blast)
  show "contents (MovePostion from to q) = move_elem from to (contents q)"
    unfolding MovePostion_puts by (rule move(3); use pairs(5,6) len assms in \<open>simp add: move_elem_nth length_move_elem\<close>)
qed

subsection \<open>MoveRange\<close>

definition move_block :: "nat \<Rightarrow> nat \<Rightarrow> nat \<Rightarrow> 'a list \<Rightarrow> 'a list" where
  "move_block start end to xs =
     (let block = take (end - start) (drop start xs); rest = take start xs @ drop end xs
      in take to rest @ block @ drop to rest)"

abbreviation gap_pairs :: "nat \<Rightarrow> nat \<Rightarrow> nat \<Rightarrow> (nat \<times> nat) list" where
  "gap_pairs start end to \<equiv>
     (if start \<le> to then map (\<lambda>i. (i, start + i - end)) [end..<end + to - start]
      else map (\<lambda>i. (i, i + end - start)) (rev [to..<start]))"

abbreviation block_pairs :: "nat \<Rightarrow> nat \<Rightarrow> nat \<Rightarrow> (nat \<times> nat) list" where
  "block_pairs start end to \<equiv> map (\<lambda>i. (i, to + i - start)) [start..<end]"

lemma MoveRange_puts:
  assumes "start \<le> end"
  shows "MoveRange start end to q =
    reordered (range_order_value start end to) (puts q (gap_pairs start end to @ block_pairs start end to) q)"
proof -
  have "safe_moves (gap_pairs start end to)"
    using assms by (auto intro!: safe_moves_up safe_moves_down)
  then have "moves (gap_pairs start end to) q = puts q (gap_pairs start end to) q" by (rule safe_moves_puts) auto
  moreover have "fold (\<lambda>i. MoveItemTo i (i + end - start)) (rev [to..<start])
      (fold (\<lambda>i. MoveItemTo i (start + i - end)) [end..<end + to - start] q) = moves (gap_pairs start end to) q"
    using assms by (cases "start \<le> to") (simp_all add: fold_map comp_def)
  moreover have "fold (\<lambda>i. put_item (map ((!) (q_items q)) [start..<end] ! (i - start)) (to + i - start)) [start..<end] r =
      puts q (block_pairs start end to) r" for r
    by (auto simp: fold_map comp_def intro!: fold_cong)
  moreover have "same_frame q (puts q (gap_pairs start end to @ block_pairs start end to) q)" by (rule puts_frame)
  ultimately show ?thesis by (simp add: MoveRange_def reordered_def same_frame_fields Let_def)
qed

lemma image_inverse: "\<lbrakk>\<And>i. i \<in> A \<Longrightarrow> f i \<in> B; \<And>x. x \<in> B \<Longrightarrow> h x \<in> A \<and> f (h x) = x\<rbrakk> \<Longrightarrow> f ` A = B"
  by (intro equalityI subsetI) (blast, metis image_eqI)

lemma image_shift_down: "\<lbrakk>s \<le> e; e \<le> b\<rbrakk> \<Longrightarrow> (\<lambda>i. s + i - e) ` {e..<b} = {s..<s + b - e}" for s :: nat
  by (rule image_inverse [where h = "\<lambda>x. x + e - s"]; simp; linarith)

lemma image_shift_up: "s \<le> e \<Longrightarrow> (\<lambda>i. i + e - s) ` {a..<b} = {a + e - s..<b + e - s}" for s :: nat
proof -
  assume "s \<le> e"
  then obtain d where "e = s + d" by (metis le_iff_add)
  then have "\<And>i. i + e - s = i + d" by simp
  then show ?thesis by (simp add: image_add_atLeastLessThan')
qed

lemma image_shift_to: "(\<lambda>i. t + i - s) ` {s..<e} = {t..<t + (e - s)}" for s :: nat
  by (rule image_inverse [where h = "\<lambda>x. x + s - t"]; simp; linarith)

lemma range_pairs_facts:
  assumes "start \<le> end" "end \<le> n" "to + (end - start) \<le> n"
  defines "ms \<equiv> gap_pairs start end to @ block_pairs start end to"
  shows "distinct (map fst ms)" "distinct (map snd ms)" "fst ` set ms = snd ` set ms" "snd ` set ms \<subseteq> {..<n}"
    "\<And>a b. (a, b) \<in> set ms \<Longrightarrow> b = range_order_value start end to a"
    "\<And>p. p \<notin> fst ` set ms \<Longrightarrow> range_order_value start end to p = p"
proof -
  show "distinct (map fst ms)" "distinct (map snd ms)"
    using assms(1) by (auto simp: ms_def comp_def distinct_map inj_on_def)
  show "\<And>a b. (a, b) \<in> set ms \<Longrightarrow> b = range_order_value start end to a"
    using assms(1) by (auto simp: ms_def range_order_value_def split: if_splits)
  have fst: "fst ` set ms = {min start to..<max end (to + (end - start))}"
    using assms(1) by (auto simp: ms_def image_image image_Un)
  have snd: "snd ` set ms = {min start to..<max end (to + (end - start))}"
    using assms(1)
    by (auto simp: ms_def image_image image_Un image_shift_down image_shift_up image_shift_to)
  show "fst ` set ms = snd ` set ms" by (simp add: fst snd)
  show "snd ` set ms \<subseteq> {..<n}" unfolding snd using assms by auto
  show "\<And>p. p \<notin> fst ` set ms \<Longrightarrow> range_order_value start end to p = p"
    unfolding fst using assms(1) by (auto simp: range_order_value_def)
qed

lemma length_move_block:
  "\<lbrakk>start \<le> end; end \<le> length xs\<rbrakk> \<Longrightarrow> length (move_block start end to xs) = length xs"
  by (simp add: move_block_def Let_def)

lemma drop_block_nth:
  "\<lbrakk>start \<le> end; end \<le> length xs; k < length xs - (end - start)\<rbrakk> \<Longrightarrow>
   (take start xs @ drop end xs) ! k = (if k < start then xs ! k else xs ! (k + (end - start)))"
  by (auto simp: nth_append add.commute)

lemma insert_block_nth:
  "\<lbrakk>to \<le> length ys; k < length ys + length bs\<rbrakk> \<Longrightarrow>
   (take to ys @ bs @ drop to ys) ! k =
     (if k < to then ys ! k else if k < to + length bs then bs ! (k - to) else ys ! (k - length bs))"
  by (auto simp: nth_append)

lemma move_block_nth:
  assumes "start \<le> end" "end \<le> length xs" "to + (end - start) \<le> length xs" "p < length xs"
  shows "move_block start end to xs ! range_order_value start end to p = xs ! p"
proof -
  let ?rest = "take start xs @ drop end xs" and ?k = "range_order_value start end to p"
  let ?block = "take (end - start) (drop start xs)" and ?w = "end - start"
  have k: "?k < length xs" using assms by (auto simp: range_order_value_def)
  have len: "length ?rest = length xs - ?w" "length ?block = ?w" using assms by simp_all
  have "move_block start end to xs ! ?k =
      (if ?k < to then ?rest ! ?k else if ?k < to + length ?block then ?block ! (?k - to) else ?rest ! (?k - length ?block))"
    unfolding move_block_def Let_def by (rule insert_block_nth) (use len k assms in linarith)+
  also have "\<dots> = xs ! p"
  proof -
    consider (gap_down) "end \<le> p" "p < to + end - start" | (gap_up) "p < start" "to \<le> p"
      | (block) "start \<le> p" "p < end" | (before) "p < start" "p < to" | (behind) "end \<le> p" "to + ?w \<le> p"
      using assms(1) by linarith
    then show ?thesis
    proof cases
      case gap_down
      then have k': "?k = p - ?w" by (simp add: range_order_value_def)
      have c: "?k < to" "?k < length xs - ?w" "\<not> ?k < start" "?k + ?w = p"
        using k' gap_down assms by linarith+
      show ?thesis by (simp only: c(1) if_True drop_block_nth [OF assms(1,2) c(2)] c(3,4) if_False)
    next
      case gap_up
      then have k': "?k = p + ?w" using assms(1) by (simp add: range_order_value_def)
      have c: "\<not> ?k < to" "\<not> ?k < to + ?w" "?k - ?w = p" "p < length xs - ?w" "p < start"
        using k' gap_up assms by linarith+
      show ?thesis by (simp only: len(2) c(1,2,3,5) if_False if_True drop_block_nth [OF assms(1,2) c(4)])
    next
      case block
      then have k': "?k = to + (p - start)" by (simp add: range_order_value_def)
      have c: "\<not> ?k < to" "?k < to + ?w" "?k - to = p - start" using k' block by linarith+
      have "?block ! (p - start) = xs ! p" using block assms(2) by simp
      then show ?thesis by (simp only: len(2) c if_False if_True)
    next
      case before
      then have k': "?k = p" using assms(1) by (simp add: range_order_value_def)
      have c: "p < to" "p < length xs - ?w" "p < start" using before assms by linarith+
      show ?thesis by (simp only: k' c(1,3) if_True drop_block_nth [OF assms(1,2) c(2)])
    next
      case behind
      then have k': "?k = p" using assms(1) by (simp add: range_order_value_def)
      have c: "\<not> p < to" "\<not> p < to + ?w" "p - ?w < length xs - ?w" "\<not> p - ?w < start" "p - ?w + ?w = p"
        using behind assms by linarith+
      show ?thesis by (simp only: k' len(2) c(1,2,4,5) if_False drop_block_nth [OF assms(1,2) c(3)])
    qed
  qed
  finally show ?thesis .
qed

lemma MoveRange_correct:
  assumes "queue_ok q" "start \<le> end" "end \<le> q_length q" "to + (end - start) \<le> q_length q"
  shows "queue_ok (MoveRange start end to q)" "contents (MoveRange start end to q) = move_block start end to (contents q)"
    "q_random q \<Longrightarrow> played (MoveRange start end to q) = played q"
proof -
  note pairs = range_pairs_facts [OF assms(2-4)]
  note move = queue_move [OF assms(1) pairs(1-4)]
  have len: "length (contents q) = q_length q" using assms(1) by (simp add: queue_ok_def)
  show "queue_ok (MoveRange start end to q)"
    unfolding MoveRange_puts [OF assms(2)] by (rule move(1); use pairs(5,6) in blast)
  show "q_random q \<Longrightarrow> played (MoveRange start end to q) = played q"
    unfolding MoveRange_puts [OF assms(2)] by (rule move(2); use pairs(5,6) in blast)
  show "contents (MoveRange start end to q) = move_block start end to (contents q)"
    unfolding MoveRange_puts [OF assms(2)] by (rule move(3); use pairs(5,6) len assms in \<open>simp add: move_block_nth length_move_block\<close>)
qed

subsection \<open>SwapPositions\<close>

lemma relocated_same_order:
  assumes "queue_ok q" "relocated g q q'"
  shows "queue_ok q'"
proof -
  have frame: "same_frame q q'" using assms(2) by (simp add: relocated_def)
  show ?thesis
    using assms relocated_linked [OF assms(2)] same_frame_fields [OF frame]
    by (simp add: queue_ok_def order_ok_def)
qed

abbreviation swap_pairs :: "nat \<Rightarrow> nat \<Rightarrow> (nat \<times> nat) list" where
  "swap_pairs i j \<equiv> (if i = j then [(i, i)] else [(i, j), (j, i)])"

lemma SwapPositions_puts: "SwapPositions i j q = puts q (swap_pairs i j) q"
  by (simp add: SwapPositions_def put_item_def Let_def IdTable_Move_def list_update_swap)

lemma SwapPositions_correct:
  assumes "queue_ok q" "i < q_length q" "j < q_length q"
  shows "queue_ok (SwapPositions i j q)"
    "contents (SwapPositions i j q) = (contents q)[i := contents q ! j, j := contents q ! i]"
proof -
  have rel: "relocated (source_of (swap_pairs i j)) q (SwapPositions i j q)"
    unfolding SwapPositions_puts by (rule relocated_puts) (use assms in \<open>auto simp: queue_ok_def\<close>)
  then show "queue_ok (SwapPositions i j q)" by (rule relocated_same_order [OF assms(1)])
  have shape: "shape_ok q" using assms(1) by (simp add: queue_ok_def)
  show "contents (SwapPositions i j q) = (contents q)[i := contents q ! j, j := contents q ! i]"
    unfolding relocated_contents [OF rel shape]
    by (rule nth_equalityI) (use shape assms in \<open>auto simp: source_of_def nth_list_update\<close>)
qed

end
