(* ===== verification/Queue_Order.thy ===== *)
theory Queue_Order
  imports Queue_Correct
begin

text \<open>
  The play order: the operations that only permute the order array (swapping, moving,
  shuffling, sorting by priority), deletion, which closes the gap in positions and in the
  order, and changing priorities. With them every operation of the queue keeps the invariant.
\<close>

section \<open>Permutations of the order array\<close>

lemma queue_ok_order:
  assumes "queue_ok q" "q_random q" "length ord' = length (q_order q)" "mset (take (q_length q) ord') = mset (active_order q)"
  shows "queue_ok (q\<lparr>q_order := ord'\<rparr>)"
  using assms by (simp add: queue_ok_def shape_ok_def linked_ids_def order_ok_def PositionToId_def)

lemma contents_order [simp]: "contents (q\<lparr>q_order := xs\<rparr>) = contents q"
  by (simp add: contents_def)

lemma order_length: "queue_ok q \<Longrightarrow> q_length q \<le> length (q_order q)"
  by (simp add: queue_ok_def shape_ok_def)

lemma queue_ok_SwapOrders:
  assumes "queue_ok q" "q_random q" "i < q_length q" "j < q_length q"
  shows "queue_ok (SwapOrders i j q)"
  unfolding SwapOrders_def
proof (rule queue_ok_order [OF assms(1,2)])
  have "take (q_length q) ((q_order q)[i := q_order q ! j, j := q_order q ! i]) =
      (active_order q)[i := active_order q ! j, j := active_order q ! i]"
    using assms(3,4) by (simp add: take_update_swap)
  then show "mset (take (q_length q) ((q_order q)[i := q_order q ! j, j := q_order q ! i])) = mset (active_order q)"
    using assms(3,4) order_length [OF assms(1)] mset_swap [of j "active_order q" i] by simp
qed simp

subsection \<open>Shifting elements of an array\<close>

lemma shift_left:
  assumes "b < length xs"
  shows "length (fold (\<lambda>i ys. ys[i := ys ! (i + 1)]) [a..<b] xs) = length xs"
    "p < length xs \<Longrightarrow> fold (\<lambda>i ys. ys[i := ys ! (i + 1)]) [a..<b] xs ! p = (if a \<le> p \<and> p < b then xs ! (p + 1) else xs ! p)"
  using assms by (induction b arbitrary: p) (auto simp: nth_list_update less_Suc_eq)

lemma shift_right:
  assumes "b < length xs"
  shows "length (fold (\<lambda>i ys. ys[i := ys ! (i - 1)]) (rev [a + 1..<b + 1]) xs) = length xs"
    "p < length xs \<Longrightarrow> fold (\<lambda>i ys. ys[i := ys ! (i - 1)]) (rev [a + 1..<b + 1]) xs ! p = (if a < p \<and> p \<le> b then xs ! (p - 1) else xs ! p)"
  using assms
proof (induction b arbitrary: xs)
  case (Suc b)
  {
    case 1
    then show ?case using Suc.IH(1) [of "xs[Suc b := xs ! b]"] by (cases "a \<le> b") auto
  next
    case 2
    then show ?case using Suc.IH(2) [of "xs[Suc b := xs ! b]"]
      by (cases "a \<le> b") (auto simp: nth_list_update)
  }
qed auto

lemma move_elem_nth_conv:
  assumes "from < length xs" "to < length xs" "p < length xs"
  shows "move_elem from to xs ! p =
    (if p = to then xs ! from else if from \<le> p \<and> p < to then xs ! (p + 1)
     else if to < p \<and> p \<le> from then xs ! (p - 1) else xs ! p)"
proof -
  let ?rest = "take from xs @ drop (from + 1) xs"
  have len: "length ?rest = length xs - 1" using assms(1) by simp
  have "move_elem from to xs ! p = (if p < to then ?rest ! p else if p = to then xs ! from else ?rest ! (p - 1))"
    unfolding move_elem_def Let_def by (rule insert_at_nth) (use len assms in linarith)+
  then show ?thesis
    using drop_one_nth [OF assms(1), of p] drop_one_nth [OF assms(1), of "p - 1"] assms by auto
qed

lemma mset_move_elem:
  assumes "from < length xs"
  shows "mset (move_elem from to xs) = mset xs"
proof -
  let ?rest = "take from xs @ drop (from + 1) xs"
  have "mset (take to ?rest @ xs ! from # drop to ?rest) = add_mset (xs ! from) (mset (take to ?rest @ drop to ?rest))" by simp
  also have "\<dots> = add_mset (xs ! from) (mset ?rest)" by (simp only: append_take_drop_id)
  also have "\<dots> = mset (take from xs @ xs ! from # drop (Suc from) xs)" by simp
  also have "\<dots> = mset xs" using id_take_nth_drop [OF assms] by simp
  finally show ?thesis by (simp add: move_elem_def Let_def)
qed

lemma MoveOrder_active:
  assumes "queue_ok q" "from < q_length q" "to < q_length q"
  shows "take (q_length q) (q_order (MoveOrder from to q)) = move_elem from to (active_order q)"
    "length (q_order (MoveOrder from to q)) = length (q_order q)"
proof -
  have n: "from < length (q_order q)" "to < length (q_order q)" "q_length q \<le> length (q_order q)"
    using assms order_length [OF assms(1)] by auto
  define L where "L = fold (\<lambda>i ys. ys[i := ys ! (i + 1)]) [from..<to] (q_order q)"
  define R where "R = fold (\<lambda>i ys. ys[i := ys ! (i - 1)]) (rev [to + 1..<from + 1]) (q_order q)"
  have eq: "q_order (MoveOrder from to q) = (if from < to then L else R)[to := q_order q ! from]"
    by (simp add: MoveOrder_def Let_def OrderToPosition_def L_def R_def)
  have L: "length L = length (q_order q)"
    "\<And>p. p < length (q_order q) \<Longrightarrow> L ! p = (if from \<le> p \<and> p < to then q_order q ! (p + 1) else q_order q ! p)"
    unfolding L_def by (rule shift_left [OF n(2)])+
  have R: "length R = length (q_order q)"
    "\<And>p. p < length (q_order q) \<Longrightarrow> R ! p = (if to < p \<and> p \<le> from then q_order q ! (p - 1) else q_order q ! p)"
    unfolding R_def by (rule shift_right [OF n(1)])+
  show len: "length (q_order (MoveOrder from to q)) = length (q_order q)" by (simp add: eq L R)
  show "take (q_length q) (q_order (MoveOrder from to q)) = move_elem from to (active_order q)"
  proof (rule nth_equalityI)
    have alen: "length (active_order q) = q_length q" using n(3) by simp
    show "length (take (q_length q) (q_order (MoveOrder from to q))) = length (move_elem from to (active_order q))"
      using len n(3) assms(2) by (simp add: length_move_elem)
    fix p assume "p < length (take (q_length q) (q_order (MoveOrder from to q)))"
    then have p: "p < q_length q" by simp
    show "take (q_length q) (q_order (MoveOrder from to q)) ! p = move_elem from to (active_order q) ! p"
      unfolding move_elem_nth_conv [of "from" "active_order q" "to" p, unfolded alen, OF assms(2,3) p] eq
      using p n assms(2,3) by (auto simp: nth_list_update L R)
  qed
qed

lemma MoveOrder_frame: "MoveOrder from to q = q\<lparr>q_order := q_order (MoveOrder from to q)\<rparr>"
  by (simp add: MoveOrder_def Let_def)

lemma queue_ok_MoveOrder:
  assumes "queue_ok q" "q_random q" "from < q_length q" "to < q_length q"
  shows "queue_ok (MoveOrder from to q)"
  by (subst MoveOrder_frame, rule queue_ok_order [OF assms(1,2)])
    (use MoveOrder_active [OF assms(1,3,4)] assms(3) order_length [OF assms(1)] in \<open>simp_all add: mset_move_elem\<close>)

section \<open>Sorting and shuffling\<close>

text \<open>What the code relies on of \<open>std::shuffle\<close> and of a uniform distribution.\<close>

definition shuffler_ok :: "shuffler \<Rightarrow> bool" where
  "shuffler_ok shuffle \<longleftrightarrow> (\<forall>s xs. mset (shuffle s xs) = mset xs)"

definition picker_ok :: "(nat \<Rightarrow> nat \<Rightarrow> nat) \<Rightarrow> bool" where
  "picker_ok pick \<longleftrightarrow> (\<forall>a b. a \<le> b \<longrightarrow> a \<le> pick a b \<and> pick a b \<le> b)"

lemma on_range_split:
  "\<lbrakk>s \<le> e; e \<le> length xs\<rbrakk> \<Longrightarrow> take s xs @ take (e - s) (drop s xs) @ drop e xs = xs"
  by (metis append_take_drop_id drop_drop le_add_diff_inverse2)

lemma on_range_props:
  assumes "s \<le> e" "e \<le> n" "n \<le> length xs" "\<And>ys. mset (f ys) = mset ys"
  shows "length (on_range s e f xs) = length xs" "take n (on_range s e f xs) = on_range s e f (take n xs)"
    "mset (on_range s e f xs) = mset xs"
proof -
  have len: "length (f (take (e - s) (drop s xs))) = e - s"
    using mset_eq_length [OF assms(4), of "take (e - s) (drop s xs)"] assms(1-3) by simp
  then show "length (on_range s e f xs) = length xs" using assms(1-3) by (simp add: on_range_def)
  have "take (e - s) (drop s (take n xs)) = take (e - s) (drop s xs)" using assms(1,2) by (simp add: drop_take)
  then show "take n (on_range s e f xs) = on_range s e f (take n xs)"
    using len assms(1-3) by (simp add: on_range_def drop_take)
  have "mset (on_range s e f xs) = mset (take s xs @ take (e - s) (drop s xs) @ drop e xs)"
    by (simp add: on_range_def assms(4))
  also have "\<dots> = mset xs" using on_range_split [of s e xs] assms(1-3) by simp
  finally show "mset (on_range s e f xs) = mset xs" .
qed

lemma queue_ok_on_range:
  assumes "queue_ok q" "q_random q" "s \<le> e" "e \<le> q_length q" "\<And>xs. mset (f xs) = mset xs"
  shows "queue_ok (q\<lparr>q_order := on_range s e f (q_order q)\<rparr>)"
proof (rule queue_ok_order [OF assms(1,2)])
  note props = on_range_props [OF assms(3,4) order_length [OF assms(1)] assms(5)]
  show "length (on_range s e f (q_order q)) = length (q_order q)" by (rule props(1))
  have "mset (on_range s e f (active_order q)) = mset (active_order q)"
    by (rule on_range_props(3) [OF assms(3,4)]) (use order_length [OF assms(1)] assms(5) in simp_all)
  then show "mset (take (q_length q) (on_range s e f (q_order q))) = mset (active_order q)" by (simp add: props(2))
qed

text \<open>A permutation inside a group of equal values does not change the sequence of values.\<close>

lemma map_on_range_group:
  assumes "s \<le> e" "e \<le> length xs" "\<And>ys. mset (f ys) = mset ys"
    "\<And>i. \<lbrakk>s \<le> i; i < e\<rbrakk> \<Longrightarrow> h (xs ! i) = c"
  shows "map h (on_range s e f xs) = map h xs"
proof -
  let ?ys = "take (e - s) (drop s xs)"
  have const: "h y = c" if "y \<in> set ?ys" for y
    using that assms(1,2,4) by (auto simp: in_set_conv_nth)
  have "map h (f ?ys) = map h ?ys"
  proof (rule nth_equalityI)
    show "length (map h (f ?ys)) = length (map h ?ys)" using mset_eq_length [OF assms(3), of ?ys] by simp
    fix i assume i: "i < length (map h (f ?ys))"
    then have "f ?ys ! i \<in> set (f ?ys)" "?ys ! i \<in> set ?ys"
      using mset_eq_length [OF assms(3), of ?ys] by (simp_all del: nth_take take_drop)
    then show "map h (f ?ys) ! i = map h ?ys ! i"
      using i const mset_eq_setD [OF assms(3), of ?ys] mset_eq_length [OF assms(3), of ?ys] by (simp del: nth_take)
  qed
  then have "map h (on_range s e f xs) = map h (take s xs @ ?ys @ drop e xs)" by (simp add: on_range_def)
  then show ?thesis using on_range_split [OF assms(1,2)] by simp
qed

definition priorities :: "'song queue \<Rightarrow> 8 word list" where
  "priorities q = map (\<lambda>p. i_priority (q_items q ! p)) (active_order q)"

lemma nth_priorities: "\<lbrakk>queue_ok q; i < q_length q\<rbrakk> \<Longrightarrow> priorities q ! i = GetOrderPriority q i"
  using order_length [of q] by (simp add: priorities_def GetOrderPriority_def OrderToPosition_def)

lemma length_priorities: "queue_ok q \<Longrightarrow> length (priorities q) = q_length q"
  using order_length [of q] by (simp add: priorities_def)

text \<open>What the loop over the groups keeps of the queue \<open>q1\<close> sorted before.\<close>

definition shuffled_from :: "'song queue \<Rightarrow> 'song queue \<Rightarrow> bool" where
  "shuffled_from q1 q \<longleftrightarrow> queue_ok q \<and> q_random q \<and> q = q1\<lparr>q_order := q_order q\<rparr> \<and> priorities q = priorities q1"

lemma ShuffleOrderRange_group:
  assumes "shuffler_ok shuffle" "shuffled_from q1 q" "s \<le> e" "e \<le> q_length q1"
    "\<And>i. \<lbrakk>s \<le> i; i < e\<rbrakk> \<Longrightarrow> priorities q1 ! i = c"
  shows "shuffled_from q1 (ShuffleOrderRange shuffle s e q)"
proof -
  have q: "queue_ok q" "q_random q" "q = q1\<lparr>q_order := q_order q\<rparr>" "priorities q = priorities q1"
    using assms(2) by (simp_all add: shuffled_from_def)
  have len: "q_length q = q_length q1" "q_items q = q_items q1" by (subst q(3), simp)+
  have e: "e \<le> q_length q" using assms(4) len by simp
  have perm: "mset (shuffle s xs) = mset xs" for xs using assms(1) by (simp add: shuffler_ok_def)
  have ok: "queue_ok (ShuffleOrderRange shuffle s e q)"
    unfolding ShuffleOrderRange_def by (rule queue_ok_on_range [OF q(1,2) assms(3) e perm])
  have "priorities (ShuffleOrderRange shuffle s e q) =
      map (\<lambda>p. i_priority (q_items q ! p)) (on_range s e (shuffle s) (active_order q))"
    using on_range_props(2) [OF assms(3) e order_length [OF q(1)] perm]
    by (simp add: priorities_def ShuffleOrderRange_def)
  also have "\<dots> = priorities q"
    unfolding priorities_def
  proof (rule map_on_range_group [OF assms(3) _ perm])
    show "e \<le> length (active_order q)" using e order_length [OF q(1)] by simp
    fix i assume i: "s \<le> i" "i < e"
    then have "i < q_length q" using e by simp
    moreover have "priorities q ! i = c" using assms(5) [OF i] q(4) by simp
    ultimately show "i_priority (q_items q ! (active_order q ! i)) = c"
      using order_length [OF q(1)] by (simp add: priorities_def)
  qed
  finally have "priorities (ShuffleOrderRange shuffle s e q) = priorities q1" using q(4) by simp
  moreover have "q\<lparr>q_order := ord\<rparr> = q1\<lparr>q_order := ord\<rparr>" for ord by (subst q(3)) simp
  moreover have "q_random q1" using q(2) by (subst (asm) q(3)) simp
  ultimately show ?thesis
    using ok by (simp add: shuffled_from_def ShuffleOrderRange_def)
qed

lemma sorted_queue_by_priority:
  assumes "queue_ok q" "q_random q" "s \<le> e" "e \<le> q_length q"
  defines "q1 \<equiv> queue_sort_order_by_priority s e q"
  shows "queue_ok q1" "q_random q1" "q1 = q\<lparr>q_order := q_order q1\<rparr>"
    "\<And>i j. \<lbrakk>s \<le> i; i \<le> j; j < e\<rbrakk> \<Longrightarrow> priorities q1 ! j \<le> priorities q1 ! i"
proof -
  let ?key = "\<lambda>pos. 255 - unat (i_priority (q_items q ! pos))"
  have perm: "mset (sort_key ?key ys) = mset ys" for ys by simp
  show ok: "queue_ok q1"
    unfolding q1_def queue_sort_order_by_priority_def by (rule queue_ok_on_range [OF assms(1-4) perm])
  show "q_random q1" "q1 = q\<lparr>q_order := q_order q1\<rparr>"
    using assms(2) by (simp_all add: q1_def queue_sort_order_by_priority_def)
  fix i j assume ij: "s \<le> i" "i \<le> j" "j < e"
  let ?ys = "take (e - s) (drop s (active_order q))"
  have len: "length ?ys = e - s" using assms(3,4) order_length [OF assms(1)] by simp
  have "active_order q1 = on_range s e (sort_key ?key) (active_order q)"
    using on_range_props(2) [OF assms(3,4) order_length [OF assms(1)] perm]
    by (simp add: q1_def queue_sort_order_by_priority_def)
  then have nth: "active_order q1 ! k = sort_key ?key ?ys ! (k - s)" if "s \<le> k" "k < e" for k
    using that assms(4) len order_length [OF assms(1)] by (simp add: on_range_def nth_append)
  have items: "q_items q1 = q_items q" "q_length q1 = q_length q" by (simp_all add: q1_def queue_sort_order_by_priority_def)
  have "?key (sort_key ?key ys ! i') \<le> ?key (sort_key ?key ys ! j')" if "i' \<le> j'" "j' < length ys" for ys i' j'
    using sorted_nth_mono [OF sorted_sort_key, of i' j' ?key ys] that by simp
  then have "?key (sort_key ?key ?ys ! (i - s)) \<le> ?key (sort_key ?key ?ys ! (j - s))"
    using ij len by (simp del: length_take length_drop)
  then have "255 - unat (priorities q1 ! i) \<le> 255 - unat (priorities q1 ! j)"
    using nth [of i] nth [of j] ij assms(4) order_length [OF ok] items by (simp add: priorities_def)
  moreover have "unat w \<le> 255" for w :: "8 word"
    using unsigned_less [of w, where 'a = nat] by simp
  ultimately show "priorities q1 ! j \<le> priorities q1 ! i"
    unfolding word_le_nat_alt by (metis diff_le_mono2 diff_diff_cancel)
qed

lemma ShuffleOrderRangeWithPriority_from:
  assumes "shuffler_ok shuffle" "queue_ok q" "q_random q" "s < e" "e \<le> q_length q"
  shows "shuffled_from (queue_sort_order_by_priority s e q) (ShuffleOrderRangeWithPriority shuffle s e q)"
proof -
  define q1 where "q1 = queue_sort_order_by_priority s e q"
  note sorted = sorted_queue_by_priority [OF assms(2,3) less_imp_le [OF assms(4)] assms(5), folded q1_def]
  have len: "q_length q1 = q_length q" by (subst sorted(3)) simp
  define step where "step = (\<lambda>i (group_start, group_priority, q :: 'a queue).
      let priority = GetOrderPriority q i in
      if priority \<noteq> group_priority then (i, priority, ShuffleOrderRange shuffle group_start i q)
      else (group_start, group_priority, q))"
  define state where "state = (\<lambda>i (g, p, r). s \<le> g \<and> g < i \<and> (\<forall>k. g \<le> k \<and> k < i \<longrightarrow> priorities q1 ! k = p) \<and> shuffled_from q1 r)"
  have step: "state (Suc i) (step i x)" if x: "state i x" and i: "i < e" for i x
  proof -
    obtain g p r where x': "x = (g, p, r)" by (cases x)
    have inv: "s \<le> g" "g < i" "\<And>k. \<lbrakk>g \<le> k; k < i\<rbrakk> \<Longrightarrow> priorities q1 ! k = p" "shuffled_from q1 r"
      using x by (auto simp: state_def x')
    have r: "queue_ok r" "priorities r = priorities q1" "q_length r = q_length q1"
      using inv(4) unfolding shuffled_from_def by (simp, simp, metis queue.select_convs(2) queue.surjective queue.update_convs(5))
    have "GetOrderPriority r i = priorities q1 ! i"
      using nth_priorities [OF r(1), of i] r(2,3) i assms(5) len by simp
    moreover have "shuffled_from q1 (ShuffleOrderRange shuffle g i r)"
      by (rule ShuffleOrderRange_group [OF assms(1) inv(4) _ _ inv(3)]) (use inv i assms(5) len in simp_all)
    ultimately show ?thesis using inv by (auto simp: state_def step_def x' Let_def less_Suc_eq)
  qed
  have fold: "state j (fold step [s + 1..<j] (s, GetOrderPriority q1 s, q1))" if "s < j" "j \<le> e" for j
    using that
  proof (induction j)
    case (Suc j)
    show ?case
    proof (cases "s < j")
      case True
      then show ?thesis using Suc step [of j] by simp
    next
      case False
      then have "j = s" using Suc.prems by simp
      then show ?thesis
        using nth_priorities [OF sorted(1), of s] sorted Suc.prems assms(5) len
        by (auto simp: state_def shuffled_from_def less_Suc_eq)
    qed
  qed simp
  obtain g p r where res: "fold step [s + 1..<e] (s, GetOrderPriority q1 s, q1) = (g, p, r)" by (metis prod_cases3)
  have final: "s \<le> g" "g < e" "\<And>k. \<lbrakk>g \<le> k; k < e\<rbrakk> \<Longrightarrow> priorities q1 ! k = p" "shuffled_from q1 r"
    using fold [OF assms(4) order_refl] unfolding res by (auto simp: state_def)
  have "ShuffleOrderRangeWithPriority shuffle s e q = ShuffleOrderRange shuffle g e r"
    using assms(4) res by (simp add: ShuffleOrderRangeWithPriority_def step_def q1_def Let_def)
  moreover have "shuffled_from q1 (ShuffleOrderRange shuffle g e r)"
    by (rule ShuffleOrderRange_group [OF assms(1) final(4) _ _ final(3)]) (use final assms(5) len in simp_all)
  ultimately show ?thesis by (simp add: q1_def)
qed

end
