(* ===== verification/Queue_Steps.thy ===== *)
theory Queue_Steps
  imports Queue_Order
begin

text \<open>
  Deleting, clearing and changing priorities, the transition relation of all operations of
  the queue under the conditions its assertions state, and the properties of the queue.
\<close>

section \<open>Looking up the order number of a position\<close>

lemma PositionToOrder_from_found:
  "\<lbrakk>k < length ps; ps ! k = p; \<And>j. j < k \<Longrightarrow> ps ! j \<noteq> p\<rbrakk> \<Longrightarrow> PositionToOrder_from ps p i = Some (i + k)"
proof (induction ps arbitrary: i k)
  case (Cons x ps)
  show ?case
  proof (cases k)
    case 0
    then show ?thesis using Cons.prems(2) by simp
  next
    case (Suc k')
    have "x \<noteq> p" using Cons.prems(3) [of 0] Suc by simp
    moreover have "PositionToOrder_from ps p (i + 1) = Some (i + 1 + k')"
      using Cons.prems(1,2) Cons.prems(3) [of "Suc _"] Suc by (intro Cons.IH) auto
    ultimately show ?thesis by (simp add: Suc)
  qed
qed simp

lemma order_distinct: "order_ok q \<Longrightarrow> distinct (active_order q)"
  by (metis order_ok_def distinct_upt mset_eq_imp_distinct_iff)

lemma PositionToOrder_correct:
  assumes "queue_ok q" "p < q_length q"
  obtains i where "PositionToOrder q p = Some i" "i < q_length q" "OrderToPosition q i = p"
proof -
  have ord: "order_ok q" and len: "length (active_order q) = q_length q"
    using assms(1) order_length [OF assms(1)] by (simp_all add: queue_ok_def)
  have "p \<in> set (active_order q)" using ord assms(2) by (metis order_ok_def atLeastLessThan_iff set_mset_mset set_upt zero_le)
  then obtain i where i: "i < q_length q" "active_order q ! i = p" using len by (metis in_set_conv_nth)
  have "q_order q ! j \<noteq> p" if "j < i" for j
    using nth_eq_iff_index_eq [OF order_distinct [OF ord], of j i] i that len by simp
  then have "PositionToOrder q p = Some i"
    unfolding PositionToOrder_def
    using PositionToOrder_from_found [of i "q_order q" p 0] i order_length [OF assms(1)] by simp
  then show thesis using i by (intro that) (simp_all add: OrderToPosition_def)
qed

section \<open>Deleting\<close>

text \<open>Closing the gap a position leaves.\<close>

definition close_gap :: "nat \<Rightarrow> nat \<Rightarrow> nat" where
  "close_gap position p = (if position < p then p - 1 else p)"

definition remove_nth :: "nat \<Rightarrow> 'a list \<Rightarrow> 'a list" where
  "remove_nth i xs = take i xs @ drop (i + 1) xs"

lemma mset_remove_nth: "i < length xs \<Longrightarrow> add_mset (xs ! i) (mset (remove_nth i xs)) = mset xs"
  using id_take_nth_drop [of i xs] by (metis Suc_eq_plus1 mset_append mset.simps(2) remove_nth_def union_mset_add_mset_right)

lemma set_remove_nth: "\<lbrakk>i < length xs; distinct xs\<rbrakk> \<Longrightarrow> set (remove_nth i xs) = set xs - {xs ! i}"
proof -
  assume "i < length xs" "distinct xs"
  then have eq: "mset (xs ! i # remove_nth i xs) = mset xs" by (simp add: mset_remove_nth)
  then have "distinct (xs ! i # remove_nth i xs)" using \<open>distinct xs\<close> by (metis mset_eq_imp_distinct_iff)
  then show ?thesis using mset_eq_setD [OF eq] by auto
qed

lemma length_remove_nth: "i < length xs \<Longrightarrow> length (remove_nth i xs) = length xs - 1"
  by (simp add: remove_nth_def)

lemma remove_nth_nth: "\<lbrakk>i < length xs; k < length xs - 1\<rbrakk> \<Longrightarrow> remove_nth i xs ! k = (if k < i then xs ! k else xs ! (k + 1))"
  unfolding remove_nth_def by (rule drop_one_nth)

lemma shift_left_remove_nth:
  assumes "i < n" "n \<le> length xs"
  shows "take (n - 1) (fold (\<lambda>i ys. ys[i := ys ! (i + 1)]) [i..<n - 1] xs) = remove_nth i (take n xs)"
proof (rule nth_equalityI)
  have b: "n - 1 < length xs" using assms by simp
  show "length (take (n - 1) (fold (\<lambda>i ys. ys[i := ys ! (i + 1)]) [i..<n - 1] xs)) = length (remove_nth i (take n xs))"
    using assms shift_left(1) [OF b, of i] by (simp add: length_remove_nth)
  fix k assume "k < length (take (n - 1) (fold (\<lambda>i ys. ys[i := ys ! (i + 1)]) [i..<n - 1] xs))"
  then have k: "k < n - 1" by simp
  have "fold (\<lambda>i ys. ys[i := ys ! (i + 1)]) [i..<n - 1] xs ! k = (if i \<le> k \<and> k < n - 1 then xs ! (k + 1) else xs ! k)"
    by (rule shift_left(2) [OF b]) (use k b in simp)
  then show "take (n - 1) (fold (\<lambda>i ys. ys[i := ys ! (i + 1)]) [i..<n - 1] xs) ! k = remove_nth i (take n xs) ! k"
    using k assms remove_nth_nth [of i "take n xs" k] by auto
qed

lemma mset_close_gap:
  assumes "mset xs = mset [0..<n]" "i < length xs" "xs ! i = p"
  shows "mset (map (close_gap p) (remove_nth i xs)) = mset [0..<n - 1]"
proof -
  have len: "length xs = n" using mset_eq_length [OF assms(1)] by simp
  have p: "p < n" using assms by (metis atLeastLessThan_iff nth_mem set_mset_mset set_upt)
  have "add_mset p (mset (remove_nth i xs)) = mset [0..<n]" using mset_remove_nth [OF assms(2)] assms(1,3) by simp
  also have "\<dots> = mset ([0..<p] @ p # [p + 1..<n])"
    using p by (metis Suc_eq_plus1 less_imp_le_nat upt_add_eq_append upt_conv_Cons le_add1 le_add_diff_inverse zero_le)
  finally have "mset (remove_nth i xs) = mset ([0..<p] @ [p + 1..<n])" by simp
  then have "mset (map (close_gap p) (remove_nth i xs)) = mset (map (close_gap p) ([0..<p] @ [p + 1..<n]))" by (metis mset_map)
  also have "map (close_gap p) ([0..<p] @ [p + 1..<n]) = [0..<n - 1]"
    by (rule nth_equalityI) (use p in \<open>auto simp: close_gap_def nth_append\<close>)
  finally show ?thesis .
qed

lemma map_close_gap_upt:
  assumes "p < n"
  shows "map (close_gap p) (remove_nth p [0..<n]) = [0..<n - 1]"
  by (rule nth_equalityI) (use assms in \<open>auto simp: length_remove_nth remove_nth_nth close_gap_def\<close>)

abbreviation gap_moves :: "nat \<Rightarrow> nat \<Rightarrow> (nat \<times> nat) list" where
  "gap_moves position n \<equiv> map (\<lambda>i. (i + 1, i)) [position..<n]"

text \<open>Items, ids and length after the loop that closes the gap in the items array.\<close>

definition erased :: "nat \<Rightarrow> 'song queue \<Rightarrow> 'song queue" where
  "erased position q =
     q\<lparr>q_length := q_length q - 1, q_id_table := IdTable_Erase (PositionToId q position) (q_id_table q)\<rparr>"

definition closed :: "nat \<Rightarrow> 'song queue \<Rightarrow> 'song queue" where
  "closed position q = puts (erased position q) (gap_moves position (q_length q - 1)) (erased position q)"

lemma closed_frame: "same_frame (erased position q) (closed position q)"
  unfolding closed_def by (rule puts_frame)

lemma DeletePosition_closed:
  assumes "PositionToOrder q position = Some i"
  shows "DeletePosition position q = Some ((closed position q)\<lparr>q_order :=
    for_prefix (q_length q - 1) (close_gap position)
      (fold (\<lambda>i xs. xs[i := xs ! (i + 1)]) [i..<q_length q - 1] (q_order q))\<rparr>)"
proof -
  have "moves (gap_moves position (q_length q - 1)) (erased position q) = closed position q"
    unfolding closed_def by (rule safe_moves_puts) (auto intro!: safe_moves_up)
  then have "fold (\<lambda>i. MoveItemTo (i + 1) i) [position..<q_length q - 1] (erased position q) = closed position q"
    by (simp add: fold_map comp_def)
  moreover have "q_order (closed position q) = q_order q"
    using same_frame_fields(2) [OF closed_frame] by (simp add: erased_def)
  moreover have "close_gap position = (\<lambda>p. if position < p then p - 1 else p)"
    by (rule ext) (simp add: close_gap_def)
  ultimately show ?thesis
    using assms by (simp add: DeletePosition_def erased_def Let_def)
qed

lemma closed_facts:
  assumes "queue_ok q" "position < q_length q"
  shows "\<And>p. p < q_length q - 1 \<Longrightarrow>
      item_key (q_items (closed position q) ! p) = item_key (q_items q ! (if position \<le> p then p + 1 else p))"
    and "\<And>p. \<lbrakk>p < q_length q; p \<noteq> position\<rbrakk> \<Longrightarrow>
      it_data (q_id_table (closed position q)) ! PositionToId q p = int (close_gap position p)"
    and "it_data (q_id_table (closed position q)) ! PositionToId q position = - 1"
    and "\<And>n. n \<notin> PositionToId q ` {..<q_length q} \<Longrightarrow>
      it_data (q_id_table (closed position q)) ! n = it_data (q_id_table q) ! n"
proof -
  let ?n = "q_length q - 1" and ?e = "erased position q"
  let ?ms = "gap_moves position ?n"
  have shape: "shape_ok q" and linked: "linked_ids q" using assms(1) by (simp_all add: queue_ok_def)
  have items: "q_items ?e = q_items q" by (simp add: erased_def)
  have data: "it_data (q_id_table ?e) = (it_data (q_id_table q))[PositionToId q position := - 1]"
    by (simp add: erased_def IdTable_Erase_def)
  have in_ms: "(a, b) \<in> set ?ms \<longleftrightarrow> a = b + 1 \<and> position \<le> b \<and> b < ?n" for a b by auto
  have src: "a < q_length q" if "(a, b) \<in> set ?ms" for a b using that by auto
  have range: "PositionToId q p < length (it_data (q_id_table q))" if "p < q_length q" for p
    by (rule id_in_range [OF shape linked that])
  have "inj_on (PositionToId q) {..<q_length q}" using ids_distinct [OF linked] by (auto intro: inj_onI)
  then have "inj_on (PositionToId q) (set (map fst ?ms))" by (rule inj_on_subset) (use src in auto)
  then have dist: "distinct (map (\<lambda>(a, _). i_id (q_items ?e ! a)) ?ms)"
    using distinct_map [of "PositionToId q" "map fst ?ms"]
    by (simp add: comp_def items PositionToId_def distinct_map inj_on_def)
  have ids: "(\<lambda>(a, _). i_id (q_items ?e ! a)) ` set ?ms = PositionToId q ` {position + 1..<q_length q}"
  proof -
    have "fst ` set ?ms = {position + 1..<q_length q}" using assms(2) by (auto simp: image_image)
    moreover have "(\<lambda>(a, _). i_id (q_items ?e ! a)) ` set ?ms = PositionToId q ` fst ` set ?ms"
      by (simp only: image_image items PositionToId_def split_def)
    ultimately show ?thesis by simp
  qed
  have other: "it_data (q_id_table (closed position q)) ! n = it_data (q_id_table ?e) ! n"
    if "n \<notin> PositionToId q ` {position + 1..<q_length q}" for n
    unfolding closed_def by (rule puts_data_other) (use that ids in simp)
  show "item_key (q_items (closed position q) ! p) = item_key (q_items q ! (if position \<le> p then p + 1 else p))"
    if p: "p < ?n" for p
  proof -
    have d: "distinct (map snd ?ms)" by (simp add: comp_def)
    have "\<forall>(a, b) \<in> set ?ms. b < length (q_items ?e)"
      using shape by (auto simp: items shape_ok_def)
    then have "item_key (q_items (closed position q) ! p) = item_key (q_items q ! source_of ?ms p)"
      unfolding closed_def using puts_items [OF d, of ?e ?e p] by (simp add: source_of_def items split: option.splits)
    moreover have "source_of ?ms p = (if position \<le> p then p + 1 else p)"
      using p source_of_in [OF d, of "p + 1" p] source_of_out [of p ?ms] by (auto simp: image_image)
    ultimately show ?thesis by simp
  qed
  show "it_data (q_id_table (closed position q)) ! PositionToId q p = int (close_gap position p)"
    if p: "p < q_length q" "p \<noteq> position" for p
  proof (cases "position < p")
    case True
    have "it_data (q_id_table (closed position q)) ! i_id (q_items ?e ! p) = int (p - 1)"
      unfolding closed_def
    proof (rule puts_data [OF dist])
      show "\<forall>(a, _) \<in> set ?ms. i_id (q_items ?e ! a) < length (it_data (q_id_table ?e))"
        using range src by (auto simp: items data PositionToId_def)
      show "(p, p - 1) \<in> set ?ms" unfolding in_ms using True p by auto
    qed
    then show ?thesis using True by (simp add: items PositionToId_def close_gap_def)
  next
    case False
    have "PositionToId q p \<notin> PositionToId q ` {position + 1..<q_length q}" "PositionToId q p \<noteq> PositionToId q position"
      using ids_distinct [OF linked p(1)] False p assms(2) by auto
    then show ?thesis using other data linked_idsD(3) [OF linked p(1)] False by (simp add: close_gap_def)
  qed
  have "PositionToId q position \<notin> PositionToId q ` {position + 1..<q_length q}"
    using ids_distinct [OF linked assms(2)] by auto
  then show "it_data (q_id_table (closed position q)) ! PositionToId q position = - 1"
    using other data range [OF assms(2)] by simp
  show "it_data (q_id_table (closed position q)) ! n = it_data (q_id_table q) ! n"
    if "n \<notin> PositionToId q ` {..<q_length q}" for n
  proof -
    have "n \<notin> PositionToId q ` {position + 1..<q_length q}" "n \<noteq> PositionToId q position" using that assms(2) by auto
    then show ?thesis using other [of n] data by simp
  qed
qed

lemma closed_fields:
  "q_length (closed position q) = q_length q - 1" "q_random (closed position q) = q_random q"
  "q_order (closed position q) = q_order q" "it_initialized (q_id_table (closed position q)) = it_initialized (q_id_table q)"
  using same_frame_fields [OF closed_frame, of position q] by (simp_all add: erased_def IdTable_Erase_def)

lemma closed_shape: "shape_ok q \<Longrightarrow> shape_ok (closed position q)"
  using same_frame_fields(6) [OF closed_frame, of position q]
  by (auto simp: shape_ok_def erased_def IdTable_Erase_def table_ok_def)

lemma closed_linked:
  assumes "queue_ok q" "position < q_length q"
  shows "linked_ids (closed position q)"
proof -
  let ?n = "q_length q - 1" and ?q = "closed position q"
  have linked: "linked_ids q" using assms(1) by (simp add: queue_ok_def)
  note facts = closed_facts [OF assms]
  have pid: "PositionToId ?q p = PositionToId q (if position \<le> p then p + 1 else p)" if "p < ?n" for p
    using item_key_id [OF facts(1) [OF that]] by (simp add: PositionToId_def)
  show ?thesis
    unfolding linked_ids_def closed_fields
  proof (intro conjI allI impI)
    fix p assume p: "p < ?n"
    let ?k = "if position \<le> p then p + 1 else p"
    have k: "?k < q_length q" "?k \<noteq> position" "close_gap position ?k = p" using p by (auto simp: close_gap_def)
    show "0 < PositionToId ?q p" "PositionToId ?q p < it_initialized (q_id_table q)"
      "it_data (q_id_table ?q) ! PositionToId ?q p = int p"
      unfolding pid [OF p] facts(2) [OF k(1,2)] k(3) using linked_idsD [OF linked k(1)] by simp_all
  next
    fix m assume m: "0 < m \<and> m < it_initialized (q_id_table q) \<and> 0 \<le> it_data (q_id_table ?q) ! m"
    have "m \<in> PositionToId q ` {..<q_length q}"
      using m facts(4) [of m] linked unfolding linked_ids_def by (metis imageI lessThan_iff)
    then obtain k where k: "k < q_length q" "PositionToId q k = m" by auto
    then have "k \<noteq> position" using m facts(3) by auto
    then have "close_gap position k < ?n" "PositionToId ?q (close_gap position k) = m"
      using k assms(2) pid [of "close_gap position k"] by (auto simp: close_gap_def)
    then show "\<exists>p < ?n. PositionToId ?q p = m" by blast
  qed
qed

lemma closed_contents:
  assumes "queue_ok q" "position < q_length q"
  shows "contents (closed position q) = remove_nth position (contents q)"
proof (rule nth_equalityI)
  have shape: "shape_ok q" "shape_ok (closed position q)" using assms(1) closed_shape by (auto simp: queue_ok_def)
  have c: "length (contents q) = q_length q" "length (contents (closed position q)) = q_length q - 1"
    using shape by (simp_all add: closed_fields)
  show "length (contents (closed position q)) = length (remove_nth position (contents q))"
    using c assms(2) by (simp add: length_remove_nth)
  fix p assume "p < length (contents (closed position q))"
  then have p: "p < q_length q - 1" using c by simp
  then show "contents (closed position q) ! p = remove_nth position (contents q) ! p"
    using closed_facts(1) [OF assms p] remove_nth_nth [of position "contents q" p] c assms(2) shape
    by (auto simp: contents_def closed_fields shape_ok_def)
qed

lemma DeletePosition_correct:
  assumes "queue_ok q" "position < q_length q"
  obtains i q' where "DeletePosition position q = Some q'" "queue_ok q'" "q_length q' = q_length q - 1"
    "contents q' = remove_nth position (contents q)" "OrderToPosition q i = position" "i < q_length q"
    "played q' = remove_nth i (played q)" "q_random q' = q_random q"
proof -
  let ?n = "q_length q - 1"
  obtain i where i: "PositionToOrder q position = Some i" "i < q_length q" "OrderToPosition q i = position"
    by (rule PositionToOrder_correct [OF assms])
  define ord1 where "ord1 = fold (\<lambda>i xs. xs[i := xs ! (i + 1)]) [i..<?n] (q_order q)"
  define q' where "q' = (closed position q)\<lparr>q_order := for_prefix ?n (close_gap position) ord1\<rparr>"
  have del: "DeletePosition position q = Some q'" using DeletePosition_closed [OF i(1)] by (simp add: q'_def ord1_def)
  have shape: "shape_ok q" and ord: "order_ok q" using assms(1) by (simp_all add: queue_ok_def)
  note olen = order_length [OF assms(1)]
  have ord1: "length ord1 = length (q_order q)" "take ?n ord1 = remove_nth i (active_order q)"
    using shift_left(1) [of ?n "q_order q" i] shift_left_remove_nth [OF i(2) olen] assms(2) olen by (simp_all add: ord1_def)
  have at_i: "active_order q ! i = position" "i < length (active_order q)" using i olen by (simp_all add: OrderToPosition_def)
  have active: "take ?n (q_order q') = map (close_gap position) (remove_nth i (active_order q))"
    using ord1 olen length_remove_nth [OF at_i(2)] by (simp add: q'_def for_prefix_def)
  have "order_ok q'"
  proof -
    have "mset (take ?n (q_order q')) = mset [0..<?n]"
      unfolding active using ord at_i by (intro mset_close_gap) (simp_all add: order_ok_def)
    moreover have "take ?n (q_order q') = [0..<?n]" if "\<not> q_random q"
    proof -
      have id: "active_order q = [0..<q_length q]" using ord that by (simp add: order_ok_def)
      then have "i = position" using at_i i(2) by simp
      then show ?thesis unfolding active id using map_close_gap_upt [OF assms(2)] by simp
    qed
    ultimately show ?thesis by (simp add: order_ok_def q'_def closed_fields)
  qed
  moreover have "shape_ok q'"
    using closed_shape [OF shape, of position] ord1(1) olen by (simp add: shape_ok_def q'_def for_prefix_def closed_fields)
  moreover have "linked_ids q'" using closed_linked [OF assms] by (simp add: linked_ids_def q'_def PositionToId_def)
  ultimately have ok: "queue_ok q'" by (simp add: queue_ok_def)
  have "item_key (q_items q' ! close_gap position p) = item_key (q_items q ! p)"
    if "p \<in> set (remove_nth i (active_order q))" for p
  proof -
    have p: "p \<in> set (active_order q)" "p \<noteq> position"
      using that set_remove_nth [OF at_i(2) order_distinct [OF ord]] at_i(1) by auto
    moreover have "p < q_length q" by (rule active_order_bound [OF ord p(1)])
    ultimately show ?thesis
      using closed_facts(1) [OF assms, of "close_gap position p"] assms(2) by (auto simp: q'_def close_gap_def split: if_splits)
  qed
  then have "played q' = map (\<lambda>p. item_key (q_items q ! p)) (remove_nth i (active_order q))"
    using active by (simp add: played_def q'_def closed_fields)
  then have "played q' = remove_nth i (played q)" by (simp add: played_def remove_nth_def take_map drop_map)
  then show thesis
    using del ok closed_contents [OF assms] i by (intro that [of q' i]) (simp_all add: q'_def closed_fields)
qed

section \<open>Clearing\<close>

lemma fold_erase:
  "length (it_data (fold (\<lambda>i. IdTable_Erase (f i)) xs t)) = length (it_data t) \<and>
   fold (\<lambda>i. IdTable_Erase (f i)) xs t = t\<lparr>it_data := it_data (fold (\<lambda>i. IdTable_Erase (f i)) xs t)\<rparr>"
  by (induction xs arbitrary: t) (simp_all add: IdTable_Erase_def, metis IdTable.select_convs(4) IdTable.surjective IdTable.update_convs(4) length_list_update)

lemma fold_erase_nth:
  "n < length (it_data t) \<Longrightarrow>
   it_data (fold (\<lambda>i. IdTable_Erase (f i)) xs t) ! n = (if n \<in> f ` set xs then - 1 else it_data t ! n)"
  by (induction xs arbitrary: t) (auto simp: IdTable_Erase_def nth_list_update)

lemma queue_ok_Clear:
  assumes "queue_ok q"
  shows "queue_ok (Queue_Clear q)" "contents (Queue_Clear q) = []"
proof -
  define t where "t = fold (\<lambda>i. IdTable_Erase (i_id (q_items q ! i))) [0..<q_length q] (q_id_table q)"
  have t: "length (it_data t) = length (it_data (q_id_table q))" "t = (q_id_table q)\<lparr>it_data := it_data t\<rparr>"
    unfolding t_def using fold_erase [of "\<lambda>i. i_id (q_items q ! i)" "[0..<q_length q]" "q_id_table q"] by blast+
  have same: "it_initialized t = it_initialized (q_id_table q)" "it_size t = it_size (q_id_table q)" "it_next t = it_next (q_id_table q)"
    by (subst t(2), simp)+
  have q': "Queue_Clear q = q\<lparr>q_id_table := t, q_length := 0, q_last_loaded_playlist := []\<rparr>"
    by (simp add: Queue_Clear_def t_def)
  have "it_data t ! n < 0" if n: "0 < n" "n < it_initialized (q_id_table q)" for n
  proof -
    have "n < length (it_data (q_id_table q))" using assms n by (auto simp: queue_ok_def shape_ok_def table_ok_def)
    moreover have "it_data (q_id_table q) ! n < 0" if "n \<notin> (\<lambda>i. i_id (q_items q ! i)) ` {0..<q_length q}"
    proof (rule ccontr)
      assume "\<not> it_data (q_id_table q) ! n < 0"
      then obtain p where "p < q_length q" "PositionToId q p = n"
        using assms n unfolding queue_ok_def linked_ids_def by (metis not_less)
      then show False using that by (auto simp: PositionToId_def)
    qed
    ultimately show ?thesis by (auto simp: t_def fold_erase_nth)
  qed
  then have "linked_ids (Queue_Clear q)" using not_less by (auto simp: linked_ids_def q' same)
  moreover have "shape_ok (Queue_Clear q)"
    using assms t(1) by (simp add: q' queue_ok_def shape_ok_def table_ok_def same)
  ultimately show "queue_ok (Queue_Clear q)" by (simp add: queue_ok_def order_ok_def q')
  show "contents (Queue_Clear q) = []" by (simp add: q' contents_def)
qed

section \<open>Changing items in place\<close>

lemma linked_ids_cong:
  "\<lbrakk>linked_ids q; q_length q' = q_length q; q_id_table q' = q_id_table q;
    \<And>p. p < q_length q \<Longrightarrow> PositionToId q' p = PositionToId q p\<rbrakk> \<Longrightarrow> linked_ids q'"
  unfolding linked_ids_def by simp metis

lemma queue_ok_items:
  assumes "queue_ok q" "length items' = length (q_items q)" "\<And>p. p < q_length q \<Longrightarrow> i_id (items' ! p) = i_id (q_items q ! p)"
  shows "queue_ok (q\<lparr>q_items := items'\<rparr>)"
proof -
  have "linked_ids (q\<lparr>q_items := items'\<rparr>)"
    by (rule linked_ids_cong [of q]) (use assms in \<open>simp_all add: queue_ok_def PositionToId_def\<close>)
  then show ?thesis using assms(1,2) by (simp add: queue_ok_def shape_ok_def order_ok_def)
qed

lemma queue_ok_ModifyAtPosition: "\<lbrakk>queue_ok q; p < q_length q\<rbrakk> \<Longrightarrow> queue_ok (ModifyAtPosition p q)"
  unfolding ModifyAtPosition_def
  by (rule queue_ok_items) (auto simp: nth_list_update queue_ok_def shape_ok_def)

lemma queue_ok_IncrementVersion:
  assumes "queue_ok q"
  shows "queue_ok (IncrementVersion q)"
proof -
  have v: "queue_ok (q\<lparr>q_version := v, q_items := items'\<rparr>) = queue_ok (q\<lparr>q_items := items'\<rparr>)"
    and v': "queue_ok (q\<lparr>q_version := v\<rparr>) = queue_ok q" for items' v
    by (simp_all add: queue_ok_def shape_ok_def linked_ids_def order_ok_def PositionToId_def)
  have len: "q_length q \<le> length (q_items q)" using assms by (simp add: queue_ok_def shape_ok_def)
  have "queue_ok (q\<lparr>q_items := for_prefix (q_length q) (\<lambda>i. i\<lparr>i_version := 0\<rparr>) (q_items q)\<rparr>)"
    by (rule queue_ok_items [OF assms]) (use len in \<open>auto simp: for_prefix_def nth_append min_def\<close>)
  then show ?thesis using assms v v' by (simp add: IncrementVersion_def Let_def)
qed

lemma fold_identity:
  "n \<le> length xs \<Longrightarrow> take n (fold (\<lambda>i ys. ys[i := i]) [0..<n] xs) = [0..<n] \<and> length (fold (\<lambda>i ys. ys[i := i]) [0..<n] xs) = length xs"
proof (induction n)
  case (Suc n)
  then show ?case by (simp add: take_Suc_conv_app_nth)
qed simp

lemma queue_ok_RestoreOrder:
  assumes "queue_ok q"
  shows "queue_ok (RestoreOrder (q\<lparr>q_random := False\<rparr>))"
  using assms fold_identity [OF order_length [OF assms]]
  by (simp add: RestoreOrder_def queue_ok_def shape_ok_def linked_ids_def order_ok_def PositionToId_def)

section \<open>Priorities\<close>

lemma find_upt_bound: "find P [a..<b] = Some i \<Longrightarrow> a \<le> i \<and> i < b \<and> P i"
  by (auto dest!: find_SomeD)

lemma FindPriorityOrder_bound: "FindPriorityOrder q s priority x \<le> q_length q"
  by (auto simp: FindPriorityOrder_def split: option.split dest!: find_upt_bound)

lemma CountSamePriority_bounds:
  assumes "s < q_length q" "GetOrderPriority q s = priority"
  shows "0 < CountSamePriority q s priority" "s + CountSamePriority q s priority \<le> q_length q"
proof -
  have "0 < CountSamePriority q s priority \<and> s + CountSamePriority q s priority \<le> q_length q"
  proof (cases "find (\<lambda>i. GetOrderPriority q i \<noteq> priority) [s..<q_length q]")
    case None
    then show ?thesis using assms(1) by (simp add: CountSamePriority_def)
  next
    case (Some i)
    then have "s \<le> i" "i < q_length q" "i \<noteq> s" using find_upt_bound [OF Some] assms(2) by auto
    then show ?thesis by (simp add: CountSamePriority_def Some)
  qed
  then show "0 < CountSamePriority q s priority" "s + CountSamePriority q s priority \<le> q_length q" by simp_all
qed

lemma ShuffleOrderFirst_ok:
  assumes "queue_ok q" "q_random q" "picker_ok pick" "s < e" "e \<le> q_length q"
  shows "queue_ok (ShuffleOrderFirst pick s e q)"
proof -
  have "s \<le> e - 1" using assms(4) by simp
  then have "pick s (e - 1) \<le> e - 1" using assms(3) unfolding picker_ok_def by blast
  then show ?thesis unfolding ShuffleOrderFirst_def using assms by (intro queue_ok_SwapOrders) auto
qed

lemma ShuffleOrderLastWithPriority_ok:
  assumes "queue_ok q" "q_random q" "picker_ok pick" "s < e" "e \<le> q_length q"
  shows "queue_ok (ShuffleOrderLastWithPriority pick s e q)"
proof -
  let ?P = "\<lambda>i. GetOrderPriority q i = GetOrderPriority q (e - 1)"
  have "e - 1 \<in> set [s..<e]" using assms(4) by auto
  then have "find ?P [s..<e] \<noteq> None" unfolding find_None_iff by blast
  then obtain i where i: "find ?P [s..<e] = Some i" by blast
  then have "i \<le> e - 1" using find_upt_bound [OF i] by auto
  then have "pick i (e - 1) \<le> e - 1" using assms(3) unfolding picker_ok_def by blast
  then show ?thesis
    unfolding ShuffleOrderLastWithPriority_def Let_def i using assms by (auto intro!: queue_ok_SwapOrders)
qed

lemma ShuffleRange_ok:
  assumes "queue_ok q" "\<And>i. picker_ok (pick i)" "s \<le> e" "e \<le> q_length q"
  shows "queue_ok (ShuffleRange pick s e q) \<and> mset (contents (ShuffleRange pick s e q)) = mset (contents q)"
proof -
  define I where "I = (\<lambda>r. queue_ok r \<and> q_length r = q_length q \<and> mset (contents r) = mset (contents q))"
  have "I (SwapPositions i (pick i s (e - 1)) r)" if "i \<in> set [s..<e]" "I r" for i r
  proof -
    have "s \<le> e - 1" using that(1) by auto
    then have "pick i s (e - 1) \<le> e - 1" using assms(2) [of i] unfolding picker_ok_def by blast
    then have b: "i < q_length r" "pick i s (e - 1) < q_length r" using that assms(4) by (auto simp: I_def)
    have r: "queue_ok r" "length (contents r) = q_length r" using that(2) by (auto simp: I_def queue_ok_def)
    have "q_length (SwapPositions i (pick i s (e - 1)) r) = q_length r" by (simp add: SwapPositions_def Let_def)
    then show ?thesis
      using SwapPositions_correct [OF r(1) b] mset_swap [of "pick i s (e - 1)" "contents r" i] b r that(2) by (simp add: I_def)
  qed
  moreover have "I q" using assms(1) by (simp add: I_def)
  ultimately have "I (ShuffleRange pick s e q)"
    unfolding ShuffleRange_def by (intro fold_invariant_set [where P = I])
  then show ?thesis by (simp add: I_def)
qed

lemma contents_update:
  "\<lbrakk>shape_ok q; p < q_length q\<rbrakk> \<Longrightarrow> contents (q\<lparr>q_items := (q_items q)[p := x]\<rparr>) = (contents q)[p := item_key x]"
  by (simp add: contents_def take_update_swap map_update)

lemma SetPriority_correct:
  assumes "queue_ok q" "picker_ok pick" "position < q_length q" "after_order < int (q_length q)"
  obtains changed q' where "SetPriority pick position priority after_order reorder q = Some (changed, q')"
    "queue_ok q'" "q_length q' = q_length q" "q_random q' = q_random q"
    "contents q' = (contents q)[position :=
       (i_song (q_items q ! position), i_id (q_items q ! position), priority)]"
proof -
  let ?item = "(q_items q ! position)\<lparr>i_version := q_version q, i_priority := priority\<rparr>"
  define q1 where "q1 = q\<lparr>q_items := (q_items q)[position := ?item]\<rparr>"
  have shape: "shape_ok q" using assms(1) by (simp add: queue_ok_def)
  have pos: "position < length (q_items q)" using shape assms(3) by (simp add: shape_ok_def)
  have ok1: "queue_ok q1"
    unfolding q1_def by (rule queue_ok_items [OF assms(1)]) (use pos in \<open>auto simp: nth_list_update\<close>)
  have same1: "q_length q1 = q_length q" "q_random q1 = q_random q" by (simp_all add: q1_def)
  let ?c = "(contents q)[position := (i_song (q_items q ! position), i_id (q_items q ! position), priority)]"
  have c1: "contents q1 = ?c" unfolding q1_def using contents_update [OF shape assms(3)] by (simp add: item_key_def)
  note done1 = that [OF _ ok1 same1 c1]
  show thesis
  proof (cases "i_priority (q_items q ! position) = priority")
    case True
    have "contents q ! position = (i_song (q_items q ! position), i_id (q_items q ! position), priority)"
      using True assms(3) pos by (simp add: contents_def item_key_def)
    then have "contents q = ?c" by (metis list_update_id)
    then show thesis using True assms(1) by (intro that [of False q]) (simp_all add: SetPriority_def)
  next
    case changed: False
    show thesis
    proof (cases "q_random q \<and> reorder")
      case False
      then show thesis using changed by (intro done1 [of True]) (auto simp: SetPriority_def Let_def q1_def)
    next
      case True
      obtain i where i: "PositionToOrder q1 position = Some i" "i < q_length q1" "OrderToPosition q1 i = position"
        by (rule PositionToOrder_correct [OF ok1]) (use assms(3) same1 in simp)
      define before where "before = FindPriorityOrder q1 (nat (after_order + 1)) priority i"
      define new where "new = (if i < before then before - 1 else before)"
      define q2 where "q2 = MoveOrder i new q1"
      have new: "new < q_length q1" using i(2) FindPriorityOrder_bound [of q1 "nat (after_order + 1)" priority i] by (auto simp: new_def before_def)
      have rnd: "q_random q1" using True by (simp add: same1)
      have ok2: "queue_ok q2" unfolding q2_def by (rule queue_ok_MoveOrder [OF ok1 rnd i(2) new])
      have same2: "q_length q2 = q_length q1" "q_random q2 = q_random q1" "q_items q2 = q_items q1"
        by (simp_all add: q2_def MoveOrder_def Let_def)
      have len1: "length (active_order q1) = q_length q1" using order_length [OF ok1] by simp
      have "active_order q2 ! new = active_order q1 ! i"
        using MoveOrder_active(1) [OF ok1 i(2) new] move_elem_nth_conv [of i "active_order q1" new new] i(2) new
        unfolding len1 by (simp add: q2_def MoveOrder_def Let_def)
      then have "OrderToPosition q2 new = position" using i new same2 by (simp add: OrderToPosition_def)
      then have "GetOrderPriority q2 new = priority" using pos by (simp add: GetOrderPriority_def same2 q1_def)
      note count = CountSamePriority_bounds [OF new [folded same2(1)] this]
      define q3 where "q3 = ShuffleOrderFirst pick new (new + CountSamePriority q2 new priority) q2"
      have ok3: "queue_ok q3"
        unfolding q3_def by (rule ShuffleOrderFirst_ok [OF ok2 _ assms(2)]) (use count rnd same2 in simp_all)
      have q3: "q3 = q1\<lparr>q_order := q_order q3\<rparr>"
        by (simp add: q3_def q2_def ShuffleOrderFirst_def SwapOrders_def MoveOrder_def Let_def)
      have same3: "q_length q3 = q_length q" "q_random q3 = q_random q" "contents q3 = ?c"
        by (subst q3, simp add: same1 c1)+
      have "SetPriority pick position priority after_order reorder q = Some (True, q1) \<or>
          SetPriority pick position priority after_order reorder q = Some (True, q3)"
        using changed True i(1)
        by (simp add: SetPriority_def Let_def q1_def [symmetric] q3_def q2_def new_def before_def)
      then show thesis using done1 that [OF _ ok3 same3] by blast
    qed
  qed
qed

text \<open>Priorities aside, the songs stay where they are.\<close>

definition names :: "'song queue \<Rightarrow> ('song \<times> nat) list" where
  "names q = map (\<lambda>(song, sid, _). (song, sid)) (contents q)"

lemma order_operations_max_length:
  "q_max_length (MoveOrder i j q) = q_max_length q" "q_max_length (ShuffleOrderFirst pick i j q) = q_max_length q"
  by (simp_all add: MoveOrder_def Let_def ShuffleOrderFirst_def SwapOrders_def)

lemma SetPriority_max_length:
  assumes "SetPriority pick position priority after_order reorder q = Some (changed, q')"
  shows "q_max_length q' = q_max_length q"
proof (cases "i_priority (q_items q ! position) = priority \<or> \<not> q_random q \<or> \<not> reorder")
  case True
  then show ?thesis
    using assms by (cases "i_priority (q_items q ! position) = priority") (auto simp: SetPriority_def)
next
  case False
  let ?q1 = "q\<lparr>q_items := (q_items q)[position := (q_items q ! position)\<lparr>i_version := q_version q, i_priority := priority\<rparr>]\<rparr>"
  obtain ord where "PositionToOrder ?q1 position = Some ord"
    using assms False by (cases "PositionToOrder ?q1 position") (auto simp: SetPriority_def Let_def)
  then have "q' = ?q1 \<or> (\<exists>i j k l. q' = ShuffleOrderFirst pick i j (MoveOrder k l ?q1))"
    using assms False unfolding SetPriority_def Let_def by (simp split del: if_split) (metis prod.inject)
  then show ?thesis by (auto simp: order_operations_max_length)
qed

lemma names_priority:
  assumes "shape_ok q" "position < q_length q"
    and "contents q' = (contents q)[position := (i_song (q_items q ! position), i_id (q_items q ! position), priority)]"
  shows "names q' = names q"
proof -
  have "contents q ! position = item_key (q_items q ! position)" using assms(1,2) by (simp add: contents_def shape_ok_def)
  then have "names q ! position = (i_song (q_items q ! position), i_id (q_items q ! position))"
    using assms(1,2) by (simp add: names_def item_key_def)
  then show ?thesis unfolding names_def assms(3) map_update by (metis case_prod_conv list_update_id names_def)
qed

lemma SetPriorityRange_ok:
  fixes q :: "'song queue"
  assumes "queue_ok q" "picker_ok pick" "s \<le> e" "e \<le> q_length q" "after_order < int (q_length q)"
  shows "\<exists>changed q'. SetPriorityRange pick s e priority after_order q = Some (changed, q') \<and> queue_ok q' \<and>
    q_length q' = q_length q \<and> q_max_length q' = q_max_length q \<and> names q' = names q"
proof -
  define after where "after = (if 0 \<le> after_order then Some (OrderToPosition q (nat after_order)) else None)"
  define I where "I = (\<lambda>acc :: (bool \<times> 'song queue) option. \<exists>changed r. acc = Some (changed, r) \<and> queue_ok r \<and>
    q_length r = q_length q \<and> q_max_length r = q_max_length q \<and> names r = names q)"
  define step where "step = (\<lambda>i (acc :: (bool \<times> 'song queue) option). case acc of
          None \<Rightarrow> None
        | Some (changed, r) \<Rightarrow>
            (case (case after of None \<Rightarrow> Some (- 1) | Some p \<Rightarrow> map_option int (PositionToOrder r p)) of
               None \<Rightarrow> None
             | Some ord \<Rightarrow> map_option (\<lambda>(c, r'). (changed \<or> c, r')) (SetPriority pick i priority ord True r)))"
  have pos: "p < q_length q" if "after = Some p" for p
  proof -
    have "nat after_order < q_length q" "p = active_order q ! nat after_order"
      using that assms(5) by (auto simp: after_def OrderToPosition_def split: if_splits)
    then have "p \<in> set (active_order q)" using nth_mem [of "nat after_order" "active_order q"] order_length [OF assms(1)] by simp
    then show ?thesis using active_order_bound assms(1) by (auto simp: queue_ok_def)
  qed
  have "I (step i acc)" if i: "i \<in> set [s..<e]" and acc: "I acc" for i acc
  proof -
    obtain changed r where r: "acc = Some (changed, r)" "queue_ok r" "q_length r = q_length q" "q_max_length r = q_max_length q" "names r = names q"
      using acc by (auto simp: I_def)
    obtain ord where ord: "(case after of None \<Rightarrow> Some (- 1) | Some p \<Rightarrow> map_option int (PositionToOrder r p)) = Some ord"
      "ord < int (q_length r)"
    proof (cases after)
      case None
      then show ?thesis using that by simp
    next
      case (Some p)
      then have "p < q_length r" using pos r(3) by simp
      then obtain j where "PositionToOrder r p = Some j" "j < q_length r" by (rule PositionToOrder_correct [OF r(2)])
      then show ?thesis using that [of "int j"] Some by simp
    qed
    have "i < q_length r" using i assms(4) r(3) by simp
    then show ?thesis
    proof (rule SetPriority_correct [OF r(2) assms(2) _ ord(2)])
      fix c r'
      assume *: "SetPriority pick i priority ord True r = Some (c, r')" "queue_ok r'" "q_length r' = q_length r"
        "contents r' = (contents r)[i := (i_song (q_items r ! i), i_id (q_items r ! i), priority)]"
      have "names r' = names r" using r(2) \<open>i < q_length r\<close> by (intro names_priority [OF _ _ *(4)]) (simp_all add: queue_ok_def)
      then show ?thesis using * r SetPriority_max_length [OF *(1)] by (simp add: step_def ord(1) I_def)
    qed
  qed
  moreover have "I (Some (False, q))" using assms(1) unfolding I_def by blast
  ultimately have "I (fold step [s..<e] (Some (False, q)))" by (intro fold_invariant_set [where P = I])
  then show ?thesis by (auto simp: I_def SetPriorityRange_def step_def after_def Let_def)
qed

section \<open>All operations\<close>

text \<open>
  The operations under the conditions that their assertions state; the order is changed in
  random mode only, and leaving random mode restores it.
\<close>

inductive queue_step :: "'song queue \<Rightarrow> 'song queue \<Rightarrow> bool" where
  append: "\<lbrakk>\<not> Queue_IsFull q; Queue_Append song priority q = Some (n, q')\<rbrakk> \<Longrightarrow> queue_step q q'"
| swap: "\<lbrakk>i < q_length q; j < q_length q\<rbrakk> \<Longrightarrow> queue_step q (SwapPositions i j q)"
| move: "\<lbrakk>i < q_length q; j < q_length q\<rbrakk> \<Longrightarrow> queue_step q (MovePostion i j q)"
| move_range: "\<lbrakk>s \<le> e; e \<le> q_length q; j + (e - s) \<le> q_length q\<rbrakk> \<Longrightarrow> queue_step q (MoveRange s e j q)"
| delete: "\<lbrakk>i < q_length q; DeletePosition i q = Some q'\<rbrakk> \<Longrightarrow> queue_step q q'"
| clear: "queue_step q (Queue_Clear q)"
| increment_version: "queue_step q (IncrementVersion q)"
| modify: "i < q_length q \<Longrightarrow> queue_step q (ModifyAtPosition i q)"
| shuffle_range: "\<lbrakk>\<And>i. picker_ok (picks i); s \<le> e; e \<le> q_length q\<rbrakk> \<Longrightarrow> queue_step q (ShuffleRange picks s e q)"
| swap_orders: "\<lbrakk>q_random q; i < q_length q; j < q_length q\<rbrakk> \<Longrightarrow> queue_step q (SwapOrders i j q)"
| move_order: "\<lbrakk>q_random q; i < q_length q; j < q_length q\<rbrakk> \<Longrightarrow> queue_step q (MoveOrder i j q)"
| shuffle_order: "\<lbrakk>q_random q; shuffler_ok shuffle; s \<le> e; e \<le> q_length q\<rbrakk> \<Longrightarrow>
    queue_step q (ShuffleOrderRangeWithPriority shuffle s e q)"
| shuffle_last: "\<lbrakk>q_random q; picker_ok pick; s < e; e \<le> q_length q\<rbrakk> \<Longrightarrow>
    queue_step q (ShuffleOrderLastWithPriority pick s e q)"
| set_priority: "\<lbrakk>picker_ok pick; i < q_length q; a < int (q_length q);
    SetPriority pick i priority a reorder q = Some (changed, q')\<rbrakk> \<Longrightarrow> queue_step q q'"
| set_priority_range: "\<lbrakk>picker_ok pick; s \<le> e; e \<le> q_length q; a < int (q_length q);
    SetPriorityRange pick s e priority a q = Some (changed, q')\<rbrakk> \<Longrightarrow> queue_step q q'"
| random_on: "queue_step q (q\<lparr>q_random := True\<rparr>)"
| random_off: "queue_step q (RestoreOrder (q\<lparr>q_random := False\<rparr>))"

inductive queue_reach :: "nat \<Rightarrow> 'song queue \<Rightarrow> bool" for max_length where
  new: "\<lbrakk>length items = max_length; length ord = max_length; length data = HASH_MULT * max_length\<rbrakk> \<Longrightarrow>
    queue_reach max_length (Queue_new items ord data)"
| step: "\<lbrakk>queue_reach max_length q; queue_step q q'\<rbrakk> \<Longrightarrow> queue_reach max_length q'"

lemma queue_ok_new:
  "\<lbrakk>0 < max_length; length items = max_length; length ord = max_length; length data = HASH_MULT * max_length\<rbrakk> \<Longrightarrow>
   queue_ok (Queue_new items ord data)"
  by (auto simp: queue_ok_def Queue_new_def shape_ok_def table_ok_def IdTable_new_def HASH_MULT_def
      linked_ids_def order_ok_def)

lemma queue_ok_shuffle_order:
  assumes "queue_ok q" "q_random q" "shuffler_ok shuffle" "s \<le> e" "e \<le> q_length q"
  shows "queue_ok (ShuffleOrderRangeWithPriority shuffle s e q)"
proof (cases "s = e")
  case True
  then show ?thesis using assms(1) by (simp add: ShuffleOrderRangeWithPriority_def)
next
  case False
  then show ?thesis
    using ShuffleOrderRangeWithPriority_from [OF assms(3,1,2) _ assms(5)] assms(4) by (simp add: shuffled_from_def)
qed

lemma queue_ok_step: "\<lbrakk>queue_step q q'; queue_ok q\<rbrakk> \<Longrightarrow> queue_ok q'"
proof (induction rule: queue_step.induct)
  case (delete i q q')
  then show ?case by (auto elim: DeletePosition_correct)
next
  case (set_priority pick i q a priority reorder changed q')
  show ?case
    by (rule SetPriority_correct [OF set_priority(5,1-3), where priority = priority and reorder = reorder])
      (use set_priority(4) in simp)
next
  case (set_priority_range pick s e q a priority changed q')
  then show ?case using SetPriorityRange_ok [OF set_priority_range(6,1-4), where priority = priority] by auto
next
  case (random_on q)
  then show ?case by (simp add: queue_ok_def shape_ok_def linked_ids_def order_ok_def PositionToId_def)
qed (auto intro: queue_ok_Append SwapPositions_correct MovePostion_correct MoveRange_correct queue_ok_Clear
     queue_ok_IncrementVersion queue_ok_ModifyAtPosition queue_ok_SwapOrders queue_ok_MoveOrder queue_ok_shuffle_order
     ShuffleOrderLastWithPriority_ok ShuffleRange_ok [THEN conjunct1] queue_ok_RestoreOrder)

lemma queue_ok_reach: "\<lbrakk>queue_reach max_length q; 0 < max_length\<rbrakk> \<Longrightarrow> queue_ok q"
  by (induction rule: queue_reach.induct) (auto intro: queue_ok_new queue_ok_step)

section \<open>Properties\<close>

text \<open>
  Property C10 (invariant): in every queue that can be reached the three ways to address a
  song agree: every position has an id that leads back to it, every id greater than 0 that is
  looked up successfully belongs to that position, and the order numbers are a permutation of
  the positions with PositionToOrder and OrderToPosition inverse to each other, the identity
  when random mode is off.
\<close>

theorem Queue_addresses_agree:
  assumes "queue_reach max_length q" "0 < max_length"
  shows "q_length q \<le> q_max_length q \<and>
    (\<forall>p < q_length q. 0 < PositionToId q p \<and> Queue_IdToPosition q (PositionToId q p) = int p) \<and>
    (\<forall>n > 0. 0 \<le> Queue_IdToPosition q n \<longrightarrow>
       nat (Queue_IdToPosition q n) < q_length q \<and> PositionToId q (nat (Queue_IdToPosition q n)) = n) \<and>
    (\<forall>p < q_length q. \<exists>i < q_length q. PositionToOrder q p = Some i \<and> OrderToPosition q i = p) \<and>
    (\<forall>i < q_length q. PositionToOrder q (OrderToPosition q i) = Some i) \<and>
    (q_random q \<or> (\<forall>i < q_length q. OrderToPosition q i = i))"
proof -
  have ok: "queue_ok q" by (rule queue_ok_reach [OF assms])
  then have linked: "linked_ids q" and ord: "order_ok q" by (simp_all add: queue_ok_def)
  have alen: "length (active_order q) = q_length q" using order_length [OF ok] by simp
  have ids: "0 < PositionToId q p \<and> Queue_IdToPosition q (PositionToId q p) = int p" if "p < q_length q" for p
    using linked_idsD [OF linked that] by (simp add: Queue_IdToPosition_def IdTable_IdToPosition_def)
  moreover have "nat (Queue_IdToPosition q n) < q_length q \<and> PositionToId q (nat (Queue_IdToPosition q n)) = n"
    if n: "0 < n" "0 \<le> Queue_IdToPosition q n" for n
  proof -
    have "n < it_initialized (q_id_table q) \<and> 0 \<le> it_data (q_id_table q) ! n"
      using n(2) by (simp add: Queue_IdToPosition_def IdTable_IdToPosition_def split: if_splits)
    then obtain p where "p < q_length q" "PositionToId q p = n" using linked n(1) unfolding linked_ids_def by blast
    then show ?thesis using ids [of p] by simp
  qed
  moreover have "\<exists>i < q_length q. PositionToOrder q p = Some i \<and> OrderToPosition q i = p" if "p < q_length q" for p
    by (rule PositionToOrder_correct [OF ok that]) blast
  moreover have "PositionToOrder q (OrderToPosition q i) = Some i" if i: "i < q_length q" for i
  proof -
    have "OrderToPosition q i \<in> set (active_order q)"
      using nth_mem [of i "active_order q"] alen i by (simp add: OrderToPosition_def)
    then have "OrderToPosition q i < q_length q" by (rule active_order_bound [OF ord])
    then obtain j where j: "PositionToOrder q (OrderToPosition q i) = Some j" "j < q_length q" "OrderToPosition q j = OrderToPosition q i"
      by (rule PositionToOrder_correct [OF ok])
    then have "j = i"
      using nth_eq_iff_index_eq [OF order_distinct [OF ord], of j i] alen i by (simp add: OrderToPosition_def)
    then show ?thesis using j by simp
  qed
  moreover have "OrderToPosition q i = i" if "\<not> q_random q" "i < q_length q" for i
  proof -
    have "active_order q ! i = [0..<q_length q] ! i" using ord that by (simp add: order_ok_def)
    then show ?thesis using that by (simp add: OrderToPosition_def)
  qed
  moreover have "q_length q \<le> q_max_length q" using ok by (simp add: queue_ok_def shape_ok_def)
  ultimately show ?thesis by blast
qed

text \<open>A queue of room for three songs with two appended, in random mode.\<close>

definition example_item :: "char \<Rightarrow> nat \<Rightarrow> 8 word \<Rightarrow> char Item" where
  "example_item song n priority = \<lparr>i_song = song, i_id = n, i_version = 1, i_priority = priority\<rparr>"

definition example_empty :: "char queue" where
  "example_empty = Queue_new (replicate 3 (example_item CHR ''-'' 0 0)) [0, 0, 0] (replicate 12 0)"

definition example_queue :: "char queue" where
  "example_queue =
     \<lparr>q_max_length = 3, q_length = 2, q_version = 1,
      q_items = [example_item CHR ''a'' 1 0, example_item CHR ''b'' 2 7, example_item CHR ''-'' 0 0],
      q_order = [0, 1, 0],
      q_id_table = \<lparr>it_size = 12, it_initialized = 3, it_next = 3, it_data = [0, 0, 1, 0, 0, 0, 0, 0, 0, 0, 0, 0]\<rparr>,
      q_repeat = False, q_single = SINGLE_OFF, q_consume = CONSUME_OFF, q_random = True,
      q_last_loaded_playlist = []\<rparr>"

lemma GenerateId_fresh:
  "it_next t = it_initialized t \<Longrightarrow> GenerateId t = Some (it_next t,
     t\<lparr>it_next := if it_next t + 1 = it_size t then 1 else it_next t + 1, it_initialized := it_initialized t + 1\<rparr>)"
  by (subst GenerateId.simps) (simp add: Let_def)

lemma example_reach: "queue_reach 3 example_queue"
proof -
  note appended = Queue_Append_def IdTable_Insert_def GenerateId_fresh Queue_IsFull_def
  define q1 where "q1 = example_queue\<lparr>q_length := 1, q_items := [example_item CHR ''a'' 1 0, example_item CHR ''-'' 0 0, example_item CHR ''-'' 0 0],
    q_order := [0, 0, 0], q_random := False,
    q_id_table := \<lparr>it_size = 12, it_initialized = 2, it_next = 2, it_data = [0, 0, 0, 0, 0, 0, 0, 0, 0, 0, 0, 0]\<rparr>\<rparr>"
  have empty: "example_empty = example_queue\<lparr>q_length := 0, q_items := replicate 3 (example_item CHR ''-'' 0 0),
    q_order := [0, 0, 0], q_random := False,
    q_id_table := \<lparr>it_size = 12, it_initialized = 1, it_next = 1, it_data = [0, 0, 0, 0, 0, 0, 0, 0, 0, 0, 0, 0]\<rparr>\<rparr>"
    by (simp add: example_empty_def example_queue_def Queue_new_def IdTable_new_def numeral_nat)
  have "queue_reach 3 example_empty"
    unfolding example_empty_def by (rule queue_reach.new) (simp_all add: HASH_MULT_def)
  moreover have "Queue_Append CHR ''a'' 0 example_empty = Some (1, q1)"
    unfolding empty q1_def by (simp add: appended example_queue_def example_item_def numeral_nat)
  moreover have "\<not> Queue_IsFull example_empty" by (simp add: Queue_IsFull_def example_empty_def Queue_new_def)
  ultimately have r1: "queue_reach 3 q1" by (blast intro: queue_reach.step queue_step.append)
  define q2 where "q2 = example_queue\<lparr>q_random := False\<rparr>"
  have "Queue_Append CHR ''b'' 7 q1 = Some (2, q2)"
    unfolding q2_def q1_def by (simp add: appended example_queue_def example_item_def numeral_nat)
  moreover have "\<not> Queue_IsFull q1" by (simp add: Queue_IsFull_def q1_def example_queue_def)
  ultimately have "queue_reach 3 q2" using r1 by (blast intro: queue_reach.step queue_step.append)
  moreover have "q2\<lparr>q_random := True\<rparr> = example_queue" by (simp add: q2_def example_queue_def)
  ultimately show ?thesis using queue_reach.step queue_step.random_on [of q2] by fastforce
qed

lemma example_facts:
  "q_length example_queue = 2" "q_random example_queue" "PositionToId example_queue (Suc 0) = 2"
  "contents example_queue = [(CHR ''a'', 1, 0), (CHR ''b'', 2, 7)]"
  "played example_queue = [(CHR ''a'', 1, 0), (CHR ''b'', 2, 7)]"
  by (simp_all add: example_queue_def example_item_def contents_def played_def item_key_def PositionToId_def numeral_2_eq_2)

theorem Queue_addresses_agree_witness:
  "queue_reach 3 example_queue \<and> (0 :: nat) < 3 \<and> Queue_IdToPosition example_queue 2 = 1 \<and>
   PositionToOrder example_queue (OrderToPosition example_queue 1) = Some 1"
proof -
  note agree = Queue_addresses_agree [OF example_reach zero_less_numeral, unfolded example_facts(1)]
  have "1 < (2 :: nat)" by simp
  then have "Queue_IdToPosition example_queue (PositionToId example_queue 1) = int 1"
    "PositionToOrder example_queue (OrderToPosition example_queue 1) = Some 1"
    using agree by blast+
  then show ?thesis using example_reach by (simp add: example_facts)
qed

text \<open>
  Property C11 (refinement): for every reachable queue the operations on positions are the
  operations on the list of its songs (with id and priority): Append returns for a queue that is
  not full, with an id no other song has, and adds the song at the end; MovePostion, MoveRange
  and SwapPositions move elements of the list and keep, in random mode, the order in which the
  moved songs are played; DeletePosition removes the one element from the list and from the order.
\<close>

theorem Queue_refines_list:
  assumes "queue_reach max_length q" "0 < max_length"
  shows "(q_length q < q_max_length q \<longrightarrow>
      (\<exists>n q'. Queue_Append song priority q = Some (n, q') \<and> n \<notin> PositionToId q ` {..<q_length q} \<and>
        contents q' = contents q @ [(song, n, priority)])) \<and>
    (\<forall>i j. i < q_length q \<and> j < q_length q \<longrightarrow>
      contents (MovePostion i j q) = move_elem i j (contents q) \<and>
      (q_random q \<longrightarrow> played (MovePostion i j q) = played q) \<and>
      contents (SwapPositions i j q) = (contents q)[i := contents q ! j, j := contents q ! i]) \<and>
    (\<forall>s e j. s \<le> e \<and> e \<le> q_length q \<and> j + (e - s) \<le> q_length q \<longrightarrow>
      contents (MoveRange s e j q) = move_block s e j (contents q) \<and>
      (q_random q \<longrightarrow> played (MoveRange s e j q) = played q)) \<and>
    (\<forall>i < q_length q. \<exists>ord q'. DeletePosition i q = Some q' \<and> contents q' = remove_nth i (contents q) \<and>
      OrderToPosition q ord = i \<and> played q' = remove_nth ord (played q))"
proof -
  have ok: "queue_ok q" by (rule queue_ok_reach [OF assms])
  then have shape: "shape_ok q" and linked: "linked_ids q" by (simp_all add: queue_ok_def)
  have "\<exists>n q'. Queue_Append song priority q = Some (n, q') \<and> n \<notin> PositionToId q ` {..<q_length q} \<and>
        contents q' = contents q @ [(song, n, priority)]" if "q_length q < q_max_length q"
  proof (rule Queue_Append_cases [OF ok])
    show "\<not> Queue_IsFull q" using that by (simp add: Queue_IsFull_def)
    fix n q' assume res: "Queue_Append song priority q = Some (n, q')" "free_id (q_id_table q) n"
      "q' = q\<lparr>q_length := q_length q + 1,
         q_id_table := (table_after (q_id_table q) n)\<lparr>it_data := (it_data (q_id_table q))[n := int (q_length q)]\<rparr>,
         q_items := (q_items q)[q_length q :=
           \<lparr>i_song = song, i_id = n, i_version = q_version q, i_priority = priority\<rparr>],
         q_order := (q_order q)[q_length q := q_length q]\<rparr>"
    have "q_length q < length (q_items q)" using that shape by (simp add: shape_ok_def)
    then have "contents q' = contents q @ [(song, n, priority)]"
      by (simp add: res(3) contents_def item_key_def take_Suc_conv_app_nth)
    moreover have "n \<notin> PositionToId q ` {..<q_length q}"
      using res(2) linked_idsD [OF linked] by (force simp: free_id_def)
    ultimately show ?thesis using res(1) by blast
  qed
  moreover have "\<exists>ord q'. DeletePosition i q = Some q' \<and> contents q' = remove_nth i (contents q) \<and>
      OrderToPosition q ord = i \<and> played q' = remove_nth ord (played q)" if "i < q_length q" for i
    by (rule DeletePosition_correct [OF ok that]) blast
  moreover have "contents (MoveRange s e j q) = move_block s e j (contents q) \<and>
      (q_random q \<longrightarrow> played (MoveRange s e j q) = played q)"
    if "s \<le> e \<and> e \<le> q_length q \<and> j + (e - s) \<le> q_length q" for s e j
    using MoveRange_correct [OF ok, of s e j] that by blast
  moreover have "contents (MovePostion i j q) = move_elem i j (contents q) \<and>
      (q_random q \<longrightarrow> played (MovePostion i j q) = played q) \<and>
      contents (SwapPositions i j q) = (contents q)[i := contents q ! j, j := contents q ! i]"
    if "i < q_length q \<and> j < q_length q" for i j
    using MovePostion_correct [OF ok, of i j] SwapPositions_correct [OF ok, of i j] that by blast
  ultimately show ?thesis by (intro conjI allI impI) blast+
qed

theorem Queue_refines_list_witness:
  "queue_reach 3 example_queue \<and> (0 :: nat) < 3 \<and>
   contents (MovePostion 0 1 example_queue) = [(CHR ''b'', 2, 7), (CHR ''a'', 1, 0)] \<and>
   played (MovePostion 0 1 example_queue) = [(CHR ''a'', 1, 0), (CHR ''b'', 2, 7)]"
proof -
  note list = Queue_refines_list [OF example_reach zero_less_numeral, unfolded example_facts(1), THEN conjunct2, THEN conjunct1]
  have "contents (MovePostion 0 1 example_queue) = move_elem 0 1 (contents example_queue)"
    "played (MovePostion 0 1 example_queue) = played example_queue"
    using spec [OF spec [OF list, of 0], of 1] example_facts(2) by simp_all
  then show ?thesis using example_reach by (simp add: example_facts move_elem_def)
qed

text \<open>
  Property C24 (functional): ShuffleOrder of a reachable queue in random mode, for any way to
  permute a group of songs, plays every song exactly once, songs of a higher priority before
  those of a lower one, and changes neither the songs nor their positions.
\<close>

theorem ShuffleOrder_by_priority:
  assumes "queue_reach max_length q" "0 < max_length" "q_random q" "shuffler_ok shuffle"
  defines "q' \<equiv> ShuffleOrder shuffle q"
  shows "mset (played q') = mset (contents q) \<and> q_items q' = q_items q \<and>
    (\<forall>j < q_length q. \<forall>i \<le> j. GetOrderPriority q' j \<le> GetOrderPriority q' i)"
proof (cases "q_length q = 0")
  case True
  then show ?thesis by (simp add: q'_def ShuffleOrder_def ShuffleOrderRangeWithPriority_def played_def contents_def)
next
  case False
  have ok: "queue_ok q" by (rule queue_ok_reach [OF assms(1,2)])
  define q1 where "q1 = queue_sort_order_by_priority 0 (q_length q) q"
  note sorted = sorted_queue_by_priority [OF ok assms(3) le0 order_refl, folded q1_def]
  have "shuffled_from q1 q'"
    using ShuffleOrderRangeWithPriority_from [OF assms(4) ok assms(3) _ order_refl] False
    by (simp add: q'_def ShuffleOrder_def q1_def)
  then have q': "queue_ok q'" "q' = q1\<lparr>q_order := q_order q'\<rparr>" "priorities q' = priorities q1"
    by (simp_all add: shuffled_from_def)
  have same1: "q_items q1 = q_items q" "q_length q1 = q_length q" by (subst sorted(3), simp)+
  have same: "q_items q' = q_items q" "q_length q' = q_length q" by (subst q'(2), simp add: same1)+
  have "mset (played q') = image_mset (\<lambda>p. item_key (q_items q ! p)) (mset [0..<q_length q])"
    using q'(1) by (simp add: played_def same queue_ok_def order_ok_def)
  also have "\<dots> = mset (map (\<lambda>p. item_key (q_items q ! p)) [0..<q_length q])" by simp
  also have "map (\<lambda>p. item_key (q_items q ! p)) [0..<q_length q] = contents q"
    using ok by (intro nth_equalityI) (auto simp: contents_def queue_ok_def shape_ok_def)
  finally show ?thesis
    using sorted(4) [of _ _] nth_priorities [OF q'(1)] q'(3) by (auto simp: same)
qed

theorem ShuffleOrder_by_priority_witness:
  "queue_reach 3 example_queue \<and> (0 :: nat) < 3 \<and> q_random example_queue \<and> shuffler_ok (\<lambda>_. rev) \<and>
   mset (played (ShuffleOrder (\<lambda>_. rev) example_queue)) = {# (CHR ''b'', 2, 7), (CHR ''a'', 1, 0) #} \<and>
   GetOrderPriority (ShuffleOrder (\<lambda>_. rev) example_queue) 1 \<le> GetOrderPriority (ShuffleOrder (\<lambda>_. rev) example_queue) 0"
proof -
  have rev: "shuffler_ok (\<lambda>_. rev)" by (simp add: shuffler_ok_def)
  note shuffled = ShuffleOrder_by_priority [OF example_reach zero_less_numeral example_facts(2) rev, unfolded example_facts(1)]
  have "0 \<le> (1 :: nat)" "1 < (2 :: nat)" by simp_all
  then have "GetOrderPriority (ShuffleOrder (\<lambda>_. rev) example_queue) 1 \<le> GetOrderPriority (ShuffleOrder (\<lambda>_. rev) example_queue) 0"
    using shuffled by blast
  then show ?thesis using shuffled [THEN conjunct1] example_reach rev by (simp add: example_facts add_mset_commute)
qed

text \<open>
  IdToPosition accepts the id 0, which GenerateId never gives out and whose slot is never
  written: the result is whatever the uninitialised array held.
\<close>

lemma IdToPosition_zero_uninitialised: "Queue_IdToPosition (Queue_new items ord (x # data)) 0 = x"
  by (simp add: Queue_IdToPosition_def Queue_new_def IdTable_new_def IdTable_IdToPosition_def)

end
