(* ===== verification/Uri_Util.thy ===== *)
theory Uri_Util
  imports Path_Traits
begin

text \<open>
  util/UriUtil.cxx, util/UriRelative.cxx and the parts of util/UriExtract.cxx they use. A C string
  ends at its terminator: reading behind it, or the front of an empty view, is \<open>UB\<close>. A view into a
  URI is the pair of the text before it and the view.
\<close>

section \<open>Splitting a URI (util/UriExtract.cxx)\<close>

definition IsValidSchemeChar :: "char \<Rightarrow> bool" where
  "IsValidSchemeChar ch \<longleftrightarrow> IsLowerAlphaASCII ch \<or> IsDigitASCII ch \<or> ch = CHR ''+'' \<or> ch = CHR ''.'' \<or> ch = CHR ''-''"

definition IsValidScheme :: "string \<Rightarrow> bool" where
  "IsValidScheme p \<longleftrightarrow> p \<noteq> [] \<and> IsLowerAlphaASCII (hd p) \<and> list_all IsValidSchemeChar (tl p)"

definition uri_after_scheme :: "string \<Rightarrow> (string \<times> string) option outcome" where
  "uri_after_scheme uri =
     (if 2 < length uri \<and> take 2 uri = ''//'' \<and> uri ! 2 \<noteq> CHR ''/'' then Returns (Some (''//'', drop 2 uri))
      else
        (case Split uri CHR '':'' of
           (_, None) \<Rightarrow> Returns None
         | (scheme, Some rest) \<Rightarrow>
             if \<not> IsValidScheme scheme then Returns None
             else if rest = [] then UB
             else if hd rest \<noteq> CHR ''/'' then Returns None
             else if tl rest = [] then UB
             else if hd (tl rest) \<noteq> CHR ''/'' then Returns None
             else Returns (Some (scheme @ ''://'', tl (tl rest)))))"

definition uri_get_path_query_fragment :: "string \<Rightarrow> (string \<times> string) option outcome" where
  "uri_get_path_query_fragment uri =
     and_then (uri_after_scheme uri) (\<lambda>ap.
       case ap of
         Some (pre, rest) \<Rightarrow>
           (case Split rest CHR ''/'' of
              (_, None) \<Rightarrow> Returns None
            | (host, Some p) \<Rightarrow> Returns (Some (pre @ host, CHR ''/'' # p)))
       | None \<Rightarrow> Returns (Some ([], uri)))"

definition uri_get_path :: "string \<Rightarrow> (string \<times> string) option outcome" where
  "uri_get_path uri =
     and_then (uri_get_path_query_fragment uri) (\<lambda>path.
       case path of
         None \<Rightarrow> Returns None
       | Some (pre, p) \<Rightarrow>
           if pre = [] then Returns (Some (pre, p))
           else if CHR ''?'' \<in> set p then Returns (Some (pre, takeWhile (\<lambda>c. c \<noteq> CHR ''?'') p))
           else Returns (Some (pre, takeWhile (\<lambda>c. c \<noteq> CHR ''#'') p)))"

section \<open>Checks and edits (util/UriUtil.cxx)\<close>

definition verify_uri_segment :: "string \<Rightarrow> string option outcome" where
  "verify_uri_segment p =
     (let r = dropWhile (\<lambda>c. c = CHR ''.'') p; dots = length p - length r
      in if dots \<le> 2 \<and> (r = [] \<or> hd r = CHR ''/'') then Returns None
         else if r = [] then UB
         else Returns (Some (dropWhile (\<lambda>c. c \<noteq> CHR ''/'') (tl r))))"

lemma verify_uri_segment_shorter: "verify_uri_segment p = Returns (Some q) \<Longrightarrow> length q < length p"
proof -
  assume "verify_uri_segment p = Returns (Some q)"
  then have q: "q = dropWhile (\<lambda>c. c \<noteq> CHR ''/'') (tl (dropWhile (\<lambda>c. c = CHR ''.'') p))"
    and ne: "dropWhile (\<lambda>c. c = CHR ''.'') p \<noteq> []"
    by (auto simp: verify_uri_segment_def Let_def split: if_splits)
  have "length q \<le> length (tl (dropWhile (\<lambda>c. c = CHR ''.'') p))" unfolding q by (rule length_dropWhile_le)
  also have "\<dots> < length (dropWhile (\<lambda>c. c = CHR ''.'') p)" using ne by (cases "dropWhile (\<lambda>c. c = CHR ''.'') p") simp_all
  also have "\<dots> \<le> length p" by (rule length_dropWhile_le)
  finally show ?thesis .
qed

function uri_safe_local :: "string \<Rightarrow> bool outcome" where
  "uri_safe_local uri =
     and_then (verify_uri_segment uri) (\<lambda>q.
       case q of
         None \<Rightarrow> Returns False
       | Some r \<Rightarrow> if r = [] then Returns True else uri_safe_local (tl r))"
  by pat_completeness auto
termination
  by (relation "measure length") (auto dest!: verify_uri_segment_shorter simp: le_less_trans [OF diff_le_self])

declare uri_safe_local.simps [simp del]

fun skip_scheme :: "string list \<Rightarrow> string \<Rightarrow> (string \<times> string) option" where
  "skip_scheme [] uri = None"
| "skip_scheme (s # ss) uri =
     (if StringIsEqualIgnoreCase (take (length s) uri) s then Some (take (length s) uri, drop (length s) uri)
      else skip_scheme ss uri)"

definition SkipUriScheme :: "string \<Rightarrow> (string \<times> string) option" where
  "SkipUriScheme uri = skip_scheme [''http://'', ''https://'', ''ftp://'', ''smb://''] uri"

definition uri_remove_auth :: "string \<Rightarrow> string" where
  "uri_remove_auth uri =
     (case SkipUriScheme uri of
        None \<Rightarrow> []
      | Some (pre, auth) \<Rightarrow>
          (let host = takeWhile (\<lambda>c. c \<noteq> CHR ''/'') auth; rest = dropWhile (\<lambda>c. c \<noteq> CHR ''/'') auth
           in case Split host CHR ''@'' of
                (_, None) \<Rightarrow> []
              | (_, Some h) \<Rightarrow> pre @ h @ rest))"

text \<open>
  The segments in reverse order; \<open>first\<close> says that the iterator is at the beginning of the list, so
  that no slash follows.
\<close>

fun squash_segments :: "bool \<Rightarrow> nat \<Rightarrow> string list \<Rightarrow> string \<Rightarrow> string" where
  "squash_segments first segskips [] result = result"
| "squash_segments first segskips (seg # path) result =
     (if seg = ''..'' then squash_segments False (segskips + 1) path result
      else if segskips \<noteq> 0 then squash_segments False (segskips - 1) path result
      else squash_segments False segskips path (seg @ (if first then [] else ''/'') @ result))"

definition uri_squash_dot_segments :: "string \<Rightarrow> string" where
  "uri_squash_dot_segments uri =
     squash_segments True 0
       (rev (filter (\<lambda>seg. seg \<noteq> ''.'') (if uri = [] then [] else IterableSplitString uri CHR ''/''))) []"

section \<open>Relative URIs (util/UriRelative.cxx)\<close>

definition uri_is_child :: "string \<Rightarrow> string \<Rightarrow> bool" where
  "uri_is_child parent child \<longleftrightarrow>
     (case StringAfterPrefix child parent of
        None \<Rightarrow> False
      | Some suffix \<Rightarrow> suffix \<noteq> [] \<and> (parent = [] \<or> last parent = CHR ''/'' \<or> hd suffix = CHR ''/''))"

definition uri_is_child_or_same :: "string \<Rightarrow> string \<Rightarrow> bool" where
  "uri_is_child_or_same parent child \<longleftrightarrow> parent = child \<or> uri_is_child parent child"

text \<open>The branch for absolute paths, which both functions have.\<close>

definition replace_uri_path :: "string \<Rightarrow> string \<Rightarrow> string" where
  "replace_uri_path uri base =
     (case before_substring base ''://'' of
        None \<Rightarrow> uri
      | Some scheme \<Rightarrow> scheme @ ''://'' @ takeWhile (\<lambda>c. c \<noteq> CHR ''/'') (drop (length scheme + 3) base) @ uri)"

definition uri_apply_base :: "string \<Rightarrow> string \<Rightarrow> string outcome" where
  "uri_apply_base uri base =
     (if uri = [] then UB
      else if hd uri = CHR ''/'' then Returns (replace_uri_path uri base)
      else if base = [] then UB
      else Returns (base @ (if last base \<noteq> CHR ''/'' then ''/'' else []) @ uri))"

definition ClearFilename :: "string \<Rightarrow> string" where
  "ClearFilename path = (case SplitLast path CHR ''/'' of (a, Some _) \<Rightarrow> a @ ''/'' | (_, None) \<Rightarrow> [])"

definition StripLeadingSlashes :: "string \<Rightarrow> string" where
  "StripLeadingSlashes s = dropWhile (\<lambda>c. c = CHR ''/'') s"

definition ConsumeLastSegment :: "string \<Rightarrow> (bool \<times> string) outcome" where
  "ConsumeLastSegment path =
     (if path = [] then UB
      else (case SplitLast (butlast path) CHR ''/'' of
              (_, None) \<Rightarrow> Returns (False, butlast path)
            | (a, Some _) \<Rightarrow> Returns (True, a @ ''/'')))"

function ConsumeSpecial :: "string \<Rightarrow> string \<Rightarrow> (bool \<times> string \<times> string) outcome" where
  "ConsumeSpecial relative_path base_path =
     (if StringStartsWith relative_path ''./'' then
        ConsumeSpecial (StripLeadingSlashes (drop 2 relative_path)) base_path
      else if StringStartsWith relative_path ''../'' then
        and_then (ConsumeLastSegment base_path) (\<lambda>r.
          case r of (ok, base_path') \<Rightarrow>
            if ok then ConsumeSpecial (StripLeadingSlashes (drop 3 relative_path)) base_path'
            else Returns (False, StripLeadingSlashes (drop 3 relative_path), base_path'))
      else if relative_path = ''.'' then Returns (True, [], base_path)
      else Returns (True, relative_path, base_path))"
  by pat_completeness auto
termination
  by (relation "measure (\<lambda>(r, _). length r)")
    (auto simp: StringStartsWith_iff StripLeadingSlashes_def intro!: le_less_trans [OF length_dropWhile_le])

declare ConsumeSpecial.simps [simp del]

function skip_dot_slash :: "string \<Rightarrow> string" where
  "skip_dot_slash p = (if StringStartsWith p ''./'' then skip_dot_slash (drop 2 p) else p)"
  by pat_completeness auto
termination
  by (relation "measure length") (auto simp: StringStartsWith_iff)

declare skip_dot_slash.simps [simp del]

definition uri_apply_relative :: "string \<Rightarrow> string \<Rightarrow> string outcome" where
  "uri_apply_relative relative_uri base_uri =
     (if relative_uri = [] then Returns base_uri
      else if uri_has_scheme relative_uri then Returns relative_uri
      else if hd relative_uri = CHR ''/'' then Returns (replace_uri_path relative_uri base_uri)
      else
        and_then (uri_get_path base_uri) (\<lambda>path.
          case path of
            None \<Rightarrow>
              (let relative_path = skip_dot_slash relative_uri
               in if StringStartsWith relative_path ''../'' then Returns []
                  else Returns (base_uri @ ''/'' @ (if relative_path \<noteq> ''.'' then relative_path else [])))
          | Some (pre, base_path) \<Rightarrow>
              and_then (ConsumeSpecial relative_uri (ClearFilename base_path)) (\<lambda>r.
                case r of (ok, relative_path, base_path') \<Rightarrow>
                  if ok then Returns (pre @ base_path' @ relative_path) else Returns [])))"

section \<open>What \<open>uri_safe_local\<close> accepts\<close>

definition dots_only :: "string \<Rightarrow> bool" where
  "dots_only s \<longleftrightarrow> list_all (\<lambda>c. c = CHR ''.'') s"

definition bad_segment :: "string \<Rightarrow> bool" where
  "bad_segment s \<longleftrightarrow> s = [] \<or> s = ''.'' \<or> s = ''..''"

lemma dots_only_replicate: "dots_only s \<longleftrightarrow> s = replicate (length s) CHR ''.''"
  unfolding dots_only_def list_all_iff by (metis in_set_replicate replicate_eqI)

lemma short_dots: "dots_only s \<and> length s \<le> 2 \<longleftrightarrow> bad_segment s"
proof
  assume s: "dots_only s \<and> length s \<le> 2"
  then have "s = replicate (length s) CHR ''.''" "length s = 0 \<or> length s = 1 \<or> length s = 2"
    using le_Suc_eq numeral_2_eq_2 by (auto simp: dots_only_replicate)
  then show "bad_segment s" by (auto simp: bad_segment_def numeral_2_eq_2)
qed (auto simp: bad_segment_def dots_only_def)

lemma verify_uri_segment_step:
  assumes "CHR ''/'' \<notin> set s" "rest = [] \<or> hd rest = CHR ''/''"
  shows "bad_segment s \<Longrightarrow> verify_uri_segment (s @ rest) = Returns None"
    and "\<not> dots_only s \<Longrightarrow> verify_uri_segment (s @ rest) = Returns (Some rest)"
    and "\<lbrakk>dots_only s; 3 \<le> length s\<rbrakk> \<Longrightarrow> verify_uri_segment (s @ rest) =
      (if rest = [] then UB else Returns (Some (dropWhile (\<lambda>c. c \<noteq> CHR ''/'') (tl rest))))"
proof -
  have all: "dropWhile (\<lambda>c. c = CHR ''.'') (s @ rest) = rest" if "dots_only s"
  proof -
    have "dropWhile (\<lambda>c. c = CHR ''.'') (s @ rest) = dropWhile (\<lambda>c. c = CHR ''.'') rest"
      using that by (simp add: dropWhile_append2 dots_only_def list_all_iff)
    then show ?thesis using assms(2) by (cases rest) auto
  qed
  show "verify_uri_segment (s @ rest) = Returns None" if "bad_segment s"
    using that short_dots [of s] all assms(2) by (auto simp: verify_uri_segment_def Let_def)
  show "verify_uri_segment (s @ rest) =
      (if rest = [] then UB else Returns (Some (dropWhile (\<lambda>c. c \<noteq> CHR ''/'') (tl rest))))"
    if "dots_only s" "3 \<le> length s"
    using that all by (simp add: verify_uri_segment_def Let_def)
  assume "\<not> dots_only s"
  then obtain c t where t: "dropWhile (\<lambda>c. c = CHR ''.'') s = c # t"
    by (cases "dropWhile (\<lambda>c. c = CHR ''.'') s") (auto simp: dots_only_def list_all_iff)
  have sub: "set (c # t) \<subseteq> set s" unfolding t [symmetric] by (auto dest: set_dropWhileD)
  then have c: "c \<noteq> CHR ''/''" "CHR ''/'' \<notin> set t" using assms(1) by auto
  have "dropWhile (\<lambda>c. c = CHR ''.'') (s @ rest) = c # t @ rest"
    using \<open>\<not> dots_only s\<close> t by (subst dropWhile_append) (auto simp: dots_only_def list_all_iff)
  moreover have "dropWhile (\<lambda>c. c \<noteq> CHR ''/'') (t @ rest) = rest"
    using c(2) assms(2) by (subst dropWhile_append2) (auto, cases rest, auto)
  ultimately show "verify_uri_segment (s @ rest) = Returns (Some rest)"
    using c(1) by (simp add: verify_uri_segment_def Let_def)
qed

lemma uri_safe_local_segments:
  "\<forall>s \<in> set (IterableSplitString uri CHR ''/''). dots_only s \<longrightarrow> length s \<le> 2 \<Longrightarrow>
   uri_safe_local uri = Returns (\<forall>s \<in> set (IterableSplitString uri CHR ''/''). \<not> bad_segment s)"
proof (induction "length uri" arbitrary: uri rule: less_induct)
  case less
  show ?case
  proof (cases uri "CHR ''/''" rule: Split_cases)
    case (found a b)
    have split: "IterableSplitString uri CHR ''/'' = a # IterableSplitString b CHR ''/''"
      using found by (subst IterableSplitString.simps) simp
    have IH: "uri_safe_local b = Returns (\<forall>s \<in> set (IterableSplitString b CHR ''/''). \<not> bad_segment s)"
      using less.prems unfolding split by (intro less.hyps) (simp_all add: found(1))
    have "bad_segment a \<or> \<not> dots_only a" using less.prems short_dots [of a] unfolding split by auto
    then show ?thesis
      using verify_uri_segment_step(1,2) [OF found(2), of "CHR ''/'' # b"] short_dots [of a] IH
      unfolding split by (subst uri_safe_local.simps) (auto simp: found(1))
  next
    case absent
    have split: "IterableSplitString uri CHR ''/'' = [uri]"
      using absent by (subst IterableSplitString.simps) simp
    have "bad_segment uri \<and> dots_only uri \<or> \<not> bad_segment uri \<and> \<not> dots_only uri"
      using less.prems short_dots [of uri] unfolding split by auto
    then show ?thesis
      using verify_uri_segment_step(1,2) [OF absent(1), of "[]"]
      unfolding split by (subst uri_safe_local.simps) auto
  qed
qed

lemma uri_safe_local_dots:
  assumes "dots_only s" "3 \<le> length s" "CHR ''/'' \<notin> set t"
  shows "uri_safe_local s = UB" "uri_safe_local (s @ CHR ''/'' # t) = Returns True"
    "uri_safe_local (s @ CHR ''/'' # t @ CHR ''/'' # u) = uri_safe_local u"
proof -
  have s: "CHR ''/'' \<notin> set s" using assms(1) by (auto simp: dots_only_def list_all_iff)
  have skip: "dropWhile (\<lambda>c. c \<noteq> CHR ''/'') (t @ v) = v" if "v = [] \<or> hd v = CHR ''/''" for v
    using assms(3) that by (subst dropWhile_append2) (auto, cases v, auto)
  note step = verify_uri_segment_step(3) [OF s _ assms(1,2)]
  show "uri_safe_local s = UB"
    using step [of "[]"] by (subst uri_safe_local.simps) simp
  show "uri_safe_local (s @ CHR ''/'' # t) = Returns True"
    using step [of "CHR ''/'' # t"] skip [of "[]"] by (subst uri_safe_local.simps) simp
  show "uri_safe_local (s @ CHR ''/'' # t @ CHR ''/'' # u) = uri_safe_local u"
    using step [of "CHR ''/'' # t @ CHR ''/'' # u"] skip [of "CHR ''/'' # u"] by (subst uri_safe_local.simps) simp
qed

section \<open>Children\<close>

lemma uri_is_child_iff:
  assumes "parent \<noteq> []" "last parent \<noteq> CHR ''/''"
  shows "uri_is_child parent child \<longleftrightarrow> (\<exists>s. child = parent @ CHR ''/'' # s)"
proof
  assume "uri_is_child parent child"
  then obtain suffix where "child = parent @ suffix" "suffix \<noteq> []" "hd suffix = CHR ''/''"
    using assms by (auto simp: uri_is_child_def StringAfterPrefix_Some_iff split: option.splits)
  then show "\<exists>s. child = parent @ CHR ''/'' # s" by (metis list.collapse)
qed (auto simp: uri_is_child_def)

lemma uri_is_child_below:
  "uri_is_child_or_same (p @ CHR ''/'' # s) (p @ CHR ''/'' # u) \<longleftrightarrow>
   s = u \<or> (case StringAfterPrefix u s of None \<Rightarrow> False
            | Some suffix \<Rightarrow> suffix \<noteq> [] \<and> (s = [] \<or> last s = CHR ''/'' \<or> hd suffix = CHR ''/''))"
proof -
  have "StringAfterPrefix (p @ CHR ''/'' # u) (p @ CHR ''/'' # s) = StringAfterPrefix u s"
    by (induction p) simp_all
  then show ?thesis
    by (auto simp: uri_is_child_or_same_def uri_is_child_def split: option.split)
qed

section \<open>Resolving relative references\<close>

text \<open>
  The reference: a base is the list of its directories, a reference a list of \<open>.\<close> and \<open>..\<close> steps
  before a name.
\<close>

fun resolve :: "string list \<Rightarrow> string list \<Rightarrow> string list option" where
  "resolve ds [] = Some ds"
| "resolve ds (step # steps) =
     (if step = ''..'' then (if ds = [] then None else resolve (butlast ds) steps) else resolve ds steps)"

definition slashed :: "string list \<Rightarrow> string" where
  "slashed ds = concat (map (\<lambda>d. d @ ''/'') ds)"

lemma slashed_simps [simp]: "slashed [] = []" "slashed (d # ds) = d @ CHR ''/'' # slashed ds"
  "slashed (ds @ es) = slashed ds @ slashed es"
  by (simp_all add: slashed_def)

lemma butlast_slashed: "butlast (CHR ''/'' # slashed ds) @ ''/'' = CHR ''/'' # slashed ds"
  by (cases ds rule: rev_cases) (simp_all add: butlast_append)

lemma SplitLast_slashed:
  assumes "CHR ''/'' \<notin> set d"
  shows "SplitLast (CHR ''/'' # slashed es @ d) CHR ''/'' = (butlast (CHR ''/'' # slashed es), Some d)"
proof -
  have eq: "CHR ''/'' # slashed es @ d = butlast (CHR ''/'' # slashed es) @ CHR ''/'' # d"
    by (cases es rule: rev_cases) (simp_all add: butlast_append)
  show ?thesis unfolding eq by (rule SplitLast_append [OF assms])
qed

lemma ConsumeLastSegment_slashed:
  assumes "\<forall>d \<in> set ds. CHR ''/'' \<notin> set d"
  shows "ConsumeLastSegment (CHR ''/'' # slashed ds) =
    Returns (if ds = [] then (False, []) else (True, CHR ''/'' # slashed (butlast ds)))"
proof (cases ds rule: rev_cases)
  case Nil
  then show ?thesis by (simp add: ConsumeLastSegment_def SplitLast_def)
next
  case (snoc es d)
  then have path: "butlast (CHR ''/'' # slashed ds) = CHR ''/'' # slashed es @ d" by (simp add: butlast_append)
  have "ConsumeLastSegment (CHR ''/'' # slashed ds) = Returns (True, butlast (CHR ''/'' # slashed es) @ ''/'')"
    using assms SplitLast_slashed [of d es] snoc unfolding ConsumeLastSegment_def path by simp
  then show ?thesis using snoc by (simp add: butlast_slashed del: butlast.simps)
qed

lemma ConsumeSpecial_resolve:
  assumes "CHR ''/'' \<notin> set f" "f \<noteq> []" "f \<noteq> ''.''"
  shows "\<lbrakk>\<forall>d \<in> set ds. CHR ''/'' \<notin> set d; set steps \<subseteq> {''.'', ''..''}\<rbrakk> \<Longrightarrow>
    (case resolve ds steps of
       Some es \<Rightarrow> ConsumeSpecial (slashed steps @ f) (CHR ''/'' # slashed ds) = Returns (True, f, CHR ''/'' # slashed es)
     | None \<Rightarrow> \<exists>r b. ConsumeSpecial (slashed steps @ f) (CHR ''/'' # slashed ds) = Returns (False, r, b))"
proof (induction steps arbitrary: ds)
  case Nil
  have "\<not> StringStartsWith f ''./''" "\<not> StringStartsWith f ''../''"
    using assms(1) by (auto simp: StringStartsWith_iff)
  then show ?case using assms by (subst ConsumeSpecial.simps) simp
next
  case (Cons step steps)
  have strip: "StripLeadingSlashes (slashed steps @ f) = slashed steps @ f"
    using Cons.prems(2) assms by (cases steps; cases f) (auto simp: StripLeadingSlashes_def)
  show ?case
  proof (cases "step = ''..''")
    case True
    then have rest: "StripLeadingSlashes (drop 3 (slashed (step # steps) @ f)) = slashed steps @ f"
        and "StringStartsWith (slashed (step # steps) @ f) ''../''" "\<not> StringStartsWith (slashed (step # steps) @ f) ''./''"
      using strip by (simp_all add: StringStartsWith_def)
    then have "ConsumeSpecial (slashed (step # steps) @ f) b =
        and_then (ConsumeLastSegment b) (\<lambda>r. case r of (ok, b') \<Rightarrow>
          if ok then ConsumeSpecial (slashed steps @ f) b' else Returns (False, slashed steps @ f, b'))" for b
      unfolding ConsumeSpecial.simps [of "slashed (step # steps) @ f"] rest by (simp only: if_True if_False)
    then have "ConsumeSpecial (slashed (step # steps) @ f) (CHR ''/'' # slashed ds) =
        (if ds = [] then Returns (False, slashed steps @ f, [])
         else ConsumeSpecial (slashed steps @ f) (CHR ''/'' # slashed (butlast ds)))"
      by (simp add: ConsumeLastSegment_slashed [OF Cons.prems(1)] del: slashed_simps)
    then show ?thesis
      using True Cons.IH [of "butlast ds"] Cons.prems
      by (cases "ds = []"; cases "resolve (butlast ds) steps") (auto simp: in_set_butlastD simp del: slashed_simps)
  next
    case False
    then have "step = ''.''" using Cons.prems(2) by simp
    then have "ConsumeSpecial (slashed (step # steps) @ f) b = ConsumeSpecial (slashed steps @ f) b" for b
      by (subst ConsumeSpecial.simps) (simp add: StringStartsWith_def strip)
    then show ?thesis using False Cons.IH [of ds] Cons.prems by (cases "resolve ds steps") (simp_all del: slashed_simps)
  qed
qed

lemma before_substring_absent: "c \<notin> set s \<Longrightarrow> before_substring s (c # t) = None"
  by (induction s) (auto simp: StringStartsWith_iff)

lemma uri_apply_relative_resolve:
  assumes f: "CHR ''/'' \<notin> set f" "CHR '':'' \<notin> set f" "f \<noteq> []" "f \<noteq> ''.''"
    and ds: "\<forall>d \<in> set ds. valid_name d" and steps: "set steps \<subseteq> {''.'', ''..''}" and name: "valid_name name"
  shows "uri_apply_relative (slashed steps @ f) (CHR ''/'' # slashed ds @ name) =
    Returns (case resolve ds steps of None \<Rightarrow> [] | Some es \<Rightarrow> CHR ''/'' # slashed es @ f)"
proof -
  let ?rel = "slashed steps @ f" and ?base = "CHR ''/'' # slashed ds @ name"
  have "\<forall>d \<in> set ds. CHR ''/'' \<notin> set d" using ds by (simp add: valid_name_def)
  note special = ConsumeSpecial_resolve [OF f(1,3,4) this steps]
  have rel: "?rel \<noteq> []" "hd ?rel \<noteq> CHR ''/''" using steps f by (cases steps; cases f; auto)+
  have "CHR '':'' \<notin> set ?rel" using steps f(2) by (auto simp: slashed_def)
  then have scheme: "\<not> uri_has_scheme ?rel"
    by (simp add: uri_has_scheme_def uri_get_scheme_def before_substring_absent del: set_append)
  have "take 2 ?base \<noteq> ''//''"
    using ds name by (cases ds; cases name) (auto simp: valid_name_def neq_Nil_conv)
  moreover have "\<not> IsValidScheme (CHR ''/'' # x)" for x by (simp add: IsValidScheme_def IsLowerAlphaASCII_def)
  moreover have "Split ?base CHR '':'' = (a, r) \<Longrightarrow> \<exists>x. a = CHR ''/'' # x" for a r
    by (auto simp: Split_def split: if_splits)
  ultimately have "uri_after_scheme ?base = Returns None"
    by (auto simp: uri_after_scheme_def split: prod.splits option.splits)
  then have path: "uri_get_path ?base = Returns (Some ([], ?base))"
    by (simp add: uri_get_path_def uri_get_path_query_fragment_def)
  have "ClearFilename ?base = CHR ''/'' # slashed ds"
    using SplitLast_slashed [of name ds] name butlast_slashed [of ds] by (simp add: ClearFilename_def valid_name_def del: butlast.simps)
  with rel scheme path special show ?thesis
    by (auto simp: uri_apply_relative_def split: option.splits)
qed

section \<open>Properties\<close>

text \<open>
  The check that every URI from a client has to pass. When no segment consists
  of three or more dots, it reads no byte behind the end, and it accepts the URI exactly when no
  segment is empty, \<open>.\<close> or \<open>..\<close>.
\<close>

lemma uri_safe_local_exact:
  assumes "\<forall>s \<in> set (IterableSplitString uri CHR ''/''). dots_only s \<longrightarrow> length s \<le> 2"
  shows "uri_safe_local uri = Returns (\<forall>s \<in> set (IterableSplitString uri CHR ''/''). \<not> bad_segment s)"
  using assms by (rule uri_safe_local_segments)

text \<open>
  A segment of three or more dots defeats the check. At the end of the URI the
  search for the next slash starts behind the terminator; elsewhere it starts behind the slash, so
  that the segment after it, which may be \<open>..\<close>, is never looked at.
\<close>

lemma uri_safe_local_skips:
  assumes "dots_only s" "3 \<le> length s" "CHR ''/'' \<notin> set t"
  shows "uri_safe_local s = UB \<and> uri_safe_local (s @ CHR ''/'' # t) = Returns True \<and>
    uri_safe_local (s @ CHR ''/'' # t @ CHR ''/'' # u) = uri_safe_local u"
  using uri_safe_local_dots [OF assms] by blast

end
