(* ===== verification/Song_Filter.thy ===== *)
theory Song_Filter
  imports Db_Save Uri_Util
begin

text \<open>
  The song filters of song/: \<open>StringFilter\<close>, the subclasses of \<open>ISongFilter\<close>, \<open>OptimizeSongFilter\<close>
  and the part of \<open>SongFilter\<close> that works on parsed filters; with the conversions between the
  classes of songs they look at (song/LightSong.hxx, song/DetachedSong.cxx,
  db/plugins/simple/ExportedSong.hxx and PrefixedLightSong.hxx). \<open>IcuCanonicalize\<close> (ICU) and the
  regular expressions of PCRE are parameters.
\<close>

section \<open>Songs\<close>

text \<open>The copy that the move constructor of \<open>ExportedSong\<close> makes.\<close>

definition LightSong_copy :: "LightSong \<Rightarrow> Tag \<Rightarrow> LightSong" where
  "LightSong_copy src tag =
     \<lparr>ls_directory = ls_directory src, ls_uri = ls_uri src, real_uri = real_uri src, ls_tag = tag,
      ls_mtime = ls_mtime src, ls_added = time_point_min, ls_start_time = ls_start_time src,
      ls_end_time = ls_end_time src, ls_audio_format = ls_audio_format src, ls_priority = 0\<rparr>"

definition ExportedSong_move :: "LightSong \<Rightarrow> LightSong" where
  "ExportedSong_move src = LightSong_copy src (ls_tag src)"

definition PrefixedLightSong :: "LightSong \<Rightarrow> string \<Rightarrow> LightSong" where
  "PrefixedLightSong song base = song\<lparr>ls_uri := Build base (LightSong_GetURI song), ls_directory := None\<rparr>"

definition DetachedSong_of_light :: "LightSong \<Rightarrow> DetachedSong" where
  "DetachedSong_of_light other =
     \<lparr>ds_uri = LightSong_GetURI other, ds_real_uri = (case real_uri other of Some u \<Rightarrow> u | None \<Rightarrow> []),
      ds_tag = ls_tag other, ds_mtime = ls_mtime other, ds_added = ls_added other,
      ds_start_time = ls_start_time other, ds_end_time = ls_end_time other,
      ds_audio_format = ls_audio_format other\<rparr>"

definition LightSong_of_detached :: "DetachedSong \<Rightarrow> LightSong" where
  "LightSong_of_detached s =
     \<lparr>ls_directory = None, ls_uri = ds_uri s,
      real_uri = (if ds_real_uri s = [] then None else Some (ds_real_uri s)), ls_tag = ds_tag s,
      ls_mtime = ds_mtime s, ls_added = ds_added s, ls_start_time = ds_start_time s,
      ls_end_time = ds_end_time s, ls_audio_format = AudioFormat_Undefined, ls_priority = 0\<rparr>"

definition IsRemote :: "DetachedSong \<Rightarrow> bool" where
  "IsRemote s \<longleftrightarrow> uri_has_scheme (if ds_real_uri s \<noteq> [] then ds_real_uri s else ds_uri s)"

definition IsAbsoluteFile :: "DetachedSong \<Rightarrow> bool" where
  "IsAbsoluteFile s \<longleftrightarrow> IsAbsolute (if ds_real_uri s \<noteq> [] then ds_real_uri s else ds_uri s)"

definition IsInDatabase :: "DetachedSong \<Rightarrow> bool" where
  "IsInDatabase s \<longleftrightarrow> \<not> IsAbsoluteOrHasScheme (ds_uri s)"

section \<open>Comparing strings\<close>

record filter_env =
  IcuCanonicalize :: "string \<Rightarrow> string"
  UniqueRegex :: "string \<Rightarrow> bool \<Rightarrow> string + (string \<Rightarrow> bool)"

definition IcuCompare_equals :: "filter_env \<Rightarrow> string \<Rightarrow> string \<Rightarrow> bool" where
  "IcuCompare_equals env needle haystack \<longleftrightarrow> IcuCanonicalize env haystack = IcuCanonicalize env needle"

fun StringFind :: "string \<Rightarrow> string \<Rightarrow> string option" where
  "StringFind [] needle = (if needle = [] then Some [] else None)"
| "StringFind (c # s) needle = (if StringStartsWith (c # s) needle then Some (c # s) else StringFind s needle)"

definition IcuCompare_IsIn :: "filter_env \<Rightarrow> string \<Rightarrow> string \<Rightarrow> bool" where
  "IcuCompare_IsIn env needle haystack \<longleftrightarrow> StringFind (IcuCanonicalize env haystack) (IcuCanonicalize env needle) \<noteq> None"

definition IcuCompare_StartsWith :: "filter_env \<Rightarrow> string \<Rightarrow> string \<Rightarrow> bool" where
  "IcuCompare_StartsWith env needle haystack \<longleftrightarrow> StringStartsWith (IcuCanonicalize env haystack) (IcuCanonicalize env needle)"

datatype Position = FULL | ANYWHERE | PREFIX

record StringFilter =
  sf_value :: string
  sf_fold_case :: bool
  sf_regex :: bool
  sf_position :: Position
  sf_negated :: bool

definition StringFilter_new :: "string \<Rightarrow> bool \<Rightarrow> Position \<Rightarrow> bool \<Rightarrow> StringFilter" where
  "StringFilter_new value fold_case position negated =
     \<lparr>sf_value = value, sf_fold_case = fold_case, sf_regex = False, sf_position = position, sf_negated = negated\<rparr>"

definition ToggleNegated :: "StringFilter \<Rightarrow> StringFilter" where
  "ToggleNegated f = f\<lparr>sf_negated := \<not> sf_negated f\<rparr>"

definition GetOperator :: "StringFilter \<Rightarrow> string" where
  "GetOperator f =
     (if sf_regex f then (if sf_negated f then ''!~'' else ''=~'')
      else (case sf_position f of
              ANYWHERE \<Rightarrow> if sf_negated f then ''!contains'' else ''contains''
            | PREFIX \<Rightarrow> if sf_negated f then ''!starts_with'' else ''starts_with''
            | FULL \<Rightarrow> if sf_negated f then ''!='' else ''==''))"

text \<open>A filter has a regular expression only when it compiled.\<close>

definition MatchWithoutNegation :: "filter_env \<Rightarrow> StringFilter \<Rightarrow> string \<Rightarrow> bool" where
  "MatchWithoutNegation env f s \<longleftrightarrow>
     (if sf_regex f then
        (case UniqueRegex env (sf_value f) (sf_fold_case f) of Inr m \<Rightarrow> m s | Inl _ \<Rightarrow> False)
      else if sf_fold_case f then
        (case sf_position f of
           FULL \<Rightarrow> IcuCompare_equals env (sf_value f) s
         | ANYWHERE \<Rightarrow> IcuCompare_IsIn env (sf_value f) s
         | PREFIX \<Rightarrow> IcuCompare_StartsWith env (sf_value f) s)
      else
        (case sf_position f of
           FULL \<Rightarrow> sf_value f = s
         | ANYWHERE \<Rightarrow> StringFind s (sf_value f) \<noteq> None
         | PREFIX \<Rightarrow> StringStartsWith s (sf_value f)))"

definition StringFilter_Match :: "filter_env \<Rightarrow> StringFilter \<Rightarrow> string \<Rightarrow> bool" where
  "StringFilter_Match env f s \<longleftrightarrow> MatchWithoutNegation env f s \<noteq> sf_negated f"

section \<open>Filters\<close>

text \<open>
  The tag of a \<open>TagSongFilter\<close>: a tag type, \<open>TAG_NUM_OF_ITEM_TYPES\<close> for any tag, or a larger number
  (the special values of song/Filter.cxx cast to \<open>TagType\<close>).
\<close>

datatype filter_tag = FilterTag TagType | FilterAny | FilterBeyond

datatype song_filter =
    AndSongFilter "song_filter list"
  | NotSongFilter song_filter
  | TagSongFilter filter_tag StringFilter
  | UriSongFilter StringFilter
  | BaseSongFilter string
  | ModifiedSinceSongFilter time_point
  | AddedSinceSongFilter time_point
  | AudioFormatSongFilter AudioFormat
  | PrioritySongFilter "8 word"

type_synonym SongFilter = "song_filter list"

text \<open>The sweep over the items of a tag: found, or the types that have been visited.\<close>

fun tag_sweep :: "filter_env \<Rightarrow> filter_tag \<Rightarrow> StringFilter \<Rightarrow> TagItem list \<Rightarrow> TagType list \<Rightarrow> bool \<times> TagType list" where
  "tag_sweep env type f [] visited_types = (False, visited_types)"
| "tag_sweep env type f ((t, v) # r) visited_types =
     (if (type = FilterAny \<or> type = FilterTag t) \<and> MatchWithoutNegation env f v then (True, t # visited_types)
      else tag_sweep env type f r (t # visited_types))"

definition TagSongFilter_fallback ::
    "filter_env \<Rightarrow> StringFilter \<Rightarrow> TagItem list \<Rightarrow> TagType list \<Rightarrow> TagType \<Rightarrow> bool \<Rightarrow> bool \<times> bool" where
  "TagSongFilter_fallback env f is visited_types tag2 result =
     (if tag2 \<notin> set visited_types then (False, result)
      else (True, if list_ex (\<lambda>(t, v). t = tag2 \<and> MatchWithoutNegation env f v) is then True else result))"

definition TagSongFilter_Match :: "filter_env \<Rightarrow> filter_tag \<Rightarrow> StringFilter \<Rightarrow> Tag \<Rightarrow> bool" where
  "TagSongFilter_Match env type f tag =
     (case tag_sweep env type f (items tag) [] of
        (True, _) \<Rightarrow> \<not> sf_negated f
      | (False, visited_types) \<Rightarrow>
          (case type of
             FilterTag t \<Rightarrow>
               if t \<notin> set visited_types then
                 (case ApplyTagFallback t (TagSongFilter_fallback env f (items tag) visited_types) False of
                    (True, result) \<Rightarrow> result \<noteq> sf_negated f
                  | (False, _) \<Rightarrow> if sf_value f = [] then \<not> sf_negated f else sf_negated f)
               else sf_negated f
           | _ \<Rightarrow> sf_negated f))"

fun Match :: "filter_env \<Rightarrow> song_filter \<Rightarrow> LightSong \<Rightarrow> bool" where
  "Match env (AndSongFilter fs) song \<longleftrightarrow> list_all (\<lambda>f. Match env f song) fs"
| "Match env (NotSongFilter f) song \<longleftrightarrow> \<not> Match env f song"
| "Match env (TagSongFilter type f) song \<longleftrightarrow> TagSongFilter_Match env type f (ls_tag song)"
| "Match env (UriSongFilter f) song \<longleftrightarrow> StringFilter_Match env f (LightSong_GetURI song)"
| "Match env (BaseSongFilter value) song \<longleftrightarrow> uri_is_child_or_same value (LightSong_GetURI song)"
| "Match env (ModifiedSinceSongFilter value) song \<longleftrightarrow> value \<le> ls_mtime song"
| "Match env (AddedSinceSongFilter value) song \<longleftrightarrow> value \<le> ls_added song"
| "Match env (AudioFormatSongFilter value) song \<longleftrightarrow> IsDefined (ls_audio_format song) \<and> MatchMask (ls_audio_format song) value"
| "Match env (PrioritySongFilter value) song \<longleftrightarrow> value \<le> ls_priority song"

definition SongFilter_Match :: "filter_env \<Rightarrow> SongFilter \<Rightarrow> LightSong \<Rightarrow> bool" where
  "SongFilter_Match env sf song \<longleftrightarrow> Match env (AndSongFilter sf) song"

fun OptimizeSongFilter :: "song_filter \<Rightarrow> song_filter"
  and OptimizeSongFilter_items :: "song_filter list \<Rightarrow> song_filter list" where
  "OptimizeSongFilter (AndSongFilter fs) =
     (case OptimizeSongFilter_items fs of [g] \<Rightarrow> g | gs \<Rightarrow> AndSongFilter gs)"
| "OptimizeSongFilter (NotSongFilter f) =
     (case OptimizeSongFilter f of
        TagSongFilter type s \<Rightarrow> TagSongFilter type (ToggleNegated s)
      | UriSongFilter s \<Rightarrow> UriSongFilter (ToggleNegated s)
      | child \<Rightarrow> NotSongFilter child)"
| "OptimizeSongFilter f = f"
| "OptimizeSongFilter_items [] = []"
| "OptimizeSongFilter_items (f # fs) =
     (case OptimizeSongFilter f of
        AndSongFilter nested \<Rightarrow> nested @ OptimizeSongFilter_items fs
      | g \<Rightarrow> g # OptimizeSongFilter_items fs)"

definition SongFilter_Optimize :: "SongFilter \<Rightarrow> SongFilter" where
  "SongFilter_Optimize sf = OptimizeSongFilter_items sf"

fun item_fold_case :: "song_filter \<Rightarrow> bool" where
  "item_fold_case (TagSongFilter type f) = sf_fold_case f"
| "item_fold_case (UriSongFilter f) = sf_fold_case f"
| "item_fold_case _ = False"

definition HasFoldCase :: "SongFilter \<Rightarrow> bool" where
  "HasFoldCase sf \<longleftrightarrow> list_ex item_fold_case sf"

fun is_base :: "song_filter \<Rightarrow> bool" where
  "is_base (BaseSongFilter v) = True"
| "is_base _ = False"

definition SongFilter_HasOtherThanBase :: "SongFilter \<Rightarrow> bool" where
  "SongFilter_HasOtherThanBase sf \<longleftrightarrow> list_ex (\<lambda>f. \<not> is_base f) sf"

fun SongFilter_GetBase :: "SongFilter \<Rightarrow> string option" where
  "SongFilter_GetBase [] = None"
| "SongFilter_GetBase (BaseSongFilter v # sf) = Some v"
| "SongFilter_GetBase (f # sf) = SongFilter_GetBase sf"

fun item_without_prefix :: "string \<Rightarrow> song_filter \<Rightarrow> song_filter list" where
  "item_without_prefix prefix (BaseSongFilter v) =
     (case StringAfterPrefix v prefix of
        Some s \<Rightarrow>
          if s = [] then []
          else if hd s = CHR ''/'' then (if tl s \<noteq> [] then [BaseSongFilter (tl s)] else [])
          else [BaseSongFilter v]
      | None \<Rightarrow> [BaseSongFilter v])"
| "item_without_prefix prefix f = [f]"

definition WithoutBasePrefix :: "string \<Rightarrow> SongFilter \<Rightarrow> SongFilter" where
  "WithoutBasePrefix prefix sf = concat (map (item_without_prefix prefix) sf)"

section \<open>Tag filters\<close>

definition selects :: "filter_tag \<Rightarrow> TagType \<Rightarrow> bool" where
  "selects type t \<longleftrightarrow> type = FilterAny \<or> type = FilterTag t"

lemma tag_sweep_spec:
  "(fst (tag_sweep env type f is vis) \<longleftrightarrow> (\<exists>(t, v) \<in> set is. selects type t \<and> MatchWithoutNegation env f v)) \<and>
   (\<not> fst (tag_sweep env type f is vis) \<longrightarrow> set (snd (tag_sweep env type f is vis)) = fst ` set is \<union> set vis)"
  by (induction env type f "is" vis rule: tag_sweep.induct) (auto simp: selects_def)

text \<open>The types whose values count for a tag filter: the first of the list that the tag has.\<close>

fun tag_fallbacks :: "TagType \<Rightarrow> TagType list" where
  "tag_fallbacks TAG_ALBUM_ARTIST_SORT = [TAG_ALBUM_ARTIST, TAG_ARTIST]"
| "tag_fallbacks TAG_ALBUM_ARTIST = [TAG_ARTIST]"
| "tag_fallbacks TAG_ARTIST_SORT = [TAG_ARTIST]"
| "tag_fallbacks TAG_ALBUM_SORT = [TAG_ALBUM]"
| "tag_fallbacks TAG_TITLE_SORT = [TAG_TITLE]"
| "tag_fallbacks TAG_COMPOSERSORT = [TAG_COMPOSER]"
| "tag_fallbacks _ = []"

definition effective_type :: "Tag \<Rightarrow> TagType \<Rightarrow> TagType option" where
  "effective_type tag t = find (HasType tag) (t # tag_fallbacks t)"

definition has_match :: "filter_env \<Rightarrow> StringFilter \<Rightarrow> Tag \<Rightarrow> TagType \<Rightarrow> bool" where
  "has_match env f tag t \<longleftrightarrow> (\<exists>v. (t, v) \<in> set (items tag) \<and> MatchWithoutNegation env f v)"

fun fallback_loop :: "(TagType \<Rightarrow> 's \<Rightarrow> bool \<times> 's) \<Rightarrow> TagType list \<Rightarrow> 's \<Rightarrow> bool \<times> 's" where
  "fallback_loop f [] s = (False, s)"
| "fallback_loop f (t # ts) s = (case f t s of (True, s') \<Rightarrow> (True, s') | (False, s') \<Rightarrow> fallback_loop f ts s')"

lemma fallback_loop_last: "fallback_loop f [t] s = f t s"
  by (cases "f t s") (auto split: bool.splits)

lemma ApplyTagFallback_loop: "ApplyTagFallback t f s = fallback_loop f (tag_fallbacks t) s"
proof -
  have "ApplyTagFallback1 t f s = fallback_loop f (tag_fallbacks t) s" if "t \<noteq> TAG_ALBUM_ARTIST_SORT" for t s
    using that by (cases t) (simp_all add: ApplyTagFallback1_def fallback_loop_last del: fallback_loop.simps(2))
  then show ?thesis
    by (cases "t = TAG_ALBUM_ARTIST_SORT") (auto simp: ApplyTagFallback_def split: prod.splits bool.splits)
qed

lemma fallback_loop_find:
  "fallback_loop (TagSongFilter_fallback env f (items tag) vis) ts False =
     (case find (\<lambda>u. u \<in> set vis) ts of Some u \<Rightarrow> (True, has_match env f tag u) | None \<Rightarrow> (False, False))"
  by (induction ts) (auto simp: TagSongFilter_fallback_def has_match_def list_ex_iff)

lemma HasType_iff: "HasType tag t \<longleftrightarrow> t \<in> fst ` set (items tag)"
  by (force simp: HasType_def GetValue_def find_None_iff)

lemma TagSongFilter_Match_type:
  "TagSongFilter_Match env (FilterTag t) f tag \<longleftrightarrow>
     (case effective_type tag t of Some u \<Rightarrow> has_match env f tag u | None \<Rightarrow> sf_value f = []) \<noteq> sf_negated f"
proof -
  obtain found vis where sweep: "tag_sweep env (FilterTag t) f (items tag) [] = (found, vis)" by fastforce
  have found: "found \<longleftrightarrow> has_match env f tag t"
    using tag_sweep_spec [of env "FilterTag t" f "items tag" "[]"] unfolding sweep by (auto simp: selects_def has_match_def)
  show ?thesis
  proof (cases found)
    case True
    then have "HasType tag t" using found by (force simp: HasType_iff has_match_def)
    then show ?thesis using True found by (simp add: TagSongFilter_Match_def sweep effective_type_def)
  next
    case False
    then have vis: "u \<in> set vis \<longleftrightarrow> HasType tag u" for u
      using tag_sweep_spec [of env "FilterTag t" f "items tag" "[]"] unfolding sweep by (auto simp: HasType_iff)
    show ?thesis
      using False found
      by (auto simp: TagSongFilter_Match_def sweep effective_type_def ApplyTagFallback_loop fallback_loop_find vis
          split: option.splits)
  qed
qed

lemma TagSongFilter_Match_any:
  "TagSongFilter_Match env FilterAny f tag \<longleftrightarrow> (\<exists>t. has_match env f tag t) \<noteq> sf_negated f"
  "TagSongFilter_Match env FilterBeyond f tag \<longleftrightarrow> sf_negated f"
proof -
  have "TagSongFilter_Match env type f tag \<longleftrightarrow> fst (tag_sweep env type f (items tag) []) \<noteq> sf_negated f"
    if "\<And>t. type \<noteq> FilterTag t" for type
    using that by (cases type) (auto simp: TagSongFilter_Match_def split: prod.splits bool.splits)
  then show "TagSongFilter_Match env FilterAny f tag \<longleftrightarrow> (\<exists>t. has_match env f tag t) \<noteq> sf_negated f"
    "TagSongFilter_Match env FilterBeyond f tag \<longleftrightarrow> sf_negated f"
    using tag_sweep_spec [of env _ f "items tag" "[]"] by (auto simp: selects_def has_match_def)
qed

section \<open>Optimizing\<close>

lemma ToggleNegated_Match:
  "TagSongFilter_Match env type (ToggleNegated f) tag \<longleftrightarrow> \<not> TagSongFilter_Match env type f tag"
  "StringFilter_Match env (ToggleNegated f) s \<longleftrightarrow> \<not> StringFilter_Match env f s"
proof -
  have same: "MatchWithoutNegation env (ToggleNegated f) = MatchWithoutNegation env f"
    by (auto simp: MatchWithoutNegation_def ToggleNegated_def fun_eq_iff split: Position.split)
  then have "has_match env (ToggleNegated f) = has_match env f" by (simp add: has_match_def fun_eq_iff)
  then show "TagSongFilter_Match env type (ToggleNegated f) tag \<longleftrightarrow> \<not> TagSongFilter_Match env type f tag"
    by (cases type)
      (auto simp: TagSongFilter_Match_type TagSongFilter_Match_any ToggleNegated_def split: option.splits)
  show "StringFilter_Match env (ToggleNegated f) s \<longleftrightarrow> \<not> StringFilter_Match env f s"
    by (simp add: StringFilter_Match_def same) (simp add: ToggleNegated_def)
qed

text \<open>
  What optimizing leaves: no conjunction directly in a conjunction or with a single item, and no
  negation of a filter that can negate itself.
\<close>

fun optimized :: "song_filter \<Rightarrow> bool" where
  "optimized (AndSongFilter fs) \<longleftrightarrow>
     length fs \<noteq> 1 \<and> list_all (\<lambda>f. optimized f \<and> (\<forall>gs. f \<noteq> AndSongFilter gs)) fs"
| "optimized (NotSongFilter f) \<longleftrightarrow>
     optimized f \<and> (\<forall>type s. f \<noteq> TagSongFilter type s) \<and> (\<forall>s. f \<noteq> UriSongFilter s)"
| "optimized _ \<longleftrightarrow> True"

lemma case_single: "(case xs of [g] \<Rightarrow> g | gs \<Rightarrow> AndSongFilter gs) = (if length xs = 1 then hd xs else AndSongFilter xs)"
  by (cases xs rule: remdups_adj.cases) simp_all

lemma Match_Optimize:
  "Match env (OptimizeSongFilter f) song \<longleftrightarrow> Match env f song"
  "list_all (\<lambda>g. Match env g song) (OptimizeSongFilter_items fs) \<longleftrightarrow> list_all (\<lambda>f. Match env f song) fs"
proof (induction f and fs rule: OptimizeSongFilter_OptimizeSongFilter_items.induct)
  case (1 fs)
  then show ?case
    by (cases "OptimizeSongFilter_items fs" rule: remdups_adj.cases) (simp_all add: case_single)
next
  case (2 f)
  then show ?case by (cases "OptimizeSongFilter f") (simp_all add: ToggleNegated_Match)
next
  case (5 f fs)
  then show ?case by (cases "OptimizeSongFilter f") simp_all
qed simp_all

lemma Optimize_optimized:
  "optimized (OptimizeSongFilter f)"
  "list_all (\<lambda>g. optimized g \<and> (\<forall>gs. g \<noteq> AndSongFilter gs)) (OptimizeSongFilter_items fs)"
proof (induction f and fs rule: OptimizeSongFilter_OptimizeSongFilter_items.induct)
  case (1 fs)
  then show ?case
    by (cases "OptimizeSongFilter_items fs" rule: remdups_adj.cases) (simp_all add: case_single)
next
  case (2 f)
  then show ?case by (cases "OptimizeSongFilter f") simp_all
next
  case (5 f fs)
  then show ?case by (cases "OptimizeSongFilter f") simp_all
qed simp_all

lemma Optimize_id:
  "optimized f \<Longrightarrow> OptimizeSongFilter f = f"
  "list_all (\<lambda>g. optimized g \<and> (\<forall>gs. g \<noteq> AndSongFilter gs)) fs \<Longrightarrow> OptimizeSongFilter_items fs = fs"
proof (induction f and fs rule: OptimizeSongFilter_OptimizeSongFilter_items.induct)
  case (1 fs)
  then show ?case by (simp add: case_single)
next
  case (2 f)
  then show ?case by (cases f) simp_all
next
  case (5 f fs)
  then show ?case by (cases f) simp_all
qed simp_all

section \<open>Filters for a mounted database\<close>

lemma LightSong_GetURI_prefixed:
  assumes "base \<noteq> []" "last base \<noteq> SEPARATOR" "LightSong_GetURI song \<noteq> []" "hd (LightSong_GetURI song) \<noteq> SEPARATOR"
  shows "LightSong_GetURI (PrefixedLightSong song base) = base @ CHR ''/'' # LightSong_GetURI song"
  using assms by (simp add: PrefixedLightSong_def LightSong_GetURI_def Build_def IsSeparator_def)

text \<open>Filters that do not look at the URI of the song.\<close>

fun uri_free :: "song_filter \<Rightarrow> bool" where
  "uri_free (AndSongFilter fs) = list_all uri_free fs"
| "uri_free (NotSongFilter f) = uri_free f"
| "uri_free (UriSongFilter f) = False"
| "uri_free (BaseSongFilter v) = False"
| "uri_free _ = True"

lemma uri_free_Match: "uri_free f \<Longrightarrow> Match env f (PrefixedLightSong song base) \<longleftrightarrow> Match env f song"
  by (induction f) (auto simp: PrefixedLightSong_def list_all_iff)

lemma item_without_prefix_base:
  assumes "v = [] \<or> v = base \<or> (\<exists>s. v = base @ CHR ''/'' # s)"
    and "LightSong_GetURI song \<noteq> []" "base \<noteq> []"
    and "LightSong_GetURI (PrefixedLightSong song base) = base @ CHR ''/'' # LightSong_GetURI song"
  shows "list_all (\<lambda>g. Match env g song) (item_without_prefix base (BaseSongFilter v)) \<longleftrightarrow>
    Match env (BaseSongFilter v) (PrefixedLightSong song base)"
  using assms(1)
proof (elim disjE exE)
  assume "v = []"
  moreover obtain c b where b: "base = c # b" using assms(3) by (cases base) auto
  ultimately show ?thesis using assms(2,4) unfolding b by (simp add: uri_is_child_or_same_def uri_is_child_def)
next
  assume "v = base"
  moreover have "StringAfterPrefix base base = Some []" using StringAfterPrefix_append [of base "[]"] by simp
  ultimately show ?thesis by (simp add: uri_is_child_or_same_def uri_is_child_def assms(4))
next
  fix s assume v: "v = base @ CHR ''/'' # s"
  show ?thesis
    using assms(2) uri_is_child_below [of base s "LightSong_GetURI song"]
    by (auto simp: v assms(4) uri_is_child_or_same_def uri_is_child_def)
qed

lemma WithoutBasePrefix_Match:
  assumes "\<forall>f \<in> set sf. uri_free f \<or> (\<exists>v. f = BaseSongFilter v \<and> (v = [] \<or> v = base \<or> (\<exists>s. v = base @ CHR ''/'' # s)))"
    and "LightSong_GetURI song \<noteq> []" "base \<noteq> []"
    and "LightSong_GetURI (PrefixedLightSong song base) = base @ CHR ''/'' # LightSong_GetURI song"
  shows "SongFilter_Match env (WithoutBasePrefix base sf) song \<longleftrightarrow> SongFilter_Match env sf (PrefixedLightSong song base)"
  using assms(1)
proof (induction sf)
  case Nil
  then show ?case by (simp add: SongFilter_Match_def WithoutBasePrefix_def)
next
  case (Cons f sf)
  have "list_all (\<lambda>g. Match env g song) (item_without_prefix base f) \<longleftrightarrow> Match env f (PrefixedLightSong song base)"
  proof (cases "uri_free f")
    case True
    then have "item_without_prefix base f = [f]" by (cases f) simp_all
    then show ?thesis using uri_free_Match [OF True] by simp
  next
    case False
    then obtain v where "f = BaseSongFilter v" "v = [] \<or> v = base \<or> (\<exists>s. v = base @ CHR ''/'' # s)"
      using Cons.prems by auto
    then show ?thesis using item_without_prefix_base [OF _ assms(2-4), of v] by blast
  qed
  then show ?case using Cons by (simp add: SongFilter_Match_def WithoutBasePrefix_def)
qed

section \<open>Properties\<close>

text \<open>
  Property C34 (equivalence): optimizing a filter changes no answer. The result is in normal form
  (\<^const>\<open>optimized\<close>), so that optimizing again does nothing.
\<close>

theorem OptimizeSongFilter_correct:
  "Match env (OptimizeSongFilter f) song = Match env f song \<and>
   SongFilter_Match env (SongFilter_Optimize sf) song = SongFilter_Match env sf song \<and>
   optimized (OptimizeSongFilter f) \<and> OptimizeSongFilter (OptimizeSongFilter f) = OptimizeSongFilter f"
  using Match_Optimize(2) [of env song sf]
  by (simp add: Match_Optimize(1) Optimize_optimized(1) Optimize_id(1) SongFilter_Match_def SongFilter_Optimize_def)

text \<open>
  Which values a tag filter compares: those of the first type, among the
  one it names and its fallbacks, that the song has. A song with none of them matches the empty
  value only; negation inverts the answer as a whole, so that a negated filter matches when no
  value does.
\<close>

lemma TagSongFilter_effective:
  "TagSongFilter_Match env (FilterTag t) f tag \<longleftrightarrow>
     (case effective_type tag t of
        Some u \<Rightarrow> \<exists>v. (u, v) \<in> set (items tag) \<and> MatchWithoutNegation env f v
      | None \<Rightarrow> sf_value f = []) \<noteq> sf_negated f"
  using TagSongFilter_Match_type [of env t f tag] unfolding has_match_def .

text \<open>
  The filter that is passed to a mounted database answers for a song of
  that database what the original answers for the song under its full URI, when every \<open>base\<close> item is
  empty, the mount point or below it, and no other item looks at the URI.
\<close>

lemma WithoutBasePrefix_correct:
  assumes "\<forall>f \<in> set sf. uri_free f \<or> (\<exists>v. f = BaseSongFilter v \<and> (v = [] \<or> v = base \<or> (\<exists>s. v = base @ CHR ''/'' # s)))"
    and "base \<noteq> []" "last base \<noteq> SEPARATOR" "LightSong_GetURI song \<noteq> []" "hd (LightSong_GetURI song) \<noteq> SEPARATOR"
  shows "SongFilter_Match env (WithoutBasePrefix base sf) song \<longleftrightarrow> SongFilter_Match env sf (PrefixedLightSong song base)"
  using assms LightSong_GetURI_prefixed [of base song] by (intro WithoutBasePrefix_Match) auto

definition plain_env :: filter_env where
  "plain_env = \<lparr>IcuCanonicalize = (\<lambda>s. s), UniqueRegex = (\<lambda>_ _. Inl [])\<rparr>"

definition sample_light_song :: "string \<Rightarrow> LightSong" where
  "sample_light_song uri = LightSong_of_detached (DetachedSong_new uri)"

lemma sample_light_song_uri [simp]: "LightSong_GetURI (sample_light_song uri) = uri"
  by (simp add: sample_light_song_def LightSong_of_detached_def DetachedSong_new_def LightSong_GetURI_def)

text \<open>
  A \<open>base\<close> item above the mount point is kept as it is, although the mounted
  database does not know that it lies below that directory: every song of the mount is within the
  base, and none whose own path does not happen to begin with the name of the base is found.
\<close>

lemma WithoutBasePrefix_above_mount:
  assumes "b \<noteq> []" "m \<noteq> []" "last m \<noteq> SEPARATOR" "LightSong_GetURI song \<noteq> []" "hd (LightSong_GetURI song) \<noteq> SEPARATOR"
    and "\<not> uri_is_child_or_same b (LightSong_GetURI song)"
  shows "SongFilter_Match env [BaseSongFilter b] (PrefixedLightSong song (b @ CHR ''/'' # m)) \<and>
    \<not> SongFilter_Match env (WithoutBasePrefix (b @ CHR ''/'' # m) [BaseSongFilter b]) song"
proof -
  have "StringAfterPrefix b (b @ CHR ''/'' # m) = None" by (simp add: StringAfterPrefix_None_iff)
  then have "WithoutBasePrefix (b @ CHR ''/'' # m) [BaseSongFilter b] = [BaseSongFilter b]"
    by (simp add: WithoutBasePrefix_def)
  moreover have "LightSong_GetURI (PrefixedLightSong song (b @ CHR ''/'' # m)) = b @ CHR ''/'' # m @ CHR ''/'' # LightSong_GetURI song"
    using LightSong_GetURI_prefixed [of "b @ CHR ''/'' # m" song] assms by simp
  ultimately show ?thesis
    using assms(6) by (simp add: SongFilter_Match_def uri_is_child_or_same_def uri_is_child_def)
qed

text \<open>
  A song of the queue becomes a \<open>LightSong\<close> without its audio format: no filter on the format
  matches it, whatever the format of the song it was made from.
\<close>

lemma queue_song_format_lost: "\<not> Match env (AudioFormatSongFilter v) (LightSong_of_detached s)"
  by (simp add: LightSong_of_detached_def IsDefined_def AudioFormat_Undefined_def)

text \<open>Conversions keep the URI.\<close>

lemma LightSong_GetURI_conversions [simp]:
  "ds_uri (DetachedSong_of_light song) = LightSong_GetURI song"
  "LightSong_GetURI (LightSong_of_detached s) = ds_uri s"
  "LightSong_GetURI (ExportedSong_move song) = LightSong_GetURI song"
  by (simp_all add: DetachedSong_of_light_def LightSong_of_detached_def ExportedSong_move_def LightSong_copy_def LightSong_GetURI_def
      split: option.split)

end
