(* ===== verification/Db_Select.thy ===== *)
theory Db_Select
  imports Song_Filter
begin

text \<open>
  Queries on the simple database: db/Selection.cxx, db/VHelper.cxx, db/UniqueTags.cxx,
  db/Helpers.cxx, db/Count.cxx, db/plugins/simple/Mount.cxx and the query and mount methods of
  db/plugins/simple/SimpleDatabasePlugin.cxx. A visit is the list of callbacks it makes. The
  databases that are mounted below this one are numbers; a parameter says what their \<open>Visit\<close> and
  \<open>GetSong\<close> do.
\<close>

section \<open>Selections (db/Selection.cxx, protocol/RangeArg.hxx)\<close>

record RangeArg =
  range_start :: "32 word"
  range_end :: "32 word"

definition RangeArg_All :: RangeArg where
  "RangeArg_All = \<lparr>range_start = 0, range_end = - 1\<rparr>"

definition RangeArg_Contains :: "RangeArg \<Rightarrow> 32 word \<Rightarrow> bool" where
  "RangeArg_Contains r i \<longleftrightarrow> range_start r \<le> i \<and> i < range_end r"

datatype sort_key = NoSort | SortTag TagType | SORT_TAG_LAST_MODIFIED | SORT_TAG_ADDED

record DatabaseSelection =
  sel_uri :: string
  sel_filter :: "SongFilter option"
  sel_window :: RangeArg
  sel_sort :: sort_key
  sel_descending :: bool
  sel_recursive :: bool

definition DatabaseSelection_new :: "string \<Rightarrow> bool \<Rightarrow> SongFilter option \<Rightarrow> DatabaseSelection" where
  "DatabaseSelection_new uri recursive flt =
     \<lparr>sel_uri = (if uri = [] then
         (case flt of
            None \<Rightarrow> uri
          | Some sf \<Rightarrow> (case SongFilter_GetBase sf of Some base \<Rightarrow> base | None \<Rightarrow> uri)) else uri),
      sel_filter = flt, sel_window = RangeArg_All, sel_sort = NoSort, sel_descending = False,
      sel_recursive = recursive\<rparr>"

definition DatabaseSelection_IsFiltered :: "DatabaseSelection \<Rightarrow> bool" where
  "DatabaseSelection_IsFiltered sel \<longleftrightarrow>
     sel_uri sel \<noteq> [] \<or> (case sel_filter sel of Some sf \<Rightarrow> sf \<noteq> [] | None \<Rightarrow> False)"

definition DatabaseSelection_HasOtherThanBase :: "DatabaseSelection \<Rightarrow> bool" where
  "DatabaseSelection_HasOtherThanBase sel \<longleftrightarrow>
     (case sel_filter sel of Some sf \<Rightarrow> SongFilter_HasOtherThanBase sf | None \<Rightarrow> False)"

definition DatabaseSelection_Match :: "filter_env \<Rightarrow> DatabaseSelection \<Rightarrow> LightSong \<Rightarrow> bool" where
  "DatabaseSelection_Match env sel song \<longleftrightarrow>
     (case sel_filter sel of None \<Rightarrow> True | Some sf \<Rightarrow> SongFilter_Match env sf song)"

section \<open>Sorting and the window (db/VHelper.cxx)\<close>

fun song_before :: "sort_key \<Rightarrow> bool \<Rightarrow> DetachedSong \<Rightarrow> DetachedSong \<Rightarrow> bool" where
  "song_before SORT_TAG_LAST_MODIFIED descending a b =
     (if descending then ds_mtime b < ds_mtime a else ds_mtime a < ds_mtime b)"
| "song_before SORT_TAG_ADDED descending a b =
     (if descending then ds_added b < ds_added a else ds_added a < ds_added b)"
| "song_before (SortTag t) descending a b = CompareTags t descending (ds_tag a) (ds_tag b)"
| "song_before NoSort descending a b = False"

text \<open>
  \<open>Commit\<close>: the songs that go to the visitor. \<open>std::stable_sort\<close> has one result for a strict weak
  order, the one of \<^const>\<open>SortList\<close>.
\<close>

definition Helper_Commit :: "DatabaseSelection \<Rightarrow> DetachedSong list \<Rightarrow> DetachedSong list" where
  "Helper_Commit sel songs0 =
     (let sorted_songs = SortList (song_before (sel_sort sel) (sel_descending sel)) songs0;
          w_start = unat (range_start (sel_window sel)); w_end = unat (range_end (sel_window sel));
          clipped = (if w_end < length sorted_songs then take w_end sorted_songs else sorted_songs)
      in if length clipped \<le> w_start then [] else drop w_start clipped)"

fun window_visits :: "RangeArg \<Rightarrow> 32 word \<Rightarrow> visit list \<Rightarrow> visit list" where
  "window_visits w counter [] = []"
| "window_visits w counter (VisitSong s # vs) =
     (if RangeArg_Contains w counter then VisitSong s # window_visits w (counter + 1) vs
      else window_visits w (counter + 1) vs)"
| "window_visits w counter (v # vs) = v # window_visits w counter vs"

fun is_song_visit :: "visit \<Rightarrow> bool" where
  "is_song_visit (VisitSong s) = True"
| "is_song_visit _ = False"

text \<open>
  The helper replaces the song visitor by one of its own, also when there was none; calling the
  original one then throws.
\<close>

definition helper_replaces :: "DatabaseSelection \<Rightarrow> bool" where
  "helper_replaces sel \<longleftrightarrow> sel_sort sel \<noteq> NoSort \<or> sel_window sel \<noteq> RangeArg_All"

definition helper_visits :: "DatabaseSelection \<Rightarrow> visit_flags \<Rightarrow> visit list \<Rightarrow> visit list outcome" where
  "helper_visits sel v vs =
     (let out = (if sel_sort sel \<noteq> NoSort then
                   filter (\<lambda>x. \<not> is_song_visit x) vs @
                   map (\<lambda>s. VisitSong (LightSong_of_detached s))
                     (Helper_Commit sel (map DetachedSong_of_light (visited_songs vs)))
                 else if sel_window sel \<noteq> RangeArg_All then window_visits (sel_window sel) 0 vs
                 else vs)
      in if helper_replaces sel \<and> \<not> visit_song v \<and> list_ex is_song_visit out then Throws ''bad_function_call''
         else Returns out)"

section \<open>Mounted databases (db/plugins/simple/Mount.cxx)\<close>

definition PrefixedLightDirectory :: "string \<Rightarrow> string \<Rightarrow> string" where
  "PrefixedLightDirectory uri base = (if uri = [] then base else Build base uri)"

fun prefix_visit :: "string \<Rightarrow> visit \<Rightarrow> visit" where
  "prefix_visit base (VisitDirectory p t) = VisitDirectory (PrefixedLightDirectory p base) t"
| "prefix_visit base (VisitSong s) = VisitSong (PrefixedLightSong s base)"
| "prefix_visit base (VisitPlaylist p d t) = VisitPlaylist p (PrefixedLightDirectory d base) t"

type_synonym database_visit = "DatabaseSelection \<Rightarrow> visit_flags \<Rightarrow> visit list outcome"

definition WalkMount :: "string \<Rightarrow> database_visit \<Rightarrow> string \<Rightarrow> DatabaseSelection \<Rightarrow> visit_flags \<Rightarrow> visit list outcome" where
  "WalkMount base db uri old_selection v =
     map_outcome (map (prefix_visit base))
       (db (old_selection\<lparr>sel_uri := uri, sel_filter := map_option (WithoutBasePrefix base) (sel_filter old_selection)\<rparr>) v)"

section \<open>The simple database (db/plugins/simple/SimpleDatabasePlugin.cxx)\<close>

record SimpleDatabase =
  sdb_root :: directory
  sdb_hide_playlist_targets :: bool

text \<open>A directory and its ancestors, innermost first, along the names of a lookup.\<close>

fun lookup_chain :: "directory list \<Rightarrow> directory \<Rightarrow> string list \<Rightarrow> directory list" where
  "lookup_chain ancestors d [] = d # ancestors"
| "lookup_chain ancestors d (n # ns) =
     (case FindChild d n of Some c \<Rightarrow> lookup_chain (d # ancestors) c ns | None \<Rightarrow> d # ancestors)"

text \<open>
  \<open>Directory::Walk\<close> visits a mounted database with the empty URI, for which a simple database does
  not throw.
\<close>

definition mount_walker :: "(nat \<Rightarrow> database_visit) \<Rightarrow> bool \<Rightarrow> SongFilter option \<Rightarrow> visit_flags \<Rightarrow> string \<Rightarrow> nat \<Rightarrow> visit list" where
  "mount_walker dbs recursive flt v base db =
     (case WalkMount base (dbs db) [] (DatabaseSelection_new [] recursive flt) v of Returns vs \<Rightarrow> vs | _ \<Rightarrow> [])"

definition SimpleDatabase_Visit ::
    "filter_env \<Rightarrow> (nat \<Rightarrow> database_visit) \<Rightarrow> SimpleDatabase \<Rightarrow> database_visit" where
  "SimpleDatabase_Visit env dbs sdb sel v =
     (let r = LookupDirectory (sdb_root sdb) (sel_uri sel); d = lr_directory r in
      case mounted_database (dir d) of
        Some db \<Rightarrow> WalkMount (lr_uri r) (dbs db) (rest_view (lr_rest r)) sel v
      | None \<Rightarrow>
          (let chain = lookup_chain [] (sdb_root sdb) (lr_names r);
               v' = v\<lparr>visit_song := visit_song v \<or> helper_replaces sel\<rparr>
           in case lr_rest r of
                None \<Rightarrow>
                  helper_visits sel v
                    ((if sel_recursive sel \<and> visit_directory v then [VisitDirectory (path (dir d)) (dir_mtime (dir d))] else []) @
                     Directory_Walk (mount_walker dbs (sel_recursive sel) (sel_filter sel) v') (sel_recursive sel)
                       (map_option (SongFilter_Match env) (sel_filter sel)) (sdb_hide_playlist_targets sdb) v' (tl chain) d)
              | Some rest \<Rightarrow>
                  if SEPARATOR \<notin> set rest \<and> visit_song v' then
                    (case FindSong d rest of
                       Some song \<Rightarrow>
                         (let song2 = Song_Export chain song
                          in helper_visits sel v (if DatabaseSelection_Match env sel song2 then [VisitSong song2] else []))
                     | None \<Rightarrow> Throws ''No such directory'')
                  else Throws ''No such directory''))"

text \<open>
  \<open>GetSong\<close> constructs its result with the move constructor of \<open>ExportedSong\<close>. The song of a mounted
  database is copied and returned to it at once.
\<close>

definition SimpleDatabase_GetSong ::
    "(nat \<Rightarrow> string \<Rightarrow> LightSong option outcome) \<Rightarrow> SimpleDatabase \<Rightarrow> string \<Rightarrow> LightSong option outcome" where
  "SimpleDatabase_GetSong dbs sdb uri =
     (let r = LookupDirectory (sdb_root sdb) uri; d = lr_directory r; rest = rest_view (lr_rest r) in
      case mounted_database (dir d) of
        Some db \<Rightarrow>
          map_outcome (map_option (\<lambda>song. PrefixedLightSong song (lr_uri r))) (dbs db rest)
      | None \<Rightarrow>
          if rest = [] then Throws ''No such song''
          else if SEPARATOR \<in> set rest then Throws ''No such song''
          else (case FindSong d rest of
                  None \<Rightarrow> Throws ''No such song''
                | Some song \<Rightarrow>
                    Returns (Some (ExportedSong_move (Song_Export (lookup_chain [] (sdb_root sdb) (lr_names r)) song)))))"

definition SimpleDatabase_Mount :: "string \<Rightarrow> nat \<Rightarrow> SimpleDatabase \<Rightarrow> string + SimpleDatabase" where
  "SimpleDatabase_Mount uri db sdb =
     (let r = LookupDirectory (sdb_root sdb) uri in
      case lr_rest r of
        None \<Rightarrow> Inl ''Already exists''
      | Some rest \<Rightarrow>
          if SEPARATOR \<in> set rest then Inl ''Parent not found''
          else Inr (sdb\<lparr>sdb_root := update_names (lr_names r)
            (\<lambda>d. update_child rest (\<lambda>c. Directory ((dir c)\<lparr>mounted_database := Some db\<rparr>) (children c)) (CreateChild rest d))
            (sdb_root sdb)\<rparr>))"

text \<open>The file name of the database of a mounted storage.\<close>

definition IsSafeChar :: "char \<Rightarrow> bool" where
  "IsSafeChar ch \<longleftrightarrow> IsAlphaNumericASCII ch \<or> ch = CHR ''-'' \<or> ch = CHR ''_'' \<or> ch = CHR ''%''"

definition mount_file_name :: "string \<Rightarrow> string" where
  "mount_file_name storage_uri = map (\<lambda>ch. if IsSafeChar ch then ch else CHR ''_'') storage_uri"

text \<open>\<open>Unmount\<close> returns the database that it closes.\<close>

definition SimpleDatabase_Unmount :: "string \<Rightarrow> SimpleDatabase \<Rightarrow> nat option \<times> SimpleDatabase" where
  "SimpleDatabase_Unmount uri sdb =
     (let r = LookupDirectory (sdb_root sdb) uri in
      case (lr_rest r, mounted_database (dir (lr_directory r))) of
        (None, Some db) \<Rightarrow>
          (Some db, sdb\<lparr>sdb_root := update_names (butlast (lr_names r)) (Directory_Delete (last (lr_names r))) (sdb_root sdb)\<rparr>)
      | _ \<Rightarrow> (None, sdb))"

section \<open>Unique tags and statistics (db/UniqueTags.cxx, db/Helpers.cxx, db/Count.cxx)\<close>

definition VisitTagType :: "Tag \<Rightarrow> TagType \<Rightarrow> string list" where
  "VisitTagType tag type = map snd (filter (\<lambda>item. fst item = type) (items tag))"

definition VisitTagWithFallback :: "Tag \<Rightarrow> TagType \<Rightarrow> bool \<times> string list" where
  "VisitTagWithFallback tag type =
     ApplyTagWithFallback type (\<lambda>type2 visited. (VisitTagType tag type2 \<noteq> [], visited @ VisitTagType tag type2)) []"

definition VisitTagWithFallbackOrEmpty :: "Tag \<Rightarrow> TagType \<Rightarrow> string list" where
  "VisitTagWithFallbackOrEmpty tag type =
     (case VisitTagWithFallback tag type of (True, vals) \<Rightarrow> vals | (False, vals) \<Rightarrow> vals @ [[]])"

text \<open>\<open>RecursiveMap\<close>: a \<open>std::map\<close> is the list of its entries in the order of their keys.\<close>

datatype RecursiveMap = RecursiveMap "(string \<times> RecursiveMap) list"

fun map_entries :: "RecursiveMap \<Rightarrow> (string \<times> RecursiveMap) list" where
  "map_entries (RecursiveMap es) = es"

fun update_entry :: "string \<Rightarrow> (RecursiveMap \<Rightarrow> RecursiveMap) \<Rightarrow> (string \<times> RecursiveMap) list \<Rightarrow> (string \<times> RecursiveMap) list" where
  "update_entry key f [] = [(key, f (RecursiveMap []))]"
| "update_entry key f ((k, m) # es) =
     (if k = key then (k, f m) # es
      else if strcmp_less key k then (key, f (RecursiveMap [])) # (k, m) # es
      else (k, m) # update_entry key f es)"

fun CollectUniqueTags_song :: "Tag \<Rightarrow> TagType list \<Rightarrow> RecursiveMap \<Rightarrow> RecursiveMap" where
  "CollectUniqueTags_song tag [] result = result"
| "CollectUniqueTags_song tag (tag_type # tag_types) result =
     fold (\<lambda>val r. RecursiveMap (update_entry val (CollectUniqueTags_song tag tag_types) (map_entries r)))
       (VisitTagWithFallbackOrEmpty tag tag_type) result"

definition CollectUniqueTags :: "LightSong list \<Rightarrow> TagType list \<Rightarrow> RecursiveMap" where
  "CollectUniqueTags visited tag_types =
     fold (\<lambda>song. CollectUniqueTags_song (ls_tag song) tag_types) visited (RecursiveMap [])"

record DatabaseStats =
  song_count :: nat
  total_duration :: nat
  artist_count :: nat
  album_count :: nat

record stats_state =
  ss_stats :: DatabaseStats
  ss_artists :: "string list"
  ss_albums :: "string list"

definition StatsVisitTag :: "Tag \<Rightarrow> stats_state \<Rightarrow> stats_state" where
  "StatsVisitTag tag st =
     fold (\<lambda>item st. case fst item of
             TAG_ARTIST \<Rightarrow> st\<lparr>ss_artists := List.insert (snd item) (ss_artists st)\<rparr>
           | TAG_ALBUM \<Rightarrow> st\<lparr>ss_albums := List.insert (snd item) (ss_albums st)\<rparr>
           | _ \<Rightarrow> st)
       (items tag)
       (if duration tag < 0 then st
        else st\<lparr>ss_stats := (ss_stats st)\<lparr>total_duration := total_duration (ss_stats st) + nat (duration tag)\<rparr>\<rparr>)"

definition StatsVisitSong :: "LightSong \<Rightarrow> stats_state \<Rightarrow> stats_state" where
  "StatsVisitSong song st =
     StatsVisitTag (ls_tag song) (st\<lparr>ss_stats := (ss_stats st)\<lparr>song_count := song_count (ss_stats st) + 1\<rparr>\<rparr>)"

definition GetStats :: "LightSong list \<Rightarrow> DatabaseStats" where
  "GetStats visited =
     (let st = fold StatsVisitSong visited
         \<lparr>ss_stats = \<lparr>song_count = 0, total_duration = 0, artist_count = 0, album_count = 0\<rparr>, ss_artists = [], ss_albums = []\<rparr>
      in (ss_stats st)\<lparr>artist_count := length (ss_artists st), album_count := length (ss_albums st)\<rparr>)"

definition LightSong_GetDuration :: "LightSong \<Rightarrow> int" where
  "LightSong_GetDuration song =
     (if 0 < ls_end_time song then sint (ls_end_time song - ls_start_time song)
      else if duration (ls_tag song) < 0 then duration (ls_tag song)
      else sint (word_of_int (duration (ls_tag song)) - ls_start_time song))"

record SearchStats =
  n_songs :: nat
  search_duration :: nat

definition stats_visitor_song :: "LightSong \<Rightarrow> SearchStats \<Rightarrow> SearchStats" where
  "stats_visitor_song song stats =
     \<lparr>n_songs = n_songs stats + 1,
      search_duration = search_duration stats +
        (if LightSong_GetDuration song < 0 then 0 else nat (LightSong_GetDuration song))\<rparr>"

fun CollectGroupCounts :: "(string \<times> SearchStats) list \<Rightarrow> Tag \<Rightarrow> string \<Rightarrow> (string \<times> SearchStats) list" where
  "CollectGroupCounts [] tag val =
     [(val, \<lparr>n_songs = 1, search_duration = (if duration tag < 0 then 0 else nat (duration tag))\<rparr>)]"
| "CollectGroupCounts ((k, s) # m) tag val =
     (if k = val then
        (k, \<lparr>n_songs = n_songs s + 1,
             search_duration = search_duration s + (if duration tag < 0 then 0 else nat (duration tag))\<rparr>) # m
      else if strcmp_less val k then
        (val, \<lparr>n_songs = 1, search_duration = (if duration tag < 0 then 0 else nat (duration tag))\<rparr>) # (k, s) # m
      else (k, s) # CollectGroupCounts m tag val)"

definition GroupCountVisitor :: "TagType \<Rightarrow> LightSong \<Rightarrow> (string \<times> SearchStats) list \<Rightarrow> (string \<times> SearchStats) list" where
  "GroupCountVisitor grp song m =
     fold (\<lambda>val m. CollectGroupCounts m (ls_tag song) val) (VisitTagWithFallbackOrEmpty (ls_tag song) grp) m"

section \<open>The window\<close>

lemma window_visits_songs:
  "unat c + length (visited_songs vs) < 2 ^ 32 \<Longrightarrow>
   visited_songs (window_visits w c vs) =
     drop (unat (range_start w) - unat c) (take (unat (range_end w) - unat c) (visited_songs vs))"
proof (induction w c vs rule: window_visits.induct)
  case (2 w c s vs)
  have c1: "unat (c + 1) = Suc (unat c)" using "2.prems" by (simp add: unat_word_ariths)
  have IH: "visited_songs (window_visits w (c + 1) vs) =
      drop (unat (range_start w) - Suc (unat c)) (take (unat (range_end w) - Suc (unat c)) (visited_songs vs))"
    using 2 c1 by (cases "RangeArg_Contains w c") simp_all
  show ?case
  proof (cases "RangeArg_Contains w c")
    case True
    then have "unat (range_start w) \<le> unat c" "unat c < unat (range_end w)"
      by (simp_all add: RangeArg_Contains_def word_le_nat_alt word_less_nat_alt)
    then obtain k where "unat (range_end w) - unat c = Suc k" "unat (range_end w) - Suc (unat c) = k" "unat (range_start w) - unat c = 0"
        "unat (range_start w) - Suc (unat c) = 0"
      by (metis Suc_diff_Suc diff_is_0_eq le_SucI)
    then show ?thesis using True IH by simp
  next
    case False
    then consider "unat c < unat (range_start w)" | "unat (range_end w) \<le> unat c"
      by (auto simp: RangeArg_Contains_def word_le_nat_alt word_less_nat_alt)
    then show ?thesis
    proof cases
      case 1
      then have s: "unat (range_start w) - unat c = Suc (unat (range_start w) - Suc (unat c))" by simp
      show ?thesis
      proof (cases "unat (range_end w) - unat c")
        case 0
        then show ?thesis using False IH by simp
      next
        case (Suc k)
        then have "unat (range_end w) - Suc (unat c) = k" by simp
        then show ?thesis using False IH Suc s by simp
      qed
    next
      case 2
      then show ?thesis using False IH by simp
    qed
  qed
qed simp_all

lemma window_visits_others: "filter (\<lambda>x. \<not> is_song_visit x) (window_visits w c vs) = filter (\<lambda>x. \<not> is_song_visit x) vs"
  by (induction w c vs rule: window_visits.induct) simp_all

section \<open>Sorting\<close>

lemma song_before_order:
  "song_before key descending a b \<Longrightarrow> \<not> song_before key descending b a"
  "\<lbrakk>\<not> song_before key descending a b; \<not> song_before key descending b c\<rbrakk> \<Longrightarrow> \<not> song_before key descending a c"
  by (cases key; auto dest: tag_order.less_asym intro: tag_order.not_less_trans split: if_splits;
      meson tag_order.not_less_trans)+

interpretation song_order: strict_weak_order "song_before key descending"
  by unfold_locales (use song_before_order in blast)+

lemma Helper_Commit_window:
  "Helper_Commit sel ss =
     drop (unat (range_start (sel_window sel)))
       (take (unat (range_end (sel_window sel))) (SortList (song_before (sel_sort sel) (sel_descending sel)) ss))"
  by (simp add: Helper_Commit_def Let_def)

lemma visited_songs_filter: "visited_songs vs = [] \<longleftrightarrow> \<not> list_ex is_song_visit vs"
  by (induction vs rule: visited_songs.induct) auto

lemma visited_songs_others [simp]: "visited_songs (filter (\<lambda>x. \<not> is_song_visit x) vs) = []"
  by (simp add: visited_songs_filter list_ex_iff)

lemma filter_others_songs [simp]: "filter (\<lambda>x. \<not> is_song_visit x) (map (\<lambda>s. VisitSong (f s)) ss) = []"
  by (induction ss) simp_all

lemma helper_visits_sorted:
  assumes "visit_song v" "sel_sort sel \<noteq> NoSort"
  shows "helper_visits sel v vs = Returns (filter (\<lambda>x. \<not> is_song_visit x) vs @
    map (\<lambda>s. VisitSong (LightSong_of_detached s)) (Helper_Commit sel (map DetachedSong_of_light (visited_songs vs))))"
  using assms by (simp add: helper_visits_def Let_def)

lemma helper_visits_unsorted:
  assumes "visit_song v" "sel_sort sel = NoSort" "length (visited_songs vs) < 2 ^ 32"
  shows "\<exists>out. helper_visits sel v vs = Returns out \<and>
    filter (\<lambda>x. \<not> is_song_visit x) out = filter (\<lambda>x. \<not> is_song_visit x) vs \<and>
    visited_songs out = drop (unat (range_start (sel_window sel))) (take (unat (range_end (sel_window sel))) (visited_songs vs))"
proof (cases "sel_window sel = RangeArg_All")
  case True
  have "unat (- 1 :: 32 word) = 2 ^ 32 - 1" by (simp add: unsigned_minus_1_eq_mask mask_eq_exp_minus_1)
  then show ?thesis using assms True by (simp add: helper_visits_def RangeArg_All_def)
next
  case False
  then show ?thesis
    using assms window_visits_songs [of 0 vs "sel_window sel"] by (simp add: helper_visits_def Let_def window_visits_others)
qed

section \<open>Visiting a directory\<close>

lemma visited_songs_walk_filter:
  assumes "visit_song v"
  shows "no_mounts d \<Longrightarrow> visited_songs (Directory_Walk wm recursive (Some f) hide v ancestors d) =
    filter f (visited_songs (Directory_Walk wm recursive None hide v ancestors d))"
proof (induction d arbitrary: ancestors)
  case (Directory i cs)
  have none: "mounted_database i = None" using Directory.prems by (simp add: IsMount_def)
  have one: "visited_songs (if b then [VisitDirectory p t] else []) = []" for b p t by simp
  have songs: "visited_songs (map VisitSong ss) = ss" for ss using visited_songs_songs [of id ss] by simp
  have sub: "map (\<lambda>c. visited_songs (Directory_Walk wm recursive (Some f) hide v (Directory i cs # ancestors) c)) cs =
      map (\<lambda>c. filter f (visited_songs (Directory_Walk wm recursive None hide v (Directory i cs # ancestors) c))) cs"
    using Directory by (intro map_cong) auto
  show ?case
    using assms sub
    by (cases recursive) (simp_all add: none visited_songs_concat songs filter_concat comp_def one cong: map_cong)
qed

lemma lookup_chain_hd:
  "lookup_names d ns = Some c \<Longrightarrow> \<exists>rest. lookup_chain ancestors d ns = c # rest"
  by (induction ns arbitrary: d ancestors) (auto split: option.splits)

lemma lookup_names_no_mounts: "\<lbrakk>lookup_names d ns = Some c; no_mounts d\<rbrakk> \<Longrightarrow> no_mounts c"
proof (induction ns arbitrary: d)
  case (Cons n ns)
  then obtain b where b: "FindChild d n = Some b" "lookup_names b ns = Some c" by (auto split: option.splits)
  have "b \<in> set (children d)" using b(1) by (auto simp: FindChild_def find_Some_iff)
  then have "no_mounts b" using Cons.prems(2) by (cases d) auto
  then show ?case using Cons.IH [OF b(2)] by simp
qed simp

lemma lookup_names_tree_all:
  "\<lbrakk>lookup_names d ns = Some c; tree_all_songs P d\<rbrakk> \<Longrightarrow> tree_all_songs P c"
proof (induction ns arbitrary: d)
  case (Cons n ns)
  then obtain b where b: "FindChild d n = Some b" "lookup_names b ns = Some c" by (auto split: option.splits)
  have "b \<in> set (children d)" using b(1) by (auto simp: FindChild_def find_Some_iff)
  then have "tree_all_songs P b" using Cons.prems(2) by (cases d) auto
  then show ?case using Cons.IH [OF b(2)] by simp
qed simp

lemma LookupDirectory_names:
  assumes "wf_directory d" "lookup_names d ns = Some c"
  shows "LookupDirectory d (names_path ns) = \<lparr>lr_names = ns, lr_directory = c, lr_uri = names_path ns, lr_rest = None\<rparr>"
proof (cases ns)
  case Nil
  then show ?thesis using assms by (simp add: LookupDirectory_def isRootDirectory_def)
next
  case (Cons n ms)
  have "\<not> isRootDirectory (names_path ns)"
    using lookup_names_wf [OF assms(2,1)] Cons by (intro names_path_not_root) auto
  then show ?thesis using lookup_loop_hit [of d n ms c] assms Cons by (simp add: LookupDirectory_def)
qed

text \<open>
  A tree whose songs have proper names and that has no mount point, and a selection that names one
  of its directories.
\<close>

definition plain_tree :: "directory \<Rightarrow> bool" where
  "plain_tree d \<longleftrightarrow> wf_directory d \<and> no_mounts d \<and> tree_all_songs (\<lambda>s. valid_name (filename s)) d"

definition directory_songs :: "bool \<Rightarrow> directory list \<Rightarrow> directory \<Rightarrow> LightSong list" where
  "directory_songs hide ancestors c =
     visited_songs (Directory_Walk (\<lambda>_ _. []) True None hide \<lparr>visit_directory = False, visit_song = True, visit_playlist = False\<rparr> ancestors c)"

lemma Directory_Walk_songs_only:
  assumes "visit_song v"
  shows "no_mounts d \<Longrightarrow> visited_songs (Directory_Walk wm recursive flt hide v ancestors d) =
    visited_songs (Directory_Walk wm' recursive flt hide \<lparr>visit_directory = False, visit_song = True, visit_playlist = False\<rparr> ancestors d)"
proof (induction d arbitrary: ancestors)
  case (Directory i cs)
  have none: "mounted_database i = None" using Directory.prems by (simp add: IsMount_def)
  have one: "visited_songs (if b then [VisitDirectory p t] else []) = []" for b p t by simp
  have sub: "map (\<lambda>c. visited_songs (Directory_Walk wm recursive flt hide v (Directory i cs # ancestors) c)) cs =
      map (\<lambda>c. visited_songs (Directory_Walk wm' recursive flt hide
        \<lparr>visit_directory = False, visit_song = True, visit_playlist = False\<rparr> (Directory i cs # ancestors) c)) cs"
    using Directory by (intro map_cong) auto
  show ?case using assms sub by (cases recursive) (simp_all add: none visited_songs_concat comp_def one cong: map_cong)
qed

lemma directory_songs_uris:
  assumes "plain_tree d"
  shows "map LightSong_GetURI (directory_songs hide ancestors d) =
    map fst (filter (\<lambda>(_, s). \<not> (hide \<and> in_playlist s)) (all_songs d))"
  unfolding directory_songs_def using assms by (intro Directory_Walk_songs) (simp_all add: plain_tree_def)

lemma plain_tree_lookup: "\<lbrakk>plain_tree d; lookup_names d ns = Some c\<rbrakk> \<Longrightarrow> plain_tree c"
  using lookup_names_no_mounts lookup_names_tree_all lookup_names_wf by (auto simp: plain_tree_def)

lemma Visit_directory:
  assumes "plain_tree (sdb_root sdb)" "lookup_names (sdb_root sdb) ns = Some c"
    and "sel_uri sel = names_path ns" "sel_recursive sel" "visit_song v"
  shows "\<exists>vs. SimpleDatabase_Visit env dbs sdb sel v = helper_visits sel v vs \<and>
    visited_songs vs = filter (DatabaseSelection_Match env sel)
      (directory_songs (sdb_hide_playlist_targets sdb) (tl (lookup_chain [] (sdb_root sdb) ns)) c)"
proof -
  have plain: "plain_tree c" using plain_tree_lookup [OF assms(1,2)] .
  then have "mounted_database (dir c) = None" by (cases c) (simp add: plain_tree_def IsMount_def)
  moreover have "LookupDirectory (sdb_root sdb) (sel_uri sel) = \<lparr>lr_names = ns, lr_directory = c, lr_uri = names_path ns, lr_rest = None\<rparr>"
    using LookupDirectory_names [OF _ assms(2)] assms(1,3) by (simp add: plain_tree_def)
  moreover have "visited_songs (Directory_Walk wm True (map_option (SongFilter_Match env) (sel_filter sel)) hide (v\<lparr>visit_song := True\<rparr>) anc c) =
      filter (DatabaseSelection_Match env sel) (directory_songs hide anc c)" for wm hide anc
  proof -
    have nm: "no_mounts c" using plain by (simp add: plain_tree_def)
    have "visited_songs (Directory_Walk wm True None hide (v\<lparr>visit_song := True\<rparr>) anc c) = directory_songs hide anc c"
      unfolding directory_songs_def by (rule Directory_Walk_songs_only [OF _ nm]) simp
    moreover have "DatabaseSelection_Match env sel = (case sel_filter sel of None \<Rightarrow> (\<lambda>_. True) | Some sf \<Rightarrow> SongFilter_Match env sf)"
      by (auto simp: DatabaseSelection_Match_def fun_eq_iff split: option.split)
    ultimately show ?thesis
      using visited_songs_walk_filter [OF _ nm, of "v\<lparr>visit_song := True\<rparr>" wm True _ hide anc]
      by (cases "sel_filter sel") simp_all
  qed
  ultimately show ?thesis
    using assms(4,5) by (auto simp: SimpleDatabase_Visit_def Let_def intro!: exI)
qed

section \<open>The base of a filter\<close>

lemma names_path_split:
  "\<lbrakk>\<forall>n \<in> set ns. valid_name n; ns \<noteq> []\<rbrakk> \<Longrightarrow> IterableSplitString (names_path ns) CHR ''/'' = ns"
proof (induction ns rule: induct_list012)
  case (2 n)
  then show ?case by (subst IterableSplitString.simps) (simp add: Split_none valid_name_def)
next
  case (3 n m ms)
  then show ?case by (subst IterableSplitString.simps) (simp add: Split_append valid_name_def)
qed simp

lemma names_path_append: "\<lbrakk>ns \<noteq> []; ms \<noteq> []\<rbrakk> \<Longrightarrow> names_path (ns @ ms) = names_path ns @ CHR ''/'' # names_path ms"
  by (induction ns rule: induct_list012) (cases ms; simp)+

lemma split_names_slash:
  "\<lbrakk>\<forall>n \<in> set ns. valid_name n; ns \<noteq> []\<rbrakk> \<Longrightarrow>
   IterableSplitString (names_path ns @ CHR ''/'' # s) CHR ''/'' = ns @ IterableSplitString s CHR ''/''"
proof (induction ns rule: induct_list012)
  case (2 n)
  then show ?case by (subst IterableSplitString.simps) (simp add: Split_append valid_name_def)
next
  case (3 n m ms)
  have "names_path (n # m # ms) @ CHR ''/'' # s = n @ CHR ''/'' # (names_path (m # ms) @ CHR ''/'' # s)" by simp
  moreover have "CHR ''/'' \<notin> set n" using "3.prems" by (simp add: valid_name_def)
  ultimately show ?case using 3 by (subst IterableSplitString.simps) (simp add: Split_append)
qed simp

lemma names_path_ends: "\<lbrakk>\<forall>n \<in> set ns. valid_name n; ns \<noteq> []\<rbrakk> \<Longrightarrow> names_path ns \<noteq> [] \<and> last (names_path ns) \<noteq> CHR ''/''"
proof (induction ns rule: induct_list012)
  case (2 n)
  then show ?case by (simp add: valid_name_def) (metis last_in_set)
qed auto

lemma child_or_same_names:
  assumes "\<forall>n \<in> set us. valid_name n" "\<forall>n \<in> set ns. valid_name n" "us \<noteq> []"
  shows "uri_is_child_or_same (names_path ns) (names_path us) \<longleftrightarrow> (\<exists>ms. us = ns @ ms)"
proof (cases "ns = []")
  case True
  then show ?thesis
    using names_path_ends [OF assms(1,3)] by (simp add: uri_is_child_or_same_def uri_is_child_def)
next
  case False
  have "(\<exists>ms. us = ns @ ms)" if "names_path ns = names_path us"
    using that names_path_split [OF assms(1,3)] names_path_split [OF assms(2) False] by (metis append_Nil2)
  moreover have "\<exists>ms. us = ns @ ms" if "names_path us = names_path ns @ CHR ''/'' # s" for s
    using that names_path_split [OF assms(1,3)] split_names_slash [OF assms(2) False, of s] by metis
  moreover have "names_path ns = names_path us \<or> (\<exists>s. names_path us = names_path ns @ CHR ''/'' # s)" if "us = ns @ ms" for ms
    using that names_path_append [OF False, of ms] by (cases ms) auto
  ultimately show ?thesis
    using uri_is_child_iff [of "names_path ns" "names_path us"] names_path_ends [OF assms(2) False]
    by (auto simp: uri_is_child_or_same_def)
qed

lemma all_songs_names:
  "\<lbrakk>lookup_names r ks = Some d; wf_directory r; is_root (dir r); tree_all_songs (\<lambda>s. valid_name (filename s)) d; (u, s) \<in> set (all_songs d)\<rbrakk> \<Longrightarrow>
   \<exists>ms. ms \<noteq> [] \<and> (\<forall>m \<in> set ms. valid_name m) \<and> u = names_path (ks @ ms)"
proof (induction d arbitrary: ks)
  case (Directory i cs)
  from Directory.prems(5) consider (own) "s \<in> set (songs i)" "u = GetURI i s" | (sub) c where "c \<in> set cs" "(u, s) \<in> set (all_songs c)"
    by auto
  then show ?case
  proof cases
    case own
    then show ?thesis
      using GetURI_names [OF Directory.prems(1-3), of s] Directory.prems(4) by (intro exI [of _ "[filename s]"]) auto
  next
    case (sub c)
    let ?n = "GetName i (dir c)"
    have wf: "wf_directory (Directory i cs)" using lookup_names_wf [OF Directory.prems(1,2)] by simp
    have find: "FindChild (Directory i cs) ?n = Some c" using FindChild_member [OF wf, of c] sub(1) by simp
    then have look: "lookup_names r (ks @ [?n]) = Some c" using Directory.prems(1) by (simp add: lookup_names_append)
    obtain ms where "ms \<noteq> []" "\<forall>m \<in> set ms. valid_name m" "u = names_path ((ks @ [?n]) @ ms)"
      using Directory.IH [OF sub(1) look Directory.prems(2,3) _ sub(2)] Directory.prems(4) sub(1) by auto
    moreover have "valid_name ?n" using FindChild_SomeD [OF find wf] by (simp add: child_ok_def)
    ultimately show ?thesis by (intro exI [of _ "?n # ms"]) auto
  qed
qed

lemma directory_songs_names:
  assumes "lookup_names r ks = Some d" "wf_directory r" "is_root (dir r)" "plain_tree d" "song \<in> set (directory_songs hide anc d)"
  shows "\<exists>ms. ms \<noteq> [] \<and> (\<forall>m \<in> set ms. valid_name m) \<and> LightSong_GetURI song = names_path (ks @ ms)"
proof -
  have "LightSong_GetURI song \<in> set (map LightSong_GetURI (directory_songs hide anc d))" using assms(5) by simp
  then obtain s where "(LightSong_GetURI song, s) \<in> set (all_songs d)"
    unfolding directory_songs_uris [OF assms(4)] by auto
  then show ?thesis using all_songs_names [OF assms(1-3)] assms(4) by (simp add: plain_tree_def)
qed

fun no_clash :: "directory \<Rightarrow> bool" where
  "no_clash (Directory i cs) \<longleftrightarrow>
     (\<forall>s \<in> set (songs i). FindChild (Directory i cs) (filename s) = None) \<and> (\<forall>c \<in> set cs. no_clash c)"

lemma concat_map_only:
  "\<lbrakk>distinct cs; b \<in> set cs; \<And>c. c \<in> set cs \<Longrightarrow> c \<noteq> b \<Longrightarrow> g c = []\<rbrakk> \<Longrightarrow> concat (map g cs) = g b"
proof (induction cs)
  case (Cons c cs)
  show ?case
  proof (cases "c = b")
    case True
    then have "\<forall>x \<in> set (map g cs). x = []" using Cons.prems by auto
    then show ?thesis using True by (simp add: concat_eq_Nil_conv)
  next
    case False
    then show ?thesis using Cons by simp
  qed
qed simp

lemma directory_songs_split:
  "\<not> IsMount i \<Longrightarrow> directory_songs hide anc (Directory i cs) =
     map (Song_Export (Directory i cs # anc)) (filter (\<lambda>s. \<not> (hide \<and> in_playlist s)) (songs i)) @
     concat (map (directory_songs hide (Directory i cs # anc)) cs)"
proof -
  have songs: "visited_songs (map VisitSong ss) = ss" for ss using visited_songs_songs [of id ss] by simp
  assume "\<not> IsMount i"
  then show ?thesis
    by (simp add: directory_songs_def [abs_def] IsMount_def visited_songs_concat songs comp_def)
qed

lemma base_songs:
  "\<lbrakk>lookup_names r ks = Some d; lookup_names d ns = Some c; wf_directory r; is_root (dir r); plain_tree d; no_clash d\<rbrakk> \<Longrightarrow>
   filter (\<lambda>song. uri_is_child_or_same (names_path (ks @ ns)) (LightSong_GetURI song)) (directory_songs hide anc d) =
   directory_songs hide (tl (lookup_chain anc d ns)) c"
proof (induction ns arbitrary: ks d anc)
  case Nil
  have valid: "\<forall>n \<in> set ks. valid_name n" using lookup_names_wf [OF Nil.prems(1,3)] by blast
  have "uri_is_child_or_same (names_path ks) (LightSong_GetURI song)" if song: "song \<in> set (directory_songs hide anc d)" for song
  proof -
    obtain ms where ms: "ms \<noteq> []" "\<forall>m \<in> set ms. valid_name m" "LightSong_GetURI song = names_path (ks @ ms)"
      using directory_songs_names [OF Nil.prems(1,3,4,5) song] by blast
    then show ?thesis using child_or_same_names [OF _ valid, of "ks @ ms"] valid by auto
  qed
  then show ?case using Nil.prems(2) by (simp add: filter_id_conv)
next
  case (Cons n ns)
  obtain i cs where d: "d = Directory i cs" by (cases d)
  obtain b where b: "FindChild d n = Some b" "lookup_names b ns = Some c" using Cons.prems(2) by (auto split: option.splits)
  have wf: "wf_directory d" using lookup_names_wf [OF Cons.prems(1,3)] by blast
  have valid: "\<forall>m \<in> set (ks @ n # ns). valid_name m"
    using lookup_names_wf [OF _ Cons.prems(3), of "ks @ n # ns" c] Cons.prems(1,2) by (simp add: lookup_names_append)
  let ?P = "\<lambda>song. uri_is_child_or_same (names_path (ks @ n # ns)) (LightSong_GetURI song)"
  have nm: "\<not> IsMount i" and sub: "\<And>c'. c' \<in> set cs \<Longrightarrow> plain_tree c'"
    using Cons.prems(5) by (auto simp: d plain_tree_def)
  have mem: "b \<in> set cs" using b(1) by (auto simp: d FindChild_def find_Some_iff)
  have own: "\<not> ?P (Song_Export (d # anc) s)" if "s \<in> set (songs i)" for s
  proof -
    have name: "valid_name (filename s)" using Cons.prems(5) that by (simp add: d plain_tree_def)
    then have "LightSong_GetURI (Song_Export (d # anc) s) = names_path (ks @ [filename s])"
      using Song_Export_uri [of i s cs anc] GetURI_names [OF Cons.prems(1,3,4) name] wf by (simp add: d)
    moreover have "filename s \<noteq> n" using Cons.prems(6) b(1) that by (auto simp: d)
    ultimately show ?thesis using child_or_same_names [OF _ valid, of "ks @ [filename s]"] valid name by auto
  qed
  have look: "lookup_names r (ks @ [GetName i (dir c')]) = Some c'" if "c' \<in> set cs" for c'
    using FindChild_member [OF wf, of c'] that Cons.prems(1) by (simp add: d lookup_names_append)
  have other: "filter ?P (directory_songs hide (d # anc) c') = []" if "c' \<in> set cs" "c' \<noteq> b" for c'
  proof -
    have "GetName i (dir c') \<noteq> n" using FindChild_member [OF wf, of c'] that b(1) by (auto simp: d)
    moreover have "valid_name (GetName i (dir c'))" using lookup_names_wf [OF look [OF that(1)] Cons.prems(3)] by simp
    moreover have "\<exists>ms. ms \<noteq> [] \<and> (\<forall>m \<in> set ms. valid_name m) \<and> LightSong_GetURI song = names_path ((ks @ [GetName i (dir c')]) @ ms)"
      if "song \<in> set (directory_songs hide (d # anc) c')" for song
      using directory_songs_names [OF look [OF \<open>c' \<in> set cs\<close>] Cons.prems(3,4) sub [OF \<open>c' \<in> set cs\<close>] that] .
    ultimately have "\<not> ?P song" if "song \<in> set (directory_songs hide (d # anc) c')" for song
      using child_or_same_names [OF _ valid, of "ks @ GetName i (dir c') # _"] valid that by fastforce
    then show ?thesis by (simp add: filter_empty_conv)
  qed
  have name: "GetName i (dir b) = n" using b(1) by (auto simp: d FindChild_def find_Some_iff)
  have IH: "filter ?P (directory_songs hide (d # anc) b) = directory_songs hide (tl (lookup_chain (d # anc) b ns)) c"
    using Cons.IH [of "ks @ [n]" b "d # anc"] look [OF mem] b(2) Cons.prems(3,4,6) sub [OF mem] mem name by (simp add: d)
  have "distinct cs" using wf by (simp add: d distinct_map)
  have "filter ?P (directory_songs hide anc d) = concat (map (\<lambda>c'. filter ?P (directory_songs hide (d # anc) c')) cs)"
    using own directory_songs_split [OF nm] by (auto simp: d filter_concat filter_empty_conv comp_def)
  also have "\<dots> = filter ?P (directory_songs hide (d # anc) b)"
    by (rule concat_map_only [OF \<open>distinct cs\<close> mem other])
  finally show ?case using IH b(1) by simp
qed

lemma GetBase_member: "SongFilter_GetBase sf = Some b \<Longrightarrow> BaseSongFilter b \<in> set sf"
  by (induction sf rule: SongFilter_GetBase.induct) auto

lemma helper_visits_plain: "\<lbrakk>sel_sort sel = NoSort; sel_window sel = RangeArg_All\<rbrakk> \<Longrightarrow> helper_visits sel v vs = Returns vs"
  by (simp add: helper_visits_def helper_replaces_def)

lemma DatabaseSelection_new_fields [simp]:
  "sel_filter (DatabaseSelection_new uri rec flt) = flt" "sel_sort (DatabaseSelection_new uri rec flt) = NoSort"
  "sel_window (DatabaseSelection_new uri rec flt) = RangeArg_All" "sel_recursive (DatabaseSelection_new uri rec flt) = rec"
  by (simp_all add: DatabaseSelection_new_def)

section \<open>Below a mount point\<close>

lemma lookup_loop_below_mount:
  "\<lbrakk>lookup_names d ns = Some m; ns \<noteq> []; wf_directory d; FindChild m k = None; valid_name k\<rbrakk> \<Longrightarrow>
   lookup_loop d (names_path (ns @ k # ks)) = (ns, m, Some (names_path (k # ks)))"
proof (induction ns arbitrary: d)
  case (Cons n ns)
  then obtain b where b: "FindChild d n = Some b" "lookup_names b ns = Some m" by (auto split: option.splits)
  note child = FindChild_SomeD [OF b(1) Cons.prems(3)]
  have name: "valid_name n" using child by (simp add: child_ok_def)
  have split: "Split (names_path (n # ns @ k # ks)) SEPARATOR = (n, Some (names_path (ns @ k # ks)))"
    using Split_names_path [OF name, of "ns @ k # ks"] by simp
  show ?case
  proof (cases "ns = []")
    case True
    then have "b = m" using b(2) by simp
    then have none: "FindChild b k = None" using Cons.prems(4) by simp
    have "lookup_loop b (names_path (k # ks)) = ([], b, Some (names_path (k # ks)))"
      using Split_names_path [OF Cons.prems(5), of ks] Cons.prems(5) none
      by (subst lookup_loop.simps) (simp add: valid_name_def)
    then show ?thesis
      using split b(1) True \<open>b = m\<close> name by (subst lookup_loop.simps) (simp add: valid_name_def)
  next
    case False
    then show ?thesis
      using split b Cons.IH [OF b(2) False child(3) Cons.prems(4,5)] name
      by (subst lookup_loop.simps) (simp add: valid_name_def)
  qed
qed simp

lemma LookupDirectory_below_mount:
  assumes "wf_directory d" "lookup_names d ns = Some m" "ns \<noteq> []" "FindChild m (hd ks) = None" "\<forall>k \<in> set ks. valid_name k" "ks \<noteq> []"
  shows "LookupDirectory d (names_path (ns @ ks)) =
    \<lparr>lr_names = ns, lr_directory = m, lr_uri = names_path ns @ ''/'', lr_rest = Some (names_path ks)\<rparr>"
proof -
  obtain k ks' where ks: "ks = k # ks'" using assms(6) by (cases ks) auto
  have "\<not> isRootDirectory (names_path (ns @ ks))"
    using lookup_names_wf [OF assms(2,1)] assms(3,5) by (intro names_path_not_root) auto
  moreover have "take (length (names_path (ns @ ks)) - length (names_path ks)) (names_path (ns @ ks)) = names_path ns @ ''/''"
    using names_path_append [OF assms(3,6)] by simp
  ultimately show ?thesis
    using lookup_loop_below_mount [OF assms(2,3,1), of k ks'] assms(4,5) by (simp add: LookupDirectory_def ks)
qed

lemma visited_songs_prefix: "visited_songs (map (prefix_visit base) vs) = map (\<lambda>s. PrefixedLightSong s base) (visited_songs vs)"
  by (induction vs rule: visited_songs.induct) simp_all

lemma WithoutBasePrefix_slash:
  assumes "\<forall>k \<in> set ks. valid_name k" "ks \<noteq> []" "ns \<noteq> []"
  shows "WithoutBasePrefix (names_path ns @ ''/'') [BaseSongFilter (names_path (ns @ ks))] = [BaseSongFilter (names_path (ns @ ks))]"
proof -
  have "StringAfterPrefix (names_path (ns @ ks)) (names_path ns @ ''/'') = Some (names_path ks)"
    using names_path_append [OF assms(3,2)] StringAfterPrefix_append [of "names_path ns @ ''/''" "names_path ks"] by simp
  moreover have "names_path ks \<noteq> []" "hd (names_path ks) \<noteq> CHR ''/''"
  proof -
    obtain c cs ks' where "ks = (c # cs) # ks'" "c \<noteq> CHR ''/''"
      using assms(1,2) by (cases ks; cases "hd ks") (auto simp: valid_name_def)
    then show "names_path ks \<noteq> []" "hd (names_path ks) \<noteq> CHR ''/''" by (simp_all add: names_path_def)
  qed
  ultimately show ?thesis by (simp add: WithoutBasePrefix_def)
qed

lemma no_song_under_foreign_base:
  assumes "plain_tree (sdb_root sub)" "is_root (dir (sdb_root sub))" "lookup_names (sdb_root sub) ks = Some c"
    and "\<forall>n \<in> set ns. valid_name n" "ns \<noteq> []" "ks \<noteq> []" "hd ks \<noteq> hd ns"
    and "song \<in> set (directory_songs hide anc c)"
  shows "\<not> uri_is_child_or_same (names_path (ns @ ks)) (LightSong_GetURI song)"
proof -
  have wf: "wf_directory (sdb_root sub)" using assms(1) by (simp add: plain_tree_def)
  have ks: "\<forall>k \<in> set ks. valid_name k" using lookup_names_wf [OF assms(3) wf] by blast
  obtain ms where "\<forall>m \<in> set ms. valid_name m" "LightSong_GetURI song = names_path (ks @ ms)"
    using directory_songs_names [OF assms(3) wf assms(2) plain_tree_lookup [OF assms(1,3)] assms(8)] by blast
  moreover have "ks @ ms \<noteq> (ns @ ks) @ xs" for ms xs
    using assms(5-7) by (metis append_is_Nil_conv hd_append2)
  moreover have "\<forall>n \<in> set (ns @ ks). valid_name n" using ks assms(4) by auto
  ultimately show ?thesis
    using child_or_same_names [of "ks @ ms" "ns @ ks"] ks assms(6) by (simp add: ball_Un)
qed

section \<open>Mounting and unmounting\<close>

lemma update_first_update_first:
  "(\<And>x. P (f x) = P x) \<Longrightarrow> update_first P g (update_first P f xs) = update_first P (\<lambda>x. g (f x)) xs"
  by (induction xs) auto

lemma find_update_first_same: "(\<And>x. P (f x) = P x) \<Longrightarrow> find P (update_first P f xs) = map_option f (find P xs)"
  by (induction xs) auto

lemma dir_update_names: "(\<And>x. dir (f x) = dir x) \<Longrightarrow> dir (update_names ns f d) = dir d"
  by (cases ns) simp_all

lemma update_names_update_names:
  assumes "\<And>x. dir (f x) = dir x"
  shows "update_names ns g (update_names ns f d) = update_names ns (\<lambda>x. g (f x)) d"
proof (induction ns arbitrary: d)
  case (Cons n ns)
  then show ?case
    using dir_update_names [of f, OF assms] by (simp add: update_child_def update_first_update_first)
qed simp

lemma update_names_same: "\<lbrakk>lookup_names d ns = Some c; f c = c\<rbrakk> \<Longrightarrow> update_names ns f d = d"
proof (induction ns arbitrary: d)
  case (Cons n ns)
  then obtain b where "FindChild d n = Some b" "lookup_names b ns = Some c" by (auto split: option.splits)
  then show ?case
    using Cons by (cases d) (auto simp: update_child_def FindChild_def intro!: update_first_same)
qed simp

lemma lookup_update_names:
  assumes "\<And>x. dir (f x) = dir x"
  shows "lookup_names d ns = Some c \<Longrightarrow> lookup_names (update_names ns f d) ns = Some (f c)"
proof (induction ns arbitrary: d)
  case (Cons n ns)
  then obtain b where b: "FindChild d n = Some b" "lookup_names b ns = Some c" by (auto split: option.splits)
  then have "FindChild (update_child n (update_names ns f) d) n = Some (update_names ns f b)"
    using dir_update_names [of f, OF assms] by (simp add: update_child_def FindChild_def find_update_first_same)
  then show ?case using Cons.IH [OF b(2)] by simp
qed simp

lemma wf_update_names:
  assumes "\<And>x. dir (f x) = dir x"
  shows "\<lbrakk>wf_directory d; lookup_names d ns = Some c; wf_directory (f c)\<rbrakk> \<Longrightarrow> wf_directory (update_names ns f d)"
proof (induction ns arbitrary: d)
  case (Cons n ns)
  then obtain b where b: "FindChild d n = Some b" "lookup_names b ns = Some c" by (auto split: option.splits)
  have "wf_directory (update_child n (update_names ns f) d)"
    using b Cons.IH [OF _ b(2) Cons.prems(3)] dir_update_names [of f, OF assms]
    by (intro wf_update_child [OF Cons.prems(1)]) auto
  then show ?case by simp
qed simp

definition add_mount :: "string \<Rightarrow> nat \<Rightarrow> directory \<Rightarrow> directory" where
  "add_mount n db d =
     update_child n (\<lambda>c. Directory ((dir c)\<lparr>mounted_database := Some db\<rparr>) (children c)) (CreateChild n d)"

lemma dir_add_mount: "dir (add_mount n db d) = dir d"
  by (simp add: add_mount_def CreateChild_def)

lemma add_mount_children:
  assumes "wf_directory d" "valid_name n" "FindChild d n = None"
  shows "children (add_mount n db d) = children d @ [Directory ((dir (Directory_new (child_path (dir d) n) False))\<lparr>mounted_database := Some db\<rparr>) []]"
proof -
  have new: "GetName (dir d) (dir (Directory_new (child_path (dir d) n) False)) = n"
    using child_ok_new [of "dir d" n] wf_path_ok [OF assms(1)] assms(2) FindChild_CreateChild [OF assms, of n]
    by (auto simp: FindChild_def dest!: find_SomeD)
  have upd: "update_first P f (xs @ [x]) = xs @ [f x]" if "\<forall>y \<in> set xs. \<not> P y" "P x" for P f and xs :: "directory list" and x
    using that by (induction xs) auto
  show ?thesis
    using assms(3) new by (simp add: add_mount_def update_child_def CreateChild_def upd FindChild_def find_None_iff)
      (simp add: Directory_new_def)
qed

lemma Mount_add_mount:
  assumes "wf_directory (sdb_root sdb)" "lookup_names (sdb_root sdb) ns = Some d" "valid_name n" "FindChild d n = None"
  shows "SimpleDatabase_Mount (names_path (ns @ [n])) db sdb = Inr (sdb\<lparr>sdb_root := update_names ns (add_mount n db) (sdb_root sdb)\<rparr>)"
proof -
  have "\<not> isRootDirectory (names_path (ns @ [n]))"
    using lookup_names_wf [OF assms(2,1)] assms(3) by (intro names_path_not_root) auto
  then show ?thesis
    using lookup_loop_rest [OF assms(2,1,3,4)] assms(3)
    by (simp add: SimpleDatabase_Mount_def LookupDirectory_def add_mount_def [abs_def] valid_name_def)
qed

lemma add_mount_lookup:
  assumes "wf_directory r" "lookup_names r ns = Some d" "valid_name n" "FindChild d n = None"
  shows "\<exists>m. lookup_names (update_names ns (add_mount n db) r) (ns @ [n]) = Some m \<and> mounted_database (dir m) = Some db \<and> IsEmpty m"
proof -
  have wf: "wf_directory d" using lookup_names_wf [OF assms(2,1)] by blast
  let ?m = "Directory ((dir (Directory_new (child_path (dir d) n) False))\<lparr>mounted_database := Some db\<rparr>) []"
  have new: "GetName (dir d) (dir ?m) = n"
    using FindChild_CreateChild [OF wf assms(3,4), of n] by (auto simp: FindChild_def GetName_def CreateChild_def dest!: find_SomeD)
  have "find P (xs @ [x]) = Some x" if "\<forall>y \<in> set xs. \<not> P y" "P x" for P and xs :: "directory list" and x
    using that by (induction xs) auto
  then have "FindChild (add_mount n db d) n = Some ?m"
    using assms(4) new by (simp add: FindChild_def add_mount_children [OF wf assms(3,4)] dir_add_mount find_None_iff)
  then show ?thesis
    using lookup_update_names [OF dir_add_mount [of n db] assms(2)]
    by (simp add: lookup_names_append IsEmpty_def) (simp add: Directory_new_def)
qed

lemma wf_add_mount:
  assumes "wf_directory d" "valid_name n" "FindChild d n = None"
  shows "wf_directory (add_mount n db d)"
  unfolding add_mount_def
proof (rule wf_update_child [OF wf_CreateChild [OF assms]])
  fix c assume c: "FindChild (CreateChild n d) n = Some c" "wf_directory c"
  then have "c = Directory_new (child_path (dir d) n) False" using FindChild_CreateChild [OF assms, of n] by simp
  then show "wf_directory (Directory ((dir c)\<lparr>mounted_database := Some db\<rparr>) (children c)) \<and>
      same_identity (dir c) (dir (Directory ((dir c)\<lparr>mounted_database := Some db\<rparr>) (children c)))"
    using c(2) by (simp add: Directory_new_def IsEmpty_def path_ok_def same_identity_def)
qed

section \<open>Unique tags\<close>

fun map_paths :: "nat \<Rightarrow> RecursiveMap \<Rightarrow> string list set" where
  "map_paths 0 m = {[]}"
| "map_paths (Suc k) m = (\<Union>(key, m') \<in> set (map_entries m). Cons key ` map_paths k m')"

fun tag_tuples :: "Tag \<Rightarrow> TagType list \<Rightarrow> string list set" where
  "tag_tuples tag [] = {[]}"
| "tag_tuples tag (t # ts) = {v # p | v p. v \<in> set (VisitTagWithFallbackOrEmpty tag t) \<and> p \<in> tag_tuples tag ts}"

definition keys_sorted :: "(string \<times> RecursiveMap) list \<Rightarrow> bool" where
  "keys_sorted es \<longleftrightarrow> sorted_wrt strcmp_less (map fst es)"

lemma keys_sorted_simps [simp]:
  "keys_sorted []" "keys_sorted ((k, m) # es) \<longleftrightarrow> (\<forall>k' \<in> fst ` set es. strcmp_less k k') \<and> keys_sorted es"
  by (auto simp: keys_sorted_def)

lemma keys_sorted_absent: "\<lbrakk>keys_sorted ((k, m) # es); strcmp_less key k\<rbrakk> \<Longrightarrow> map_of ((k, m) # es) key = None"
  using strcmp_order.less_asym [of key k] strcmp_order.less_trans [of key k key]
  by (auto simp: map_of_eq_None_iff dest: strcmp_order.less_asym)

definition entry :: "(string \<times> RecursiveMap) list \<Rightarrow> string \<Rightarrow> RecursiveMap" where
  "entry es key = (case map_of es key of Some m \<Rightarrow> m | None \<Rightarrow> RecursiveMap [])"

lemma map_of_update_entry:
  "keys_sorted es \<Longrightarrow> map_of (update_entry key f es) = (map_of es)(key \<mapsto> f (entry es key))"
proof (induction es)
  case Nil
  then show ?case by (simp add: entry_def)
next
  case (Cons e es)
  obtain k m where e: "e = (k, m)" by fastforce
  consider "k = key" | "k \<noteq> key" "strcmp_less key k" | "k \<noteq> key" "\<not> strcmp_less key k" by blast
  then show ?case
  proof cases
    case 1
    then show ?thesis by (auto simp: e entry_def)
  next
    case 2
    then show ?thesis using keys_sorted_absent [of k m es key] Cons.prems by (auto simp: e entry_def fun_eq_iff)
  next
    case 3
    then show ?thesis using Cons by (auto simp: e entry_def fun_upd_twist)
  qed
qed

lemma keys_update_entry: "fst ` set (update_entry key f es) = insert key (fst ` set es)"
  by (induction key f es rule: update_entry.induct) auto

lemma keys_sorted_update_entry: "keys_sorted es \<Longrightarrow> keys_sorted (update_entry key f es)"
proof (induction es)
  case (Cons e es)
  obtain k m where e: "e = (k, m)" by fastforce
  have "strcmp_less k key" if "k \<noteq> key" "\<not> strcmp_less key k" using that strcmp_total by blast
  then show ?case
    using Cons strcmp_order.less_trans [of key k] by (auto simp: e keys_update_entry)
qed simp

fun sorted_map :: "nat \<Rightarrow> RecursiveMap \<Rightarrow> bool" where
  "sorted_map 0 m = True"
| "sorted_map (Suc k) m \<longleftrightarrow> keys_sorted (map_entries m) \<and> (\<forall>(key, m') \<in> set (map_entries m). sorted_map k m')"

lemma keys_sorted_map_of: "keys_sorted es \<Longrightarrow> (key, m) \<in> set es \<longleftrightarrow> map_of es key = Some m"
proof (induction es)
  case (Cons e es)
  have "strcmp_less k k \<Longrightarrow> False" for k using strcmp_order.less_asym [of k k] by blast
  then show ?case using Cons by (cases e) (force dest: map_of_SomeD)
qed simp

lemma map_paths_Suc:
  "keys_sorted (map_entries m) \<Longrightarrow> map_paths (Suc k) m = {key # p | key p m'. map_of (map_entries m) key = Some m' \<and> p \<in> map_paths k m'}"
  using keys_sorted_map_of [of "map_entries m"] by auto

lemma sorted_map_empty: "sorted_map k (RecursiveMap [])"
  by (cases k) simp_all

lemma map_paths_empty: "map_paths k (RecursiveMap []) = (if k = 0 then {[]} else {})"
  by (cases k) simp_all

text \<open>
  One song adds its tuples. The paths of a fresh map are those of depth zero only, so that an
  update that adds a set \<open>T\<close> of paths does so at every entry.
\<close>

lemma update_entry_paths:
  assumes "sorted_map (Suc k) (RecursiveMap es)"
    and "\<And>m. sorted_map k m \<Longrightarrow> sorted_map k (f m) \<and> map_paths k (f m) = (if k = 0 then {[]} else map_paths k m) \<union> T"
    and "k = 0 \<Longrightarrow> T = {[]}"
  shows "sorted_map (Suc k) (RecursiveMap (update_entry key f es)) \<and>
    map_paths (Suc k) (RecursiveMap (update_entry key f es)) = map_paths (Suc k) (RecursiveMap es) \<union> Cons key ` T"
proof -
  have es: "keys_sorted es" using assms(1) by simp
  have val: "sorted_map k m'" if "map_of es key' = Some m'" for key' m'
    using assms(1) keys_sorted_map_of [OF es, of key' m'] that by fastforce
  then have ent: "sorted_map k (entry es key)" by (auto simp: entry_def sorted_map_empty split: option.split)
  note upd = map_of_update_entry [OF es, of key f] and srt = keys_sorted_update_entry [OF es, of key f]
  have "sorted_map k m'" if "map_of (update_entry key f es) key' = Some m'" for key' m'
    using that val assms(2) [OF ent] by (auto simp: upd split: if_splits)
  then have "sorted_map (Suc k) (RecursiveMap (update_entry key f es))"
    using srt keys_sorted_map_of [OF srt] by auto
  moreover have "map_paths (Suc k) (RecursiveMap (update_entry key f es)) = map_paths (Suc k) (RecursiveMap es) \<union> Cons key ` T"
  proof -
    have new: "map_paths k (f (entry es key)) = (case map_of es key of Some m \<Rightarrow> map_paths k m | None \<Rightarrow> {}) \<union> T"
      using assms(2) [OF ent] assms(3) by (cases "map_of es key") (auto simp: entry_def map_paths_empty)
    note paths = map_paths_Suc [of "RecursiveMap (update_entry key f es)", simplified map_entries.simps, OF srt]
      map_paths_Suc [of "RecursiveMap es", simplified map_entries.simps, OF es]
    show ?thesis
    proof (rule set_eqI)
      fix q
      show "q \<in> map_paths (Suc k) (RecursiveMap (update_entry key f es)) \<longleftrightarrow>
          q \<in> map_paths (Suc k) (RecursiveMap es) \<union> Cons key ` T"
      proof (cases q)
        case Nil
        then show ?thesis by (auto simp: paths simp del: map_paths.simps)
      next
        case (Cons key' p)
        then show ?thesis using new by (cases "key' = key") (auto simp: paths upd simp del: map_paths.simps split: option.splits)
      qed
    qed
  qed
  ultimately show ?thesis ..
qed

lemma fold_update_entries:
  assumes "sorted_map (Suc k) m"
    and "\<And>m. sorted_map k m \<Longrightarrow> sorted_map k (f m) \<and> map_paths k (f m) = (if k = 0 then {[]} else map_paths k m) \<union> T"
    and "k = 0 \<Longrightarrow> T = {[]}"
  shows "sorted_map (Suc k) (fold (\<lambda>val r. RecursiveMap (update_entry val f (map_entries r))) vals m) \<and>
    map_paths (Suc k) (fold (\<lambda>val r. RecursiveMap (update_entry val f (map_entries r))) vals m) =
      map_paths (Suc k) m \<union> (\<Union>val \<in> set vals. Cons val ` T)"
  using assms(1)
proof (induction vals arbitrary: m)
  case (Cons val vals)
  obtain es where m: "m = RecursiveMap es" by (cases m)
  show ?case
    using update_entry_paths [OF Cons.prems [unfolded m] assms(2,3), of val] Cons.IH [of "RecursiveMap (update_entry val f es)"]
    by (simp add: m Un_assoc del: map_paths.simps sorted_map.simps)
qed simp

lemma CollectUniqueTags_song_paths:
  "sorted_map (length ts) m \<Longrightarrow>
   sorted_map (length ts) (CollectUniqueTags_song tag ts m) \<and>
   map_paths (length ts) (CollectUniqueTags_song tag ts m) = (if ts = [] then {[]} else map_paths (length ts) m) \<union> tag_tuples tag ts"
proof (induction ts arbitrary: m)
  case (Cons t ts)
  have "k = 0 \<Longrightarrow> tag_tuples tag ts = {[]}" if "k = length ts" for k using that by simp
  moreover have "(\<Union>val \<in> set (VisitTagWithFallbackOrEmpty tag t). Cons val ` tag_tuples tag ts) = tag_tuples tag (t # ts)" by auto
  ultimately show ?case
    using fold_update_entries [of "length ts" m "CollectUniqueTags_song tag ts" "tag_tuples tag ts" "VisitTagWithFallbackOrEmpty tag t"]
      Cons.IH Cons.prems
    by (simp del: map_paths.simps sorted_map.simps tag_tuples.simps(2))
qed simp

lemma CollectUniqueTags_paths:
  "ts \<noteq> [] \<Longrightarrow> sorted_map (length ts) (CollectUniqueTags ss ts) \<and>
   map_paths (length ts) (CollectUniqueTags ss ts) = (\<Union>song \<in> set ss. tag_tuples (ls_tag song) ts)"
proof -
  assume ne: "ts \<noteq> []"
  have "sorted_map (length ts) m \<Longrightarrow>
      sorted_map (length ts) (fold (\<lambda>song. CollectUniqueTags_song (ls_tag song) ts) ss m) \<and>
      map_paths (length ts) (fold (\<lambda>song. CollectUniqueTags_song (ls_tag song) ts) ss m) =
        map_paths (length ts) m \<union> (\<Union>song \<in> set ss. tag_tuples (ls_tag song) ts)" for m
  proof (induction ss arbitrary: m)
    case (Cons song ss)
    then show ?case using CollectUniqueTags_song_paths [of ts m "ls_tag song"] ne by (simp add: Un_assoc)
  qed simp
  from this [of "RecursiveMap []"] show ?thesis
    using ne by (simp add: CollectUniqueTags_def sorted_map_empty map_paths_empty)
qed

lemma VisitTag_effective:
  "VisitTagWithFallbackOrEmpty tag t = (case effective_type tag t of Some u \<Rightarrow> VisitTagType tag u | None \<Rightarrow> [[]])"
proof -
  let ?f = "\<lambda>type2 visited. (VisitTagType tag type2 \<noteq> [], visited @ VisitTagType tag type2)"
  have has: "VisitTagType tag u \<noteq> [] \<longleftrightarrow> HasType tag u" for u
    by (force simp: VisitTagType_def HasType_iff filter_empty_conv)
  then have none: "\<not> HasType tag u \<Longrightarrow> VisitTagType tag u = []" for u by blast
  have "fallback_loop ?f ts [] = (case find (HasType tag) ts of Some u \<Rightarrow> (True, VisitTagType tag u) | None \<Rightarrow> (False, []))" for ts
    by (induction ts) (auto simp: has none)
  then show ?thesis
    using has none by (auto simp: VisitTagWithFallbackOrEmpty_def VisitTagWithFallback_def ApplyTagWithFallback_def ApplyTagFallback_loop
        effective_type_def split: option.splits prod.splits bool.splits)
qed

lemma StatsVisitTag_fields:
  "ss_artists (StatsVisitTag tag st) = fold (\<lambda>item xs. if fst item = TAG_ARTIST then List.insert (snd item) xs else xs) (items tag) (ss_artists st)"
  "ss_albums (StatsVisitTag tag st) = fold (\<lambda>item xs. if fst item = TAG_ALBUM then List.insert (snd item) xs else xs) (items tag) (ss_albums st)"
  "ss_stats (StatsVisitTag tag st) = (ss_stats st)\<lparr>total_duration := total_duration (ss_stats st) + nat (duration tag)\<rparr>"
proof -
  let ?step = "\<lambda>item st. case fst item of
             TAG_ARTIST \<Rightarrow> st\<lparr>ss_artists := List.insert (snd item) (ss_artists st)\<rparr>
           | TAG_ALBUM \<Rightarrow> st\<lparr>ss_albums := List.insert (snd item) (ss_albums st)\<rparr>
           | _ \<Rightarrow> st"
  have "ss_artists (fold ?step is st) = fold (\<lambda>item xs. if fst item = TAG_ARTIST then List.insert (snd item) xs else xs) is (ss_artists st) \<and>
      ss_albums (fold ?step is st) = fold (\<lambda>item xs. if fst item = TAG_ALBUM then List.insert (snd item) xs else xs) is (ss_albums st) \<and>
      ss_stats (fold ?step is st) = ss_stats st" for "is" :: "TagItem list" and st :: stats_state
    by (induction "is" arbitrary: st) (auto split: TagType.split)
  then show "ss_artists (StatsVisitTag tag st) = fold (\<lambda>item xs. if fst item = TAG_ARTIST then List.insert (snd item) xs else xs) (items tag) (ss_artists st)"
    "ss_albums (StatsVisitTag tag st) = fold (\<lambda>item xs. if fst item = TAG_ALBUM then List.insert (snd item) xs else xs) (items tag) (ss_albums st)"
    "ss_stats (StatsVisitTag tag st) = (ss_stats st)\<lparr>total_duration := total_duration (ss_stats st) + nat (duration tag)\<rparr>"
    by (auto simp: StatsVisitTag_def)
qed

lemma fold_insert_values:
  "distinct xs \<Longrightarrow> distinct (fold (\<lambda>item xs. if fst item = t then List.insert (snd item) xs else xs) is xs) \<and>
   set (fold (\<lambda>item xs. if fst item = t then List.insert (snd item) xs else xs) is xs) = set xs \<union> {v. (t, v) \<in> set is}"
  by (induction "is" arbitrary: xs) (auto simp: List.insert_def)

definition tag_values :: "TagType \<Rightarrow> LightSong list \<Rightarrow> string set" where
  "tag_values t ss = {v. \<exists>song \<in> set ss. (t, v) \<in> set (items (ls_tag song))}"

lemma GetStats_correct:
  "GetStats ss = \<lparr>song_count = length ss, total_duration = sum_list (map (\<lambda>s. nat (duration (ls_tag s))) ss),
     artist_count = card (tag_values TAG_ARTIST ss), album_count = card (tag_values TAG_ALBUM ss)\<rparr>"
proof -
  have gen: "distinct (ss_artists (fold StatsVisitSong ss st)) \<and> distinct (ss_albums (fold StatsVisitSong ss st)) \<and>
      set (ss_artists (fold StatsVisitSong ss st)) = set (ss_artists st) \<union> tag_values TAG_ARTIST ss \<and>
      set (ss_albums (fold StatsVisitSong ss st)) = set (ss_albums st) \<union> tag_values TAG_ALBUM ss \<and>
      ss_stats (fold StatsVisitSong ss st) = (ss_stats st)\<lparr>song_count := song_count (ss_stats st) + length ss,
        total_duration := total_duration (ss_stats st) + sum_list (map (\<lambda>s. nat (duration (ls_tag s))) ss)\<rparr>"
    if "distinct (ss_artists st)" "distinct (ss_albums st)" for st
    using that
  proof (induction ss arbitrary: st)
    case Nil
    then show ?case by (simp add: tag_values_def)
  next
    case (Cons song ss)
    have "distinct (ss_artists (StatsVisitSong song st))" "distinct (ss_albums (StatsVisitSong song st))"
      "set (ss_artists (StatsVisitSong song st)) = set (ss_artists st) \<union> {v. (TAG_ARTIST, v) \<in> set (items (ls_tag song))}"
      "set (ss_albums (StatsVisitSong song st)) = set (ss_albums st) \<union> {v. (TAG_ALBUM, v) \<in> set (items (ls_tag song))}"
      using fold_insert_values [of "ss_artists st" TAG_ARTIST "items (ls_tag song)"]
        fold_insert_values [of "ss_albums st" TAG_ALBUM "items (ls_tag song)"] Cons.prems by (simp_all add: StatsVisitSong_def StatsVisitTag_fields)
    then show ?case
      using Cons.IH [of "StatsVisitSong song st"] by (auto simp: StatsVisitSong_def StatsVisitTag_fields tag_values_def)
  qed
  let ?st = "fold StatsVisitSong ss \<lparr>ss_stats = \<lparr>song_count = 0, total_duration = 0, artist_count = 0, album_count = 0\<rparr>, ss_artists = [], ss_albums = []\<rparr>"
  have st: "distinct (ss_artists ?st)" "distinct (ss_albums ?st)" "set (ss_artists ?st) = tag_values TAG_ARTIST ss"
      "set (ss_albums ?st) = tag_values TAG_ALBUM ss"
      "ss_stats ?st = \<lparr>song_count = length ss, total_duration = sum_list (map (\<lambda>s. nat (duration (ls_tag s))) ss), artist_count = 0, album_count = 0\<rparr>"
    using gen [of "\<lparr>ss_stats = \<lparr>song_count = 0, total_duration = 0, artist_count = 0, album_count = 0\<rparr>, ss_artists = [], ss_albums = []\<rparr>"] by simp_all
  then show ?thesis
    using distinct_card [OF st(1)] distinct_card [OF st(2)] by (simp add: GetStats_def Let_def)
qed

text \<open>
  What a song of the tree looks like to the visitor. The songs are listed with the directories
  they are found under (their own first). A song without a target is shown with its own fields; one whose target is
  found (the audio file of a track of a cue sheet) has the tags and times it lacks itself filled in from the target.
\<close>

fun listed_songs :: "directory list \<Rightarrow> directory \<Rightarrow> (directory list \<times> Song) list" where
  "listed_songs ancestors (Directory i cs) =
     map (\<lambda>s. (Directory i cs # ancestors, s)) (songs i) @ concat (map (listed_songs (Directory i cs # ancestors)) cs)"

definition tag_texts :: "TagType \<Rightarrow> Tag \<Rightarrow> string list" where
  "tag_texts type t = map snd (filter (\<lambda>i. fst i = type) (items t))"

definition same_length :: "Tag \<Rightarrow> Tag \<Rightarrow> bool" where
  "same_length t u \<longleftrightarrow> duration t = duration u \<or> duration t < 0 \<and> duration u < 0"

definition fills_tag :: "Tag \<Rightarrow> Tag \<Rightarrow> Tag \<Rightarrow> bool" where
  "fills_tag own other t \<longleftrightarrow>
     (\<forall>type. tag_texts type t = (if tag_texts type own = [] then tag_texts type other else tag_texts type own)) \<and>
     same_length t (if duration own < 0 then other else own)"

definition shows_song :: "directory list \<times> Song \<Rightarrow> LightSong \<Rightarrow> bool" where
  "shows_song l ls \<longleftrightarrow>
     (case l of (chain, s) \<Rightarrow>
       LightSong_GetURI ls = GetURI (dir (hd chain)) s \<and>
       real_uri ls = (if target s = [] then None else Some (target s)) \<and>
       (case if target s = [] then None else FindTargetSong chain (target s) of
          None \<Rightarrow>
            ls_tag ls = song_tag s \<and> ls_mtime ls = song_mtime s \<and> ls_added ls = added s \<and>
            ls_start_time ls = start_time s \<and> ls_end_time ls = end_time s \<and> ls_audio_format ls = audio_format s
        | Some t \<Rightarrow>
            fills_tag (song_tag s) (song_tag t) (ls_tag ls) \<and>
            ls_mtime ls = (if song_mtime s < 0 then song_mtime t else song_mtime s) \<and>
            ls_added ls = (if added s < 0 then added t else added s) \<and>
            ls_start_time ls = (if start_time s = 0 then start_time t else start_time s) \<and>
            ls_end_time ls = (if end_time s = 0 then end_time t else end_time s) \<and>
            ls_audio_format ls = (if IsDefined (audio_format s) then audio_format s else audio_format t)))"

lemma tag_texts_Nil: "tag_texts type t = [] \<longleftrightarrow> type \<notin> fst ` set (items t)"
  by (auto simp: tag_texts_def filter_empty_conv)

lemma fills_tag_Merge:
  fixes own other :: Tag
  defines "m \<equiv> fst (Commit (Complement (TagBuilder_of own) other))"
  shows "fills_tag own other (if Tag_IsDefined m then m else own)"
proof -
  have texts: "tag_texts type m = (if tag_texts type own = [] then tag_texts type other else tag_texts type own)" for type
  proof (cases "type \<in> fst ` set (items own)")
    case True
    then have "TagBuilder_HasType (TagBuilder_of own) type"
      by (auto simp: TagBuilder_HasType_def TagBuilder_of_def)
    then have "filter (\<lambda>i. fst i = type) (filter (\<lambda>i. \<not> TagBuilder_HasType (TagBuilder_of own) (fst i)) (items other)) = []"
      by (auto simp: filter_empty_conv)
    then show ?thesis using True tag_texts_Nil [of type own]
      by (simp add: m_def tag_texts_def Commit_def Complement_def TagBuilder_of_def)
  next
    case False
    then have "\<not> TagBuilder_HasType (TagBuilder_of own) type"
      by (force simp: TagBuilder_HasType_def TagBuilder_of_def)
    then have "filter (\<lambda>i. fst i = type) (filter (\<lambda>i. \<not> TagBuilder_HasType (TagBuilder_of own) (fst i)) (items other)) =
        filter (\<lambda>i. fst i = type) (items other)"
      by (auto intro!: filter_cong)
    moreover have "filter (\<lambda>i. fst i = type) (items own) = []" using False by (auto simp: filter_empty_conv)
    ultimately show ?thesis by (simp add: m_def tag_texts_def Commit_def Complement_def TagBuilder_of_def)
  qed
  have len: "duration m = duration (if duration own < 0 then other else own)"
    by (simp add: m_def Commit_def Complement_def TagBuilder_of_def)
  show ?thesis
  proof (cases "Tag_IsDefined m")
    case True
    then show ?thesis using texts len by (simp add: fills_tag_def same_length_def)
  next
    case False
    then have no: "items m = []" "duration m < 0" by (simp_all add: Tag_IsDefined_def)
    then have "tag_texts type m = []" for type by (simp add: tag_texts_def)
    then have "tag_texts type own = []" "tag_texts type other = []" for type using texts [of type] by (metis (full_types))+
    then show ?thesis using False no(2) len by (auto simp: fills_tag_def same_length_def split: if_splits)
  qed
qed

lemma Tag_empty_undefined: "\<not> Tag_IsDefined Tag_empty"
  by (simp add: Tag_IsDefined_def Tag_empty_def)

lemma shows_Song_Export:
  assumes "path_ok i" "valid_name (filename s)"
  shows "shows_song (Directory i cs # ancestors, s) (Song_Export (Directory i cs # ancestors) s)"
proof (cases "if target s = [] then None else FindTargetSong (Directory i cs # ancestors) (target s)")
  case None
  then show ?thesis
    using Song_Export_uri [OF assms, of cs ancestors] Tag_empty_undefined
    by (auto simp: shows_song_def Song_Export_def Let_def split: if_splits)
next
  case (Some t)
  have uri: "LightSong_GetURI (Song_Export (Directory i cs # ancestors) s) = GetURI i s"
    by (rule Song_Export_uri [OF assms])
  have "target s \<noteq> []" "FindTargetSong (Directory i cs # ancestors) (target s) = Some t" using Some by (auto split: if_splits)
  then show ?thesis
    using uri fills_tag_Merge [of "song_tag s" "song_tag t"]
    by (simp split del: if_split cong: if_cong add: shows_song_def Song_Export_def Let_def)
qed

lemma directory_songs_show:
  assumes "plain_tree d"
  shows "list_all2 shows_song (filter (\<lambda>(_, s). \<not> (hide \<and> in_playlist s)) (listed_songs ancestors d)) (directory_songs hide ancestors d)"
  using assms
proof (induction d arbitrary: ancestors)
  case (Directory i cs)
  let ?keep = "\<lambda>s. \<not> (hide \<and> in_playlist s)" and ?d = "Directory i cs"
  have own: "list_all2 shows_song (map (\<lambda>s. (?d # ancestors, s)) (filter ?keep (songs i)))
      (map (Song_Export (?d # ancestors)) (filter ?keep (songs i)))"
    using Directory.prems by (auto simp: list_all2_map1 list_all2_map2 plain_tree_def list_all2_same intro!: shows_Song_Export)
  have sub: "list_all2 shows_song (filter (\<lambda>(_, s). ?keep s) (listed_songs (?d # ancestors) c)) (directory_songs hide (?d # ancestors) c)"
    if "c \<in> set cs" for c
    using Directory that by (auto simp: plain_tree_def)
  have "list_all2 shows_song (concat (map (\<lambda>c. filter (\<lambda>(_, s). ?keep s) (listed_songs (?d # ancestors) c)) cs'))
      (concat (map (directory_songs hide (?d # ancestors)) cs'))" if "set cs' \<subseteq> set cs" for cs'
    using that sub by (induction cs') (auto intro: list_all2_appendI)
  moreover have "directory_songs hide ancestors ?d = map (Song_Export (?d # ancestors)) (filter ?keep (songs i)) @
      concat (map (directory_songs hide (?d # ancestors)) cs)"
    using Directory.prems directory_songs_split by (simp add: plain_tree_def)
  ultimately show ?case
    using own by (auto simp: filter_concat filter_map comp_def intro!: list_all2_appendI)
qed

section \<open>Properties\<close>


definition sample_db :: SimpleDatabase where
  "sample_db = \<lparr>sdb_root = sample_tree, sdb_hide_playlist_targets = False\<rparr>"

lemma sample_plain: "plain_tree sample_tree"
  using sample_wf by (simp add: plain_tree_def sample_defs IsMount_def valid_name_def)

definition all_visits :: visit_flags where
  "all_visits = \<lparr>visit_directory = True, visit_song = True, visit_playlist = True\<rparr>"




text \<open>
  Property C37 (error): a \<open>base\<close> item that names a directory below a mount point finds nothing. The
  lookup stops at the mount point and reports its URI with a trailing slash; that prefix leaves no
  slash to strip from the value of the item, which is passed on as it is, although every song of
  the directory is within it under its full URI. The directory object of the mount point must have
  no child of that name itself.
\<close>

theorem base_below_mount:
  assumes "wf_directory (sdb_root sdb)" "lookup_names (sdb_root sdb) ns = Some m" "mounted_database (dir m) = Some db" "ns \<noteq> []"
    and "dbs db = SimpleDatabase_Visit env dbs' sub"
    and "plain_tree (sdb_root sub)" "is_root (dir (sdb_root sub))" "lookup_names (sdb_root sub) ks = Some c" "ks \<noteq> []"
    and "hd ks \<noteq> hd ns" "visit_song v" "FindChild m (hd ks) = None"
  shows "\<exists>vs. SimpleDatabase_Visit env dbs sdb (DatabaseSelection_new [] True (Some [BaseSongFilter (names_path (ns @ ks))])) v = Returns vs \<and>
    visited_songs vs = [] \<and>
    (\<forall>song \<in> set (directory_songs hide anc c).
       SongFilter_Match env [BaseSongFilter (names_path (ns @ ks))] (PrefixedLightSong song (names_path ns)))"
proof -
  let ?sf = "[BaseSongFilter (names_path (ns @ ks))]"
  let ?sel = "DatabaseSelection_new [] True (Some ?sf)"
  have wf: "wf_directory (sdb_root sub)" using assms(6) by (simp add: plain_tree_def)
  have ns: "\<forall>n \<in> set ns. valid_name n" using lookup_names_wf [OF assms(2,1)] by blast
  have ks: "\<forall>k \<in> set ks. valid_name k" using lookup_names_wf [OF assms(8) wf] by blast
  let ?sel' = "?sel\<lparr>sel_uri := names_path ks, sel_filter := Some ?sf\<rparr>"
  obtain vs where vs: "SimpleDatabase_Visit env dbs' sub ?sel' v = helper_visits ?sel' v vs"
    "visited_songs vs = filter (DatabaseSelection_Match env ?sel')
      (directory_songs (sdb_hide_playlist_targets sub) (tl (lookup_chain [] (sdb_root sub) ks)) c)"
    using Visit_directory [OF assms(6,8), of ?sel' v env dbs'] assms(11) by auto
  have "visited_songs vs = []"
    using no_song_under_foreign_base [OF assms(6-8) ns assms(4,9,10)]
    by (auto simp: vs(2) filter_empty_conv DatabaseSelection_Match_def SongFilter_Match_def)
  moreover have "SimpleDatabase_Visit env dbs sdb ?sel v = Returns (map (prefix_visit (names_path ns @ ''/'')) vs)"
  proof -
    have "sel_uri ?sel = names_path (ns @ ks)" by (simp add: DatabaseSelection_new_def)
    then have "SimpleDatabase_Visit env dbs sdb ?sel v = WalkMount (names_path ns @ ''/'') (dbs db) (names_path ks) ?sel v"
      using LookupDirectory_below_mount [OF assms(1,2,4,12) ks assms(9)] assms(3)
      by (simp add: SimpleDatabase_Visit_def Let_def rest_view_def)
    also have "\<dots> = map_outcome (map (prefix_visit (names_path ns @ ''/''))) (SimpleDatabase_Visit env dbs' sub ?sel' v)"
      using WithoutBasePrefix_slash [OF ks assms(9,4)] by (simp add: WalkMount_def assms(5))
    finally show ?thesis using vs(1) by (simp add: helper_visits_plain)
  qed
  moreover have "SongFilter_Match env ?sf (PrefixedLightSong song (names_path ns))" if song: "song \<in> set (directory_songs hide anc c)" for song
  proof -
    obtain ms where ms: "ms \<noteq> []" "\<forall>m \<in> set ms. valid_name m" "LightSong_GetURI song = names_path (ks @ ms)"
      using directory_songs_names [OF assms(8) wf assms(7) plain_tree_lookup [OF assms(6,8)] song] by blast
    have "LightSong_GetURI song \<noteq> []" "hd (LightSong_GetURI song) \<noteq> SEPARATOR"
      using ms ks assms(9) by (cases ks; cases "hd ks"; auto simp: names_path_def valid_name_def)+
    then have "LightSong_GetURI (PrefixedLightSong song (names_path ns)) = names_path (ns @ ks @ ms)"
      using LightSong_GetURI_prefixed [of "names_path ns" song] names_path_ends [OF ns assms(4)] names_path_append [OF assms(4), of "ks @ ms"] ms(3) assms(9)
      by simp
    then show ?thesis
      using child_or_same_names [of "ns @ ks @ ms" "ns @ ks"] ns ks ms(2) assms(4) by (simp add: SongFilter_Match_def ball_Un)
  qed
  ultimately show ?thesis by (auto simp: visited_songs_prefix)
qed

definition mounted_root :: directory where
  "mounted_root = Directory (dir NewRoot) [Directory ((dir (Directory_new ''mnt'' False))\<lparr>mounted_database := Some 0\<rparr>) []]"

lemma mounted_root_facts:
  "wf_directory mounted_root"
  "lookup_names mounted_root [''mnt''] = Some (Directory ((dir (Directory_new ''mnt'' False))\<lparr>mounted_database := Some 0\<rparr>) [])"
  by (simp_all add: mounted_root_def NewRoot_def Directory_new_def path_ok_def child_ok_def child_path_def GetName_def IsMount_def IsEmpty_def valid_name_def FindChild_def)

theorem base_below_mount_witness:
  "\<exists>vs. SimpleDatabase_Visit plain_env (\<lambda>_. SimpleDatabase_Visit plain_env (\<lambda>_ _ _. UB) sample_db) \<lparr>sdb_root = mounted_root, sdb_hide_playlist_targets = False\<rparr>
      (DatabaseSelection_new [] True (Some [BaseSongFilter (names_path ([''mnt''] @ [''jazz'']))])) all_visits = Returns vs \<and>
    visited_songs vs = [] \<and>
    (\<forall>song \<in> set (directory_songs False [] (Directory ((dir (Directory_new ''jazz'' False))\<lparr>songs := [sample_song]\<rparr>) [])).
       SongFilter_Match plain_env [BaseSongFilter (names_path ([''mnt''] @ [''jazz'']))] (PrefixedLightSong song (names_path [''mnt''])))"
proof (rule base_below_mount)
  show "lookup_names (sdb_root \<lparr>sdb_root = mounted_root, sdb_hide_playlist_targets = False\<rparr>) [''mnt''] =
      Some (Directory ((dir (Directory_new ''mnt'' False))\<lparr>mounted_database := Some 0\<rparr>) [])"
    using mounted_root_facts(2) by simp
  show "lookup_names (sdb_root sample_db) [''jazz''] = Some (Directory ((dir (Directory_new ''jazz'' False))\<lparr>songs := [sample_song]\<rparr>) [])"
    using sample_lookup by (simp add: sample_db_def)
qed (simp_all add: mounted_root_facts(1) sample_db_def sample_plain all_visits_def FindChild_def, simp add: sample_defs)

text \<open>A stable sorting: a permutation in order in which equivalent elements keep their order.\<close>

definition stable_sorting :: "('a \<Rightarrow> 'a \<Rightarrow> bool) \<Rightarrow> 'a list \<Rightarrow> 'a list \<Rightarrow> bool" where
  "stable_sorting lt xs ys \<longleftrightarrow>
     mset ys = mset xs \<and> sorted_wrt (\<lambda>a b. \<not> lt b a) ys \<and>
     (\<forall>k. filter (\<lambda>x. \<not> lt k x \<and> \<not> lt x k) ys = filter (\<lambda>x. \<not> lt k x \<and> \<not> lt x k) xs)"

definition window_of :: "RangeArg \<Rightarrow> 'a list \<Rightarrow> 'a list" where
  "window_of w xs = drop (unat (range_start w)) (take (unat (range_end w)) xs)"

text \<open>
  Property C35 (functional): the window and the order of a selection. Without a sort key the songs
  reported are those whose numbers are within the window. With one, they are that part of a stable
  sorting of all songs (and have lost what a conversion through \<open>DetachedSong\<close> loses); the other
  callbacks are not touched.
\<close>

theorem selection_window_and_order:
  assumes "visit_song v" "length (visited_songs vs) < 2 ^ 32"
  shows "\<exists>out. helper_visits sel v vs = Returns out \<and>
    filter (\<lambda>x. \<not> is_song_visit x) out = filter (\<lambda>x. \<not> is_song_visit x) vs \<and>
    (if sel_sort sel = NoSort then visited_songs out = window_of (sel_window sel) (visited_songs vs)
     else \<exists>ordered. stable_sorting (song_before (sel_sort sel) (sel_descending sel)) (map DetachedSong_of_light (visited_songs vs)) ordered \<and>
       visited_songs out = map LightSong_of_detached (window_of (sel_window sel) ordered))"
proof (cases "sel_sort sel = NoSort")
  case True
  then show ?thesis using helper_visits_unsorted [OF assms(1) True assms(2)] by (auto simp: window_of_def)
next
  case False
  let ?less = "song_before (sel_sort sel) (sel_descending sel)" and ?ds = "map DetachedSong_of_light (visited_songs vs)"
  have "visited_songs (filter (\<lambda>x. \<not> is_song_visit x) vs @ map (\<lambda>s. VisitSong (LightSong_of_detached s)) (Helper_Commit sel ?ds)) =
      map LightSong_of_detached (window_of (sel_window sel) (SortList ?less ?ds))"
    by (simp add: Helper_Commit_window window_of_def)
  moreover have "stable_sorting ?less ?ds (SortList ?less ?ds)"
    unfolding stable_sorting_def
    by (intro conjI allI SortList_mset song_order.SortList_sorted song_order.SortList_stable)
  ultimately show ?thesis
    using False helper_visits_sorted [OF assms(1) False, of vs] by auto
qed

theorem selection_window_and_order_witness:
  "\<exists>out. helper_visits ((DatabaseSelection_new [] True None)\<lparr>sel_window := \<lparr>range_start = 1, range_end = 2\<rparr>\<rparr>) all_visits
     (map (\<lambda>u. VisitSong (sample_light_song u)) [''a'', ''b'', ''c'']) = Returns out \<and> visited_songs out = [sample_light_song ''b'']"
  using selection_window_and_order [of all_visits "map (\<lambda>u. VisitSong (sample_light_song u)) [''a'', ''b'', ''c'']"
      "(DatabaseSelection_new [] True None)\<lparr>sel_window := \<lparr>range_start = 1, range_end = 2\<rparr>\<rparr>"]
  by (auto simp: all_visits_def window_of_def)

text \<open>
  Property C36 (roundtrip): unmounting undoes mounting. A database mounted on a name that is free in an
  existing directory is found at its URI, on a directory with no entries of its own, and unmounting it returns it and gives back the tree
  as it was.
\<close>

theorem Mount_Unmount:
  assumes "wf_directory (sdb_root sdb)" "lookup_names (sdb_root sdb) ns = Some d" "valid_name n" "FindChild d n = None"
  shows "\<exists>sdb' m. SimpleDatabase_Mount (names_path (ns @ [n])) db sdb = Inr sdb' \<and> wf_directory (sdb_root sdb') \<and>
    lookup_names (sdb_root sdb') (ns @ [n]) = Some m \<and> mounted_database (dir m) = Some db \<and> IsEmpty m \<and>
    SimpleDatabase_Unmount (names_path (ns @ [n])) sdb' = (Some db, sdb)"
proof -
  let ?r = "update_names ns (add_mount n db) (sdb_root sdb)"
  have wf: "wf_directory d" using lookup_names_wf [OF assms(2,1)] by blast
  obtain m where m: "lookup_names ?r (ns @ [n]) = Some m" "mounted_database (dir m) = Some db" "IsEmpty m"
    using add_mount_lookup [OF assms(1-4)] by blast
  have wf': "wf_directory ?r"
    by (rule wf_update_names [OF dir_add_mount assms(1,2) wf_add_mount [OF wf assms(3-4)]])
  have "Directory_Delete n (add_mount n db d) = d"
  proof -
    have "GetName (dir d) (dir (Directory ((dir (Directory_new (child_path (dir d) n) False))\<lparr>mounted_database := Some db\<rparr>) [])) = n"
      using FindChild_CreateChild [OF wf assms(3,4), of n] by (auto simp: FindChild_def GetName_def CreateChild_def dest!: find_SomeD)
    moreover have "remove_first P (xs @ [x]) = xs" if "\<forall>y \<in> set xs. \<not> P y" "P x" for P and xs :: "directory list" and x
      using that by (induction xs) auto
    ultimately show ?thesis
      using assms(4) add_mount_children [OF wf assms(3,4), of db]
      by (cases d) (simp add: Directory_Delete_def dir_add_mount FindChild_def find_None_iff)
  qed
  then have "update_names ns (Directory_Delete n) ?r = sdb_root sdb"
    using update_names_update_names [OF dir_add_mount] update_names_same [OF assms(2)] by simp
  then have "SimpleDatabase_Unmount (names_path (ns @ [n])) (sdb\<lparr>sdb_root := ?r\<rparr>) = (Some db, sdb)"
    using LookupDirectory_names [OF wf' m(1)] m(2) by (simp add: SimpleDatabase_Unmount_def Let_def)
  then show ?thesis
    using Mount_add_mount [OF assms(1-4), of db] m wf' by (intro exI [of _ "sdb\<lparr>sdb_root := ?r\<rparr>"] exI [of _ m]) simp
qed

theorem Mount_Unmount_witness:
  "\<exists>sdb' m. SimpleDatabase_Mount (names_path ([''jazz''] @ [''mnt''])) 7 sample_db = Inr sdb' \<and> wf_directory (sdb_root sdb') \<and>
    lookup_names (sdb_root sdb') ([''jazz''] @ [''mnt'']) = Some m \<and> mounted_database (dir m) = Some 7 \<and> IsEmpty m \<and>
    SimpleDatabase_Unmount (names_path ([''jazz''] @ [''mnt''])) sdb' = (Some 7, sample_db)"
proof (rule Mount_Unmount)
  show "lookup_names (sdb_root sample_db) [''jazz''] = Some (Directory ((dir (Directory_new ''jazz'' False))\<lparr>songs := [sample_song]\<rparr>) [])"
    using sample_lookup by (simp add: sample_db_def)
qed (use sample_wf in \<open>simp_all add: sample_db_def valid_name_def FindChild_def IsMount_def Directory_new_def\<close>)

text \<open>
  \<open>list\<close> with groups. The map that is collected has, in ascending order at every
  level, exactly the tuples of values that some song has; for a tag type that a song lacks, the
  values of its fallback count, and the empty string when there is none.
\<close>

lemma CollectUniqueTags_exact:
  assumes "ts \<noteq> []"
  shows "sorted_map (length ts) (CollectUniqueTags ss ts) \<and>
    map_paths (length ts) (CollectUniqueTags ss ts) = (\<Union>song \<in> set ss. tag_tuples (ls_tag song) ts) \<and>
    VisitTagWithFallbackOrEmpty tag t = (case effective_type tag t of Some u \<Rightarrow> VisitTagType tag u | None \<Rightarrow> [[]])"
  using CollectUniqueTags_paths [OF assms] VisitTag_effective by blast

text \<open>
  \<open>GetSong\<close> on the URI of a song of the tree returns that song, but never with the
  time it was added: the copy made while constructing the result leaves that field out, although
  its comment says that all fields are copied.
\<close>

lemma GetSong_loses_added:
  assumes "wf_directory (sdb_root sdb)" "is_root (dir (sdb_root sdb))" "lookup_names (sdb_root sdb) ns = Some c"
    and "FindSong c f = Some s" "valid_name f" "FindChild c f = None" "\<not> IsMount (dir c)"
  shows "\<exists>song anc. SimpleDatabase_GetSong dbs sdb (GetURI (dir c) s) = Returns (Some song) \<and>
    LightSong_GetURI song = GetURI (dir c) s \<and> ls_tag song = ls_tag (Song_Export (c # anc) s) \<and>
    ls_mtime song = ls_mtime (Song_Export (c # anc) s) \<and> ls_added song = time_point_min"
proof -
  have name: "filename s = f" using assms(4) by (rule song_store.lookup_key)
  then have uri: "GetURI (dir c) s = names_path (ns @ [f])" using GetURI_names [OF assms(3,1,2)] assms(5) by simp
  have "\<not> isRootDirectory (names_path (ns @ [f]))"
    using lookup_names_wf [OF assms(3,1)] assms(5) by (intro names_path_not_root) auto
  then have look: "LookupDirectory (sdb_root sdb) (GetURI (dir c) s) =
      \<lparr>lr_names = ns, lr_directory = c, lr_uri = take (length (names_path (ns @ [f])) - length f) (names_path (ns @ [f])), lr_rest = Some f\<rparr>"
    using lookup_loop_rest [OF assms(3,1,5,6)] by (simp add: uri LookupDirectory_def)
  obtain anc where chain: "lookup_chain [] (sdb_root sdb) ns = c # anc" using lookup_chain_hd [OF assms(3)] by blast
  have "mounted_database (dir c) = None" using assms(7) by (simp add: IsMount_def)
  then have song: "SimpleDatabase_GetSong dbs sdb (GetURI (dir c) s) = Returns (Some (ExportedSong_move (Song_Export (c # anc) s)))"
    using assms(4,5) by (simp add: SimpleDatabase_GetSong_def look rest_view_def chain Let_def valid_name_def)
  have "path_ok (dir c)" using lookup_names_wf [OF assms(3,1)] wf_path_ok by blast
  then have "LightSong_GetURI (Song_Export (c # anc) s) = GetURI (dir c) s"
    using Song_Export_uri [of "dir c" s "children c" anc] assms(5) name by simp
  then show ?thesis
    using song by (intro exI [of _ "ExportedSong_move (Song_Export (c # anc) s)"] exI [of _ anc])
      (simp add: ExportedSong_move_def LightSong_copy_def LightSong_GetURI_conversions [unfolded ExportedSong_move_def LightSong_copy_def])
qed

end
