(* ===== verification/Play_Control.thy ===== *)
theory Play_Control
  imports Queue_Steps Db_Select "HOL-Library.Monad_Syntax"
begin

text \<open>
  queue/Playlist.cxx, PlaylistControl.cxx, PlaylistEdit.cxx, PlaylistTag.cxx, PlaylistUpdate.cxx: what
  a partition plays. The play queue is that of \<open>Player_Queue\<close>; the object adds the song that is
  being played (\<open>current\<close>) and the one that the player has been told to play next (\<open>queued\<close>), both as
  order numbers with - 1 for none.

  The player (player/Control.cxx) is seen through the commands it is sent and the answers it gives:
  \<open>p_commands\<close> is the conversation so far, and each answer is a function of it, given by \<open>play_env\<close>;
  the player thread may do anything between two entries. Events for the listener are recorded in
  \<open>p_events\<close>. The random engine is advanced (\<open>p_draws\<close>) whenever it is used. A pointer to a song of
  the queue is the id of its item. A result \<open>None\<close> means that an assertion of the code about an array
  index fails, so that a release build reads outside of the songs of the queue.
\<close>

section \<open>Ranges (protocol/RangeArg.hxx)\<close>

definition RangeArg_IsWellFormed :: "RangeArg \<Rightarrow> bool" where
  "RangeArg_IsWellFormed r \<longleftrightarrow> range_start r \<le> range_end r"

definition RangeArg_IsEmpty :: "RangeArg \<Rightarrow> bool" where
  "RangeArg_IsEmpty r \<longleftrightarrow> range_end r \<le> range_start r"

definition RangeArg_HasAtLeast :: "RangeArg \<Rightarrow> 32 word \<Rightarrow> bool" where
  "RangeArg_HasAtLeast r n \<longleftrightarrow> range_start r + n \<le> range_end r"

definition RangeArg_Count :: "RangeArg \<Rightarrow> 32 word" where
  "RangeArg_Count r = range_end r - range_start r"

text \<open>\<open>None\<close>: the start is out of range.\<close>

definition RangeArg_CheckClip :: "32 word \<Rightarrow> RangeArg \<Rightarrow> RangeArg option" where
  "RangeArg_CheckClip n r =
     (if n < range_start r then None
      else Some (if n < range_end r then r\<lparr>range_end := n\<rparr> else r))"

section \<open>State\<close>

datatype PlayerState = STOP | PAUSE | PLAY
datatype PlayerError = ERROR_NONE | ERROR_DECODER | ERROR_OUTPUT

datatype player_command =
    Enqueue DetachedSong
  | Cancel
  | CloseAudio
  | Play DetachedSong
  | Seek DetachedSong SongTime
  | SetPause bool
  | ClearError
  | SetBorderPause bool
  | SyncInfo PlayerState bool
  | GetState PlayerState
  | GetErrorType PlayerError
  | GetStatus PlayerState int

datatype queue_event = QueueModified | QueueOptionsChanged | QueueSongStarted

datatype play_error =
    BadRange | NoSuchSong | NotPlaying | TooLarge | Denied string | InvalidStartOffset | PlayerThrows string

record play_env =
  pe_sync :: "player_command list \<Rightarrow> PlayerState \<times> bool"
  pe_state :: "player_command list \<Rightarrow> PlayerState"
  pe_error :: "player_command list \<Rightarrow> PlayerError"
  pe_status :: "player_command list \<Rightarrow> PlayerState \<times> int"
  pe_throws :: "player_command list \<Rightarrow> string option"
  pe_database :: "string \<Rightarrow> LightSong option outcome"
  pe_tag_mask :: TagMask
  rnd_shuffle :: "nat \<Rightarrow> shuffler"
  rnd_pick :: "nat \<Rightarrow> nat \<Rightarrow> nat \<Rightarrow> nat"
  rnd_pick_each :: "nat \<Rightarrow> nat \<Rightarrow> nat \<Rightarrow> nat \<Rightarrow> nat"

record playlist =
  p_queue :: "DetachedSong queue"
  p_playing :: bool
  p_stop_on_error :: bool
  p_bulk_edit :: bool
  p_bulk_modified :: bool
  p_error_count :: nat
  p_current :: int
  p_queued :: int
  p_commands :: "player_command list"
  p_events :: "queue_event list"
  p_draws :: nat

text \<open>The two flags and the counter that the constructor leaves uninitialised are arguments.\<close>

definition playlist_new :: "DetachedSong queue \<Rightarrow> bool \<Rightarrow> bool \<Rightarrow> nat \<Rightarrow> playlist" where
  "playlist_new q stop_on_error bulk_modified error_count =
     \<lparr>p_queue = q, p_playing = False, p_stop_on_error = stop_on_error, p_bulk_edit = False,
      p_bulk_modified = bulk_modified, p_error_count = error_count, p_current = - 1, p_queued = - 1,
      p_commands = [], p_events = [], p_draws = 0\<rparr>"

definition tell :: "player_command \<Rightarrow> playlist \<Rightarrow> playlist" where
  "tell c p = p\<lparr>p_commands := p_commands p @ [c]\<rparr>"

definition notify :: "queue_event \<Rightarrow> playlist \<Rightarrow> playlist" where
  "notify e p = p\<lparr>p_events := p_events p @ [e]\<rparr>"

definition order_position :: "'song queue \<Rightarrow> int \<Rightarrow> nat option" where
  "order_position q ord = (if 0 \<le> ord \<and> ord < int (q_length q) then Some (OrderToPosition q (nat ord)) else None)"

definition order_item :: "'song queue \<Rightarrow> int \<Rightarrow> 'song Item option" where
  "order_item q ord = map_option (\<lambda>pos. q_items q ! pos) (order_position q ord)"

definition GetCurrentPosition :: "playlist \<Rightarrow> int option" where
  "GetCurrentPosition p =
     (if 0 \<le> p_current p then map_option int (order_position (p_queue p) (p_current p)) else Some (- 1))"

definition GetNextPosition :: "playlist \<Rightarrow> int option" where
  "GetNextPosition p =
     (let q = p_queue p; current = p_current p in
      if current < 0 then Some (- 1)
      else if q_single q \<noteq> SINGLE_OFF \<and> q_repeat q then map_option int (order_position q current)
      else if current + 1 < int (q_length q) then map_option int (order_position q (current + 1))
      else if q_repeat q then map_option int (order_position q 0)
      else Some (- 1))"

text \<open>The song that has been queued, as the id of its item.\<close>

definition GetQueuedSong :: "playlist \<Rightarrow> nat option option" where
  "GetQueuedSong p =
     (if p_playing p \<and> 0 \<le> p_queued p then map_option (\<lambda>i. Some (i_id i)) (order_item (p_queue p) (p_queued p))
      else Some None)"

section \<open>Changes and the queued song\<close>

definition OnModified :: "playlist \<Rightarrow> playlist" where
  "OnModified p =
     (if p_bulk_edit p then p\<lparr>p_bulk_modified := True\<rparr>
      else notify QueueModified (p\<lparr>p_queue := IncrementVersion (p_queue p)\<rparr>))"

definition reshuffle :: "play_env \<Rightarrow> playlist \<Rightarrow> playlist" where
  "reshuffle env p =
     p\<lparr>p_queue := ShuffleOrder (rnd_shuffle env (p_draws p)) (p_queue p), p_draws := p_draws p + 1\<rparr>"

text \<open>\<open>current\<close> is set to the order number that a position has now.\<close>

definition current_at :: "nat \<Rightarrow> playlist \<Rightarrow> playlist option" where
  "current_at position p =
     map_option (\<lambda>ord. p\<lparr>p_current := int ord\<rparr>) (PositionToOrder (p_queue p) position)"

definition QueueSongOrder :: "int \<Rightarrow> playlist \<Rightarrow> playlist option" where
  "QueueSongOrder ord p =
     map_option (\<lambda>i. tell (Enqueue (i_song i)) (p\<lparr>p_queued := ord\<rparr>)) (order_item (p_queue p) ord)"

definition UpdateQueuedSong_shuffle :: "play_env \<Rightarrow> int \<Rightarrow> playlist \<Rightarrow> playlist option" where
  "UpdateQueuedSong_shuffle env next_order p =
     (if next_order = 0 \<and> q_random (p_queue p) \<and> q_single (p_queue p) = SINGLE_OFF then
        do {
          current_position \<leftarrow> order_position (p_queue p) (p_current p);
          current_at current_position (reshuffle env p)
        }
      else Some p)"

definition UpdateQueuedSong :: "play_env \<Rightarrow> nat option \<Rightarrow> playlist \<Rightarrow> playlist option" where
  "UpdateQueuedSong env prev p =
     (if \<not> p_playing p then Some p
      else if prev = None \<and> p_bulk_edit p then Some p
      else
        let next_order = (if 0 \<le> p_current p then GetNextOrder (p_queue p) (nat (p_current p)) else 0) in
        do {
          p1 \<leftarrow> UpdateQueuedSong_shuffle env next_order p;
          next_song \<leftarrow> (if 0 \<le> next_order then map_option (\<lambda>i. Some (i_id i)) (order_item (p_queue p1) next_order)
                       else Some None);
          let p2 = (if prev \<noteq> None \<and> next_song \<noteq> prev then (tell Cancel p1)\<lparr>p_queued := - 1\<rparr> else p1);
          if 0 \<le> next_order then
            (if next_song \<noteq> prev then QueueSongOrder next_order p2 else Some (p2\<lparr>p_queued := next_order\<rparr>))
          else Some p2
        })"

definition SongStarted :: "play_env \<Rightarrow> playlist \<Rightarrow> playlist option" where
  "SongStarted env p =
     do {
       position \<leftarrow> order_position (p_queue p) (p_current p);
       (changed, q) \<leftarrow> SetPriority (rnd_pick env (p_draws p)) position 0 (- 1) False (p_queue p);
       let p1 = p\<lparr>p_queue := q\<rparr>;
       Some (if changed then OnModified p1 else p1)
     }"

section \<open>Playback (queue/PlaylistControl.cxx)\<close>

text \<open>Operations that throw return the error beside the state they leave behind.\<close>

type_synonym play_result = "(play_error option \<times> playlist) option"

definition and_try :: "play_result \<Rightarrow> (playlist \<Rightarrow> play_result) \<Rightarrow> play_result" where
  "and_try r f =
     (case r of
        None \<Rightarrow> None
      | Some (Some e, p) \<Rightarrow> Some (Some e, p)
      | Some (None, p) \<Rightarrow> f p)"

definition no_throw :: "playlist option \<Rightarrow> play_result" where
  "no_throw r = map_option (\<lambda>p. (None, p)) r"

definition catch_all :: "play_result \<Rightarrow> playlist option" where
  "catch_all r = map_option snd r"

definition Stop :: "play_env \<Rightarrow> playlist \<Rightarrow> playlist option" where
  "Stop env p =
     (if \<not> p_playing p then Some p
      else
        let p1 = (tell CloseAudio p)\<lparr>p_queued := - 1, p_playing := False\<rparr> in
        if q_random (p_queue p1) then
          do {
            current_position \<leftarrow> order_position (p_queue p1) (p_current p1);
            current_at current_position (reshuffle env p1)
          }
        else Some p1)"

definition MoveOrderToCurrent :: "nat \<Rightarrow> playlist \<Rightarrow> nat \<times> playlist" where
  "MoveOrderToCurrent old_order p =
     (let q = p_queue p; result = (\<lambda>(ord, q'). (ord, p\<lparr>p_queue := q'\<rparr>)) in
      if \<not> q_random q then (old_order, p)
      else if p_playing p then result (MoveOrderAfter old_order (nat (p_current p)) q)
      else if 0 \<le> p_current p then result (MoveOrderBefore old_order (nat (p_current p)) q)
      else result (MoveOrderBefore old_order 0 q))"

definition PlayOrder :: "play_env \<Rightarrow> int \<Rightarrow> playlist \<Rightarrow> play_result" where
  "PlayOrder env ord p =
     do {
       item \<leftarrow> order_item (p_queue p) ord;
       let p1 = tell (Play (i_song item)) (p\<lparr>p_playing := True, p_queued := - 1, p_current := ord\<rparr>);
       case pe_throws env (p_commands p1) of
         Some e \<Rightarrow> Some (Some (PlayerThrows e), p1)
       | None \<Rightarrow> no_throw (SongStarted env p1)
     }"

definition PlayAny :: "play_env \<Rightarrow> playlist \<Rightarrow> play_result" where
  "PlayAny env p =
     (if q_length (p_queue p) = 0 then Some (None, p)
      else if p_playing p then Some (None, tell (SetPause False) p)
      else
        let p1 = (tell ClearError p)\<lparr>p_stop_on_error := False, p_error_count := 0\<rparr>
        in PlayOrder env (if 0 \<le> p_current p1 then p_current p1 else 0) p1)"

definition PlayPosition :: "play_env \<Rightarrow> nat \<Rightarrow> playlist \<Rightarrow> play_result" where
  "PlayPosition env position p0 =
     (let p = tell ClearError p0 in
      if \<not> position < q_length (p_queue p) then Some (Some BadRange, p)
      else
        do {
          (ord, p1) \<leftarrow>
            (if q_random (p_queue p)
             then map_option (\<lambda>ord. MoveOrderToCurrent ord p) (PositionToOrder (p_queue p) position)
             else Some (position, p));
          PlayOrder env (int ord) (p1\<lparr>p_stop_on_error := False, p_error_count := 0\<rparr>)
        })"

definition PlayId :: "play_env \<Rightarrow> nat \<Rightarrow> playlist \<Rightarrow> play_result" where
  "PlayId env sid p =
     (let position = Queue_IdToPosition (p_queue p) sid in
      if position < 0 then Some (Some NoSuchSong, p) else PlayPosition env (nat position) p)"

section \<open>Deleting (queue/PlaylistEdit.cxx)\<close>

text \<open>The new \<open>current\<close> when the song being played is deleted, and what happens to the player.\<close>

definition DeleteInternal_current :: "play_env \<Rightarrow> int \<Rightarrow> playlist \<Rightarrow> playlist option" where
  "DeleteInternal_current env songOrder p =
     (let st = pe_state env (p_commands p);
          next_order = GetNextOrder (p_queue p) (nat (p_current p));
          p1 = (tell (GetState st) p)\<lparr>p_current := if next_order = songOrder then - 1 else next_order\<rparr>
      in if 0 \<le> p_current p1 \<and> st \<noteq> PAUSE
         then catch_all (PlayOrder env (p_current p1) p1)
         else Some ((tell CloseAudio p1)\<lparr>p_playing := False\<rparr>))"

definition DeleteInternal :: "play_env \<Rightarrow> nat \<Rightarrow> nat option \<Rightarrow> playlist \<Rightarrow> (nat option \<times> playlist) option" where
  "DeleteInternal env song queued_p p =
     do {
       ord \<leftarrow> PositionToOrder (p_queue p) song;
       let songOrder = int ord;
       (queued_p', p1) \<leftarrow>
         (if p_playing p \<and> p_current p = songOrder
          then map_option (\<lambda>p'. (None, p')) (DeleteInternal_current env songOrder p)
          else Some (queued_p, if p_current p = songOrder then p\<lparr>p_current := - 1\<rparr> else p));
       q \<leftarrow> DeletePosition song (p_queue p1);
       let p2 = p1\<lparr>p_queue := q\<rparr>;
       Some (queued_p', if songOrder < p_current p2 then p2\<lparr>p_current := p_current p2 - 1\<rparr> else p2)
     }"

definition playlist_DeletePosition :: "play_env \<Rightarrow> nat \<Rightarrow> playlist \<Rightarrow> play_result" where
  "playlist_DeletePosition env song p =
     (if q_length (p_queue p) \<le> song then Some (Some BadRange, p)
      else no_throw (do {
        queued_song \<leftarrow> GetQueuedSong p;
        (queued_song', p1) \<leftarrow> DeleteInternal env song queued_song p;
        p2 \<leftarrow> UpdateQueuedSong env queued_song' p1;
        Some (OnModified p2)
      }))"

definition DeleteOrder :: "play_env \<Rightarrow> int \<Rightarrow> playlist \<Rightarrow> play_result" where
  "DeleteOrder env ord p =
     do {
       position \<leftarrow> order_position (p_queue p) ord;
       playlist_DeletePosition env position p
     }"

definition DeleteId :: "play_env \<Rightarrow> nat \<Rightarrow> playlist \<Rightarrow> play_result" where
  "DeleteId env sid p =
     (let song = Queue_IdToPosition (p_queue p) sid in
      if song < 0 then Some (Some NoSuchSong, p) else playlist_DeletePosition env (nat song) p)"

text \<open>The loop of \<open>DeleteRange\<close>, from the last position down.\<close>

fun delete_positions :: "play_env \<Rightarrow> nat list \<Rightarrow> nat option \<Rightarrow> playlist \<Rightarrow> (nat option \<times> playlist) option" where
  "delete_positions env [] queued_song p = Some (queued_song, p)"
| "delete_positions env (song # rest) queued_song p =
     do {
       (queued_song', p') \<leftarrow> DeleteInternal env song queued_song p;
       delete_positions env rest queued_song' p'
     }"

definition DeleteRange :: "play_env \<Rightarrow> RangeArg \<Rightarrow> playlist \<Rightarrow> play_result" where
  "DeleteRange env rng p =
     (case RangeArg_CheckClip (word_of_nat (q_length (p_queue p))) rng of
        None \<Rightarrow> Some (Some BadRange, p)
      | Some r \<Rightarrow>
          if RangeArg_IsEmpty r then Some (None, p)
          else no_throw (do {
            queued_song \<leftarrow> GetQueuedSong p;
            (queued_song', p1) \<leftarrow> delete_positions env (rev [unat (range_start r)..<unat (range_end r)]) queued_song p;
            p2 \<leftarrow> UpdateQueuedSong env queued_song' p1;
            Some (OnModified p2)
          }))"

definition IsURI :: "string \<Rightarrow> DetachedSong \<Rightarrow> bool" where
  "IsURI other_uri song \<longleftrightarrow> ds_uri song = other_uri"

fun stale_positions :: "play_env \<Rightarrow> int \<Rightarrow> string \<Rightarrow> nat list \<Rightarrow> playlist \<Rightarrow> playlist option" where
  "stale_positions env current_position uri [] p = Some p"
| "stale_positions env current_position uri (i # is) p =
     do {
       p' \<leftarrow> (if int i \<noteq> current_position \<and> IsURI uri (i_song (q_items (p_queue p) ! i))
              then catch_all (playlist_DeletePosition env i p) else Some p);
       stale_positions env current_position uri is p'
     }"

definition StaleSong :: "play_env \<Rightarrow> string \<Rightarrow> playlist \<Rightarrow> playlist option" where
  "StaleSong env uri p =
     do {
       current_position \<leftarrow> (if p_playing p then GetCurrentPosition p else Some (- 1));
       stale_positions env current_position uri (rev [0..<q_length (p_queue p)]) p
     }"

section \<open>Next and previous song\<close>

text \<open>Consume mode removes the song that was played, and only once in one-shot mode.\<close>

definition consume_oneshot :: "playlist \<Rightarrow> playlist" where
  "consume_oneshot p =
     (if q_consume (p_queue p) = CONSUME_ONE_SHOT
      then notify QueueOptionsChanged (p\<lparr>p_queue := (p_queue p)\<lparr>q_consume := CONSUME_OFF\<rparr>\<rparr>)
      else p)"

definition PlayNext :: "play_env \<Rightarrow> playlist \<Rightarrow> play_result" where
  "PlayNext env p0 =
     (if \<not> p_playing p0 then Some (Some NotPlaying, p0)
      else
        let p = p0\<lparr>p_stop_on_error := False\<rparr>;
            old_current = p_current p;
            next_order = GetNextOrder (p_queue p) (nat old_current)
        in and_try
             (if next_order < 0 then
                no_throw (map_option (\<lambda>p1. p1\<lparr>p_current := - 1\<rparr>) (Stop env p))
              else PlayOrder env next_order (if next_order = 0 \<and> q_random (p_queue p) then reshuffle env p else p))
             (\<lambda>p1. and_try
                (if q_consume (p_queue p1) \<noteq> CONSUME_OFF then DeleteOrder env old_current p1 else Some (None, p1))
                (\<lambda>p2. Some (None, consume_oneshot p2))))"

definition PlayPrevious :: "play_env \<Rightarrow> playlist \<Rightarrow> play_result" where
  "PlayPrevious env p =
     (if \<not> p_playing p then Some (Some NotPlaying, p)
      else PlayOrder env
        (if 0 < p_current p then p_current p - 1
         else if q_repeat (p_queue p) then int (q_length (p_queue p)) - 1
         else p_current p) p)"

section \<open>Seeking\<close>

definition SeekSongOrder :: "play_env \<Rightarrow> nat \<Rightarrow> SongTime \<Rightarrow> playlist \<Rightarrow> play_result" where
  "SeekSongOrder env i0 seek_time p0 =
     (let p1 = (tell ClearError p0)\<lparr>p_stop_on_error := True, p_error_count := 0\<rparr>;
          (i, p2) = (if \<not> p_playing p1 \<or> p_current p1 \<noteq> int i0 then
              (case MoveOrderToCurrent i0 p1 of (i, p') \<Rightarrow> (i, p'\<lparr>p_playing := True, p_current := int i\<rparr>))
            else (i0, p1))
      in do {
           item \<leftarrow> order_item (p_queue p2) (int i);
           let p3 = tell (Seek (i_song item) seek_time) (p2\<lparr>p_queued := - 1\<rparr>);
           p4 \<leftarrow> UpdateQueuedSong env None p3;
           Some (map_option PlayerThrows (pe_throws env (p_commands p3)), p4)
         })"

definition SeekSongPosition :: "play_env \<Rightarrow> nat \<Rightarrow> SongTime \<Rightarrow> playlist \<Rightarrow> play_result" where
  "SeekSongPosition env song seek_time p =
     (if \<not> song < q_length (p_queue p) then Some (Some BadRange, p)
      else
        do {
          i \<leftarrow> (if q_random (p_queue p) then PositionToOrder (p_queue p) song else Some song);
          SeekSongOrder env i seek_time p
        })"

definition SeekSongId :: "play_env \<Rightarrow> nat \<Rightarrow> SongTime \<Rightarrow> playlist \<Rightarrow> play_result" where
  "SeekSongId env sid seek_time p =
     (let song = Queue_IdToPosition (p_queue p) sid in
      if song < 0 then Some (Some NoSuchSong, p) else SeekSongPosition env (nat song) seek_time p)"

text \<open>Times are signed milliseconds here; a relative time is added to the elapsed time.\<close>

definition SeekCurrent :: "play_env \<Rightarrow> int \<Rightarrow> bool \<Rightarrow> playlist \<Rightarrow> play_result" where
  "SeekCurrent env seek_time relative p =
     (if \<not> p_playing p then Some (Some NotPlaying, p)
      else
        let seek = (\<lambda>t p'. SeekSongOrder env (nat (p_current p')) (if int32_of t < 0 then 0 else word_of_int t) p') in
        if relative then
          (case pe_status env (p_commands p) of (st, elapsed) \<Rightarrow>
             let p1 = tell (GetStatus st elapsed) p in
             if st \<noteq> PLAY \<and> st \<noteq> PAUSE then Some (Some NotPlaying, p1)
             else seek (seek_time + elapsed) p1)
        else seek seek_time p)"

section \<open>Events of the player (queue/Playlist.cxx)\<close>

definition QueuedSongStarted :: "play_env \<Rightarrow> playlist \<Rightarrow> playlist option" where
  "QueuedSongStarted env p =
     do {
       let old_current = p_current p;
       let p1 = p\<lparr>p_current := p_queued p, p_queued := - 1\<rparr>;
       p2 \<leftarrow> (if q_consume (p_queue p1) \<noteq> CONSUME_OFF then catch_all (DeleteOrder env old_current p1) else Some p1);
       SongStarted env (notify QueueSongStarted (consume_oneshot p2))
     }"

definition ResumePlayback :: "play_env \<Rightarrow> playlist \<Rightarrow> playlist option" where
  "ResumePlayback env p =
     (let err = pe_error env (p_commands p);
          p1 = (tell (GetErrorType err) p)\<lparr>p_error_count := if err = ERROR_NONE then 0 else p_error_count p + 1\<rparr>
      in if (p_stop_on_error p1 \<and> err \<noteq> ERROR_NONE) \<or> err = ERROR_OUTPUT \<or> q_length (p_queue p1) \<le> p_error_count p1
         then Stop env p1
         else catch_all (PlayNext env p1))"

definition SyncWithPlayer :: "play_env \<Rightarrow> playlist \<Rightarrow> playlist option" where
  "SyncWithPlayer env p =
     (if \<not> p_playing p then Some p
      else
        case pe_sync env (p_commands p) of (st, has_next_song) \<Rightarrow>
          let p1 = tell (SyncInfo st has_next_song) p in
          if st = STOP then ResumePlayback env p1
          else
            do {
              p2 \<leftarrow> (if \<not> has_next_song \<and> p_queued p1 \<noteq> - 1 then QueuedSongStarted env p1 else Some p1);
              case pe_sync env (p_commands p2) of (st', has_next_song') \<Rightarrow>
                let p3 = tell (SyncInfo st' has_next_song') p2 in
                if \<not> has_next_song' \<and> p_queued p3 < 0 then UpdateQueuedSong env None p3 else Some p3
            })"

definition BorderPause :: "playlist \<Rightarrow> playlist" where
  "BorderPause p =
     (if q_single (p_queue p) = SINGLE_ONE_SHOT
      then notify QueueOptionsChanged (tell (SetBorderPause False) (p\<lparr>p_queue := (p_queue p)\<lparr>q_single := SINGLE_OFF\<rparr>\<rparr>))
      else p)"

section \<open>Options\<close>

definition requeue :: "play_env \<Rightarrow> playlist \<Rightarrow> playlist option" where
  "requeue env p = do { queued_song \<leftarrow> GetQueuedSong p; UpdateQueuedSong env queued_song p }"

definition border_pause :: "playlist \<Rightarrow> playlist" where
  "border_pause p = tell (SetBorderPause (q_single (p_queue p) \<noteq> SINGLE_OFF \<and> \<not> q_repeat (p_queue p))) p"

definition SetRepeat :: "play_env \<Rightarrow> bool \<Rightarrow> playlist \<Rightarrow> playlist option" where
  "SetRepeat env status p =
     (if status = q_repeat (p_queue p) then Some p
      else map_option (notify QueueOptionsChanged)
        (requeue env (border_pause (p\<lparr>p_queue := (p_queue p)\<lparr>q_repeat := status\<rparr>\<rparr>))))"

definition SetSingle :: "play_env \<Rightarrow> SingleMode \<Rightarrow> playlist \<Rightarrow> playlist option" where
  "SetSingle env status p =
     (if status = q_single (p_queue p) then Some p
      else map_option (notify QueueOptionsChanged)
        (requeue env (border_pause (p\<lparr>p_queue := (p_queue p)\<lparr>q_single := status\<rparr>\<rparr>))))"

definition SetConsume :: "ConsumeMode \<Rightarrow> playlist \<Rightarrow> playlist" where
  "SetConsume status p =
     (if status = q_consume (p_queue p) then p
      else notify QueueOptionsChanged (p\<lparr>p_queue := (p_queue p)\<lparr>q_consume := status\<rparr>\<rparr>))"

definition playlist_order :: "playlist \<Rightarrow> playlist option" where
  "playlist_order p =
     do {
       p1 \<leftarrow> (if 0 \<le> p_current p
              then map_option (\<lambda>pos. p\<lparr>p_current := int pos\<rparr>) (order_position (p_queue p) (p_current p)) else Some p);
       Some (p1\<lparr>p_queue := RestoreOrder (p_queue p1)\<rparr>)
     }"

definition SetRandom_on :: "play_env \<Rightarrow> playlist \<Rightarrow> playlist option" where
  "SetRandom_on env p =
     do {
       current_position \<leftarrow> (if p_playing p then GetCurrentPosition p else Some (- 1));
       let p1 = reshuffle env p;
       if 0 \<le> current_position then
         map_option (\<lambda>current_order. p1\<lparr>p_queue := MoveOrder current_order 0 (p_queue p1), p_current := 0\<rparr>)
           (PositionToOrder (p_queue p1) (nat current_position))
       else Some (p1\<lparr>p_current := - 1\<rparr>)
     }"

definition SetRandom :: "play_env \<Rightarrow> bool \<Rightarrow> playlist \<Rightarrow> playlist option" where
  "SetRandom env status p =
     (if status = q_random (p_queue p) then Some p
      else
        do {
          queued_song \<leftarrow> GetQueuedSong p;
          let p1 = p\<lparr>p_queue := (p_queue p)\<lparr>q_random := status\<rparr>\<rparr>;
          p2 \<leftarrow> (if status then SetRandom_on env p1 else playlist_order p1);
          p3 \<leftarrow> UpdateQueuedSong env queued_song p2;
          Some (notify QueueOptionsChanged p3)
        })"

section \<open>Editing (queue/PlaylistEdit.cxx)\<close>

definition playlist_Clear :: "play_env \<Rightarrow> playlist \<Rightarrow> playlist option" where
  "playlist_Clear env p =
     map_option (\<lambda>p1. OnModified (p1\<lparr>p_queue := Queue_Clear (p_queue p1), p_current := - 1\<rparr>)) (Stop env p)"

definition BeginBulk :: "playlist \<Rightarrow> playlist" where
  "BeginBulk p = p\<lparr>p_bulk_edit := True, p_bulk_modified := False\<rparr>"

definition CommitBulk :: "play_env \<Rightarrow> playlist \<Rightarrow> playlist option" where
  "CommitBulk env p0 =
     (let p = p0\<lparr>p_bulk_edit := False\<rparr> in
      if \<not> p_bulk_modified p then Some p
      else map_option OnModified (if p_queued p < 0 then UpdateQueuedSong env None p else Some p))"

definition AppendSong_shuffle :: "play_env \<Rightarrow> playlist \<Rightarrow> playlist" where
  "AppendSong_shuffle env p =
     (let start = nat (if 0 \<le> p_queued p then p_queued p + 1 else p_current p + 1); n = q_length (p_queue p) in
      if q_random (p_queue p) \<and> start < n
      then p\<lparr>p_queue := ShuffleOrderLastWithPriority (rnd_pick env (p_draws p)) start n (p_queue p), p_draws := p_draws p + 1\<rparr>
      else p)"

definition AppendSong :: "play_env \<Rightarrow> DetachedSong \<Rightarrow> playlist \<Rightarrow> ((play_error + nat) \<times> playlist) option" where
  "AppendSong env song p =
     (if Queue_IsFull (p_queue p) then Some (Inl TooLarge, p)
      else
        do {
          queued_song \<leftarrow> GetQueuedSong p;
          (sid, q) \<leftarrow> Queue_Append song 0 (p_queue p);
          p1 \<leftarrow> UpdateQueuedSong env queued_song (AppendSong_shuffle env (p\<lparr>p_queue := q\<rparr>));
          Some (Inr sid, OnModified p1)
        })"

text \<open>The tail that all edits share.\<close>

definition finish_edit :: "play_env \<Rightarrow> nat option \<Rightarrow> playlist \<Rightarrow> play_result" where
  "finish_edit env queued_song p = no_throw (map_option OnModified (UpdateQueuedSong env queued_song p))"

definition swap_current :: "nat \<Rightarrow> nat \<Rightarrow> playlist \<Rightarrow> playlist option" where
  "swap_current song1 song2 p =
     (if q_random (p_queue p) then
        do {
          order1 \<leftarrow> PositionToOrder (p_queue p) song1;
          order2 \<leftarrow> PositionToOrder (p_queue p) song2;
          Some (p\<lparr>p_queue := SwapOrders order1 order2 (p_queue p)\<rparr>)
        }
      else if p_current p = int song1 then Some (p\<lparr>p_current := int song2\<rparr>)
      else if p_current p = int song2 then Some (p\<lparr>p_current := int song1\<rparr>)
      else Some p)"

definition playlist_SwapPositions :: "play_env \<Rightarrow> nat \<Rightarrow> nat \<Rightarrow> playlist \<Rightarrow> play_result" where
  "playlist_SwapPositions env song1 song2 p =
     (if \<not> song1 < q_length (p_queue p) \<or> \<not> song2 < q_length (p_queue p) then Some (Some BadRange, p)
      else
        do {
          queued_song \<leftarrow> GetQueuedSong p;
          p1 \<leftarrow> swap_current song1 song2 (p\<lparr>p_queue := SwapPositions song1 song2 (p_queue p)\<rparr>);
          finish_edit env queued_song p1
        })"

definition SwapIds :: "play_env \<Rightarrow> nat \<Rightarrow> nat \<Rightarrow> playlist \<Rightarrow> play_result" where
  "SwapIds env id1 id2 p =
     (let song1 = Queue_IdToPosition (p_queue p) id1; song2 = Queue_IdToPosition (p_queue p) id2 in
      if song1 < 0 \<or> song2 < 0 then Some (Some NoSuchSong, p)
      else playlist_SwapPositions env (nat song1) (nat song2) p)"

definition playlist_SetPriorityRange :: "play_env \<Rightarrow> RangeArg \<Rightarrow> 8 word \<Rightarrow> playlist \<Rightarrow> play_result" where
  "playlist_SetPriorityRange env rng priority p =
     (case RangeArg_CheckClip (word_of_nat (q_length (p_queue p))) rng of
        None \<Rightarrow> Some (Some BadRange, p)
      | Some r \<Rightarrow>
          if RangeArg_IsEmpty r then Some (None, p)
          else
            do {
              current_position \<leftarrow> GetCurrentPosition p;
              queued_song \<leftarrow> GetQueuedSong p;
              (_, q) \<leftarrow> SetPriorityRange (rnd_pick env (p_draws p)) (unat (range_start r)) (unat (range_end r))
                        priority (p_current p) (p_queue p);
              let p1 = p\<lparr>p_queue := q, p_draws := p_draws p + 1\<rparr>;
              p2 \<leftarrow> (if 0 \<le> current_position then current_at (nat current_position) p1 else Some p1);
              finish_edit env queued_song p2
            })"

definition SetPriorityId :: "play_env \<Rightarrow> nat \<Rightarrow> 8 word \<Rightarrow> playlist \<Rightarrow> play_result" where
  "SetPriorityId env song_id priority p =
     (let song_position = Queue_IdToPosition (p_queue p) song_id in
      if song_position < 0 then Some (Some NoSuchSong, p)
      else playlist_SetPriorityRange env
        \<lparr>range_start = word_of_int song_position, range_end = word_of_int song_position + 1\<rparr> priority p)"

text \<open>How \<open>MoveRange\<close> follows the current song outside random mode.\<close>

definition moved_current :: "RangeArg \<Rightarrow> 32 word \<Rightarrow> int \<Rightarrow> int" where
  "moved_current rng to current =
     (let c = word_of_int current :: 32 word; n = int (unat (RangeArg_Count rng)) in
      if RangeArg_Contains rng c then current + int (unat to) - int (unat (range_start rng))
      else if range_end rng \<le> c \<and> c \<le> to then current - n
      else if to \<le> c \<and> c < range_start rng then current + n
      else current)"

text \<open>
  The checks are made with unsigned numbers that wrap around; items are then moved to positions
  \<open>to\<close> and following, wherever these are.
\<close>

definition playlist_MoveRange :: "play_env \<Rightarrow> RangeArg \<Rightarrow> 32 word \<Rightarrow> playlist \<Rightarrow> play_result" where
  "playlist_MoveRange env rng to p =
     (let n = q_length (p_queue p) in
      if \<not> unat (range_start rng) < n \<or> \<not> unat (range_end rng - 1) < n then Some (Some BadRange, p)
      else if n \<le> unat (to + RangeArg_Count rng - 1) then Some (Some BadRange, p)
      else if range_start rng = to then Some (None, p)
      else if unat (range_end rng) < unat (range_start rng) \<or>
              n < unat to + (unat (range_end rng) - unat (range_start rng)) then None
      else
        do {
          queued_song \<leftarrow> GetQueuedSong p;
          let p1 = p\<lparr>p_queue := MoveRange (unat (range_start rng)) (unat (range_end rng)) (unat to) (p_queue p)\<rparr>;
          finish_edit env queued_song
            (if \<not> q_random (p_queue p1) \<and> 0 \<le> p_current p1
             then p1\<lparr>p_current := moved_current rng to (p_current p1)\<rparr> else p1)
        })"

definition Shuffle_current :: "RangeArg \<Rightarrow> playlist \<Rightarrow> (nat \<times> playlist) option" where
  "Shuffle_current rng p =
     (let start = unat (range_start rng) in
      if p_playing p \<and> 0 \<le> p_current p then
        do {
          current_position \<leftarrow> order_position (p_queue p) (p_current p);
          if RangeArg_Contains rng (word_of_nat current_position) then
            do {
              let p1 = p\<lparr>p_queue := SwapPositions start current_position (p_queue p)\<rparr>;
              p2 \<leftarrow> (if q_random (p_queue p1) then current_at start p1 else Some (p1\<lparr>p_current := int start\<rparr>));
              Some (start + 1, p2)
            }
          else Some (start, p)
        }
      else Some (start, p\<lparr>p_current := - 1\<rparr>))"

definition playlist_Shuffle :: "play_env \<Rightarrow> RangeArg \<Rightarrow> playlist \<Rightarrow> play_result" where
  "playlist_Shuffle env rng p =
     (case RangeArg_CheckClip (word_of_nat (q_length (p_queue p))) rng of
        None \<Rightarrow> Some (Some BadRange, p)
      | Some r \<Rightarrow>
          if \<not> RangeArg_HasAtLeast r 2 then Some (None, p)
          else
            do {
              queued_song \<leftarrow> GetQueuedSong p;
              (start, p1) \<leftarrow> Shuffle_current r p;
              finish_edit env queued_song
                (p1\<lparr>p_queue := ShuffleRange (rnd_pick_each env (p_draws p1)) start (unat (range_end r)) (p_queue p1),
                    p_draws := p_draws p1 + 1\<rparr>)
            })"

text \<open>A song of the queue is changed in place.\<close>

definition modify_song :: "nat \<Rightarrow> (DetachedSong \<Rightarrow> DetachedSong) \<Rightarrow> DetachedSong queue \<Rightarrow> DetachedSong queue" where
  "modify_song position f q =
     q\<lparr>q_items := (q_items q)[position := (q_items q ! position)\<lparr>i_song := f (i_song (q_items q ! position))\<rparr>]\<rparr>"

definition song_at :: "int \<Rightarrow> playlist \<Rightarrow> DetachedSong option" where
  "song_at position p =
     (if 0 \<le> position \<and> position < int (q_length (p_queue p)) then Some (i_song (q_items (p_queue p) ! nat position)) else None)"

text \<open>The new end of the range, or an error; a duration that is not known is negative.\<close>

definition check_song_range :: "DetachedSong \<Rightarrow> SongTime \<Rightarrow> SongTime \<Rightarrow> play_error + SongTime" where
  "check_song_range song start end =
     (let d = duration (ds_tag song) in
      if d < 0 then Inr end
      else if d < int (unat start) then Inl InvalidStartOffset
      else Inr (if d \<le> int (unat end) then 0 else end))"

text \<open>Here a position is compared with the order numbers \<open>current\<close> and \<open>queued\<close>, as in the code.\<close>

definition SetSongIdRange :: "play_env \<Rightarrow> nat \<Rightarrow> SongTime \<Rightarrow> SongTime \<Rightarrow> playlist \<Rightarrow> play_result" where
  "SetSongIdRange env sid start end p =
     (let position = Queue_IdToPosition (p_queue p) sid in
      if position < 0 then Some (Some NoSuchSong, p)
      else if p_playing p \<and> position = p_current p then Some (Some (Denied ''Cannot edit the current song''), p)
      else
        do {
          let was_queued = (p_playing p \<and> position = p_queued p);
          let p1 = (if was_queued then (tell Cancel p)\<lparr>p_queued := - 1\<rparr> else p);
          song \<leftarrow> song_at position p1;
          case check_song_range song start end of
            Inl e \<Rightarrow> Some (Some e, p1)
          | Inr end' \<Rightarrow>
              no_throw (do {
                let p2 = p1\<lparr>p_queue := modify_song (nat position) (\<lambda>s. s\<lparr>ds_start_time := start, ds_end_time := end'\<rparr>) (p_queue p1)\<rparr>;
                p3 \<leftarrow> (if was_queued then UpdateQueuedSong env None p2 else Some p2);
                Some (OnModified (p3\<lparr>p_queue := ModifyAtPosition (nat position) (p_queue p3)\<rparr>))
              })
        })"

section \<open>Tags of songs in the queue (queue/Playlist.cxx, PlaylistTag.cxx, PlaylistUpdate.cxx)\<close>

definition IsSame :: "DetachedSong \<Rightarrow> DetachedSong \<Rightarrow> bool" where
  "IsSame song other \<longleftrightarrow>
     ds_uri song = ds_uri other \<and> ds_start_time song = ds_start_time other \<and> ds_end_time song = ds_end_time other"

definition IsRealURI :: "string \<Rightarrow> DetachedSong \<Rightarrow> bool" where
  "IsRealURI other_uri song \<longleftrightarrow> (if ds_real_uri song \<noteq> [] then ds_real_uri song else ds_uri song) = other_uri"

definition MoveTagItemsFrom :: "DetachedSong \<Rightarrow> DetachedSong \<Rightarrow> DetachedSong" where
  "MoveTagItemsFrom other song = song\<lparr>ds_tag := (ds_tag song)\<lparr>items := items (ds_tag other)\<rparr>\<rparr>"

definition TagModified :: "DetachedSong \<Rightarrow> playlist \<Rightarrow> playlist option" where
  "TagModified song p =
     (if \<not> p_playing p then Some p
      else
        do {
          position \<leftarrow> order_position (p_queue p) (p_current p);
          let q = (if IsSame song (i_song (q_items (p_queue p) ! position))
                   then modify_song position (MoveTagItemsFrom song) (p_queue p) else p_queue p);
          Some (OnModified (p\<lparr>p_queue := ModifyAtPosition position q\<rparr>))
        })"

fun tag_modified_loop :: "string \<Rightarrow> Tag \<Rightarrow> nat list \<Rightarrow> bool \<times> DetachedSong queue \<Rightarrow> bool \<times> DetachedSong queue" where
  "tag_modified_loop uri tag [] r = r"
| "tag_modified_loop uri tag (i # is) (modified, q) =
     tag_modified_loop uri tag is
       (if IsRealURI uri (i_song (q_items q ! i))
        then (True, ModifyAtPosition i (modify_song i (\<lambda>s. s\<lparr>ds_tag := tag\<rparr>) q)) else (modified, q))"

definition TagModified_uri :: "string \<Rightarrow> Tag \<Rightarrow> playlist \<Rightarrow> playlist" where
  "TagModified_uri uri tag p =
     (case tag_modified_loop uri tag [0..<q_length (p_queue p)] (False, p_queue p) of
        (modified, q) \<Rightarrow> if modified then OnModified (p\<lparr>p_queue := q\<rparr>) else p\<lparr>p_queue := q\<rparr>)"

text \<open>Editing the tag of a song by its id, for songs that are not local files.\<close>

definition EditSongTag :: "nat \<Rightarrow> (TagBuilder \<Rightarrow> TagBuilder) \<Rightarrow> playlist \<Rightarrow> play_result" where
  "EditSongTag sid edit p =
     (let position = Queue_IdToPosition (p_queue p) sid in
      if position < 0 then Some (Some NoSuchSong, p)
      else
        do {
          song \<leftarrow> song_at position p;
          if \<not> IsRemote song then Some (Some (Denied ''Cannot edit tags of local file''), p)
          else Some (None, OnModified (p\<lparr>p_queue := ModifyAtPosition (nat position)
            (modify_song (nat position) (\<lambda>s. s\<lparr>ds_tag := fst (Commit (edit (TagBuilder_of (ds_tag s))))\<rparr>) (p_queue p))\<rparr>))
        })"

definition AddSongIdTag :: "play_env \<Rightarrow> nat \<Rightarrow> TagType \<Rightarrow> string \<Rightarrow> playlist \<Rightarrow> play_result" where
  "AddSongIdTag env sid tag_type value p = EditSongTag sid (AddItem (pe_tag_mask env) tag_type value) p"

text \<open>\<open>None\<close> is \<open>TAG_NUM_OF_ITEM_TYPES\<close>.\<close>

definition ClearSongIdTag :: "nat \<Rightarrow> TagType option \<Rightarrow> playlist \<Rightarrow> play_result" where
  "ClearSongIdTag sid tag_type p =
     EditSongTag sid (case tag_type of None \<Rightarrow> RemoveAll | Some t \<Rightarrow> RemoveType t) p"

text \<open>\<open>None\<close>: the database returned a null pointer, or undefined behaviour of its own.\<close>

definition UpdatePlaylistSong :: "play_env \<Rightarrow> DetachedSong \<Rightarrow> (bool \<times> DetachedSong) option" where
  "UpdatePlaylistSong env song =
     (if \<not> IsInDatabase song \<or> IsRemote song then Some (False, song)
      else case pe_database env (ds_uri song) of
        Throws _ \<Rightarrow> Some (False, song)
      | Returns (Some original) \<Rightarrow>
          Some (if ls_mtime original = ds_mtime song then (False, song)
                else (True, song\<lparr>ds_mtime := ls_mtime original, ds_added := ls_added original, ds_tag := ls_tag original\<rparr>))
      | _ \<Rightarrow> None)"

fun database_modified_loop :: "play_env \<Rightarrow> nat list \<Rightarrow> bool \<times> DetachedSong queue \<Rightarrow> (bool \<times> DetachedSong queue) option" where
  "database_modified_loop env [] r = Some r"
| "database_modified_loop env (i # is) (modified, q) =
     do {
       (changed, song) \<leftarrow> UpdatePlaylistSong env (i_song (q_items q ! i));
       let q1 = modify_song i (\<lambda>_. song) q;
       database_modified_loop env is (if changed then (True, ModifyAtPosition i q1) else (modified, q1))
     }"

definition DatabaseModified :: "play_env \<Rightarrow> playlist \<Rightarrow> playlist option" where
  "DatabaseModified env p =
     map_option (\<lambda>(modified, q). if modified then OnModified (p\<lparr>p_queue := q\<rparr>) else p\<lparr>p_queue := q\<rparr>)
       (database_modified_loop env [0..<q_length (p_queue p)] (False, p_queue p))"

section \<open>Operations\<close>

text \<open>What clients, the player, the database and the partition ask of the object.\<close>

datatype operation =
    OpPlayAny | OpPlayPosition nat | OpPlayId nat | OpNext | OpPrevious | OpStop
  | OpSeekPosition nat SongTime | OpSeekId nat SongTime | OpSeekCurrent int bool
  | OpSync | OpBorderPause
  | OpSetRepeat bool | OpSetSingle SingleMode | OpSetConsume ConsumeMode | OpSetRandom bool
  | OpAppend DetachedSong | OpDeletePosition nat | OpDeleteRange RangeArg | OpDeleteId nat
  | OpStale string | OpClear | OpBeginBulk | OpCommitBulk
  | OpSwap nat nat | OpSwapIds nat nat | OpMoveRange RangeArg "32 word" | OpShuffle RangeArg
  | OpSetPriorityRange RangeArg "8 word" | OpSetPriorityId nat "8 word"
  | OpSetSongIdRange nat SongTime SongTime
  | OpTagModified DetachedSong | OpTagModifiedUri string Tag
  | OpAddTag nat TagType string | OpClearTag nat "TagType option" | OpDatabaseModified

fun perform :: "play_env \<Rightarrow> operation \<Rightarrow> playlist \<Rightarrow> play_result" where
  "perform env OpPlayAny p = PlayAny env p"
| "perform env (OpPlayPosition position) p = PlayPosition env position p"
| "perform env (OpPlayId sid) p = PlayId env sid p"
| "perform env OpNext p = PlayNext env p"
| "perform env OpPrevious p = PlayPrevious env p"
| "perform env OpStop p = no_throw (Stop env p)"
| "perform env (OpSeekPosition song t) p = SeekSongPosition env song t p"
| "perform env (OpSeekId sid t) p = SeekSongId env sid t p"
| "perform env (OpSeekCurrent t relative) p = SeekCurrent env t relative p"
| "perform env OpSync p = no_throw (SyncWithPlayer env p)"
| "perform env OpBorderPause p = Some (None, BorderPause p)"
| "perform env (OpSetRepeat status) p = no_throw (SetRepeat env status p)"
| "perform env (OpSetSingle status) p = no_throw (SetSingle env status p)"
| "perform env (OpSetConsume status) p = Some (None, SetConsume status p)"
| "perform env (OpSetRandom status) p = no_throw (SetRandom env status p)"
| "perform env (OpAppend song) p =
     map_option (\<lambda>(r, p'). (case r of Inl e \<Rightarrow> Some e | Inr _ \<Rightarrow> None, p')) (AppendSong env song p)"
| "perform env (OpDeletePosition song) p = playlist_DeletePosition env song p"
| "perform env (OpDeleteRange rng) p = DeleteRange env rng p"
| "perform env (OpDeleteId sid) p = DeleteId env sid p"
| "perform env (OpStale uri) p = no_throw (StaleSong env uri p)"
| "perform env OpClear p = no_throw (playlist_Clear env p)"
| "perform env OpBeginBulk p = Some (None, BeginBulk p)"
| "perform env OpCommitBulk p = no_throw (CommitBulk env p)"
| "perform env (OpSwap song1 song2) p = playlist_SwapPositions env song1 song2 p"
| "perform env (OpSwapIds id1 id2) p = SwapIds env id1 id2 p"
| "perform env (OpMoveRange rng to) p = playlist_MoveRange env rng to p"
| "perform env (OpShuffle rng) p = playlist_Shuffle env rng p"
| "perform env (OpSetPriorityRange rng priority) p = playlist_SetPriorityRange env rng priority p"
| "perform env (OpSetPriorityId sid priority) p = SetPriorityId env sid priority p"
| "perform env (OpSetSongIdRange sid start end) p = SetSongIdRange env sid start end p"
| "perform env (OpTagModified song) p = no_throw (TagModified song p)"
| "perform env (OpTagModifiedUri uri tag) p = Some (None, TagModified_uri uri tag p)"
| "perform env (OpAddTag sid tag_type value) p = AddSongIdTag env sid tag_type value p"
| "perform env (OpClearTag sid tag_type) p = ClearSongIdTag sid tag_type p"
| "perform env OpDatabaseModified p = no_throw (DatabaseModified env p)"

end
