(* ===== verification/Play_Invariant.thy ===== *)
theory Play_Invariant
  imports Play_Control
begin

text \<open>
  What the operations on the play state keep: indexes into the queue stay in range, and the player
  has been told of exactly the song that the playlist takes as the next one.
\<close>

section \<open>Total correctness of results\<close>

text \<open>A computation returns, and its result has a property.\<close>

definition ensures :: "'a option \<Rightarrow> ('a \<Rightarrow> bool) \<Rightarrow> bool" where
  "ensures r Q \<longleftrightarrow> (\<exists>x. r = Some x \<and> Q x)"

named_theorems wp

lemma ensures_Some [wp, simp]: "ensures (Some x) Q \<longleftrightarrow> Q x"
  by (simp add: ensures_def)

lemma ensures_None [simp]: "\<not> ensures None Q"
  by (simp add: ensures_def)

lemma ensures_bind [wp, simp]: "ensures (Option.bind r f) Q \<longleftrightarrow> ensures r (\<lambda>x. ensures (f x) Q)"
  by (cases r) (simp_all add: ensures_def)

lemma ensures_map [wp, simp]: "ensures (map_option f r) Q \<longleftrightarrow> ensures r (\<lambda>x. Q (f x))"
  by (cases r) (simp_all add: ensures_def)

lemma ensures_mono: "\<lbrakk>ensures r Q; \<And>x. \<lbrakk>r = Some x; Q x\<rbrakk> \<Longrightarrow> R x\<rbrakk> \<Longrightarrow> ensures r R"
  by (auto simp: ensures_def)

lemma ensures_no_throw [wp, simp]: "ensures (no_throw r) Q \<longleftrightarrow> ensures r (\<lambda>p. Q (None, p))"
  by (simp add: no_throw_def)

lemma ensures_catch_all [wp, simp]: "ensures (catch_all r) Q \<longleftrightarrow> ensures r (\<lambda>(_, p). Q p)"
  by (simp add: catch_all_def case_prod_unfold)

lemma ensures_and_try [wp]:
  "ensures (and_try r f) Q \<longleftrightarrow> ensures r (\<lambda>(e, p). case e of None \<Rightarrow> ensures (f p) Q | Some x \<Rightarrow> Q (Some x, p))"
  by (cases r) (auto simp: and_try_def split: option.split prod.split)

section \<open>Songs by position and by order number\<close>

definition position_ids :: "DetachedSong queue \<Rightarrow> nat list" where
  "position_ids q = map (PositionToId q) [0..<q_length q]"

definition order_ids :: "DetachedSong queue \<Rightarrow> nat list" where
  "order_ids q = map (PositionToId q) (active_order q)"

text \<open>Ids and URIs of the songs in the queue.\<close>

definition id_uris :: "DetachedSong queue \<Rightarrow> (nat \<times> string) set" where
  "id_uris q = (\<lambda>(song, sid, _). (sid, ds_uri song)) ` set (contents q)"

definition item_uri :: "DetachedSong queue \<Rightarrow> nat \<Rightarrow> string" where
  "item_uri q position = ds_uri (i_song (q_items q ! position))"

definition same_songs :: "DetachedSong queue \<Rightarrow> DetachedSong queue \<Rightarrow> bool" where
  "same_songs q q' \<longleftrightarrow>
     queue_ok q' \<and> q_max_length q' = q_max_length q \<and> q_length q' = q_length q \<and> id_uris q' = id_uris q"

lemma contents_upt: "shape_ok q \<Longrightarrow> contents q = map (\<lambda>pos. item_key (q_items q ! pos)) [0..<q_length q]"
  by (rule nth_equalityI) (simp_all add: contents_def shape_ok_def)

lemma id_uris_position:
  assumes "shape_ok q"
  shows "id_uris q = (\<lambda>pos. (PositionToId q pos, item_uri q pos)) ` {..<q_length q}"
proof -
  have "set (contents q) = (\<lambda>pos. item_key (q_items q ! pos)) ` {..<q_length q}"
    using contents_upt [OF assms] by (simp add: atLeast_upt)
  then show ?thesis by (simp add: id_uris_def image_image item_key_def PositionToId_def item_uri_def)
qed

lemma id_uris_functional: "\<lbrakk>queue_ok q; (i, u) \<in> id_uris q; (i, u') \<in> id_uris q\<rbrakk> \<Longrightarrow> u' = u"
  using ids_distinct [of q] by (force simp: id_uris_position queue_ok_def)

lemma queue_okD: "queue_ok q \<Longrightarrow> shape_ok q" "queue_ok q \<Longrightarrow> linked_ids q" "queue_ok q \<Longrightarrow> order_ok q"
  by (simp_all add: queue_ok_def)

lemma length_active: "queue_ok q \<Longrightarrow> length (active_order q) = q_length q"
  using order_length [of q] by simp

lemma order_position_bound: "\<lbrakk>queue_ok q; i < q_length q\<rbrakk> \<Longrightarrow> OrderToPosition q i < q_length q"
  using active_order_bound [OF queue_okD(3), of q "active_order q ! i"] nth_mem [of i "active_order q"] length_active [of q]
  by (simp add: OrderToPosition_def)

lemma length_order_ids [simp]: "queue_ok q \<Longrightarrow> length (order_ids q) = q_length q"
  using length_active [of q] by (simp add: order_ids_def)

lemma order_ids_nth: "\<lbrakk>queue_ok q; i < q_length q\<rbrakk> \<Longrightarrow> order_ids q ! i = PositionToId q (OrderToPosition q i)"
  using length_active [of q] by (simp add: order_ids_def OrderToPosition_def)

lemma distinct_order_ids: "queue_ok q \<Longrightarrow> distinct (order_ids q)"
  unfolding order_ids_def distinct_map
  using order_distinct [OF queue_okD(3)] active_order_bound [OF queue_okD(3), of q] ids_distinct [OF queue_okD(2), of q]
  by (auto intro!: inj_onI)

lemma order_item_in_id_uris:
  assumes "queue_ok q" "i < q_length q"
  shows "(order_ids q ! i, item_uri q (OrderToPosition q i)) \<in> id_uris q"
  using order_position_bound [OF assms] order_ids_nth [OF assms] id_uris_position [OF queue_okD(1) [OF assms(1)]] by auto

lemma same_position_ids:
  assumes "queue_ok q" "queue_ok q'" "position_ids q' = position_ids q" "i < q_length q" "i' < q_length q'"
    and "OrderToPosition q' i' = OrderToPosition q i"
  shows "order_ids q' ! i' = order_ids q ! i"
proof -
  have "q_length q' = q_length q" using arg_cong [OF assms(3), of length] by (simp add: position_ids_def)
  moreover have "PositionToId q' pos = PositionToId q pos" if "pos < q_length q" for pos
    using arg_cong [OF assms(3), of "\<lambda>xs. xs ! pos"] that \<open>q_length q' = q_length q\<close> by (simp add: position_ids_def)
  ultimately show ?thesis
    using assms order_position_bound [OF assms(1,4)] by (simp add: order_ids_nth)
qed

lemma position_ids_contents: "shape_ok q \<Longrightarrow> position_ids q = map (\<lambda>(_, i, _). i) (contents q)"
  by (rule nth_equalityI) (simp_all add: position_ids_def contents_def shape_ok_def item_key_def PositionToId_def)

lemma order_ids_played: "order_ids q = map (\<lambda>(_, i, _). i) (played q)"
  by (simp add: order_ids_def played_def item_key_def PositionToId_def)

section \<open>The operations of the queue keep the songs\<close>

lemma same_songs_refl: "queue_ok q \<Longrightarrow> same_songs q q"
  by (simp add: same_songs_def)

lemma same_songs_trans: "\<lbrakk>same_songs q q'; same_songs q' q''\<rbrakk> \<Longrightarrow> same_songs q q''"
  by (simp add: same_songs_def)

lemma same_songs_contents:
  "\<lbrakk>queue_ok q'; q_max_length q' = q_max_length q; q_length q' = q_length q; set (contents q') = set (contents q)\<rbrakk> \<Longrightarrow> same_songs q q'"
  by (simp add: same_songs_def id_uris_def)

lemma contents_frame: "\<lbrakk>q_items q' = q_items q; q_length q' = q_length q\<rbrakk> \<Longrightarrow> contents q' = contents q"
  by (simp add: contents_def)

lemma position_ids_frame: "\<lbrakk>q_items q' = q_items q; q_length q' = q_length q\<rbrakk> \<Longrightarrow> position_ids q' = position_ids q"
  by (simp add: position_ids_def PositionToId_def)

lemma same_songs_order:
  assumes "queue_ok q'" "q_items q' = q_items q" "q_length q' = q_length q" "q_max_length q' = q_max_length q"
  shows "same_songs q q'" "position_ids q' = position_ids q"
  using assms contents_frame [OF assms(2,3)] position_ids_frame [OF assms(2,3)] by (simp_all add: same_songs_def id_uris_def)

text \<open>A change of the modes alone.\<close>

lemma queue_ok_modes [simp]:
  "queue_ok (q\<lparr>q_repeat := r\<rparr>) = queue_ok q" "queue_ok (q\<lparr>q_single := s\<rparr>) = queue_ok q"
  "queue_ok (q\<lparr>q_consume := c\<rparr>) = queue_ok q"
  by (simp_all add: queue_ok_def shape_ok_def linked_ids_def order_ok_def PositionToId_def)

lemma ShuffleOrder_frame:
  assumes "queue_ok q" "q_random q" "shuffler_ok shuffle"
  shows "ShuffleOrder shuffle q = q\<lparr>q_order := q_order (ShuffleOrder shuffle q)\<rparr>" "queue_ok (ShuffleOrder shuffle q)"
proof -
  show "queue_ok (ShuffleOrder shuffle q)"
    unfolding ShuffleOrder_def by (rule queue_ok_shuffle_order) (use assms in simp_all)
  show "ShuffleOrder shuffle q = q\<lparr>q_order := q_order (ShuffleOrder shuffle q)\<rparr>"
  proof (cases "q_length q = 0")
    case True
    then show ?thesis by (simp add: ShuffleOrder_def ShuffleOrderRangeWithPriority_def)
  next
    case False
    have "shuffled_from (queue_sort_order_by_priority 0 (q_length q) q) (ShuffleOrder shuffle q)"
      unfolding ShuffleOrder_def by (rule ShuffleOrderRangeWithPriority_from) (use assms False in simp_all)
    then have "ShuffleOrder shuffle q = (queue_sort_order_by_priority 0 (q_length q) q)\<lparr>q_order := q_order (ShuffleOrder shuffle q)\<rparr>"
      by (simp add: shuffled_from_def)
    then show ?thesis by (simp add: queue_sort_order_by_priority_def)
  qed
qed

lemma record_order_fields:
  assumes "q' = q\<lparr>q_order := ord'\<rparr>"
  shows "q_items q' = q_items q" "q_length q' = q_length q" "q_max_length q' = q_max_length q" "q_random q' = q_random q"
    "q_single q' = q_single q" "q_repeat q' = q_repeat q" "q_consume q' = q_consume q"
  using assms by simp_all

lemma same_songs_ShuffleOrder:
  assumes "queue_ok q" "q_random q" "shuffler_ok shuffle"
  shows "same_songs q (ShuffleOrder shuffle q)" "position_ids (ShuffleOrder shuffle q) = position_ids q"
    "q_random (ShuffleOrder shuffle q) = q_random q" "q_single (ShuffleOrder shuffle q) = q_single q"
    "q_repeat (ShuffleOrder shuffle q) = q_repeat q" "q_consume (ShuffleOrder shuffle q) = q_consume q"
  using ShuffleOrder_frame [OF assms] record_order_fields [OF ShuffleOrder_frame(1) [OF assms]]
  by (auto intro!: same_songs_order)

lemma IncrementVersion_contents: "shape_ok q \<Longrightarrow> contents (IncrementVersion q) = contents q"
  by (simp add: IncrementVersion_def Let_def contents_def for_prefix_def shape_ok_def item_key_def comp_def)

lemma IncrementVersion_fields [simp]:
  "q_length (IncrementVersion q) = q_length q" "q_max_length (IncrementVersion q) = q_max_length q"
  "q_random (IncrementVersion q) = q_random q" "q_single (IncrementVersion q) = q_single q"
  "q_repeat (IncrementVersion q) = q_repeat q" "q_consume (IncrementVersion q) = q_consume q"
  "q_order (IncrementVersion q) = q_order q"
  by (simp_all add: IncrementVersion_def Let_def)

lemma same_songs_IncrementVersion: "queue_ok q \<Longrightarrow> same_songs q (IncrementVersion q)"
  by (rule same_songs_contents) (simp_all add: queue_ok_IncrementVersion IncrementVersion_contents queue_okD)

section \<open>The conversation with the player\<close>

text \<open>
  The song that the player has still to start, as far as the playlist can know: announced, neither
  withdrawn nor overtaken by another command, and not reported as started.
\<close>

fun pending_step :: "DetachedSong option \<Rightarrow> player_command \<Rightarrow> DetachedSong option" where
  "pending_step s (Enqueue song) = Some song"
| "pending_step s Cancel = None"
| "pending_step s CloseAudio = None"
| "pending_step s (Play song) = None"
| "pending_step s (Seek song t) = None"
| "pending_step s (SyncInfo st has_next) = (if has_next then s else None)"
| "pending_step s c = s"

definition pending :: "player_command list \<Rightarrow> DetachedSong option" where
  "pending cs = foldl pending_step None cs"

text \<open>The song announced last, whether it has been started or not.\<close>

fun announced_step :: "string option \<Rightarrow> player_command \<Rightarrow> string option" where
  "announced_step s (Enqueue song) = Some (ds_uri song)"
| "announced_step s Cancel = None"
| "announced_step s CloseAudio = None"
| "announced_step s (Play song) = None"
| "announced_step s (Seek song t) = None"
| "announced_step s c = s"

definition announced :: "player_command list \<Rightarrow> string option" where
  "announced cs = foldl announced_step None cs"

text \<open>The assertion of \<open>EnqueueSongLocked\<close>: there is no song left to start.\<close>

definition enqueues_ok :: "player_command list \<Rightarrow> bool" where
  "enqueues_ok cs \<longleftrightarrow> (\<forall>i < length cs. \<forall>song. cs ! i = Enqueue song \<longrightarrow> pending (take i cs) = None)"

lemma pending_snoc [simp]: "pending (cs @ [c]) = pending_step (pending cs) c"
  by (simp add: pending_def)

lemma announced_snoc [simp]: "announced (cs @ [c]) = announced_step (announced cs) c"
  by (simp add: announced_def)

lemma enqueues_ok_snoc:
  "enqueues_ok (cs @ [c]) \<longleftrightarrow> enqueues_ok cs \<and> (\<forall>song. c = Enqueue song \<longrightarrow> pending cs = None)"
proof -
  have "(\<forall>i < length (cs @ [c]). P i) \<longleftrightarrow> (\<forall>i < length cs. P i) \<and> P (length cs)" for P
    by (auto simp: less_Suc_eq)
  then show ?thesis unfolding enqueues_ok_def by (auto simp: nth_append)
qed

lemma two_commands [simp]:
  "pending (cs @ [c, d]) = pending_step (pending_step (pending cs) c) d"
  "announced (cs @ [c, d]) = announced_step (announced_step (announced cs) c) d"
  by (simp_all add: pending_def announced_def)

lemma enqueues_ok_two:
  "enqueues_ok (cs @ [c, d]) \<longleftrightarrow> enqueues_ok (cs @ [c]) \<and> (\<forall>song. d = Enqueue song \<longrightarrow> pending_step (pending cs) c = None)"
  using enqueues_ok_snoc [of "cs @ [c]" d] by simp

lemma tell_fields [simp]:
  "p_queue (tell c p) = p_queue p" "p_playing (tell c p) = p_playing p" "p_current (tell c p) = p_current p"
  "p_queued (tell c p) = p_queued p" "p_commands (tell c p) = p_commands p @ [c]" "p_bulk_edit (tell c p) = p_bulk_edit p"
  "p_stop_on_error (tell c p) = p_stop_on_error p" "p_error_count (tell c p) = p_error_count p" "p_draws (tell c p) = p_draws p"
  "p_bulk_modified (tell c p) = p_bulk_modified p"
  by (simp_all add: tell_def)

lemma notify_fields [simp]:
  "p_queue (notify e p) = p_queue p" "p_playing (notify e p) = p_playing p" "p_current (notify e p) = p_current p"
  "p_queued (notify e p) = p_queued p" "p_commands (notify e p) = p_commands p" "p_bulk_edit (notify e p) = p_bulk_edit p"
  "p_stop_on_error (notify e p) = p_stop_on_error p" "p_error_count (notify e p) = p_error_count p" "p_draws (notify e p) = p_draws p"
  by (simp_all add: notify_def)

section \<open>The invariant\<close>

definition play_env_ok :: "play_env \<Rightarrow> bool" where
  "play_env_ok env \<longleftrightarrow>
     (\<forall>n. shuffler_ok (rnd_shuffle env n)) \<and> (\<forall>n. picker_ok (rnd_pick env n)) \<and> (\<forall>n i. picker_ok (rnd_pick_each env n i))"

definition base_ok :: "playlist \<Rightarrow> bool" where
  "base_ok p \<longleftrightarrow>
     queue_ok (p_queue p) \<and> q_max_length (p_queue p) < 2 ^ 31 \<and>
     - 1 \<le> p_current p \<and> p_current p < int (q_length (p_queue p)) \<and> - 1 \<le> p_queued p \<and>
     (p_playing p \<longrightarrow> 0 \<le> p_current p) \<and> enqueues_ok (p_commands p)"

text \<open>While playing, the queued song is in the queue and is the one that the player knows of.\<close>

definition play_ok :: "playlist \<Rightarrow> bool" where
  "play_ok p \<longleftrightarrow> base_ok p \<and>
     (if p_playing p \<and> 0 \<le> p_queued p
      then p_queued p < int (q_length (p_queue p)) \<and>
        announced (p_commands p) = Some (item_uri (p_queue p) (OrderToPosition (p_queue p) (nat (p_queued p))))
      else pending (p_commands p) = None)"

text \<open>
  In the middle of an edit the order number \<open>queued\<close> may be out of date: \<open>prev\<close> is the song that the
  player knows of.
\<close>

definition mid :: "nat option \<Rightarrow> playlist \<Rightarrow> bool" where
  "mid prev p \<longleftrightarrow> base_ok p \<and>
     (case prev of
        None \<Rightarrow> pending (p_commands p) = None \<and> (p_playing p \<longrightarrow> p_queued p = - 1)
      | Some sid \<Rightarrow> p_playing p \<and> 0 \<le> p_queued p \<and>
          (\<exists>u. announced (p_commands p) = Some u \<and> (\<forall>u'. (sid, u') \<in> id_uris (p_queue p) \<longrightarrow> u' = u)))"

definition current_id :: "playlist \<Rightarrow> nat option" where
  "current_id p = (if 0 \<le> p_current p then Some (order_ids (p_queue p) ! nat (p_current p)) else None)"

text \<open>
  The queued song is the one that follows the current one in the order. Only in repeated random
  playback can it be the first one of the order instead: at the end of a round \<open>UpdateQueuedSong\<close>
  shuffles the order again, and the current song keeps its place in the new order.
\<close>

definition queued_next :: "playlist \<Rightarrow> bool" where
  "queued_next p \<longleftrightarrow>
     p_queued p = GetNextOrder (p_queue p) (nat (p_current p)) \<or>
     (p_queued p = 0 \<and> q_random (p_queue p) \<and> q_repeat (p_queue p) \<and> q_single (p_queue p) = SINGLE_OFF)"

lemma GetNextOrder_range: "ord < q_length q \<Longrightarrow> - 1 \<le> GetNextOrder q ord \<and> GetNextOrder q ord < int (q_length q)"
  by (auto simp: GetNextOrder_def)

lemma order_position_eq [simp]: "\<lbrakk>0 \<le> i; i < int (q_length q)\<rbrakk> \<Longrightarrow> order_position q i = Some (OrderToPosition q (nat i))"
  by (simp add: order_position_def)

lemma order_item_eq [simp]: "\<lbrakk>0 \<le> i; i < int (q_length q)\<rbrakk> \<Longrightarrow> order_item q i = Some (q_items q ! OrderToPosition q (nat i))"
  by (simp add: order_item_def)

lemma GetQueuedSong_mid:
  assumes "play_ok p"
  shows "ensures (GetQueuedSong p) (\<lambda>prev. mid prev p)"
proof (cases "p_playing p \<and> 0 \<le> p_queued p")
  case True
  let ?q = "p_queue p" and ?i = "nat (p_queued p)"
  have ok: "base_ok p" "p_queued p < int (q_length ?q)" "announced (p_commands p) = Some (item_uri ?q (OrderToPosition ?q ?i))"
    using assms True by (simp_all add: play_ok_def)
  then have q: "queue_ok ?q" "?i < q_length ?q" using True by (auto simp: base_ok_def)
  have "(order_ids ?q ! ?i, item_uri ?q (OrderToPosition ?q ?i)) \<in> id_uris ?q" by (rule order_item_in_id_uris [OF q])
  then have "u' = item_uri ?q (OrderToPosition ?q ?i)" if "(PositionToId ?q (OrderToPosition ?q ?i), u') \<in> id_uris ?q" for u'
    using id_uris_functional [OF q(1) _ that] order_ids_nth [OF q] by simp
  then show ?thesis
    using True ok by (simp add: GetQueuedSong_def mid_def flip: PositionToId_def)
next
  case False
  then show ?thesis using assms by (auto simp: GetQueuedSong_def mid_def play_ok_def base_ok_def)
qed

lemma mid_cong:
  assumes "mid prev p" "same_songs (p_queue p) (p_queue p')"
    and "p_commands p' = p_commands p" "p_queued p' = p_queued p" "p_playing p' = p_playing p"
    and "- 1 \<le> p_current p'" "p_current p' < int (q_length (p_queue p'))" "p_playing p \<longrightarrow> 0 \<le> p_current p'"
  shows "mid prev p'"
  using assms by (auto simp: mid_def base_ok_def same_songs_def split: option.splits)

lemma current_at_correct:
  assumes "queue_ok (p_queue p)" "pos < q_length (p_queue p)"
  shows "ensures (current_at pos p) (\<lambda>p'. \<exists>i < q_length (p_queue p). p' = p\<lparr>p_current := int i\<rparr> \<and> OrderToPosition (p_queue p) i = pos)"
  by (rule PositionToOrder_correct [OF assms]) (auto simp: current_at_def ensures_def)

lemma reshuffle_current:
  assumes "play_env_ok env" "queue_ok (p_queue p)" "q_random (p_queue p)" "0 \<le> p_current p" "p_current p < int (q_length (p_queue p))"
  shows "ensures (current_at (OrderToPosition (p_queue p) (nat (p_current p))) (reshuffle env p))
    (\<lambda>p'. same_songs (p_queue p) (p_queue p') \<and> position_ids (p_queue p') = position_ids (p_queue p) \<and>
       current_id p' = current_id p \<and> 0 \<le> p_current p' \<and> p_current p' < int (q_length (p_queue p')) \<and>
       p_commands p' = p_commands p \<and> p_queued p' = p_queued p \<and> p_playing p' = p_playing p \<and> p_bulk_edit p' = p_bulk_edit p \<and>
       q_random (p_queue p') \<and> q_repeat (p_queue p') = q_repeat (p_queue p) \<and> q_single (p_queue p') = q_single (p_queue p) \<and> q_consume (p_queue p') = q_consume (p_queue p))"
proof -
  let ?q = "p_queue p" and ?q' = "p_queue (reshuffle env p)" and ?pos = "OrderToPosition (p_queue p) (nat (p_current p))"
  have sh: "shuffler_ok (rnd_shuffle env (p_draws p))" using assms(1) by (simp add: play_env_ok_def)
  note songs = same_songs_ShuffleOrder [OF assms(2,3) sh]
  have q': "?q' = ShuffleOrder (rnd_shuffle env (p_draws p)) ?q" by (simp add: reshuffle_def)
  have ok': "queue_ok ?q'" "q_length ?q' = q_length ?q" using songs(1) by (simp_all add: q' same_songs_def)
  have i: "nat (p_current p) < q_length ?q" using assms(4,5) by simp
  have "?pos < q_length ?q'" using order_position_bound [OF assms(2) i] ok'(2) by simp
  from current_at_correct [OF ok'(1) this] show ?thesis
  proof (rule ensures_mono, elim exE conjE)
    fix p' j
    assume j: "j < q_length ?q'" "p' = (reshuffle env p)\<lparr>p_current := int j\<rparr>" "OrderToPosition ?q' j = ?pos"
    have "position_ids ?q' = position_ids ?q" using songs(2) by (simp add: q')
    then have "order_ids ?q' ! j = order_ids ?q ! nat (p_current p)"
      by (rule same_position_ids [OF assms(2) ok'(1) _ i j(1,3)])
    then show "same_songs ?q (p_queue p') \<and> position_ids (p_queue p') = position_ids ?q \<and>
       current_id p' = current_id p \<and> 0 \<le> p_current p' \<and> p_current p' < int (q_length (p_queue p')) \<and>
       p_commands p' = p_commands p \<and> p_queued p' = p_queued p \<and> p_playing p' = p_playing p \<and> p_bulk_edit p' = p_bulk_edit p \<and>
       q_random (p_queue p') \<and> q_repeat (p_queue p') = q_repeat ?q \<and> q_single (p_queue p') = q_single ?q \<and> q_consume (p_queue p') = q_consume ?q"
      using songs j(1,2) assms(3,4) ok'(2) by (simp add: current_id_def reshuffle_def)
  qed
qed

section \<open>Choosing the next song\<close>

definition updated :: "playlist \<Rightarrow> playlist \<Rightarrow> bool" where
  "updated p p' \<longleftrightarrow>
     same_songs (p_queue p) (p_queue p') \<and> position_ids (p_queue p') = position_ids (p_queue p) \<and>
     current_id p' = current_id p \<and> p_playing p' = p_playing p \<and> p_bulk_edit p' = p_bulk_edit p \<and>
     q_consume (p_queue p') = q_consume (p_queue p)"

lemma updated_refl: "queue_ok (p_queue p) \<Longrightarrow> updated p p"
  by (simp add: updated_def same_songs_refl)

lemma updated_trans: "\<lbrakk>updated p p'; updated p' p''\<rbrakk> \<Longrightarrow> updated p p''"
  unfolding updated_def using same_songs_trans by auto

lemma UpdateQueuedSong_shuffle_correct:
  assumes "play_env_ok env" "mid prev p" "p_playing p" "n = GetNextOrder (p_queue p) (nat (p_current p))"
  shows "ensures (UpdateQueuedSong_shuffle env n p) (\<lambda>p'. mid prev p' \<and> updated p p' \<and>
    (n = GetNextOrder (p_queue p') (nat (p_current p')) \<or>
     (n = 0 \<and> q_random (p_queue p') \<and> q_repeat (p_queue p') \<and> q_single (p_queue p') = SINGLE_OFF)))"
proof (cases "n = 0 \<and> q_random (p_queue p) \<and> q_single (p_queue p) = SINGLE_OFF")
  case False
  have "queue_ok (p_queue p)" using assms(2) by (simp add: mid_def base_ok_def)
  moreover have "UpdateQueuedSong_shuffle env n p = Some p" using False by (auto simp: UpdateQueuedSong_shuffle_def)
  ultimately show ?thesis using assms(2,4) by (simp add: updated_refl)
next
  case True
  have base: "queue_ok (p_queue p)" "0 \<le> p_current p" "p_current p < int (q_length (p_queue p))"
    using assms(2,3) by (simp_all add: mid_def base_ok_def)
  have repeats: "q_repeat (p_queue p)" using True assms(4) by (auto simp: GetNextOrder_def split: if_splits)
  have "ensures (current_at (OrderToPosition (p_queue p) (nat (p_current p))) (reshuffle env p)) (\<lambda>p'. mid prev p' \<and> updated p p' \<and>
      n = 0 \<and> q_random (p_queue p') \<and> q_repeat (p_queue p') \<and> q_single (p_queue p') = SINGLE_OFF)"
  proof (rule ensures_mono [OF reshuffle_current [OF assms(1) base(1) _ base(2,3)]], goal_cases)
    case (2 p')
    then show ?case using True repeats assms(2) by (auto simp: updated_def intro: mid_cong)
  qed (use True in simp)
  then show ?thesis using True base by (auto simp: UpdateQueuedSong_shuffle_def elim!: ensures_mono)
qed

lemma UpdateQueuedSong_correct:
  assumes "play_env_ok env" "mid prev p"
  shows "ensures (UpdateQueuedSong env prev p) (\<lambda>p'. play_ok p' \<and> updated p p' \<and>
    (p_playing p \<and> \<not> p_bulk_edit p \<longrightarrow> queued_next p'))"
proof (cases "\<not> p_playing p \<or> (prev = None \<and> p_bulk_edit p)")
  case True
  have "queue_ok (p_queue p)" using assms(2) by (simp add: mid_def base_ok_def)
  moreover have "prev = None" using True assms(2) by (cases prev) (auto simp: mid_def)
  ultimately show ?thesis
    using True assms(2) by (auto simp: UpdateQueuedSong_def play_ok_def mid_def updated_refl)
next
  case False
  define n where "n = GetNextOrder (p_queue p) (nat (p_current p))"
  have cur: "0 \<le> p_current p" "nat (p_current p) < q_length (p_queue p)" using assms(2) False by (auto simp: mid_def base_ok_def)
  have n: "- 1 \<le> n" "n < int (q_length (p_queue p))" using GetNextOrder_range [OF cur(2)] by (simp_all add: n_def)
  define rest where "rest = (\<lambda>p1. Option.bind
       (if 0 \<le> n then map_option (\<lambda>i. Some (i_id i)) (order_item (p_queue p1) n) else Some None)
       (\<lambda>next_song. let p2 = (if prev \<noteq> None \<and> next_song \<noteq> prev then (tell Cancel p1)\<lparr>p_queued := - 1\<rparr> else p1)
          in if 0 \<le> n then (if next_song \<noteq> prev then QueueSongOrder n p2 else Some (p2\<lparr>p_queued := n\<rparr>)) else Some p2))"
  have def: "UpdateQueuedSong env prev p = Option.bind (UpdateQueuedSong_shuffle env n p) rest"
  proof -
    have "\<not> (prev = None \<and> p_bulk_edit p)" "p_playing p" using False by auto
    then show ?thesis
      using cur(1) by (simp only: UpdateQueuedSong_def rest_def Let_def n_def if_True if_False not_True_eq_False)
  qed
  have "ensures (rest p1) (\<lambda>p'. play_ok p' \<and> updated p p' \<and> queued_next p')"
    if p1: "mid prev p1" "updated p p1" and nx: "n = GetNextOrder (p_queue p1) (nat (p_current p1)) \<or>
      (n = 0 \<and> q_random (p_queue p1) \<and> q_repeat (p_queue p1) \<and> q_single (p_queue p1) = SINGLE_OFF)" for p1
  proof -
    let ?q = "p_queue p1" and ?pos = "OrderToPosition (p_queue p1) (nat n)"
    have base: "base_ok p1" "queue_ok ?q" "p_playing p1" "q_length ?q = q_length (p_queue p)"
      using p1 False by (auto simp: mid_def base_ok_def updated_def same_songs_def)
    show ?thesis
    proof (cases "0 \<le> n")
      case neg: False
      then have "n = - 1" using n by simp
      show ?thesis
      proof (cases prev)
        case None
        then have "p_queued p1 = - 1" using p1(1) base(3) by (simp add: mid_def)
        then show ?thesis using neg None p1 base nx \<open>n = - 1\<close>
          by (auto simp: rest_def play_ok_def mid_def queued_next_def)
      next
        case (Some sid)
        then show ?thesis
          using neg p1 base nx \<open>n = - 1\<close>
          by (auto simp: rest_def play_ok_def base_ok_def updated_def current_id_def queued_next_def enqueues_ok_snoc)
      qed
    next
      case True
      have item: "order_item ?q n = Some (q_items ?q ! ?pos)" using True n base(4) by simp
      have in_q: "(PositionToId ?q ?pos, item_uri ?q ?pos) \<in> id_uris ?q"
        using order_item_in_id_uris [OF base(2), of "nat n"] order_ids_nth [OF base(2), of "nat n"] True n base(4) by simp
      show ?thesis
      proof (cases "prev = Some (i_id (q_items ?q ! ?pos))")
        case same: True
        then have "announced (p_commands p1) = Some (item_uri ?q ?pos)"
          using p1(1) in_q by (auto simp: mid_def PositionToId_def)
        then show ?thesis
          using True same item p1(2) base n nx
          by (auto simp: rest_def play_ok_def base_ok_def updated_def current_id_def queued_next_def)
      next
        case differ: False
        then show ?thesis
          using True item p1 base n nx
          by (cases prev) (auto simp: rest_def QueueSongOrder_def play_ok_def base_ok_def updated_def current_id_def
              queued_next_def mid_def enqueues_ok_snoc enqueues_ok_two item_uri_def)
      qed
    qed
  qed
  then have "ensures (UpdateQueuedSong env prev p) (\<lambda>p'. play_ok p' \<and> updated p p' \<and> queued_next p')"
    unfolding def ensures_bind by (intro ensures_mono [OF UpdateQueuedSong_shuffle_correct [OF assms _ n_def]]) (use False in auto)
  then show ?thesis by (rule ensures_mono) simp
qed

lemma OnModified_fields [simp]:
  "p_playing (OnModified p) = p_playing p" "p_current (OnModified p) = p_current p" "p_queued (OnModified p) = p_queued p"
  "p_commands (OnModified p) = p_commands p" "p_bulk_edit (OnModified p) = p_bulk_edit p"
  "q_consume (p_queue (OnModified p)) = q_consume (p_queue p)" "q_random (p_queue (OnModified p)) = q_random (p_queue p)"
  "q_single (p_queue (OnModified p)) = q_single (p_queue p)" "q_repeat (p_queue (OnModified p)) = q_repeat (p_queue p)"
  "q_length (p_queue (OnModified p)) = q_length (p_queue p)"
  by (simp_all add: OnModified_def)

end
