(* ===== verification/Play_Steps.thy ===== *)
theory Play_Steps
  imports Play_Invariant
begin

text \<open>
  Every operation on the play state returns and keeps the invariant: playing, stopping, deleting,
  the player's events, options and edits.
\<close>

section \<open>Changes that leave ids, names and order alone\<close>

definition same_view :: "DetachedSong queue \<Rightarrow> DetachedSong queue \<Rightarrow> bool" where
  "same_view q q' \<longleftrightarrow>
     queue_ok q' \<and> q_max_length q' = q_max_length q \<and> q_length q' = q_length q \<and> q_order q' = q_order q \<and>
     (\<forall>pos < q_length q. PositionToId q' pos = PositionToId q pos \<and> item_uri q' pos = item_uri q pos)"

lemma same_view_refl: "queue_ok q \<Longrightarrow> same_view q q"
  by (simp add: same_view_def)

lemma same_view_trans: "\<lbrakk>same_view q q'; same_view q' q''\<rbrakk> \<Longrightarrow> same_view q q''"
  by (simp add: same_view_def)

lemma same_view_songs:
  assumes "queue_ok q" "same_view q q'"
  shows "same_songs q q'" "position_ids q' = position_ids q" "order_ids q' = order_ids q"
proof -
  have shape: "shape_ok q" "shape_ok q'" using assms by (simp_all add: same_view_def queue_okD)
  show "same_songs q q'"
    using assms by (auto simp: same_songs_def same_view_def id_uris_position [OF shape(1)] id_uris_position [OF shape(2)])
  show "position_ids q' = position_ids q" using assms(2) by (simp add: same_view_def position_ids_def)
  have "PositionToId q' pos = PositionToId q pos" if "pos \<in> set (active_order q)" for pos
    using active_order_bound [OF queue_okD(3) [OF assms(1)] that] assms(2) by (simp add: same_view_def)
  then show "order_ids q' = order_ids q" using assms(2) by (simp add: order_ids_def same_view_def)
qed

lemma same_view_items:
  assumes "queue_ok q" "length items' = length (q_items q)"
    and "\<And>pos. pos < q_length q \<Longrightarrow> i_id (items' ! pos) = i_id (q_items q ! pos) \<and>
           ds_uri (i_song (items' ! pos)) = ds_uri (i_song (q_items q ! pos))"
  shows "same_view q (q\<lparr>q_items := items'\<rparr>)"
  using queue_ok_items [of q items'] assms by (simp add: same_view_def PositionToId_def item_uri_def)

lemma same_view_IncrementVersion: "queue_ok q \<Longrightarrow> same_view q (IncrementVersion q)"
  using queue_ok_IncrementVersion [of q]
  by (auto simp: same_view_def PositionToId_def item_uri_def IncrementVersion_def Let_def for_prefix_def nth_append
      queue_ok_def shape_ok_def)

lemma same_view_modes [simp]:
  "same_view q (q\<lparr>q_repeat := r\<rparr>) = queue_ok q" "same_view q (q\<lparr>q_single := s\<rparr>) = queue_ok q"
  "same_view q (q\<lparr>q_consume := c\<rparr>) = queue_ok q"
  by (simp_all add: same_view_def PositionToId_def item_uri_def)

lemma same_view_ModifyAtPosition: "\<lbrakk>queue_ok q; pos < q_length q\<rbrakk> \<Longrightarrow> same_view q (ModifyAtPosition pos q)"
  unfolding ModifyAtPosition_def
  by (rule same_view_items) (auto simp: nth_list_update queue_ok_def shape_ok_def)

lemma same_view_modify_song:
  "\<lbrakk>queue_ok q; pos < q_length q; \<And>s. ds_uri (f s) = ds_uri s\<rbrakk> \<Longrightarrow> same_view q (modify_song pos f q)"
  unfolding modify_song_def
  by (rule same_view_items) (auto simp: nth_list_update queue_ok_def shape_ok_def)

lemma play_ok_view:
  assumes "play_ok p" "same_view (p_queue p) (p_queue p')"
    and "p_playing p' = p_playing p" "p_current p' = p_current p" "p_queued p' = p_queued p" "p_commands p' = p_commands p"
  shows "play_ok p'" "current_id p' = current_id p"
proof -
  have q: "queue_ok (p_queue p)" using assms(1) by (simp add: play_ok_def base_ok_def)
  then show "current_id p' = current_id p"
    using same_view_songs(3) [OF q assms(2)] assms(4) by (simp add: current_id_def)
  have "OrderToPosition (p_queue p) (nat (p_queued p)) < q_length (p_queue p)"
    if "0 \<le> p_queued p" "p_queued p < int (q_length (p_queue p))"
    using that by (intro order_position_bound [OF q]) simp
  then show "play_ok p'"
    using assms by (auto simp: play_ok_def base_ok_def same_view_def OrderToPosition_def)
qed

lemma play_ok_queue: "play_ok p \<Longrightarrow> queue_ok (p_queue p)"
  by (simp add: play_ok_def base_ok_def)

lemma play_ok_notify [simp]: "play_ok (notify e p) = play_ok p"
  by (simp add: play_ok_def base_ok_def)

lemma current_id_frame [simp]:
  "current_id (notify e p) = current_id p" "current_id (tell c p) = current_id p"
  "current_id (p\<lparr>p_queued := i\<rparr>) = current_id p" "current_id (p\<lparr>p_playing := b\<rparr>) = current_id p"
  "current_id (p\<lparr>p_stop_on_error := b\<rparr>) = current_id p" "current_id (p\<lparr>p_error_count := n\<rparr>) = current_id p"
  by (simp_all add: current_id_def)

lemma queued_next_notify [simp]: "queued_next (notify e p) = queued_next p"
  by (simp add: queued_next_def)

lemma OnModified_view: "queue_ok (p_queue p) \<Longrightarrow> same_view (p_queue p) (p_queue (OnModified p))"
  by (simp add: OnModified_def same_view_IncrementVersion same_view_refl)

lemma OnModified_ok:
  assumes "play_ok p"
  shows "play_ok (OnModified p)" "current_id (OnModified p) = current_id p"
  using play_ok_view [OF assms OnModified_view [OF play_ok_queue [OF assms]]] by simp_all

lemma OnModified_queued_next [simp]: "queued_next (OnModified p) = queued_next p"
  by (simp only: queued_next_def GetNextOrder_def OnModified_fields)

lemma finish_edit_correct:
  assumes "play_env_ok env" "mid prev p"
  shows "ensures (finish_edit env prev p) (\<lambda>(e, p'). e = None \<and> play_ok p' \<and> current_id p' = current_id p \<and>
    p_playing p' = p_playing p \<and> (p_playing p \<and> \<not> p_bulk_edit p \<longrightarrow> queued_next p'))"
  unfolding finish_edit_def
  by simp (rule ensures_mono [OF UpdateQueuedSong_correct [OF assms]], simp add: OnModified_ok updated_def)

section \<open>Playing a song\<close>

lemma SetPriority_view:
  assumes "queue_ok q" "pos < q_length q"
  obtains changed q' where "SetPriority pick pos priority (- 1) False q = Some (changed, q')"
    "same_view q q'" "q_consume q' = q_consume q"
proof (cases "i_priority (q_items q ! pos) = priority")
  case True
  then show thesis by (intro that [of False q]) (simp_all add: SetPriority_def same_view_refl assms(1))
next
  case False
  let ?item = "(q_items q ! pos)\<lparr>i_version := q_version q, i_priority := priority\<rparr>"
  have "same_view q (q\<lparr>q_items := (q_items q)[pos := ?item]\<rparr>)"
    by (rule same_view_items) (use assms in \<open>auto simp: nth_list_update queue_ok_def shape_ok_def\<close>)
  then show thesis using that False by (simp add: SetPriority_def)
qed

lemma SongStarted_correct:
  assumes "play_ok p" "0 \<le> p_current p"
  shows "ensures (SongStarted env p) (\<lambda>p'. play_ok p' \<and> same_view (p_queue p) (p_queue p') \<and>
    p_playing p' = p_playing p \<and> p_current p' = p_current p \<and> p_queued p' = p_queued p \<and> p_commands p' = p_commands p \<and>
    q_consume (p_queue p') = q_consume (p_queue p) \<and> p_bulk_edit p' = p_bulk_edit p)"
proof -
  let ?q = "p_queue p"
  have q: "queue_ok ?q" "nat (p_current p) < q_length ?q" "p_current p < int (q_length ?q)"
    using assms by (auto simp: play_ok_def base_ok_def)
  let ?Q = "\<lambda>p'. play_ok p' \<and> same_view ?q (p_queue p') \<and> p_playing p' = p_playing p \<and> p_current p' = p_current p \<and>
    p_queued p' = p_queued p \<and> p_commands p' = p_commands p \<and> q_consume (p_queue p') = q_consume ?q \<and> p_bulk_edit p' = p_bulk_edit p"
  have "?Q (if changed then OnModified (p\<lparr>p_queue := q'\<rparr>) else p\<lparr>p_queue := q'\<rparr>)"
    if v: "same_view ?q q'" "q_consume q' = q_consume ?q" for changed q'
  proof -
    have "play_ok (p\<lparr>p_queue := q'\<rparr>)" by (rule play_ok_view(1) [OF assms(1)]) (use v in simp_all)
    moreover have "same_view ?q (p_queue (OnModified (p\<lparr>p_queue := q'\<rparr>)))"
      using v by (intro same_view_trans [OF v(1)]) (use OnModified_view [of "p\<lparr>p_queue := q'\<rparr>"] in \<open>simp add: same_view_def\<close>)
    ultimately show ?thesis using v by (simp add: OnModified_ok)
  qed
  moreover obtain changed q' where "SetPriority (rnd_pick env (p_draws p)) (OrderToPosition ?q (nat (p_current p))) 0 (- 1) False ?q = Some (changed, q')"
    "same_view ?q q'" "q_consume q' = q_consume ?q"
    by (rule SetPriority_view [OF q(1) order_position_bound [OF q(1,2)]])
  ultimately show ?thesis using assms(2) q(3) by (simp add: SongStarted_def Let_def)
qed

text \<open>The player forgets what it was told before when a song is played or the audio output is closed.\<close>

lemma PlayOrder_correct:
  assumes "base_ok p" "0 \<le> ord" "ord < int (q_length (p_queue p))"
  shows "ensures (PlayOrder env ord p) (\<lambda>(e, p'). play_ok p' \<and> same_view (p_queue p) (p_queue p') \<and>
    p_playing p' \<and> p_current p' = ord \<and> p_queued p' = - 1 \<and> pending (p_commands p') = None \<and>
    q_consume (p_queue p') = q_consume (p_queue p) \<and> p_bulk_edit p' = p_bulk_edit p)"
proof -
  let ?q = "p_queue p"
  let ?p = "tell (Play (i_song (q_items ?q ! OrderToPosition ?q (nat ord)))) (p\<lparr>p_playing := True, p_queued := - 1, p_current := ord\<rparr>)"
  have q: "queue_ok ?q" and ok: "play_ok ?p"
    using assms by (simp_all add: play_ok_def base_ok_def enqueues_ok_snoc)
  show ?thesis
  proof (cases "pe_throws env (p_commands ?p)")
    case None
    have "ensures (SongStarted env ?p) (\<lambda>p'. play_ok p' \<and> same_view ?q (p_queue p') \<and>
      p_playing p' \<and> p_current p' = ord \<and> p_queued p' = - 1 \<and> pending (p_commands p') = None \<and> q_consume (p_queue p') = q_consume ?q \<and>
      p_bulk_edit p' = p_bulk_edit p)"
      by (rule ensures_mono [OF SongStarted_correct [OF ok]]) (use assms(2) in simp_all)
    then show ?thesis using None assms(2,3) by (simp add: PlayOrder_def Let_def)
  next
    case (Some e)
    then show ?thesis using ok q assms(2,3) by (simp add: PlayOrder_def Let_def same_view_refl)
  qed
qed

lemma Stop_correct:
  assumes "play_env_ok env" "play_ok p"
  shows "ensures (Stop env p) (\<lambda>p'. play_ok p' \<and> \<not> p_playing p' \<and> same_songs (p_queue p) (p_queue p') \<and>
    current_id p' = current_id p \<and> q_consume (p_queue p') = q_consume (p_queue p))"
proof (cases "p_playing p")
  case False
  then show ?thesis using assms(2) play_ok_queue [OF assms(2)] by (simp add: Stop_def same_songs_refl)
next
  case True
  let ?p = "(tell CloseAudio p)\<lparr>p_queued := - 1, p_playing := False\<rparr>"
  have ok: "play_ok ?p" "queue_ok (p_queue p)" "0 \<le> p_current p" "p_current p < int (q_length (p_queue p))"
    using assms(2) True by (simp_all add: play_ok_def base_ok_def enqueues_ok_snoc)
  show ?thesis
  proof (cases "q_random (p_queue p)")
    case False
    then show ?thesis using True ok by (simp add: Stop_def same_songs_refl current_id_def)
  next
    case rnd: True
    have "ensures (current_at (OrderToPosition (p_queue p) (nat (p_current p))) (reshuffle env ?p)) (\<lambda>p'. play_ok p' \<and> \<not> p_playing p' \<and>
      same_songs (p_queue p) (p_queue p') \<and> current_id p' = current_id p \<and> q_consume (p_queue p') = q_consume (p_queue p))"
    proof (rule ensures_mono [OF reshuffle_current [OF assms(1), of ?p, simplified]], goal_cases)
      case (5 p')
      then show ?case using ok(1) by (simp add: play_ok_def base_ok_def same_songs_def)
    qed (use rnd ok in simp_all)
    then show ?thesis using True rnd ok by (simp add: Stop_def)
  qed
qed

lemma Stop_keeps: "\<lbrakk>play_env_ok env; play_ok p\<rbrakk> \<Longrightarrow> ensures (Stop env p) play_ok"
  by (rule ensures_mono [OF Stop_correct]) auto

lemma order_after_move:
  assumes "queue_ok q" "q_random q" "i < q_length q" "j < q_length q"
  shows "same_songs q (MoveOrder i j q)" "position_ids (MoveOrder i j q) = position_ids q"
    "q_consume (MoveOrder i j q) = q_consume q" "OrderToPosition (MoveOrder i j q) j = OrderToPosition q i"
proof -
  have fields: "q_items (MoveOrder i j q) = q_items q" "q_length (MoveOrder i j q) = q_length q"
    "q_max_length (MoveOrder i j q) = q_max_length q" "q_consume (MoveOrder i j q) = q_consume q"
    by (simp_all add: MoveOrder_def Let_def)
  note ok = queue_ok_MoveOrder [OF assms]
  show "same_songs q (MoveOrder i j q)" "position_ids (MoveOrder i j q) = position_ids q"
    using same_songs_order [OF ok fields(1-3)] by simp_all
  show "q_consume (MoveOrder i j q) = q_consume q" by (rule fields(4))
  have "active_order (MoveOrder i j q) ! j = active_order q ! i"
    using MoveOrder_active(1) [OF assms(1,3,4)] move_elem_nth_conv [of i "active_order q" j j] assms(3,4)
    unfolding length_active [OF assms(1)] fields(2) by simp
  then show "OrderToPosition (MoveOrder i j q) j = OrderToPosition q i"
    using assms(3,4) by (simp add: OrderToPosition_def fields(2))
qed

lemma MoveOrderToCurrent_correct:
  assumes "base_ok p" "i < q_length (p_queue p)"
  obtains i' q' where "MoveOrderToCurrent i p = (i', p\<lparr>p_queue := q'\<rparr>)" "i' < q_length q'"
    "same_songs (p_queue p) q'" "order_ids q' ! i' = order_ids (p_queue p) ! i" "q_consume q' = q_consume (p_queue p)"
proof (cases "q_random (p_queue p)")
  case False
  have "queue_ok (p_queue p)" using assms(1) by (simp add: base_ok_def)
  then show thesis using False assms(2) by (intro that [of i "p_queue p"]) (simp_all add: MoveOrderToCurrent_def same_songs_refl)
next
  case True
  let ?q = "p_queue p"
  have ok: "queue_ok ?q" "p_current p < int (q_length ?q)" "p_playing p \<longrightarrow> 0 \<le> p_current p" using assms(1) by (simp_all add: base_ok_def)
  obtain j where j: "j < q_length ?q" "MoveOrderToCurrent i p = (j, p\<lparr>p_queue := MoveOrder i j ?q\<rparr>)"
  proof (cases "p_playing p")
    case play: True
    have "nat (p_current p) + (if nat (p_current p) < i then 1 else 0) < q_length ?q" using ok play assms(2) by auto
    then show ?thesis by (rule that) (simp add: MoveOrderToCurrent_def MoveOrderAfter_def Let_def True play)
  next
    case False
    define c where "c = (if 0 \<le> p_current p then nat (p_current p) else 0)"
    have "c < q_length ?q" using ok(2) assms(2) by (auto simp: c_def)
    then show ?thesis
      using False True that [of "c - (if i < c then 1 else 0)"]
      by (auto simp: MoveOrderToCurrent_def MoveOrderBefore_def Let_def c_def)
  qed
  note move = order_after_move [OF ok(1) True assms(2) j(1)]
  have q': "queue_ok (MoveOrder i j ?q)" "q_length (MoveOrder i j ?q) = q_length ?q" using move(1) by (simp_all add: same_songs_def)
  show thesis
    using that [OF j(2)] move(1,3) j(1) q'(2) same_position_ids [OF ok(1) q'(1) move(2) assms(2) _ move(4)] by simp
qed

lemma base_ok_songs:
  assumes "base_ok p" "same_songs (p_queue p) (p_queue p')" "enqueues_ok (p_commands p')" "- 1 \<le> p_queued p'"
    and "- 1 \<le> p_current p'" "p_current p' < int (q_length (p_queue p'))" "p_playing p' \<longrightarrow> 0 \<le> p_current p'"
  shows "base_ok p'"
  using assms by (simp add: base_ok_def same_songs_def)

abbreviation keeps :: "play_result \<Rightarrow> bool" where
  "keeps r \<equiv> ensures r (\<lambda>(_, p). play_ok p)"

lemma and_try_keeps:
  "\<lbrakk>ensures r (\<lambda>(e, p). play_ok p \<and> P p); \<And>p. \<lbrakk>play_ok p; P p\<rbrakk> \<Longrightarrow> keeps (f p)\<rbrakk> \<Longrightarrow> keeps (and_try r f)"
  by (auto simp: ensures_def and_try_def split: option.splits)

lemma PlayOrder_keeps:
  "\<lbrakk>base_ok p; 0 \<le> ord; ord < int (q_length (p_queue p))\<rbrakk> \<Longrightarrow> keeps (PlayOrder env ord p)"
  by (rule ensures_mono [OF PlayOrder_correct]) auto

lemma base_ok_tell:
  "base_ok (tell ClearError p) = base_ok p" "play_ok (tell ClearError p) = play_ok p"
  "play_ok (tell (SetPause b) p) = play_ok p"
  by (simp_all add: base_ok_def play_ok_def enqueues_ok_snoc)

lemma play_ok_base: "play_ok p \<Longrightarrow> base_ok p"
  by (simp add: play_ok_def)

lemma PlayAny_keeps: "play_ok p \<Longrightarrow> keeps (PlayAny env p)"
  unfolding PlayAny_def Let_def
  by (auto simp: base_ok_tell intro!: PlayOrder_keeps) (auto simp: play_ok_def base_ok_def enqueues_ok_snoc)

lemma PlayPosition_keeps:
  assumes "play_ok p"
  shows "keeps (PlayPosition env position p)"
proof (cases "position < q_length (p_queue p)")
  case False
  then show ?thesis using assms by (simp add: PlayPosition_def base_ok_tell)
next
  case True
  let ?p = "tell ClearError p"
  have base: "base_ok ?p" "queue_ok (p_queue ?p)" using assms by (simp_all add: base_ok_tell play_ok_base play_ok_queue)
  obtain ord p1 where p1: "(if q_random (p_queue ?p) then map_option (\<lambda>ord. MoveOrderToCurrent ord ?p) (PositionToOrder (p_queue ?p) position)
      else Some (position, ?p)) = Some (ord, p1)" "base_ok p1" "ord < q_length (p_queue p1)"
  proof (cases "q_random (p_queue p)")
    case rnd: True
    obtain i where i: "PositionToOrder (p_queue ?p) position = Some i" "i < q_length (p_queue ?p)"
      by (rule PositionToOrder_correct [OF base(2)]) (use True in auto)
    obtain i' q' where m: "MoveOrderToCurrent i ?p = (i', ?p\<lparr>p_queue := q'\<rparr>)" "i' < q_length q'" "same_songs (p_queue ?p) q'"
      by (rule MoveOrderToCurrent_correct [OF base(1) i(2)])
    have "base_ok (?p\<lparr>p_queue := q'\<rparr>)" using base(1) m(3) by (simp add: base_ok_def same_songs_def)
    then show ?thesis using that rnd i(1) m(1,2) by simp
  qed (use that True base in simp)
  have "keeps (PlayOrder env (int ord) (p1\<lparr>p_stop_on_error := False, p_error_count := 0\<rparr>))"
    by (rule PlayOrder_keeps) (use p1(2,3) in \<open>simp_all add: base_ok_def\<close>)
  then show ?thesis using True p1(1) unfolding PlayPosition_def Let_def by simp
qed

lemma PlayId_keeps: "play_ok p \<Longrightarrow> keeps (PlayId env sid p)"
  by (simp add: PlayId_def Let_def PlayPosition_keeps)

section \<open>Deleting songs\<close>

lemma order_unique:
  "\<lbrakk>queue_ok q; i < q_length q; j < q_length q; OrderToPosition q i = OrderToPosition q j\<rbrakk> \<Longrightarrow> i = j"
  using nth_eq_iff_index_eq [OF order_distinct [OF queue_okD(3)], of q i j] length_active [of q] by (simp add: OrderToPosition_def)

lemma DeletePosition_songs:
  assumes "queue_ok q" "PositionToOrder q position = Some i" "i < q_length q" "OrderToPosition q i = position"
  obtains q' where "DeletePosition position q = Some q'" "queue_ok q'" "q_length q' = q_length q - 1" "q_max_length q' = q_max_length q"
    "q_consume q' = q_consume q" "id_uris q' \<subseteq> id_uris q" "order_ids q' = remove_nth i (order_ids q)"
proof -
  have pos: "position < q_length q" using order_position_bound [OF assms(1,3)] assms(4) by simp
  obtain j q' where d: "DeletePosition position q = Some q'" "queue_ok q'" "q_length q' = q_length q - 1"
    "contents q' = remove_nth position (contents q)" "OrderToPosition q j = position" "j < q_length q"
    "played q' = remove_nth j (played q)"
    by (rule DeletePosition_correct [OF assms(1) pos])
  have "j = i" using order_unique [OF assms(1) d(6) assms(3)] d(5) assms(4) by simp
  have q': "q' = (closed position q)\<lparr>q_order := q_order q'\<rparr>" using DeletePosition_closed [OF assms(2)] d(1) by simp
  have "q_max_length (closed position q) = q_max_length q" "q_consume (closed position q) = q_consume q"
    using closed_frame [of position q] unfolding same_frame_def erased_def by (metis queue.select_convs(1,9) queue.surjective queue.update_convs(2,4,6))+
  then have "q_max_length q' = q_max_length q" "q_consume q' = q_consume q" by (subst q', simp)+
  moreover have "set (contents q') \<subseteq> set (contents q)"
    using set_take_subset set_drop_subset by (fastforce simp: d(4) remove_nth_def)
  then have "id_uris q' \<subseteq> id_uris q" unfolding id_uris_def by (rule image_mono)
  moreover have "order_ids q' = remove_nth i (order_ids q)"
    using \<open>j = i\<close> d(7) by (simp add: order_ids_played remove_nth_def take_map drop_map)
  ultimately show thesis using that d(1-3) by blast
qed

text \<open>What happens to the song being played when it is deleted: another one is played, or the player stops.\<close>

lemma DeleteInternal_current_correct:
  assumes "base_ok p" "p_playing p" "p_current p = int i"
  shows "ensures (DeleteInternal_current env (int i) p) (\<lambda>p'. mid None p' \<and> same_view (p_queue p) (p_queue p') \<and>
    q_consume (p_queue p') = q_consume (p_queue p) \<and> p_bulk_edit p' = p_bulk_edit p \<and> p_current p' \<noteq> int i \<and>
    p_current p' = (if GetNextOrder (p_queue p) i = int i then - 1 else GetNextOrder (p_queue p) i))"
proof -
  let ?next = "GetNextOrder (p_queue p) i" and ?st = "pe_state env (p_commands p)"
  let ?p = "(tell (GetState ?st) p)\<lparr>p_current := if ?next = int i then - 1 else ?next\<rparr>"
  have i: "i < q_length (p_queue p)" and q: "queue_ok (p_queue p)" using assms(1,3) by (simp_all add: base_ok_def)
  note r = GetNextOrder_range [OF i]
  show ?thesis
  proof (cases "0 \<le> p_current ?p \<and> ?st \<noteq> PAUSE")
    case False
    then have "DeleteInternal_current env (int i) p = Some ((tell CloseAudio ?p)\<lparr>p_playing := False\<rparr>)"
      using assms(3) by (auto simp: DeleteInternal_current_def Let_def)
    then show ?thesis
      using assms(1) r q by (auto simp: mid_def base_ok_def enqueues_ok_two enqueues_ok_snoc same_view_refl)
  next
    case True
    let ?p1 = "?p\<lparr>p_current := ?next\<rparr>"
    have def: "DeleteInternal_current env (int i) p = catch_all (PlayOrder env ?next ?p1)" "0 \<le> ?next" "?next \<noteq> int i"
      using True assms(3) by (auto simp: DeleteInternal_current_def Let_def split: if_splits)
    have "base_ok ?p1" using assms(1) r def(2) by (auto simp: base_ok_def enqueues_ok_snoc)
    then show ?thesis
      unfolding def(1) ensures_catch_all using r def(2,3)
      by (intro ensures_mono [OF PlayOrder_correct]) (auto simp: mid_def play_ok_base)
  qed
qed

lemma remove_nth_shift:
  "\<lbrakk>i < length xs; c < length xs; c \<noteq> i\<rbrakk> \<Longrightarrow> remove_nth i xs ! (if i < c then c - 1 else c) = xs ! c"
  by (simp add: remove_nth_def nth_append) (auto simp: min_def)

lemma mid_after_delete:
  assumes "mid prev p" "queue_ok q'" "q_length q' = q_length (p_queue p) - 1" "q_max_length q' = q_max_length (p_queue p)"
    and "id_uris q' \<subseteq> id_uris (p_queue p)" "i < q_length (p_queue p)" "p_current p \<noteq> int i"
  shows "mid prev (if int i < p_current p then p\<lparr>p_queue := q', p_current := p_current p - 1\<rparr> else p\<lparr>p_queue := q'\<rparr>)"
  using assms by (auto simp: mid_def base_ok_def split: option.splits)

lemma DeleteInternal_correct:
  assumes "mid prev p" "song < q_length (p_queue p)"
  shows "ensures (DeleteInternal env song prev p) (\<lambda>(prev', p'). mid prev' p' \<and>
    q_length (p_queue p') = q_length (p_queue p) - 1 \<and> q_consume (p_queue p') = q_consume (p_queue p) \<and>
    p_bulk_edit p' = p_bulk_edit p \<and>
    (current_id p \<noteq> Some (PositionToId (p_queue p) song) \<longrightarrow> current_id p' = current_id p \<and> p_playing p' = p_playing p) \<and>
    (p_playing p \<and> 0 \<le> GetNextOrder (p_queue p) (nat (p_current p)) \<and>
       GetNextOrder (p_queue p) (nat (p_current p)) \<noteq> p_current p \<longrightarrow> 0 \<le> p_current p'))"
proof -
  let ?q = "p_queue p"
  have base: "base_ok p" "queue_ok ?q" using assms(1) by (simp_all add: mid_def base_ok_def)
  obtain i where i: "PositionToOrder ?q song = Some i" "i < q_length ?q" "OrderToPosition ?q i = song"
    by (rule PositionToOrder_correct [OF base(2) assms(2)])
  have song_id: "order_ids ?q ! i = PositionToId ?q song" using order_ids_nth [OF base(2) i(2)] i(3) by simp
  show ?thesis
  proof (cases "p_playing p \<and> p_current p = int i")
    case True
    have "ensures (DeleteInternal_current env (int i) p) (\<lambda>p1. ensures (DeletePosition song (p_queue p1)) (\<lambda>q'.
        mid None (if int i < p_current p1 then p1\<lparr>p_queue := q', p_current := p_current p1 - 1\<rparr> else p1\<lparr>p_queue := q'\<rparr>) \<and>
        q_length q' = q_length ?q - 1 \<and> q_consume q' = q_consume ?q \<and> p_bulk_edit p1 = p_bulk_edit p \<and>
        p_current p1 = (if GetNextOrder ?q i = int i then - 1 else GetNextOrder ?q i)))"
    proof (rule ensures_mono [OF DeleteInternal_current_correct [OF base(1)]], goal_cases)
      case (3 p1)
      let ?q1 = "p_queue p1"
      have q1: "queue_ok ?q1" "q_length ?q1 = q_length ?q" "q_max_length ?q1 = q_max_length ?q" "q_order ?q1 = q_order ?q"
        "q_consume ?q1 = q_consume ?q" and p1: "mid None p1" "p_current p1 \<noteq> int i"
        using 3(2) by (simp_all add: same_view_def)
      have i1: "PositionToOrder ?q1 song = Some i" "i < q_length ?q1" "OrderToPosition ?q1 i = song"
        using i q1 by (simp_all add: PositionToOrder_def OrderToPosition_def)
      obtain q' where q': "DeletePosition song ?q1 = Some q'" "queue_ok q'" "q_length q' = q_length ?q1 - 1"
        "q_max_length q' = q_max_length ?q1" "q_consume q' = q_consume ?q1" "id_uris q' \<subseteq> id_uris ?q1"
        by (rule DeletePosition_songs [OF q1(1) i1])
      show ?case using mid_after_delete [OF p1(1) q'(2,3,4,6) i1(2) p1(2)] q' q1 3(2) by simp
    qed (use True in simp_all)
    then show ?thesis
      using True i(1) song_id by (auto simp: DeleteInternal_def Let_def current_id_def elim!: ensures_mono)
  next
    case False
    define p1 where "p1 = (if p_current p = int i then p\<lparr>p_current := - 1\<rparr> else p)"
    obtain q' where q': "DeletePosition song ?q = Some q'" "queue_ok q'" "q_length q' = q_length ?q - 1"
        "q_max_length q' = q_max_length ?q" "q_consume q' = q_consume ?q" "id_uris q' \<subseteq> id_uris ?q" "order_ids q' = remove_nth i (order_ids ?q)"
      by (rule DeletePosition_songs [OF base(2) i])
    have p1: "mid prev p1" "p_current p1 \<noteq> int i" "p_queue p1 = ?q" "p_playing p1 = p_playing p" "p_bulk_edit p1 = p_bulk_edit p"
      using assms(1) False by (auto simp: p1_def mid_def base_ok_def split: option.splits)
    let ?p' = "if int i < p_current p1 then p1\<lparr>p_queue := q', p_current := p_current p1 - 1\<rparr> else p1\<lparr>p_queue := q'\<rparr>"
    have mid': "mid prev ?p'" by (rule mid_after_delete [OF p1(1)]) (use q' p1 i in simp_all)
    have "current_id ?p' = current_id p" if "current_id p \<noteq> Some (PositionToId ?q song)"
    proof (cases "0 \<le> p_current p")
      case True
      then obtain c where c: "p_current p = int c" using nonneg_int_cases by blast
      then have "c \<noteq> i" "c < q_length ?q" using that base(1) song_id by (auto simp: current_id_def base_ok_def)
      then show ?thesis
        using c q'(7) remove_nth_shift [of i "order_ids ?q" c] i(2) base(2)
        by (auto simp: current_id_def p1_def nat_diff_distrib split: if_splits)
    qed (auto simp: current_id_def p1_def)
    moreover have "0 \<le> p_current ?p'" if "p_playing p" using mid' that p1(4) by (simp add: mid_def base_ok_def)
    moreover have "DeleteInternal env song prev p = Some (prev, ?p')"
    proof -
      have "\<not> (p_playing p \<and> p_current p = int i)" using False by simp
      then show ?thesis
        using q'(1) p1(3) unfolding DeleteInternal_def i(1) Option.bind.bind_lunit Let_def
        by (simp only: if_False p1_def [symmetric] Option.bind.bind_lunit prod.case) (simp add: p1(3))
    qed
    ultimately show ?thesis using mid' q'(3,5) p1(4,5) by auto
  qed
qed

lemma playlist_DeletePosition_correct:
  assumes "play_env_ok env" "play_ok p"
  shows "ensures (playlist_DeletePosition env song p) (\<lambda>(e, p'). play_ok p' \<and>
    (e = None \<longleftrightarrow> song < q_length (p_queue p)) \<and>
    (e = None \<longrightarrow> q_length (p_queue p') = q_length (p_queue p) - 1) \<and> (e \<noteq> None \<longrightarrow> p' = p) \<and>
    (e = None \<and> p_playing p' \<and> \<not> p_bulk_edit p \<longrightarrow> queued_next p') \<and>
    q_consume (p_queue p') = q_consume (p_queue p) \<and>
    (current_id p \<noteq> Some (PositionToId (p_queue p) song) \<longrightarrow> current_id p' = current_id p \<and> p_playing p' = p_playing p) \<and>
    (p_playing p \<and> 0 \<le> GetNextOrder (p_queue p) (nat (p_current p)) \<and>
       GetNextOrder (p_queue p) (nat (p_current p)) \<noteq> p_current p \<longrightarrow> 0 \<le> p_current p'))"
proof (cases "song < q_length (p_queue p)")
  case False
  then show ?thesis using assms(2) by (auto simp: playlist_DeletePosition_def play_ok_def base_ok_def)
next
  case True
  let ?R = "\<lambda>p'. q_length (p_queue p') = q_length (p_queue p) - 1 \<and> q_consume (p_queue p') = q_consume (p_queue p) \<and>
    (current_id p \<noteq> Some (PositionToId (p_queue p) song) \<longrightarrow> current_id p' = current_id p \<and> p_playing p' = p_playing p) \<and>
    (p_playing p \<and> 0 \<le> GetNextOrder (p_queue p) (nat (p_current p)) \<and>
       GetNextOrder (p_queue p) (nat (p_current p)) \<noteq> p_current p \<longrightarrow> 0 \<le> p_current p')"
  have upd: "ensures (UpdateQueuedSong env prev' p1) (\<lambda>p'. play_ok (OnModified p') \<and> ?R (OnModified p') \<and>
      (p_playing p' \<and> \<not> p_bulk_edit p \<longrightarrow> queued_next p'))"
    if "mid prev' p1" "?R p1" "p_bulk_edit p1 = p_bulk_edit p" for prev' p1
  proof (rule ensures_mono [OF UpdateQueuedSong_correct [OF assms(1) that(1)]], elim conjE)
    fix p' assume u: "play_ok p'" "updated p1 p'" "p_playing p1 \<and> \<not> p_bulk_edit p1 \<longrightarrow> queued_next p'"
    have "0 \<le> p_current p' \<longleftrightarrow> 0 \<le> p_current p1"
      using u(2) unfolding updated_def current_id_def by (auto split: if_splits)
    then show "play_ok (OnModified p') \<and> ?R (OnModified p') \<and> (p_playing p' \<and> \<not> p_bulk_edit p \<longrightarrow> queued_next p')"
      using that(2,3) u OnModified_ok [OF u(1)] by (simp add: updated_def same_songs_def)
  qed
  have "ensures (GetQueuedSong p) (\<lambda>prev. ensures (DeleteInternal env song prev p) (\<lambda>(prev', p1).
      ensures (UpdateQueuedSong env prev' p1) (\<lambda>p'. play_ok (OnModified p') \<and> ?R (OnModified p') \<and>
        (p_playing p' \<and> \<not> p_bulk_edit p \<longrightarrow> queued_next p'))))"
    by (rule ensures_mono [OF GetQueuedSong_mid [OF assms(2)]], rule ensures_mono [OF DeleteInternal_correct [OF _ True]])
      (use upd in auto)
  then show ?thesis
    using True by (auto simp: playlist_DeletePosition_def case_prod_unfold elim!: ensures_mono)
qed

lemma playlist_DeletePosition_keeps: "\<lbrakk>play_env_ok env; play_ok p\<rbrakk> \<Longrightarrow> keeps (playlist_DeletePosition env song p)"
  by (rule ensures_mono [OF playlist_DeletePosition_correct]) auto

lemma DeleteOrder_keeps:
  "\<lbrakk>play_env_ok env; play_ok p; 0 \<le> ord; ord < int (q_length (p_queue p))\<rbrakk> \<Longrightarrow> keeps (DeleteOrder env ord p)"
  by (simp add: DeleteOrder_def playlist_DeletePosition_keeps)

lemma DeleteId_keeps: "\<lbrakk>play_env_ok env; play_ok p\<rbrakk> \<Longrightarrow> keeps (DeleteId env sid p)"
  by (simp add: DeleteId_def Let_def playlist_DeletePosition_keeps)

text \<open>Clipping a range to the length of the queue.\<close>

lemma play_ok_length: "play_ok p \<Longrightarrow> q_length (p_queue p) < 2 ^ 31"
  by (simp add: play_ok_def base_ok_def queue_ok_def shape_ok_def)

lemma unat_length: "play_ok p \<Longrightarrow> unat (word_of_nat (q_length (p_queue p)) :: 32 word) = q_length (p_queue p)"
  using play_ok_length [of p] by (simp add: unat_of_nat)

lemma CheckClip_bounds:
  assumes "play_ok p" "RangeArg_CheckClip (word_of_nat (q_length (p_queue p))) rng = Some r"
  shows "unat (range_start r) \<le> q_length (p_queue p)" "unat (range_end r) \<le> q_length (p_queue p)" "range_start r = range_start rng"
  using assms(2) unat_length [OF assms(1)]
  by (auto simp: RangeArg_CheckClip_def word_le_nat_alt word_less_nat_alt split: if_splits)

lemma delete_positions_mid:
  assumes "mid prev p" "s \<le> e" "e \<le> q_length (p_queue p)"
  shows "ensures (delete_positions env (rev [s..<e]) prev p) (\<lambda>(prev', p'). mid prev' p')"
  using assms(2,1,3)
proof (induction e arbitrary: prev p rule: dec_induct)
  case base
  then show ?case by simp
next
  case (step e)
  have "ensures (DeleteInternal env e prev p) (\<lambda>(prev', p'). ensures (delete_positions env (rev [s..<e]) prev' p') (\<lambda>(prev', p'). mid prev' p'))"
    by (rule ensures_mono [OF DeleteInternal_correct]) (use step in auto)
  then show ?case using step.hyps by (simp add: case_prod_unfold)
qed

lemma DeleteRange_keeps:
  assumes "play_env_ok env" "play_ok p"
  shows "keeps (DeleteRange env rng p)"
proof (cases "RangeArg_CheckClip (word_of_nat (q_length (p_queue p))) rng")
  case None
  then show ?thesis using assms(2) by (simp add: DeleteRange_def)
next
  case (Some r)
  show ?thesis
  proof (cases "RangeArg_IsEmpty r")
    case True
    then show ?thesis using Some assms(2) by (simp add: DeleteRange_def)
  next
    case False
    then have "unat (range_start r) \<le> unat (range_end r)" by (simp add: RangeArg_IsEmpty_def word_le_nat_alt)
    note del = delete_positions_mid [OF _ this CheckClip_bounds(2) [OF assms(2) Some], of _ env]
    have "ensures (GetQueuedSong p) (\<lambda>prev.
        ensures (delete_positions env (rev [unat (range_start r)..<unat (range_end r)]) prev p) (\<lambda>(prev', p1).
        ensures (UpdateQueuedSong env prev' p1) (\<lambda>p'. play_ok (OnModified p'))))"
      by (rule ensures_mono [OF GetQueuedSong_mid [OF assms(2)]], rule ensures_mono [OF del])
        (auto intro!: ensures_mono [OF UpdateQueuedSong_correct [OF assms(1)]] OnModified_ok)
    then show ?thesis using Some False by (simp add: DeleteRange_def case_prod_unfold)
  qed
qed

lemma stale_positions_keeps:
  assumes "play_env_ok env" "play_ok p"
  shows "ensures (stale_positions env pos uri (rev [0..<n]) p) play_ok"
  using assms(2)
proof (induction n arbitrary: p)
  case (Suc n)
  then show ?case
    using playlist_DeletePosition_keeps [OF assms(1) Suc.prems, of n] by (auto elim!: ensures_mono)
qed simp

lemma StaleSong_keeps: "\<lbrakk>play_env_ok env; play_ok p\<rbrakk> \<Longrightarrow> ensures (StaleSong env uri p) play_ok"
  by (auto simp: StaleSong_def GetCurrentPosition_def stale_positions_keeps play_ok_def base_ok_def)

section \<open>Next and previous song\<close>

lemma consume_oneshot_fields [simp]:
  "p_playing (consume_oneshot p) = p_playing p" "p_current (consume_oneshot p) = p_current p"
  "p_queued (consume_oneshot p) = p_queued p" "p_commands (consume_oneshot p) = p_commands p"
  by (simp_all add: consume_oneshot_def)

lemma consume_oneshot_ok: "play_ok p \<Longrightarrow> play_ok (consume_oneshot p)"
  by (rule play_ok_view(1)) (simp_all, simp add: consume_oneshot_def same_view_refl play_ok_queue)

lemma reshuffle_songs:
  assumes "play_env_ok env" "queue_ok (p_queue p)" "q_random (p_queue p)"
  shows "same_songs (p_queue p) (p_queue (reshuffle env p))"
  using same_songs_ShuffleOrder(1) [OF assms(2,3)] assms(1) by (simp add: reshuffle_def play_env_ok_def)

lemma PlayNext_keeps:
  assumes "play_env_ok env" "play_ok p0"
  shows "keeps (PlayNext env p0)"
proof (cases "p_playing p0")
  case False
  then show ?thesis using assms(2) by (simp add: PlayNext_def)
next
  case True
  define p where "p = p0\<lparr>p_stop_on_error := False\<rparr>"
  define n where "n = GetNextOrder (p_queue p) (nat (p_current p))"
  have ok: "play_ok p" "p_playing p" "0 \<le> p_current p" "p_current p < int (q_length (p_queue p))" "queue_ok (p_queue p)"
    using assms(2) True by (simp_all add: p_def play_ok_def base_ok_def)
  have r: "- 1 \<le> n" "n < int (q_length (p_queue p))" using GetNextOrder_range [of "nat (p_current p)" "p_queue p"] ok(3,4) by (auto simp: n_def)
  let ?first = "if n < 0 then no_throw (map_option (\<lambda>p1. p1\<lparr>p_current := - 1\<rparr>) (Stop env p))
    else PlayOrder env n (if n = 0 \<and> q_random (p_queue p) then reshuffle env p else p)"
  have "ensures ?first (\<lambda>(e, p1). play_ok p1 \<and> q_length (p_queue p1) = q_length (p_queue p))"
  proof (cases "n < 0")
    case True
    then show ?thesis
      by simp (rule ensures_mono [OF Stop_correct [OF assms(1) ok(1)]], auto simp: play_ok_def base_ok_def same_songs_def)
  next
    case False
    let ?p = "if n = 0 \<and> q_random (p_queue p) then reshuffle env p else p"
    have "base_ok ?p" "q_length (p_queue ?p) = q_length (p_queue p)"
      using reshuffle_songs [OF assms(1) ok(5)] play_ok_base [OF ok(1)] by (auto simp: base_ok_def same_songs_def reshuffle_def)
    then have "ensures (PlayOrder env n ?p) (\<lambda>(e, p1). play_ok p1 \<and> q_length (p_queue p1) = q_length (p_queue p))"
      using False r by (intro ensures_mono [OF PlayOrder_correct]) (auto simp: same_view_def)
    then show ?thesis using False by (simp only: if_False)
  qed
  moreover have "keeps (and_try (if q_consume (p_queue p1) \<noteq> CONSUME_OFF then DeleteOrder env (p_current p) p1 else Some (None, p1))
      (\<lambda>p2. Some (None, consume_oneshot p2)))" if "play_ok p1" "q_length (p_queue p1) = q_length (p_queue p)" for p1
    using DeleteOrder_keeps [OF assms(1) that(1), of "p_current p"] ok(3,4) that
    by (intro and_try_keeps [where P = "\<lambda>_. True"]) (auto simp: consume_oneshot_ok)
  ultimately have "keeps (and_try ?first (\<lambda>p1. and_try
      (if q_consume (p_queue p1) \<noteq> CONSUME_OFF then DeleteOrder env (p_current p) p1 else Some (None, p1))
      (\<lambda>p2. Some (None, consume_oneshot p2))))"
    by (rule and_try_keeps)
  then show ?thesis using True by (simp only: PlayNext_def Let_def p_def [symmetric] n_def [symmetric] not_True_eq_False if_False)
qed

lemma PlayPrevious_keeps: "play_ok p \<Longrightarrow> keeps (PlayPrevious env p)"
  unfolding PlayPrevious_def
  by (auto intro!: PlayOrder_keeps) (auto simp: play_ok_def base_ok_def)

section \<open>Seeking\<close>

lemma SeekSongOrder_keeps:
  assumes "play_env_ok env" "play_ok p0" "i0 < q_length (p_queue p0)"
  shows "keeps (SeekSongOrder env i0 t p0)"
proof -
  define p1 where "p1 = (tell ClearError p0)\<lparr>p_stop_on_error := True, p_error_count := 0\<rparr>"
  have base: "base_ok p1" "i0 < q_length (p_queue p1)" using assms(2,3) by (simp_all add: p1_def play_ok_def base_ok_def enqueues_ok_snoc)
  obtain i p2 where p2: "(if \<not> p_playing p1 \<or> p_current p1 \<noteq> int i0 then
        (case MoveOrderToCurrent i0 p1 of (i, p') \<Rightarrow> (i, p'\<lparr>p_playing := True, p_current := int i\<rparr>)) else (i0, p1)) = (i, p2)"
    "base_ok p2" "i < q_length (p_queue p2)"
  proof (cases "\<not> p_playing p1 \<or> p_current p1 \<noteq> int i0")
    case True
    obtain i' q' where m: "MoveOrderToCurrent i0 p1 = (i', p1\<lparr>p_queue := q'\<rparr>)" "i' < q_length q'" "same_songs (p_queue p1) q'"
      by (rule MoveOrderToCurrent_correct [OF base])
    have "base_ok (p1\<lparr>p_queue := q', p_playing := True, p_current := int i'\<rparr>)" using base(1) m by (simp add: base_ok_def same_songs_def)
    then show ?thesis using True m that by (auto split: if_splits)
  qed (use that base in auto)
  let ?p3 = "tell (Seek (i_song (q_items (p_queue p2) ! OrderToPosition (p_queue p2) i)) t) (p2\<lparr>p_queued := - 1\<rparr>)"
  have "mid None ?p3" using p2(2) by (simp add: mid_def base_ok_def enqueues_ok_snoc)
  then have "ensures (UpdateQueuedSong env None ?p3) play_ok"
    by (intro ensures_mono [OF UpdateQueuedSong_correct [OF assms(1)]]) auto
  then show ?thesis
    using p2(3) unfolding SeekSongOrder_def Let_def p1_def [symmetric] p2(1) prod.case by simp
qed

lemma SeekSongPosition_keeps:
  assumes "play_env_ok env" "play_ok p"
  shows "keeps (SeekSongPosition env song t p)"
proof (cases "song < q_length (p_queue p)")
  case True
  obtain i where "PositionToOrder (p_queue p) song = Some i" "i < q_length (p_queue p)"
    by (rule PositionToOrder_correct [OF play_ok_queue [OF assms(2)] True])
  then show ?thesis using True SeekSongOrder_keeps [OF assms] by (simp add: SeekSongPosition_def)
qed (use assms(2) in \<open>simp add: SeekSongPosition_def\<close>)

lemma SeekSongId_keeps: "\<lbrakk>play_env_ok env; play_ok p\<rbrakk> \<Longrightarrow> keeps (SeekSongId env sid t p)"
  by (simp add: SeekSongId_def Let_def SeekSongPosition_keeps)

lemma play_ok_answers [simp]:
  "play_ok (tell (GetStatus st t) p) = play_ok p" "play_ok (tell (GetErrorType e) p) = play_ok p"
  "play_ok (tell (GetState st) p) = play_ok p" "play_ok (tell (SetBorderPause b) p) = play_ok p"
  by (simp_all add: play_ok_def base_ok_def enqueues_ok_snoc)

lemma SeekCurrent_keeps:
  assumes "play_env_ok env" "play_ok p"
  shows "keeps (SeekCurrent env t relative p)"
proof -
  have "keeps (SeekSongOrder env (nat (p_current p)) t' p')" if "play_ok p'" "p_playing p" "p_queue p' = p_queue p" for p' t'
    using that assms(2) by (intro SeekSongOrder_keeps [OF assms(1)]) (auto simp: play_ok_def base_ok_def)
  then show ?thesis using assms(2) by (auto simp: SeekCurrent_def Let_def split: prod.split)
qed

section \<open>Events of the player\<close>

text \<open>
  The case that the code does not handle: the queued song is the current one, consume mode has been
  switched on since it was queued, and no song follows it.
\<close>

definition consumes_last :: "playlist \<Rightarrow> bool" where
  "consumes_last p \<longleftrightarrow>
     p_playing p \<and> p_queued p = p_current p \<and> q_consume (p_queue p) \<noteq> CONSUME_OFF \<and>
     GetNextOrder (p_queue p) (nat (p_current p)) < 0"

lemma consume_next_differs: "q_consume q \<noteq> CONSUME_OFF \<Longrightarrow> GetNextOrder q i \<noteq> int i"
  by (auto simp: GetNextOrder_def)

lemma QueuedSongStarted_keeps:
  assumes "play_env_ok env" "play_ok p" "p_playing p" "0 \<le> p_queued p" "pending (p_commands p) = None" "\<not> consumes_last p"
  shows "ensures (QueuedSongStarted env p) (\<lambda>p'. play_ok p')"
proof -
  let ?p1 = "p\<lparr>p_current := p_queued p, p_queued := - 1\<rparr>"
  have r: "queue_ok (p_queue p)" "0 \<le> p_current p" "p_current p < int (q_length (p_queue p))" "p_queued p < int (q_length (p_queue p))"
    using assms(2-4) by (simp_all add: play_ok_def base_ok_def)
  have ok1: "play_ok ?p1" using assms(2-5) r by (simp add: play_ok_def base_ok_def)
  have "ensures (if q_consume (p_queue ?p1) \<noteq> CONSUME_OFF then catch_all (DeleteOrder env (p_current p) ?p1) else Some ?p1)
    (\<lambda>p2. play_ok p2 \<and> 0 \<le> p_current p2)"
  proof (cases "q_consume (p_queue p) = CONSUME_OFF")
    case True
    then show ?thesis using ok1 assms(4) by simp
  next
    case False
    let ?pos = "OrderToPosition (p_queue p) (nat (p_current p))"
    have n: "0 \<le> GetNextOrder (p_queue p) (nat (p_queued p)) \<and> GetNextOrder (p_queue p) (nat (p_queued p)) \<noteq> p_queued p"
      if "p_queued p = p_current p"
      using assms(3,4,6) False that consume_next_differs [OF False, of "nat (p_queued p)"] by (simp add: consumes_last_def)
    have c: "current_id ?p1 \<noteq> Some (PositionToId (p_queue p) ?pos)" if "p_queued p \<noteq> p_current p"
    proof -
      have "nat (p_queued p) \<noteq> nat (p_current p)" using that assms(4) r(2) by simp
      then have "order_ids (p_queue p) ! nat (p_queued p) \<noteq> order_ids (p_queue p) ! nat (p_current p)"
        using nth_eq_iff_index_eq [OF distinct_order_ids [OF r(1)], of "nat (p_queued p)" "nat (p_current p)"] r assms(4) by simp
      then show ?thesis using order_ids_nth [OF r(1), of "nat (p_current p)"] r assms(4) by (simp add: current_id_def)
    qed
    have "ensures (playlist_DeletePosition env ?pos ?p1) (\<lambda>(e, p2). play_ok p2 \<and> 0 \<le> p_current p2)"
    proof (rule ensures_mono [OF playlist_DeletePosition_correct [OF assms(1) ok1]], goal_cases)
      case (1 x)
      obtain e p2 where x: "x = (e, p2)" by (cases x)
      note * = 1(2) [unfolded x prod.case]
      have "play_ok p2 \<and> 0 \<le> p_current p2"
      proof (cases "p_queued p = p_current p")
        case True
        then show ?thesis using * n assms(3) by simp
      next
        case False
        then have "current_id p2 = current_id ?p1" using * c by simp
        then show ?thesis using * assms(4) by (simp add: current_id_def split: if_splits)
      qed
      then show ?case by (simp add: x)
    qed
    then show ?thesis using False r by (simp add: DeleteOrder_def)
  qed
  then show ?thesis
    unfolding QueuedSongStarted_def Let_def ensures_bind
    by (rule ensures_mono) (auto intro!: ensures_mono [OF SongStarted_correct] simp: consume_oneshot_ok)
qed

lemma ResumePlayback_keeps:
  assumes "play_env_ok env" "play_ok p"
  shows "ensures (ResumePlayback env p) play_ok"
proof -
  define p1 where "p1 = (tell (GetErrorType (pe_error env (p_commands p))) p)\<lparr>p_error_count :=
    if pe_error env (p_commands p) = ERROR_NONE then 0 else p_error_count p + 1\<rparr>"
  have "play_ok p1" using assms(2) by (simp add: p1_def play_ok_def base_ok_def enqueues_ok_snoc)
  then have "ensures (Stop env p1) play_ok" "ensures (catch_all (PlayNext env p1)) play_ok"
    using PlayNext_keeps [OF assms(1)] Stop_keeps [OF assms(1)] by simp_all
  then show ?thesis by (simp add: ResumePlayback_def Let_def p1_def)
qed

lemma play_ok_sync:
  assumes "play_ok p"
  shows "play_ok (tell (SyncInfo st has_next) p)"
  using assms by (auto simp: play_ok_def base_ok_def enqueues_ok_snoc split: if_splits)

lemma SyncWithPlayer_keeps:
  assumes "play_env_ok env" "play_ok p" "\<not> consumes_last p"
  shows "ensures (SyncWithPlayer env p) play_ok"
proof (cases "p_playing p")
  case False
  then show ?thesis using assms(2) by (simp add: SyncWithPlayer_def)
next
  case True
  obtain st has_next where s: "pe_sync env (p_commands p) = (st, has_next)" by (cases "pe_sync env (p_commands p)")
  let ?p1 = "tell (SyncInfo st has_next) p"
  have ok1: "play_ok ?p1" "\<not> consumes_last ?p1" using assms(2,3) by (simp_all add: play_ok_sync consumes_last_def)
  have first: "ensures (if \<not> has_next \<and> p_queued ?p1 \<noteq> - 1 then QueuedSongStarted env ?p1 else Some ?p1) play_ok"
  proof (cases "\<not> has_next \<and> p_queued ?p1 \<noteq> - 1")
    case started: True
    then have "0 \<le> p_queued ?p1" using assms(2) by (simp add: play_ok_def base_ok_def)
    then show ?thesis
      using started QueuedSongStarted_keeps [OF assms(1) ok1(1) _ _ _ ok1(2)] True by simp
  qed (use ok1 in auto)
  have second: "ensures (case pe_sync env (p_commands p2) of (st', has_next') \<Rightarrow>
      let p3 = tell (SyncInfo st' has_next') p2 in
      if \<not> has_next' \<and> p_queued p3 < 0 then UpdateQueuedSong env None p3 else Some p3) play_ok" if "play_ok p2" for p2
  proof -
    obtain st' has_next' where s': "pe_sync env (p_commands p2) = (st', has_next')" by (cases "pe_sync env (p_commands p2)")
    let ?p3 = "tell (SyncInfo st' has_next') p2"
    have "ensures (UpdateQueuedSong env None ?p3) play_ok" if "\<not> has_next'" "p_queued p2 < 0"
    proof -
      have "mid None ?p3" using play_ok_sync [OF \<open>play_ok p2\<close>, of st' has_next'] that by (auto simp: mid_def play_ok_def base_ok_def)
      then show ?thesis by (intro ensures_mono [OF UpdateQueuedSong_correct [OF assms(1)]]) auto
    qed
    then show ?thesis using play_ok_sync [OF that] by (simp add: s' Let_def)
  qed
  show ?thesis
  proof (cases "st = STOP")
    case stop: True
    then show ?thesis using True ResumePlayback_keeps [OF assms(1) ok1(1)] by (simp add: SyncWithPlayer_def s)
  next
    case False
    show ?thesis
      using True False ensures_mono [OF first second] unfolding SyncWithPlayer_def s prod.case by (simp only: Let_def ensures_bind if_False not_True_eq_False)
  qed
qed

lemma BorderPause_ok: "play_ok p \<Longrightarrow> play_ok (BorderPause p)"
  by (cases "q_single (p_queue p) = SINGLE_ONE_SHOT")
    (simp_all add: BorderPause_def, rule play_ok_view(1), simp_all add: play_ok_queue)

section \<open>Options\<close>

lemma requeue_correct:
  assumes "play_env_ok env" "play_ok p"
  shows "ensures (requeue env p) (\<lambda>p'. play_ok p' \<and> updated p p' \<and> (p_playing p \<and> \<not> p_bulk_edit p \<longrightarrow> queued_next p'))"
  unfolding requeue_def ensures_bind
  by (rule ensures_mono [OF GetQueuedSong_mid [OF assms(2)]], rule UpdateQueuedSong_correct [OF assms(1)])

text \<open>Changing an option keeps the song that is being played and brings the queued song up to date.\<close>

definition option_changed :: "playlist \<Rightarrow> playlist \<Rightarrow> bool" where
  "option_changed p p' \<longleftrightarrow> play_ok p' \<and> p_playing p' = p_playing p \<and>
     (p_playing p \<longrightarrow> current_id p' = current_id p \<and> (\<not> p_bulk_edit p \<longrightarrow> queued_next p'))"

lemma mode_change:
  assumes "play_env_ok env" "play_ok p" "same_view (p_queue p) q'"
  shows "ensures (requeue env (border_pause (p\<lparr>p_queue := q'\<rparr>))) (\<lambda>p'. option_changed p (notify QueueOptionsChanged p'))"
proof -
  let ?p = "border_pause (p\<lparr>p_queue := q'\<rparr>)"
  have "play_ok (p\<lparr>p_queue := q'\<rparr>)" "current_id (p\<lparr>p_queue := q'\<rparr>) = current_id p"
    by (rule play_ok_view [OF assms(2)]; use assms(3) in simp)+
  then have p: "play_ok ?p" "current_id ?p = current_id p" "p_playing ?p = p_playing p" "p_bulk_edit ?p = p_bulk_edit p"
    by (simp_all add: border_pause_def)
  show ?thesis
    by (rule ensures_mono [OF requeue_correct [OF assms(1) p(1)]]) (use p in \<open>simp add: option_changed_def updated_def\<close>)
qed

lemma SetRepeat_correct:
  assumes "play_env_ok env" "play_ok p" "status \<noteq> q_repeat (p_queue p)"
  shows "ensures (SetRepeat env status p) (option_changed p)"
  using mode_change [OF assms(1,2), of "(p_queue p)\<lparr>q_repeat := status\<rparr>"] assms(3) play_ok_queue [OF assms(2)]
  by (simp add: SetRepeat_def)

lemma SetSingle_correct:
  assumes "play_env_ok env" "play_ok p" "status \<noteq> q_single (p_queue p)"
  shows "ensures (SetSingle env status p) (option_changed p)"
  using mode_change [OF assms(1,2), of "(p_queue p)\<lparr>q_single := status\<rparr>"] assms(3) play_ok_queue [OF assms(2)]
  by (simp add: SetSingle_def)

lemma SetConsume_ok: "play_ok p \<Longrightarrow> play_ok (SetConsume status p)"
  by (cases "status = q_consume (p_queue p)")
    (simp_all add: SetConsume_def, rule play_ok_view(1), simp_all add: play_ok_queue)

end
