(* ===== verification/Play_Edits.thy ===== *)
theory Play_Edits
  imports Play_Steps
begin

text \<open>
  The edits of the queue while songs are being played: random mode, bulk edits, appending, swapping,
  priorities, moving, shuffling, time ranges and tags.
\<close>

section \<open>Random mode\<close>

lemma random_on_songs:
  assumes "queue_ok q"
  shows "same_songs q (q\<lparr>q_random := True\<rparr>)" "position_ids (q\<lparr>q_random := True\<rparr>) = position_ids q"
    "order_ids (q\<lparr>q_random := True\<rparr>) = order_ids q"
proof -
  have "queue_ok (q\<lparr>q_random := True\<rparr>)"
    using assms by (simp add: queue_ok_def shape_ok_def linked_ids_def order_ok_def PositionToId_def)
  then show "same_songs q (q\<lparr>q_random := True\<rparr>)" "position_ids (q\<lparr>q_random := True\<rparr>) = position_ids q"
    by (intro same_songs_order; simp)+
qed (simp add: order_ids_def PositionToId_def)

lemma SetRandom_on_correct:
  assumes "play_env_ok env" "mid prev p" "q_random (p_queue p)"
  shows "ensures (SetRandom_on env p) (\<lambda>p'. mid prev p' \<and> p_playing p' = p_playing p \<and> p_bulk_edit p' = p_bulk_edit p \<and>
    (p_playing p \<longrightarrow> current_id p' = current_id p))"
proof -
  let ?q = "p_queue p" and ?p1 = "reshuffle env p"
  have q: "queue_ok ?q" using assms(2) by (simp add: mid_def base_ok_def)
  have sh: "shuffler_ok (rnd_shuffle env (p_draws p))" using assms(1) by (simp add: play_env_ok_def)
  note songs = same_songs_ShuffleOrder [OF q assms(3) sh]
  have q1: "p_queue ?p1 = ShuffleOrder (rnd_shuffle env (p_draws p)) ?q" by (simp add: reshuffle_def)
  have f1: "p_commands ?p1 = p_commands p" "p_queued ?p1 = p_queued p" "p_playing ?p1 = p_playing p" "p_bulk_edit ?p1 = p_bulk_edit p"
    by (simp_all add: reshuffle_def)
  have ok1: "queue_ok (p_queue ?p1)" "q_length (p_queue ?p1) = q_length ?q" "q_random (p_queue ?p1)"
    using songs assms(3) by (simp_all add: q1 same_songs_def)
  show ?thesis
  proof (cases "p_playing p")
    case False
    have "mid prev (?p1\<lparr>p_current := - 1\<rparr>)" by (rule mid_cong [OF assms(2)]) (use songs(1) False in \<open>simp_all add: q1 f1\<close>)
    then show ?thesis using False by (simp add: SetRandom_on_def Let_def f1)
  next
    case True
    then have cur: "0 \<le> p_current p" "p_current p < int (q_length ?q)" "nat (p_current p) < q_length ?q"
      using assms(2) by (auto simp: mid_def base_ok_def)
    let ?pos = "OrderToPosition ?q (nat (p_current p))"
    have "?pos < q_length (p_queue ?p1)" using order_position_bound [OF q cur(3)] ok1(2) by simp
    then obtain j where j: "PositionToOrder (p_queue ?p1) ?pos = Some j" "j < q_length (p_queue ?p1)" "OrderToPosition (p_queue ?p1) j = ?pos"
      by (rule PositionToOrder_correct [OF ok1(1)])
    have zero: "0 < q_length (p_queue ?p1)" using j(2) by simp
    note move = order_after_move [OF ok1(1,3) j(2) zero]
    let ?q2 = "MoveOrder j 0 (p_queue ?p1)"
    let ?p2 = "?p1\<lparr>p_queue := ?q2, p_current := 0\<rparr>"
    have s2: "same_songs ?q ?q2" "position_ids ?q2 = position_ids ?q"
      using same_songs_trans [OF songs(1)] move(1,2) songs(2) by (simp_all add: q1)
    then have ok2: "queue_ok ?q2" "0 < q_length ?q2" using zero ok1(2) by (simp_all add: same_songs_def)
    have "mid prev ?p2" by (rule mid_cong [OF assms(2)]) (use s2(1) ok2 in \<open>simp_all add: f1\<close>)
    moreover have "order_ids ?q2 ! 0 = order_ids ?q ! nat (p_current p)"
      by (rule same_position_ids [OF q ok2(1) s2(2) cur(3) ok2(2)]) (use move(4) j(3) in simp)
    moreover have "SetRandom_on env p = Some ?p2"
      using True cur j(1) by (simp add: SetRandom_on_def GetCurrentPosition_def Let_def)
    ultimately show ?thesis using cur f1 by (simp add: current_id_def)
  qed
qed

lemma playlist_order_correct:
  assumes "mid prev p" "p' = p\<lparr>p_queue := (p_queue p)\<lparr>q_random := False\<rparr>\<rparr>"
  shows "ensures (playlist_order p') (\<lambda>p''. mid prev p'' \<and> p_playing p'' = p_playing p \<and> p_bulk_edit p'' = p_bulk_edit p \<and>
    current_id p'' = current_id p)"
proof -
  let ?q = "p_queue p" and ?q' = "RestoreOrder ((p_queue p)\<lparr>q_random := False\<rparr>)"
  have q: "queue_ok ?q" and r: "- 1 \<le> p_current p" "p_current p < int (q_length ?q)" "p_playing p \<longrightarrow> 0 \<le> p_current p"
    using assms(1) by (simp_all add: mid_def base_ok_def)
  have q': "queue_ok ?q'" by (rule queue_ok_RestoreOrder [OF q])
  have fields: "q_items ?q' = q_items ?q" "q_length ?q' = q_length ?q" "q_max_length ?q' = q_max_length ?q" "\<not> q_random ?q'"
    by (simp_all add: RestoreOrder_def)
  note songs = same_songs_order [OF q' fields(1-3)]
  have "active_order ?q' = [0..<q_length ?q']" using queue_okD(3) [OF q'] fields(4) unfolding order_ok_def by blast
  then have order: "OrderToPosition ?q' i = i" if "i < q_length ?q" for i
    using that fields(2) unfolding OrderToPosition_def by (metis nth_take nth_upt plus_nat.add_0)
  show ?thesis
  proof (cases "0 \<le> p_current p")
    case False
    have "mid prev (p'\<lparr>p_queue := ?q'\<rparr>)"
      by (rule mid_cong [OF assms(1)]) (use songs(1) fields r False in \<open>auto simp: assms(2)\<close>)
    then show ?thesis using False by (simp add: playlist_order_def assms(2) current_id_def)
  next
    case True
    let ?pos = "OrderToPosition ?q (nat (p_current p))"
    have i: "nat (p_current p) < q_length ?q" using True r(2) by simp
    note pos = order_position_bound [OF q i]
    let ?p' = "p'\<lparr>p_current := int ?pos, p_queue := ?q'\<rparr>"
    have "mid prev ?p'" by (rule mid_cong [OF assms(1)]) (use songs(1) fields pos in \<open>auto simp: assms(2)\<close>)
    moreover have "order_ids ?q' ! ?pos = order_ids ?q ! nat (p_current p)"
      by (rule same_position_ids [OF q q' songs(2) i]) (use pos fields order [OF pos] in simp_all)
    moreover have "playlist_order p' = Some ?p'" using True r(2) by (simp add: playlist_order_def assms(2) OrderToPosition_def)
    ultimately show ?thesis using True by (simp add: assms(2) current_id_def)
  qed
qed

lemma SetRandom_correct:
  assumes "play_env_ok env" "play_ok p" "status \<noteq> q_random (p_queue p)"
  shows "ensures (SetRandom env status p) (option_changed p)"
proof -
  let ?p1 = "p\<lparr>p_queue := (p_queue p)\<lparr>q_random := status\<rparr>\<rparr>"
  have q: "queue_ok (p_queue p)" by (rule play_ok_queue [OF assms(2)])
  have step: "ensures (if status then SetRandom_on env ?p1 else playlist_order ?p1) (\<lambda>p'. mid prev p' \<and>
    p_playing p' = p_playing p \<and> p_bulk_edit p' = p_bulk_edit p \<and> (p_playing p \<longrightarrow> current_id p' = current_id p))" if "mid prev p" for prev
  proof (cases status)
    case True
    have m: "mid prev ?p1" by (rule mid_cong [OF that]) (use random_on_songs [OF q] that True in \<open>auto simp: mid_def base_ok_def\<close>)
    have "current_id ?p1 = current_id p" using random_on_songs(3) [OF q] True by (simp add: current_id_def)
    then show ?thesis using True SetRandom_on_correct [OF assms(1) m] by simp
  next
    case False
    then have "ensures (playlist_order ?p1) (\<lambda>p''. mid prev p'' \<and> p_playing p'' = p_playing p \<and> p_bulk_edit p'' = p_bulk_edit p \<and>
      current_id p'' = current_id p)"
      by (intro playlist_order_correct [OF that]) simp_all
    then have "ensures (playlist_order ?p1) (\<lambda>p'. mid prev p' \<and>
      p_playing p' = p_playing p \<and> p_bulk_edit p' = p_bulk_edit p \<and> (p_playing p \<longrightarrow> current_id p' = current_id p))"
      by (rule ensures_mono) simp
    then show ?thesis using False by simp
  qed
  have "ensures (GetQueuedSong p) (\<lambda>prev. ensures (if status then SetRandom_on env ?p1 else playlist_order ?p1) (\<lambda>p2.
      ensures (UpdateQueuedSong env prev p2) (\<lambda>p3. option_changed p (notify QueueOptionsChanged p3))))"
    by (rule ensures_mono [OF GetQueuedSong_mid [OF assms(2)]], rule ensures_mono [OF step], assumption,
        elim conjE, rule ensures_mono [OF UpdateQueuedSong_correct [OF assms(1)]], assumption)
      (auto simp: option_changed_def updated_def)
  then show ?thesis using assms(3) by (simp only: SetRandom_def if_False Let_def ensures_bind ensures_Some)
qed

section \<open>Clearing and bulk edits\<close>

lemma playlist_Clear_keeps:
  assumes "play_env_ok env" "play_ok p"
  shows "ensures (playlist_Clear env p) (\<lambda>p'. play_ok p' \<and> q_length (p_queue p') = 0 \<and> \<not> p_playing p')"
proof -
  have "play_ok p2 \<and> q_length (p_queue p2) = 0 \<and> \<not> p_playing p2"
    if "play_ok p1" "\<not> p_playing p1" "p2 = OnModified (p1\<lparr>p_queue := Queue_Clear (p_queue p1), p_current := - 1\<rparr>)" for p1 p2
  proof -
    have "queue_ok (Queue_Clear (p_queue p1))" by (rule queue_ok_Clear(1) [OF play_ok_queue [OF that(1)]])
    then have "play_ok (p1\<lparr>p_queue := Queue_Clear (p_queue p1), p_current := - 1\<rparr>)"
      using that(1,2) by (simp add: play_ok_def base_ok_def Queue_Clear_def)
    then show ?thesis unfolding that(3) using that(2) OnModified_ok by (simp add: Queue_Clear_def)
  qed
  then show ?thesis
    unfolding playlist_Clear_def ensures_map by (intro ensures_mono [OF Stop_correct [OF assms]]) blast
qed

lemma BeginBulk_ok: "play_ok p \<Longrightarrow> play_ok (BeginBulk p)"
  by (simp add: BeginBulk_def play_ok_def base_ok_def)

lemma CommitBulk_keeps:
  assumes "play_env_ok env" "play_ok p"
  shows "ensures (CommitBulk env p) play_ok"
proof -
  let ?p = "p\<lparr>p_bulk_edit := False\<rparr>"
  have ok: "play_ok ?p" using assms(2) by (simp add: play_ok_def base_ok_def)
  have "ensures (UpdateQueuedSong env None ?p) play_ok" if "p_queued p < 0"
  proof -
    have "mid None ?p" using assms(2) that by (auto simp: mid_def play_ok_def base_ok_def)
    then show ?thesis by (intro ensures_mono [OF UpdateQueuedSong_correct [OF assms(1)]]) auto
  qed
  then show ?thesis using ok by (auto simp: CommitBulk_def Let_def OnModified_ok elim!: ensures_mono)
qed

section \<open>Appending\<close>

lemma Queue_Append_songs:
  assumes "queue_ok q" "\<not> Queue_IsFull q"
  obtains n q' where "Queue_Append song priority q = Some (n, q')" "queue_ok q'" "q_length q' = q_length q + 1"
    "q_max_length q' = q_max_length q" "id_uris q' = insert (n, ds_uri song) (id_uris q)" "n \<notin> fst ` id_uris q"
proof -
  obtain n q' where app: "Queue_Append song priority q = Some (n, q')" and free: "free_id (q_id_table q) n"
    and q': "q' = q\<lparr>q_length := q_length q + 1,
       q_id_table := (table_after (q_id_table q) n)\<lparr>it_data := (it_data (q_id_table q))[n := int (q_length q)]\<rparr>,
       q_items := (q_items q)[q_length q :=
         \<lparr>i_song = song, i_id = n, i_version = q_version q, i_priority = priority\<rparr>],
       q_order := (q_order q)[q_length q := q_length q]\<rparr>"
    by (rule Queue_Append_cases [OF assms])
  have ok': "queue_ok q'" by (rule queue_ok_Append [OF assms app])
  have len: "q_length q < length (q_items q)" using assms by (simp add: queue_ok_def shape_ok_def Queue_IsFull_def)
  have "contents q' = contents q @ [(song, n, priority)]"
    using len by (simp add: q' contents_def take_Suc_conv_app_nth item_key_def)
  then have uris: "id_uris q' = insert (n, ds_uri song) (id_uris q)" by (simp add: id_uris_def)
  have "PositionToId q pos \<noteq> n" if "pos < q_length q" for pos
    using free linked_idsD [OF queue_okD(2) [OF assms(1)] that] by (auto simp: free_id_def)
  then have "n \<notin> fst ` id_uris q" by (force simp: id_uris_position [OF queue_okD(1) [OF assms(1)]])
  moreover have "q_length q' = q_length q + 1" "q_max_length q' = q_max_length q" by (simp_all add: q')
  ultimately show thesis using that app ok' uris by blast
qed

lemma GetQueuedSong_id:
  assumes "play_ok p" "GetQueuedSong p = Some (Some sid)"
  shows "sid \<in> fst ` id_uris (p_queue p)"
proof -
  let ?q = "p_queue p" and ?i = "nat (p_queued p)"
  have "0 \<le> p_queued p" "p_playing p" using assms(2) by (auto simp: GetQueuedSong_def split: if_splits)
  moreover from this have i: "?i < q_length ?q" "p_queued p < int (q_length ?q)" using assms(1) by (auto simp: play_ok_def)
  ultimately have "sid = PositionToId ?q (OrderToPosition ?q ?i)"
    using assms(2) by (simp add: GetQueuedSong_def PositionToId_def)
  moreover have "OrderToPosition ?q ?i < q_length ?q" by (rule order_position_bound [OF play_ok_queue [OF assms(1)] i(1)])
  ultimately show ?thesis
    using id_uris_position [OF queue_okD(1) [OF play_ok_queue [OF assms(1)]]] by force
qed

lemma AppendSong_shuffle_mid:
  assumes "play_env_ok env" "mid prev p"
  shows "mid prev (AppendSong_shuffle env p)"
proof (cases "AppendSong_shuffle env p = p")
  case False
  define s where "s = nat (if 0 \<le> p_queued p then p_queued p + 1 else p_current p + 1)"
  let ?q = "p_queue p" and ?q' = "ShuffleOrderLastWithPriority (rnd_pick env (p_draws p)) s (q_length (p_queue p)) (p_queue p)"
  have c: "q_random ?q" "s < q_length ?q" and def: "AppendSong_shuffle env p = p\<lparr>p_queue := ?q', p_draws := p_draws p + 1\<rparr>"
    using False by (auto simp: AppendSong_shuffle_def Let_def s_def split: if_splits)
  have base: "queue_ok ?q" "- 1 \<le> p_current p" "p_current p < int (q_length ?q)" "p_playing p \<longrightarrow> 0 \<le> p_current p"
    using assms(2) by (simp_all add: mid_def base_ok_def)
  have "queue_ok ?q'"
    by (rule ShuffleOrderLastWithPriority_ok [OF base(1) c(1)]) (use assms(1) c in \<open>simp_all add: play_env_ok_def\<close>)
  then have "same_songs ?q ?q'"
    by (rule same_songs_order) (simp_all add: ShuffleOrderLastWithPriority_def Let_def SwapOrders_def)
  then show ?thesis unfolding def by (intro mid_cong [OF assms(2)]) (use base in \<open>simp_all add: same_songs_def\<close>)
qed (use assms(2) in simp)

lemma AppendSong_keeps:
  assumes "play_env_ok env" "play_ok p"
  shows "ensures (AppendSong env song p) (\<lambda>(r, p'). play_ok p' \<and>
    (Queue_IsFull (p_queue p) \<longrightarrow> r = Inl TooLarge \<and> p' = p) \<and>
    (\<not> Queue_IsFull (p_queue p) \<longrightarrow> (\<exists>n. r = Inr n \<and> n \<notin> fst ` id_uris (p_queue p) \<and>
       id_uris (p_queue p') = insert (n, ds_uri song) (id_uris (p_queue p)))))"
proof (cases "Queue_IsFull (p_queue p)")
  case True
  then show ?thesis using assms(2) by (simp add: AppendSong_def)
next
  case False
  obtain n q' where q': "Queue_Append song 0 (p_queue p) = Some (n, q')" "queue_ok q'" "q_length q' = q_length (p_queue p) + 1"
    "q_max_length q' = q_max_length (p_queue p)" "id_uris q' = insert (n, ds_uri song) (id_uris (p_queue p))" "n \<notin> fst ` id_uris (p_queue p)"
    by (rule Queue_Append_songs [OF play_ok_queue [OF assms(2)] False])
  let ?p1 = "AppendSong_shuffle env (p\<lparr>p_queue := q'\<rparr>)"
  have uris: "id_uris (p_queue ?p1) = id_uris q'" if "mid prev (p\<lparr>p_queue := q'\<rparr>)" for prev
    by (simp add: AppendSong_shuffle_def Let_def ShuffleOrderLastWithPriority_def SwapOrders_def id_uris_def)
  have "ensures (GetQueuedSong p) (\<lambda>prev. ensures (UpdateQueuedSong env prev ?p1)
      (\<lambda>p'. play_ok (OnModified p') \<and> id_uris (p_queue (OnModified p')) = insert (n, ds_uri song) (id_uris (p_queue p))))"
  proof (rule ensures_mono [OF GetQueuedSong_mid [OF assms(2)]])
    fix prev assume prev: "GetQueuedSong p = Some prev" "mid prev p"
    have "\<And>sid. prev = Some sid \<Longrightarrow> sid \<noteq> n" using GetQueuedSong_id [OF assms(2)] prev(1) q'(6) by auto
    then have m: "mid prev (p\<lparr>p_queue := q'\<rparr>)" using prev(2) q' by (auto simp: mid_def base_ok_def split: option.splits)
    show "ensures (UpdateQueuedSong env prev ?p1)
      (\<lambda>p'. play_ok (OnModified p') \<and> id_uris (p_queue (OnModified p')) = insert (n, ds_uri song) (id_uris (p_queue p)))"
    proof (rule ensures_mono [OF UpdateQueuedSong_correct [OF assms(1) AppendSong_shuffle_mid [OF assms(1) m]]], elim conjE)
      fix p' assume p': "play_ok p'" "updated ?p1 p'"
      have "same_songs (p_queue p') (p_queue (OnModified p'))"
        by (rule same_view_songs(1) [OF play_ok_queue OnModified_view [OF play_ok_queue]]) (rule p'(1))+
      then show "play_ok (OnModified p') \<and> id_uris (p_queue (OnModified p')) = insert (n, ds_uri song) (id_uris (p_queue p))"
        using p' OnModified_ok(1) uris [OF m] q'(5) by (simp add: updated_def same_songs_def)
    qed
  qed
  then show ?thesis using False q'(1,6) by (auto simp: AppendSong_def elim!: ensures_mono)
qed

section \<open>Swapping and priorities\<close>

text \<open>An edit that ends with \<open>finish_edit\<close>, after a step that keeps what the player knows of.\<close>

definition edited :: "playlist \<Rightarrow> play_error option \<times> playlist \<Rightarrow> bool" where
  "edited p r \<longleftrightarrow> (case r of (e, p') \<Rightarrow> e = None \<and> play_ok p' \<and> p_playing p' = p_playing p \<and>
     (p_playing p \<longrightarrow> current_id p' = current_id p \<and> (\<not> p_bulk_edit p \<longrightarrow> queued_next p')))"

lemma finish_edited:
  assumes "play_env_ok env" "mid prev p'" "p_playing p' = p_playing p" "p_bulk_edit p' = p_bulk_edit p"
    and "p_playing p \<Longrightarrow> current_id p' = current_id p"
  shows "ensures (finish_edit env prev p') (edited p)"
  by (rule ensures_mono [OF finish_edit_correct [OF assms(1,2)]]) (use assms(3-5) in \<open>auto simp: edited_def\<close>)

lemma SwapPositions_songs:
  assumes "queue_ok q" "i < q_length q" "j < q_length q"
  shows "same_songs q (SwapPositions i j q)"
proof (rule same_songs_contents)
  show "queue_ok (SwapPositions i j q)" by (rule SwapPositions_correct(1) [OF assms])
  have "mset (contents (SwapPositions i j q)) = mset (contents q)"
    unfolding SwapPositions_correct(2) [OF assms] using assms length_contents [OF queue_okD(1) [OF assms(1)]] by (intro mset_swap) simp_all
  then show "set (contents (SwapPositions i j q)) = set (contents q)" by (metis set_mset_mset)
qed (simp_all add: SwapPositions_def Let_def)

lemma SwapPositions_ids:
  assumes "queue_ok q" "i < q_length q" "j < q_length q" "pos < q_length q"
  shows "PositionToId (SwapPositions i j q) pos = PositionToId q (if pos = i then j else if pos = j then i else pos)"
proof -
  have len: "q_length q \<le> length (q_items q)" using assms(1) by (simp add: queue_ok_def shape_ok_def)
  then show ?thesis
    using assms(2-4) by (auto simp: PositionToId_def SwapPositions_def Let_def nth_list_update)
qed

text \<open>Order numbers after two entries of the order array were exchanged.\<close>

lemma SwapOrders_order:
  "\<lbrakk>queue_ok q; i < q_length q; j < q_length q; k < q_length q\<rbrakk> \<Longrightarrow>
   OrderToPosition (SwapOrders i j q) k = OrderToPosition q (if k = i then j else if k = j then i else k)"
  using order_length [of q] by (auto simp: OrderToPosition_def SwapOrders_def nth_list_update)

lemma identity_order: "\<lbrakk>queue_ok q; \<not> q_random q; i < q_length q\<rbrakk> \<Longrightarrow> OrderToPosition q i = i"
  unfolding OrderToPosition_def queue_ok_def order_ok_def by (metis add_0 nth_take nth_upt)

lemma swap_current_correct:
  assumes "mid prev p" "song1 < q_length (p_queue p)" "song2 < q_length (p_queue p)"
  shows "ensures (swap_current song1 song2 (p\<lparr>p_queue := SwapPositions song1 song2 (p_queue p)\<rparr>)) (\<lambda>p'. mid prev p' \<and>
    p_playing p' = p_playing p \<and> p_bulk_edit p' = p_bulk_edit p \<and> current_id p' = current_id p)"
proof -
  let ?q = "p_queue p" and ?q1 = "SwapPositions song1 song2 (p_queue p)"
  have base: "queue_ok ?q" "- 1 \<le> p_current p" "p_current p < int (q_length ?q)" "p_playing p \<longrightarrow> 0 \<le> p_current p"
    using assms(1) by (simp_all add: mid_def base_ok_def)
  note songs = SwapPositions_songs [OF base(1) assms(2,3)] and ids = SwapPositions_ids [OF base(1) assms(2,3)]
  have q1: "queue_ok ?q1" "q_length ?q1 = q_length ?q" "q_order ?q1 = q_order ?q" "q_random ?q1 = q_random ?q"
    using songs by (simp_all add: same_songs_def SwapPositions_def Let_def)
  show ?thesis
  proof (cases "q_random ?q")
    case True
    obtain o1 where o1: "PositionToOrder ?q1 song1 = Some o1" "o1 < q_length ?q" "OrderToPosition ?q1 o1 = song1"
      by (rule PositionToOrder_correct [OF q1(1), of song1]) (use assms(2) q1(2) in auto)
    obtain o2 where o2: "PositionToOrder ?q1 song2 = Some o2" "o2 < q_length ?q" "OrderToPosition ?q1 o2 = song2"
      by (rule PositionToOrder_correct [OF q1(1), of song2]) (use assms(3) q1(2) in auto)
    let ?q2 = "SwapOrders o1 o2 ?q1"
    have ok2: "queue_ok ?q2" by (rule queue_ok_SwapOrders [OF q1(1)]) (use True q1 o1 o2 in simp_all)
    have "same_songs ?q1 ?q2" by (rule same_songs_order [OF ok2]) (simp_all add: SwapOrders_def)
    then have s2: "same_songs ?q ?q2" by (rule same_songs_trans [OF songs])
    have "order_ids ?q2 ! k = order_ids ?q ! k" if "k < q_length ?q" for k
    proof -
      have k2: "OrderToPosition ?q2 k = OrderToPosition ?q (if k = o1 then o2 else if k = o2 then o1 else k)"
        using SwapOrders_order [OF q1(1), of o1 o2 k] o1(2) o2(2) that q1 by (simp add: OrderToPosition_def)
      have pos: "OrderToPosition ?q o1 = song1" "OrderToPosition ?q o2 = song2"
        using o1(3) o2(3) q1(3) by (simp_all add: OrderToPosition_def)
      have other: "OrderToPosition ?q k \<noteq> song1" "OrderToPosition ?q k \<noteq> song2" if "k \<noteq> o1" "k \<noteq> o2"
        using order_unique [OF base(1) \<open>k < q_length ?q\<close>] o1(2) o2(2) pos that by metis+
      have b: "OrderToPosition ?q k < q_length ?q" by (rule order_position_bound [OF base(1) that])
      have "PositionToId ?q1 (OrderToPosition ?q2 k) = PositionToId ?q (OrderToPosition ?q k)"
        unfolding k2 using ids [of song1] ids [of song2] ids [OF b] other pos assms(2,3) by auto
      then show ?thesis
        using order_ids_nth [OF ok2, of k] order_ids_nth [OF base(1) that] that q1(2) by (simp add: SwapOrders_def PositionToId_def)
    qed
    then have "current_id (p\<lparr>p_queue := ?q2\<rparr>) = current_id p" using base(2,3) by (simp add: current_id_def)
    moreover have "mid prev (p\<lparr>p_queue := ?q2\<rparr>)"
      by (rule mid_cong [OF assms(1)]) (use s2 base in \<open>simp_all add: same_songs_def\<close>)
    ultimately show ?thesis using True o1(1) o2(1) q1(4) by (simp add: swap_current_def)
  next
    case False
    define c where "c = (if p_current p = int song1 then int song2 else if p_current p = int song2 then int song1 else p_current p)"
    let ?p' = "p\<lparr>p_queue := ?q1, p_current := c\<rparr>"
    have "mid prev ?p'"
      by (rule mid_cong [OF assms(1)]) (use songs base assms(2,3) in \<open>auto simp: c_def same_songs_def\<close>)
    moreover have "order_ids ?q1 ! nat c = order_ids ?q ! nat (p_current p)" if "0 \<le> p_current p"
    proof -
      have b: "nat (p_current p) < q_length ?q" "nat c < q_length ?q" using that base(3) assms(2,3) by (auto simp: c_def)
      have "order_ids ?q1 ! nat c = PositionToId ?q1 (nat c)" "order_ids ?q ! nat (p_current p) = PositionToId ?q (nat (p_current p))"
        using order_ids_nth [OF q1(1), of "nat c"] order_ids_nth [OF base(1) b(1)] identity_order [OF q1(1)] identity_order [OF base(1) False]
          b q1 False by simp_all
      then show ?thesis using ids [OF b(2)] that by (auto simp: c_def)
    qed
    then have "current_id ?p' = current_id p" by (auto simp: current_id_def c_def)
    moreover have "swap_current song1 song2 (p\<lparr>p_queue := ?q1\<rparr>) = Some ?p'"
      using False q1(4) by (simp add: swap_current_def c_def)
    ultimately show ?thesis by simp
  qed
qed

lemma playlist_SwapPositions_correct:
  assumes "play_env_ok env" "play_ok p" "song1 < q_length (p_queue p)" "song2 < q_length (p_queue p)"
  shows "ensures (playlist_SwapPositions env song1 song2 p) (edited p)"
proof -
  have "ensures (GetQueuedSong p) (\<lambda>prev. ensures (swap_current song1 song2 (p\<lparr>p_queue := SwapPositions song1 song2 (p_queue p)\<rparr>))
      (\<lambda>p1. ensures (finish_edit env prev p1) (edited p)))"
    by (rule ensures_mono [OF GetQueuedSong_mid [OF assms(2)]], rule ensures_mono [OF swap_current_correct [OF _ assms(3,4)]])
      (auto intro!: finish_edited [OF assms(1)])
  then show ?thesis using assms(3,4) by (simp add: playlist_SwapPositions_def)
qed

lemma edited_keeps: "ensures r (edited p) \<Longrightarrow> keeps r"
  by (erule ensures_mono) (auto simp: edited_def)

lemma playlist_SwapPositions_keeps: "\<lbrakk>play_env_ok env; play_ok p\<rbrakk> \<Longrightarrow> keeps (playlist_SwapPositions env song1 song2 p)"
  using edited_keeps [OF playlist_SwapPositions_correct] by (cases "song1 < q_length (p_queue p) \<and> song2 < q_length (p_queue p)")
    (auto simp: playlist_SwapPositions_def)

lemma SwapIds_keeps: "\<lbrakk>play_env_ok env; play_ok p\<rbrakk> \<Longrightarrow> keeps (SwapIds env id1 id2 p)"
  by (simp add: SwapIds_def Let_def playlist_SwapPositions_keeps)

lemma names_songs:
  assumes "queue_ok q'" "q_max_length q' = q_max_length q" "q_length q' = q_length q" "names q' = names q" "queue_ok q"
  shows "same_songs q q'" "position_ids q' = position_ids q"
proof -
  have "id_uris r = (\<lambda>(song, sid). (sid, ds_uri song)) ` set (names r)" for r :: "DetachedSong queue"
    by (force simp: id_uris_def names_def image_image case_prod_unfold)
  then show "same_songs q q'" using assms by (simp add: same_songs_def)
  have "position_ids r = map snd (names r)" if "queue_ok r" for r :: "DetachedSong queue"
    using position_ids_contents [OF queue_okD(1) [OF that]] by (simp add: names_def case_prod_unfold comp_def)
  then show "position_ids q' = position_ids q" using assms by simp
qed

lemma current_at_same:
  assumes "queue_ok q" "position_ids (p_queue p') = position_ids q" "same_songs q (p_queue p')" "i < q_length q" "OrderToPosition q i = pos"
  shows "ensures (current_at pos p') (\<lambda>p''. \<exists>j < q_length q. p'' = p'\<lparr>p_current := int j\<rparr> \<and>
    order_ids (p_queue p') ! j = order_ids q ! i)"
proof -
  have q': "queue_ok (p_queue p')" "q_length (p_queue p') = q_length q" using assms(3) by (simp_all add: same_songs_def)
  have "pos < q_length (p_queue p')" using order_position_bound [OF assms(1,4)] assms(5) q'(2) by simp
  from current_at_correct [OF q'(1) this] show ?thesis
    by (rule ensures_mono) (use same_position_ids [OF assms(1) q'(1) assms(2,4)] q'(2) assms(5) in auto)
qed

lemma playlist_SetPriorityRange_correct:
  assumes "play_env_ok env" "play_ok p"
  shows "ensures (playlist_SetPriorityRange env rng priority p) (\<lambda>(e, p'). edited p (e, p') \<or> p' = p)"
proof (cases "RangeArg_CheckClip (word_of_nat (q_length (p_queue p))) rng")
  case None
  then show ?thesis by (simp add: playlist_SetPriorityRange_def)
next
  case (Some r)
  let ?q = "p_queue p"
  show ?thesis
  proof (cases "RangeArg_IsEmpty r")
    case True
    then show ?thesis using Some by (simp add: playlist_SetPriorityRange_def)
  next
    case False
    then have "unat (range_start r) \<le> unat (range_end r)" by (simp add: RangeArg_IsEmpty_def word_le_nat_alt)
    moreover have cur: "- 1 \<le> p_current p" "p_current p < int (q_length ?q)" "p_playing p \<longrightarrow> 0 \<le> p_current p"
      using assms(2) by (simp_all add: play_ok_def base_ok_def)
    moreover have "picker_ok (rnd_pick env (p_draws p))" using assms(1) by (simp add: play_env_ok_def)
    ultimately obtain changed q' where q': "SetPriorityRange (rnd_pick env (p_draws p)) (unat (range_start r)) (unat (range_end r))
        priority (p_current p) ?q = Some (changed, q')" "queue_ok q'" "q_length q' = q_length ?q" "q_max_length q' = q_max_length ?q" "names q' = names ?q"
      using SetPriorityRange_ok [OF play_ok_queue [OF assms(2)] _ _ CheckClip_bounds(2) [OF assms(2) Some]] by blast
    note songs = names_songs [OF q'(2,4,3,5) play_ok_queue [OF assms(2)]]
    let ?p1 = "p\<lparr>p_queue := q', p_draws := p_draws p + 1\<rparr>"
    have "ensures (GetQueuedSong p) (\<lambda>prev. ensures (finish_edit env prev ?p1) (edited p))" if "p_current p < 0"
    proof (rule ensures_mono [OF GetQueuedSong_mid [OF assms(2)]])
      fix prev assume "mid prev p"
      then have "mid prev ?p1" by (rule mid_cong) (use songs cur that q'(3) in simp_all)
      then show "ensures (finish_edit env prev ?p1) (edited p)" by (rule finish_edited [OF assms(1)]) (use that cur in simp_all)
    qed
    moreover have "ensures (GetQueuedSong p) (\<lambda>prev. ensures (current_at (OrderToPosition ?q (nat (p_current p))) ?p1)
        (\<lambda>p2. ensures (finish_edit env prev p2) (edited p)))" if c: "0 \<le> p_current p"
    proof (rule ensures_mono [OF GetQueuedSong_mid [OF assms(2)]])
      fix prev assume m: "mid prev p"
      show "ensures (current_at (OrderToPosition ?q (nat (p_current p))) ?p1) (\<lambda>p2. ensures (finish_edit env prev p2) (edited p))"
      proof (rule ensures_mono [OF current_at_same [OF play_ok_queue [OF assms(2)], of ?p1 "nat (p_current p)"]], goal_cases)
        case (5 p2)
        then obtain j where j: "j < q_length ?q" "p2 = ?p1\<lparr>p_current := int j\<rparr>" "order_ids (p_queue ?p1) ! j = order_ids ?q ! nat (p_current p)"
          by blast
        have "mid prev p2" by (rule mid_cong [OF m]) (use songs(1) j q'(3) in simp_all)
        then show ?case by (rule finish_edited [OF assms(1)]) (use j c in \<open>simp_all add: current_id_def\<close>)
      qed (use songs c cur in simp_all)
    qed
    ultimately have "ensures (playlist_SetPriorityRange env rng priority p) (edited p)"
      using Some False q'(1) cur by (cases "0 \<le> p_current p") (simp_all add: playlist_SetPriorityRange_def GetCurrentPosition_def Let_def)
    then show ?thesis by (rule ensures_mono) auto
  qed
qed

lemma playlist_SetPriorityRange_keeps: "\<lbrakk>play_env_ok env; play_ok p\<rbrakk> \<Longrightarrow> keeps (playlist_SetPriorityRange env rng priority p)"
  by (rule ensures_mono [OF playlist_SetPriorityRange_correct]) (auto simp: edited_def)

lemma SetPriorityId_keeps: "\<lbrakk>play_env_ok env; play_ok p\<rbrakk> \<Longrightarrow> keeps (SetPriorityId env sid priority p)"
  by (simp add: SetPriorityId_def Let_def playlist_SetPriorityRange_keeps)

section \<open>Moving songs\<close>

lemma set_take_drop: "set (take n xs) \<union> set (drop n xs) = set xs"
  by (metis append_take_drop_id set_append)

lemma set_move_block:
  assumes "s \<le> e"
  shows "set (move_block s e t xs) = set xs"
proof -
  let ?rest = "take s xs @ drop e xs" and ?block = "take (e - s) (drop s xs)"
  have "set (move_block s e t xs) = (set (take t ?rest) \<union> set (drop t ?rest)) \<union> set ?block"
    unfolding move_block_def Let_def set_append by (simp only: Un_ac)
  also have "\<dots> = set (take s xs) \<union> (set ?block \<union> set (drop e xs))" unfolding set_take_drop set_append by blast
  also have "drop e xs = drop (e - s) (drop s xs)" using assms by simp
  finally show ?thesis unfolding set_take_drop .
qed

lemma MoveRange_fields:
  assumes "s \<le> e"
  shows "q_length (MoveRange s e t q) = q_length q" "q_max_length (MoveRange s e t q) = q_max_length q"
    "q_random (MoveRange s e t q) = q_random q"
  by (simp_all add: MoveRange_puts [OF assms] reordered_def same_frame_fields [OF puts_frame])

lemma MoveRange_songs:
  assumes "queue_ok q" "s \<le> e" "e \<le> q_length q" "t + (e - s) \<le> q_length q"
  shows "same_songs q (MoveRange s e t q)"
    "q_random q \<Longrightarrow> order_ids (MoveRange s e t q) = order_ids q"
    "\<lbrakk>\<not> q_random q; c < q_length q\<rbrakk> \<Longrightarrow> order_ids (MoveRange s e t q) ! range_order_value s e t c = order_ids q ! c"
proof -
  note ok = MoveRange_correct [OF assms] and f = MoveRange_fields [OF assms(2), of t q]
  show "same_songs q (MoveRange s e t q)"
    by (rule same_songs_contents) (use ok f set_move_block [OF assms(2)] in simp_all)
  show "q_random q \<Longrightarrow> order_ids (MoveRange s e t q) = order_ids q" by (simp add: order_ids_played ok(3))
  assume c: "\<not> q_random q" "c < q_length q"
  let ?c' = "range_order_value s e t c"
  have c': "?c' < q_length q" using c(2) assms(2-4) by (auto simp: range_order_value_def)
  have "order_ids r = map (\<lambda>(_, i, _). i) (contents r)" if "queue_ok r" "\<not> q_random r" for r :: "DetachedSong queue"
    using that position_ids_contents [OF queue_okD(1) [OF that(1)]] queue_okD(3) [OF that(1)]
    by (simp add: order_ok_def order_ids_def position_ids_def)
  then show "order_ids (MoveRange s e t q) ! ?c' = order_ids q ! c"
    using ok(1,2) f c c' assms move_block_nth [of s e "contents q" t c] length_move_block [of s e "contents q" t] queue_okD(1) [OF assms(1)]
    by simp
qed

text \<open>The arguments of \<open>MoveRange\<close> when the sum of destination and count does not wrap.\<close>

definition move_args :: "RangeArg \<Rightarrow> 32 word \<Rightarrow> bool" where
  "move_args rng dest \<longleftrightarrow> RangeArg_IsWellFormed rng \<and> unat dest + unat (RangeArg_Count rng) < 2 ^ 32"

lemma unat_pred_less:
  fixes w :: "32 word"
  assumes "unat (w - 1) < n" "n < 2 ^ 31"
  shows "0 < unat w" "unat w \<le> n"
proof -
  have "unat (- 1 :: 32 word) = 2 ^ 32 - 1" by (simp add: unsigned_minus_1_eq_mask mask_eq_exp_minus_1)
  then have "w \<noteq> 0" using assms by auto
  then show "0 < unat w" by (simp add: unat_gt_0)
  then show "unat w \<le> n" using assms(1) unat_minus_one [OF \<open>w \<noteq> 0\<close>] by simp
qed

lemma unat_Count: "RangeArg_IsWellFormed rng \<Longrightarrow> unat (RangeArg_Count rng) = unat (range_end rng) - unat (range_start rng)"
  by (simp add: RangeArg_IsWellFormed_def RangeArg_Count_def unat_sub)

lemma move_bounds:
  assumes "move_args rng dest" "unat (range_end rng - 1) < n" "unat (dest + RangeArg_Count rng - 1) < n" "n < 2 ^ 31"
  shows "unat (range_start rng) \<le> unat (range_end rng)" "unat (range_end rng) \<le> n"
    "unat dest + (unat (range_end rng) - unat (range_start rng)) \<le> n"
proof -
  show "unat (range_start rng) \<le> unat (range_end rng)" using assms(1) by (simp add: move_args_def RangeArg_IsWellFormed_def word_le_nat_alt)
  show "unat (range_end rng) \<le> n" by (rule unat_pred_less(2) [OF assms(2,4)])
  have "unat (dest + RangeArg_Count rng) = unat dest + unat (RangeArg_Count rng)"
    using assms(1) by (subst unat_add_lem [THEN iffD1]) (simp_all add: move_args_def)
  then show "unat dest + (unat (range_end rng) - unat (range_start rng)) \<le> n"
    using unat_pred_less(2) [OF assms(3,4)] unat_Count [of rng] assms(1) by (simp add: move_args_def)
qed

lemma moved_current_nat:
  assumes "RangeArg_IsWellFormed rng" "c < 2 ^ 31"
  shows "moved_current rng dest (int c) =
    (let s = unat (range_start rng); e = unat (range_end rng); t = unat dest in
     if s \<le> c \<and> c < e then int c + int t - int s
     else if e \<le> c \<and> c \<le> t then int c - int (e - s)
     else if t \<le> c \<and> c < s then int c + int (e - s) else int c)"
proof -
  have c: "unat (word_of_nat c :: 32 word) = c" using assms(2) by (simp add: unat_of_nat)
  show ?thesis
    using unat_Count [OF assms(1)]
    by (simp add: moved_current_def Let_def RangeArg_Contains_def word_le_nat_alt word_less_nat_alt c)
qed

text \<open>The songs for which \<open>MoveRange\<close> does not follow the current song: behind the range and moved over.\<close>

definition lost_by_move :: "RangeArg \<Rightarrow> 32 word \<Rightarrow> nat \<Rightarrow> bool" where
  "lost_by_move rng dest c \<longleftrightarrow>
     unat (range_end rng) \<le> c \<and> unat dest < c \<and> c < unat dest + (unat (range_end rng) - unat (range_start rng))"

lemma moved_current_exact:
  assumes "RangeArg_IsWellFormed rng" "c < n" "n < 2 ^ 31" "unat (range_end rng) \<le> n"
    "unat dest + (unat (range_end rng) - unat (range_start rng)) \<le> n"
  shows "0 \<le> moved_current rng dest (int c)" "moved_current rng dest (int c) < int n"
    "moved_current rng dest (int c) = int (range_order_value (unat (range_start rng)) (unat (range_end rng)) (unat dest) c) \<longleftrightarrow>
       \<not> lost_by_move rng dest c"
proof -
  have w: "unat (range_start rng) \<le> unat (range_end rng)" using assms(1) by (simp add: RangeArg_IsWellFormed_def word_le_nat_alt)
  have "c < 2 ^ 31" using assms(2,3) by simp
  note m = moved_current_nat [OF assms(1) this, of dest]
  obtain s e t where set: "unat (range_start rng) = s" "unat (range_end rng) = e" "unat dest = t" by simp
  show "0 \<le> moved_current rng dest (int c)" "moved_current rng dest (int c) < int n"
    using assms(2,4,5) w unfolding m Let_def set by auto
  show "moved_current rng dest (int c) = int (range_order_value (unat (range_start rng)) (unat (range_end rng)) (unat dest) c) \<longleftrightarrow>
       \<not> lost_by_move rng dest c"
    using assms(2,4,5) w unfolding m Let_def lost_by_move_def range_order_value_def set by auto
qed

text \<open>
  What \<open>MoveRange\<close> does to the current song: in random mode the order array follows the move; otherwise
  the order number is adjusted, correctly except for the songs \<open>lost_by_move\<close>.
\<close>

lemma playlist_MoveRange_step:
  assumes "mid prev p" "move_args rng dest" "unat (range_end rng - 1) < q_length (p_queue p)"
    and "unat (dest + RangeArg_Count rng - 1) < q_length (p_queue p)"
  defines "q' \<equiv> MoveRange (unat (range_start rng)) (unat (range_end rng)) (unat dest) (p_queue p)"
  defines "p' \<equiv> (if \<not> q_random q' \<and> 0 \<le> p_current p
                 then p\<lparr>p_queue := q', p_current := moved_current rng dest (p_current p)\<rparr> else p\<lparr>p_queue := q'\<rparr>)"
  shows "mid prev p'" "p_playing p' = p_playing p" "p_bulk_edit p' = p_bulk_edit p"
    "0 \<le> p_current p \<Longrightarrow> current_id p' = current_id p \<longleftrightarrow> q_random (p_queue p) \<or> \<not> lost_by_move rng dest (nat (p_current p))"
proof -
  let ?q = "p_queue p" and ?s = "unat (range_start rng)" and ?e = "unat (range_end rng)" and ?t = "unat dest"
  have base: "queue_ok ?q" "- 1 \<le> p_current p" "p_current p < int (q_length ?q)" "p_playing p \<longrightarrow> 0 \<le> p_current p" "q_length ?q < 2 ^ 31"
    using assms(1) by (simp_all add: mid_def base_ok_def queue_ok_def shape_ok_def)
  note b = move_bounds [OF assms(2-4) base(5)]
  note songs = MoveRange_songs [OF base(1) b, folded q'_def]
  have q': "queue_ok q'" "q_length q' = q_length ?q" "q_random q' = q_random ?q"
    using songs(1) MoveRange_fields(3) [OF b(1)] by (simp_all add: same_songs_def q'_def)
  have wf: "RangeArg_IsWellFormed rng" using assms(2) by (simp add: move_args_def)
  have cur: "\<exists>c < q_length ?q. p_current p = int c" if "0 \<le> p_current p"
    using that base(3) by (intro exI [of _ "nat (p_current p)"]) simp
  have m: "0 \<le> moved_current rng dest (p_current p)" "moved_current rng dest (p_current p) < int (q_length ?q)" if "0 \<le> p_current p"
    using cur [OF that] moved_current_exact(1,2) [OF wf _ base(5) b(2,3)] by auto
  show "mid prev p'" by (rule mid_cong [OF assms(1)]) (use songs(1) base m q'(2) in \<open>auto simp: p'_def\<close>)
  show "p_playing p' = p_playing p" "p_bulk_edit p' = p_bulk_edit p" by (simp_all add: p'_def)
  assume c0: "0 \<le> p_current p"
  then obtain c where c: "c < q_length ?q" "p_current p = int c" using cur by blast
  show "current_id p' = current_id p \<longleftrightarrow> q_random ?q \<or> \<not> lost_by_move rng dest (nat (p_current p))"
  proof (cases "q_random ?q")
    case True
    then show ?thesis using songs(2) q'(3) by (simp add: p'_def current_id_def)
  next
    case False
    let ?m = "moved_current rng dest (int c)" and ?r = "range_order_value ?s ?e ?t c"
    have r: "?r < q_length ?q" using b c(1) by (auto simp: range_order_value_def)
    have "current_id p' = current_id p \<longleftrightarrow> order_ids q' ! nat ?m = order_ids q' ! ?r"
      using False q'(3) c m [OF c0] songs(3) [OF False c(1)] by (simp add: p'_def current_id_def)
    also have "\<dots> \<longleftrightarrow> nat ?m = ?r"
      using nth_eq_iff_index_eq [OF distinct_order_ids [OF q'(1)], of "nat ?m" ?r] m [OF c0] c(2) r q'(1,2) by simp
    also have "\<dots> \<longleftrightarrow> ?m = int ?r" using m(1) [OF c0] c(2) by auto
    also have "\<dots> \<longleftrightarrow> \<not> lost_by_move rng dest c" by (rule moved_current_exact(3) [OF wf c(1) base(5) b(2,3)])
    finally show ?thesis using False c(2) by simp
  qed
qed

lemma playlist_MoveRange_correct:
  assumes "play_env_ok env" "play_ok p" "move_args rng dest"
  shows "ensures (playlist_MoveRange env rng dest p) (\<lambda>(e, p'). play_ok p' \<and> p_playing p' = p_playing p \<and>
    (if e \<noteq> None \<or> range_start rng = dest then p' = p
     else (0 \<le> p_current p \<longrightarrow> (current_id p' = current_id p \<longleftrightarrow>
             q_random (p_queue p) \<or> \<not> lost_by_move rng dest (nat (p_current p)))) \<and>
       (p_playing p \<and> \<not> p_bulk_edit p \<longrightarrow> queued_next p')))"
proof -
  let ?n = "q_length (p_queue p)"
  show ?thesis
  proof (cases "unat (range_start rng) < ?n \<and> unat (range_end rng - 1) < ?n \<and> unat (dest + RangeArg_Count rng - 1) < ?n \<and> range_start rng \<noteq> dest")
    case False
    then show ?thesis using assms(2) by (auto simp: playlist_MoveRange_def Let_def)
  next
    case True
    let ?q' = "MoveRange (unat (range_start rng)) (unat (range_end rng)) (unat dest) (p_queue p)"
    let ?p' = "if \<not> q_random ?q' \<and> 0 \<le> p_current p
                 then p\<lparr>p_queue := ?q', p_current := moved_current rng dest (p_current p)\<rparr> else p\<lparr>p_queue := ?q'\<rparr>"
    let ?Q = "\<lambda>p'. play_ok p' \<and> p_playing p' = p_playing p \<and>
       (0 \<le> p_current p \<longrightarrow> (current_id p' = current_id p \<longleftrightarrow> q_random (p_queue p) \<or> \<not> lost_by_move rng dest (nat (p_current p)))) \<and>
       (p_playing p \<and> \<not> p_bulk_edit p \<longrightarrow> queued_next p')"
    have t: "unat (range_end rng - 1) < ?n" "unat (dest + RangeArg_Count rng - 1) < ?n" using True by simp_all
    note b = move_bounds [OF assms(3) t play_ok_length [OF assms(2)]]
    have def: "playlist_MoveRange env rng dest p = Option.bind (GetQueuedSong p) (\<lambda>prev. finish_edit env prev ?p')"
      using True b(1,3) by (simp add: playlist_MoveRange_def Let_def)
    have "ensures (GetQueuedSong p) (\<lambda>prev. ensures (finish_edit env prev ?p') (\<lambda>(e, p'). e = None \<and> ?Q p'))"
    proof (rule ensures_mono [OF GetQueuedSong_mid [OF assms(2)]])
      fix prev assume "mid prev p"
      note step = playlist_MoveRange_step [OF this assms(3)]
      show "ensures (finish_edit env prev ?p') (\<lambda>(e, p'). e = None \<and> ?Q p')"
        by (rule ensures_mono [OF finish_edit_correct [OF assms(1) step(1)]]) (use True step(2-4) in auto)
    qed
    then show ?thesis unfolding def ensures_bind using True by (auto elim!: ensures_mono)
  qed
qed

section \<open>Shuffling\<close>

definition same_outside :: "nat \<Rightarrow> nat \<Rightarrow> DetachedSong queue \<Rightarrow> DetachedSong queue \<Rightarrow> bool" where
  "same_outside s e q r \<longleftrightarrow> same_songs q r \<and> q_order r = q_order q \<and> q_random r = q_random q \<and>
     (\<forall>pos < q_length q. pos < s \<or> e \<le> pos \<longrightarrow> PositionToId r pos = PositionToId q pos)"

lemma ShuffleRange_outside:
  assumes "queue_ok q" "\<And>i. picker_ok (pick i)" "e \<le> q_length q"
  shows "same_outside s e q (ShuffleRange pick s e q)"
  unfolding ShuffleRange_def
proof (rule fold_invariant_set [where P = "same_outside s e q"])
  show "same_outside s e q q" using assms(1) by (simp add: same_outside_def same_songs_refl)
  fix i r assume i: "i \<in> set [s..<e]" and r: "same_outside s e q r"
  let ?j = "pick i s (e - 1)"
  have b: "s \<le> i" "i < e" "s \<le> e - 1" using i by auto
  then have j: "s \<le> ?j" "?j \<le> e - 1" using assms(2) [of i] unfolding picker_ok_def by blast+
  have rq: "queue_ok r" "q_length r = q_length q" using r by (simp_all add: same_outside_def same_songs_def)
  have ij: "i < q_length r" "?j < q_length r" using b j assms(3) rq(2) by auto
  have "same_songs q (SwapPositions i ?j r)"
    using same_songs_trans [OF _ SwapPositions_songs [OF rq(1) ij]] r by (simp add: same_outside_def)
  moreover have "PositionToId (SwapPositions i ?j r) pos = PositionToId q pos" if "pos < q_length q" "pos < s \<or> e \<le> pos" for pos
    using SwapPositions_ids [OF rq(1) ij, of pos] that rq(2) b j r by (auto simp: same_outside_def)
  moreover have "q_order (SwapPositions i ?j r) = q_order r" "q_random (SwapPositions i ?j r) = q_random r"
    by (simp_all add: SwapPositions_def Let_def)
  ultimately show "same_outside s e q (SwapPositions i ?j r)" using r by (simp add: same_outside_def)
qed

text \<open>Before the range is shuffled, the current song is put at its start and left out.\<close>

lemma Shuffle_current_correct:
  assumes "mid prev p" "unat (range_start r) + 2 \<le> unat (range_end r)" "unat (range_end r) \<le> q_length (p_queue p)"
  shows "ensures (Shuffle_current r p) (\<lambda>(s, p'). mid prev p' \<and> unat (range_start r) \<le> s \<and> s \<le> unat (range_start r) + 1 \<and>
    p_playing p' = p_playing p \<and> p_bulk_edit p' = p_bulk_edit p \<and> q_length (p_queue p') = q_length (p_queue p) \<and>
    (p_playing p \<longrightarrow> current_id p' = current_id p \<and>
       (let pos = OrderToPosition (p_queue p') (nat (p_current p')) in pos < s \<or> unat (range_end r) \<le> pos)))"
proof (cases "p_playing p")
  case False
  have "mid prev (p\<lparr>p_current := - 1\<rparr>)"
    using assms(1) False by (auto simp: mid_def base_ok_def split: option.splits)
  then show ?thesis using False by (simp add: Shuffle_current_def)
next
  case True
  let ?q = "p_queue p" and ?s = "unat (range_start r)" and ?pos = "OrderToPosition (p_queue p) (nat (p_current p))"
  let ?q1 = "SwapPositions ?s ?pos ?q"
  have base: "queue_ok ?q" "0 \<le> p_current p" "p_current p < int (q_length ?q)" "q_length ?q < 2 ^ 31"
    using assms(1) True by (simp_all add: mid_def base_ok_def queue_ok_def shape_ok_def)
  have i: "nat (p_current p) < q_length ?q" using base(2,3) by simp
  note pos = order_position_bound [OF base(1) i]
  have c: "RangeArg_Contains r (word_of_nat ?pos) \<longleftrightarrow> ?s \<le> ?pos \<and> ?pos < unat (range_end r)"
    using pos base(4) by (simp add: RangeArg_Contains_def word_le_nat_alt word_less_nat_alt unat_of_nat)
  show ?thesis
  proof (cases "?s \<le> ?pos \<and> ?pos < unat (range_end r)")
    case False
    then show ?thesis using True base(2,3) c assms(1) by (auto simp: Shuffle_current_def Let_def)
  next
    case inside: True
    have s: "?s < q_length ?q" using assms(2,3) by simp
    note songs = SwapPositions_songs [OF base(1) s pos] and ids = SwapPositions_ids [OF base(1) s pos]
    have q1: "queue_ok ?q1" "q_length ?q1 = q_length ?q" "q_random ?q1 = q_random ?q"
      using songs by (simp_all add: same_songs_def SwapPositions_def Let_def)
    have def: "Shuffle_current r p = map_option (\<lambda>p'. (?s + 1, p'))
      (if q_random ?q1 then current_at ?s (p\<lparr>p_queue := ?q1\<rparr>) else Some (p\<lparr>p_queue := ?q1, p_current := int ?s\<rparr>))"
      using True inside base(2,3) c by (simp add: Shuffle_current_def Let_def map_conv_bind_option comp_def)
    have first: "ensures (if q_random ?q1 then current_at ?s (p\<lparr>p_queue := ?q1\<rparr>) else Some (p\<lparr>p_queue := ?q1, p_current := int ?s\<rparr>))
      (\<lambda>p'. \<exists>j < q_length ?q. p' = p\<lparr>p_queue := ?q1, p_current := int j\<rparr> \<and> OrderToPosition ?q1 j = ?s)"
    proof (cases "q_random ?q1")
      case True
      then show ?thesis using current_at_correct [of "p\<lparr>p_queue := ?q1\<rparr>" ?s] q1 s by (auto elim!: ensures_mono)
    next
      case False
      have "OrderToPosition ?q1 ?s = ?s" by (rule identity_order [OF q1(1) False]) (use s q1 in simp)
      then show ?thesis using False s by (simp, intro exI [of _ ?s]) simp
    qed
    have "mid prev (p\<lparr>p_queue := ?q1, p_current := int j\<rparr>) \<and> current_id (p\<lparr>p_queue := ?q1, p_current := int j\<rparr>) = current_id p"
      if "j < q_length ?q" "OrderToPosition ?q1 j = ?s" for j
    proof
      show "mid prev (p\<lparr>p_queue := ?q1, p_current := int j\<rparr>)" by (rule mid_cong [OF assms(1)]) (use songs that q1(2) in simp_all)
      have "order_ids ?q1 ! j = order_ids ?q ! nat (p_current p)"
        using order_ids_nth [OF q1(1), of j] order_ids_nth [OF base(1) i] that q1(2) ids [OF s] by simp
      then show "current_id (p\<lparr>p_queue := ?q1, p_current := int j\<rparr>) = current_id p" using base(2) by (simp add: current_id_def)
    qed
    then show ?thesis unfolding def ensures_map by (intro ensures_mono [OF first]) (auto simp: q1(2))
  qed
qed

lemma playlist_Shuffle_correct:
  assumes "play_env_ok env" "play_ok p"
  shows "ensures (playlist_Shuffle env rng p) (\<lambda>(e, p'). edited p (e, p') \<or> p' = p)"
proof (cases "RangeArg_CheckClip (word_of_nat (q_length (p_queue p))) rng")
  case None
  then show ?thesis by (simp add: playlist_Shuffle_def)
next
  case (Some r)
  note clip = CheckClip_bounds [OF assms(2) Some]
  show ?thesis
  proof (cases "RangeArg_HasAtLeast r 2")
    case False
    then show ?thesis using Some by (simp add: playlist_Shuffle_def)
  next
    case True
    have "unat (range_start r + 2) = unat (range_start r) + 2"
      using clip(1) play_ok_length [OF assms(2)] by (subst unat_add_lem [THEN iffD1]) simp_all
    then have two: "unat (range_start r) + 2 \<le> unat (range_end r)" using True by (simp add: RangeArg_HasAtLeast_def word_le_nat_alt)
    have step: "ensures (finish_edit env prev (p1\<lparr>p_queue := ShuffleRange (rnd_pick_each env (p_draws p1)) s (unat (range_end r)) (p_queue p1),
        p_draws := p_draws p1 + 1\<rparr>)) (edited p)"
      if m: "mid prev p1" and f: "p_playing p1 = p_playing p" "p_bulk_edit p1 = p_bulk_edit p" "q_length (p_queue p1) = q_length (p_queue p)"
        and cur: "p_playing p \<longrightarrow> current_id p1 = current_id p \<and>
          (let pos = OrderToPosition (p_queue p1) (nat (p_current p1)) in pos < s \<or> unat (range_end r) \<le> pos)" for prev p1 s
    proof (rule finish_edited [OF assms(1)])
      let ?q = "p_queue p1" and ?q' = "ShuffleRange (rnd_pick_each env (p_draws p1)) s (unat (range_end r)) (p_queue p1)"
      have base: "queue_ok ?q" "- 1 \<le> p_current p1" "p_current p1 < int (q_length ?q)" "p_playing p1 \<longrightarrow> 0 \<le> p_current p1"
        using m by (simp_all add: mid_def base_ok_def)
      have out: "same_outside s (unat (range_end r)) ?q ?q'"
        by (rule ShuffleRange_outside [OF base(1)]) (use assms(1) clip(2) f(3) in \<open>simp_all add: play_env_ok_def\<close>)
      then have songs: "same_songs ?q ?q'" "q_order ?q' = q_order ?q" "queue_ok ?q'" "q_length ?q' = q_length ?q"
        by (simp_all add: same_outside_def same_songs_def)
      show "mid prev (p1\<lparr>p_queue := ?q', p_draws := p_draws p1 + 1\<rparr>)"
        by (rule mid_cong [OF m]) (use songs base in simp_all)
      show "current_id (p1\<lparr>p_queue := ?q', p_draws := p_draws p1 + 1\<rparr>) = current_id p" if "p_playing p"
      proof -
        have c: "0 \<le> p_current p1" "nat (p_current p1) < q_length ?q" using that f(1) base by auto
        have "order_ids ?q' ! nat (p_current p1) = order_ids ?q ! nat (p_current p1)"
          using order_ids_nth [OF songs(3), of "nat (p_current p1)"] order_ids_nth [OF base(1) c(2)] c(2) songs(2,4)
            out cur that order_position_bound [OF base(1) c(2)]
          by (auto simp: same_outside_def OrderToPosition_def Let_def)
        then have "current_id (p1\<lparr>p_queue := ?q', p_draws := p_draws p1 + 1\<rparr>) = current_id p1" by (simp add: current_id_def)
        then show ?thesis using cur that by simp
      qed
    qed (use f in simp_all)
    have "ensures (GetQueuedSong p) (\<lambda>prev. ensures (Shuffle_current r p) (\<lambda>(s, p1).
        ensures (finish_edit env prev (p1\<lparr>p_queue := ShuffleRange (rnd_pick_each env (p_draws p1)) s (unat (range_end r)) (p_queue p1),
          p_draws := p_draws p1 + 1\<rparr>)) (edited p)))"
      by (rule ensures_mono [OF GetQueuedSong_mid [OF assms(2)]], rule ensures_mono [OF Shuffle_current_correct [OF _ two clip(2)]])
        (auto intro!: step [folded Suc_eq_plus1])
    then have "ensures (playlist_Shuffle env rng p) (edited p)" using Some True by (simp add: playlist_Shuffle_def case_prod_unfold)
    then show ?thesis by (rule ensures_mono) auto
  qed
qed

lemma playlist_Shuffle_keeps: "\<lbrakk>play_env_ok env; play_ok p\<rbrakk> \<Longrightarrow> keeps (playlist_Shuffle env rng p)"
  by (rule ensures_mono [OF playlist_Shuffle_correct]) (auto simp: edited_def)

section \<open>Editing songs in place\<close>

text \<open>Every id but 0 that the table knows belongs to a song of the queue.\<close>

lemma IdToPosition_bound:
  assumes "queue_ok q" "0 < sid" "0 \<le> Queue_IdToPosition q sid"
  shows "Queue_IdToPosition q sid < int (q_length q)"
proof -
  have n: "sid < it_initialized (q_id_table q)" "0 \<le> it_data (q_id_table q) ! sid"
    "Queue_IdToPosition q sid = it_data (q_id_table q) ! sid"
    using assms(3) by (auto simp: Queue_IdToPosition_def IdTable_IdToPosition_def split: if_splits)
  then obtain pos where "pos < q_length q" "PositionToId q pos = sid"
    using queue_okD(2) [OF assms(1)] assms(2) unfolding linked_ids_def by blast
  then show ?thesis using linked_idsD(3) [OF queue_okD(2) [OF assms(1)]] n(3) by auto
qed

lemma OnModified_view_ok:
  assumes "play_ok p" "same_view (p_queue p) q'"
  shows "play_ok (OnModified (p\<lparr>p_queue := q'\<rparr>))" "current_id (OnModified (p\<lparr>p_queue := q'\<rparr>)) = current_id p"
proof -
  have ok: "play_ok (p\<lparr>p_queue := q'\<rparr>)" "current_id (p\<lparr>p_queue := q'\<rparr>) = current_id p"
    by (rule play_ok_view [OF assms(1)]; use assms(2) in simp)+
  show "play_ok (OnModified (p\<lparr>p_queue := q'\<rparr>))" "current_id (OnModified (p\<lparr>p_queue := q'\<rparr>)) = current_id p"
    using OnModified_ok [OF ok(1)] ok(2) by simp_all
qed

lemma modify_view:
  assumes "queue_ok q" "pos < q_length q" "\<And>s. ds_uri (f s) = ds_uri s"
  shows "same_view q (ModifyAtPosition pos (modify_song pos f q))"
proof -
  have v: "same_view q (modify_song pos f q)" by (rule same_view_modify_song [OF assms])
  then have "same_view (modify_song pos f q) (ModifyAtPosition pos (modify_song pos f q))"
    using assms(2) by (intro same_view_ModifyAtPosition) (simp_all add: same_view_def)
  then show ?thesis by (rule same_view_trans [OF v])
qed

lemma SetSongIdRange_keeps:
  assumes "play_env_ok env" "play_ok p" "0 < sid"
  shows "keeps (SetSongIdRange env sid start end' p)"
proof -
  let ?position = "Queue_IdToPosition (p_queue p) sid"
  define pos where "pos = nat ?position"
  define was_queued where "was_queued \<longleftrightarrow> p_playing p \<and> ?position = p_queued p"
  define p1 where "p1 = (if was_queued then (tell Cancel p)\<lparr>p_queued := - 1\<rparr> else p)"
  show ?thesis
  proof (cases "?position < 0 \<or> (p_playing p \<and> ?position = p_current p)")
    case True
    then show ?thesis using assms(2) by (auto simp: SetSongIdRange_def Let_def)
  next
    case False
    have pos: "?position = int pos" "pos < q_length (p_queue p)"
      using IdToPosition_bound [OF play_ok_queue [OF assms(2)] assms(3)] False by (auto simp: pos_def)
    have ok1: "play_ok p1" "p_queue p1 = p_queue p"
      using assms(2) by (auto simp: p1_def play_ok_def base_ok_def enqueues_ok_snoc)
    have song: "song_at ?position p1 = Some (i_song (q_items (p_queue p1) ! pos))" using pos ok1(2) by (simp add: song_at_def)
    have edit: "ensures (if was_queued then UpdateQueuedSong env None p2 else Some p2)
        (\<lambda>p3. play_ok (OnModified (p3\<lparr>p_queue := ModifyAtPosition pos (p_queue p3)\<rparr>)))"
      if p2: "p2 = p1\<lparr>p_queue := modify_song pos (\<lambda>s. s\<lparr>ds_start_time := start, ds_end_time := e\<rparr>) (p_queue p1)\<rparr>" for p2 e
    proof -
      have v: "same_view (p_queue p1) (p_queue p2)"
        using pos(2) ok1 play_ok_queue [OF assms(2)] by (simp add: p2 same_view_modify_song)
      have ok2: "play_ok p2" "q_length (p_queue p2) = q_length (p_queue p)"
        using play_ok_view(1) [OF ok1(1) v] v ok1(2) by (simp_all add: p2 same_view_def)
      have last: "play_ok (OnModified (p3\<lparr>p_queue := ModifyAtPosition pos (p_queue p3)\<rparr>))"
        if "play_ok p3" "q_length (p_queue p3) = q_length (p_queue p)" for p3
        using OnModified_view_ok(1) [OF that(1) same_view_ModifyAtPosition] play_ok_queue [OF that(1)] pos(2) that(2) by simp
      show ?thesis
      proof (cases was_queued)
        case True
        have "mid None p2" using ok2(1) True by (simp add: mid_def play_ok_def p2 p1_def)
        then show ?thesis
          using True ok2(2)
          by (auto intro!: ensures_mono [OF UpdateQueuedSong_correct [OF assms(1)]] last simp: updated_def same_songs_def)
      qed (use last [OF ok2] in simp)
    qed
    have "SetSongIdRange env sid start end' p = (case check_song_range (i_song (q_items (p_queue p1) ! pos)) start end' of
            Inl e \<Rightarrow> Some (Some e, p1)
          | Inr e \<Rightarrow> no_throw (Option.bind (if was_queued
                then UpdateQueuedSong env None (p1\<lparr>p_queue := modify_song pos (\<lambda>s. s\<lparr>ds_start_time := start, ds_end_time := e\<rparr>) (p_queue p1)\<rparr>)
                else Some (p1\<lparr>p_queue := modify_song pos (\<lambda>s. s\<lparr>ds_start_time := start, ds_end_time := e\<rparr>) (p_queue p1)\<rparr>))
              (\<lambda>p3. Some (OnModified (p3\<lparr>p_queue := ModifyAtPosition pos (p_queue p3)\<rparr>)))))"
      using False song unfolding SetSongIdRange_def Let_def was_queued_def [symmetric] p1_def [symmetric] pos_def [symmetric]
      by (auto split: sum.split)
    then show ?thesis using ok1(1) edit by (cases "check_song_range (i_song (q_items (p_queue p1) ! pos)) start end'") simp_all
  qed
qed

lemma TagModified_keeps:
  assumes "play_ok p"
  shows "ensures (TagModified song p) play_ok"
proof (cases "p_playing p")
  case True
  then have cur: "0 \<le> p_current p" "p_current p < int (q_length (p_queue p))" "queue_ok (p_queue p)"
    using assms by (simp_all add: play_ok_def base_ok_def)
  let ?q = "p_queue p" and ?pos = "OrderToPosition (p_queue p) (nat (p_current p))"
  have pos: "?pos < q_length ?q" by (rule order_position_bound [OF cur(3)]) (use cur in simp)
  have "ds_uri (MoveTagItemsFrom song s) = ds_uri s" for s by (simp add: MoveTagItemsFrom_def)
  then have "same_view ?q (ModifyAtPosition ?pos (if b then modify_song ?pos (MoveTagItemsFrom song) ?q else ?q))" for b
    using modify_view [OF cur(3) pos, of "MoveTagItemsFrom song"] same_view_ModifyAtPosition [OF cur(3) pos] by simp
  then show ?thesis using True cur OnModified_view_ok(1) [OF assms] by (simp add: TagModified_def)
qed (use assms in \<open>simp add: TagModified_def\<close>)

lemma tag_modified_loop_view:
  assumes "queue_ok q" "\<forall>i \<in> set is. i < q_length q" "tag_modified_loop uri tag is (m, q) = (m', q')"
  shows "same_view q q'"
  using assms
proof (induction "is" arbitrary: m q)
  case (Cons i "is")
  let ?q = "if IsRealURI uri (i_song (q_items q ! i)) then ModifyAtPosition i (modify_song i (\<lambda>s. s\<lparr>ds_tag := tag\<rparr>) q) else q"
  have v: "same_view q ?q" using Cons.prems(1,2) by (simp add: modify_view same_view_refl)
  moreover have "same_view ?q q'"
    by (rule Cons.IH [of _ "m \<or> IsRealURI uri (i_song (q_items q ! i))"])
      (use Cons.prems v in \<open>auto simp: same_view_def split: if_splits\<close>)
  ultimately show ?case by (rule same_view_trans)
qed (simp add: same_view_refl)

lemma TagModified_uri_ok:
  assumes "play_ok p"
  shows "play_ok (TagModified_uri uri tag p)"
proof -
  obtain m q where r: "tag_modified_loop uri tag [0..<q_length (p_queue p)] (False, p_queue p) = (m, q)" by (cases "tag_modified_loop uri tag [0..<q_length (p_queue p)] (False, p_queue p)")
  have v: "same_view (p_queue p) q" by (rule tag_modified_loop_view [OF play_ok_queue [OF assms] _ r]) simp
  then have "play_ok (p\<lparr>p_queue := q\<rparr>)" by (intro play_ok_view(1) [OF assms]) simp_all
  then show ?thesis using OnModified_ok(1) by (simp add: TagModified_uri_def r)
qed

lemma EditSongTag_keeps:
  assumes "play_ok p" "0 < sid"
  shows "keeps (EditSongTag sid edit p)"
proof (cases "Queue_IdToPosition (p_queue p) sid < 0")
  case False
  let ?position = "Queue_IdToPosition (p_queue p) sid"
  have "?position < int (q_length (p_queue p))" using IdToPosition_bound [OF play_ok_queue [OF assms(1)] assms(2)] False by simp
  then show ?thesis
    using False assms(1) OnModified_view_ok(1) [OF assms(1) modify_view [OF play_ok_queue [OF assms(1)]], of "nat ?position"]
    by (simp add: EditSongTag_def Let_def song_at_def)
qed (use assms(1) in \<open>simp add: EditSongTag_def Let_def\<close>)

lemma UpdatePlaylistSong_uri: "UpdatePlaylistSong env song = Some (changed, song') \<Longrightarrow> ds_uri song' = ds_uri song"
  by (auto simp: UpdatePlaylistSong_def split: if_splits outcome.splits option.splits)

text \<open>The database answers with a song or an exception.\<close>

definition database_answers :: "play_env \<Rightarrow> bool" where
  "database_answers env \<longleftrightarrow> (\<forall>uri. (\<exists>e. pe_database env uri = Throws e) \<or> (\<exists>song. pe_database env uri = Returns (Some song)))"

lemma UpdatePlaylistSong_returns:
  assumes "database_answers env"
  obtains changed song' where "UpdatePlaylistSong env song = Some (changed, song')" "ds_uri song' = ds_uri song"
proof -
  have "UpdatePlaylistSong env song \<noteq> None"
    using spec [OF assms [unfolded database_answers_def], of "ds_uri song"] by (auto simp: UpdatePlaylistSong_def)
  then show thesis using that UpdatePlaylistSong_uri by (metis option.exhaust surj_pair)
qed

lemma modify_song_const_view:
  "\<lbrakk>queue_ok q; pos < q_length q; ds_uri song = ds_uri (i_song (q_items q ! pos))\<rbrakk> \<Longrightarrow> same_view q (modify_song pos (\<lambda>_. song) q)"
  unfolding modify_song_def by (rule same_view_items) (auto simp: nth_list_update queue_ok_def shape_ok_def)

lemma database_modified_loop_view:
  assumes "database_answers env" "queue_ok q" "\<forall>i \<in> set is. i < q_length q"
  shows "ensures (database_modified_loop env is (m, q)) (\<lambda>(_, q'). same_view q q')"
  using assms(2,3)
proof (induction "is" arbitrary: m q)
  case (Cons i "is")
  obtain changed song where u: "UpdatePlaylistSong env (i_song (q_items q ! i)) = Some (changed, song)" "ds_uri song = ds_uri (i_song (q_items q ! i))"
    by (rule UpdatePlaylistSong_returns [OF assms(1)])
  let ?q1 = "modify_song i (\<lambda>_. song) q"
  have i: "i < q_length q" using Cons.prems(2) by simp
  have v1: "same_view q ?q1" by (rule modify_song_const_view [OF Cons.prems(1) i u(2)])
  then have "same_view ?q1 (ModifyAtPosition i ?q1)" using i by (intro same_view_ModifyAtPosition) (simp_all add: same_view_def)
  then have v2: "same_view q (ModifyAtPosition i ?q1)" by (rule same_view_trans [OF v1])
  have "ensures (database_modified_loop env is (m', q')) (\<lambda>(_, q''). same_view q q'')" if "same_view q q'" for m' q'
    by (rule ensures_mono [OF Cons.IH]) (use that Cons.prems same_view_trans [OF that] in \<open>auto simp: same_view_def\<close>)
  then show ?case using v1 v2 by (simp add: u(1) Let_def)
qed (simp add: same_view_refl)

lemma DatabaseModified_keeps:
  assumes "database_answers env" "play_ok p"
  shows "ensures (DatabaseModified env p) play_ok"
  unfolding DatabaseModified_def ensures_map
proof (rule ensures_mono [OF database_modified_loop_view [OF assms(1) play_ok_queue [OF assms(2)]]], goal_cases)
  case (2 x)
  obtain m q where x: "x = (m, q)" by (cases x)
  then have "play_ok (p\<lparr>p_queue := q\<rparr>)" using 2(2) by (intro play_ok_view(1) [OF assms(2)]) simp_all
  then show ?case using OnModified_ok(1) by (simp add: x)
qed simp

end
