(* ===== verification/Play_Correct.thy ===== *)
theory Play_Correct
  imports Play_Edits
begin

text \<open>
  All operations on the play state together: they return and keep the invariant, in every state that
  can be reached the indexes are in range and the player has been told of the right song, and edits
  follow the song that is being played. Two cases in which the code does not manage this are stated
  exactly.
\<close>

section \<open>All operations\<close>

text \<open>What is asked of the arguments, and the one state in which the player may not report.\<close>

fun op_ok :: "play_env \<Rightarrow> operation \<Rightarrow> playlist \<Rightarrow> bool" where
  "op_ok env OpSync p \<longleftrightarrow> \<not> consumes_last p"
| "op_ok env (OpMoveRange rng dest) p \<longleftrightarrow> move_args rng dest"
| "op_ok env (OpSetSongIdRange sid start_ms end_ms) p \<longleftrightarrow> 0 < sid"
| "op_ok env (OpAddTag sid tag_type value) p \<longleftrightarrow> 0 < sid"
| "op_ok env (OpClearTag sid tag_type) p \<longleftrightarrow> 0 < sid"
| "op_ok env OpDatabaseModified p \<longleftrightarrow> database_answers env"
| "op_ok env op p \<longleftrightarrow> True"

lemmas operations_keep =
  PlayAny_keeps PlayPosition_keeps PlayId_keeps PlayNext_keeps PlayPrevious_keeps Stop_keeps SeekSongPosition_keeps
  SeekSongId_keeps SeekCurrent_keeps SyncWithPlayer_keeps BorderPause_ok SetConsume_ok playlist_DeletePosition_keeps
  DeleteRange_keeps DeleteId_keeps StaleSong_keeps BeginBulk_ok CommitBulk_keeps playlist_SwapPositions_keeps SwapIds_keeps
  playlist_Shuffle_keeps playlist_SetPriorityRange_keeps SetPriorityId_keeps SetSongIdRange_keeps TagModified_keeps
  TagModified_uri_ok EditSongTag_keeps DatabaseModified_keeps

lemma option_changed_keeps: "ensures r (option_changed p) \<Longrightarrow> ensures r play_ok"
  by (erule ensures_mono) (simp add: option_changed_def)

lemma options_keep:
  assumes "play_env_ok env" "play_ok p"
  shows "ensures (SetRepeat env repeat_status p) play_ok" "ensures (SetSingle env single_status p) play_ok"
    "ensures (SetRandom env random_status p) play_ok"
  using option_changed_keeps [OF SetRepeat_correct [OF assms, of repeat_status]] option_changed_keeps [OF SetSingle_correct [OF assms, of single_status]]
    option_changed_keeps [OF SetRandom_correct [OF assms, of random_status]] assms(2)
  by (cases "repeat_status = q_repeat (p_queue p)"; cases "single_status = q_single (p_queue p)"; cases "random_status = q_random (p_queue p)";
      simp add: SetRepeat_def SetSingle_def SetRandom_def)+

lemma perform_keeps:
  assumes "play_env_ok env" "play_ok p" "op_ok env op p"
  shows "keeps (perform env op p)"
proof (cases op)
  case (OpAppend song)
  then show ?thesis by simp (rule ensures_mono [OF AppendSong_keeps [OF assms(1,2)]], auto)
next
  case OpClear
  then show ?thesis by simp (rule ensures_mono [OF playlist_Clear_keeps [OF assms(1,2)]], auto)
next
  case (OpMoveRange rng dest)
  then have "move_args rng dest" using assms(3) by simp
  then show ?thesis using OpMoveRange by simp (rule ensures_mono [OF playlist_MoveRange_correct [OF assms(1,2)]], auto)
qed (use assms options_keep [OF assms(1,2)] in \<open>simp_all add: operations_keep AddSongIdTag_def ClearSongIdTag_def\<close>)

inductive play_reach :: "play_env \<Rightarrow> nat \<Rightarrow> playlist \<Rightarrow> bool" for env max_length where
  new: "\<lbrakk>length its = max_length; length ord = max_length; length data = HASH_MULT * max_length\<rbrakk> \<Longrightarrow>
    play_reach env max_length (playlist_new (Queue_new its ord data) stop_on_error bulk_modified error_count)"
| step: "\<lbrakk>play_reach env max_length p; op_ok env op p; perform env op p = Some (e, p')\<rbrakk> \<Longrightarrow> play_reach env max_length p'"

lemma play_ok_new:
  assumes "0 < max_length" "max_length < 2 ^ 31" "length its = max_length" "length ord = max_length" "length data = HASH_MULT * max_length"
  shows "play_ok (playlist_new (Queue_new its ord data) stop_on_error bulk_modified error_count)"
  using queue_ok_new [OF assms(1,3-5)] assms(2,3)
  by (simp add: play_ok_def base_ok_def playlist_new_def Queue_new_def enqueues_ok_def pending_def)

lemma play_ok_reach:
  assumes "play_env_ok env" "0 < max_length" "max_length < 2 ^ 31" "play_reach env max_length p"
  shows "play_ok p"
  using assms(4)
proof (induction rule: play_reach.induct)
  case (new its ord data stop_on_error bulk_modified error_count)
  then show ?case by (intro play_ok_new [OF assms(2,3)])
next
  case (step p op e p')
  then show ?case using perform_keeps [OF assms(1) step.IH step.hyps(2)] by simp
qed

section \<open>An environment and two states for the examples\<close>

definition quiet_env :: play_env where
  "quiet_env =
     \<lparr>pe_sync = (\<lambda>_. (PLAY, False)), pe_state = (\<lambda>_. PLAY), pe_error = (\<lambda>_. ERROR_NONE), pe_status = (\<lambda>_. (PLAY, 0)),
      pe_throws = (\<lambda>_. None), pe_database = (\<lambda>_. Throws ''none''), pe_tag_mask = 0,
      rnd_shuffle = (\<lambda>_ _ xs. xs), rnd_pick = (\<lambda>_ a _. a), rnd_pick_each = (\<lambda>_ _ a _. a)\<rparr>"

lemma quiet_env_ok: "play_env_ok quiet_env" "database_answers quiet_env"
  by (simp_all add: play_env_ok_def quiet_env_def shuffler_ok_def picker_ok_def database_answers_def)

definition numbered_song :: "nat \<Rightarrow> DetachedSong Item" where
  "numbered_song n = \<lparr>i_song = DetachedSong_new (replicate n CHR ''s''), i_id = n, i_version = 1, i_priority = 0\<rparr>"

text \<open>The only song is being played, and is queued to be played again.\<close>

definition looping :: playlist where
  "looping =
     \<lparr>p_queue = \<lparr>q_max_length = 1, q_length = 1, q_version = 1, q_items = [numbered_song 1], q_order = [0],
        q_id_table = \<lparr>it_size = 4, it_initialized = 2, it_next = 2, it_data = [0, 0, 0, 0]\<rparr>,
        q_repeat = True, q_single = SINGLE_OFF, q_consume = CONSUME_OFF, q_random = False, q_last_loaded_playlist = []\<rparr>,
      p_playing = True, p_stop_on_error = False, p_bulk_edit = False, p_bulk_modified = False, p_error_count = 0,
      p_current = 0, p_queued = 0,
      p_commands = [Play (i_song (numbered_song 1)), Enqueue (i_song (numbered_song 1))], p_events = [], p_draws = 0\<rparr>"

text \<open>Four songs, of which the third is being played.\<close>

definition four_songs :: playlist where
  "four_songs =
     \<lparr>p_queue = \<lparr>q_max_length = 4, q_length = 4, q_version = 1, q_items = map numbered_song [1, 2, 3, 4], q_order = [0, 1, 2, 3],
        q_id_table = \<lparr>it_size = 16, it_initialized = 5, it_next = 5, it_data = [0, 0, 1, 2, 3] @ replicate 11 0\<rparr>,
        q_repeat = False, q_single = SINGLE_OFF, q_consume = CONSUME_OFF, q_random = False, q_last_loaded_playlist = []\<rparr>,
      p_playing = True, p_stop_on_error = False, p_bulk_edit = False, p_bulk_modified = False, p_error_count = 0,
      p_current = 2, p_queued = - 1,
      p_commands = [Play (i_song (numbered_song 3))], p_events = [], p_draws = 0\<rparr>"

lemma less_four: "n < (4 :: nat) \<longleftrightarrow> n = 0 \<or> n = 1 \<or> n = 2 \<or> n = 3" "n < (5 :: nat) \<longleftrightarrow> n = 0 \<or> n = 1 \<or> n = 2 \<or> n = 3 \<or> n = 4"
  by auto

lemma enqueues_ok_Nil [simp]: "enqueues_ok []"
  by (simp add: enqueues_ok_def)

lemma looping_ok: "play_ok looping"
proof -
  have "queue_ok (p_queue looping)"
    by (simp add: queue_ok_def shape_ok_def linked_ids_def order_ok_def table_ok_def HASH_MULT_def PositionToId_def looping_def numbered_song_def)
  moreover have "enqueues_ok ([] @ [Play s, Enqueue s'])" for s s'
    unfolding enqueues_ok_two using enqueues_ok_snoc [of "[]" "Play s"] by simp
  moreover have "announced ([] @ [Play s, Enqueue s']) = Some (ds_uri s')" for s s' unfolding two_commands by simp
  ultimately show ?thesis
    by (simp add: play_ok_def base_ok_def) (simp add: looping_def item_uri_def OrderToPosition_def)
qed

lemma four_songs_ok: "play_ok four_songs"
proof -
  let ?q = "p_queue four_songs"
  have "[0..<4] = [0, 1, 2, 3 :: nat]" by code_simp
  then have "order_ok ?q" by (simp add: order_ok_def four_songs_def)
  moreover have "shape_ok ?q" by (simp add: shape_ok_def table_ok_def HASH_MULT_def four_songs_def)
  moreover have "linked_ids ?q"
  proof -
    have len: "q_length ?q = 4" "it_initialized (q_id_table ?q) = 5" by (simp_all add: four_songs_def)
    have ids: "PositionToId ?q p = p + 1" if "p < 4" for p
      using that by (auto simp: less_four PositionToId_def four_songs_def numbered_song_def)
    have data: "it_data (q_id_table ?q) ! (p + 1) = int p" if "p < 4" for p
      using that by (auto simp: less_four four_songs_def)
    show ?thesis
      unfolding linked_ids_def len
    proof (intro conjI allI impI)
      fix n :: nat assume "0 < n \<and> n < 5 \<and> 0 \<le> it_data (q_id_table ?q) ! n"
      then show "\<exists>p < 4. PositionToId ?q p = n" using ids [of "n - 1"] by (intro exI [of _ "n - 1"]) auto
    qed (use ids data in auto)
  qed
  ultimately have "queue_ok ?q" by (simp add: queue_ok_def)
  moreover have "enqueues_ok [Play s]" "pending [Play s] = None" for s
    using enqueues_ok_snoc [of "[]" "Play s"] by (simp_all add: pending_def)
  ultimately show ?thesis
    by (simp add: play_ok_def base_ok_def) (simp add: four_songs_def)
qed

section \<open>Properties\<close>

text \<open>
  Property C13 (invariant): every operation that clients, the player, the database or the partition ask
  of the playlist returns, without ever reading outside of the songs of the queue, and keeps the
  invariant. Asked of the arguments are an id other than 0 where a song is edited, a destination that
  does not overflow for \<open>MoveRange\<close>, and that the database answers; excluded is the report of the
  player in the state \<open>consumes_last\<close>.
\<close>

theorem play_operations_keep:
  assumes "play_env_ok env" "play_ok p" "op_ok env op p"
  shows "\<exists>e p'. perform env op p = Some (e, p') \<and> play_ok p'"
  using perform_keeps [OF assms] by (auto simp: ensures_def)

theorem play_operations_keep_witness:
  "play_ok four_songs \<and> (\<exists>e p'. perform quiet_env (OpMoveRange \<lparr>range_start = 0, range_end = 2\<rparr> 2) four_songs = Some (e, p') \<and> play_ok p')"
  using play_operations_keep [OF quiet_env_ok(1) four_songs_ok, of "OpMoveRange \<lparr>range_start = 0, range_end = 2\<rparr> 2"] four_songs_ok
  by (simp add: move_args_def RangeArg_IsWellFormed_def RangeArg_Count_def)



text \<open>
  The operations that are to leave the song being played alone: those on other songs, on the order of the songs
  and on the modes. Of the moves outside of random mode only those for which the code manages
  it are among them: \<open>lost_by_move\<close> are the others, where a range before the current song is moved and one of its songs
  other than the first comes to the position that the current song had.
\<close>

fun keeps_current :: "operation \<Rightarrow> playlist \<Rightarrow> bool" where
  "keeps_current (OpSwap song1 song2) p \<longleftrightarrow> True"
| "keeps_current (OpSwapIds id1 id2) p \<longleftrightarrow> True"
| "keeps_current (OpShuffle rng) p \<longleftrightarrow> True"
| "keeps_current (OpSetPriorityRange rng priority) p \<longleftrightarrow> True"
| "keeps_current (OpSetPriorityId sid priority) p \<longleftrightarrow> True"
| "keeps_current (OpSetRepeat status) p \<longleftrightarrow> True"
| "keeps_current (OpSetSingle mode) p \<longleftrightarrow> True"
| "keeps_current (OpSetRandom status) p \<longleftrightarrow> True"
| "keeps_current (OpDeletePosition song) p \<longleftrightarrow> current_id p \<noteq> Some (PositionToId (p_queue p) song)"
| "keeps_current (OpMoveRange rng dest) p \<longleftrightarrow>
     move_args rng dest \<and> (q_random (p_queue p) \<or> \<not> lost_by_move rng dest (nat (p_current p)))"
| "keeps_current op p \<longleftrightarrow> False"

definition follows :: "playlist \<Rightarrow> play_error option \<times> playlist \<Rightarrow> bool" where
  "follows p r \<longleftrightarrow> (case r of (e, p') \<Rightarrow> p_playing p' \<and> current_id p' = current_id p \<and>
     (p' \<noteq> p \<and> \<not> p_bulk_edit p \<longrightarrow> queued_next p'))"

lemma follows_refl: "p_playing p \<Longrightarrow> follows p (e, p)"
  by (simp add: follows_def)

lemma edited_follows: "\<lbrakk>ensures r (\<lambda>(e, p'). edited p (e, p') \<or> p' = p); p_playing p\<rbrakk> \<Longrightarrow> ensures r (follows p)"
  by (erule ensures_mono) (auto simp: edited_def follows_def)

lemma option_follows: "\<lbrakk>ensures r (option_changed p); p_playing p\<rbrakk> \<Longrightarrow> ensures (no_throw r) (follows p)"
  by (simp, erule ensures_mono) (auto simp: option_changed_def follows_def)

lemma swap_follows:
  assumes "play_env_ok env" "play_ok p" "p_playing p"
  shows "ensures (playlist_SwapPositions env song1 song2 p) (follows p)"
proof (cases "song1 < q_length (p_queue p) \<and> song2 < q_length (p_queue p)")
  case True
  then have "ensures (playlist_SwapPositions env song1 song2 p) (edited p)" using playlist_SwapPositions_correct [OF assms(1,2)] by simp
  then show ?thesis by (rule ensures_mono) (use assms(3) in \<open>auto simp: edited_def follows_def\<close>)
qed (use assms(3) in \<open>auto simp: playlist_SwapPositions_def follows_refl\<close>)

lemma options_follow:
  assumes "play_env_ok env" "play_ok p" "p_playing p"
  shows "ensures (no_throw (SetRepeat env repeat_status p)) (follows p)" "ensures (no_throw (SetSingle env single_status p)) (follows p)"
    "ensures (no_throw (SetRandom env random_status p)) (follows p)"
proof -
  show "ensures (no_throw (SetRepeat env repeat_status p)) (follows p)"
    using option_follows [OF SetRepeat_correct [OF assms(1,2)] assms(3)] follows_refl [OF assms(3)]
    by (cases "repeat_status = q_repeat (p_queue p)") (simp_all add: SetRepeat_def)
  show "ensures (no_throw (SetSingle env single_status p)) (follows p)"
    using option_follows [OF SetSingle_correct [OF assms(1,2)] assms(3)] follows_refl [OF assms(3)]
    by (cases "single_status = q_single (p_queue p)") (simp_all add: SetSingle_def)
  show "ensures (no_throw (SetRandom env random_status p)) (follows p)"
    using option_follows [OF SetRandom_correct [OF assms(1,2)] assms(3), of random_status] follows_refl [OF assms(3)]
    by (cases "random_status = q_random (p_queue p)") (simp_all add: SetRandom_def)
qed

lemma perform_follows:
  assumes "play_env_ok env" "play_ok p" "p_playing p" "keeps_current op p"
  shows "ensures (perform env op p) (follows p)"
proof (cases op)
  case (OpDeletePosition song)
  then have c: "current_id p \<noteq> Some (PositionToId (p_queue p) song)" using assms(4) by simp
  have "ensures (playlist_DeletePosition env song p) (follows p)"
    by (rule ensures_mono [OF playlist_DeletePosition_correct [OF assms(1,2)]]) (use c assms(3) in \<open>auto simp: follows_def\<close>)
  then show ?thesis using OpDeletePosition by simp
next
  case (OpMoveRange rng dest)
  then have m: "move_args rng dest" "q_random (p_queue p) \<or> \<not> lost_by_move rng dest (nat (p_current p))" using assms(4) by simp_all
  have "0 \<le> p_current p" using assms(2,3) by (simp add: play_ok_def base_ok_def)
  then have "ensures (playlist_MoveRange env rng dest p) (follows p)"
    by (intro ensures_mono [OF playlist_MoveRange_correct [OF assms(1,2) m(1)]]) (use m(2) assms(3) in \<open>auto simp: follows_def split: if_splits\<close>)
  then show ?thesis using OpMoveRange by simp
qed (use assms swap_follows [OF assms(1-3)] options_follow [OF assms(1-3)] edited_follows [OF playlist_Shuffle_correct [OF assms(1,2)] assms(3)]
      edited_follows [OF playlist_SetPriorityRange_correct [OF assms(1,2)] assms(3)] follows_refl [OF assms(3)]
    in \<open>simp_all add: SwapIds_def SetPriorityId_def Let_def\<close>)



text \<open>
  Property C17 (error): outside of random mode, \<open>MoveRange\<close> adjusts the order number of the current song
  with the test \<open>current <= to\<close>, where the songs behind the range that have to give way are those up to
  \<open>to + Count() - 1\<close>. A move that is carried out therefore changes which song is current exactly when
  that song is one of those in between.
\<close>

theorem MoveRange_loses_current:
  assumes "play_env_ok env" "play_ok p" "p_playing p" "\<not> q_random (p_queue p)" "move_args rng dest"
    and "perform env (OpMoveRange rng dest) p = Some (None, p')" "range_start rng \<noteq> dest"
  shows "current_id p' \<noteq> current_id p \<longleftrightarrow>
    int (unat (range_end rng)) \<le> p_current p \<and> int (unat dest) < p_current p \<and>
    p_current p < int (unat dest) + int (unat (range_end rng)) - int (unat (range_start rng))"
proof -
  have c: "0 \<le> p_current p" using assms(2,3) by (simp add: play_ok_def base_ok_def)
  have w: "unat (range_start rng) \<le> unat (range_end rng)"
    using assms(5) by (simp add: move_args_def RangeArg_IsWellFormed_def word_le_nat_alt)
  have "current_id p' = current_id p \<longleftrightarrow> \<not> lost_by_move rng dest (nat (p_current p))"
    using playlist_MoveRange_correct [OF assms(1,2,5)] assms(4,6,7) c by simp
  moreover have "lost_by_move rng dest (nat (p_current p)) \<longleftrightarrow> int (unat (range_end rng)) \<le> p_current p \<and> int (unat dest) < p_current p \<and>
    p_current p < int (unat dest) + int (unat (range_end rng)) - int (unat (range_start rng))"
    using c w unfolding lost_by_move_def by linarith
  ultimately show ?thesis by blast
qed

theorem MoveRange_loses_current_witness:
  "\<exists>p'. perform quiet_env (OpMoveRange \<lparr>range_start = 0, range_end = 2\<rparr> 1) four_songs = Some (None, p') \<and>
     current_id p' \<noteq> current_id four_songs"
proof -
  let ?rng = "\<lparr>range_start = 0, range_end = 2\<rparr> :: RangeArg"
  have four: "p_playing four_songs" "\<not> q_random (p_queue four_songs)" "p_current four_songs = 2" "q_length (p_queue four_songs) = 4"
    by (simp_all add: four_songs_def)
  have args: "move_args ?rng 1" by (simp add: move_args_def RangeArg_IsWellFormed_def RangeArg_Count_def)
  obtain e p' where p': "perform quiet_env (OpMoveRange ?rng 1) four_songs = Some (e, p')"
    using perform_keeps [OF quiet_env_ok(1) four_songs_ok, of "OpMoveRange ?rng 1"] args by (auto simp: ensures_def)
  have "e = None"
  proof -
    obtain prev where "GetQueuedSong four_songs = Some prev" using GetQueuedSong_mid [OF four_songs_ok] by (auto simp: ensures_def)
    then show ?thesis
      using p' four(4) by (auto simp: playlist_MoveRange_def Let_def RangeArg_Count_def finish_edit_def no_throw_def)
  qed
  then show ?thesis
    using MoveRange_loses_current [OF quiet_env_ok(1) four_songs_ok four(1,2) args] p' four(3) by (intro exI [of _ p']) simp
qed

lemma DeleteInternal_current_last:
  assumes "base_ok p" "p_playing p" "p_current p = int i" "GetNextOrder (p_queue p) i < 0"
  shows "DeleteInternal_current env (int i) p =
    Some ((tell CloseAudio ((tell (GetState (pe_state env (p_commands p))) p)\<lparr>p_current := - 1\<rparr>))\<lparr>p_playing := False\<rparr>)"
proof -
  have "i < q_length (p_queue p)" using assms(1,3) by (simp add: base_ok_def)
  then have "GetNextOrder (p_queue p) i = - 1" using GetNextOrder_range [of i "p_queue p"] assms(4) by simp
  then show ?thesis using assms(3) by (simp add: DeleteInternal_current_def Let_def)
qed

lemma delete_last_current:
  assumes "play_ok p" "p_playing p" "p_current p = int i" "p_queued p = - 1" "GetNextOrder (p_queue p) i < 0"
  shows "ensures (DeleteOrder env (int i) p) (\<lambda>(e, p'). p_current p' = - 1)"
proof -
  let ?q = "p_queue p"
  have i: "i < q_length ?q" and q: "queue_ok ?q" using assms(1,3) by (simp_all add: play_ok_def base_ok_def)
  let ?pos = "OrderToPosition ?q i"
  have pos: "?pos < q_length ?q" by (rule order_position_bound [OF q i])
  obtain j where j: "PositionToOrder ?q ?pos = Some j" "j < q_length ?q" "OrderToPosition ?q j = ?pos"
    by (rule PositionToOrder_correct [OF q pos])
  have "j = i" by (rule order_unique [OF q j(2) i j(3)])
  obtain q' where d: "DeletePosition ?pos ?q = Some q'" by (rule DeletePosition_songs [OF q j])
  show ?thesis
    using i pos j(1) d assms(2-4) DeleteInternal_current_last [OF play_ok_base [OF assms(1)] assms(2,3,5), of env]
    by (simp add: DeleteOrder_def playlist_DeletePosition_def GetQueuedSong_def DeleteInternal_def Let_def UpdateQueuedSong_def \<open>j = i\<close>)
qed

text \<open>
  Property C18 (error): when the player reports that it has started the queued song, the queued song is
  the current one, consume mode has been switched on in the meantime and no song follows, then
  \<open>QueuedSongStarted\<close> deletes the song that has just begun and \<open>SongStarted\<close> looks up the order number
  - 1: the array is read out of range.
\<close>

theorem SyncWithPlayer_consumes_last:
  assumes "play_ok p" "consumes_last p" "pe_sync env (p_commands p) = (st, False)" "st \<noteq> STOP"
  shows "SyncWithPlayer env p = None"
proof -
  have c: "p_playing p" "p_queued p = p_current p" "0 \<le> p_current p" "q_consume (p_queue p) \<noteq> CONSUME_OFF"
    "GetNextOrder (p_queue p) (nat (p_current p)) < 0"
    using assms(1,2) by (simp_all add: consumes_last_def play_ok_def base_ok_def)
  let ?p = "tell (SyncInfo st False) p"
  let ?p1 = "?p\<lparr>p_current := p_queued ?p, p_queued := - 1\<rparr>"
  have "play_ok ?p1"
    using play_ok_sync [OF assms(1), of st False] c(2) by (simp add: play_ok_def base_ok_def)
  then have "ensures (DeleteOrder env (int (nat (p_current p))) ?p1) (\<lambda>(e, p'). p_current p' = - 1)"
    by (rule delete_last_current) (use c in simp_all)
  then obtain e p2 where p2: "DeleteOrder env (p_current p) ?p1 = Some (e, p2)" "p_current p2 = - 1"
    using c(3) by (auto simp: ensures_def)
  have "QueuedSongStarted env ?p = None"
    using p2 c(2,4) by (simp add: QueuedSongStarted_def Let_def catch_all_def SongStarted_def order_position_def)
  then show ?thesis using assms(3,4) c(1-3) by (simp add: SyncWithPlayer_def Let_def)
qed

theorem SyncWithPlayer_consumes_last_witness:
  "play_ok looping \<and> \<not> consumes_last looping \<and> SyncWithPlayer quiet_env (SetConsume CONSUME_ON looping) = None"
proof -
  have "consumes_last (SetConsume CONSUME_ON looping)" "\<not> consumes_last looping"
    by (simp_all add: consumes_last_def SetConsume_def looping_def GetNextOrder_def notify_def)
  then show ?thesis
    using SyncWithPlayer_consumes_last [OF SetConsume_ok [OF looping_ok], of CONSUME_ON quiet_env PLAY] looping_ok
    by (simp add: quiet_env_def)
qed

end
