(* ===== verification/Queue_Commands.thy ===== *)
theory Queue_Commands
  imports Play_Correct
begin

text \<open>
  protocol/ArgParser.cxx, command/PositionArg.cxx and the commands of command/QueueCommands.cxx that
  edit the queue: what a client's arguments become, and what the playlist is asked to do. A result
  \<open>None\<close> is that of the playlist, an access outside of an array; the number of arguments has been
  checked by the caller against the table of commands.
\<close>

section \<open>Arguments (protocol/ArgParser.cxx)\<close>

datatype ack =
    ACK_ERROR_NOT_LIST | ACK_ERROR_ARG | ACK_ERROR_PASSWORD | ACK_ERROR_PERMISSION | ACK_ERROR_UNKNOWN
  | ACK_ERROR_NO_EXIST | ACK_ERROR_PLAYLIST_MAX | ACK_ERROR_SYSTEM | ACK_ERROR_PLAYLIST_LOAD
  | ACK_ERROR_UPDATE_ALREADY | ACK_ERROR_PLAYER_SYNC | ACK_ERROR_EXIST

datatype command_error = ProtocolError ack string | PlaylistFailed play_error

text \<open>The message is formatted into a buffer of 256 characters.\<close>

definition MakeArgError :: "string \<Rightarrow> string \<Rightarrow> command_error" where
  "MakeArgError msg value = ProtocolError ACK_ERROR_ARG (take 255 (msg @ '': '' @ value))"

definition ParseCommandArgU32 :: "string \<Rightarrow> command_error + 32 word" where
  "ParseCommandArgU32 s =
     (case strtoul s of (value, test) \<Rightarrow>
        if test = s \<or> test \<noteq> [] then Inl (MakeArgError ''Integer expected'' s) else Inr (word_of_nat value))"

definition ParseCommandArgInt :: "int \<Rightarrow> int \<Rightarrow> string \<Rightarrow> command_error + int" where
  "ParseCommandArgInt min_value max_value s =
     (case strtol s of (value, test) \<Rightarrow>
        if test = s \<or> test \<noteq> [] then Inl (MakeArgError ''Integer expected'' s)
        else if value < min_value \<or> max_value < value then Inl (MakeArgError ''Number too large'' s)
        else Inr value)"

definition RangeArg_OpenEnded :: "32 word \<Rightarrow> RangeArg" where
  "RangeArg_OpenEnded start = \<lparr>range_start = start, range_end = - 1\<rparr>"

definition RangeArg_Single :: "32 word \<Rightarrow> RangeArg" where
  "RangeArg_Single i = \<lparr>range_start = i, range_end = i + 1\<rparr>"

definition RangeArg_IsOpenEnded :: "RangeArg \<Rightarrow> bool" where
  "RangeArg_IsOpenEnded r \<longleftrightarrow> range_end r = - 1"

text \<open>The number behind the colon, and the range.\<close>

definition ParseCommandArgRange_end :: "string \<Rightarrow> 32 word \<Rightarrow> string \<Rightarrow> command_error + RangeArg" where
  "ParseCommandArgRange_end s start rest =
     (case strtol rest of (value, test2) \<Rightarrow>
        if test2 \<noteq> [] then Inl (MakeArgError ''Integer or range expected'' s)
        else if rest = test2 then Inr (RangeArg_OpenEnded start)
        else if value < 0 then Inl (MakeArgError ''Number is negative'' s)
        else if 2 ^ 31 - 1 < value then Inl (MakeArgError ''Number too large'' s)
        else
          let r = \<lparr>range_start = start, range_end = word_of_int value\<rparr> in
          if \<not> RangeArg_IsWellFormed r then Inl (MakeArgError ''Malformed range'' s) else Inr r)"

definition ParseCommandArgRange :: "string \<Rightarrow> command_error + RangeArg" where
  "ParseCommandArgRange s =
     (case strtol s of (value, test) \<Rightarrow>
        if test = s \<or> (test \<noteq> [] \<and> hd test \<noteq> CHR '':'') then Inl (MakeArgError ''Integer or range expected'' s)
        else if value = - 1 \<and> test = [] then Inr RangeArg_All
        else if value < 0 then Inl (MakeArgError ''Number is negative'' s)
        else if 2 ^ 31 - 1 < value then Inl (MakeArgError ''Number too large'' s)
        else if test \<noteq> [] then ParseCommandArgRange_end s (word_of_int value) (tl test)
        else Inr (RangeArg_Single (word_of_int value)))"

definition ParseCommandArgUnsigned :: "32 word \<Rightarrow> string \<Rightarrow> command_error + 32 word" where
  "ParseCommandArgUnsigned max_value s =
     (case strtoul s of (value, endptr) \<Rightarrow>
        if endptr = s \<or> endptr \<noteq> [] then Inl (MakeArgError ''Integer expected'' s)
        else if unat max_value < value then Inl (MakeArgError ''Number too large'' s)
        else Inr (word_of_nat value))"

definition ParseCommandArgBool :: "string \<Rightarrow> command_error + bool" where
  "ParseCommandArgBool s =
     (case strtol s of (value, endptr) \<Rightarrow>
        if endptr = s \<or> endptr \<noteq> [] \<or> (value \<noteq> 0 \<and> value \<noteq> 1) then Inl (MakeArgError ''Boolean (0/1) expected'' s)
        else Inr (value \<noteq> 0))"

section \<open>Positions in the queue (command/PositionArg.cxx)\<close>

definition RequireCurrentPosition :: "playlist \<Rightarrow> (command_error + 32 word) option" where
  "RequireCurrentPosition p =
     map_option (\<lambda>position. if position < 0 then Inl (ProtocolError ACK_ERROR_PLAYER_SYNC ''No current song'') else Inr (word_of_int position))
       (GetCurrentPosition p)"

definition queue_length :: "playlist \<Rightarrow> 32 word" where
  "queue_length p = word_of_nat (q_length (p_queue p))"

text \<open>All numbers are unsigned and wrap around.\<close>

definition ParseInsertPosition :: "string \<Rightarrow> playlist \<Rightarrow> (command_error + 32 word) option" where
  "ParseInsertPosition s p =
     (case s of
        CHR ''+'' # t \<Rightarrow>
          map_option (\<lambda>r. case r of Inl e \<Rightarrow> Inl e
            | Inr current \<Rightarrow> map_sum (\<lambda>e. e) (\<lambda>n. current + 1 + n) (ParseCommandArgUnsigned (queue_length p - current - 1) t))
            (RequireCurrentPosition p)
      | CHR ''-'' # t \<Rightarrow>
          map_option (\<lambda>r. case r of Inl e \<Rightarrow> Inl e
            | Inr current \<Rightarrow> map_sum (\<lambda>e. e) (\<lambda>n. current - n) (ParseCommandArgUnsigned current t))
            (RequireCurrentPosition p)
      | _ \<Rightarrow> Some (ParseCommandArgUnsigned (queue_length p) s))"

text \<open>The current song as it will be once the range has been taken out.\<close>

definition relative_to :: "RangeArg \<Rightarrow> playlist \<Rightarrow> (command_error + 32 word) option" where
  "relative_to rng p =
     map_option (\<lambda>r. case r of Inl e \<Rightarrow> Inl e
       | Inr current \<Rightarrow>
           if RangeArg_Contains rng current then Inl (ProtocolError ACK_ERROR_ARG ''Cannot move current song relative to itself'')
           else Inr (if range_end rng \<le> current then current - RangeArg_Count rng else current))
       (RequireCurrentPosition p)"

definition ParseMoveDestination :: "string \<Rightarrow> RangeArg \<Rightarrow> playlist \<Rightarrow> (command_error + 32 word) option" where
  "ParseMoveDestination s rng p =
     (case s of
        CHR ''+'' # t \<Rightarrow>
          map_option (\<lambda>r. case r of Inl e \<Rightarrow> Inl e
            | Inr current \<Rightarrow> map_sum (\<lambda>e. e) (\<lambda>n. current + 1 + n)
                (ParseCommandArgUnsigned (queue_length p - current - RangeArg_Count rng) t))
            (relative_to rng p)
      | CHR ''-'' # t \<Rightarrow>
          map_option (\<lambda>r. case r of Inl e \<Rightarrow> Inl e
            | Inr current \<Rightarrow> map_sum (\<lambda>e. e) (\<lambda>n. current - n)
                (ParseCommandArgUnsigned (queue_length p - current - RangeArg_Count rng) t))
            (relative_to rng p)
      | _ \<Rightarrow> Some (ParseCommandArgUnsigned (queue_length p - RangeArg_Count rng) s))"

section \<open>Commands (command/QueueCommands.cxx)\<close>

type_synonym command_result = "(command_error option \<times> playlist) option"

definition of_playlist :: "play_result \<Rightarrow> command_result" where
  "of_playlist r = map_option (\<lambda>(e, p). (map_option PlaylistFailed e, p)) r"

text \<open>An argument is parsed, or the command fails without effect.\<close>

definition parsed :: "command_error + 'a \<Rightarrow> playlist \<Rightarrow> ('a \<Rightarrow> command_result) \<Rightarrow> command_result" where
  "parsed r p f = (case r of Inl e \<Rightarrow> Some (Some e, p) | Inr x \<Rightarrow> f x)"

definition handle_delete :: "play_env \<Rightarrow> string \<Rightarrow> playlist \<Rightarrow> command_result" where
  "handle_delete env arg p = parsed (ParseCommandArgRange arg) p (\<lambda>rng. of_playlist (DeleteRange env rng p))"

definition handle_deleteid :: "play_env \<Rightarrow> string \<Rightarrow> playlist \<Rightarrow> command_result" where
  "handle_deleteid env arg p = parsed (ParseCommandArgUnsigned (- 1) arg) p (\<lambda>sid. of_playlist (DeleteId env (unat sid) p))"

definition handle_shuffle :: "play_env \<Rightarrow> string option \<Rightarrow> playlist \<Rightarrow> command_result" where
  "handle_shuffle env arg p =
     parsed (case arg of None \<Rightarrow> Inr RangeArg_All | Some s \<Rightarrow> ParseCommandArgRange s) p
       (\<lambda>rng. of_playlist (playlist_Shuffle env rng p))"

definition handle_clear :: "play_env \<Rightarrow> playlist \<Rightarrow> command_result" where
  "handle_clear env p = of_playlist (no_throw (playlist_Clear env p))"

text \<open>An exception ends the loop; what has been done before stays.\<close>

fun for_each_arg :: "(string \<Rightarrow> playlist \<Rightarrow> command_result) \<Rightarrow> string list \<Rightarrow> playlist \<Rightarrow> command_result" where
  "for_each_arg f [] p = Some (None, p)"
| "for_each_arg f (i # is) p =
     (case f i p of Some (None, p') \<Rightarrow> for_each_arg f is p' | r \<Rightarrow> r)"

definition handle_prio :: "play_env \<Rightarrow> string \<Rightarrow> string list \<Rightarrow> playlist \<Rightarrow> command_result" where
  "handle_prio env prio args p =
     parsed (ParseCommandArgUnsigned 255 prio) p (\<lambda>priority.
       for_each_arg (\<lambda>i p. parsed (ParseCommandArgRange i) p
         (\<lambda>rng. of_playlist (playlist_SetPriorityRange env rng (ucast priority) p))) args p)"

definition handle_prioid :: "play_env \<Rightarrow> string \<Rightarrow> string list \<Rightarrow> playlist \<Rightarrow> command_result" where
  "handle_prioid env prio args p =
     parsed (ParseCommandArgUnsigned 255 prio) p (\<lambda>priority.
       for_each_arg (\<lambda>i p. parsed (ParseCommandArgUnsigned (- 1) i) p
         (\<lambda>sid. of_playlist (SetPriorityId env (unat sid) (ucast priority) p))) args p)"

definition handle_move_to :: "play_env \<Rightarrow> RangeArg \<Rightarrow> string \<Rightarrow> playlist \<Rightarrow> command_result" where
  "handle_move_to env rng dest p =
     do {
       r \<leftarrow> ParseMoveDestination dest rng p;
       parsed r p (\<lambda>position. of_playlist (playlist_MoveRange env rng position p))
     }"

definition handle_move :: "play_env \<Rightarrow> string \<Rightarrow> string \<Rightarrow> playlist \<Rightarrow> command_result" where
  "handle_move env arg dest p =
     parsed (ParseCommandArgRange arg) p (\<lambda>rng.
       if RangeArg_IsOpenEnded rng then Some (Some (ProtocolError ACK_ERROR_ARG ''Open-ended range not supported''), p)
       else handle_move_to env rng dest p)"

definition handle_moveid :: "play_env \<Rightarrow> string \<Rightarrow> string \<Rightarrow> playlist \<Rightarrow> command_result" where
  "handle_moveid env arg dest p =
     parsed (ParseCommandArgUnsigned (- 1) arg) p (\<lambda>sid.
       let position = Queue_IdToPosition (p_queue p) (unat sid) in
       if position < 0 then Some (Some (ProtocolError ACK_ERROR_NO_EXIST ''No such song''), p)
       else handle_move_to env (RangeArg_Single (word_of_int position)) dest p)"

definition handle_swap :: "play_env \<Rightarrow> string \<Rightarrow> string \<Rightarrow> playlist \<Rightarrow> command_result" where
  "handle_swap env arg1 arg2 p =
     parsed (ParseCommandArgUnsigned (- 1) arg1) p (\<lambda>song1.
     parsed (ParseCommandArgUnsigned (- 1) arg2) p (\<lambda>song2.
       of_playlist (playlist_SwapPositions env (unat song1) (unat song2) p)))"

definition handle_swapid :: "play_env \<Rightarrow> string \<Rightarrow> string \<Rightarrow> playlist \<Rightarrow> command_result" where
  "handle_swapid env arg1 arg2 p =
     parsed (ParseCommandArgUnsigned (- 1) arg1) p (\<lambda>id1.
     parsed (ParseCommandArgUnsigned (- 1) arg2) p (\<lambda>id2.
       of_playlist (SwapIds env (unat id1) (unat id2) p)))"

section \<open>Parsed arguments\<close>

lemma unat_less_32: "unat (w :: 32 word) < 2 ^ 32"
  by (rule order_less_le_trans [OF unsigned_less]) simp

lemma ParseCommandArgUnsigned_bound: "ParseCommandArgUnsigned m s = Inr v \<Longrightarrow> v \<le> m"
proof -
  assume *: "ParseCommandArgUnsigned m s = Inr v"
  then obtain n where n: "n \<le> unat m" "v = word_of_nat n"
    by (auto simp: ParseCommandArgUnsigned_def not_less split: prod.splits if_splits)
  have "n < 2 ^ 32" using n(1) unat_less_32 [of m] by simp
  then have "unat v = n" using n(2) by (simp add: unat_of_nat)
  then show "v \<le> m" using n(1) by (simp add: word_le_nat_alt)
qed

lemma map_sum_Inr: "map_sum (\<lambda>e. e) f r = Inr x \<longleftrightarrow> (\<exists>v. r = Inr v \<and> x = f v)"
  by (cases r) auto

lemma ParseCommandArgUnsigned_fmt:
  assumes "n \<le> unat m"
  shows "ParseCommandArgUnsigned m (fmt_uint n) = Inr (word_of_nat n)"
proof -
  have "n < 2 ^ 64" using assms unat_less_32 [of m] by simp
  moreover have "[] \<noteq> fmt_uint n" using scan_number_fmt_uint_end [of n] by (auto simp: scan_number_def)
  ultimately show ?thesis using assms by (simp add: ParseCommandArgUnsigned_def strtoul_fmt_uint del: fmt_uint.simps)
qed

lemma word_of_int_small: "\<lbrakk>0 \<le> x; x < 2 ^ 32\<rbrakk> \<Longrightarrow> unat (word_of_int x :: 32 word) = nat x"
  by (simp add: unat_eq_nat_uint uint_word_of_int)

text \<open>
  What \<open>ParseCommandArgRange\<close> returns for any string is a well-formed range, so that \<open>Count\<close> is never
  called on a malformed one.
\<close>

lemma ParseCommandArgRange_wf:
  assumes "ParseCommandArgRange s = Inr r"
  shows "RangeArg_IsWellFormed r" "unat (range_start r) < 2 ^ 31" "RangeArg_IsOpenEnded r \<or> unat (range_end r) \<le> 2 ^ 31"
proof -
  obtain val test where st: "strtol s = (val, test)" by (cases "strtol s")
  have max: "x \<le> - 1" for x :: "32 word" by simp
  show "RangeArg_IsWellFormed r" "unat (range_start r) < 2 ^ 31" "RangeArg_IsOpenEnded r \<or> unat (range_end r) \<le> 2 ^ 31"
  proof -
    consider (all) "r = RangeArg_All" | (start_only) "0 \<le> val" "val < 2 ^ 31" "r = RangeArg_Single (word_of_int val)"
      | (both) "0 \<le> val" "val < 2 ^ 31" "ParseCommandArgRange_end s (word_of_int val) (tl test) = Inr r"
    proof -
      have "r = RangeArg_All \<or> (0 \<le> val \<and> val < 2 ^ 31 \<and> r = RangeArg_Single (word_of_int val)) \<or>
          (0 \<le> val \<and> val < 2 ^ 31 \<and> ParseCommandArgRange_end s (word_of_int val) (tl test) = Inr r)"
        using assms unfolding ParseCommandArgRange_def st prod.case by (simp split: if_split_asm)
      then show thesis using that by blast
    qed
    then have "RangeArg_IsWellFormed r \<and> unat (range_start r) < 2 ^ 31 \<and> (RangeArg_IsOpenEnded r \<or> unat (range_end r) \<le> 2 ^ 31)"
    proof cases
      case all
      then show ?thesis by (simp add: RangeArg_All_def RangeArg_IsWellFormed_def RangeArg_IsOpenEnded_def)
    next
      case start_only
      then have v: "unat (word_of_int val :: 32 word) = nat val" "nat val < 2 ^ 31" using word_of_int_small [of val] by auto
      then have "unat ((word_of_int val :: 32 word) + 1) = nat val + 1"
        by (subst unat_add_lem [THEN iffD1]) simp_all
      then show ?thesis using v start_only(3) by (simp add: RangeArg_Single_def RangeArg_IsWellFormed_def word_le_nat_alt)
    next
      case both
      then have v: "unat (word_of_int val :: 32 word) = nat val" "nat val < 2 ^ 31" using word_of_int_small [of val] by auto
      obtain val2 test2 where st2: "strtol (tl test) = (val2, test2)" by (cases "strtol (tl test)")
      from both(3) show ?thesis
        using v word_of_int_small [of val2]
        by (auto simp: ParseCommandArgRange_end_def st2 Let_def RangeArg_OpenEnded_def RangeArg_IsWellFormed_def RangeArg_IsOpenEnded_def
            split: if_splits)
    qed
    then show "RangeArg_IsWellFormed r" "unat (range_start r) < 2 ^ 31" "RangeArg_IsOpenEnded r \<or> unat (range_end r) \<le> 2 ^ 31" by simp_all
  qed
qed

lemma unat_queue_length: "play_ok p \<Longrightarrow> unat (queue_length p) = q_length (p_queue p)"
  unfolding queue_length_def by (rule unat_length)

lemma RequireCurrentPosition_cases:
  assumes "play_ok p"
  obtains (none) e where "RequireCurrentPosition p = Some (Inl e)"
  | (some) c where "RequireCurrentPosition p = Some (Inr (word_of_nat c))" "unat (word_of_nat c :: 32 word) = c" "c < q_length (p_queue p)"
proof (cases "0 \<le> p_current p")
  case False
  then show thesis using none by (simp add: RequireCurrentPosition_def GetCurrentPosition_def)
next
  case True
  have r: "p_current p < int (q_length (p_queue p))" "queue_ok (p_queue p)" using assms by (simp_all add: play_ok_def base_ok_def)
  let ?c = "OrderToPosition (p_queue p) (nat (p_current p))"
  have c: "?c < q_length (p_queue p)" by (rule order_position_bound [OF r(2)]) (use True r in simp)
  then have "unat (word_of_nat ?c :: 32 word) = ?c" using play_ok_length [OF assms] by (simp add: unat_of_nat)
  then show thesis using some [of ?c] c True r by (simp add: RequireCurrentPosition_def GetCurrentPosition_def)
qed

lemma ParseInsertPosition_bound:
  assumes "play_ok p"
  shows "ensures (ParseInsertPosition s p) (\<lambda>r. \<forall>position. r = Inr position \<longrightarrow> unat position \<le> q_length (p_queue p))"
proof -
  let ?n = "q_length (p_queue p)"
  note len = unat_queue_length [OF assms] play_ok_length [OF assms]
  have absolute: "unat v \<le> ?n" if "ParseCommandArgUnsigned (queue_length p) s = Inr v" for v
    using ParseCommandArgUnsigned_bound [OF that] len by (simp add: word_le_nat_alt)
  have plus: "unat (c + 1 + v) \<le> ?n"
    if "unat c < ?n" "ParseCommandArgUnsigned (queue_length p - c - 1) t = Inr v" for c v :: "32 word" and t
  proof -
    have "unat (queue_length p - c) = ?n - unat c" using that(1) len by (subst unat_sub) (simp_all add: word_le_nat_alt)
    moreover from this have "queue_length p - c \<noteq> 0" using that(1) by auto
    ultimately have "unat v \<le> ?n - unat c - 1"
      using ParseCommandArgUnsigned_bound [OF that(2)] unat_minus_one [of "queue_length p - c"] by (simp add: word_le_nat_alt)
    moreover have "unat (c + 1) = unat c + 1" using that(1) len by (subst unat_add_lem [THEN iffD1]) simp_all
    ultimately show ?thesis using that(1) len by (subst unat_add_lem [THEN iffD1]) simp_all
  qed
  have minus: "unat (c - w) \<le> ?n" if "unat c < ?n" "ParseCommandArgUnsigned c t = Inr w" for c w :: "32 word" and t
    using ParseCommandArgUnsigned_bound [OF that(2)] that(1) by (subst unat_sub) simp_all
  show ?thesis
    by (cases rule: RequireCurrentPosition_cases [OF assms])
      (auto simp: ParseInsertPosition_def absolute map_sum_Inr split: list.splits char.splits bool.splits sum.splits intro: plus minus)
qed

section \<open>Moving songs to a destination\<close>

text \<open>The checks of \<open>MoveRange\<close> pass although the destination lies outside of the queue.\<close>

definition wraps :: "RangeArg \<Rightarrow> 32 word \<Rightarrow> playlist \<Rightarrow> bool" where
  "wraps rng dest p \<longleftrightarrow>
     (let n = q_length (p_queue p) in
      unat (range_start rng) < n \<and> unat (range_end rng - 1) < n \<and> unat (dest + RangeArg_Count rng - 1) < n \<and>
      range_start rng \<noteq> dest \<and> n < unat dest + (unat (range_end rng) - unat (range_start rng)))"

lemma MoveRange_none:
  assumes "play_env_ok env" "play_ok p" "RangeArg_IsWellFormed rng"
  shows "playlist_MoveRange env rng dest p = None \<longleftrightarrow> wraps rng dest p"
    "\<not> wraps rng dest p \<Longrightarrow> keeps (playlist_MoveRange env rng dest p)"
proof -
  let ?n = "q_length (p_queue p)"
  have wf: "unat (range_start rng) \<le> unat (range_end rng)" using assms(3) by (simp add: RangeArg_IsWellFormed_def word_le_nat_alt)
  have none: "playlist_MoveRange env rng dest p = None" if "wraps rng dest p"
    using that by (auto simp: wraps_def playlist_MoveRange_def Let_def)
  have some: "keeps (playlist_MoveRange env rng dest p)" if no: "\<not> wraps rng dest p"
  proof (cases "move_args rng dest")
    case True
    then show ?thesis using ensures_mono [OF playlist_MoveRange_correct [OF assms(1,2)]] by auto
  next
    case False
    then have "2 ^ 32 \<le> unat dest + (unat (range_end rng) - unat (range_start rng))"
      using assms(3) unat_Count [OF assms(3)] by (simp add: move_args_def)
    then have "?n < unat dest + (unat (range_end rng) - unat (range_start rng))" using play_ok_length [OF assms(2)] by simp
    then have "playlist_MoveRange env rng dest p = Some (Some BadRange, p) \<or> playlist_MoveRange env rng dest p = Some (None, p)"
      using no by (auto simp: wraps_def playlist_MoveRange_def Let_def)
    then show ?thesis using assms(2) by auto
  qed
  show "playlist_MoveRange env rng dest p = None \<longleftrightarrow> wraps rng dest p" using none some ensures_None by metis
  show "\<not> wraps rng dest p \<Longrightarrow> keeps (playlist_MoveRange env rng dest p)" by (rule some)
qed

lemma wraps_range:
  assumes "play_ok p" "RangeArg_IsWellFormed rng" "wraps rng dest p"
  shows "unat (range_start rng) < q_length (p_queue p)" "0 < unat (range_end rng)" "unat (range_end rng) \<le> q_length (p_queue p)"
    "unat (RangeArg_Count rng) \<le> q_length (p_queue p)"
proof -
  have e: "unat (range_end rng - 1) < q_length (p_queue p)" using assms(3) by (simp add: wraps_def Let_def)
  show "unat (range_start rng) < q_length (p_queue p)" using assms(3) by (simp add: wraps_def Let_def)
  show "0 < unat (range_end rng)" "unat (range_end rng) \<le> q_length (p_queue p)"
    using unat_pred_less [OF e play_ok_length [OF assms(1)]] by simp_all
  then show "unat (RangeArg_Count rng) \<le> q_length (p_queue p)" using unat_Count [OF assms(2)] by simp
qed

text \<open>A destination from which the range fits into the queue, or which is behind it by one, is harmless.\<close>

lemma no_wrap:
  assumes "play_ok p" "RangeArg_IsWellFormed rng"
    and "unat (range_end rng) \<le> q_length (p_queue p) \<Longrightarrow> unat dest + unat (RangeArg_Count rng) \<le> q_length (p_queue p) + 1"
  shows "\<not> wraps rng dest p"
proof
  assume w: "wraps rng dest p"
  let ?n = "q_length (p_queue p)"
  note len = play_ok_length [OF assms(1)] and r = wraps_range [OF assms(1,2) w]
  have sum: "unat dest + unat (RangeArg_Count rng) \<le> ?n + 1" using assms(3) r(3) by simp
  have big: "?n < unat dest + unat (RangeArg_Count rng)" using w unat_Count [OF assms(2)] by (simp add: wraps_def Let_def)
  have "unat (dest + RangeArg_Count rng) = unat dest + unat (RangeArg_Count rng)"
    using sum len by (subst unat_add_lem [THEN iffD1]) simp_all
  moreover from this have nz: "dest + RangeArg_Count rng \<noteq> 0" using big by auto
  ultimately have "unat (dest + RangeArg_Count rng - 1) = ?n" using unat_minus_one [OF nz] sum big by simp
  then show False using w by (simp add: wraps_def Let_def)
qed

text \<open>A destination that has been computed as a difference below zero.\<close>

lemma wrap_below_zero:
  assumes "play_ok p" "RangeArg_IsWellFormed rng" "unat c < unat v" "unat v \<le> q_length (p_queue p)"
    "unat (range_start rng) < q_length (p_queue p)" "0 < unat (range_end rng)" "unat (range_end rng) \<le> q_length (p_queue p)"
  shows "wraps rng (c - v) p \<longleftrightarrow> unat v - unat c < unat (RangeArg_Count rng)"
proof -
  let ?n = "q_length (p_queue p)"
  define d where "d = unat v - unat c"
  define k where "k = unat (RangeArg_Count rng)"
  note len = play_ok_length [OF assms(1)] and count = unat_Count [OF assms(2)]
  have d: "0 < d" "d \<le> ?n" "int d = int (unat v) - int (unat c)" using assms(3,4) by (simp_all add: d_def)
  have k: "k \<le> ?n" "k = unat (range_end rng) - unat (range_start rng)" using assms(7) count by (simp_all add: k_def)
  have word: "unat (word_of_int x :: 32 word) = nat (x mod 2 ^ 32)" for x by (simp add: unat_eq_nat_uint uint_word_of_int)
  have below: "(- x) mod 2 ^ 32 = 2 ^ 32 - x" if "0 < x" "x < 2 ^ 32" for x :: int using that by (simp add: zmod_zminus1_eq_if)
  have dest: "c - v = word_of_int (- int d)" unfolding d(3) by simp
  have at: "unat (c - v) = 2 ^ 32 - d" unfolding dest word using below [of "int d"] d(1,2) len by (simp add: nat_diff_distrib)
  have last: "c - v + RangeArg_Count rng - 1 = word_of_int (int k - 1 - int d)" unfolding d(3) k_def by simp
  have nz: "range_end rng \<noteq> 0" using assms(6) by auto
  have e: "unat (range_end rng - 1) < ?n" using unat_minus_one [OF nz] assms(6,7) by simp
  have s: "range_start rng \<noteq> c - v" using assms(5) at d(2) len by auto
  show ?thesis unfolding d_def [symmetric] k_def [symmetric]
  proof (cases "d < k")
    case True
    then have "(int k - 1 - int d) mod 2 ^ 32 = int (k - 1 - d)" using k(1) len by (simp add: of_nat_diff)
    then have "unat (c - v + RangeArg_Count rng - 1) = k - 1 - d" unfolding last word by simp
    moreover have "k - 1 - d < ?n" "?n < 2 ^ 32 - d + k" using True d(1,2) k(1) len by simp_all
    ultimately show "wraps rng (c - v) p \<longleftrightarrow> d < k"
      unfolding wraps_def Let_def at k(2) [symmetric] using True e s assms(5) by simp
  next
    case False
    define x where "x = int d - int k + 1"
    have x: "0 < x" "x \<le> 2 ^ 31" using False d(2) len by (simp_all add: x_def)
    have "int k - 1 - int d = - x" by (simp add: x_def)
    then have "unat (c - v + RangeArg_Count rng - 1) = nat (2 ^ 32 - x)" unfolding last word using below [of x] x by simp
    then have "\<not> unat (c - v + RangeArg_Count rng - 1) < ?n" using x(2) len by simp
    then show "wraps rng (c - v) p \<longleftrightarrow> d < k" using False by (simp add: wraps_def Let_def)
  qed
qed

text \<open>
  The commands that lead there: a destination before the current song that lies before the queue.
  \<open>relative_to\<close> gives the position of the current song after the range has been taken out.
\<close>

definition move_wraps :: "RangeArg \<Rightarrow> string \<Rightarrow> playlist \<Rightarrow> bool" where
  "move_wraps rng dest p \<longleftrightarrow>
     unat (range_start rng) < q_length (p_queue p) \<and> 0 < unat (range_end rng) \<and> unat (range_end rng) \<le> q_length (p_queue p) \<and>
     (\<exists>t c v. dest = CHR ''-'' # t \<and> relative_to rng p = Some (Inr c) \<and>
        ParseCommandArgUnsigned (queue_length p - c - RangeArg_Count rng) t = Inr v \<and>
        unat c < unat v \<and> unat v - unat c < unat (RangeArg_Count rng))"

lemma relative_to_cases:
  assumes "play_ok p" "RangeArg_IsWellFormed rng"
  obtains (none) e where "relative_to rng p = Some (Inl e)"
  | (some) c where "relative_to rng p = Some (Inr c)"
    "unat (range_end rng) \<le> q_length (p_queue p) \<Longrightarrow> unat c + unat (RangeArg_Count rng) \<le> q_length (p_queue p)"
    "unat c < q_length (p_queue p)"
proof (cases rule: RequireCurrentPosition_cases [OF assms(1), case_names no yes])
  case (no e)
  then show thesis using none by (simp add: relative_to_def)
next
  case (yes c)
  let ?c = "word_of_nat c :: 32 word"
  have wf: "unat (range_start rng) \<le> unat (range_end rng)" using assms(2) by (simp add: RangeArg_IsWellFormed_def word_le_nat_alt)
  show thesis
  proof (cases "RangeArg_Contains rng ?c")
    case True
    then show thesis using none yes by (simp add: relative_to_def)
  next
    case False
    then have out: "c < unat (range_start rng) \<or> unat (range_end rng) \<le> c"
      using yes(2) by (auto simp: RangeArg_Contains_def word_le_nat_alt word_less_nat_alt)
    let ?r = "if range_end rng \<le> ?c then ?c - RangeArg_Count rng else ?c"
    have r: "unat ?r = (if unat (range_end rng) \<le> c then c - unat (RangeArg_Count rng) else c)"
      using yes(2) unat_Count [OF assms(2)] by (auto simp: word_le_nat_alt unat_sub)
    have eq: "relative_to rng p = Some (Inr ?r)" using yes(1) False by (simp add: relative_to_def)
    show thesis
      by (rule some [OF eq]) (use r out yes(3) unat_Count [OF assms(2)] wf in auto)
  qed
qed

lemma unat_limit:
  assumes "play_ok p" "unat c + unat (RangeArg_Count rng) \<le> q_length (p_queue p)"
  shows "unat (queue_length p - c - RangeArg_Count rng) = q_length (p_queue p) - unat c - unat (RangeArg_Count rng)"
proof -
  have "unat (queue_length p - c) = q_length (p_queue p) - unat c"
    using assms unat_queue_length [OF assms(1)] by (subst unat_sub) (simp_all add: word_le_nat_alt)
  then show ?thesis using assms(2) by (subst unat_sub) (simp_all add: word_le_nat_alt)
qed

text \<open>The three kinds of destination: absolute, behind the current song, before it.\<close>

lemma absolute_no_wrap:
  assumes "play_ok p" "RangeArg_IsWellFormed rng" "ParseCommandArgUnsigned (queue_length p - RangeArg_Count rng) s = Inr v"
  shows "\<not> wraps rng v p"
proof (rule no_wrap [OF assms(1,2)])
  let ?n = "q_length (p_queue p)" and ?k = "unat (RangeArg_Count rng)"
  assume "unat (range_end rng) \<le> ?n"
  then have "?k \<le> ?n" using unat_Count [OF assms(2)] by simp
  then show "unat v + ?k \<le> ?n + 1"
    using unat_limit [OF assms(1), of 0 rng] ParseCommandArgUnsigned_bound [OF assms(3)] by (simp add: word_le_nat_alt)
qed

lemma behind_no_wrap:
  assumes "play_ok p" "RangeArg_IsWellFormed rng" "unat c < q_length (p_queue p)"
    and fit: "unat (range_end rng) \<le> q_length (p_queue p) \<Longrightarrow> unat c + unat (RangeArg_Count rng) \<le> q_length (p_queue p)"
    and "ParseCommandArgUnsigned (queue_length p - c - RangeArg_Count rng) s = Inr v"
  shows "\<not> wraps rng (c + 1 + v) p"
proof (rule no_wrap [OF assms(1,2)])
  let ?n = "q_length (p_queue p)" and ?k = "unat (RangeArg_Count rng)"
  assume e: "unat (range_end rng) \<le> ?n"
  note len = play_ok_length [OF assms(1)]
  have v: "unat v \<le> ?n - unat c - ?k"
    using ParseCommandArgUnsigned_bound [OF assms(5)] unat_limit [OF assms(1) fit [OF e]] by (simp add: word_le_nat_alt)
  have "unat (c + 1) = unat c + 1" using assms(3) len by (subst unat_add_lem [THEN iffD1]) simp_all
  then have "unat (c + 1 + v) = unat c + 1 + unat v" using v assms(3) len by (subst unat_add_lem [THEN iffD1]) simp_all
  then show "unat (c + 1 + v) + ?k \<le> ?n + 1" using v fit [OF e] by simp
qed

lemma before_wrap:
  assumes "play_ok p" "RangeArg_IsWellFormed rng"
    and fit: "unat (range_end rng) \<le> q_length (p_queue p) \<Longrightarrow> unat c + unat (RangeArg_Count rng) \<le> q_length (p_queue p)"
    and "ParseCommandArgUnsigned (queue_length p - c - RangeArg_Count rng) s = Inr v"
  shows "wraps rng (c - v) p \<longleftrightarrow>
    unat (range_start rng) < q_length (p_queue p) \<and> 0 < unat (range_end rng) \<and> unat (range_end rng) \<le> q_length (p_queue p) \<and>
    unat c < unat v \<and> unat v - unat c < unat (RangeArg_Count rng)"
proof (cases "unat c < unat v")
  case True
  have "unat v \<le> q_length (p_queue p)" if "unat (range_end rng) \<le> q_length (p_queue p)"
    using ParseCommandArgUnsigned_bound [OF assms(4)] unat_limit [OF assms(1) fit [OF that]] by (simp add: word_le_nat_alt)
  then show ?thesis using wraps_range [OF assms(1,2)] wrap_below_zero [OF assms(1,2) True] True by metis
next
  case False
  have "unat (c - v) + unat (RangeArg_Count rng) \<le> q_length (p_queue p) + 1" if "unat (range_end rng) \<le> q_length (p_queue p)"
    using fit [OF that] False by (subst unat_sub) (simp_all add: word_le_nat_alt)
  then have "\<not> wraps rng (c - v) p" by (rule no_wrap [OF assms(1,2)])
  then show ?thesis using False by simp
qed

lemma ParseMoveDestination_wraps:
  assumes "play_ok p" "RangeArg_IsWellFormed rng"
  shows "ensures (ParseMoveDestination dest rng p) (\<lambda>r. case r of Inl e \<Rightarrow> \<not> move_wraps rng dest p | Inr v \<Rightarrow> wraps rng v p \<longleftrightarrow> move_wraps rng dest p)"
proof (cases "\<exists>t. dest = CHR ''-'' # t \<or> dest = CHR ''+'' # t")
  case False
  then have "ParseMoveDestination dest rng p = Some (ParseCommandArgUnsigned (queue_length p - RangeArg_Count rng) dest)"
    by (auto simp: ParseMoveDestination_def split: list.splits char.splits bool.splits)
  moreover have "\<not> move_wraps rng dest p" using False by (auto simp: move_wraps_def)
  ultimately show ?thesis using absolute_no_wrap [OF assms] by (simp split: sum.split)
next
  case True
  then obtain t where t: "dest = CHR ''-'' # t \<or> dest = CHR ''+'' # t" by blast
  show ?thesis
  proof (cases rule: relative_to_cases [OF assms, case_names none some])
    case (none e)
    then show ?thesis using t by (auto simp: ParseMoveDestination_def move_wraps_def)
  next
    case (some c)
    show ?thesis
    proof (cases "ParseCommandArgUnsigned (queue_length p - c - RangeArg_Count rng) t")
      case (Inl e)
      then show ?thesis using t some(1) by (auto simp: ParseMoveDestination_def move_wraps_def)
    next
      case (Inr v)
      then have m: "move_wraps rng dest p \<longleftrightarrow> dest = CHR ''-'' # t \<and>
          unat (range_start rng) < q_length (p_queue p) \<and> 0 < unat (range_end rng) \<and> unat (range_end rng) \<le> q_length (p_queue p) \<and>
          unat c < unat v \<and> unat v - unat c < unat (RangeArg_Count rng)"
        using t some(1) by (auto simp: move_wraps_def)
      have "ParseMoveDestination dest rng p = Some (Inr (if dest = CHR ''-'' # t then c - v else c + 1 + v))"
        using t some(1) Inr by (auto simp: ParseMoveDestination_def)
      then show ?thesis
        using m before_wrap [OF assms some(2) Inr] behind_no_wrap [OF assms some(3,2) Inr] by simp
    qed
  qed
qed

lemma handle_move_to_exact:
  assumes "play_env_ok env" "play_ok p" "RangeArg_IsWellFormed rng"
  shows "handle_move_to env rng dest p = None \<longleftrightarrow> move_wraps rng dest p"
    "\<not> move_wraps rng dest p \<Longrightarrow> \<exists>e p'. handle_move_to env rng dest p = Some (e, p') \<and> play_ok p'"
proof -
  obtain r where r: "ParseMoveDestination dest rng p = Some r"
    "case r of Inl e \<Rightarrow> \<not> move_wraps rng dest p | Inr v \<Rightarrow> wraps rng v p \<longleftrightarrow> move_wraps rng dest p"
    using ParseMoveDestination_wraps [OF assms(2,3)] by (auto simp: ensures_def)
  note none = MoveRange_none [OF assms]
  have "(handle_move_to env rng dest p = None \<longleftrightarrow> move_wraps rng dest p) \<and>
      (\<not> move_wraps rng dest p \<longrightarrow> (\<exists>e p'. handle_move_to env rng dest p = Some (e, p') \<and> play_ok p'))"
  proof (cases r)
    case (Inl e)
    then show ?thesis using r assms(2) by (simp add: handle_move_to_def parsed_def)
  next
    case (Inr v)
    then have "handle_move_to env rng dest p = of_playlist (playlist_MoveRange env rng v p)" "wraps rng v p \<longleftrightarrow> move_wraps rng dest p"
      using r by (simp_all add: handle_move_to_def parsed_def)
    then show ?thesis using none [of v] by (fastforce simp: of_playlist_def ensures_def)
  qed
  then show "handle_move_to env rng dest p = None \<longleftrightarrow> move_wraps rng dest p"
    "\<not> move_wraps rng dest p \<Longrightarrow> \<exists>e p'. handle_move_to env rng dest p = Some (e, p') \<and> play_ok p'" by blast+
qed

section \<open>The other commands\<close>

abbreviation command_keeps :: "command_result \<Rightarrow> bool" where
  "command_keeps r \<equiv> ensures r (\<lambda>(_, p). play_ok p)"

lemma of_playlist_keeps: "keeps r \<Longrightarrow> command_keeps (of_playlist r)"
  by (auto simp: of_playlist_def ensures_def)

lemma parsed_keeps: "\<lbrakk>play_ok p; \<And>x. command_keeps (f x)\<rbrakk> \<Longrightarrow> command_keeps (parsed r p f)"
  by (cases r) (simp_all add: parsed_def)

lemma for_each_arg_keeps:
  assumes "\<And>i p. play_ok p \<Longrightarrow> command_keeps (f i p)" "play_ok p"
  shows "command_keeps (for_each_arg f args p)"
  using assms(2)
proof (induction args arbitrary: p)
  case (Cons i args)
  obtain e p' where r: "f i p = Some (e, p')" "play_ok p'" using assms(1) [OF Cons.prems, of i] by (auto simp: ensures_def)
  then show ?case using Cons.IH by (cases e) simp_all
qed simp

lemma Clear_keeps: "\<lbrakk>play_env_ok env; play_ok p\<rbrakk> \<Longrightarrow> keeps (no_throw (playlist_Clear env p))"
  by simp (rule ensures_mono [OF playlist_Clear_keeps], auto)

section \<open>Properties\<close>

text \<open>
  Property C16 (safety): the commands that delete, shuffle, clear, swap and change priorities return for
  any arguments, well-formed or not, and keep the invariant of the playlist: whatever a client sends
  with them, no index gets out of range.
\<close>

theorem queue_commands_keep:
  assumes "play_env_ok env" "play_ok p"
    and "r \<in> {handle_delete env arg p, handle_deleteid env arg p, handle_shuffle env opt p, handle_clear env p,
          handle_prio env arg args p, handle_prioid env arg args p, handle_swap env arg arg' p, handle_swapid env arg arg' p}"
  shows "\<exists>e p'. r = Some (e, p') \<and> play_ok p'"
proof -
  note keep = of_playlist_keeps parsed_keeps for_each_arg_keeps DeleteRange_keeps DeleteId_keeps playlist_Shuffle_keeps Clear_keeps
    playlist_SetPriorityRange_keeps SetPriorityId_keeps playlist_SwapPositions_keeps SwapIds_keeps assms(1,2)
  note cases = assms(3) [unfolded handle_delete_def handle_deleteid_def handle_shuffle_def handle_clear_def handle_prio_def
      handle_prioid_def handle_swap_def handle_swapid_def]
  have "command_keeps r"
    by (insert cases, elim insertE emptyE; simp only:; (assumption | rule keep)+)
  then show ?thesis by (auto simp: ensures_def)
qed

theorem queue_commands_keep_witness:
  "\<exists>e p'. handle_prio quiet_env ''7'' [''0:2'', ''x''] four_songs = Some (e, p') \<and> play_ok p'"
  by (rule queue_commands_keep [OF quiet_env_ok(1) four_songs_ok, of _ "''7''" None "[''0:2'', ''x'']" "[]"]) simp

text \<open>
  Property C19 (bounds): the position at which a client asks to insert songs, given as a number or
  relative to the current song, is at most the length of the queue, whatever the argument; the
  additions and subtractions do not wrap around.
\<close>

theorem ParseInsertPosition_in_queue:
  assumes "play_ok p"
  shows "\<exists>r. ParseInsertPosition s p = Some r \<and> (\<forall>position. r = Inr position \<longrightarrow> unat position \<le> q_length (p_queue p))"
  using ParseInsertPosition_bound [OF assms] by (auto simp: ensures_def)

lemma strtoul_one: "strtoul ''1'' = (1, [])"
proof -
  have "fmt_uint 1 = ''1''" by code_simp
  then show ?thesis using strtoul_fmt_uint [of 1] by (simp del: fmt_uint.simps)
qed

lemma four_songs_position: "RequireCurrentPosition four_songs = Some (Inr 2)" "queue_length four_songs = 4"
  by (simp_all add: RequireCurrentPosition_def GetCurrentPosition_def order_position_def OrderToPosition_def four_songs_def queue_length_def)

theorem ParseInsertPosition_in_queue_witness:
  "ParseInsertPosition ''+1'' four_songs = Some (Inr 4) \<and> unat (4 :: 32 word) \<le> q_length (p_queue four_songs)"
proof -
  note strtoul_one
  then have *: "ParseInsertPosition ''+1'' four_songs = Some (Inr 4)"
    by (simp add: ParseInsertPosition_def four_songs_position ParseCommandArgUnsigned_def)
  then show ?thesis using ParseInsertPosition_in_queue [OF four_songs_ok, of "''+1''"] by simp
qed



end
