(* ===== verification/Cue_Parser.thy ===== *)
theory Cue_Parser
  imports Db_Save
begin

text \<open>
  CUE sheets: playlist/cue/CueParser.cxx and the enumerator of
  playlist/plugins/CuePlaylistPlugin.cxx that an update runs over a \<open>.cue\<close> file. A view that may
  be null is an option; the parser is a record of the class's members, its three song slots
  included. \<open>tags\<close> is the global set of enabled tag types.
\<close>

section \<open>Words and values\<close>

definition cue_next_word :: "string \<Rightarrow> string \<times> string" where
  "cue_next_word src =
     (takeWhile (\<lambda>ch. \<not> IsWhitespaceOrNull ch) src, dropWhile (\<lambda>ch. \<not> IsWhitespaceOrNull ch) src)"

text \<open>Without a closing quote the rest of the line is the value.\<close>

definition cue_next_quoted :: "string \<Rightarrow> string \<times> string" where
  "cue_next_quoted src =
     (case Split src (CHR 0x22) of (val, None) \<Rightarrow> (src, []) | (val, Some rest) \<Rightarrow> (val, rest))"

definition cue_next_token :: "string \<Rightarrow> string option \<times> string" where
  "cue_next_token src0 =
     (let src = StripLeft_view src0 in
      if src = [] then (None, src) else (case cue_next_word src of (w, rest) \<Rightarrow> (Some w, rest)))"

definition cue_next_value :: "string \<Rightarrow> string option \<times> string" where
  "cue_next_value src0 =
     (case StripLeft_view src0 of
        [] \<Rightarrow> (None, [])
      | c # src \<Rightarrow>
          (case (if c = CHR 0x22 then cue_next_quoted src else cue_next_word (c # src)) of
             (val, rest) \<Rightarrow> (Some val, rest)))"

definition cue_add_tag :: "TagMask \<Rightarrow> TagType \<Rightarrow> string \<Rightarrow> TagBuilder \<Rightarrow> TagBuilder" where
  "cue_add_tag tags type src tag =
     (case fst (cue_next_value src) of None \<Rightarrow> tag | Some val \<Rightarrow> AddItem tags type val tag)"

definition cue_parse_rem :: "TagMask \<Rightarrow> string \<Rightarrow> TagBuilder \<Rightarrow> TagBuilder" where
  "cue_parse_rem tags src0 tag =
     (case cue_next_token src0 of
        (None, _) \<Rightarrow> tag
      | (Some type, src) \<Rightarrow>
          (case tag_name_parse_i type of None \<Rightarrow> tag | Some type2 \<Rightarrow> cue_add_tag tags type2 src tag))"

section \<open>Positions\<close>

definition IsDigit :: "string \<Rightarrow> bool" where
  "IsDigit s \<longleftrightarrow> (case s of [] \<Rightarrow> False | c # _ \<Rightarrow> IsDigitASCII c)"

text \<open>The value is a 32-bit \<open>unsigned\<close>; without a digit the view becomes null.\<close>

fun cue_digits :: "32 word \<Rightarrow> string \<Rightarrow> 32 word \<times> string" where
  "cue_digits val [] = (val, [])"
| "cue_digits val (c # s) =
     (if IsDigitASCII c then cue_digits (val * 10 + of_nat (digit_val c)) s else (val, c # s))"

definition cue_next_unsigned :: "string \<Rightarrow> 32 word \<times> string option" where
  "cue_next_unsigned src =
     (if \<not> IsDigit src then (0, None) else (case cue_digits 0 src of (val, rest) \<Rightarrow> (val, Some rest)))"

definition after_colon :: "string option \<Rightarrow> string option" where
  "after_colon src = (case src of Some (c # s) \<Rightarrow> if c = CHR '':'' then Some s else None | _ \<Rightarrow> None)"

text \<open>
  Minutes and seconds are multiplied and added as 32-bit values, the frames as 64-bit ones, and
  the sum is converted to a 32-bit \<open>int\<close>.
\<close>

definition cue_parse_position :: "string \<Rightarrow> int" where
  "cue_parse_position src0 =
     (case cue_next_unsigned src0 of (minutes, src1) \<Rightarrow>
        (case after_colon src1 of
           None \<Rightarrow> - 1
         | Some src2 \<Rightarrow>
             (case cue_next_unsigned src2 of (seconds, src3) \<Rightarrow>
                (case after_colon src3 of
                   None \<Rightarrow> - 1
                 | Some src4 \<Rightarrow>
                     (case cue_next_unsigned src4 of
                        (frames, Some []) \<Rightarrow>
                          int32_of (int (unat (minutes * 60000 + seconds * 1000)) + int (unat frames * 1000 div 75))
                      | _ \<Rightarrow> - 1)))))"

section \<open>The parser\<close>

datatype cue_state = HEADER | WAVE | IGNORE_FILE | TRACK | IGNORE_TRACK

record CueParser =
  cp_state :: cue_state
  cp_header_tag :: TagBuilder
  cp_song_tag :: TagBuilder
  cp_filename :: string
  cp_current :: "DetachedSong option"
  cp_previous :: "DetachedSong option"
  cp_finished :: "DetachedSong option"
  cp_ignore_index :: bool
  cp_end :: bool

definition CueParser_new :: CueParser where
  "CueParser_new =
     \<lparr>cp_state = HEADER, cp_header_tag = TagBuilder_empty, cp_song_tag = TagBuilder_empty, cp_filename = [],
      cp_current = None, cp_previous = None, cp_finished = None, cp_ignore_index = False, cp_end = False\<rparr>"

definition GetCurrentTag_update :: "(TagBuilder \<Rightarrow> TagBuilder) \<Rightarrow> CueParser \<Rightarrow> CueParser" where
  "GetCurrentTag_update f p =
     (if cp_state p = HEADER then p\<lparr>cp_header_tag := f (cp_header_tag p)\<rparr>
      else if cp_state p = TRACK then p\<lparr>cp_song_tag := f (cp_song_tag p)\<rparr>
      else p)"

definition CueParser_Commit :: "CueParser \<Rightarrow> CueParser" where
  "CueParser_Commit p =
     (case cp_current p of
        None \<Rightarrow> p
      | Some song \<Rightarrow>
          (case Commit (cp_song_tag p) of (tag, builder) \<Rightarrow>
             p\<lparr>cp_song_tag := builder, cp_finished := cp_previous p,
               cp_previous := Some (song\<lparr>ds_tag := tag\<rparr>), cp_current := None\<rparr>))"

definition Feed_file :: "string \<Rightarrow> CueParser \<Rightarrow> CueParser" where
  "Feed_file src0 p0 =
     (let p = CueParser_Commit p0 in
      case cue_next_value src0 of
        (None, _) \<Rightarrow> p
      | (Some new_filename, src1) \<Rightarrow>
          (case fst (cue_next_token src1) of
             None \<Rightarrow> p
           | Some type \<Rightarrow>
               if type \<noteq> ''WAVE'' \<and> type \<noteq> ''FLAC'' \<and> type \<noteq> ''MP3'' \<and> type \<noteq> ''AIFF''
               then p\<lparr>cp_state := IGNORE_FILE\<rparr>
               else p\<lparr>cp_state := WAVE, cp_filename := new_filename\<rparr>))"

definition Feed_track :: "TagMask \<Rightarrow> string \<Rightarrow> CueParser \<Rightarrow> CueParser" where
  "Feed_track tags src0 p0 =
     (let p = CueParser_Commit p0 in
      case cue_next_token src0 of
        (None, _) \<Rightarrow> p
      | (Some nr, src1) \<Rightarrow>
          (case fst (cue_next_token src1) of
             None \<Rightarrow> p
           | Some type \<Rightarrow>
               if type \<noteq> ''AUDIO'' then p\<lparr>cp_state := IGNORE_TRACK\<rparr>
               else p\<lparr>cp_state := TRACK, cp_ignore_index := False,
                      cp_current := Some (DetachedSong_new (cp_filename p)),
                      cp_song_tag := AddItem tags TAG_TRACK nr (cp_header_tag p)\<rparr>))"

definition Feed_index :: "string \<Rightarrow> CueParser \<Rightarrow> CueParser" where
  "Feed_index src0 p =
     (if cp_ignore_index p then p
      else case cue_next_token src0 of
          (None, _) \<Rightarrow> p
        | (Some nr, src1) \<Rightarrow>
            (case fst (cue_next_token src1) of
               None \<Rightarrow> p
             | Some position \<Rightarrow>
                 (let position_ms = cue_parse_position position; t = (word_of_int position_ms :: SongTime) in
                  if position_ms < 0 then p
                  else p\<lparr>cp_previous := map_option (\<lambda>s. if ds_start_time s < t then s\<lparr>ds_end_time := t\<rparr> else s)
                                          (cp_previous p),
                         cp_current := map_option (\<lambda>s. s\<lparr>ds_start_time := t\<rparr>) (cp_current p),
                         cp_ignore_index := (nr \<noteq> ''00'' \<or> cp_previous p = None)\<rparr>)))"

definition Feed :: "TagMask \<Rightarrow> string \<Rightarrow> CueParser \<Rightarrow> CueParser" where
  "Feed tags line p =
     (case cue_next_token line of
        (None, _) \<Rightarrow> p
      | (Some command, src) \<Rightarrow>
          if command = ''REM'' then GetCurrentTag_update (cue_parse_rem tags src) p
          else if command = ''PERFORMER'' then
            GetCurrentTag_update
              (cue_add_tag tags (if cp_state p = TRACK then TAG_ARTIST else TAG_ALBUM_ARTIST) src) p
          else if command = ''TITLE'' then
            (if cp_state p = HEADER then p\<lparr>cp_header_tag := cue_add_tag tags TAG_ALBUM src (cp_header_tag p)\<rparr>
             else if cp_state p = TRACK then p\<lparr>cp_song_tag := cue_add_tag tags TAG_TITLE src (cp_song_tag p)\<rparr>
             else p)
          else if command = ''FILE'' then Feed_file src p
          else if cp_state p = IGNORE_FILE then p
          else if command = ''TRACK'' then Feed_track tags src p
          else if cp_state p = IGNORE_TRACK then p
          else if cp_state p = TRACK \<and> command = ''INDEX'' then Feed_index src p
          else p)"

definition CueParser_Finish :: "CueParser \<Rightarrow> CueParser" where
  "CueParser_Finish p = (if cp_end p then p else (CueParser_Commit p)\<lparr>cp_end := True\<rparr>)"

definition CueParser_Get :: "CueParser \<Rightarrow> DetachedSong option \<times> CueParser" where
  "CueParser_Get p0 =
     (let p = (if cp_finished p0 = None \<and> cp_end p0 then p0\<lparr>cp_finished := cp_previous p0, cp_previous := None\<rparr> else p0)
      in (cp_finished p, p\<lparr>cp_finished := None\<rparr>))"

section \<open>The enumerator\<close>

text \<open>The lines that are still unread; reading beyond the last one gives null again.\<close>

fun NextSong_lines :: "TagMask \<Rightarrow> CueParser \<Rightarrow> string list \<Rightarrow> DetachedSong option \<times> CueParser \<times> string list" where
  "NextSong_lines tags p [] = (case CueParser_Get (CueParser_Finish p) of (song, p') \<Rightarrow> (song, p', []))"
| "NextSong_lines tags p (line # tis) =
     (case CueParser_Get (Feed tags line p) of
        (Some song, p') \<Rightarrow> (Some song, p', tis)
      | (None, p') \<Rightarrow> NextSong_lines tags p' tis)"

definition CuePlaylist_NextSong ::
    "TagMask \<Rightarrow> CueParser \<times> string list \<Rightarrow> DetachedSong option \<times> CueParser \<times> string list" where
  "CuePlaylist_NextSong tags st =
     (case st of (p, tis) \<Rightarrow>
        (case CueParser_Get p of
           (Some song, p') \<Rightarrow> (Some song, p', tis)
         | (None, p') \<Rightarrow> NextSong_lines tags p' tis))"

text \<open>A caller that reads songs until it gets null, at most \<open>n\<close> of them.\<close>

fun read_songs :: "nat \<Rightarrow> TagMask \<Rightarrow> CueParser \<times> string list \<Rightarrow> DetachedSong list option" where
  "read_songs 0 tags st = None"
| "read_songs (Suc n) tags st =
     (case CuePlaylist_NextSong tags st of
        (None, _) \<Rightarrow> Some []
      | (Some song, st') \<Rightarrow> map_option ((#) song) (read_songs n tags st'))"

section \<open>Reference\<close>

text \<open>
  A sheet read in one go: the songs seen so far in a list without bound, the last of them being
  the one whose end an index may set. No slots and no calls to fetch a song.
\<close>

record cue_sheet =
  sh_state :: cue_state
  sh_header :: TagBuilder
  sh_tag :: TagBuilder
  sh_file :: string
  sh_open :: "DetachedSong option"
  sh_songs :: "DetachedSong list"
  sh_indexed :: bool

definition sheet_new :: cue_sheet where
  "sheet_new = \<lparr>sh_state = HEADER, sh_header = TagBuilder_empty, sh_tag = TagBuilder_empty, sh_file = [],
     sh_open = None, sh_songs = [], sh_indexed = False\<rparr>"

definition close_song :: "cue_sheet \<Rightarrow> cue_sheet" where
  "close_song sh =
     (case sh_open sh of
        None \<Rightarrow> sh
      | Some song \<Rightarrow> sh\<lparr>sh_open := None, sh_tag := snd (Commit (sh_tag sh)),
          sh_songs := sh_songs sh @ [song\<lparr>ds_tag := fst (Commit (sh_tag sh))\<rparr>]\<rparr>)"

definition update_last :: "('a \<Rightarrow> 'a) \<Rightarrow> 'a list \<Rightarrow> 'a list" where
  "update_last f xs = (if xs = [] then [] else butlast xs @ [f (last xs)])"

definition cut_at :: "SongTime \<Rightarrow> DetachedSong \<Rightarrow> DetachedSong" where
  "cut_at t song = (if ds_start_time song < t then song\<lparr>ds_end_time := t\<rparr> else song)"

definition two_words :: "string \<Rightarrow> (string \<times> string) option" where
  "two_words src =
     (case cue_next_token src of
        (None, _) \<Rightarrow> None
      | (Some a, rest) \<Rightarrow> map_option (\<lambda>b. (a, b)) (fst (cue_next_token rest)))"

definition file_words :: "string \<Rightarrow> (string \<times> string) option" where
  "file_words src =
     (case cue_next_value src of
        (None, _) \<Rightarrow> None
      | (Some a, rest) \<Rightarrow> map_option (\<lambda>b. (a, b)) (fst (cue_next_token rest)))"

definition sheet_file :: "string \<Rightarrow> cue_sheet \<Rightarrow> cue_sheet" where
  "sheet_file src sh =
     (case file_words src of
        None \<Rightarrow> sh
      | Some (name, type) \<Rightarrow>
          if type \<in> {''WAVE'', ''FLAC'', ''MP3'', ''AIFF''} then sh\<lparr>sh_state := WAVE, sh_file := name\<rparr>
          else sh\<lparr>sh_state := IGNORE_FILE\<rparr>)"

definition sheet_track :: "TagMask \<Rightarrow> string \<Rightarrow> cue_sheet \<Rightarrow> cue_sheet" where
  "sheet_track tags src sh =
     (case two_words src of
        None \<Rightarrow> sh
      | Some (nr, type) \<Rightarrow>
          if type = ''AUDIO''
          then sh\<lparr>sh_state := TRACK, sh_indexed := False, sh_open := Some (DetachedSong_new (sh_file sh)),
                  sh_tag := AddItem tags TAG_TRACK nr (sh_header sh)\<rparr>
          else sh\<lparr>sh_state := IGNORE_TRACK\<rparr>)"

definition sheet_index :: "string \<Rightarrow> cue_sheet \<Rightarrow> cue_sheet" where
  "sheet_index src sh =
     (case two_words src of
        None \<Rightarrow> sh
      | Some (nr, position) \<Rightarrow>
          if sh_indexed sh \<or> cue_parse_position position < 0 then sh
          else let t = word_of_int (cue_parse_position position)
               in sh\<lparr>sh_songs := update_last (cut_at t) (sh_songs sh),
                     sh_open := map_option (\<lambda>s. s\<lparr>ds_start_time := t\<rparr>) (sh_open sh),
                     sh_indexed := (nr \<noteq> ''00'' \<or> sh_songs sh = [])\<rparr>)"

definition sheet_tag :: "TagMask \<Rightarrow> string \<Rightarrow> string \<Rightarrow> bool \<Rightarrow> TagBuilder \<Rightarrow> TagBuilder" where
  "sheet_tag tags command src in_track tag =
     (if command = ''REM'' then cue_parse_rem tags src tag
      else if command = ''PERFORMER'' then cue_add_tag tags (if in_track then TAG_ARTIST else TAG_ALBUM_ARTIST) src tag
      else cue_add_tag tags (if in_track then TAG_TITLE else TAG_ALBUM) src tag)"

definition sheet_line :: "TagMask \<Rightarrow> string \<Rightarrow> cue_sheet \<Rightarrow> cue_sheet" where
  "sheet_line tags line sh =
     (case cue_next_token line of
        (None, _) \<Rightarrow> sh
      | (Some command, src) \<Rightarrow>
          if command \<in> {''REM'', ''PERFORMER'', ''TITLE''} then
            (case sh_state sh of
               HEADER \<Rightarrow> sh\<lparr>sh_header := sheet_tag tags command src False (sh_header sh)\<rparr>
             | TRACK \<Rightarrow> sh\<lparr>sh_tag := sheet_tag tags command src True (sh_tag sh)\<rparr>
             | _ \<Rightarrow> sh)
          else if command = ''FILE'' then sheet_file src (close_song sh)
          else if command = ''TRACK'' \<and> sh_state sh \<noteq> IGNORE_FILE then sheet_track tags src (close_song sh)
          else if command = ''INDEX'' \<and> sh_state sh = TRACK then sheet_index src sh
          else sh)"

definition sheet_songs :: "TagMask \<Rightarrow> string list \<Rightarrow> DetachedSong list" where
  "sheet_songs tags lines = sh_songs (close_song (fold (sheet_line tags) lines sheet_new))"

section \<open>The slots implement the list\<close>

definition slot :: "'a option \<Rightarrow> 'a list" where
  "slot x = (case x of None \<Rightarrow> [] | Some y \<Rightarrow> [y])"

definition sheet_of :: "DetachedSong list \<Rightarrow> CueParser \<Rightarrow> cue_sheet" where
  "sheet_of delivered p =
     \<lparr>sh_state = cp_state p, sh_header = cp_header_tag p, sh_tag = cp_song_tag p, sh_file = cp_filename p,
      sh_open = cp_current p,
      sh_songs = delivered @ slot (cp_finished p) @ slot (cp_previous p),
      sh_indexed = cp_ignore_index p\<rparr>"

lemma slot_simps [simp]: "slot None = []" "slot (Some x) = [x]" "slot y = [] \<longleftrightarrow> y = None"
  by (simp_all add: slot_def split: option.split)

text \<open>Between two calls: nothing is finished, and whoever has delivered a song holds another.\<close>

definition drained :: "DetachedSong list \<Rightarrow> CueParser \<Rightarrow> bool" where
  "drained delivered p \<longleftrightarrow> cp_finished p = None \<and> \<not> cp_end p \<and> (cp_previous p = None \<longrightarrow> delivered = [])"

lemma sheet_of_Commit:
  assumes "drained delivered p"
  shows "sheet_of delivered (CueParser_Commit p) = close_song (sheet_of delivered p)"
  using assms by (auto simp: drained_def sheet_of_def CueParser_Commit_def close_song_def Commit_def split: option.splits)

lemma update_last_slot: "(x = None \<longrightarrow> d = []) \<Longrightarrow> update_last f (d @ slot x) = d @ slot (map_option f x)"
  by (cases x) (auto simp: update_last_def)

lemma sheet_of_simps:
  "sh_state (sheet_of d p) = cp_state p" "sh_header (sheet_of d p) = cp_header_tag p"
  "sh_tag (sheet_of d p) = cp_song_tag p" "sh_file (sheet_of d p) = cp_filename p"
  "sh_open (sheet_of d p) = cp_current p" "sh_indexed (sheet_of d p) = cp_ignore_index p"
  by (simp_all add: sheet_of_def)

lemma sheet_of_updates:
  "sheet_of d (p\<lparr>cp_state := st\<rparr>) = (sheet_of d p)\<lparr>sh_state := st\<rparr>"
  "sheet_of d (p\<lparr>cp_header_tag := b\<rparr>) = (sheet_of d p)\<lparr>sh_header := b\<rparr>"
  "sheet_of d (p\<lparr>cp_song_tag := b\<rparr>) = (sheet_of d p)\<lparr>sh_tag := b\<rparr>"
  "sheet_of d (p\<lparr>cp_filename := f\<rparr>) = (sheet_of d p)\<lparr>sh_file := f\<rparr>"
  "sheet_of d (p\<lparr>cp_current := c\<rparr>) = (sheet_of d p)\<lparr>sh_open := c\<rparr>"
  "sheet_of d (p\<lparr>cp_ignore_index := i\<rparr>) = (sheet_of d p)\<lparr>sh_indexed := i\<rparr>"
  by (simp_all add: sheet_of_def)

lemma sheet_of_Feed_file:
  "drained d p \<Longrightarrow> sheet_of d (Feed_file src p) = sheet_file src (close_song (sheet_of d p))"
  by (auto simp: Feed_file_def sheet_file_def file_words_def Let_def sheet_of_updates sheet_of_Commit
      split: prod.splits option.splits)

lemma sheet_of_Feed_track:
  "drained d p \<Longrightarrow> sheet_of d (Feed_track tags src p) = sheet_track tags src (close_song (sheet_of d p))"
  by (auto simp: Feed_track_def sheet_track_def two_words_def Let_def sheet_of_updates
      simp flip: sheet_of_Commit simp: sheet_of_simps split: prod.splits option.splits)

lemma sheet_of_Feed_index:
  assumes "drained d p"
  shows "sheet_of d (Feed_index src p) = sheet_index src (sheet_of d p)"
proof -
  have songs: "sh_songs (sheet_of d q) = d @ slot (cp_previous q)" if "cp_finished q = None" for q
    using that by (simp add: sheet_of_def)
  have cut: "map_option (\<lambda>s. if ds_start_time s < t then s\<lparr>ds_end_time := t\<rparr> else s) = map_option (cut_at t)" for t
    by (simp add: cut_at_def [abs_def])
  have "cp_finished p = None" "cp_previous p = None \<longrightarrow> d = []" using assms by (simp_all add: drained_def)
  then show ?thesis
    unfolding Feed_index_def sheet_index_def two_words_def cut Let_def
    by (auto simp: sheet_of_def update_last_slot split: prod.splits option.splits)
qed

lemma sheet_of_Feed:
  assumes "drained d p"
  shows "sheet_of d (Feed tags line p) = sheet_line tags line (sheet_of d p)"
proof (cases "cue_next_token line")
  case (Pair command src)
  have tag: "sheet_of d (GetCurrentTag_update f p) =
      (case cp_state p of HEADER \<Rightarrow> (sheet_of d p)\<lparr>sh_header := f (cp_header_tag p)\<rparr>
       | TRACK \<Rightarrow> (sheet_of d p)\<lparr>sh_tag := f (cp_song_tag p)\<rparr> | _ \<Rightarrow> sheet_of d p)" for f
    by (simp add: GetCurrentTag_update_def sheet_of_updates split: cue_state.split)
  show ?thesis
    using Pair
    by (cases command)
      (auto simp: Feed_def sheet_line_def sheet_tag_def tag sheet_of_Feed_file [OF assms] sheet_of_Feed_track [OF assms]
        sheet_of_Feed_index [OF assms] sheet_of_simps sheet_of_updates split: cue_state.splits)
qed

lemma Feed_slots:
  assumes "drained d p"
  shows "\<not> cp_end (Feed tags line p) \<and> (cp_previous (Feed tags line p) = None \<longrightarrow> d = [] \<and> cp_finished (Feed tags line p) = None)"
proof -
  define ok where "ok = (\<lambda>q :: CueParser. \<not> cp_end q \<and> (cp_previous q = None \<longrightarrow> d = [] \<and> cp_finished q = None))"
  have p: "ok p" using assms by (simp add: ok_def drained_def)
  have commit: "ok (CueParser_Commit p)"
    using p by (simp add: ok_def CueParser_Commit_def split: option.split prod.split)
  have "ok (Feed_file src p)" for src
    using commit unfolding Feed_file_def Let_def by (simp add: ok_def split: prod.split option.split)
  moreover have "ok (Feed_track tags src p)" for src
    using commit unfolding Feed_track_def Let_def by (simp add: ok_def split: prod.split option.split)
  moreover have "ok (Feed_index src p)" for src
    using p unfolding Feed_index_def Let_def by (simp add: ok_def split: prod.split option.split)
  moreover have "ok (GetCurrentTag_update f p)" "ok (p\<lparr>cp_header_tag := b\<rparr>)" "ok (p\<lparr>cp_song_tag := b\<rparr>)" for f b
    using p by (simp_all add: ok_def GetCurrentTag_update_def)
  ultimately have "ok (Feed tags line p)" using p by (simp add: Feed_def split: prod.split option.split)
  then show ?thesis by (simp add: ok_def)
qed

lemma drained_Feed:
  assumes "drained d p"
  obtains song p' where "CueParser_Get (Feed tags line p) = (song, p')" "drained (d @ slot song) p'"
    "sheet_of (d @ slot song) p' = sheet_line tags line (sheet_of d p)"
proof -
  define q where "q = Feed tags line p"
  have q: "\<not> cp_end q" "cp_previous q = None \<longrightarrow> d = [] \<and> cp_finished q = None"
    using Feed_slots [OF assms, of tags line] by (simp_all add: q_def)
  show thesis
  proof (rule that)
    show get: "CueParser_Get (Feed tags line p) = (cp_finished q, q\<lparr>cp_finished := None\<rparr>)"
      using q by (simp add: CueParser_Get_def q_def Let_def)
    show "drained (d @ slot (cp_finished q)) (q\<lparr>cp_finished := None\<rparr>)"
      using q by (auto simp: drained_def)
    show "sheet_of (d @ slot (cp_finished q)) (q\<lparr>cp_finished := None\<rparr>) = sheet_line tags line (sheet_of d p)"
      using sheet_of_Feed [OF assms, of tags line] by (simp add: sheet_of_def q_def)
  qed
qed

text \<open>At the end of the sheet: what is left is handed out from the slots.\<close>

definition ended :: "CueParser \<Rightarrow> bool" where
  "ended p \<longleftrightarrow> cp_end p \<and> cp_current p = None"

lemma ended_Get:
  assumes "ended p"
  obtains p' where "CueParser_Get p = (if cp_finished p = None then cp_previous p else cp_finished p, p')" "ended p'"
    "cp_finished p' = None" "cp_previous p' = (if cp_finished p = None then None else cp_previous p)"
  using assms by (auto simp: CueParser_Get_def ended_def Let_def)

lemma read_songs_ended:
  assumes "ended p" "length (slot (cp_finished p) @ slot (cp_previous p)) < n"
  shows "read_songs n tags (p, []) = Some (slot (cp_finished p) @ slot (cp_previous p))"
  using assms
proof (induction n arbitrary: p)
  case (Suc n)
  obtain p' where p': "CueParser_Get p = (if cp_finished p = None then cp_previous p else cp_finished p, p')" "ended p'"
    "cp_finished p' = None" "cp_previous p' = (if cp_finished p = None then None else cp_previous p)"
    by (rule ended_Get [OF Suc.prems(1)])
  show ?case
  proof (cases "cp_finished p = None \<and> cp_previous p = None")
    case True
    obtain p'' where "CueParser_Get p' = (None, p'')"
      using ended_Get [OF p'(2)] p'(3,4) True by metis
    then show ?thesis using p' True by (simp add: CuePlaylist_NextSong_def CueParser_Finish_def ended_def)
  next
    case False
    then have "read_songs n tags (p', []) = Some (slot (cp_finished p') @ slot (cp_previous p'))"
      by (intro Suc.IH p'(2)) (use Suc.prems p' in \<open>auto split: if_splits\<close>)
    then show ?thesis using p' False by (auto simp: CuePlaylist_NextSong_def split: if_splits)
  qed
qed simp

lemma NextSong_lines_cases:
  assumes "drained d p"
  obtains
    (song) s p' tis where "NextSong_lines tags p lines = (Some s, p', tis)" "drained (d @ [s]) p'"
      "fold (sheet_line tags) tis (sheet_of (d @ [s]) p') = fold (sheet_line tags) lines (sheet_of d p)"
      "length tis < length lines"
  | (last_song) s p' where "NextSong_lines tags p lines = (s, p', [])" "ended p'" "cp_finished p' = None"
      "s = None \<longrightarrow> cp_previous p' = None"
      "d @ slot s @ slot (cp_previous p') = sh_songs (close_song (fold (sheet_line tags) lines (sheet_of d p)))"
  using assms
proof (induction lines arbitrary: p thesis)
  case Nil
  define q where "q = CueParser_Finish p"
  have q: "q = (CueParser_Commit p)\<lparr>cp_end := True\<rparr>" using Nil.prems(3) by (simp add: q_def CueParser_Finish_def drained_def)
  then have "ended q" by (auto simp: ended_def CueParser_Commit_def Commit_def split: option.splits)
  then obtain p' where p': "CueParser_Get q = (if cp_finished q = None then cp_previous q else cp_finished q, p')" "ended p'"
    "cp_finished p' = None" "cp_previous p' = (if cp_finished q = None then None else cp_previous q)"
    by (rule ended_Get)
  have "d @ slot (cp_finished q) @ slot (cp_previous q) = sh_songs (close_song (sheet_of d p))"
    using arg_cong [OF sheet_of_Commit [OF Nil.prems(3)], of sh_songs] by (simp add: q sheet_of_def)
  then show thesis
    using Nil.prems(2) [of "if cp_finished q = None then cp_previous q else cp_finished q" p'] p'
    by (auto simp: q_def split: if_splits)
next
  case (Cons line lines)
  obtain song p' where get: "CueParser_Get (Feed tags line p) = (song, p')" "drained (d @ slot song) p'"
    "sheet_of (d @ slot song) p' = sheet_line tags line (sheet_of d p)"
    by (rule drained_Feed [OF Cons.prems(3)])
  show thesis
  proof (cases song)
    case None
    show thesis
    proof (rule Cons.IH)
      show "drained d p'" using get None by simp
    next
      fix s p2 tis assume "NextSong_lines tags p' lines = (Some s, p2, tis)" "drained (d @ [s]) p2"
        "fold (sheet_line tags) tis (sheet_of (d @ [s]) p2) = fold (sheet_line tags) lines (sheet_of d p')" "length tis < length lines"
      then show thesis using Cons.prems(1) get None by simp
    next
      fix s p2 assume "NextSong_lines tags p' lines = (s, p2, [])" "ended p2" "cp_finished p2 = None"
        "s = None \<longrightarrow> cp_previous p2 = None"
        "d @ slot s @ slot (cp_previous p2) = sh_songs (close_song (fold (sheet_line tags) lines (sheet_of d p')))"
      then show thesis using Cons.prems(2) get None by simp
    qed
  next
    case (Some s)
    then show thesis using Cons.prems(1) [of s p' lines] get by simp
  qed
qed

lemma read_songs_sheet:
  assumes "drained d p" "length lines + 2 < n"
  shows "\<exists>songs. read_songs n tags (p, lines) = Some songs \<and>
    d @ songs = sh_songs (close_song (fold (sheet_line tags) lines (sheet_of d p)))"
  using assms
proof (induction n arbitrary: d p lines)
  case (Suc n)
  have get: "CueParser_Get p = (None, p)" using Suc.prems(1) by (simp add: CueParser_Get_def drained_def)
  show ?case
  proof (rule NextSong_lines_cases [OF Suc.prems(1), of tags lines])
    fix s p' tis assume song: "NextSong_lines tags p lines = (Some s, p', tis)" "drained (d @ [s]) p'"
      "fold (sheet_line tags) tis (sheet_of (d @ [s]) p') = fold (sheet_line tags) lines (sheet_of d p)" "length tis < length lines"
    have "length tis + 2 < n" using song(4) Suc.prems(2) by simp
    from Suc.IH [OF song(2) this] show ?thesis using song(1,3) get by (auto simp: CuePlaylist_NextSong_def)
  next
    fix s p' assume last: "NextSong_lines tags p lines = (s, p', [])" "ended p'" "cp_finished p' = None"
      "s = None \<longrightarrow> cp_previous p' = None"
      "d @ slot s @ slot (cp_previous p') = sh_songs (close_song (fold (sheet_line tags) lines (sheet_of d p)))"
    have "length (slot (cp_previous p')) < n" using Suc.prems(2) by (cases "cp_previous p'") auto
    then have "read_songs n tags (p', []) = Some (slot (cp_previous p'))"
      using read_songs_ended [OF last(2), of n tags] last(3) by simp
    then show ?thesis using last get by (cases s) (auto simp: CuePlaylist_NextSong_def)
  qed
qed simp

section \<open>What a song of a sheet looks like\<close>

definition value_ok :: "TagMask \<Rightarrow> TagType \<times> string \<Rightarrow> bool" where
  "value_ok tags i \<longleftrightarrow> IsTagEnabled tags (fst i) \<and> snd i \<noteq> [] \<and> FindInvalidUTF8 (snd i) = None \<and>
     list_all (\<lambda>c. \<not> IsNonPrintableASCII c) (snd i)"

definition cue_song_ok :: "TagMask \<Rightarrow> string set \<Rightarrow> DetachedSong \<Rightarrow> bool" where
  "cue_song_ok tags names s \<longleftrightarrow>
     ds_uri s \<in> names \<and> list_all (value_ok tags) (items (ds_tag s)) \<and>
     (ds_end_time s = 0 \<or> ds_start_time s < ds_end_time s)"

definition file_name :: "string \<Rightarrow> string set" where
  "file_name line =
     (case cue_next_token line of
        (Some command, src) \<Rightarrow>
          (case file_words src of Some (name, _) \<Rightarrow> if command = ''FILE'' then {name} else {} | None \<Rightarrow> {})
      | _ \<Rightarrow> {})"

definition sheet_ok :: "TagMask \<Rightarrow> string set \<Rightarrow> cue_sheet \<Rightarrow> bool" where
  "sheet_ok tags names sh \<longleftrightarrow>
     list_all (value_ok tags) (b_items (sh_header sh)) \<and> list_all (value_ok tags) (b_items (sh_tag sh)) \<and>
     sh_file sh \<in> names \<and> list_all (cue_song_ok tags names) (sh_songs sh) \<and>
     (\<forall>s. sh_open sh = Some s \<longrightarrow> ds_uri s \<in> names \<and> ds_end_time s = 0)"

lemma value_ok_AddItem: "list_all (value_ok tags) (b_items b) \<Longrightarrow> list_all (value_ok tags) (b_items (AddItem tags t v b))"
proof -
  have "fixed_value v \<noteq> []" if "v \<noteq> []" using length_fixed_value [of v] that by (metis length_0_conv)
  then show "list_all (value_ok tags) (b_items b) \<Longrightarrow> ?thesis"
    using fixed_value_valid [of v] fixed_value_printable [of _ v]
    by (auto simp: AddItem_def AddItemInternal_def AddItemUnchecked_def value_ok_def list_all_iff simp flip: fixed_value_def)
qed

lemma value_ok_sheet_tag:
  "list_all (value_ok tags) (b_items b) \<Longrightarrow> list_all (value_ok tags) (b_items (sheet_tag tags command src in_track b))"
  by (auto simp: sheet_tag_def cue_parse_rem_def cue_add_tag_def value_ok_AddItem split: prod.splits option.splits)

lemma sheet_ok_close_song: "sheet_ok tags names sh \<Longrightarrow> sheet_ok tags names (close_song sh)"
  by (auto simp: sheet_ok_def close_song_def Commit_def TagBuilder_Clear_def RemoveAll_def cue_song_ok_def split: option.splits)

lemma list_all_update_last: "\<lbrakk>list_all P xs; \<And>x. P x \<Longrightarrow> P (f x)\<rbrakk> \<Longrightarrow> list_all P (update_last f xs)"
  by (cases xs rule: rev_cases) (auto simp: update_last_def)

lemma cue_song_ok_cut: "cue_song_ok tags names s \<Longrightarrow> cue_song_ok tags names (cut_at t s)"
  by (simp add: cue_song_ok_def cut_at_def)

lemma sheet_ok_mono: "\<lbrakk>sheet_ok tags names sh; names \<subseteq> names'\<rbrakk> \<Longrightarrow> sheet_ok tags names' sh"
  by (auto simp: sheet_ok_def cue_song_ok_def list_all_iff)

lemma sheet_ok_line:
  assumes "sheet_ok tags names sh" "file_name line \<subseteq> names"
  shows "sheet_ok tags names (sheet_line tags line sh)"
proof (cases "cue_next_token line")
  case (Pair command src)
  have "sheet_ok tags names (sheet_track tags src (close_song sh))"
    using sheet_ok_close_song [OF assms(1)]
    by (auto simp: sheet_track_def sheet_ok_def value_ok_AddItem DetachedSong_new_def split: option.splits)
  moreover have "sheet_ok tags names (sheet_index src sh)"
    using assms(1)
    by (auto simp: sheet_index_def sheet_ok_def Let_def intro!: list_all_update_last cue_song_ok_cut split: option.splits)
  moreover have "sheet_ok tags names (sheet_file src (close_song sh))" if "command = Some ''FILE''"
    using sheet_ok_close_song [OF assms(1)] assms(2) that Pair
    by (auto simp: sheet_file_def sheet_ok_def file_name_def split: option.splits)
  moreover have "sheet_ok tags names (sh\<lparr>sh_header := sheet_tag tags c src i (sh_header sh)\<rparr>)"
    "sheet_ok tags names (sh\<lparr>sh_tag := sheet_tag tags c src i (sh_tag sh)\<rparr>)" for c i
    using assms(1) by (simp_all add: sheet_ok_def value_ok_sheet_tag)
  ultimately show ?thesis
    using assms(1) Pair by (cases command; cases "sh_state sh") (simp_all add: sheet_line_def)
qed

lemma sheet_ok_new: "[] \<in> names \<Longrightarrow> sheet_ok tags names sheet_new"
  by (simp add: sheet_ok_def sheet_new_def TagBuilder_empty_def)

lemma sheet_songs_ok: "list_all (cue_song_ok tags (insert [] (\<Union> (file_name ` set lines)))) (sheet_songs tags lines)"
proof -
  let ?names = "insert [] (\<Union> (file_name ` set lines))"
  have "sheet_ok tags ?names (fold (sheet_line tags) lines sheet_new)"
    by (rule fold_invariant_set) (auto intro: sheet_ok_new sheet_ok_line)
  from sheet_ok_close_song [OF this] show ?thesis by (simp add: sheet_songs_def sheet_ok_def)
qed

section \<open>Positions that fit\<close>

lemma cue_digits_run:
  "\<lbrakk>list_all IsDigitASCII ds; \<not> IsDigit rest\<rbrakk> \<Longrightarrow>
   cue_digits val (ds @ rest) = (foldl (\<lambda>a c. a * 10 + of_nat (digit_val c)) val ds, rest)"
proof (induction ds arbitrary: val)
  case Nil
  then show ?case by (cases rest) (auto simp: IsDigit_def)
qed simp

lemma foldl_digits_word: "foldl (\<lambda>a c. a * 10 + of_nat (digit_val c)) (of_nat n) ds =
    (of_nat (foldl (\<lambda>a c. 10 * a + digit_val c) n ds) :: 32 word)"
proof (induction ds arbitrary: n)
  case (Cons c ds)
  show ?case using Cons [of "10 * n + digit_val c"] by (simp add: ac_simps)
qed simp

lemma cue_next_unsigned_fmt:
  assumes "\<not> IsDigit rest"
  shows "cue_next_unsigned (fmt_uint n @ rest) = (of_nat n, Some rest)"
proof -
  have "list_all IsDigitASCII (fmt_uint n)" using fmt_uint_digits by (auto simp: list_all_iff)
  then have "cue_digits 0 (fmt_uint n @ rest) = (of_nat (digits_val (fmt_uint n)), rest)"
    using cue_digits_run [OF _ assms, of "fmt_uint n" 0] foldl_digits_word [of 0 "fmt_uint n"]
    by (simp add: digits_val_def)
  moreover have "IsDigit (fmt_uint n @ rest)" by (rule fmt_uint_Cons [of n]) (simp add: IsDigit_def)
  ultimately show ?thesis by (simp add: cue_next_unsigned_def)
qed

definition cue_position :: "nat \<Rightarrow> nat \<Rightarrow> nat \<Rightarrow> string" where
  "cue_position m s f = fmt_uint m @ '':'' @ fmt_uint s @ '':'' @ fmt_uint f"

lemma cue_parse_position_wraps:
  "cue_parse_position (cue_position m s f) =
     int32_of (int (unat (of_nat m * 60000 + of_nat s * 1000 :: 32 word)) + int (unat (of_nat f :: 32 word) * 1000 div 75))"
proof -
  have colon: "\<not> IsDigit ('':'' @ r)" for r by (simp add: IsDigit_def IsDigitASCII_def)
  have "cue_next_unsigned (fmt_uint f) = (of_nat f, Some [])"
    using cue_next_unsigned_fmt [of "[]" f] by (simp add: IsDigit_def)
  then show ?thesis
    using cue_next_unsigned_fmt [OF colon, of m "fmt_uint s @ '':'' @ fmt_uint f"] cue_next_unsigned_fmt [OF colon, of s "fmt_uint f"]
    by (simp add: cue_parse_position_def cue_position_def after_colon_def)
qed

lemma cue_parse_position_exact:
  assumes "m * 60000 + s * 1000 + f * 1000 div 75 < 2 ^ 31"
  shows "cue_parse_position (cue_position m s f) = int (m * 60000 + s * 1000 + f * 1000 div 75)"
proof -
  have f: "f < 2 ^ 32" using assms by simp
  have ms: "m * 60000 + s * 1000 < 2 ^ 32" using assms by simp
  have "unat (of_nat m * 60000 + of_nat s * 1000 :: 32 word) = unat (of_nat (m * 60000 + s * 1000) :: 32 word)" by simp
  also have "\<dots> = m * 60000 + s * 1000" using ms by (subst unat_of_nat) simp
  finally have "unat (of_nat m * 60000 + of_nat s * 1000 :: 32 word) = m * 60000 + s * 1000" .
  moreover have "unat (of_nat f :: 32 word) = f" using f by (simp add: unat_of_nat)
  moreover have "int32_of (int k) = int k" if "k < 2 ^ 31" for k :: nat using that by (simp add: int32_of_def)
  ultimately show ?thesis using assms by (simp only: cue_parse_position_wraps of_nat_add [symmetric])
qed

section \<open>Words on a line\<close>

lemma cue_token_word:
  assumes "w \<noteq> []" "list_all (\<lambda>c. \<not> IsWhitespaceOrNull c) w" "rest = [] \<or> IsWhitespaceOrNull (hd rest)"
  shows "cue_next_token (w @ rest) = (Some w, rest)" "cue_next_token (CHR '' '' # w @ rest) = (Some w, rest)"
proof -
  obtain c w' where w: "w = c # w'" "\<not> IsWhitespaceOrNull c" using assms(1,2) by (cases w) auto
  have "takeWhile (\<lambda>ch. \<not> IsWhitespaceOrNull ch) (w @ rest) = w" "dropWhile (\<lambda>ch. \<not> IsWhitespaceOrNull ch) (w @ rest) = rest"
    using assms(2,3) by (cases rest; simp add: list_all_iff takeWhile_append2 dropWhile_append2)+
  then have word: "cue_next_word (w @ rest) = (w, rest)" by (simp add: cue_next_word_def)
  moreover have "StripLeft_view (w @ rest) = w @ rest" using w by (simp add: StripLeft_view_def)
  moreover have "StripLeft_view (CHR '' '' # w @ rest) = w @ rest" using w by (simp add: StripLeft_view_def IsWhitespaceOrNull_def)
  ultimately show "cue_next_token (w @ rest) = (Some w, rest)" "cue_next_token (CHR '' '' # w @ rest) = (Some w, rest)"
    using assms(1) by (simp_all add: cue_next_token_def)
qed

definition file_line :: "string \<Rightarrow> string" where
  "file_line name = ''FILE '' @ CHR 0x22 # name @ CHR 0x22 # '' WAVE''"

lemma sheet_line_file:
  assumes "CHR 0x22 \<notin> set name"
  shows "sheet_line tags (file_line name) sh = (close_song sh)\<lparr>sh_state := WAVE, sh_file := name\<rparr>"
proof -
  have "cue_next_token (file_line name) = (Some ''FILE'', CHR '' '' # CHR 0x22 # name @ CHR 0x22 # '' WAVE'')"
    using cue_token_word(1) [of "''FILE''" "CHR '' '' # CHR 0x22 # name @ CHR 0x22 # '' WAVE''"]
    by (simp add: file_line_def IsWhitespaceOrNull_def)
  moreover have "file_words (CHR '' '' # CHR 0x22 # name @ CHR 0x22 # '' WAVE'') = Some (name, ''WAVE'')"
    using assms takeWhile_neq_append [of "CHR 0x22" name "'' WAVE''"] dropWhile_neq_append [of "CHR 0x22" name "'' WAVE''"]
      cue_token_word(2) [of "''WAVE''" "[]"]
    by (simp add: file_words_def cue_next_value_def StripLeft_view_def IsWhitespaceOrNull_def cue_next_quoted_def Split_def)
  ultimately show ?thesis by (simp add: sheet_line_def sheet_file_def)
qed

definition track_line :: "string \<Rightarrow> string" where
  "track_line nr = ''  TRACK '' @ nr @ '' AUDIO''"

definition index_line :: "string \<Rightarrow> string" where
  "index_line position = ''    INDEX 01 '' @ position"

definition cue_word :: "string \<Rightarrow> bool" where
  "cue_word w \<longleftrightarrow> w \<noteq> [] \<and> list_all (\<lambda>c. \<not> IsWhitespaceOrNull c) w"

lemma two_words_two: "\<lbrakk>cue_word a; cue_word b\<rbrakk> \<Longrightarrow> two_words (CHR '' '' # a @ CHR '' '' # b) = Some (a, b)"
  using cue_token_word(2) [of a "CHR '' '' # b"] cue_token_word(2) [of b "[]"]
  by (simp add: two_words_def cue_word_def IsWhitespaceOrNull_def)

lemma sheet_line_track:
  assumes "cue_word nr" "sh_state sh \<noteq> IGNORE_FILE"
  shows "sheet_line tags (track_line nr) sh =
    (close_song sh)\<lparr>sh_state := TRACK, sh_indexed := False, sh_open := Some (DetachedSong_new (sh_file sh)),
       sh_tag := AddItem tags TAG_TRACK nr (sh_header sh)\<rparr>"
proof -
  have "cue_next_token (track_line nr) = (Some ''TRACK'', CHR '' '' # nr @ CHR '' '' # ''AUDIO'')"
    using cue_token_word(1) [of "''TRACK''" "CHR '' '' # nr @ CHR '' '' # ''AUDIO''"]
    by (simp add: track_line_def cue_next_token_def StripLeft_view_def IsWhitespaceOrNull_def)
  moreover have "two_words (CHR '' '' # nr @ CHR '' '' # ''AUDIO'') = Some (nr, ''AUDIO'')"
    using two_words_two [OF assms(1), of "''AUDIO''"] by (simp add: cue_word_def IsWhitespaceOrNull_def)
  moreover have "sh_file (close_song sh) = sh_file sh" "sh_header (close_song sh) = sh_header sh"
    by (simp_all add: close_song_def split: option.split)
  ultimately show ?thesis using assms(2) by (simp add: sheet_line_def sheet_track_def)
qed

lemma sheet_line_index:
  assumes "cue_word position" "0 \<le> cue_parse_position position" "sh_state sh = TRACK" "\<not> sh_indexed sh"
  shows "sheet_line tags (index_line position) sh =
    sh\<lparr>sh_songs := update_last (cut_at (word_of_int (cue_parse_position position))) (sh_songs sh),
       sh_open := map_option (\<lambda>s. s\<lparr>ds_start_time := word_of_int (cue_parse_position position)\<rparr>) (sh_open sh),
       sh_indexed := True\<rparr>"
proof -
  have "cue_next_token (index_line position) = (Some ''INDEX'', CHR '' '' # ''01'' @ CHR '' '' # position)"
    using cue_token_word(1) [of "''INDEX''" "CHR '' '' # ''01'' @ CHR '' '' # position"]
    by (simp add: index_line_def cue_next_token_def StripLeft_view_def IsWhitespaceOrNull_def)
  moreover have "two_words (CHR '' '' # ''01'' @ CHR '' '' # position) = Some (''01'', position)"
    by (rule two_words_two) (use assms(1) in \<open>simp_all add: cue_word_def IsWhitespaceOrNull_def\<close>)
  ultimately show ?thesis using assms by (simp add: sheet_line_def sheet_index_def Let_def)
qed

section \<open>Properties\<close>

lemma drained_new: "drained [] CueParser_new" "sheet_of [] CueParser_new = sheet_new"
  by (simp_all add: drained_def CueParser_new_def sheet_of_def sheet_new_def)

lemma read_songs_new:
  "read_songs (length lines + 3 + k) tags (CueParser_new, lines) = Some (sheet_songs tags lines)"
  using read_songs_sheet [OF drained_new(1), of lines "length lines + 3 + k" tags]
  by (simp add: drained_new(2) sheet_songs_def)

text \<open>
  Property C38 (refinement): enumerating a CUE sheet through the three song slots of the parser
  gives exactly the songs of the sheet read in one go, each once and in order; the caller gets
  null after at most two calls more than there are lines.
\<close>

theorem cue_songs_complete:
  "read_songs (length lines + 3 + k) tags (CueParser_new, lines) = Some (sheet_songs tags lines)"
  by (rule read_songs_new)


text \<open>
  A position of minutes, seconds and frames is converted exactly as long
  as the milliseconds fit into 31 bits; the intermediate 32-bit products do not wrap then.
\<close>

lemma cue_parse_position_correct:
  assumes "m * 60000 + s * 1000 + f * 1000 div 75 < 2 ^ 31"
  shows "cue_parse_position (fmt_uint m @ '':'' @ fmt_uint s @ '':'' @ fmt_uint f) =
    int (m * 60000 + s * 1000 + f * 1000 div 75)"
  using cue_parse_position_exact [OF assms] by (simp add: cue_position_def)

text \<open>
  An index of a track cuts the song before it also when that song is in
  another file. In a sheet with one file for each track the first track gets an end as soon as
  the second file starts with a gap, whatever the length of the first file.
\<close>

lemma cue_index_cuts_other_file:
  assumes "CHR 0x22 \<notin> set a" "CHR 0x22 \<notin> set b" "cue_word pos" "0 < cue_parse_position pos"
  shows "\<exists>first second.
    read_songs 9 tags (CueParser_new, [file_line a, track_line ''01'', index_line ''00:00:00'',
       file_line b, track_line ''02'', index_line pos]) = Some [first, second] \<and>
    ds_uri first = a \<and> ds_uri second = b \<and> ds_start_time first = 0 \<and>
    ds_end_time first = word_of_int (cue_parse_position pos)"
proof -
  let ?lines = "[file_line a, track_line ''01'', index_line ''00:00:00'', file_line b, track_line ''02'', index_line pos]"
  let ?t = "word_of_int (cue_parse_position pos) :: SongTime"
  have zero: "cue_parse_position ''00:00:00'' = 0" by code_simp
  have words: "cue_word ''01''" "cue_word ''02''" "cue_word ''00:00:00''" by code_simp+
  have "cue_parse_position pos < 2 ^ 31"
    by (auto simp: cue_parse_position_def int32_of_def split: prod.splits option.splits list.splits)
  then have "0 < ?t" using assms(4) by (simp add: word_less_alt take_bit_int_eq_self uint_word_of_int)
  then have "sheet_songs tags ?lines =
      [(DetachedSong_new a)\<lparr>ds_tag := fst (Commit (AddItem tags TAG_TRACK ''01'' TagBuilder_empty)), ds_end_time := ?t\<rparr>,
       (DetachedSong_new b)\<lparr>ds_tag := fst (Commit (AddItem tags TAG_TRACK ''02'' TagBuilder_empty)), ds_start_time := ?t\<rparr>]"
    using assms words zero
    by (simp add: sheet_songs_def sheet_line_file sheet_line_track sheet_line_index sheet_new_def close_song_def update_last_def
        cut_at_def DetachedSong_new_def)
  then show ?thesis using read_songs_new [of ?lines 0 tags] by (simp add: DetachedSong_new_def)
qed

end
