(* ===== verification/Iso8601.thy ===== *)
theory Iso8601
  imports Util_Text
begin

text \<open>
  Time stamps as text: time/ISO8601.cxx with the parts of time/Calendar.hxx, time/Math.cxx and
  time/Convert.cxx it uses. \<open>struct tm\<close> is a record of the fields that take part; the C library
  functions \<open>timegm\<close>, \<open>gmtime_r\<close>, \<open>strftime\<close> and \<open>strptime\<close> are modelled for the formats that
  occur. A time point is a 64-bit count of nanoseconds, so that years from 1677 to 2262 can be
  represented; \<open>from_time_t\<close> of anything else wraps around.
\<close>

section \<open>Calendar\<close>

definition IsLeapYear :: "int \<Rightarrow> bool" where
  "IsLeapYear y \<longleftrightarrow> y mod 4 = 0 \<and> (y mod 100 \<noteq> 0 \<or> y mod 400 = 0)"

definition DaysInFebruary :: "int \<Rightarrow> int" where
  "DaysInFebruary year = (if IsLeapYear year then 29 else 28)"

definition DaysInMonth :: "int \<Rightarrow> int \<Rightarrow> int" where
  "DaysInMonth month year =
     (if month = 4 \<or> month = 6 \<or> month = 9 \<or> month = 11 then 30
      else if month \<noteq> 2 then 31
      else DaysInFebruary year)"

definition DaysInYear :: "int \<Rightarrow> int" where
  "DaysInYear year = (if IsLeapYear year then 366 else 365)"

record tm =
  tm_year :: int
  tm_mon :: int
  tm_mday :: int
  tm_hour :: int
  tm_min :: int
  tm_sec :: int

definition tm_zero :: tm where
  "tm_zero = \<lparr>tm_year = 0, tm_mon = 0, tm_mday = 0, tm_hour = 0, tm_min = 0, tm_sec = 0\<rparr>"

definition IncrementMonth :: "tm \<Rightarrow> tm" where
  "IncrementMonth t =
     (if 12 \<le> tm_mon t + 1 then t\<lparr>tm_mon := 0, tm_year := tm_year t + 1\<rparr>
      else t\<lparr>tm_mon := tm_mon t + 1\<rparr>)"

definition EndOfMonth :: "tm \<Rightarrow> tm" where
  "EndOfMonth t = IncrementMonth (t\<lparr>tm_sec := 0, tm_min := 0, tm_hour := 0, tm_mday := 1\<rparr>)"

text \<open>
  \<open>timegm\<close>: the month is in range after \<open>strptime\<close>; the other fields count linearly, so that
  the 31st of a shorter month is a day of the next one.
\<close>

definition leaps_through :: "int \<Rightarrow> int" where
  "leaps_through y = y div 4 - y div 100 + y div 400"

definition days_before_year :: "int \<Rightarrow> int" where
  "days_before_year y = 365 * (y - 1970) + leaps_through (y - 1) - leaps_through 1969"

definition days_before_month :: "int \<Rightarrow> int \<Rightarrow> int" where
  "days_before_month m y = sum_list (map (\<lambda>k. DaysInMonth k y) [1..m])"

definition timegm :: "tm \<Rightarrow> int" where
  "timegm t =
     (let year = tm_year t + 1900;
          days = days_before_year year + days_before_month (tm_mon t) year + tm_mday t - 1
      in ((days * 24 + tm_hour t) * 60 + tm_min t) * 60 + tm_sec t)"

text \<open>\<open>gmtime_r\<close>: the year and the month by subtracting their lengths.\<close>

function year_and_day :: "int \<Rightarrow> int \<Rightarrow> int \<times> int" where
  "year_and_day y d =
     (if d < 0 then year_and_day (y - 1) (d + DaysInYear (y - 1))
      else if DaysInYear y \<le> d then year_and_day (y + 1) (d - DaysInYear y)
      else (y, d))"
  by pat_completeness auto
termination
  by (relation "measure (\<lambda>(y, d). nat (if d < 0 then 400 - d else d))")
    (auto simp: DaysInYear_def split: if_splits)

function month_and_day :: "int \<Rightarrow> int \<Rightarrow> int \<Rightarrow> int \<times> int" where
  "month_and_day y m d =
     (if m < 12 \<and> DaysInMonth m y \<le> d then month_and_day y (m + 1) (d - DaysInMonth m y) else (m, d))"
  by pat_completeness auto
termination
  by (relation "measure (\<lambda>(y, m, d). nat (12 - m))") auto

declare year_and_day.simps [simp del] month_and_day.simps [simp del]

definition gmtime_r :: "int \<Rightarrow> tm" where
  "gmtime_r t =
     (let (year, yday) = year_and_day 1970 (t div 86400);
          (month, mday) = month_and_day year 1 yday;
          r = t mod 86400
      in \<lparr>tm_year = year - 1900, tm_mon = month - 1, tm_mday = mday + 1,
          tm_hour = r div 3600, tm_min = r mod 3600 div 60, tm_sec = r mod 60\<rparr>)"

definition GmTime :: "time_point \<Rightarrow> tm" where
  "GmTime tp = gmtime_r (to_time_t tp)"

definition TimeGm :: "tm \<Rightarrow> time_point" where
  "TimeGm t = int64_of (from_time_t (timegm t))"

section \<open>Formatting\<close>

fun fixed_digits :: "nat \<Rightarrow> nat \<Rightarrow> string" where
  "fixed_digits 0 n = []"
| "fixed_digits (Suc k) n = fixed_digits k (n div 10) @ [digit_char (n mod 10)]"

text \<open>\<open>strftime\<close> with \<open>%FT%TZ\<close>.\<close>

definition FormatISO8601_tm :: "tm \<Rightarrow> string" where
  "FormatISO8601_tm t =
     fixed_digits 4 (nat (tm_year t + 1900)) @ ''-'' @ fixed_digits 2 (nat (tm_mon t + 1)) @ ''-'' @
     fixed_digits 2 (nat (tm_mday t)) @ ''T'' @ fixed_digits 2 (nat (tm_hour t)) @ '':'' @
     fixed_digits 2 (nat (tm_min t)) @ '':'' @ fixed_digits 2 (nat (tm_sec t)) @ ''Z''"

definition FormatISO8601 :: "time_point \<Rightarrow> string" where
  "FormatISO8601 tp = FormatISO8601_tm (GmTime tp)"

section \<open>Parsing\<close>

text \<open>
  \<open>strptime\<close>: a number is preceded by any number of blanks, has at most \<open>n\<close> digits and stops
  early when another digit would exceed its range. A failing conversion leaves its field alone;
  the fields before it have been set.
\<close>

fun get_digits :: "nat \<Rightarrow> nat \<Rightarrow> nat \<Rightarrow> string \<Rightarrow> nat \<times> string" where
  "get_digits hi n val [] = (val, [])"
| "get_digits hi n val (c # s) =
     (if 0 < n \<and> val * 10 \<le> hi \<and> IsDigitASCII c then get_digits hi (n - 1) (val * 10 + digit_val c) s
      else (val, c # s))"

definition get_number :: "nat \<Rightarrow> nat \<Rightarrow> nat \<Rightarrow> string \<Rightarrow> (nat \<times> string) option" where
  "get_number lo hi n s =
     (case dropWhile (\<lambda>c. c = CHR '' '') s of
        [] \<Rightarrow> None
      | c # r \<Rightarrow>
          if \<not> IsDigitASCII c then None
          else (case get_digits hi (n - 1) (digit_val c) r of
                  (val, r') \<Rightarrow> if lo \<le> val \<and> val \<le> hi then Some (val, r') else None))"

datatype conversion = Literal char | Conv_Y | Conv_m | Conv_d | Conv_H | Conv_M | Conv_S

fun conversion_range :: "conversion \<Rightarrow> nat \<times> nat \<times> nat" where
  "conversion_range Conv_Y = (0, 9999, 4)"
| "conversion_range Conv_m = (1, 12, 2)"
| "conversion_range Conv_d = (1, 31, 2)"
| "conversion_range Conv_H = (0, 23, 2)"
| "conversion_range Conv_M = (0, 59, 2)"
| "conversion_range Conv_S = (0, 61, 2)"
| "conversion_range (Literal c) = (0, 0, 0)"

fun conversion_store :: "conversion \<Rightarrow> nat \<Rightarrow> tm \<Rightarrow> tm" where
  "conversion_store Conv_Y val t = t\<lparr>tm_year := int val - 1900\<rparr>"
| "conversion_store Conv_m val t = t\<lparr>tm_mon := int val - 1\<rparr>"
| "conversion_store Conv_d val t = t\<lparr>tm_mday := int val\<rparr>"
| "conversion_store Conv_H val t = t\<lparr>tm_hour := int val\<rparr>"
| "conversion_store Conv_M val t = t\<lparr>tm_min := int val\<rparr>"
| "conversion_store Conv_S val t = t\<lparr>tm_sec := int val\<rparr>"
| "conversion_store (Literal c) val t = t"

fun strptime :: "string \<Rightarrow> conversion list \<Rightarrow> tm \<Rightarrow> string option \<times> tm" where
  "strptime s [] t = (Some s, t)"
| "strptime s (Literal c # fmt) t =
     (case s of x # r \<Rightarrow> if x = c then strptime r fmt t else (None, t) | [] \<Rightarrow> (None, t))"
| "strptime s (conv # fmt) t =
     (case conversion_range conv of (lo, hi, n) \<Rightarrow>
        (case get_number lo hi n s of
           None \<Rightarrow> (None, t)
         | Some (val, r) \<Rightarrow> strptime r fmt (conversion_store conv val t)))"

definition uint32 :: "nat \<Rightarrow> nat" where
  "uint32 n = n mod 2 ^ 32"

definition ParseTimeZoneOffsetRaw :: "string \<Rightarrow> string + (nat \<times> nat) \<times> string" where
  "ParseTimeZoneOffsetRaw s =
     (case strtoul s of (val, endptr) \<Rightarrow>
        if length s = length endptr + 4 then Inr ((uint32 (val div 100), uint32 (val mod 100)), endptr)
        else if length s = length endptr + 2 then
          (case endptr of
             c # s2 \<Rightarrow>
               if c = CHR '':'' then
                 (case strtoul s2 of (minutes, end2) \<Rightarrow>
                    if length s2 \<noteq> length end2 + 2 then Inl ''Failed to parse time zone offset''
                    else Inr ((uint32 val, uint32 minutes), end2))
               else Inr ((uint32 val, 0), endptr)
           | [] \<Rightarrow> Inr ((uint32 val, 0), endptr))
        else Inl ''Failed to parse time zone offset'')"

text \<open>The sign character is there: the caller has seen it.\<close>

definition ParseTimeZoneOffset :: "string \<Rightarrow> string + int \<times> string" where
  "ParseTimeZoneOffset s =
     (case ParseTimeZoneOffsetRaw (tl s) of
        Inl e \<Rightarrow> Inl e
      | Inr ((hours, minutes), rest) \<Rightarrow>
          if 13 < hours then Inl ''Time offset hours out of range''
          else if 60 \<le> minutes then Inl ''Time offset minutes out of range''
          else let d = (int hours * 3600 + int minutes * 60) * nanos_per_second
               in Inr (if hd s = CHR ''-'' then - d else d, rest))"

definition at_char :: "char \<Rightarrow> string \<Rightarrow> bool" where
  "at_char c s \<longleftrightarrow> s \<noteq> [] \<and> hd s = c"

definition ParseTimeOfDay_colon :: "string \<Rightarrow> tm \<Rightarrow> string option \<times> tm \<times> int" where
  "ParseTimeOfDay_colon s t =
     (let hour = 3600 * nanos_per_second; minute = 60 * nanos_per_second in
      case strptime s [Conv_M] t of
        (None, t1) \<Rightarrow> (None, t1, hour)
      | (Some s1, t1) \<Rightarrow>
          if s1 = s then (None, t1, hour)
          else if \<not> at_char CHR '':'' s1 then (Some s1, t1, minute)
          else (case strptime (tl s1) [Conv_S] t1 of
                  (None, t2) \<Rightarrow> (None, t2, minute)
                | (Some s2, t2) \<Rightarrow> if s2 = tl s1 then (None, t2, minute) else (Some s2, t2, nanos_per_second)))"

definition ParseTimeOfDay_plain :: "string \<Rightarrow> tm \<Rightarrow> string option \<times> tm \<times> int" where
  "ParseTimeOfDay_plain s t =
     (let hour = 3600 * nanos_per_second; minute = 60 * nanos_per_second in
      case strptime s [Conv_M] t of
        (None, t1) \<Rightarrow> (Some s, t1, hour)
      | (Some s1, t1) \<Rightarrow>
          if s1 = s then (Some s, t1, hour)
          else (case strptime s1 [Conv_S] t1 of
                  (None, t2) \<Rightarrow> (Some s1, t2, minute)
                | (Some s2, t2) \<Rightarrow> if s2 = s1 then (Some s1, t2, minute) else (Some s2, t2, nanos_per_second)))"

definition ParseTimeOfDay :: "string \<Rightarrow> tm \<Rightarrow> int \<Rightarrow> string option \<times> tm \<times> int" where
  "ParseTimeOfDay s t precision =
     (case strptime s [Conv_H] t of
        (None, t1) \<Rightarrow> (None, t1, precision)
      | (Some s1, t1) \<Rightarrow>
          if s1 = s then (Some s1, t1, precision)
          else if at_char CHR '':'' s1 then ParseTimeOfDay_colon (tl s1) t1
          else ParseTimeOfDay_plain s1 t1)"

text \<open>The zone and the end of the text.\<close>

definition ParseISO8601_zone :: "string \<Rightarrow> time_point \<Rightarrow> string + time_point" where
  "ParseISO8601_zone s tp =
     (case (if at_char CHR ''Z'' s then Inr (tp, tl s)
            else if at_char CHR ''+'' s \<or> at_char CHR ''-'' s then
              (case ParseTimeZoneOffset s of
                 Inl e \<Rightarrow> Inl e
               | Inr (d, rest) \<Rightarrow> Inr (int64_of (tp - d), rest))
            else Inr (tp, s)) of
        Inl e \<Rightarrow> Inl e
      | Inr (tp', rest) \<Rightarrow> if rest \<noteq> [] then Inl ''Garbage at end of time stamp'' else Inr tp')"

definition ParseISO8601_date :: "string \<Rightarrow> tm \<Rightarrow> string option \<times> tm" where
  "ParseISO8601_date s t =
     (case strptime s [Conv_Y, Literal CHR ''-'', Conv_m, Literal CHR ''-'', Conv_d] t of
        (None, t1) \<Rightarrow> strptime s [Conv_Y, Conv_m, Conv_d] t1
      | (Some s1, t1) \<Rightarrow> (Some s1, t1))"

definition ParseISO8601 :: "string \<Rightarrow> string + time_point \<times> int" where
  "ParseISO8601 s =
     (case strptime s [Conv_Y, Literal CHR ''-'', Conv_m] tm_zero of
        (month_end, t0) \<Rightarrow>
          if month_end = Some [] then
            (let t1 = t0\<lparr>tm_mday := 1\<rparr>; start = TimeGm t1
             in Inr (start, int64_of (TimeGm (EndOfMonth t1) - start)))
          else
            (case ParseISO8601_date s t0 of
               (None, _) \<Rightarrow> Inl ''Failed to parse date''
             | (Some s1, t2) \<Rightarrow>
                 (case (if at_char CHR ''T'' s1 then ParseTimeOfDay (tl s1) t2 (86400 * nanos_per_second)
                        else (Some s1, t2, 86400 * nanos_per_second)) of
                    (None, _) \<Rightarrow> Inl ''Failed to parse time of day''
                  | (Some s3, t3, precision) \<Rightarrow>
                      (case ParseISO8601_zone s3 (TimeGm t3) of
                         Inl e \<Rightarrow> Inl e
                       | Inr tp \<Rightarrow> Inr (tp, precision)))))"

section \<open>The calendar functions are inverse\<close>

lemma div_step: "y div k - (y - 1) div k = (if y mod k = 0 then 1 else (0 :: int))" if "0 < k"
proof -
  have "(y - 1) div k = y div k + (if y mod k = 0 then - 1 else 0)"
  proof (cases "y mod k = 0")
    case True
    then have "y - 1 = (k - 1) + (y div k - 1) * k" using div_mult_mod_eq [of y k] by (simp add: algebra_simps)
    then have "(y - 1) div k = (k - 1) div k + (y div k - 1)" using that by (metis add.commute div_mult_self1 less_irrefl mult.commute)
    then show ?thesis using True that by (simp add: div_pos_pos_trivial)
  next
    case False
    then have "0 < y mod k" using that by (simp add: order_less_le)
    have "y - 1 = (y mod k - 1) + y div k * k" using div_mult_mod_eq [of y k] by simp
    then have "(y - 1) div k = (y mod k - 1) div k + y div k" using that by (metis add.commute div_mult_self1 less_irrefl mult.commute)
    moreover have "(y mod k - 1) div k = 0"
      using \<open>0 < y mod k\<close> that pos_mod_bound [OF that, of y] by (intro div_pos_pos_trivial) linarith+
    ultimately show ?thesis using False by simp
  qed
  then show ?thesis by simp
qed

lemma alternating_step:
  fixes a b c :: int
  assumes "a - a' = (if p then 1 else 0)" "b - b' = (if q then 1 else 0)" "c - c' = (if r then 1 else 0)" "r \<Longrightarrow> q" "q \<Longrightarrow> p"
  shows "a - b + c = a' - b' + c' + (if p \<and> (\<not> q \<or> r) then 1 else 0)"
  using assms by (auto split: if_splits)

lemma leaps_step: "leaps_through y = leaps_through (y - 1) + (if IsLeapYear y then 1 else 0)"
proof -
  have "y mod 400 = 0 \<Longrightarrow> y mod 100 = 0" "y mod 100 = 0 \<Longrightarrow> y mod 4 = 0" by presburger+
  then show ?thesis
    unfolding leaps_through_def IsLeapYear_def by (intro alternating_step div_step) simp_all
qed

lemma days_before_next_year: "days_before_year (y + 1) = days_before_year y + DaysInYear y"
  using leaps_step [of y] by (simp add: days_before_year_def DaysInYear_def)

lemma year_and_day_correct:
  "year_and_day y d = (y', d') \<Longrightarrow>
   days_before_year y' + d' = days_before_year y + d \<and> 0 \<le> d' \<and> d' < DaysInYear y'"
proof (induction y d rule: year_and_day.induct)
  case (1 y d)
  consider "d < 0" | "0 \<le> d" "DaysInYear y \<le> d" | "0 \<le> d" "d < DaysInYear y" by linarith
  then show ?case
  proof cases
    case 1
    then have "year_and_day (y - 1) (d + DaysInYear (y - 1)) = (y', d')" using "1.prems" by (simp add: year_and_day.simps [of y d])
    then show ?thesis using "1.IH"(1) [OF 1] days_before_next_year [of "y - 1"] by simp
  next
    case 2
    then have "year_and_day (y + 1) (d - DaysInYear y) = (y', d')" using "1.prems" by (simp add: year_and_day.simps [of y d])
    then show ?thesis using "1.IH"(2) 2 days_before_next_year [of y] by simp
  next
    case 3
    then show ?thesis using "1.prems" by (simp add: year_and_day.simps [of y d])
  qed
qed

lemma leaps_mono: "x \<le> y \<Longrightarrow> leaps_through x \<le> leaps_through y"
proof (induction y rule: int_ge_induct)
  case (step y)
  then show ?case using leaps_step [of "y + 1"] by simp
qed simp

lemma year_bounds:
  assumes "days_before_year y + d = n" "0 \<le> d" "d < DaysInYear y" "- 110000 \<le> n" "n \<le> 110000"
  shows "1600 \<le> y" "y \<le> 2300"
proof -
  have d: "d < 366" using assms(3) by (simp add: DaysInYear_def split: if_splits)
  show "1600 \<le> y"
  proof (rule ccontr)
    assume "\<not> 1600 \<le> y"
    then have "leaps_through (y - 1) \<le> leaps_through 1969" by (intro leaps_mono) simp
    then show False using assms d \<open>\<not> 1600 \<le> y\<close> by (simp add: days_before_year_def)
  qed
  show "y \<le> 2300"
  proof (rule ccontr)
    assume "\<not> y \<le> 2300"
    then have "leaps_through 1969 \<le> leaps_through (y - 1)" by (intro leaps_mono) simp
    then show False using assms \<open>\<not> y \<le> 2300\<close> by (simp add: days_before_year_def)
  qed
qed

lemma days_before_next_month: "1 \<le> m \<Longrightarrow> days_before_month m y = days_before_month (m - 1) y + DaysInMonth m y"
  by (simp add: days_before_month_def upto_rec2)

lemma days_of_year: "days_before_month 12 y = DaysInYear y"
  by (simp add: days_before_month_def upto_rec1 DaysInMonth_def DaysInFebruary_def DaysInYear_def)

lemma month_and_day_correct:
  "\<lbrakk>month_and_day y m d = (m', d'); 1 \<le> m; m \<le> 12; 0 \<le> d; days_before_month (m - 1) y + d < DaysInYear y\<rbrakk> \<Longrightarrow>
   days_before_month (m' - 1) y + d' = days_before_month (m - 1) y + d \<and> 1 \<le> m' \<and> m' \<le> 12 \<and> 0 \<le> d' \<and> d' < DaysInMonth m' y"
proof (induction y m d rule: month_and_day.induct)
  case (1 y m d)
  show ?case
  proof (cases "m < 12 \<and> DaysInMonth m y \<le> d")
    case True
    then have "month_and_day y (m + 1) (d - DaysInMonth m y) = (m', d')"
      using "1.prems"(1) by (simp add: month_and_day.simps [of y m d])
    then show ?thesis using "1.IH" [OF True] True "1.prems" days_before_next_month [of m y] by simp
  next
    case False
    then have "m' = m" "d' = d" using "1.prems"(1) by (auto simp: month_and_day.simps [of y m d])
    moreover have "d < DaysInMonth m y" if "m = 12"
      using "1.prems"(5) days_before_next_month [of 12 y] days_of_year [of y] that by simp
    ultimately show ?thesis using False "1.prems" by auto
  qed
qed

lemma DaysInMonth_bound: "DaysInMonth m y \<le> 31"
  by (simp add: DaysInMonth_def DaysInFebruary_def)

lemma gmtime_fields:
  assumes "t = gmtime_r n"
  shows "timegm t = n" "0 \<le> tm_mon t" "tm_mon t \<le> 11" "1 \<le> tm_mday t" "tm_mday t \<le> 31"
    "0 \<le> tm_hour t" "tm_hour t \<le> 23" "0 \<le> tm_min t" "tm_min t \<le> 59" "0 \<le> tm_sec t" "tm_sec t \<le> 59"
    "\<lbrakk>- 110000 * 86400 \<le> n; n \<le> 110000 * 86400\<rbrakk> \<Longrightarrow> 1600 \<le> tm_year t + 1900 \<and> tm_year t + 1900 \<le> 2300"
proof -
  obtain y yd where y: "year_and_day 1970 (n div 86400) = (y, yd)" by fastforce
  note Y = year_and_day_correct [OF y]
  have epoch: "days_before_year 1970 = 0" by (simp add: days_before_year_def)
  obtain m md where m: "month_and_day y 1 yd = (m, md)" by fastforce
  have "days_before_month 0 y = 0" by (simp add: days_before_month_def)
  then have M: "days_before_month (m - 1) y + md = yd" "1 \<le> m" "m \<le> 12" "0 \<le> md" "md < DaysInMonth m y"
    using month_and_day_correct [OF m] Y by simp_all
  define r where "r = n mod 86400"
  have r: "0 \<le> r" "r < 86400" by (simp_all add: r_def)
  have t: "t = \<lparr>tm_year = y - 1900, tm_mon = m - 1, tm_mday = md + 1, tm_hour = r div 3600,
      tm_min = r mod 3600 div 60, tm_sec = r mod 60\<rparr>"
    using assms y m by (simp add: gmtime_r_def r_def Let_def)
  have "r mod 3600 mod 60 = r mod 60" by (rule mod_mod_cancel) simp
  then have "r = (r div 3600 * 60 + r mod 3600 div 60) * 60 + r mod 60"
    using div_mult_mod_eq [of r 3600] div_mult_mod_eq [of "r mod 3600" 60] by (simp only: mult.assoc distrib_right)
  note r_split = this
  define D h mi sec where hide: "D = n div 86400" "h = r div 3600" "mi = r mod 3600 div 60" "sec = r mod 60"
  have "n = D * 86400 + r" by (simp add: r_def hide)
  moreover have "r = (h * 60 + mi) * 60 + sec" using r_split by (simp only: hide)
  moreover have "days_before_year y + days_before_month (m - 1) y + md = D" using Y epoch M(1) unfolding hide by linarith
  moreover have "timegm t = (((days_before_year y + days_before_month (m - 1) y + md) * 24 + h) * 60 + mi) * 60 + sec"
    by (simp add: timegm_def t Let_def hide)
  ultimately show "timegm t = n" by (simp add: algebra_simps)
  show "0 \<le> tm_mon t" "tm_mon t \<le> 11" "1 \<le> tm_mday t" "tm_mday t \<le> 31"
    using M DaysInMonth_bound [of m y] by (simp_all add: t)
  show "0 \<le> tm_hour t" "tm_hour t \<le> 23" "0 \<le> tm_min t" "tm_min t \<le> 59" "0 \<le> tm_sec t" "tm_sec t \<le> 59"
    using r by (simp_all add: t pos_imp_zdiv_nonneg_iff)
  assume "- 110000 * 86400 \<le> n" "n \<le> 110000 * 86400"
  then have "- 110000 \<le> n div 86400" "n div 86400 \<le> 110000"
    using zdiv_mono1 [of "- 110000 * 86400" n 86400] zdiv_mono1 [of n "110000 * 86400" 86400] by simp_all
  then show "1600 \<le> tm_year t + 1900 \<and> tm_year t + 1900 \<le> 2300"
    using year_bounds [of y yd "n div 86400"] Y epoch by (simp add: t)
qed

section \<open>Reading what was written\<close>

lemma get_digits_0 [simp]: "get_digits hi 0 val r = (val, r)"
  by (cases r) simp_all

lemma digit_not_blank: "d < 10 \<Longrightarrow> digit_char d \<noteq> CHR '' ''"
  using digit_char_class [of d] by (auto simp: IsDigitASCII_def)

lemma get_number_fixed2:
  assumes "lo \<le> n" "n \<le> hi" "n < 100"
  shows "get_number lo hi 2 (fixed_digits 2 n @ r) = Some (n, r)"
proof -
  have digits: "fixed_digits 2 n @ r = digit_char (n div 10) # digit_char (n mod 10) # r"
    using assms(3) by (simp add: numeral_2_eq_2)
  have "n div 10 < 10" using assms(3) by simp
  moreover have "n div 10 * 10 \<le> hi" using assms(2) div_times_less_eq_dividend [of n 10] by linarith
  ultimately show ?thesis using assms digit_not_blank [of "n div 10"] by (simp add: get_number_def digits)
qed

lemma get_number_fixed4:
  assumes "n \<le> 9999"
  shows "get_number 0 9999 4 (fixed_digits 4 n @ r) = Some (n, r)"
proof -
  have digits: "fixed_digits 4 n @ r = digit_char (n div 1000) # digit_char (n div 100 mod 10) # digit_char (n div 10 mod 10) # digit_char (n mod 10) # r"
  proof -
    have "fixed_digits 4 n = fixed_digits (Suc (Suc (Suc (Suc 0)))) n" by (simp only: eval_nat_numeral BitM.simps)
    moreover have "n div 10 div 10 = n div 100" "n div 100 div 10 = n div 1000"
      using div_mult2_eq [of n 10 10] div_mult2_eq [of n 100 10] by simp_all
    moreover have "n div 1000 mod 10 = n div 1000" using assms by (intro mod_less) simp
    ultimately show ?thesis by simp
  qed
  have split: "((n div 1000 * 10 + n div 100 mod 10) * 10 + n div 10 mod 10) * 10 + n mod 10 = n"
    using div_mult_mod_eq [of n 10] div_mult_mod_eq [of "n div 10" 10] div_mult_mod_eq [of "n div 100" 10]
      div_mult2_eq [of n 10 10] div_mult2_eq [of n 100 10] by simp
  have less: "n div 1000 < 10" using assms by simp
  show ?thesis
    unfolding get_number_def digits
    using less assms split digit_not_blank [OF less] by simp
qed

definition tm_ok :: "tm \<Rightarrow> bool" where
  "tm_ok t \<longleftrightarrow> 0 \<le> tm_year t + 1900 \<and> tm_year t + 1900 \<le> 9999 \<and> 0 \<le> tm_mon t \<and> tm_mon t \<le> 11 \<and>
     1 \<le> tm_mday t \<and> tm_mday t \<le> 31 \<and> 0 \<le> tm_hour t \<and> tm_hour t \<le> 23 \<and> 0 \<le> tm_min t \<and> tm_min t \<le> 59 \<and>
     0 \<le> tm_sec t \<and> tm_sec t \<le> 59"

definition date_text :: "tm \<Rightarrow> string" where
  "date_text t = fixed_digits 4 (nat (tm_year t + 1900)) @ ''-'' @ fixed_digits 2 (nat (tm_mon t + 1)) @ ''-'' @
     fixed_digits 2 (nat (tm_mday t))"

definition time_text :: "tm \<Rightarrow> string" where
  "time_text t = fixed_digits 2 (nat (tm_hour t)) @ '':'' @ fixed_digits 2 (nat (tm_min t)) @ '':'' @
     fixed_digits 2 (nat (tm_sec t))"

lemma strptime_conv:
  assumes "conversion_range conv = (lo, hi, n)" "\<And>c. conv \<noteq> Literal c" "get_number lo hi n s = Some (val, r)"
  shows "strptime s (conv # fmt) t = strptime r fmt (conversion_store conv val t)"
  using assms by (cases conv) auto

lemma strptime_numbers:
  "n \<le> 9999 \<Longrightarrow> strptime (fixed_digits 4 n @ r) (Conv_Y # fmt) t = strptime r fmt (t\<lparr>tm_year := int n - 1900\<rparr>)"
  "\<lbrakk>1 \<le> n; n \<le> 12\<rbrakk> \<Longrightarrow> strptime (fixed_digits 2 n @ r) (Conv_m # fmt) t = strptime r fmt (t\<lparr>tm_mon := int n - 1\<rparr>)"
  "\<lbrakk>1 \<le> n; n \<le> 31\<rbrakk> \<Longrightarrow> strptime (fixed_digits 2 n @ r) (Conv_d # fmt) t = strptime r fmt (t\<lparr>tm_mday := int n\<rparr>)"
  "n \<le> 23 \<Longrightarrow> strptime (fixed_digits 2 n @ r) (Conv_H # fmt) t = strptime r fmt (t\<lparr>tm_hour := int n\<rparr>)"
  "n \<le> 59 \<Longrightarrow> strptime (fixed_digits 2 n @ r) (Conv_M # fmt) t = strptime r fmt (t\<lparr>tm_min := int n\<rparr>)"
  "n \<le> 59 \<Longrightarrow> strptime (fixed_digits 2 n @ r) (Conv_S # fmt) t = strptime r fmt (t\<lparr>tm_sec := int n\<rparr>)"
  by (simp_all add: strptime_conv [of _ _ _ _ _ n r] get_number_fixed2 get_number_fixed4)

declare strptime.simps [simp del]

lemma strptime_done [simp]: "strptime s [] t = (Some s, t)"
  and strptime_literal [simp]: "strptime (c # r) (Literal c # fmt) t = strptime r fmt t"
  by (simp_all add: strptime.simps)

lemma tm_ok_nat:
  assumes "tm_ok t"
  shows "nat (tm_year t + 1900) \<le> 9999" "int (nat (tm_year t + 1900)) - 1900 = tm_year t"
    "1 \<le> nat (tm_mon t + 1)" "nat (tm_mon t + 1) \<le> 12" "int (nat (tm_mon t + 1)) - 1 = tm_mon t"
    "1 \<le> nat (tm_mday t)" "nat (tm_mday t) \<le> 31" "int (nat (tm_mday t)) = tm_mday t"
    "nat (tm_hour t) \<le> 23" "int (nat (tm_hour t)) = tm_hour t"
    "nat (tm_min t) \<le> 59" "int (nat (tm_min t)) = tm_min t"
    "nat (tm_sec t) \<le> 59" "int (nat (tm_sec t)) = tm_sec t"
  using assms by (simp_all add: tm_ok_def nat_le_iff le_nat_iff)

lemma strptime_date:
  assumes "tm_ok t"
  shows "strptime (date_text t @ r) [Conv_Y, Literal CHR ''-'', Conv_m, Literal CHR ''-'', Conv_d] t0 =
      (Some r, t0\<lparr>tm_year := tm_year t, tm_mon := tm_mon t, tm_mday := tm_mday t\<rparr>)"
    "strptime (date_text t @ r) [Conv_Y, Literal CHR ''-'', Conv_m] t0 =
      (Some (''-'' @ fixed_digits 2 (nat (tm_mday t)) @ r), t0\<lparr>tm_year := tm_year t, tm_mon := tm_mon t\<rparr>)"
  using tm_ok_nat [OF assms] by (simp_all add: date_text_def strptime_numbers del: One_nat_def)

lemma fixed_digits_longer: "fixed_digits 2 n \<noteq> []" "fixed_digits 2 n @ x \<noteq> x" "x \<noteq> fixed_digits 2 n @ x" "c # x \<noteq> fixed_digits 2 n @ c # x"
  by (simp_all add: numeral_2_eq_2)

lemma ParseTimeOfDay_text:
  assumes "tm_ok t"
  shows "ParseTimeOfDay (time_text t @ r) t0 precision =
    (Some r, t0\<lparr>tm_hour := tm_hour t, tm_min := tm_min t, tm_sec := tm_sec t\<rparr>, nanos_per_second)"
  using tm_ok_nat [OF assms]
  by (simp add: ParseTimeOfDay_def ParseTimeOfDay_colon_def at_char_def time_text_def strptime_numbers Let_def
      fixed_digits_longer)

lemma ParseISO8601_text:
  assumes "tm_ok t"
  shows "ParseISO8601 (FormatISO8601_tm t) = Inr (TimeGm t, nanos_per_second)"
proof -
  have eq: "FormatISO8601_tm t = date_text t @ ''T'' @ time_text t @ ''Z''"
    by (simp add: FormatISO8601_tm_def date_text_def time_text_def)
  have "TimeGm (tm_zero\<lparr>tm_year := tm_year t, tm_mon := tm_mon t, tm_mday := tm_mday t, tm_hour := tm_hour t,
      tm_min := tm_min t, tm_sec := tm_sec t\<rparr>) = TimeGm t" by (cases t) (simp add: tm_zero_def)
  then show ?thesis
    unfolding eq ParseISO8601_def ParseISO8601_date_def
    by (simp add: strptime_date [OF assms] ParseTimeOfDay_text [OF assms] at_char_def ParseISO8601_zone_def)
qed

lemma seconds_bound:
  assumes "0 \<le> x" "x \<le> 2 ^ 63"
  shows "0 \<le> x div nanos_per_second" "x div nanos_per_second \<le> 110000 * 86400"
    "0 \<le> x div nanos_per_second * nanos_per_second" "x div nanos_per_second * nanos_per_second \<le> x"
proof -
  show pos: "0 \<le> x div nanos_per_second" using assms(1) by (simp add: pos_imp_zdiv_nonneg_iff [OF nanos_pos])
  then show "0 \<le> x div nanos_per_second * nanos_per_second" using nanos_pos by (intro mult_nonneg_nonneg) linarith+
  have "x div nanos_per_second \<le> 2 ^ 63 div nanos_per_second" using assms(2) by (intro zdiv_mono1 nanos_pos)
  also have "\<dots> \<le> 110000 * 86400" by (simp add: nanos_per_second_def)
  finally show "x div nanos_per_second \<le> 110000 * 86400" .
  show "x div nanos_per_second * nanos_per_second \<le> x"
    using div_mult_mod_eq [of x nanos_per_second] pos_mod_sign [OF nanos_pos, of x] by linarith
qed

lemma to_time_t_bound:
  assumes "- (2 ^ 63) \<le> tp" "tp < 2 ^ 63"
  shows "- 110000 * 86400 \<le> to_time_t tp" "to_time_t tp \<le> 110000 * 86400"
    "- (2 ^ 63) \<le> from_time_t (to_time_t tp)" "from_time_t (to_time_t tp) < 2 ^ 63"
  using assms seconds_bound [of tp] seconds_bound [of "- tp"]
  by (auto simp: to_time_t_def from_time_t_def simp del: minus_mult_left minus_mult_right)

lemma from_to_time_t_bound:
  assumes "- (2 ^ 63) \<le> tp" "tp < 2 ^ 63"
  shows "int64_of (from_time_t (to_time_t tp)) = from_time_t (to_time_t tp)"
  using to_time_t_bound(3,4) [OF assms] by (simp add: int64_of_def)

lemma ParseISO8601_Format:
  assumes "- (2 ^ 63) \<le> tp" "tp < 2 ^ 63"
  shows "ParseISO8601 (FormatISO8601 tp) = Inr (from_time_t (to_time_t tp), nanos_per_second)"
proof -
  note fields = gmtime_fields [OF refl, of "to_time_t tp"]
  have "tm_ok (GmTime tp)"
    using fields(2-11) fields(12) to_time_t_bound [OF assms] unfolding tm_ok_def GmTime_def by simp
  then have "ParseISO8601 (FormatISO8601 tp) = Inr (TimeGm (GmTime tp), nanos_per_second)"
    unfolding FormatISO8601_def by (rule ParseISO8601_text)
  then show ?thesis by (simp add: TimeGm_def GmTime_def fields(1) from_to_time_t_bound [OF assms])
qed

text \<open>
  Property C40 (roundtrip): \<open>ParseISO8601\<close> reads what \<open>FormatISO8601\<close> wrote: for every time point that fits
  the 64 bits of the clock, the answer is the time point truncated to a second, and one second as
  its precision. The time stamps of the database file and of the protocol are exchanged this way.
\<close>

theorem ISO8601_roundtrip:
  assumes "- (2 ^ 63) \<le> tp" "tp < 2 ^ 63"
  shows "ParseISO8601 (FormatISO8601 tp) = Inr (from_time_t (to_time_t tp), nanos_per_second)"
  using assms by (rule ParseISO8601_Format)

theorem ISO8601_roundtrip_witness:
  "FormatISO8601 (from_time_t 951782400 + 5) = ''2000-02-29T00:00:00Z'' \<and>
   ParseISO8601 (FormatISO8601 (from_time_t 951782400 + 5)) = Inr (from_time_t 951782400, nanos_per_second)"
proof -
  have "FormatISO8601 (from_time_t 951782400 + 5) = ''2000-02-29T00:00:00Z''" by code_simp
  moreover have "from_time_t (to_time_t (from_time_t 951782400 + 5)) = from_time_t 951782400" by code_simp
  moreover have "- (2 ^ 63) \<le> from_time_t 951782400 + 5" "from_time_t 951782400 + 5 < 2 ^ 63" by code_simp+
  ultimately show ?thesis using ISO8601_roundtrip [of "from_time_t 951782400 + 5"] by simp
qed

text \<open>
  A whole month: the range that a time stamp without a day denotes is the month it names.
\<close>

lemma days_of_next_month:
  assumes "t1 = \<lparr>tm_year = y - 1900, tm_mon = m - 1, tm_mday = 1, tm_hour = 0, tm_min = 0, tm_sec = 0\<rparr>" "1 \<le> m" "m \<le> 12"
  shows "timegm (EndOfMonth t1) - timegm t1 = DaysInMonth m y * 86400"
proof (cases "m = 12")
  case True
  have "days_before_month 0 (y + 1) = 0" by (simp add: days_before_month_def)
  then show ?thesis
    using True days_before_next_year [of y] days_of_year [of y] days_before_next_month [of 12 y]
    by (simp add: assms(1) EndOfMonth_def IncrementMonth_def timegm_def Let_def add.commute [of 1])
next
  case False
  then show ?thesis
    using assms(2,3) days_before_next_month [of m y]
    by (simp add: assms(1) EndOfMonth_def IncrementMonth_def timegm_def)
qed

text \<open>
  A year that the clock cannot represent is not refused: the product with the nanoseconds of a
  second leaves the 64 bits, and the time stamp becomes one of an earlier century.
\<close>

lemma far_year_wraps: "ParseISO8601 ''2300-01-01'' = Inr (- 8032952073709551616, 86400 * nanos_per_second)"
  by code_simp

text \<open>The offsets of the easternmost zones are refused.\<close>

lemma zone_offset_refused: "ParseTimeZoneOffset ''+14:00'' = Inl ''Time offset hours out of range''"
proof -
  have "scan_number ''14:00'' = Some (False, 14, '':00'')" "scan_number ''00'' = Some (False, 0, [])" by code_simp+
  then show ?thesis by (simp add: ParseTimeZoneOffset_def ParseTimeZoneOffsetRaw_def strtoul_def uint32_def)
qed

end
