(* ===== verification/Filter_Expression.thy ===== *)
theory Filter_Expression
  imports Song_Filter Iso8601
begin

text \<open>
  The text form of song filters (song/Filter.cxx, song/Escape.cxx and the \<open>ToExpression\<close> methods):
  the parser that the protocol commands use, and the printer that the proxy database and the
  sticker commands send its output with. A text is a C string; the parser moves a pointer through
  it and throws, or it reads behind the terminator (\<open>UB\<close>).
\<close>

section \<open>Printing\<close>

abbreviation backslash :: char where
  "backslash \<equiv> CHR 0x5C"

abbreviation double_quote :: char where
  "double_quote \<equiv> CHR 0x22"

abbreviation single_quote :: char where
  "single_quote \<equiv> CHR 0x27"

definition MustEscape :: "char \<Rightarrow> bool" where
  "MustEscape ch \<longleftrightarrow> ch = double_quote \<or> ch = single_quote \<or> ch = backslash"

definition EscapeFilterString :: "string \<Rightarrow> string" where
  "EscapeFilterString src = concat (map (\<lambda>ch. if MustEscape ch then [backslash, ch] else [ch]) src)"

definition quoted :: "string \<Rightarrow> string" where
  "quoted v = double_quote # v @ [double_quote]"

definition TagSongFilter_ToExpression :: "filter_tag \<Rightarrow> StringFilter \<Rightarrow> string outcome" where
  "TagSongFilter_ToExpression type f =
     (case type of
        FilterBeyond \<Rightarrow> UB
      | FilterAny \<Rightarrow> Returns (''(any '' @ GetOperator f @ '' '' @ quoted (EscapeFilterString (sf_value f)) @ '')'')
      | FilterTag t \<Rightarrow>
          Returns (''('' @ tag_item_names t @ '' '' @ GetOperator f @ '' '' @ quoted (EscapeFilterString (sf_value f)) @ '')''))"

text \<open>
  A conjunction of one item is that item; for an empty one the code dereferences the end of the
  list.
\<close>

fun ToExpression :: "song_filter \<Rightarrow> string outcome"
  and ToExpression_rest :: "song_filter list \<Rightarrow> string outcome" where
  "ToExpression (AndSongFilter []) = UB"
| "ToExpression (AndSongFilter [f]) = ToExpression f"
| "ToExpression (AndSongFilter (f # g # fs)) =
     and_then (ToExpression f) (\<lambda>e. and_then (ToExpression_rest (g # fs)) (\<lambda>r. Returns (''('' @ e @ r @ '')'')))"
| "ToExpression (NotSongFilter f) = and_then (ToExpression f) (\<lambda>e. Returns (''(!'' @ e @ '')''))"
| "ToExpression (TagSongFilter type f) = TagSongFilter_ToExpression type f"
| "ToExpression (UriSongFilter f) =
     Returns (''(file '' @ GetOperator f @ '' '' @ quoted (EscapeFilterString (sf_value f)) @ '')'')"
| "ToExpression (BaseSongFilter v) = Returns (''(base '' @ quoted (EscapeFilterString v) @ '')'')"
| "ToExpression (ModifiedSinceSongFilter t) = Returns (''(modified-since '' @ quoted (FormatISO8601 t) @ '')'')"
| "ToExpression (AddedSinceSongFilter t) = Returns (''(added-since '' @ quoted (FormatISO8601 t) @ '')'')"
| "ToExpression (AudioFormatSongFilter a) =
     Returns (''(AudioFormat '' @ (if IsFullyDefined a then ''=='' else ''=~'') @ '' '' @ quoted (ToString a) @ '')'')"
| "ToExpression (PrioritySongFilter p) = Returns (''(prio >= '' @ fmt_uint (unat p) @ '')'')"
| "ToExpression_rest [] = Returns []"
| "ToExpression_rest (f # fs) =
     and_then (ToExpression f) (\<lambda>e. and_then (ToExpression_rest fs) (\<lambda>r. Returns ('' AND '' @ e @ r)))"

definition SongFilter_ToExpression :: "SongFilter \<Rightarrow> string outcome" where
  "SongFilter_ToExpression sf = ToExpression (AndSongFilter sf)"

section \<open>Parsing\<close>

datatype locate_type =
    LOCATE_TAG_BASE_TYPE | LOCATE_TAG_MODIFIED_SINCE | LOCATE_TAG_AUDIO_FORMAT | LOCATE_TAG_PRIORITY
  | LOCATE_TAG_FILE_TYPE | LOCATE_TAG_ANY_TYPE | LOCATE_TAG_ADDED_SINCE | Locate_Tag TagType | Locate_Unknown

definition locate_parse_type :: "string \<Rightarrow> locate_type" where
  "locate_parse_type str =
     (if StringIsEqualIgnoreCase str ''file'' \<or> StringIsEqualIgnoreCase str ''filename'' then LOCATE_TAG_FILE_TYPE
      else if StringIsEqualIgnoreCase str ''any'' then LOCATE_TAG_ANY_TYPE
      else if str = ''base'' then LOCATE_TAG_BASE_TYPE
      else if str = ''modified-since'' then LOCATE_TAG_MODIFIED_SINCE
      else if str = ''added-since'' then LOCATE_TAG_ADDED_SINCE
      else if StringIsEqualIgnoreCase str ''AudioFormat'' then LOCATE_TAG_AUDIO_FORMAT
      else if StringIsEqualIgnoreCase str ''prio'' then LOCATE_TAG_PRIORITY
      else (case tag_name_parse_i str of Some t \<Rightarrow> Locate_Tag t | None \<Rightarrow> Locate_Unknown))"

text \<open>A number that is no ISO 8601 time stamp counts seconds; its product is taken modulo 64 bits.\<close>

definition ParseTimeStamp :: "string \<Rightarrow> time_point outcome" where
  "ParseTimeStamp s =
     (case ParseISO8601 s of
        Inr (tp, _) \<Rightarrow> Returns tp
      | Inl e \<Rightarrow>
          (case strtoul s of (val, endptr) \<Rightarrow>
             if endptr = [] \<and> length endptr < length s
             then Returns (int64_of (from_time_t (int64_of (int val))))
             else Throws e))"

definition IsTagNameChar :: "char \<Rightarrow> bool" where
  "IsTagNameChar ch \<longleftrightarrow> IsAlphaASCII ch \<or> ch = CHR ''_'' \<or> ch = CHR ''-''"

definition ExpectWord :: "string \<Rightarrow> (string \<times> string) outcome" where
  "ExpectWord s =
     (let word = takeWhile IsTagNameChar s
      in if word = [] then Throws ''Word expected'' else Returns (word, StripLeft (dropWhile IsTagNameChar s)))"

definition ExpectFilterType :: "string \<Rightarrow> (locate_type \<times> string) outcome" where
  "ExpectFilterType s =
     and_then (ExpectWord s) (\<lambda>(name, s').
       if locate_parse_type name = Locate_Unknown then Throws (''Unknown filter type: '' @ name)
       else Returns (locate_parse_type name, s'))"

definition IsQuote :: "char \<Rightarrow> bool" where
  "IsQuote ch \<longleftrightarrow> ch = double_quote \<or> ch = single_quote"

fun quoted_loop :: "char \<Rightarrow> string \<Rightarrow> string \<Rightarrow> (string \<times> string) outcome" where
  "quoted_loop quote buffer [] = Throws ''Closing quote not found''"
| "quoted_loop quote buffer (c # s) =
     (if c = quote then Returns (buffer, StripLeft s)
      else if c = backslash then
        (case s of
           [] \<Rightarrow> Throws ''Closing quote not found''
         | d # s' \<Rightarrow>
             if 4096 \<le> length buffer + 1 then Throws ''Quoted value is too long''
             else quoted_loop quote (buffer @ [d]) s')
      else if 4096 \<le> length buffer + 1 then Throws ''Quoted value is too long''
      else quoted_loop quote (buffer @ [c]) s)"

definition ExpectQuoted :: "string \<Rightarrow> (string \<times> string) outcome" where
  "ExpectQuoted s =
     (if s = [] \<or> \<not> IsQuote (hd s) then Throws ''Quoted string expected'' else quoted_loop (hd s) [] (tl s))"

fun StringAfterPrefixIgnoreCase :: "string \<Rightarrow> string \<Rightarrow> string option" where
  "StringAfterPrefixIgnoreCase haystack [] = Some haystack"
| "StringAfterPrefixIgnoreCase [] (n # needle) = None"
| "StringAfterPrefixIgnoreCase (h # haystack) (n # needle) =
     (if ToLowerASCII h = ToLowerASCII n then StringAfterPrefixIgnoreCase haystack needle else None)"

record OperatorDef =
  op_prefix :: string
  op_fold_case :: bool
  op_negated :: bool
  op_position :: Position

definition operators :: "OperatorDef list" where
  "operators =
     [\<lparr>op_prefix = ''contains_cs '', op_fold_case = False, op_negated = False, op_position = ANYWHERE\<rparr>,
      \<lparr>op_prefix = ''!contains_cs '', op_fold_case = False, op_negated = True, op_position = ANYWHERE\<rparr>,
      \<lparr>op_prefix = ''contains_ci '', op_fold_case = True, op_negated = False, op_position = ANYWHERE\<rparr>,
      \<lparr>op_prefix = ''!contains_ci '', op_fold_case = True, op_negated = True, op_position = ANYWHERE\<rparr>,
      \<lparr>op_prefix = ''starts_with_cs '', op_fold_case = False, op_negated = False, op_position = PREFIX\<rparr>,
      \<lparr>op_prefix = ''!starts_with_cs '', op_fold_case = False, op_negated = True, op_position = PREFIX\<rparr>,
      \<lparr>op_prefix = ''starts_with_ci '', op_fold_case = True, op_negated = False, op_position = PREFIX\<rparr>,
      \<lparr>op_prefix = ''!starts_with_ci '', op_fold_case = True, op_negated = True, op_position = PREFIX\<rparr>,
      \<lparr>op_prefix = ''eq_cs '', op_fold_case = False, op_negated = False, op_position = FULL\<rparr>,
      \<lparr>op_prefix = ''!eq_cs '', op_fold_case = False, op_negated = True, op_position = FULL\<rparr>,
      \<lparr>op_prefix = ''eq_ci '', op_fold_case = True, op_negated = False, op_position = FULL\<rparr>,
      \<lparr>op_prefix = ''!eq_ci '', op_fold_case = True, op_negated = True, op_position = FULL\<rparr>]"

text \<open>The four operators whose case folding the command decides.\<close>

definition default_operators :: "bool \<Rightarrow> OperatorDef list" where
  "default_operators fold_case =
     [\<lparr>op_prefix = ''contains '', op_fold_case = fold_case, op_negated = False, op_position = ANYWHERE\<rparr>,
      \<lparr>op_prefix = ''!contains '', op_fold_case = fold_case, op_negated = True, op_position = ANYWHERE\<rparr>,
      \<lparr>op_prefix = ''starts_with '', op_fold_case = fold_case, op_negated = False, op_position = PREFIX\<rparr>,
      \<lparr>op_prefix = ''!starts_with '', op_fold_case = fold_case, op_negated = True, op_position = PREFIX\<rparr>]"

fun find_operator :: "OperatorDef list \<Rightarrow> string \<Rightarrow> (OperatorDef \<times> string) option" where
  "find_operator [] s = None"
| "find_operator (op # ops) s =
     (case StringAfterPrefixIgnoreCase s (op_prefix op) of
        Some after_prefix \<Rightarrow> Some (op, StripLeft after_prefix)
      | None \<Rightarrow> find_operator ops s)"

definition ParseStringFilter :: "filter_env \<Rightarrow> bool \<Rightarrow> string \<Rightarrow> (StringFilter \<times> string) outcome" where
  "ParseStringFilter env fold_case s =
     (case find_operator (operators @ default_operators fold_case) s of
        Some (op, s1) \<Rightarrow>
          and_then (ExpectQuoted s1) (\<lambda>(val, s2).
            Returns (StringFilter_new val (op_fold_case op) (op_position op) (op_negated op), s2))
      | None \<Rightarrow>
          if (at_char CHR ''!'' s \<or> at_char CHR ''='' s) \<and> at_char CHR ''~'' (tl s) then
            and_then (ExpectQuoted (StripLeft (drop 2 s))) (\<lambda>(val, s2).
              case UniqueRegex env val fold_case of
                Inl e \<Rightarrow> Throws e
              | Inr _ \<Rightarrow> Returns ((StringFilter_new val fold_case FULL (hd s = CHR ''!''))\<lparr>sf_regex := True\<rparr>, s2))
          else if \<not> (at_char CHR ''!'' s \<and> at_char CHR ''='' (tl s)) \<and> \<not> (at_char CHR ''='' s \<and> at_char CHR ''='' (tl s)) then
            Throws (''Unknown filter operator: '' @ s)
          else
            and_then (ExpectQuoted (StripLeft (drop 2 s))) (\<lambda>(val, s2).
              Returns (StringFilter_new val fold_case FULL (hd s = CHR ''!''), s2)))"

definition ExpectClose :: "string \<Rightarrow> string outcome" where
  "ExpectClose s = (if at_char CHR '')'' s then Returns (StripLeft (tl s)) else Throws (single_quote # CHR '')'' # single_quote # '' expected''))"

text \<open>The messages of \<open>ParseAudioFormat\<close>; the debug form of the rejected text in one of them is left out.\<close>

fun audio_error_message :: "audio_error \<Rightarrow> string" where
  "audio_error_message BadSampleRateSyntax = ''Failed to parse the sample rate''"
| "audio_error_message (InvalidSampleRate n) = ''Invalid sample rate: '' @ fmt_uint n"
| "audio_error_message (InvalidSampleFormat s) = ''Invalid sample format''"
| "audio_error_message SampleFormatMissing = ''Sample format missing''"
| "audio_error_message BadChannelCountSyntax = ''Failed to parse the channel count''"
| "audio_error_message (InvalidChannelCount n) = ''Invalid channel count: '' @ fmt_uint n"
| "audio_error_message ChannelCountMissing = ''Channel count missing''"
| "audio_error_message BadDsdRateSyntax = ''Failed to parse the DSD rate''"
| "audio_error_message BadDsdRate = ''Bad DSD rate''"

text \<open>The branches of \<open>ParseExpression\<close> that do not call it again.\<close>

definition ParseSince :: "(time_point \<Rightarrow> song_filter) \<Rightarrow> string \<Rightarrow> (song_filter \<times> string) outcome" where
  "ParseSince mk s =
     and_then (ExpectQuoted s) (\<lambda>(value_s, s1).
       and_then (ExpectClose s1) (\<lambda>s2.
         and_then (ParseTimeStamp value_s) (\<lambda>t. Returns (mk t, s2))))"

definition ParseAudioFormatItem :: "string \<Rightarrow> (song_filter \<times> string) outcome" where
  "ParseAudioFormatItem s =
     (if \<not> (at_char CHR ''='' s \<and> (at_char CHR ''='' (tl s) \<or> at_char CHR ''~'' (tl s)))
      then Throws (single_quote # ''=='' @ single_quote # '' or '' @ single_quote # ''=~'' @ single_quote # '' expected'')
      else
        and_then (ExpectQuoted (StripLeft (drop 2 s))) (\<lambda>(text_s, s1).
          case ParseAudioFormat text_s (at_char CHR ''~'' (tl s)) of
            Inl e \<Rightarrow> Throws (audio_error_message e)
          | Inr val \<Rightarrow> and_then (ExpectClose s1) (\<lambda>s2. Returns (AudioFormatSongFilter val, s2))))"

definition ParsePriorityItem :: "string \<Rightarrow> (song_filter \<times> string) outcome" where
  "ParsePriorityItem s =
     (if \<not> (at_char CHR ''>'' s \<and> at_char CHR ''='' (tl s))
      then Throws (single_quote # ''>='' @ single_quote # '' expected'')
      else
        (let s1 = StripLeft (drop 2 s) in
         case strtoul s1 of (val, endptr) \<Rightarrow>
           if endptr = s1 then Throws ''Number expected''
           else if 255 < val then Throws ''Invalid priority value''
           else and_then (ExpectClose endptr) (\<lambda>s2. Returns (PrioritySongFilter (of_nat val), s2))))"

definition ParseItem :: "filter_env \<Rightarrow> bool \<Rightarrow> string \<Rightarrow> (song_filter \<times> string) outcome" where
  "ParseItem env fold_case s =
     and_then (ExpectFilterType s) (\<lambda>(type, s1).
       case type of
         LOCATE_TAG_MODIFIED_SINCE \<Rightarrow> ParseSince ModifiedSinceSongFilter s1
       | LOCATE_TAG_ADDED_SINCE \<Rightarrow> ParseSince AddedSinceSongFilter s1
       | LOCATE_TAG_BASE_TYPE \<Rightarrow>
           and_then (ExpectQuoted s1) (\<lambda>(val, s2).
             and_then (ExpectClose s2) (\<lambda>s3. Returns (BaseSongFilter val, s3)))
       | LOCATE_TAG_AUDIO_FORMAT \<Rightarrow> ParseAudioFormatItem s1
       | LOCATE_TAG_PRIORITY \<Rightarrow> ParsePriorityItem s1
       | _ \<Rightarrow>
           and_then (ParseStringFilter env fold_case s1) (\<lambda>(f, s2).
             and_then (ExpectClose s2) (\<lambda>s3.
               Returns (case type of
                          LOCATE_TAG_FILE_TYPE \<Rightarrow> UriSongFilter f
                        | Locate_Tag t \<Rightarrow> TagSongFilter (FilterTag t) f
                        | _ \<Rightarrow> TagSongFilter FilterAny f, s3))))"

text \<open>Every parser consumes what it returns from: the rest is shorter.\<close>

lemma and_then_Returns: "and_then x f = Returns y \<longleftrightarrow> (\<exists>a. x = Returns a \<and> f a = Returns y)"
  by (cases x) simp_all

lemma length_StripLeft: "length (StripLeft s) \<le> length s"
  by (simp add: StripLeft_def length_dropWhile_le)

lemma ExpectWord_shorter: "ExpectWord s = Returns (w, r) \<Longrightarrow> length r < length s"
proof -
  assume "ExpectWord s = Returns (w, r)"
  then have ne: "takeWhile IsTagNameChar s \<noteq> []" and r: "r = StripLeft (dropWhile IsTagNameChar s)"
    by (auto simp: ExpectWord_def Let_def split: if_splits)
  have "length s = length (takeWhile IsTagNameChar s) + length (dropWhile IsTagNameChar s)"
    by (metis length_append takeWhile_dropWhile_id)
  moreover have "0 < length (takeWhile IsTagNameChar s)" by (rule length_greater_0_conv [THEN iffD2, OF ne])
  ultimately show ?thesis using length_StripLeft [of "dropWhile IsTagNameChar s"] unfolding r by linarith
qed

lemma case_sum_Returns:
  "(case x of Inl e \<Rightarrow> Throws (g e) | Inr v \<Rightarrow> h v) = Returns y \<longleftrightarrow> (\<exists>v. x = Inr v \<and> h v = Returns y)"
  by (cases x) simp_all

lemma quoted_loop_shorter: "quoted_loop q b s = Returns (v, r) \<Longrightarrow> length r < length s"
proof (induction q b s rule: quoted_loop.induct)
  case (2 q b c s)
  consider "c = q" | "c \<noteq> q" "c = backslash" | "c \<noteq> q" "c \<noteq> backslash" by blast
  then show ?case
  proof cases
    case 1
    then have "r = StripLeft s" using "2.prems" by simp
    then show ?thesis using length_StripLeft [of s] by simp
  next
    case 2
    with "2.prems" obtain d s' where "s = d # s'" "\<not> 4096 \<le> length b + 1" "quoted_loop q (b @ [d]) s' = Returns (v, r)"
      by (simp only: quoted_loop.simps(2)) (auto split: list.splits if_splits simp del: quoted_loop.simps(2))
    then show ?thesis using "2.IH"(1) [OF 2(1,2)] by auto
  next
    case 3
    with "2.prems" have "\<not> 4096 \<le> length b + 1" "quoted_loop q (b @ [c]) s = Returns (v, r)"
      by (simp_all split: if_splits)
    then show ?thesis using "2.IH"(2) [OF 3] by auto
  qed
qed simp

lemma ExpectQuoted_shorter: "ExpectQuoted s = Returns (v, r) \<Longrightarrow> length r < length s"
  using quoted_loop_shorter [of "hd s" "[]" "tl s" v r] by (cases s) (auto simp: ExpectQuoted_def split: if_splits)

lemma ExpectClose_shorter: "ExpectClose s = Returns r \<Longrightarrow> length r < length s"
  using length_StripLeft [of "tl s"] by (cases s) (auto simp: ExpectClose_def at_char_def split: if_splits)

lemma StringAfterPrefixIgnoreCase_length: "StringAfterPrefixIgnoreCase s p = Some r \<Longrightarrow> length r \<le> length s"
  by (induction s p rule: StringAfterPrefixIgnoreCase.induct) (auto split: if_splits)

lemma find_operator_length: "find_operator ops s = Some (op, r) \<Longrightarrow> length r \<le> length s"
  by (induction ops)
    (auto split: option.splits dest!: StringAfterPrefixIgnoreCase_length intro: le_trans [OF length_StripLeft])

lemma drop2_StripLeft: "length (StripLeft (drop 2 s)) \<le> length s"
  by (rule le_trans [OF length_StripLeft]) simp

lemma ParseStringFilter_shorter: "ParseStringFilter env fc s = Returns (f, r) \<Longrightarrow> length r < length s"
  using drop2_StripLeft [of s]
  by (auto simp: ParseStringFilter_def and_then_Returns case_sum_Returns split: option.splits if_splits
      dest!: ExpectQuoted_shorter find_operator_length)

lemma strtoul_length: "strtoul s = (n, r) \<Longrightarrow> length r \<le> length s"
proof -
  assume r: "strtoul s = (n, r)"
  define u where "u = (case dropWhile isspace s of c # r \<Rightarrow> if c = CHR ''-'' \<or> c = CHR ''+'' then r else dropWhile isspace s | [] \<Rightarrow> [])"
  have "length u \<le> length (dropWhile isspace s)" unfolding u_def by (auto split: list.split)
  also have "\<dots> \<le> length s" by (rule length_dropWhile_le)
  finally have "length (dropWhile IsDigitASCII u) \<le> length s" by (rule le_trans [OF length_dropWhile_le])
  moreover have "r = s \<or> r = dropWhile IsDigitASCII u"
    using r by (auto simp: strtoul_def scan_number_def Let_def u_def split: if_splits)
  ultimately show ?thesis by auto
qed

lemma ParseItem_shorter: "ParseItem env fc s = Returns (f, r) \<Longrightarrow> length r < length s"
proof -
  assume "ParseItem env fc s = Returns (f, r)"
  then obtain type s1 where t: "ExpectFilterType s = Returns (type, s1)"
    and p: "(case type of
         LOCATE_TAG_MODIFIED_SINCE \<Rightarrow> ParseSince ModifiedSinceSongFilter s1
       | LOCATE_TAG_ADDED_SINCE \<Rightarrow> ParseSince AddedSinceSongFilter s1
       | LOCATE_TAG_BASE_TYPE \<Rightarrow>
           and_then (ExpectQuoted s1) (\<lambda>(val, s2).
             and_then (ExpectClose s2) (\<lambda>s3. Returns (BaseSongFilter val, s3)))
       | LOCATE_TAG_AUDIO_FORMAT \<Rightarrow> ParseAudioFormatItem s1
       | LOCATE_TAG_PRIORITY \<Rightarrow> ParsePriorityItem s1
       | _ \<Rightarrow>
           and_then (ParseStringFilter env fc s1) (\<lambda>(f, s2).
             and_then (ExpectClose s2) (\<lambda>s3.
               Returns (case type of
                          LOCATE_TAG_FILE_TYPE \<Rightarrow> UriSongFilter f
                        | Locate_Tag t \<Rightarrow> TagSongFilter (FilterTag t) f
                        | _ \<Rightarrow> TagSongFilter FilterAny f, s3)))) = Returns (f, r)"
    by (auto simp: ParseItem_def and_then_Returns)
  have s1: "length s1 < length s"
    using t by (auto simp: ExpectFilterType_def and_then_Returns split: if_splits dest: ExpectWord_shorter)
  have since: "ParseSince mk s1 = Returns (f, r) \<Longrightarrow> length r < length s1" for mk
    by (auto simp: ParseSince_def and_then_Returns dest!: ExpectQuoted_shorter ExpectClose_shorter)
  have audio: "ParseAudioFormatItem s1 = Returns (f, r) \<Longrightarrow> length r < length s1"
    using drop2_StripLeft [of s1]
    by (auto simp: ParseAudioFormatItem_def and_then_Returns case_sum_Returns split: if_splits
        dest!: ExpectQuoted_shorter ExpectClose_shorter)
  have prio: "ParsePriorityItem s1 = Returns (f, r) \<Longrightarrow> length r < length s1"
    using drop2_StripLeft [of s1]
    by (auto simp: ParsePriorityItem_def and_then_Returns Let_def split: if_splits prod.splits
        dest!: strtoul_length ExpectClose_shorter)
  have str: "and_then (ParseStringFilter env fc s1) (\<lambda>(f, s2). and_then (ExpectClose s2) (\<lambda>s3. Returns (g f, s3))) = Returns (f, r)
      \<Longrightarrow> length r < length s1" for g
    by (auto simp: and_then_Returns dest!: ParseStringFilter_shorter ExpectClose_shorter)
  have "length r < length s1"
    using p since audio prio str
    by (cases type) (auto simp: and_then_Returns dest!: ExpectQuoted_shorter ExpectClose_shorter ParseStringFilter_shorter)
  with s1 show ?thesis by simp
qed

text \<open>
  The callers see an opening parenthesis, except after \<open>AND\<close>: there the code only asserts it, and a
  release build skips whatever character comes next. \<open>and_loop\<close> is the loop for the operands after
  the first.
\<close>

function (sequential) ParseExpression :: "filter_env \<Rightarrow> bool \<Rightarrow> string \<Rightarrow> (song_filter \<times> string) outcome"
  and and_loop :: "filter_env \<Rightarrow> bool \<Rightarrow> song_filter list \<Rightarrow> string \<Rightarrow> (song_filter \<times> string) outcome" where
  "ParseExpression env fold_case [] = UB"
| "ParseExpression env fold_case (c # s) =
     (if at_char CHR ''('' (StripLeft s) then
        and_then (ParseExpression env fold_case (StripLeft s)) (\<lambda>(first, s2).
          if at_char CHR '')'' s2 then Returns (first, StripLeft (tl s2))
          else and_then (ExpectWord s2) (\<lambda>(word, s3).
            if word \<noteq> ''AND'' then Throws (single_quote # ''AND'' @ single_quote # '' expected'')
            else and_loop env fold_case [first] s3))
      else if at_char CHR ''!'' (StripLeft s) then
        (if \<not> at_char CHR ''('' (StripLeft (tl (StripLeft s)))
         then Throws (single_quote # CHR ''('' # single_quote # '' expected'')
         else and_then (ParseExpression env fold_case (StripLeft (tl (StripLeft s)))) (\<lambda>(inner, s3).
           and_then (ExpectClose s3) (\<lambda>s4. Returns (NotSongFilter inner, s4))))
      else ParseItem env fold_case (StripLeft s))"
| "and_loop env fold_case fs s =
     and_then (ParseExpression env fold_case s) (\<lambda>(f, s1).
       if at_char CHR '')'' s1 then Returns (AndSongFilter (fs @ [f]), StripLeft (tl s1))
       else and_then (ExpectWord s1) (\<lambda>(word, s2).
         if word \<noteq> ''AND'' then Throws (single_quote # ''AND'' @ single_quote # '' expected'')
         else and_loop env fold_case (fs @ [f]) s2))"
  by pat_completeness auto

lemma ParseExpression_shorter_dom:
  "ParseExpression_and_loop_dom (Inl (env, fold_case, s)) \<Longrightarrow> ParseExpression env fold_case s = Returns (f, r) \<Longrightarrow> length r < length s"
  "ParseExpression_and_loop_dom (Inr (env, fold_case, fs, s)) \<Longrightarrow> and_loop env fold_case fs s = Returns (f, r) \<Longrightarrow> length r < length s"
proof (induction env fold_case s and env fold_case fs s arbitrary: f r and f r rule: ParseExpression_and_loop.pinduct)
  case (1 env fold_case)
  then show ?case by (simp add: ParseExpression.psimps)
next
  case (2 env fold_case c s)
  have short: "length (StripLeft s) < length (c # s)" "length (StripLeft (tl (StripLeft s))) < length (c # s)"
    using length_StripLeft [of s] length_StripLeft [of "tl (StripLeft s)"] by auto
  note eq = "2.prems" [unfolded ParseExpression.psimps(2) [OF "2.hyps"]]
  consider (nested) "at_char CHR ''('' (StripLeft s)"
    | (neg) "\<not> at_char CHR ''('' (StripLeft s)" "at_char CHR ''!'' (StripLeft s)"
    | (item) "\<not> at_char CHR ''('' (StripLeft s)" "\<not> at_char CHR ''!'' (StripLeft s)" by blast
  then show ?case
  proof cases
    case nested
    with eq obtain first s2 where first: "ParseExpression env fold_case (StripLeft s) = Returns (first, s2)"
      and rest: "(if at_char CHR '')'' s2 then Returns (first, StripLeft (tl s2))
          else and_then (ExpectWord s2) (\<lambda>(word, s3).
            if word \<noteq> ''AND'' then Throws (single_quote # ''AND'' @ single_quote # '' expected'')
            else and_loop env fold_case [first] s3)) = Returns (f, r)"
      by (simp only: if_True and_then_Returns) auto
    have "length s2 < length (StripLeft s)" by (rule "2.IH"(1) [OF nested first])
    moreover have "length r \<le> length s2"
    proof (cases "at_char CHR '')'' s2")
      case True
      then show ?thesis using rest length_StripLeft [of "tl s2"] by auto
    next
      case False
      with rest obtain s3 where s3: "ExpectWord s2 = Returns (''AND'', s3)" "and_loop env fold_case [first] s3 = Returns (f, r)"
        by (auto simp: and_then_Returns split: if_splits)
      have "length r < length s3"
        using "2.IH"(2) [OF nested first refl False s3(1) refl _ s3(2)] by simp
      then show ?thesis using ExpectWord_shorter [OF s3(1)] by simp
    qed
    ultimately show ?thesis using short(1) by simp
  next
    case neg
    with eq obtain inner s3 where opened: "at_char CHR ''('' (StripLeft (tl (StripLeft s)))"
      and inner: "ParseExpression env fold_case (StripLeft (tl (StripLeft s))) = Returns (inner, s3)" "ExpectClose s3 = Returns r"
      by (auto simp: and_then_Returns split: if_splits)
    have "length s3 < length (StripLeft (tl (StripLeft s)))" using "2.IH"(3) [OF neg _ inner(1)] opened by simp
    then show ?thesis using ExpectClose_shorter [OF inner(2)] short(2) by simp
  next
    case item
    with eq have "ParseItem env fold_case (StripLeft s) = Returns (f, r)" by simp
    then show ?thesis using ParseItem_shorter short(1) by fastforce
  qed
next
  case (3 env fold_case fs s)
  note eq = "3.prems" [unfolded and_loop.psimps [OF "3.hyps"]]
  then obtain g s1 where g: "ParseExpression env fold_case s = Returns (g, s1)"
    and rest: "(if at_char CHR '')'' s1 then Returns (AndSongFilter (fs @ [g]), StripLeft (tl s1))
       else and_then (ExpectWord s1) (\<lambda>(word, s2).
         if word \<noteq> ''AND'' then Throws (single_quote # ''AND'' @ single_quote # '' expected'')
         else and_loop env fold_case (fs @ [g]) s2)) = Returns (f, r)"
    by (simp only: and_then_Returns) auto
  have "length s1 < length s" by (rule "3.IH"(1) [OF g])
  moreover have "length r \<le> length s1"
  proof (cases "at_char CHR '')'' s1")
    case True
    then show ?thesis using rest length_StripLeft [of "tl s1"] by auto
  next
    case False
    with rest obtain s2 where s2: "ExpectWord s1 = Returns (''AND'', s2)" "and_loop env fold_case (fs @ [g]) s2 = Returns (f, r)"
      by (auto simp: and_then_Returns split: if_splits)
    have "length r < length s2" using "3.IH"(2) [OF g refl False s2(1) refl _ s2(2)] by simp
    then show ?thesis using ExpectWord_shorter [OF s2(1)] by simp
  qed
  ultimately show ?case by simp
qed

termination ParseExpression
proof (relation "measure (\<lambda>x. case x of Inl (env, fold_case, s) \<Rightarrow> 2 * length s | Inr (env, fold_case, fs, s) \<Rightarrow> 2 * length s + 1)",
    goal_cases)
  case (2 env fold_case c s)
  then show ?case using length_StripLeft [of s] by simp
next
  case (3 env fold_case c s a first s2 b word s3)
  have "length s2 < length (StripLeft s)" using ParseExpression_shorter_dom(1) 3 by blast
  moreover have "length s3 < length s2" using 3 ExpectWord_shorter [of s2 word s3] by simp
  ultimately show ?case using length_StripLeft [of s] by simp
next
  case (4 env fold_case c s)
  then show ?case using length_StripLeft [of s] length_StripLeft [of "tl (StripLeft s)"] by simp
next
  case (6 env fold_case fs s a f s1 b word s2)
  have "length s1 < length s" using ParseExpression_shorter_dom(1) 6 by blast
  moreover have "length s2 < length s1" using 6 ExpectWord_shorter [of s1 word s2] by simp
  ultimately show ?case by simp
qed simp_all

declare ParseExpression.simps [simp del] and_loop.simps [simp del]

text \<open>
  The older form of two arguments. The types for which there is no such form are cast to a tag type
  that does not exist.
\<close>

definition compat_filter :: "string \<Rightarrow> bool \<Rightarrow> StringFilter" where
  "compat_filter val fold_case = StringFilter_new val fold_case (if fold_case then ANYWHERE else FULL) False"

definition SongFilter_of_tag :: "TagType \<Rightarrow> string \<Rightarrow> bool \<Rightarrow> SongFilter" where
  "SongFilter_of_tag tag val fold_case = [TagSongFilter (FilterTag tag) (compat_filter val fold_case)]"

definition SongFilter_Parse_pair :: "string \<Rightarrow> string \<Rightarrow> bool \<Rightarrow> SongFilter \<Rightarrow> SongFilter outcome" where
  "SongFilter_Parse_pair tag_string val fold_case sf =
     (case locate_parse_type tag_string of
        Locate_Unknown \<Rightarrow> Throws ''Unknown filter type''
      | LOCATE_TAG_BASE_TYPE \<Rightarrow>
          and_then (uri_safe_local val) (\<lambda>safe.
            if \<not> safe then Throws ''Bad URI'' else Returns (sf @ [BaseSongFilter val]))
      | LOCATE_TAG_MODIFIED_SINCE \<Rightarrow> and_then (ParseTimeStamp val) (\<lambda>t. Returns (sf @ [ModifiedSinceSongFilter t]))
      | LOCATE_TAG_ADDED_SINCE \<Rightarrow> and_then (ParseTimeStamp val) (\<lambda>t. Returns (sf @ [AddedSinceSongFilter t]))
      | LOCATE_TAG_FILE_TYPE \<Rightarrow> Returns (sf @ [UriSongFilter (compat_filter val fold_case)])
      | LOCATE_TAG_ANY_TYPE \<Rightarrow> Returns (sf @ [TagSongFilter FilterAny (compat_filter val fold_case)])
      | Locate_Tag t \<Rightarrow> Returns (sf @ [TagSongFilter (FilterTag t) (compat_filter val fold_case)])
      | LOCATE_TAG_AUDIO_FORMAT \<Rightarrow> Returns (sf @ [TagSongFilter FilterBeyond (compat_filter val fold_case)])
      | LOCATE_TAG_PRIORITY \<Rightarrow> Returns (sf @ [TagSongFilter FilterBeyond (compat_filter val fold_case)]))"

fun parse_args :: "filter_env \<Rightarrow> bool \<Rightarrow> string list \<Rightarrow> SongFilter \<Rightarrow> SongFilter outcome" where
  "parse_args env fold_case [] sf = Returns sf"
| "parse_args env fold_case [a] sf =
     (if at_char CHR ''('' a then
        and_then (ParseExpression env fold_case a) (\<lambda>(f, rest).
          if rest \<noteq> [] then Throws ''Unparsed garbage after expression'' else Returns (sf @ [f]))
      else Throws ''Incorrect number of filter arguments'')"
| "parse_args env fold_case (a # b # args) sf =
     (if at_char CHR ''('' a then
        and_then (ParseExpression env fold_case a) (\<lambda>(f, rest).
          if rest \<noteq> [] then Throws ''Unparsed garbage after expression'' else parse_args env fold_case (b # args) (sf @ [f]))
      else and_then (SongFilter_Parse_pair a b fold_case sf) (\<lambda>sf'. parse_args env fold_case args sf'))"

definition SongFilter_Parse :: "filter_env \<Rightarrow> bool \<Rightarrow> string list \<Rightarrow> SongFilter \<Rightarrow> SongFilter outcome" where
  "SongFilter_Parse env fold_case args sf =
     (if args = [] then Throws ''Incorrect number of filter arguments'' else parse_args env fold_case args sf)"

section \<open>Reading what was written\<close>

lemma StripLeft_quote [simp]: "StripLeft (double_quote # s) = double_quote # s"
  by (simp add: StripLeft_def IsWhitespaceNotNull_def)

lemma StripLeft_blank [simp]: "StripLeft (CHR '' '' # s) = StripLeft s"
  by (simp add: StripLeft_def IsWhitespaceNotNull_def)

lemma quoted_loop_escaped:
  "length b + length v < 4096 \<Longrightarrow>
   quoted_loop double_quote b (EscapeFilterString v @ double_quote # r) = Returns (b @ v, StripLeft r)"
  by (induction v arbitrary: b) (auto simp: EscapeFilterString_def MustEscape_def)

lemma ExpectQuoted_quoted:
  "length v < 4096 \<Longrightarrow> ExpectQuoted (quoted (EscapeFilterString v) @ r) = Returns (v, StripLeft r)"
  using quoted_loop_escaped [of "[]" v r] by (simp add: ExpectQuoted_def quoted_def IsQuote_def)

lemma EscapeFilterString_id: "\<forall>c \<in> set v. \<not> MustEscape c \<Longrightarrow> EscapeFilterString v = v"
  by (induction v) (simp_all add: EscapeFilterString_def)

lemma ExpectQuoted_plain:
  "\<lbrakk>\<forall>c \<in> set v. \<not> MustEscape c; length v < 4096\<rbrakk> \<Longrightarrow> ExpectQuoted (quoted v @ r) = Returns (v, StripLeft r)"
  using ExpectQuoted_quoted [of v r] by (simp add: EscapeFilterString_id)

lemma StripLeft_quoted [simp]: "StripLeft (quoted v @ r) = quoted v @ r"
  by (simp add: quoted_def)

definition string_filter_ok :: "filter_env \<Rightarrow> bool \<Rightarrow> StringFilter \<Rightarrow> bool" where
  "string_filter_ok env fold_case f \<longleftrightarrow>
     length (sf_value f) < 4096 \<and> sf_fold_case f = fold_case \<and>
     (sf_regex f \<longrightarrow> sf_position f = FULL \<and> (\<exists>m. UniqueRegex env (sf_value f) fold_case = Inr m))"

lemma find_operator_none:
  "find_operator (operators @ default_operators fc) (CHR ''='' # s) = None"
  "find_operator (operators @ default_operators fc) (CHR ''!'' # CHR ''='' # s) = None"
  "find_operator (operators @ default_operators fc) (CHR ''!'' # CHR ''~'' # s) = None"
  by (simp_all add: operators_def default_operators_def ToLowerASCII_def IsUpperAlphaASCII_def)

lemma find_operator_some:
  "find_operator (operators @ default_operators fc) (''contains '' @ s) =
     Some (\<lparr>op_prefix = ''contains '', op_fold_case = fc, op_negated = False, op_position = ANYWHERE\<rparr>, StripLeft s)"
  "find_operator (operators @ default_operators fc) (''!contains '' @ s) =
     Some (\<lparr>op_prefix = ''!contains '', op_fold_case = fc, op_negated = True, op_position = ANYWHERE\<rparr>, StripLeft s)"
  "find_operator (operators @ default_operators fc) (''starts_with '' @ s) =
     Some (\<lparr>op_prefix = ''starts_with '', op_fold_case = fc, op_negated = False, op_position = PREFIX\<rparr>, StripLeft s)"
  "find_operator (operators @ default_operators fc) (''!starts_with '' @ s) =
     Some (\<lparr>op_prefix = ''!starts_with '', op_fold_case = fc, op_negated = True, op_position = PREFIX\<rparr>, StripLeft s)"
  by (simp_all add: operators_def default_operators_def ToLowerASCII_def IsUpperAlphaASCII_def)

lemma ParseStringFilter_text:
  assumes "string_filter_ok env fc f"
  shows "ParseStringFilter env fc (GetOperator f @ '' '' @ quoted (EscapeFilterString (sf_value f)) @ r) = Returns (f, StripLeft r)"
proof -
  let ?q = "quoted (EscapeFilterString (sf_value f)) @ r"
  have quoted: "ExpectQuoted ?q = Returns (sf_value f, StripLeft r)"
    using assms by (intro ExpectQuoted_quoted) (simp add: string_filter_ok_def)
  obtain v regex pos neg where f: "f = \<lparr>sf_value = v, sf_fold_case = fc, sf_regex = regex, sf_position = pos, sf_negated = neg\<rparr>"
    using assms by (cases f) (simp add: string_filter_ok_def)
  note q = quoted [unfolded f, simplified]
  show ?thesis
  proof (cases regex)
    case True
    then obtain m where "pos = FULL" "UniqueRegex env v fc = Inr m" using assms by (auto simp: string_filter_ok_def f)
    then show ?thesis
      using True q
      by (cases neg) (simp_all add: f GetOperator_def ParseStringFilter_def find_operator_none at_char_def StringFilter_new_def)
  next
    case False
    then show ?thesis
      using q find_operator_some [of fc "quoted (EscapeFilterString v) @ r"]
      by (cases pos; cases neg)
        (simp_all add: f GetOperator_def ParseStringFilter_def find_operator_none at_char_def StringFilter_new_def)
  qed
qed

lemma ToLowerASCII_letters:
  "ToLowerASCII (CHR ''a'') = CHR ''a''" "ToLowerASCII (CHR ''b'') = CHR ''b''" "ToLowerASCII (CHR ''c'') = CHR ''c''"
  "ToLowerASCII (CHR ''d'') = CHR ''d''" "ToLowerASCII (CHR ''e'') = CHR ''e''" "ToLowerASCII (CHR ''f'') = CHR ''f''"
  "ToLowerASCII (CHR ''g'') = CHR ''g''" "ToLowerASCII (CHR ''h'') = CHR ''h''" "ToLowerASCII (CHR ''i'') = CHR ''i''"
  "ToLowerASCII (CHR ''j'') = CHR ''j''" "ToLowerASCII (CHR ''k'') = CHR ''k''" "ToLowerASCII (CHR ''l'') = CHR ''l''"
  "ToLowerASCII (CHR ''m'') = CHR ''m''" "ToLowerASCII (CHR ''n'') = CHR ''n''" "ToLowerASCII (CHR ''o'') = CHR ''o''"
  "ToLowerASCII (CHR ''p'') = CHR ''p''" "ToLowerASCII (CHR ''q'') = CHR ''q''" "ToLowerASCII (CHR ''r'') = CHR ''r''"
  "ToLowerASCII (CHR ''s'') = CHR ''s''" "ToLowerASCII (CHR ''t'') = CHR ''t''" "ToLowerASCII (CHR ''u'') = CHR ''u''"
  "ToLowerASCII (CHR ''v'') = CHR ''v''" "ToLowerASCII (CHR ''w'') = CHR ''w''" "ToLowerASCII (CHR ''x'') = CHR ''x''"
  "ToLowerASCII (CHR ''y'') = CHR ''y''" "ToLowerASCII (CHR ''z'') = CHR ''z''" "ToLowerASCII (CHR ''A'') = CHR ''a''"
  "ToLowerASCII (CHR ''B'') = CHR ''b''" "ToLowerASCII (CHR ''C'') = CHR ''c''" "ToLowerASCII (CHR ''D'') = CHR ''d''"
  "ToLowerASCII (CHR ''E'') = CHR ''e''" "ToLowerASCII (CHR ''F'') = CHR ''f''" "ToLowerASCII (CHR ''G'') = CHR ''g''"
  "ToLowerASCII (CHR ''H'') = CHR ''h''" "ToLowerASCII (CHR ''I'') = CHR ''i''" "ToLowerASCII (CHR ''J'') = CHR ''j''"
  "ToLowerASCII (CHR ''K'') = CHR ''k''" "ToLowerASCII (CHR ''L'') = CHR ''l''" "ToLowerASCII (CHR ''M'') = CHR ''m''"
  "ToLowerASCII (CHR ''N'') = CHR ''n''" "ToLowerASCII (CHR ''O'') = CHR ''o''" "ToLowerASCII (CHR ''P'') = CHR ''p''"
  "ToLowerASCII (CHR ''Q'') = CHR ''q''" "ToLowerASCII (CHR ''R'') = CHR ''r''" "ToLowerASCII (CHR ''S'') = CHR ''s''"
  "ToLowerASCII (CHR ''T'') = CHR ''t''" "ToLowerASCII (CHR ''U'') = CHR ''u''" "ToLowerASCII (CHR ''V'') = CHR ''v''"
  "ToLowerASCII (CHR ''W'') = CHR ''w''" "ToLowerASCII (CHR ''X'') = CHR ''x''" "ToLowerASCII (CHR ''Y'') = CHR ''y''"
  "ToLowerASCII (CHR ''Z'') = CHR ''z''" "ToLowerASCII (CHR ''_'') = CHR ''_''"
  by (simp_all add: ToLowerASCII_def IsUpperAlphaASCII_def char_of_def bit_0)

lemma IsTagNameChar_letters:
  "IsTagNameChar (CHR ''a'')" "IsTagNameChar (CHR ''b'')" "IsTagNameChar (CHR ''c'')" "IsTagNameChar (CHR ''d'')"
  "IsTagNameChar (CHR ''e'')" "IsTagNameChar (CHR ''f'')" "IsTagNameChar (CHR ''g'')" "IsTagNameChar (CHR ''h'')"
  "IsTagNameChar (CHR ''i'')" "IsTagNameChar (CHR ''j'')" "IsTagNameChar (CHR ''k'')" "IsTagNameChar (CHR ''l'')"
  "IsTagNameChar (CHR ''m'')" "IsTagNameChar (CHR ''n'')" "IsTagNameChar (CHR ''o'')" "IsTagNameChar (CHR ''p'')"
  "IsTagNameChar (CHR ''q'')" "IsTagNameChar (CHR ''r'')" "IsTagNameChar (CHR ''s'')" "IsTagNameChar (CHR ''t'')"
  "IsTagNameChar (CHR ''u'')" "IsTagNameChar (CHR ''v'')" "IsTagNameChar (CHR ''w'')" "IsTagNameChar (CHR ''x'')"
  "IsTagNameChar (CHR ''y'')" "IsTagNameChar (CHR ''z'')" "IsTagNameChar (CHR ''A'')" "IsTagNameChar (CHR ''B'')"
  "IsTagNameChar (CHR ''C'')" "IsTagNameChar (CHR ''D'')" "IsTagNameChar (CHR ''E'')" "IsTagNameChar (CHR ''F'')"
  "IsTagNameChar (CHR ''G'')" "IsTagNameChar (CHR ''H'')" "IsTagNameChar (CHR ''I'')" "IsTagNameChar (CHR ''J'')"
  "IsTagNameChar (CHR ''K'')" "IsTagNameChar (CHR ''L'')" "IsTagNameChar (CHR ''M'')" "IsTagNameChar (CHR ''N'')"
  "IsTagNameChar (CHR ''O'')" "IsTagNameChar (CHR ''P'')" "IsTagNameChar (CHR ''Q'')" "IsTagNameChar (CHR ''R'')"
  "IsTagNameChar (CHR ''S'')" "IsTagNameChar (CHR ''T'')" "IsTagNameChar (CHR ''U'')" "IsTagNameChar (CHR ''V'')"
  "IsTagNameChar (CHR ''W'')" "IsTagNameChar (CHR ''X'')" "IsTagNameChar (CHR ''Y'')" "IsTagNameChar (CHR ''Z'')"
  "IsTagNameChar (CHR ''_'')" "IsTagNameChar (CHR ''-'')"
  by (simp_all add: IsTagNameChar_def char_class_defs)

lemma lower_names_distinct: "distinct (map (\<lambda>t. map ToLowerASCII (tag_item_names t)) all_tag_types)"
  by (simp add: all_tag_types_def ToLowerASCII_letters)

lemma tag_name_parse_i_names: "tag_name_parse_i (tag_item_names t) = Some t"
proof -
  have "StringIsEqualIgnoreCase (tag_item_names t) (tag_item_names u) \<longleftrightarrow> map ToLowerASCII (tag_item_names u) = map ToLowerASCII (tag_item_names t)" for u
    unfolding StringIsEqualIgnoreCase_def by (metis length_map)
  then show ?thesis
    using find_distinct_map [OF lower_names_distinct, of t] by (simp add: tag_name_parse_i_def)
qed

lemma tag_names_parse:
  "list_all (\<lambda>t. list_all IsTagNameChar (tag_item_names t) \<and>
     \<not> StringIsEqualIgnoreCase (tag_item_names t) ''file'' \<and> \<not> StringIsEqualIgnoreCase (tag_item_names t) ''filename'' \<and>
     \<not> StringIsEqualIgnoreCase (tag_item_names t) ''any'' \<and> tag_item_names t \<noteq> ''base'' \<and>
     tag_item_names t \<noteq> ''modified-since'' \<and> tag_item_names t \<noteq> ''added-since'' \<and>
     \<not> StringIsEqualIgnoreCase (tag_item_names t) ''AudioFormat'' \<and> \<not> StringIsEqualIgnoreCase (tag_item_names t) ''prio'')
   all_tag_types"
  by (simp add: all_tag_types_def IsTagNameChar_letters StringIsEqualIgnoreCase_def ToLowerASCII_letters)

lemma locate_parse_type_names: "locate_parse_type (tag_item_names t) = Locate_Tag t" "list_all IsTagNameChar (tag_item_names t)"
  using tag_names_parse unfolding list_all_iff [of _ all_tag_types]
  by (simp_all add: locate_parse_type_def tag_name_parse_i_names)

lemma locate_parse_type_words:
  "locate_parse_type ''any'' = LOCATE_TAG_ANY_TYPE" "locate_parse_type ''file'' = LOCATE_TAG_FILE_TYPE"
  "locate_parse_type ''base'' = LOCATE_TAG_BASE_TYPE" "locate_parse_type ''modified-since'' = LOCATE_TAG_MODIFIED_SINCE"
  "locate_parse_type ''added-since'' = LOCATE_TAG_ADDED_SINCE" "locate_parse_type ''AudioFormat'' = LOCATE_TAG_AUDIO_FORMAT"
  "locate_parse_type ''prio'' = LOCATE_TAG_PRIORITY"
  by code_simp+

text \<open>An expression that begins with a word is an item.\<close>

lemma IsTagNameChar_blank [simp]: "\<not> IsTagNameChar (CHR '' '')"
  by (simp add: IsTagNameChar_def IsAlphaASCII_def IsUpperAlphaASCII_def IsLowerAlphaASCII_def)

lemma IsTagNameChar_first: "IsTagNameChar c \<Longrightarrow> c \<noteq> CHR ''('' \<and> c \<noteq> CHR ''!'' \<and> \<not> IsWhitespaceNotNull c"
  by (auto simp: IsTagNameChar_def char_class_defs)

lemma ParseExpression_item:
  assumes "w \<noteq> []" "list_all IsTagNameChar w" "locate_parse_type w = type" "type \<noteq> Locate_Unknown"
  shows "ParseExpression env fc (CHR ''('' # w @ CHR '' '' # s) = ParseItem env fc (w @ CHR '' '' # s)"
    "ExpectFilterType (w @ CHR '' '' # s) = Returns (type, StripLeft s)"
proof -
  have c: "IsTagNameChar (hd w)" using assms(1,2) by (cases w) simp_all
  then have "StripLeft (w @ CHR '' '' # s) = w @ CHR '' '' # s"
    using assms(1) IsTagNameChar_first by (cases w) (auto simp: StripLeft_def)
  moreover have "\<not> at_char CHR ''('' (w @ CHR '' '' # s)" "\<not> at_char CHR ''!'' (w @ CHR '' '' # s)"
    using c assms(1) IsTagNameChar_first [of "hd w"] by (auto simp: at_char_def)
  ultimately show "ParseExpression env fc (CHR ''('' # w @ CHR '' '' # s) = ParseItem env fc (w @ CHR '' '' # s)"
    by (simp add: ParseExpression.simps)
  have "takeWhile IsTagNameChar (w @ CHR '' '' # s) = w" "dropWhile IsTagNameChar (w @ CHR '' '' # s) = CHR '' '' # s"
    using assms(2) by (simp_all add: takeWhile_append2 dropWhile_append2 list_all_iff)
  then show "ExpectFilterType (w @ CHR '' '' # s) = Returns (type, StripLeft s)"
    using assms by (simp add: ExpectFilterType_def ExpectWord_def)
qed

lemma ExpectClose_paren [simp]: "ExpectClose (CHR '')'' # r) = Returns (StripLeft r)"
  by (simp add: ExpectClose_def at_char_def)

lemma StripLeft_paren [simp]: "StripLeft (CHR '')'' # r) = CHR '')'' # r" "StripLeft (CHR ''('' # r) = CHR ''('' # r"
  by (simp_all add: StripLeft_def IsWhitespaceNotNull_def)

text \<open>
  The filters whose text form says everything: the case folding is that of the command, the values
  fit the buffer of the parser, time stamps are whole seconds, audio formats are valid ones, and a
  conjunction has at least two items.
\<close>

fun printable_filter :: "filter_env \<Rightarrow> bool \<Rightarrow> song_filter \<Rightarrow> bool" where
  "printable_filter env fc (AndSongFilter fs) \<longleftrightarrow> 2 \<le> length fs \<and> list_all (printable_filter env fc) fs"
| "printable_filter env fc (NotSongFilter f) \<longleftrightarrow> printable_filter env fc f"
| "printable_filter env fc (TagSongFilter type f) \<longleftrightarrow> type \<noteq> FilterBeyond \<and> string_filter_ok env fc f"
| "printable_filter env fc (UriSongFilter f) \<longleftrightarrow> string_filter_ok env fc f"
| "printable_filter env fc (BaseSongFilter v) \<longleftrightarrow> length v < 4096"
| "printable_filter env fc (ModifiedSinceSongFilter t) \<longleftrightarrow>
     - (2 ^ 63) \<le> t \<and> t < 2 ^ 63 \<and> from_time_t (to_time_t t) = t"
| "printable_filter env fc (AddedSinceSongFilter t) \<longleftrightarrow>
     - (2 ^ 63) \<le> t \<and> t < 2 ^ 63 \<and> from_time_t (to_time_t t) = t"
| "printable_filter env fc (AudioFormatSongFilter a) \<longleftrightarrow> printable_format a"
| "printable_filter env fc (PrioritySongFilter p) \<longleftrightarrow> True"

definition parses_back :: "filter_env \<Rightarrow> bool \<Rightarrow> song_filter \<Rightarrow> string \<Rightarrow> bool" where
  "parses_back env fc f e \<longleftrightarrow>
     (\<exists>e'. e = CHR ''('' # e') \<and> (\<forall>r. ParseExpression env fc (e @ r) = Returns (f, StripLeft r))"

lemma parses_back_word:
  assumes "w \<noteq> []" "list_all IsTagNameChar w" "locate_parse_type w = type" "type \<noteq> Locate_Unknown"
    and "\<And>r. ParseItem env fc (w @ CHR '' '' # x @ r) = Returns (f, StripLeft r)"
  shows "parses_back env fc f (CHR ''('' # w @ CHR '' '' # x)"
  using ParseExpression_item(1) [OF assms(1-4)] assms(5) by (simp add: parses_back_def)

lemma fixed_digits_plain: "c \<in> set (fixed_digits k n) \<Longrightarrow> IsDigitASCII c"
  by (induction k arbitrary: n) (auto dest: digit_char_class)

lemma length_fixed_digits [simp]: "length (fixed_digits k n) = k"
  by (induction k arbitrary: n) simp_all

lemma digit_no_escape: "IsDigitASCII c \<Longrightarrow> \<not> MustEscape c"
  by (auto simp: MustEscape_def IsDigitASCII_def)

lemma FormatISO8601_plain: "\<forall>c \<in> set (FormatISO8601 t). \<not> MustEscape c" "length (FormatISO8601 t) = 20"
proof -
  have "\<not> MustEscape c" if "c \<in> set (FormatISO8601 t)" for c
  proof -
    have "IsDigitASCII c \<or> c \<in> {CHR ''-'', CHR ''T'', CHR '':'', CHR ''Z''}"
      using that fixed_digits_plain by (auto simp: FormatISO8601_def FormatISO8601_tm_def)
    then show ?thesis using digit_no_escape by (auto simp: MustEscape_def)
  qed
  then show "\<forall>c \<in> set (FormatISO8601 t). \<not> MustEscape c" by blast
  show "length (FormatISO8601 t) = 20" by (simp add: FormatISO8601_def FormatISO8601_tm_def)
qed

lemma ParseSince_text:
  assumes "- (2 ^ 63) \<le> t" "t < 2 ^ 63" "from_time_t (to_time_t t) = t"
  shows "ParseSince mk (quoted (FormatISO8601 t) @ CHR '')'' # r) = Returns (mk t, StripLeft r)"
proof -
  have "ParseTimeStamp (FormatISO8601 t) = Returns t"
    using ParseISO8601_Format [OF assms(1,2)] assms(3) by (simp add: ParseTimeStamp_def)
  moreover have "ExpectQuoted (quoted (FormatISO8601 t) @ CHR '')'' # r) = Returns (FormatISO8601 t, CHR '')'' # r)"
    using ExpectQuoted_plain [OF FormatISO8601_plain(1), of t] FormatISO8601_plain(2) by simp
  ultimately show ?thesis by (simp add: ParseSince_def)
qed

lemma ToString_plain: "\<forall>c \<in> set (ToString af). \<not> MustEscape c"
proof -
  have "\<not> MustEscape c" if "c \<in> set (sample_format_to_string f)" for c f
    using that by (cases f) (auto simp: MustEscape_def)
  moreover have "\<not> MustEscape c" if "c \<in> set (fmt_uint n)" for c n
    by (rule digit_no_escape [OF fmt_uint_digits [OF that]])
  ultimately show ?thesis by (auto simp: ToString_def Let_def MustEscape_def)
qed

lemma parses_back_string:
  assumes w: "w \<noteq> []" "list_all IsTagNameChar w" "locate_parse_type w = type"
    and type: "type = LOCATE_TAG_FILE_TYPE \<or> type = LOCATE_TAG_ANY_TYPE \<or> (\<exists>t. type = Locate_Tag t)"
    and ok: "string_filter_ok env fc sf"
  shows "parses_back env fc (case type of LOCATE_TAG_FILE_TYPE \<Rightarrow> UriSongFilter sf
      | Locate_Tag t \<Rightarrow> TagSongFilter (FilterTag t) sf | _ \<Rightarrow> TagSongFilter FilterAny sf)
    (CHR ''('' # w @ CHR '' '' # GetOperator sf @ '' '' @ quoted (EscapeFilterString (sf_value sf)) @ '')'')"
    (is "parses_back _ _ ?f (_ # w @ _ # ?x)")
proof (rule parses_back_word [OF w])
  fix r
  have "StripLeft (?x @ r) = ?x @ r"
    by (auto simp: StripLeft_def IsWhitespaceNotNull_def GetOperator_def split: Position.split)
  then have "ParseStringFilter env fc (StripLeft (?x @ r)) = Returns (sf, CHR '')'' # r)"
    using ParseStringFilter_text [OF ok, of "CHR '')'' # r"] by simp
  then show "ParseItem env fc (w @ CHR '' '' # ?x @ r) = Returns (?f, StripLeft r)"
    using type ParseExpression_item(2) [OF w, of "?x @ r"] by (auto simp: ParseItem_def)
qed (use type in auto)

lemma parses_back_word_type:
  assumes "w \<noteq> []" "list_all IsTagNameChar w" "locate_parse_type w = type" "type \<noteq> Locate_Unknown" "x \<noteq> []" "\<not> IsWhitespaceNotNull (hd x)"
    and "\<And>r. (case type of
         LOCATE_TAG_MODIFIED_SINCE \<Rightarrow> ParseSince ModifiedSinceSongFilter (x @ r)
       | LOCATE_TAG_ADDED_SINCE \<Rightarrow> ParseSince AddedSinceSongFilter (x @ r)
       | LOCATE_TAG_BASE_TYPE \<Rightarrow>
           and_then (ExpectQuoted (x @ r)) (\<lambda>(val, s2).
             and_then (ExpectClose s2) (\<lambda>s3. Returns (BaseSongFilter val, s3)))
       | LOCATE_TAG_AUDIO_FORMAT \<Rightarrow> ParseAudioFormatItem (x @ r)
       | LOCATE_TAG_PRIORITY \<Rightarrow> ParsePriorityItem (x @ r)
       | _ \<Rightarrow> UB) = Returns (f, StripLeft r)"
  shows "parses_back env fc f (CHR ''('' # w @ CHR '' '' # x)"
proof (rule parses_back_word [OF assms(1-4)])
  fix r
  have "StripLeft (x @ r) = x @ r" using assms(5,6) by (cases x) (simp_all add: StripLeft_def)
  then show "ParseItem env fc (w @ CHR '' '' # x @ r) = Returns (f, StripLeft r)"
    using assms(7) [of r] ParseExpression_item(2) [OF assms(1-4), of "x @ r"]
    by (cases type) (simp_all add: ParseItem_def)
qed

lemma filter_words: "list_all (list_all IsTagNameChar) [''any'', ''file'', ''base'', ''modified-since'', ''added-since'', ''AudioFormat'', ''prio'']"
  by code_simp

lemma quoted_first: "quoted v @ x \<noteq> []" "hd (quoted v @ x) = double_quote" "\<not> IsWhitespaceNotNull double_quote"
  by (simp_all add: quoted_def IsWhitespaceNotNull_def)

lemma ParseAudioFormatItem_text:
  assumes "printable_format a"
  shows "ParseAudioFormatItem (''== '' @ quoted (ToString a) @ '')'' @ r) = Returns (AudioFormatSongFilter a, StripLeft r)"
  using ParseAudioFormat_ToString [OF assms] ExpectQuoted_plain [OF ToString_plain, of a "CHR '')'' # r"] ToString_short [of a]
  by (simp add: ParseAudioFormatItem_def at_char_def)

lemma ParsePriorityItem_text:
  "ParsePriorityItem (''>= '' @ fmt_uint (unat p) @ '')'' @ r) = Returns (PrioritySongFilter p, StripLeft r)" for p :: "8 word"
proof -
  have p: "unat p < 256" by (rule unat_less_256)
  have "StripLeft (fmt_uint (unat p) @ CHR '')'' # r) = fmt_uint (unat p) @ CHR '')'' # r"
    by (rule fmt_uint_Cons [of "unat p"]) (simp add: StripLeft_def)
  moreover have "strtoul (fmt_uint (unat p) @ CHR '')'' # r) = (unat p, CHR '')'' # r)"
    using p scan_number_fmt_uint [of "CHR '')'' # r" "unat p"] by (simp add: strtoul_def IsDigitASCII_def)
  ultimately show ?thesis using p by (simp add: ParsePriorityItem_def at_char_def)
qed

lemma parses_back_leaf:
  assumes "printable_filter env fc f" "\<forall>fs. f \<noteq> AndSongFilter fs" "\<forall>g. f \<noteq> NotSongFilter g"
  shows "\<exists>e. ToExpression f = Returns e \<and> parses_back env fc f e"
proof (cases f)
  case (TagSongFilter type sf)
  have ok: "string_filter_ok env fc sf" using assms(1) TagSongFilter by simp
  show ?thesis
  proof (cases type)
    case (FilterTag t)
    then show ?thesis
      using parses_back_string [OF tag_name_chars(3) locate_parse_type_names(2,1) _ ok, of t]
      by (simp add: TagSongFilter TagSongFilter_ToExpression_def)
  next
    case FilterAny
    then show ?thesis
      using parses_back_string [OF _ _ locate_parse_type_words(1) _ ok] filter_words
      by (simp add: TagSongFilter TagSongFilter_ToExpression_def)
  qed (use assms(1) TagSongFilter in simp)
next
  case (UriSongFilter sf)
  then show ?thesis
    using parses_back_string [OF _ _ locate_parse_type_words(2), of env fc sf] filter_words assms(1) by simp
next
  case (BaseSongFilter v)
  then show ?thesis
    using parses_back_word_type [OF _ _ locate_parse_type_words(3), of "quoted (EscapeFilterString v) @ '')''" f]
      ExpectQuoted_quoted [of v] filter_words assms(1) quoted_first by simp
next
  case (ModifiedSinceSongFilter t)
  then show ?thesis
    using parses_back_word_type [OF _ _ locate_parse_type_words(4), of "quoted (FormatISO8601 t) @ '')''" f]
      ParseSince_text [of t] filter_words assms(1) quoted_first by simp
next
  case (AddedSinceSongFilter t)
  then show ?thesis
    using parses_back_word_type [OF _ _ locate_parse_type_words(5), of "quoted (FormatISO8601 t) @ '')''" f]
      ParseSince_text [of t] filter_words assms(1) quoted_first by simp
next
  case (AudioFormatSongFilter a)
  then have "IsFullyDefined a"
    using assms(1) by (auto simp: printable_format_def IsValid_def IsFullyDefined_def audio_valid_sample_rate_def audio_valid_channel_count_def)
  then show ?thesis
    using parses_back_word_type [OF _ _ locate_parse_type_words(6), of "''== '' @ quoted (ToString a) @ '')''" f]
      ParseAudioFormatItem_text [of a] filter_words assms(1) AudioFormatSongFilter by (simp add: IsWhitespaceNotNull_def)
next
  case (PrioritySongFilter p)
  then show ?thesis
    using parses_back_word_type [OF _ _ locate_parse_type_words(7), of "''>= '' @ fmt_uint (unat p) @ '')''" f]
      ParsePriorityItem_text [of p] filter_words by (simp add: IsWhitespaceNotNull_def)
qed (use assms in auto)

lemma ParseExpression_not:
  assumes "parses_back env fc f e"
  shows "parses_back env fc (NotSongFilter f) (''(!'' @ e @ '')'')"
proof -
  obtain e' where e: "e = CHR ''('' # e'" and p: "\<And>r. ParseExpression env fc (e @ r) = Returns (f, StripLeft r)"
    using assms by (auto simp: parses_back_def)
  have "StripLeft (CHR ''!'' # s) = CHR ''!'' # s" for s by (simp add: StripLeft_def IsWhitespaceNotNull_def)
  then have "ParseExpression env fc (''(!'' @ e @ s) =
      and_then (ParseExpression env fc (e @ s)) (\<lambda>(inner, s3). and_then (ExpectClose s3) (\<lambda>s4. Returns (NotSongFilter inner, s4)))" for s
    by (simp add: e ParseExpression.simps(2) [of _ _ "CHR ''(''"] at_char_def)
  then show ?thesis using p [of "CHR '')'' # _"] by (simp add: parses_back_def)
qed

lemma ExpectWord_AND: "ExpectWord (''AND '' @ s) = Returns (''AND'', StripLeft s)"
  by (simp add: ExpectWord_def IsTagNameChar_def char_class_defs)

lemma StripLeft_AND: "StripLeft ('' AND '' @ s) = ''AND '' @ s"
  by (simp add: StripLeft_def IsWhitespaceNotNull_def)

text \<open>The operands after the first: what follows the first \<open>AND\<close>.\<close>

definition rest_parses :: "filter_env \<Rightarrow> bool \<Rightarrow> song_filter list \<Rightarrow> string \<Rightarrow> bool" where
  "rest_parses env fc fs e \<longleftrightarrow>
     (if fs = [] then e = []
      else \<exists>e'. e = '' AND ('' @ e' \<and>
        (\<forall>acc r. and_loop env fc acc (CHR ''('' # e' @ CHR '')'' # r) = Returns (AndSongFilter (acc @ fs), StripLeft r)))"

lemma rest_parses_Cons:
  assumes "parses_back env fc f e" "rest_parses env fc fs e2"
  shows "rest_parses env fc (f # fs) ('' AND '' @ e @ e2)"
proof -
  obtain e' where e: "e = CHR ''('' # e'" and p: "\<And>r. ParseExpression env fc (e @ r) = Returns (f, StripLeft r)"
    using assms(1) by (auto simp: parses_back_def)
  have "and_loop env fc acc (e @ e2 @ CHR '')'' # r) = Returns (AndSongFilter (acc @ f # fs), StripLeft r)" for acc r
  proof (cases "fs = []")
    case True
    then show ?thesis using assms(2) p by (simp add: and_loop.simps rest_parses_def at_char_def)
  next
    case False
    then obtain e3 where e3: "e2 = '' AND ('' @ e3"
      "\<And>acc r. and_loop env fc acc (CHR ''('' # e3 @ CHR '')'' # r) = Returns (AndSongFilter (acc @ fs), StripLeft r)"
      using assms(2) by (auto simp: rest_parses_def)
    have "StripLeft (e2 @ CHR '')'' # r) = ''AND '' @ CHR ''('' # e3 @ CHR '')'' # r"
      using StripLeft_AND [of "CHR ''('' # e3 @ CHR '')'' # r"] by (simp add: e3(1))
    then have "ParseExpression env fc (e @ e2 @ CHR '')'' # r) = Returns (f, ''AND '' @ CHR ''('' # e3 @ CHR '')'' # r)"
      using p by simp
    then show ?thesis
      using e3(2) [of "acc @ [f]" r] ExpectWord_AND [of "CHR ''('' # e3 @ CHR '')'' # r"]
      by (subst and_loop.simps) (simp add: at_char_def)
  qed
  then show ?thesis by (simp add: rest_parses_def e)
qed

lemma parses_back_and:
  assumes "parses_back env fc f e" "rest_parses env fc fs e2" "fs \<noteq> []"
  shows "parses_back env fc (AndSongFilter (f # fs)) (''('' @ e @ e2 @ '')'')"
proof -
  obtain e' where e: "e = CHR ''('' # e'" and p: "\<And>r. ParseExpression env fc (e @ r) = Returns (f, StripLeft r)"
    using assms(1) by (auto simp: parses_back_def)
  obtain e3 where e3: "e2 = '' AND ('' @ e3"
      "\<And>acc r. and_loop env fc acc (CHR ''('' # e3 @ CHR '')'' # r) = Returns (AndSongFilter (acc @ fs), StripLeft r)"
    using assms(2,3) by (auto simp: rest_parses_def)
  have "ParseExpression env fc ((''('' @ e @ e2 @ '')'') @ r) = Returns (AndSongFilter (f # fs), StripLeft r)" for r
  proof -
    have "StripLeft (e2 @ CHR '')'' # r) = ''AND '' @ CHR ''('' # e3 @ CHR '')'' # r"
      using StripLeft_AND [of "CHR ''('' # e3 @ CHR '')'' # r"] by (simp add: e3(1))
    then have "ParseExpression env fc (CHR ''('' # e' @ e2 @ CHR '')'' # r) = Returns (f, ''AND '' @ CHR ''('' # e3 @ CHR '')'' # r)"
      using p [of "e2 @ CHR '')'' # r"] by (simp add: e)
    then show ?thesis
      using e3(2) [of "[f]" r] ExpectWord_AND [of "CHR ''('' # e3 @ CHR '')'' # r"]
      by (simp add: e ParseExpression.simps(2) [of _ _ "CHR ''(''" "CHR ''('' # _"] at_char_def)
  qed
  then show ?thesis by (simp add: parses_back_def)
qed

lemma ToExpression_parses_back:
  "printable_filter env fc f \<Longrightarrow> \<exists>e. ToExpression f = Returns e \<and> parses_back env fc f e"
  "list_all (printable_filter env fc) fs \<Longrightarrow> \<exists>e. ToExpression_rest fs = Returns e \<and> rest_parses env fc fs e"
proof (induction f and fs rule: ToExpression_ToExpression_rest.induct)
  case (3 f g fs)
  then obtain e e2 where "ToExpression f = Returns e" "parses_back env fc f e"
    "ToExpression_rest (g # fs) = Returns e2" "rest_parses env fc (g # fs) e2" by auto
  then show ?case using parses_back_and [of env fc f e "g # fs" e2] by simp
next
  case (4 f)
  then obtain e where "ToExpression f = Returns e" "parses_back env fc f e" by auto
  then show ?case using ParseExpression_not [of env fc f e] by simp
next
  case 12
  then show ?case by (simp add: rest_parses_def)
next
  case (13 f fs)
  then obtain e e2 where "ToExpression f = Returns e" "parses_back env fc f e"
    "ToExpression_rest fs = Returns e2" "rest_parses env fc fs e2" by auto
  then show ?case using rest_parses_Cons [of env fc f e fs e2] by simp
qed (rule parses_back_leaf; simp)+

section \<open>Parsed filters can be printed\<close>

fun wf_filter :: "song_filter \<Rightarrow> bool" where
  "wf_filter (AndSongFilter fs) \<longleftrightarrow> fs \<noteq> [] \<and> list_all wf_filter fs"
| "wf_filter (NotSongFilter f) \<longleftrightarrow> wf_filter f"
| "wf_filter (TagSongFilter type f) \<longleftrightarrow> type \<noteq> FilterBeyond"
| "wf_filter _ \<longleftrightarrow> True"

lemma wf_filter_ToExpression:
  "wf_filter f \<Longrightarrow> \<exists>e. ToExpression f = Returns e"
  "list_all wf_filter fs \<Longrightarrow> \<exists>e. ToExpression_rest fs = Returns e"
proof (induction f and fs rule: ToExpression_ToExpression_rest.induct)
  case (5 type f)
  then show ?case by (cases type) (simp_all add: TagSongFilter_ToExpression_def)
qed auto

lemma wf_filter_Optimize:
  "wf_filter f \<Longrightarrow> wf_filter (OptimizeSongFilter f)"
  "list_all wf_filter fs \<Longrightarrow> list_all wf_filter (OptimizeSongFilter_items fs) \<and> (fs \<noteq> [] \<longrightarrow> OptimizeSongFilter_items fs \<noteq> [])"
proof (induction f and fs rule: OptimizeSongFilter_OptimizeSongFilter_items.induct)
  case (1 fs)
  then show ?case by (cases "OptimizeSongFilter_items fs" rule: remdups_adj.cases) (simp_all add: case_single)
next
  case (2 f)
  then show ?case by (cases "OptimizeSongFilter f") simp_all
next
  case (5 f fs)
  then show ?case by (cases "OptimizeSongFilter f") simp_all
qed simp_all

lemma wf_filter_ParseItem: "ParseItem env fc s = Returns (f, r) \<Longrightarrow> wf_filter f"
proof -
  assume p: "ParseItem env fc s = Returns (f, r)"
  then obtain type s1 where t: "ExpectFilterType s = Returns (type, s1)" by (auto simp: ParseItem_def and_then_Returns)
  have since: "ParseSince mk s1 = Returns (f, r) \<Longrightarrow> \<exists>t. f = mk t" for mk by (auto simp: ParseSince_def and_then_Returns)
  have audio: "ParseAudioFormatItem s1 = Returns (f, r) \<Longrightarrow> \<exists>a. f = AudioFormatSongFilter a"
    by (auto simp: ParseAudioFormatItem_def and_then_Returns case_sum_Returns split: if_splits)
  have prio: "ParsePriorityItem s1 = Returns (f, r) \<Longrightarrow> \<exists>p. f = PrioritySongFilter p"
    by (auto simp: ParsePriorityItem_def and_then_Returns Let_def split: if_splits prod.splits)
  show ?thesis
    using p since [of ModifiedSinceSongFilter] since [of AddedSinceSongFilter] audio prio unfolding ParseItem_def t
    by (cases type) (auto simp: and_then_Returns)
qed

lemma wf_filter_ParseExpression:
  "ParseExpression env fc s = Returns (f, r) \<Longrightarrow> wf_filter f"
  "\<lbrakk>and_loop env fc fs s = Returns (f, r); list_all wf_filter fs\<rbrakk> \<Longrightarrow> wf_filter f"
proof (induction env fc s and env fc fs s arbitrary: f r and f r rule: ParseExpression_and_loop.induct)
  case (1 env fc)
  then show ?case by (simp add: ParseExpression.simps)
next
  case (2 env fc c s)
  consider (nested) "at_char CHR ''('' (StripLeft s)"
    | (neg) "\<not> at_char CHR ''('' (StripLeft s)" "at_char CHR ''!'' (StripLeft s)"
    | (item) "\<not> at_char CHR ''('' (StripLeft s)" "\<not> at_char CHR ''!'' (StripLeft s)" by blast
  then show ?case
  proof cases
    case nested
    with "2.prems" obtain first s2 where first: "ParseExpression env fc (StripLeft s) = Returns (first, s2)"
      and rest: "(if at_char CHR '')'' s2 then Returns (first, StripLeft (tl s2))
          else and_then (ExpectWord s2) (\<lambda>(word, s3).
            if word \<noteq> ''AND'' then Throws (single_quote # ''AND'' @ single_quote # '' expected'')
            else and_loop env fc [first] s3)) = Returns (f, r)"
      by (simp only: ParseExpression.simps if_True and_then_Returns) auto
    have wf: "wf_filter first" by (rule "2.IH"(1) [OF nested first])
    show ?thesis
    proof (cases "at_char CHR '')'' s2")
      case True
      then show ?thesis using rest wf by simp
    next
      case False
      with rest obtain s3 where s3: "ExpectWord s2 = Returns (''AND'', s3)" "and_loop env fc [first] s3 = Returns (f, r)"
        by (auto simp: and_then_Returns split: if_splits)
      show ?thesis using "2.IH"(2) [OF nested first refl False s3(1) refl _ s3(2)] wf by simp
    qed
  next
    case neg
    with "2.prems" obtain inner s3 where opened: "at_char CHR ''('' (StripLeft (tl (StripLeft s)))" "f = NotSongFilter inner"
      and inner: "ParseExpression env fc (StripLeft (tl (StripLeft s))) = Returns (inner, s3)"
      by (auto simp: ParseExpression.simps and_then_Returns split: if_splits)
    then show ?thesis using "2.IH"(3) [OF neg _ inner] by simp
  next
    case item
    with "2.prems" have "ParseItem env fc (StripLeft s) = Returns (f, r)" by (simp add: ParseExpression.simps)
    then show ?thesis by (rule wf_filter_ParseItem)
  qed
next
  case (3 env fc fs s)
  from "3.prems"(1) obtain g s1 where g: "ParseExpression env fc s = Returns (g, s1)"
    and rest: "(if at_char CHR '')'' s1 then Returns (AndSongFilter (fs @ [g]), StripLeft (tl s1))
       else and_then (ExpectWord s1) (\<lambda>(word, s2).
         if word \<noteq> ''AND'' then Throws (single_quote # ''AND'' @ single_quote # '' expected'')
         else and_loop env fc (fs @ [g]) s2)) = Returns (f, r)"
    by (simp only: and_loop.simps [of env fc fs s] and_then_Returns) auto
  have wf: "wf_filter g" by (rule "3.IH"(1) [OF g])
  show ?case
  proof (cases "at_char CHR '')'' s1")
    case True
    then show ?thesis using rest wf "3.prems"(2) by auto
  next
    case False
    with rest obtain s2 where s2: "ExpectWord s1 = Returns (''AND'', s2)" "and_loop env fc (fs @ [g]) s2 = Returns (f, r)"
      by (auto simp: and_then_Returns split: if_splits)
    show ?thesis using "3.IH"(2) [OF g refl False s2(1) refl _ s2(2)] wf "3.prems"(2) by simp
  qed
qed

lemma parse_args_wf:
  "\<lbrakk>parse_args env fc args sf = Returns sf'; list_all (at_char CHR ''('') args; list_all wf_filter sf\<rbrakk> \<Longrightarrow>
   list_all wf_filter sf' \<and> length sf' = length sf + length args"
proof (induction env fc args sf rule: parse_args.induct)
  case (2 env fc a sf)
  then show ?case by (auto simp: and_then_Returns wf_filter_ParseExpression split: if_splits)
next
  case (3 env fc a b args sf)
  then show ?case by (fastforce simp: and_then_Returns wf_filter_ParseExpression split: if_splits)
qed simp

section \<open>Properties\<close>

text \<open>
  Property C32 (roundtrip): the parser reads back what the printer wrote. For every filter with the
  case folding of the command, values that fit the parser's buffer, whole seconds and valid audio
  formats, \<open>ToExpression\<close> returns a text, and parsing that text gives the same filter and leaves
  nothing behind, whatever characters its values have.
\<close>

theorem filter_expression_roundtrip:
  assumes "printable_filter env fold_case f"
  shows "\<exists>e. ToExpression f = Returns e \<and> ParseExpression env fold_case e = Returns (f, []) \<and>
    SongFilter_Parse env fold_case [e] sf = Returns (sf @ [f])"
proof -
  obtain e where e: "ToExpression f = Returns e" "parses_back env fold_case f e"
    using ToExpression_parses_back(1) [OF assms] by blast
  then have "ParseExpression env fold_case e = Returns (f, [])" "at_char CHR ''('' e"
    by (auto simp: parses_back_def at_char_def StripLeft_def dest: spec [of _ "[]"])
  then show ?thesis using e(1) by (simp add: SongFilter_Parse_def)
qed

theorem filter_expression_roundtrip_witness:
  "\<exists>e. ToExpression (AndSongFilter [TagSongFilter FilterAny (StringFilter_new [double_quote, backslash] True ANYWHERE True), PrioritySongFilter 7]) = Returns e \<and>
     ParseExpression plain_env True e =
       Returns (AndSongFilter [TagSongFilter FilterAny (StringFilter_new [double_quote, backslash] True ANYWHERE True), PrioritySongFilter 7], []) \<and>
     SongFilter_Parse plain_env True [e] [] =
       Returns ([] @ [AndSongFilter [TagSongFilter FilterAny (StringFilter_new [double_quote, backslash] True ANYWHERE True), PrioritySongFilter 7]])"
  by (rule filter_expression_roundtrip) (simp add: string_filter_ok_def StringFilter_new_def)

text \<open>
  Property C33 (type): filters parsed from expressions are well formed: no conjunction is empty and
  no tag type is out of range. Optimizing keeps this, so that printing the optimized filter, as the
  proxy database does, is defined.
\<close>

theorem parsed_filter_well_formed:
  assumes "SongFilter_Parse env fold_case args [] = Returns sf" "list_all (at_char CHR ''('') args"
  shows "sf \<noteq> [] \<and> list_all wf_filter sf \<and> list_all wf_filter (SongFilter_Optimize sf) \<and>
    (\<exists>e. SongFilter_ToExpression (SongFilter_Optimize sf) = Returns e)"
proof -
  have "args \<noteq> []" "parse_args env fold_case args [] = Returns sf"
    using assms(1) by (auto simp: SongFilter_Parse_def split: if_splits)
  then have sf: "sf \<noteq> []" "list_all wf_filter sf" using parse_args_wf [OF _ assms(2)] by fastforce+
  note opt = wf_filter_Optimize(2) [OF sf(2)]
  then show ?thesis
    using sf wf_filter_ToExpression(1) [of "AndSongFilter (SongFilter_Optimize sf)"]
    by (simp add: SongFilter_ToExpression_def SongFilter_Optimize_def)
qed

theorem parsed_filter_well_formed_witness:
  "SongFilter_Parse plain_env False [''(!(base ''  @ quoted ''a'' @ ''))''] [] = Returns [NotSongFilter (BaseSongFilter ''a'')] \<and>
   (\<exists>e. SongFilter_ToExpression (SongFilter_Optimize [NotSongFilter (BaseSongFilter ''a'')]) = Returns e)"
proof -
  have p: "SongFilter_Parse plain_env False [''(!(base ''  @ quoted ''a'' @ ''))''] [] = Returns [NotSongFilter (BaseSongFilter ''a'')]"
    by code_simp
  then show ?thesis using parsed_filter_well_formed [OF p] by (simp add: at_char_def)
qed

text \<open>
  A text that ends after \<open>AND\<close> makes the parser skip the terminator as if it were
  a parenthesis and go on behind the end of the text: only a debug build checks for the parenthesis.
\<close>

lemma filter_ends_after_and:
  assumes "printable_filter env fold_case f" "ToExpression f = Returns e"
  shows "SongFilter_Parse env fold_case [''('' @ e @ '' AND''] sf = UB"
proof -
  obtain e' where e: "e = CHR ''('' # e'" and p: "ParseExpression env fold_case (e @ '' AND'') = Returns (f, ''AND'')"
    using ToExpression_parses_back(1) [OF assms(1)] assms(2) by (auto simp: parses_back_def StripLeft_def IsWhitespaceNotNull_def)
  have "ExpectWord ''AND'' = Returns (''AND'', [])" by code_simp
  then have "ParseExpression env fold_case (''('' @ e @ '' AND'') = UB"
    using p by (simp add: e ParseExpression.simps(2) [of _ _ "CHR ''(''" "CHR ''('' # _"] at_char_def and_loop.simps ParseExpression.simps(1))
  then show ?thesis by (simp add: SongFilter_Parse_def at_char_def)
qed

text \<open>
  The two-argument form accepts \<open>prio\<close> and \<open>AudioFormat\<close>, which it has no case for.
  The numbers of these types become the tag type of a filter that matches no song, and printing it
  reads behind the table of tag names.
\<close>

lemma filter_pair_without_case:
  assumes "locate_parse_type name = LOCATE_TAG_PRIORITY \<or> locate_parse_type name = LOCATE_TAG_AUDIO_FORMAT"
    and "\<not> at_char CHR ''('' name"
  shows "\<exists>sf. SongFilter_Parse env fold_case [name, val] [] = Returns sf \<and>
    \<not> SongFilter_Match env sf song \<and> SongFilter_ToExpression sf = UB"
  using assms
  by (auto simp: SongFilter_Parse_def SongFilter_Parse_pair_def SongFilter_Match_def compat_filter_def
      TagSongFilter_Match_any StringFilter_new_def SongFilter_ToExpression_def TagSongFilter_ToExpression_def)

end
