(* ===== verification/Spec2Isabelle.thy ===== *)
theory Spec2Isabelle
  imports Db_Roundtrip Update_Correct Update_Service Queue_Commands Cue_Parser Filter_Expression
begin

text \<open>
  A model of \<open>mpd-dbcreate\<close>, the database tool made from the Music Player Daemon (sources in
  \<^verbatim>\<open>src/src\<close>), and of the parts of the daemon that its database is made for.

  \<^bold>\<open>The program.\<close> The tool reads its command line (\<^verbatim>\<open>DbMain.cxx\<close>), loads the database file if
  there is one, walks over the music storage, scans files through decoder plugins, filters
  what it finds by channel count, CUE rules and \<^verbatim>\<open>.mpdignore\<close> lists, and writes the tree of
  directories, songs and playlists back to the file. In the daemon the walk is the job of an
  update service that runs one thread at a time, storages are mounted below one another by
  \<^verbatim>\<open>CompositeStorage\<close>, songs that disappear are reported to the main thread, and the play queue
  holds copies of songs of the database, which the playlist control plays and clients edit.

  \<^bold>\<open>The theories\<close>, in the order in which they build on each other:
  \<^item> \<open>Mpd_Prelude\<close>: shared types, fact collections, the locale \<open>codec\<close> of encoders and decoders
    and generic lemmas on lists, folds and integers of fixed width.
  \<^item> \<open>Util_Text\<close>: \<^verbatim>\<open>util/\<close> and \<^verbatim>\<open>io/\<close>: character classes, stripping, splitting, prefix and
    suffix tests, number parsers (\<^verbatim>\<open>strtol\<close>, \<^verbatim>\<open>atoi\<close> with their wrap-around), line readers.
  \<^item> \<open>Path_Traits\<close> and \<open>Uri_Util\<close>: \<^verbatim>\<open>fs/Traits.cxx\<close>, \<^verbatim>\<open>util/UriExtract.cxx\<close>, \<^verbatim>\<open>UriUtil.cxx\<close>,
    \<^verbatim>\<open>UriRelative.cxx\<close>: the check of URIs from clients against its specification by segments,
    the resolution of relative URIs against a reference resolver.
  \<^item> \<open>Iso8601\<close>: \<^verbatim>\<open>time/\<close>: time stamps printed and read back, with what is used of \<^verbatim>\<open>timegm\<close>,
    \<^verbatim>\<open>gmtime_r\<close>, \<^verbatim>\<open>strftime\<close> and \<^verbatim>\<open>strptime\<close> of the C library.
  \<^item> \<open>Audio_Format\<close>: \<^verbatim>\<open>pcm/SampleFormat\<close>, \<^verbatim>\<open>AudioFormat\<close>, \<^verbatim>\<open>AudioParser\<close>, \<^verbatim>\<open>CheckAudioFormat\<close>;
    printing and parsing are inverse, the print buffer is large enough.
  \<^item> \<open>Sort_List\<close>: \<^verbatim>\<open>util/SortList.hxx\<close>, the bottom-up merge sort of intrusive lists, proved
    sorted, stable and a permutation inside a locale for any strict weak order.
  \<^item> \<open>Tag_Model\<close>: \<^verbatim>\<open>tag/\<close>: types, names, masks, \<^verbatim>\<open>Tag\<close>, \<^verbatim>\<open>TagBuilder\<close>, \<^verbatim>\<open>FixTagString\<close>, merging
    and comparing.
  \<^item> \<open>Simple_Directory\<close>: \<^verbatim>\<open>db/plugins/simple/Directory.cxx\<close>, \<^verbatim>\<open>Song.cxx\<close>, \<^verbatim>\<open>SongSort.cxx\<close>,
    \<^verbatim>\<open>db/PlaylistVector.cxx\<close>. A \<open>directory\<close> is a tree; \<open>tree_ok\<close> is its invariant (unique
    names, paths that match the position). Lookup, sorting, pruning and walking.
  \<^item> \<open>Db_Save\<close> and \<open>Db_Roundtrip\<close>: \<^verbatim>\<open>SongSave.cxx\<close>, \<^verbatim>\<open>TagSave.cxx\<close>, \<^verbatim>\<open>PlaylistDatabase.cxx\<close>,
    \<^verbatim>\<open>DirectorySave.cxx\<close>, \<^verbatim>\<open>DatabaseSave.cxx\<close>: each writer with its loader is a
    \<open>framed_codec\<close>, whose interpretations compose to the round trip of the whole file; the
    error paths of the loader.
  \<^item> \<open>Update_Filters\<close>: \<^verbatim>\<open>DbMain.cxx\<close> (options, progress timer), \<^verbatim>\<open>FilteredSongUpdate.cxx\<close>,
    \<^verbatim>\<open>CueValidator.cxx\<close>, \<^verbatim>\<open>ExcludeList.cxx\<close>.
  \<^item> \<open>Update_Walk\<close>: \<^verbatim>\<open>db/update/Walk.cxx\<close>, \<^verbatim>\<open>UpdateSong.cxx\<close>, \<^verbatim>\<open>Container.cxx\<close>, \<^verbatim>\<open>Archive.cxx\<close>,
    \<^verbatim>\<open>Playlist.cxx\<close>, \<^verbatim>\<open>VirtualDirectory.cxx\<close>, \<^verbatim>\<open>Editor.cxx\<close>, \<^verbatim>\<open>UpdateIO.cxx\<close>. The state is the
    stack of directories from the current one up to the root (the C++ parent pointers) and
    the record of the flag \<open>modified\<close>, the reported removals and a clock; storage, plugins,
    cancellation and file system calls are the fields of \<open>walk_env\<close>.
  \<^item> \<open>Update_Invariants\<close>, \<open>Update_Correct\<close>, \<open>Update_Total\<close>, \<open>Update_Reports\<close>: what the steps
    of the walk keep (the locale \<open>directory_updater\<close> is the contract of the recursive call,
    interpreted on every level of the recursion), that nothing stale is left, that what the
    storage holds is found, that the walk ends, that removals are reported.
  \<^item> \<open>Composite_Storage\<close>: \<^verbatim>\<open>storage/CompositeStorage.cxx\<close>: the mount tree as a refinement of a
    map (locale \<open>mount_table\<close>), routing of requests, the combined directory reader with its
    iterator into a set.
  \<^item> \<open>Update_Service\<close>: \<^verbatim>\<open>db/update/Queue.cxx\<close>, \<^verbatim>\<open>Service.cxx\<close>, \<^verbatim>\<open>Remove.cxx\<close>: jobs, thread,
    inject event and cancellation as a transition relation over the record \<open>service\<close>; a job
    runs the model of the walk; the two threads of the remove service step by step.
  \<^item> \<open>Player_Queue\<close>, \<open>Queue_Correct\<close>, \<open>Queue_Order\<close>, \<open>Queue_Steps\<close>: \<^verbatim>\<open>queue/IdTable.hxx\<close> and
    \<^verbatim>\<open>queue/Queue.cxx\<close>: arrays of fixed size with ids, positions, play order and priorities;
    the invariant \<open>queue_ok\<close>, the refinement of list operations, the shuffles.
  \<^item> \<open>Cue_Parser\<close>: \<^verbatim>\<open>playlist/cue/CueParser.cxx\<close> and \<^verbatim>\<open>CuePlaylistPlugin.cxx\<close>: the parser with its
    slots for the current, the previous and a finished song; enumerating a sheet refines reading
    it in one go.
  \<^item> \<open>Song_Filter\<close> and \<open>Filter_Expression\<close>: \<^verbatim>\<open>song/\<close>: conversions between song types, filters as a
    datatype with one constructor per class, matching, optimizing, and the expression language
    of the protocol: the recursive descent parser and the printer are inverse to each other.
  \<^item> \<open>Db_Select\<close>: \<^verbatim>\<open>db/Selection.cxx\<close>, \<^verbatim>\<open>VHelper.cxx\<close>, \<^verbatim>\<open>SimpleDatabasePlugin.cxx\<close>, \<^verbatim>\<open>Mount.cxx\<close>,
    \<^verbatim>\<open>UniqueTags.cxx\<close>, \<^verbatim>\<open>Helpers.cxx\<close>, \<^verbatim>\<open>Count.cxx\<close>: what a query reports, through mounted databases
    too, and the maps and statistics made of it.

  \<^item> \<open>Play_Control\<close>: \<^verbatim>\<open>queue/Playlist.cxx\<close>, \<^verbatim>\<open>PlaylistControl.cxx\<close>, \<^verbatim>\<open>PlaylistEdit.cxx\<close>,
    \<^verbatim>\<open>PlaylistTag.cxx\<close>, \<^verbatim>\<open>PlaylistUpdate.cxx\<close>: the record \<open>playlist\<close> with the current and the queued
    song as order numbers of the play queue. The player is seen through the conversation with it:
    the commands sent are recorded, and each answer is any function of the conversation so far.
  \<^item> \<open>Play_Invariant\<close>, \<open>Play_Steps\<close>, \<open>Play_Edits\<close>, \<open>Play_Correct\<close>: total correctness of results that may
    fail (\<open>ensures\<close>), the invariant \<open>play_ok\<close> (indexes in range, the player knows of the queued song
    and of no other), the weaker \<open>mid\<close> in the middle of an edit, one lemma per operation, and the
    properties over all operations and reachable states; the two cases in which the code fails.
  \<^item> \<open>Queue_Commands\<close>: \<^verbatim>\<open>protocol/ArgParser.cxx\<close>, \<^verbatim>\<open>command/PositionArg.cxx\<close> and the commands of
    \<^verbatim>\<open>command/QueueCommands.cxx\<close> that edit the queue, from the text of the arguments on.

  \<^bold>\<open>Fuel and bounds.\<close> \<open>UpdateDirectory\<close> recurses along the directories of a storage that may
  have links in a circle. Its fuel bounds the depth only; a directory is entered only when its
  inode number is not that of an ancestor, so the number of inode numbers is enough
  (\<open>UpdateWalk_terminates\<close>), and \<open>None\<close>, running out of fuel, is excluded there. \<open>read_names\<close>
  reads a directory with as many calls as there are names plus one. \<open>GenerateId\<close> of the id
  table is a \<^theory_text>\<open>partial_function\<close>, because its loop ends only if an id is free;
  \<open>Queue_refines_list\<close> shows that it returns for every queue that is not full. Other loops
  are recursion with a measure on the unread text; \<open>read_songs\<close> calls \<open>NextSong\<close> until it returns
  null, for which the number of lines and three calls more are enough (\<open>cue_songs_complete\<close>).

  \<^bold>\<open>Parameters.\<close> Decoders, playlist parsers, archives, the file system, the collation and case
  folding of ICU, pattern matching of \<^verbatim>\<open>fnmatch\<close>, decimal text of floating point values, the
  random engine and mounted storages are arguments of the definitions that use them. What is
  assumed of them is a named predicate (\<open>env_ok\<close>, \<open>play_env_ok\<close>, \<open>collate_ok\<close>, \<open>shuffler_ok\<close>, ...) with an
  instance in the witness of each property.

  \<^bold>\<open>Not modelled.\<close> Codecs, disc image readers, outputs, mixers, encoders and network code;
  tag readers of file formats; opening and compressing the database file
  (\<^verbatim>\<open>SimpleDatabasePlugin.cxx\<close>); \<^verbatim>\<open>DetachedSong::Update\<close>; the player thread; of the client protocol
  all but the commands that edit the queue. Allocation failures are not modelled.
\<close>

end
